(* ===== verification/Base.thy ===== *)
theory Base
  imports Main "HOL-Library.Word" "HOL-Library.Multiset" "HOL-Library.Sublist" "HOL-Library.Signed_Division"
begin

text \<open>
  Prelude of the jppdos development: the representation of C strings, the
  splitting of paths and names into segments, sequences of operations on a
  component's state, and two contracts (locales) that several components share:
  an operation set that keeps an invariant, and an encoder with its decoder.

  A C string is the list of its characters before the terminating NUL; a
  pointer that the code compares with NULL is an option. Reading at the
  position of the terminator gives None.
\<close>

named_theorems cdiv_simps
  \<open>C division as floor division\<close>

type_synonym cstr = "string option"

definition char_at :: "string \<Rightarrow> nat \<Rightarrow> char option" where
  "char_at s i = (if i < length s then Some (s ! i) else None)"

lemma char_at_Nil [simp]: "char_at [] i = None"
  by (simp add: char_at_def)

lemma char_at_Cons_0 [simp]: "char_at (c # s) 0 = Some c"
  by (simp add: char_at_def)

lemma char_at_Cons_Suc [simp]: "char_at (c # s) (Suc i) = char_at s i"
  by (simp add: char_at_def)

text \<open>The number of a character, as the C code compares it.\<close>

definition ord :: "char \<Rightarrow> nat" where
  "ord c = of_char c"

section \<open>Segments\<close>

fun split_on :: "'a \<Rightarrow> 'a list \<Rightarrow> 'a list list" where
  "split_on d [] = [ [] ]"
| "split_on d (x # xs) =
     (if x = d then [] # split_on d xs
      else (case split_on d xs of [] \<Rightarrow> [ [x] ] | y # ys \<Rightarrow> (x # y) # ys))"

lemma split_on_nonempty [simp]: "split_on d xs \<noteq> []"
  by (cases xs) (simp_all split: list.split)

lemma split_on_Cons [simp]:
  "split_on d (x # xs) =
     (if x = d then [] # split_on d xs
      else (x # hd (split_on d xs)) # tl (split_on d xs))"
  by (simp split: list.split)

declare split_on.simps(2) [simp del]

lemma split_on_no_sep: "seg \<in> set (split_on d xs) \<Longrightarrow> d \<notin> set seg"
proof (induction xs arbitrary: seg)
  case (Cons x xs)
  have "hd (split_on d xs) \<in> set (split_on d xs)" by simp
  moreover have "set (tl (split_on d xs)) \<subseteq> set (split_on d xs)"
    by (simp add: list.set_sel(2) subsetI)
  ultimately show ?case using Cons by (auto split: if_splits)
qed simp

lemma list_all_hd_tl:
  "xs \<noteq> [] \<Longrightarrow> list_all P xs \<longleftrightarrow> P (hd xs) \<and> list_all P (tl xs)"
  by (cases xs) simp_all

lemma set_hd_tl: "xs \<noteq> [] \<Longrightarrow> x \<in> set xs \<longleftrightarrow> x = hd xs \<or> x \<in> set (tl xs)"
  by (cases xs) simp_all

lemma split_on_append_sep:
  "split_on d (xs @ d # ys) = split_on d xs @ split_on d ys"
  by (induction xs) simp_all

lemma split_on_single: "d \<notin> set xs \<Longrightarrow> split_on d xs = [xs]"
  by (induction xs) auto

fun join_with :: "'a \<Rightarrow> 'a list list \<Rightarrow> 'a list" where
  "join_with d [] = []"
| "join_with d [x] = x"
| "join_with d (x # y # zs) = x @ d # join_with d (y # zs)"

lemma join_with_Cons: "zs \<noteq> [] \<Longrightarrow> join_with d (x # zs) = x @ d # join_with d zs"
  by (cases zs) simp_all

lemma join_with_append:
  "xs \<noteq> [] \<Longrightarrow> ys \<noteq> [] \<Longrightarrow> join_with d (xs @ ys) = join_with d xs @ d # join_with d ys"
proof (induction xs)
  case (Cons x xs)
  then show ?case by (cases "xs = []") (simp_all add: join_with_Cons)
qed simp

lemma join_split [simp]: "join_with d (split_on d xs) = xs"
proof (induction xs)
  case (Cons x xs)
  obtain y ys where "split_on d xs = y # ys" by (cases "split_on d xs") simp_all
  then show ?case using Cons by (cases ys) auto
qed simp

text \<open>A string continues another at a separator exactly when its segments start
  with the other's segments.\<close>

lemma prefix_segments_iff:
  "take (length r) p = r \<and> char_at p (length r) \<in> {None, Some d} \<longleftrightarrow>
     prefix (split_on d r) (split_on d p)"
proof
  assume a: "take (length r) p = r \<and> char_at p (length r) \<in> {None, Some d}"
  then have p: "p = r @ drop (length r) p" by (metis append_take_drop_id)
  show "prefix (split_on d r) (split_on d p)"
  proof (cases "drop (length r) p")
    case Nil
    with p show ?thesis by (metis append_Nil2 prefix_order.refl)
  next
    case (Cons c t)
    have "c = d"
      using a arg_cong[OF p, of "\<lambda>q. char_at q (length r)"] Cons by (auto simp: char_at_def)
    with Cons p have "p = r @ d # t" by simp
    then show ?thesis by (simp add: split_on_append_sep)
  qed
next
  assume "prefix (split_on d r) (split_on d p)"
  then obtain ws where ws: "split_on d p = split_on d r @ ws" by (auto elim: prefixE)
  show "take (length r) p = r \<and> char_at p (length r) \<in> {None, Some d}"
  proof (cases "ws = []")
    case True
    with ws have "p = r" by (metis join_split append_Nil2)
    then show ?thesis by (simp add: char_at_def)
  next
    case False
    with ws have "p = r @ d # join_with d ws"
      by (metis join_split join_with_append split_on_nonempty)
    then show ?thesis by (simp add: char_at_def)
  qed
qed

section \<open>C integers\<close>

text \<open>C division truncates towards zero (sdiv); on the values the code divides it is
  mostly the floor division.\<close>

lemma sdiv_nonneg [cdiv_simps]: "0 \<le> a \<Longrightarrow> 0 < b \<Longrightarrow> a sdiv b = a div (b :: int)"
  by (simp add: signed_divide_int_def sgn_if)

lemma sdiv_neg [cdiv_simps]: "a < 0 \<Longrightarrow> 0 < b \<Longrightarrow> a sdiv b = - ((- a) div (b :: int))"
  by (simp add: signed_divide_int_def sgn_if)

lemma sdiv_mono: "a \<le> b \<Longrightarrow> 0 < d \<Longrightarrow> a sdiv d \<le> b sdiv (d :: int)"
proof -
  assume "a \<le> b" "0 < d"
  then show ?thesis
    using pos_imp_zdiv_nonneg_iff[of d "- a"] pos_imp_zdiv_nonneg_iff[of d b]
    by (cases "a < 0"; cases "b < 0") (auto simp: cdiv_simps intro: zdiv_mono1)
qed

section \<open>Sequences of operations\<close>

text \<open>An operation takes the state and returns a status and the new state.\<close>

definition run_ops :: "('s \<Rightarrow> 'op \<Rightarrow> 'r \<times> 's) \<Rightarrow> 's \<Rightarrow> 'op list \<Rightarrow> 's" where
  "run_ops step s ops = foldl (\<lambda>s op. snd (step s op)) s ops"

lemma run_ops_Nil [simp]: "run_ops step s [] = s"
  by (simp add: run_ops_def)

lemma run_ops_Cons [simp]:
  "run_ops step s (op # ops) = run_ops step (snd (step s op)) ops"
  by (simp add: run_ops_def)

lemma run_ops_append [simp]:
  "run_ops step s (xs @ ys) = run_ops step (run_ops step s xs) ys"
  by (simp add: run_ops_def)

locale kept_invariant =
  fixes step :: "'s \<Rightarrow> 'op \<Rightarrow> 'r \<times> 's" and inv :: "'s \<Rightarrow> bool"
  assumes step_inv: "inv s \<Longrightarrow> inv (snd (step s op))"
begin

lemma run_inv: "inv s \<Longrightarrow> inv (run_ops step s ops)"
  by (induction ops arbitrary: s) (simp_all add: step_inv)

end

text \<open>
  A component whose refused operations leave the state as it was: the state
  after a run is the state after the accepted operations of that run alone.
\<close>

fun accepted :: "('s \<Rightarrow> 'op \<Rightarrow> 'r \<times> 's) \<Rightarrow> 'r \<Rightarrow> 's \<Rightarrow> 'op list \<Rightarrow> 'op list" where
  "accepted step ok s [] = []"
| "accepted step ok s (op # ops) =
     (if fst (step s op) = ok
      then op # accepted step ok (snd (step s op)) ops
      else accepted step ok (snd (step s op)) ops)"

locale atomic_machine = kept_invariant step inv
  for step :: "'s \<Rightarrow> 'op \<Rightarrow> 'r \<times> 's" and inv :: "'s \<Rightarrow> bool" +
  fixes ok :: 'r
  assumes refused_unchanged: "fst (step s op) \<noteq> ok \<Longrightarrow> snd (step s op) = s"
begin

lemma run_accepted: "run_ops step s (accepted step ok s ops) = run_ops step s ops"
  by (induction ops arbitrary: s) (simp_all add: refused_unchanged)

end

section \<open>Encoders and decoders\<close>

locale codec =
  fixes enc :: "'a \<Rightarrow> 'b" and dec :: "'b \<Rightarrow> 'a" and dom_ok :: "'a \<Rightarrow> bool"
  assumes dec_enc: "dom_ok a \<Longrightarrow> dec (enc a) = a"
begin

lemma enc_inj: "dom_ok a \<Longrightarrow> dom_ok b \<Longrightarrow> enc a = enc b \<longleftrightarrow> a = b"
  using dec_enc by metis

lemma map_dec_enc: "\<forall>a\<in>set xs. dom_ok a \<Longrightarrow> map dec (map enc xs) = xs"
  by (induction xs) (simp_all add: dec_enc)

end

section \<open>Bounded FIFO queues\<close>

text \<open>The contract of a bounded queue: the list it holds, oldest first, its
  capacity, and partial operations that refuse only on a full or empty queue.\<close>

datatype 'a fifo_op = Fifo_Enq 'a | Fifo_Deq

fun fifo_run ::
  "('q \<Rightarrow> 'a \<Rightarrow> 'q option) \<Rightarrow> ('q \<Rightarrow> ('a \<times> 'q) option) \<Rightarrow> 'q \<Rightarrow> 'a fifo_op list \<Rightarrow>
   'a list \<times> 'a list \<times> 'q" where
  "fifo_run enq deq q [] = ([], [], q)"
| "fifo_run enq deq q (Fifo_Enq a # ops) =
     (case enq q a of
        None \<Rightarrow> fifo_run enq deq q ops
      | Some q' \<Rightarrow> (let (acc, out, r) = fifo_run enq deq q' ops in (a # acc, out, r)))"
| "fifo_run enq deq q (Fifo_Deq # ops) =
     (case deq q of
        None \<Rightarrow> fifo_run enq deq q ops
      | Some (a, q') \<Rightarrow> (let (acc, out, r) = fifo_run enq deq q' ops in (acc, a # out, r)))"

locale bounded_fifo =
  fixes content :: "'q \<Rightarrow> 'a list" and capacity :: "'q \<Rightarrow> nat" and inv :: "'q \<Rightarrow> bool"
    and enq :: "'q \<Rightarrow> 'a \<Rightarrow> 'q option" and deq :: "'q \<Rightarrow> ('a \<times> 'q) option"
  assumes bounded: "inv q \<Longrightarrow> length (content q) \<le> capacity q"
    and enq_full: "inv q \<Longrightarrow> enq q a = None \<longleftrightarrow> length (content q) = capacity q"
    and enq_some: "inv q \<Longrightarrow> enq q a = Some q' \<Longrightarrow>
      inv q' \<and> content q' = content q @ [a] \<and> capacity q' = capacity q"
    and deq_empty: "inv q \<Longrightarrow> deq q = None \<longleftrightarrow> content q = []"
    and deq_some: "inv q \<Longrightarrow> deq q = Some (a, q') \<Longrightarrow>
      inv q' \<and> content q = a # content q' \<and> capacity q' = capacity q"
begin

lemma fifo_order:
  "inv q \<Longrightarrow> fifo_run enq deq q ops = (acc, out, r) \<Longrightarrow>
     inv r \<and> capacity r = capacity q \<and> content q @ acc = out @ content r"
proof (induction ops arbitrary: q acc out r)
  case (Cons op ops)
  show ?case
  proof (cases op)
    case (Fifo_Enq a)
    then show ?thesis
      using Cons enq_some[OF Cons.prems(1), of a]
      by (fastforce split: option.splits prod.splits)
  next
    case Fifo_Deq
    show ?thesis
    proof (cases "deq q")
      case None
      then show ?thesis using Cons Fifo_Deq by simp
    next
      case (Some p)
      obtain a q' where p: "p = (a, q')" by (cases p)
      obtain acc' out' r' where rr: "fifo_run enq deq q' ops = (acc', out', r')"
        by (cases "fifo_run enq deq q' ops")
      from deq_some[OF Cons.prems(1)] Some p
      have d: "inv q'" "content q = a # content q'" "capacity q' = capacity q" by auto
      show ?thesis using Cons.IH[OF d(1) rr] d Cons.prems(2) Fifo_Deq Some p rr by simp
    qed
  qed
qed simp

end

end
