(* ===== verification/Strings.thy ===== *)
theory Strings
  imports Base
begin

text \<open>
  The inline helpers of include/jpp_string_util.h: nullable string tests, the
  name grammar, the parent-segment scan and the bounded copy.
\<close>

definition str_nonempty :: "cstr \<Rightarrow> bool" where
  "str_nonempty s = (case s of None \<Rightarrow> False | Some t \<Rightarrow> char_at t 0 \<noteq> None)"

definition str_eq :: "cstr \<Rightarrow> cstr \<Rightarrow> bool" where
  "str_eq a b = (case (a, b) of (Some x, Some y) \<Rightarrow> x = y | _ \<Rightarrow> False)"

definition name_char :: "char \<Rightarrow> bool" where
  "name_char c =
     ((ord c \<ge> ord (CHR ''a'') \<and> ord c \<le> ord (CHR ''z'')) \<or>
      (ord c \<ge> ord (CHR ''A'') \<and> ord c \<le> ord (CHR ''Z'')) \<or>
      (ord c \<ge> ord (CHR ''0'') \<and> ord c \<le> ord (CHR ''9'')) \<or> c = CHR ''_'')"

text \<open>The loop of jpp_str_name_valid from one position on: the flag is
  previous_was_dot, the list what is left of the name.\<close>

fun name_valid_loop :: "bool \<Rightarrow> string \<Rightarrow> bool" where
  "name_valid_loop previous_was_dot [] = True"
| "name_valid_loop previous_was_dot (c # rest) =
     (if c = CHR ''.'' then
        (if previous_was_dot \<or> char_at rest 0 = None then False
         else name_valid_loop True rest)
      else if name_char c then name_valid_loop False rest
      else False)"

definition str_name_valid :: "cstr \<Rightarrow> bool" where
  "str_name_valid name =
     (case name of None \<Rightarrow> False
      | Some n \<Rightarrow>
          if \<not> str_nonempty name \<or> char_at n 0 = Some (CHR ''.'') then False
          else name_valid_loop False n)"

text \<open>The test of the loop body of jpp_str_has_parent_segment at index i.\<close>

definition parent_at :: "string \<Rightarrow> nat \<Rightarrow> bool" where
  "parent_at path i =
     (char_at path i = Some (CHR ''.'') \<and> char_at path (i + 1) = Some (CHR ''.'') \<and>
      (i = 0 \<or> char_at path (i - 1) = Some (CHR ''/'')) \<and>
      (char_at path (i + 2) = None \<or> char_at path (i + 2) = Some (CHR ''/'')))"

definition str_has_parent_segment :: "cstr \<Rightarrow> bool" where
  "str_has_parent_segment path =
     (case path of None \<Rightarrow> False
      | Some p \<Rightarrow> list_ex (parent_at p) [0..<length p])"

text \<open>The text snprintf leaves in a buffer of n bytes (n > 0): a prefix and
  the NUL. A NULL destination or a zero size writes nothing (None).\<close>

definition str_copy :: "nat \<Rightarrow> cstr \<Rightarrow> string option" where
  "str_copy n src =
     (if n = 0 then None
      else Some (take (n - 1) (case src of None \<Rightarrow> [] | Some s \<Rightarrow> s)))"

section \<open>Lemmas\<close>

lemma str_nonempty_Some [simp]: "str_nonempty (Some s) \<longleftrightarrow> s \<noteq> []"
  by (cases s) (simp_all add: str_nonempty_def)

lemma str_nonempty_None [simp]: "\<not> str_nonempty None"
  by (simp add: str_nonempty_def)

lemma str_eq_Some [simp]: "str_eq (Some a) (Some b) \<longleftrightarrow> a = b"
  by (simp add: str_eq_def)

lemma str_eq_None [simp]: "\<not> str_eq None b" "\<not> str_eq a None"
  by (simp_all add: str_eq_def split: option.split)

lemma str_copy_length: "str_copy n src = Some t \<Longrightarrow> length t < n"
  by (auto simp: str_copy_def split: if_splits)

lemma str_name_valid_nonempty: "str_name_valid (Some n) \<Longrightarrow> n \<noteq> []"
  by (auto simp: str_name_valid_def)

definition name_segment :: "string \<Rightarrow> bool" where
  "name_segment seg = (seg \<noteq> [] \<and> list_all name_char seg)"

lemma name_char_dot [simp]: "\<not> name_char (CHR ''.'')"
  by (simp add: name_char_def ord_def)

lemma name_valid_loop_iff:
  "name_valid_loop prev s \<longleftrightarrow>
     list_all name_char (hd (split_on (CHR ''.'') s)) \<and>
     list_all name_segment (tl (split_on (CHR ''.'') s)) \<and>
     (prev \<longrightarrow> s = [] \<or> hd (split_on (CHR ''.'') s) \<noteq> [])"
proof (induction s arbitrary: prev)
  case (Cons c s)
  have "list_all name_segment (split_on (CHR ''.'') s) \<longleftrightarrow>
      name_segment (hd (split_on (CHR ''.'') s)) \<and>
      list_all name_segment (tl (split_on (CHR ''.'') s))"
    by (rule list_all_hd_tl) simp
  moreover have "name_segment (hd (split_on (CHR ''.'') s)) \<longleftrightarrow>
      hd (split_on (CHR ''.'') s) \<noteq> [] \<and> list_all name_char (hd (split_on (CHR ''.'') s))"
    by (simp add: name_segment_def)
  moreover have "name_segment (c # hd (split_on (CHR ''.'') s)) \<longleftrightarrow>
      name_char c \<and> list_all name_char (hd (split_on (CHR ''.'') s))"
    by (simp add: name_segment_def)
  moreover have "s = [] \<longleftrightarrow> char_at s 0 = None" by (cases s) simp_all
  ultimately show ?case
    by (cases "s = []") (auto simp: Cons.IH)
qed simp

lemma hd_split_on_empty:
  "hd (split_on d s) = [] \<longleftrightarrow> s = [] \<or> char_at s 0 = Some d"
  by (cases s) auto

text \<open>jpp_str_name_valid accepts exactly the names of its comment's grammar: one
  or more non-empty segments of letters, digits and underscores, joined by
  single dots.\<close>

theorem str_name_valid_iff:
  "str_name_valid name \<longleftrightarrow>
     (\<exists>n. name = Some n \<and> list_all name_segment (split_on (CHR ''.'') n))"
proof (cases name)
  case None
  then show ?thesis by (simp add: str_name_valid_def)
next
  case (Some n)
  have "list_all name_segment (split_on (CHR ''.'') n) \<longleftrightarrow>
      name_segment (hd (split_on (CHR ''.'') n)) \<and>
      list_all name_segment (tl (split_on (CHR ''.'') n))"
    by (rule list_all_hd_tl) simp
  moreover have "name_segment (hd (split_on (CHR ''.'') n)) \<longleftrightarrow>
      hd (split_on (CHR ''.'') n) \<noteq> [] \<and> list_all name_char (hd (split_on (CHR ''.'') n))"
    by (simp add: name_segment_def)
  ultimately show ?thesis using Some hd_split_on_empty[of "CHR ''.''" n]
    by (auto simp: str_name_valid_def name_valid_loop_iff)
qed

text \<open>The scan for a parent segment, segment by segment: the flag says that
  the position is the start of a segment.\<close>

fun parent_scan :: "bool \<Rightarrow> string \<Rightarrow> bool" where
  "parent_scan b [] = False"
| "parent_scan b (c # s) =
     ((b \<and> c = CHR ''.'' \<and> (s = ''.'' \<or> take 2 s = ''./'')) \<or> parent_scan (c = CHR ''/'') s)"

definition parent_at' :: "bool \<Rightarrow> string \<Rightarrow> nat \<Rightarrow> bool" where
  "parent_at' b p i =
     (char_at p i = Some (CHR ''.'') \<and> char_at p (i + 1) = Some (CHR ''.'') \<and>
      (if i = 0 then b else char_at p (i - 1) = Some (CHR ''/'')) \<and>
      (char_at p (i + 2) = None \<or> char_at p (i + 2) = Some (CHR ''/'')))"

lemma parent_at'_Suc:
  "parent_at' b (c # s) (Suc i) = parent_at' (c = CHR ''/'') s i"
  by (cases i) (auto simp: parent_at'_def)

lemma parent_at'_0:
  "parent_at' b (c # s) 0 \<longleftrightarrow> b \<and> c = CHR ''.'' \<and> (s = ''.'' \<or> take 2 s = ''./'')"
proof (cases s)
  case (Cons d t)
  then show ?thesis by (cases t) (auto simp: parent_at'_def char_at_def numeral_2_eq_2)
qed (simp add: parent_at'_def)

lemma parent_scan_iff: "parent_scan b p \<longleftrightarrow> (\<exists>i<length p. parent_at' b p i)"
proof (induction p arbitrary: b)
  case (Cons c s)
  have "(\<exists>i<length (c # s). parent_at' b (c # s) i) \<longleftrightarrow>
      parent_at' b (c # s) 0 \<or> (\<exists>i<length s. parent_at' b (c # s) (Suc i))"
    using less_Suc_eq_0_disj by auto
  then show ?case by (simp add: Cons.IH parent_at'_0 parent_at'_Suc)
qed simp

lemma hd_split_on_dot:
  "hd (split_on (CHR ''/'') s) = ''.'' \<longleftrightarrow> s = ''.'' \<or> take 2 s = ''./''"
proof (cases s)
  case (Cons d t)
  then show ?thesis by (cases t) auto
qed simp

lemma parent_scan_split:
  "parent_scan b p \<longleftrightarrow>
     (if b then ''..'' \<in> set (split_on (CHR ''/'') p)
      else ''..'' \<in> set (tl (split_on (CHR ''/'') p)))"
proof (induction p arbitrary: b)
  case (Cons c s)
  have "''..'' \<in> set (split_on (CHR ''/'') s) \<longleftrightarrow>
      ''..'' = hd (split_on (CHR ''/'') s) \<or> ''..'' \<in> set (tl (split_on (CHR ''/'') s))"
    by (rule set_hd_tl) simp
  moreover have "''..'' = c # hd (split_on (CHR ''/'') s) \<longleftrightarrow>
      c = CHR ''.'' \<and> (s = ''.'' \<or> take 2 s = ''./'')"
    using hd_split_on_dot[of s] by auto
  ultimately show ?case by (auto simp: Cons.IH)
qed simp

lemma str_has_parent_segment_split:
  "str_has_parent_segment path \<longleftrightarrow>
     (\<exists>p. path = Some p \<and> ''..'' \<in> set (split_on (CHR ''/'') p))"
proof (cases path)
  case (Some p)
  have "parent_at p i = parent_at' True p i" for i
    by (auto simp: parent_at_def parent_at'_def)
  then have "list_ex (parent_at p) [0..<length p] \<longleftrightarrow> parent_scan True p"
    by (auto simp: list_ex_iff parent_scan_iff)
  with Some show ?thesis
    by (simp add: str_has_parent_segment_def parent_scan_split)
qed (simp add: str_has_parent_segment_def)

text \<open>jpp_str_has_parent_segment reports exactly the paths that have a segment
  "..", whatever precedes or follows it.\<close>

theorem str_has_parent_segment_iff:
  "str_has_parent_segment path \<longleftrightarrow>
     (\<exists>p. path = Some p \<and> ''..'' \<in> set (split_on (CHR ''/'') p))"
  by (rule str_has_parent_segment_split)

end
