(* ===== verification/Settings.thy ===== *)
theory Settings
  imports Base
begin

text \<open>
  src/jpp_settings_core.c: what the firmware decides about the stored settings
  from a probe of the storage (is the main file there, is the temporary file
  there, what the payload was like).
\<close>

datatype settings_source = SETTINGS_SOURCE_UNKNOWN | SETTINGS_SOURCE_DEFAULTS | SETTINGS_SOURCE_STORED

datatype settings_payload_status = PAYLOAD_MISSING | PAYLOAD_VALID | PAYLOAD_CORRUPT

datatype settings_status =
  SETTINGS_STATUS_OK | SETTINGS_STATUS_INVALID_ARGUMENT | SETTINGS_STATUS_INVALID_STATE

record settings_probe =
  main_exists :: bool
  temp_exists :: bool
  payload_status :: settings_payload_status

record settings_load_result =
  ls_source :: settings_source
  used_defaults_marker :: bool
  used_stored_marker :: bool
  recovered_marker :: bool
  corrupt_reset_marker :: bool

definition settings_load_result_init :: settings_load_result where
  "settings_load_result_init =
     \<lparr> ls_source = SETTINGS_SOURCE_UNKNOWN, used_defaults_marker = False,
       used_stored_marker = False, recovered_marker = False, corrupt_reset_marker = False \<rparr>"

text \<open>The result parameter is an out parameter: None is a NULL pointer; what it
  held before does not matter, since jpp_settings_classify resets it.\<close>

definition settings_classify ::
  "settings_probe option \<Rightarrow> settings_load_result option \<Rightarrow>
   settings_status \<times> settings_load_result option" where
  "settings_classify probe result =
     (case (probe, result) of
        (Some p, Some _) \<Rightarrow>
          let r = settings_load_result_init;
              effective_main_exists = (main_exists p \<or> temp_exists p)
          in if \<not> effective_main_exists then
               (if payload_status p \<noteq> PAYLOAD_MISSING
                then (SETTINGS_STATUS_INVALID_STATE, Some r)
                else (SETTINGS_STATUS_OK,
                      Some (r\<lparr> ls_source := SETTINGS_SOURCE_DEFAULTS,
                               used_defaults_marker := True \<rparr>)))
             else
               (let r = r\<lparr> recovered_marker := (\<not> main_exists p \<and> temp_exists p) \<rparr>
                in case payload_status p of
                     PAYLOAD_VALID \<Rightarrow>
                       (SETTINGS_STATUS_OK,
                        Some (r\<lparr> ls_source := SETTINGS_SOURCE_STORED, used_stored_marker := True \<rparr>))
                   | PAYLOAD_CORRUPT \<Rightarrow>
                       (SETTINGS_STATUS_OK,
                        Some (r\<lparr> ls_source := SETTINGS_SOURCE_DEFAULTS,
                                 used_defaults_marker := True, corrupt_reset_marker := True \<rparr>))
                   | PAYLOAD_MISSING \<Rightarrow> (SETTINGS_STATUS_INVALID_STATE, Some r))
      | _ \<Rightarrow> (SETTINGS_STATUS_INVALID_ARGUMENT, result))"

definition settings_source_name :: "settings_source \<Rightarrow> string" where
  "settings_source_name s =
     (case s of SETTINGS_SOURCE_DEFAULTS \<Rightarrow> ''defaults''
      | SETTINGS_SOURCE_STORED \<Rightarrow> ''stored'' | SETTINGS_SOURCE_UNKNOWN \<Rightarrow> ''unknown'')"

definition settings_payload_status_name :: "settings_payload_status \<Rightarrow> string" where
  "settings_payload_status_name s =
     (case s of PAYLOAD_MISSING \<Rightarrow> ''missing'' | PAYLOAD_VALID \<Rightarrow> ''valid''
      | PAYLOAD_CORRUPT \<Rightarrow> ''corrupt'')"

definition settings_status_name :: "settings_status \<Rightarrow> string" where
  "settings_status_name s =
     (case s of SETTINGS_STATUS_OK \<Rightarrow> ''OK''
      | SETTINGS_STATUS_INVALID_ARGUMENT \<Rightarrow> ''INVALID_ARGUMENT''
      | SETTINGS_STATUS_INVALID_STATE \<Rightarrow> ''INVALID_STATE'')"

section \<open>Lemmas\<close>

text \<open>A probe is coherent when a payload was read exactly if some file was there.\<close>

definition probe_coherent :: "settings_probe \<Rightarrow> bool" where
  "probe_coherent p = ((main_exists p \<or> temp_exists p) = (payload_status p \<noteq> PAYLOAD_MISSING))"

text \<open>What the five markers of a result promise together.\<close>

definition load_result_ok :: "settings_probe \<Rightarrow> settings_load_result \<Rightarrow> bool" where
  "load_result_ok p r =
     (used_stored_marker r = (ls_source r = SETTINGS_SOURCE_STORED) \<and>
      used_defaults_marker r = (ls_source r = SETTINGS_SOURCE_DEFAULTS) \<and>
      ls_source r \<noteq> SETTINGS_SOURCE_UNKNOWN \<and>
      used_stored_marker r = (payload_status p = PAYLOAD_VALID) \<and>
      corrupt_reset_marker r = (payload_status p = PAYLOAD_CORRUPT) \<and>
      recovered_marker r = (temp_exists p \<and> \<not> main_exists p))"

lemma settings_classify_Some:
  "settings_classify (Some p) (Some r0) =
     (let r = \<lparr> ls_source = (if payload_status p = PAYLOAD_VALID then SETTINGS_SOURCE_STORED
                              else SETTINGS_SOURCE_DEFAULTS),
                used_defaults_marker = (payload_status p \<noteq> PAYLOAD_VALID),
                used_stored_marker = (payload_status p = PAYLOAD_VALID),
                recovered_marker = (\<not> main_exists p \<and> temp_exists p),
                corrupt_reset_marker = (payload_status p = PAYLOAD_CORRUPT) \<rparr>
      in if probe_coherent p then (SETTINGS_STATUS_OK, Some r)
         else (SETTINGS_STATUS_INVALID_STATE,
               Some (settings_load_result_init\<lparr> recovered_marker := recovered_marker r \<rparr>)))"
  by (cases "main_exists p"; cases "temp_exists p"; cases "payload_status p";
      simp add: settings_classify_def probe_coherent_def settings_load_result_init_def Let_def)

text \<open>jpp_settings_classify accepts exactly the coherent probes, and the
  result it then leaves has one source, STORED exactly for a valid payload,
  with the recovery and corruption markers set exactly when a temporary file
  stood in for the main one and when the payload was corrupt.\<close>

theorem settings_classify_spec:
  "(fst (settings_classify (Some p) (Some r0)) = SETTINGS_STATUS_OK) = probe_coherent p \<and>
   (case settings_classify (Some p) (Some r0) of
      (SETTINGS_STATUS_OK, Some r) \<Rightarrow> load_result_ok p r
    | (SETTINGS_STATUS_INVALID_STATE, Some r) \<Rightarrow> ls_source r = SETTINGS_SOURCE_UNKNOWN
    | _ \<Rightarrow> False)"
  by (auto simp: settings_classify_Some load_result_ok_def settings_load_result_init_def Let_def)

end
