(* ===== verification/Boot.thy ===== *)
theory Boot
  imports Settings
begin

text \<open>
  src/jpp_boot_core.c: the boot context, the eight boot events that may only
  be noted in one order, and what each note records. A context pointer that may
  be NULL is an option at the level of the operation set boot_step.
\<close>

datatype boot_mode = BOOT_MODE_UNKNOWN | BOOT_MODE_NORMAL | BOOT_MODE_RECOVERY

datatype boot_event =
    EV_BOOT_START | EV_STORAGE_READY | EV_SETTINGS_READY | EV_SD_MOUNT_READY
  | EV_RUNTIME_PATHS_READY | EV_SERVICES_READY | EV_DISCOVERY_READY | EV_SYSTEM_READY

datatype boot_status =
  BOOT_OK | BOOT_INVALID_ARGUMENT | BOOT_OUT_OF_ORDER | BOOT_OVERFLOW | BOOT_FINALIZED

record boot_discovery_summary =
  builtin_count :: nat
  disabled_count :: nat
  rejected_count :: nat
  sd_count :: nat
  total_count :: nat

text \<open>The array of events and its count are one list of at most eight events.\<close>

record boot_context =
  b_mode :: boot_mode
  b_reason :: cstr
  b_sd_mount_reason :: cstr
  b_flash_layout_ready :: bool
  b_settings_available :: bool
  b_settings_state :: settings_load_result
  b_sd_mount_attempted :: bool
  b_sd_mounted :: bool
  b_runtime_paths_ready :: bool
  b_services_ready :: bool
  b_discovery_ready :: bool
  b_system_ready :: bool
  b_discovery :: boot_discovery_summary
  b_events :: "boot_event list"

definition BOOT_EVENT_CAPACITY :: nat where
  "BOOT_EVENT_CAPACITY = 8"

definition BOOT_EVENT_ORDER :: "boot_event list" where
  "BOOT_EVENT_ORDER =
     [EV_BOOT_START, EV_STORAGE_READY, EV_SETTINGS_READY, EV_SD_MOUNT_READY,
      EV_RUNTIME_PATHS_READY, EV_SERVICES_READY, EV_DISCOVERY_READY, EV_SYSTEM_READY]"

definition boot_append_event :: "boot_context \<Rightarrow> boot_event \<Rightarrow> boot_status \<times> boot_context" where
  "boot_append_event c event =
     (if b_system_ready c then (BOOT_FINALIZED, c)
      else if length (b_events c) \<ge> BOOT_EVENT_CAPACITY then (BOOT_OVERFLOW, c)
      else if BOOT_EVENT_ORDER ! length (b_events c) \<noteq> event then (BOOT_OUT_OF_ORDER, c)
      else (BOOT_OK, c\<lparr> b_events := b_events c @ [event] \<rparr>))"

definition boot_context_init :: boot_context where
  "boot_context_init =
     snd (boot_append_event
       \<lparr> b_mode = BOOT_MODE_UNKNOWN, b_reason = Some ''pending'',
         b_sd_mount_reason = Some ''pending'', b_flash_layout_ready = False,
         b_settings_available = False, b_settings_state = settings_load_result_init,
         b_sd_mount_attempted = False, b_sd_mounted = False,
         b_runtime_paths_ready = False, b_services_ready = False,
         b_discovery_ready = False, b_system_ready = False,
         b_discovery = \<lparr> builtin_count = 0, disabled_count = 0, rejected_count = 0,
                         sd_count = 0, total_count = 0 \<rparr>,
         b_events = [] \<rparr> EV_BOOT_START)"

definition boot_note_storage_ready :: "boot_context \<Rightarrow> boot_status \<times> boot_context" where
  "boot_note_storage_ready c =
     (let (status, c) = boot_append_event c EV_STORAGE_READY
      in (status, if status = BOOT_OK then c\<lparr> b_flash_layout_ready := True \<rparr> else c))"

definition boot_note_settings_ready ::
  "boot_context \<Rightarrow> settings_load_result option \<Rightarrow> boot_status \<times> boot_context" where
  "boot_note_settings_ready c settings_state =
     (case settings_state of
        None \<Rightarrow> (BOOT_INVALID_ARGUMENT, c)
      | Some ss \<Rightarrow>
          let (status, c) = boot_append_event c EV_SETTINGS_READY
          in (status, if status = BOOT_OK
                      then c\<lparr> b_settings_available := True, b_settings_state := ss \<rparr> else c))"

definition boot_note_sd_mount ::
  "boot_context \<Rightarrow> bool \<Rightarrow> bool \<Rightarrow> cstr \<Rightarrow> boot_status \<times> boot_context" where
  "boot_note_sd_mount c mounted forced_recovery sd_mount_reason =
     (let (status, c) = boot_append_event c EV_SD_MOUNT_READY
      in if status \<noteq> BOOT_OK then (status, c)
         else
           let c = c\<lparr> b_sd_mount_attempted := True, b_sd_mounted := mounted,
                      b_sd_mount_reason :=
                        (if sd_mount_reason \<noteq> None then sd_mount_reason else Some ''unknown'') \<rparr>
           in if mounted \<and> \<not> forced_recovery
              then (BOOT_OK, c\<lparr> b_mode := BOOT_MODE_NORMAL, b_reason := b_sd_mount_reason c \<rparr>)
              else (BOOT_OK, c\<lparr> b_mode := BOOT_MODE_RECOVERY,
                       b_reason := (if forced_recovery then Some ''forced_recovery''
                                    else b_sd_mount_reason c) \<rparr>))"

definition boot_note_runtime_paths_ready :: "boot_context \<Rightarrow> boot_status \<times> boot_context" where
  "boot_note_runtime_paths_ready c =
     (let (status, c) = boot_append_event c EV_RUNTIME_PATHS_READY
      in (status, if status = BOOT_OK then c\<lparr> b_runtime_paths_ready := True \<rparr> else c))"

definition boot_note_services_ready :: "boot_context \<Rightarrow> boot_status \<times> boot_context" where
  "boot_note_services_ready c =
     (let (status, c) = boot_append_event c EV_SERVICES_READY
      in (status, if status = BOOT_OK then c\<lparr> b_services_ready := True \<rparr> else c))"

definition boot_note_discovery_ready ::
  "boot_context \<Rightarrow> boot_discovery_summary option \<Rightarrow> boot_status \<times> boot_context" where
  "boot_note_discovery_ready c summary =
     (case summary of
        None \<Rightarrow> (BOOT_INVALID_ARGUMENT, c)
      | Some sm \<Rightarrow>
          let (status, c) = boot_append_event c EV_DISCOVERY_READY
          in (status, if status = BOOT_OK
                      then c\<lparr> b_discovery := sm, b_discovery_ready := True \<rparr> else c))"

definition boot_note_system_ready :: "boot_context \<Rightarrow> boot_status \<times> boot_context" where
  "boot_note_system_ready c =
     (let (status, c) = boot_append_event c EV_SYSTEM_READY
      in (status, if status = BOOT_OK then c\<lparr> b_system_ready := True \<rparr> else c))"

definition boot_event_name :: "boot_event \<Rightarrow> string" where
  "boot_event_name e =
     (case e of EV_BOOT_START \<Rightarrow> ''BOOT_START'' | EV_STORAGE_READY \<Rightarrow> ''STORAGE_READY''
      | EV_SETTINGS_READY \<Rightarrow> ''SETTINGS_READY'' | EV_SD_MOUNT_READY \<Rightarrow> ''SD_MOUNT_READY''
      | EV_RUNTIME_PATHS_READY \<Rightarrow> ''RUNTIME_PATHS_READY'' | EV_SERVICES_READY \<Rightarrow> ''SERVICES_READY''
      | EV_DISCOVERY_READY \<Rightarrow> ''DISCOVERY_READY'' | EV_SYSTEM_READY \<Rightarrow> ''SYSTEM_READY'')"

definition boot_mode_name :: "boot_mode \<Rightarrow> string" where
  "boot_mode_name m =
     (case m of BOOT_MODE_NORMAL \<Rightarrow> ''normal'' | BOOT_MODE_RECOVERY \<Rightarrow> ''recovery''
      | BOOT_MODE_UNKNOWN \<Rightarrow> ''unknown'')"

definition boot_status_name :: "boot_status \<Rightarrow> string" where
  "boot_status_name s =
     (case s of BOOT_OK \<Rightarrow> ''OK'' | BOOT_INVALID_ARGUMENT \<Rightarrow> ''INVALID_ARGUMENT''
      | BOOT_OUT_OF_ORDER \<Rightarrow> ''OUT_OF_ORDER'' | BOOT_OVERFLOW \<Rightarrow> ''OVERFLOW''
      | BOOT_FINALIZED \<Rightarrow> ''FINALIZED'')"

section \<open>The operation set\<close>

datatype boot_op =
    Note_Storage | Note_Settings "settings_load_result option" | Note_Sd_Mount bool bool cstr
  | Note_Runtime_Paths | Note_Services | Note_Discovery "boot_discovery_summary option"
  | Note_System

fun boot_note :: "boot_context \<Rightarrow> boot_op \<Rightarrow> boot_status \<times> boot_context" where
  "boot_note c Note_Storage = boot_note_storage_ready c"
| "boot_note c (Note_Settings ss) = boot_note_settings_ready c ss"
| "boot_note c (Note_Sd_Mount m f r) = boot_note_sd_mount c m f r"
| "boot_note c Note_Runtime_Paths = boot_note_runtime_paths_ready c"
| "boot_note c Note_Services = boot_note_services_ready c"
| "boot_note c (Note_Discovery sm) = boot_note_discovery_ready c sm"
| "boot_note c Note_System = boot_note_system_ready c"

text \<open>Every note refuses a NULL context and touches nothing.\<close>

definition boot_step :: "boot_context option \<Rightarrow> boot_op \<Rightarrow> boot_status \<times> boot_context option" where
  "boot_step c op =
     (case c of None \<Rightarrow> (BOOT_INVALID_ARGUMENT, None)
      | Some c \<Rightarrow> (let (st, c) = boot_note c op in (st, Some c)))"

fun event_of :: "boot_op \<Rightarrow> boot_event" where
  "event_of Note_Storage = EV_STORAGE_READY"
| "event_of (Note_Settings _) = EV_SETTINGS_READY"
| "event_of (Note_Sd_Mount _ _ _) = EV_SD_MOUNT_READY"
| "event_of Note_Runtime_Paths = EV_RUNTIME_PATHS_READY"
| "event_of Note_Services = EV_SERVICES_READY"
| "event_of (Note_Discovery _) = EV_DISCOVERY_READY"
| "event_of Note_System = EV_SYSTEM_READY"

section \<open>Invariant\<close>

text \<open>The events noted are a prefix of the boot order, and every flag says
  whether its event has been noted; the mode is decided by the mount event.\<close>

definition boot_inv :: "boot_context \<Rightarrow> bool" where
  "boot_inv c =
     (0 < length (b_events c) \<and> length (b_events c) \<le> 8 \<and>
      take (length (b_events c)) BOOT_EVENT_ORDER = b_events c \<and>
      b_flash_layout_ready c = (2 \<le> length (b_events c)) \<and>
      b_settings_available c = (3 \<le> length (b_events c)) \<and>
      b_sd_mount_attempted c = (4 \<le> length (b_events c)) \<and>
      b_runtime_paths_ready c = (5 \<le> length (b_events c)) \<and>
      b_services_ready c = (6 \<le> length (b_events c)) \<and>
      b_discovery_ready c = (7 \<le> length (b_events c)) \<and>
      b_system_ready c = (8 \<le> length (b_events c)) \<and>
      (b_mode c = BOOT_MODE_UNKNOWN) = (length (b_events c) < 4) \<and>
      (b_mode c = BOOT_MODE_NORMAL \<longrightarrow> b_sd_mounted c))"

lemmas boot_notes =
  boot_note_storage_ready_def boot_note_settings_ready_def boot_note_sd_mount_def
  boot_note_runtime_paths_ready_def boot_note_services_ready_def
  boot_note_discovery_ready_def boot_note_system_ready_def

lemma boot_init_inv: "boot_inv boot_context_init"
  by (simp add: boot_inv_def boot_context_init_def boot_append_event_def
      BOOT_EVENT_CAPACITY_def BOOT_EVENT_ORDER_def)

lemma order_distinct: "distinct BOOT_EVENT_ORDER" "length BOOT_EVENT_ORDER = 8"
  by (simp_all add: BOOT_EVENT_ORDER_def)

lemma order_nth_eq:
  "i < 8 \<Longrightarrow> j < 8 \<Longrightarrow> BOOT_EVENT_ORDER ! i = BOOT_EVENT_ORDER ! j \<longleftrightarrow> i = j"
  using order_distinct nth_eq_iff_index_eq by metis

definition event_index :: "boot_event \<Rightarrow> nat" where
  "event_index e =
     (case e of EV_BOOT_START \<Rightarrow> 0 | EV_STORAGE_READY \<Rightarrow> 1 | EV_SETTINGS_READY \<Rightarrow> 2
      | EV_SD_MOUNT_READY \<Rightarrow> 3 | EV_RUNTIME_PATHS_READY \<Rightarrow> 4 | EV_SERVICES_READY \<Rightarrow> 5
      | EV_DISCOVERY_READY \<Rightarrow> 6 | EV_SYSTEM_READY \<Rightarrow> 7)"

lemma order_event_index: "event_index e < 8" "BOOT_EVENT_ORDER ! event_index e = e"
  by (cases e; simp add: event_index_def BOOT_EVENT_ORDER_def)+

lemma order_nth_event: "n < 8 \<Longrightarrow> BOOT_EVENT_ORDER ! n = e \<longleftrightarrow> n = event_index e"
  using order_event_index order_nth_eq by metis

lemma boot_invD:
  assumes "boot_inv c"
  shows "length (b_events c) \<le> 8" "0 < length (b_events c)"
    "take (length (b_events c)) BOOT_EVENT_ORDER = b_events c"
    "b_system_ready c \<longleftrightarrow> length (b_events c) = 8"
  using assms by (simp_all only: boot_inv_def) linarith

lemma event_order_step:
  assumes "boot_inv c" "length (b_events c) < 8"
  shows "b_events c @ [BOOT_EVENT_ORDER ! length (b_events c)] =
    take (Suc (length (b_events c))) BOOT_EVENT_ORDER"
  using take_Suc_conv_app_nth[of "length (b_events c)" BOOT_EVENT_ORDER]
    boot_invD(3)[OF assms(1)] assms(2) order_distinct(2) by presburger

text \<open>On a context that satisfies the invariant the append is decided by the
  number of events already noted.\<close>

lemma append_event_inv:
  assumes "boot_inv c"
  shows "boot_append_event c e =
     (if length (b_events c) = 8 then (BOOT_FINALIZED, c)
      else if length (b_events c) \<noteq> event_index e then (BOOT_OUT_OF_ORDER, c)
      else (BOOT_OK, c\<lparr> b_events := b_events c @ [e] \<rparr>))"
proof (cases "length (b_events c) = 8")
  case True
  then show ?thesis using boot_invD(4)[OF assms] by (simp add: boot_append_event_def)
next
  case False
  then have "length (b_events c) < 8" using boot_invD(1)[OF assms] by simp
  then show ?thesis
    using False boot_invD(4)[OF assms] order_nth_event[of "length (b_events c)" e]
    by (simp add: boot_append_event_def BOOT_EVENT_CAPACITY_def)
qed

lemma boot_note_refused:
  assumes "fst (boot_note c op) \<noteq> BOOT_OK"
  shows "snd (boot_note c op) = c"
proof -
  obtain st d where p: "boot_append_event c (event_of op) = (st, d)" by fastforce
  then have r: "st \<noteq> BOOT_OK \<Longrightarrow> d = c"
    by (simp add: boot_append_event_def split: if_splits)
  show ?thesis
  proof (cases "st = BOOT_OK")
    case True
    with assms p show ?thesis
      by (cases op) (simp_all add: boot_notes Let_def split: option.splits if_split_asm)
  next
    case False
    with r p show ?thesis by (cases op) (simp_all add: boot_notes split: option.split)
  qed
qed

lemma boot_note_accepted:
  assumes "boot_inv c" "fst (boot_note c op) = BOOT_OK"
  shows "length (b_events c) = event_index (event_of op) \<and>
    b_events (snd (boot_note c op)) = b_events c @ [event_of op]"
proof -
  obtain st d where p: "boot_append_event c (event_of op) = (st, d)" by fastforce
  have r: "st = BOOT_OK \<Longrightarrow> length (b_events c) = event_index (event_of op) \<and>
      b_events d = b_events c @ [event_of op]"
    using p assms(1) by (auto simp: append_event_inv split: if_splits)
  have "st = BOOT_OK"
    using assms(2) p by (cases op; cases st) (simp_all add: boot_notes split: option.splits)
  moreover have "st = BOOT_OK \<Longrightarrow> b_events (snd (boot_note c op)) = b_events d"
    using p assms(2) by (cases op) (simp_all add: boot_notes Let_def split: option.splits)
  ultimately show ?thesis using r by simp
qed

lemma boot_note_inv: "boot_inv c \<Longrightarrow> boot_inv (snd (boot_note c op))"
proof (cases "fst (boot_note c op) = BOOT_OK")
  case True
  assume inv: "boot_inv c"
  note acc = boot_note_accepted[OF inv True]
  have adv: "take (Suc (event_index (event_of op))) BOOT_EVENT_ORDER = b_events c @ [event_of op]"
    using event_order_step[OF inv] order_event_index[of "event_of op"] acc by metis
  have fls: "length (b_events c) < 8" using acc order_event_index(1)[of "event_of op"] by simp
  have ap: "boot_append_event c (event_of op) = (BOOT_OK, c\<lparr> b_events := b_events c @ [event_of op] \<rparr>)"
    using acc fls by (simp add: append_event_inv[OF inv])
  show ?thesis
    using inv adv ap acc True
    by (cases op; simp add: boot_notes event_index_def boot_inv_def Let_def split: option.splits)
next
  case False
  then show "boot_inv c \<Longrightarrow> ?thesis" by (simp add: boot_note_refused)
qed

text \<open>A NULL context stays NULL, so the invariant asks nothing of it.\<close>

definition boot_inv_opt :: "boot_context option \<Rightarrow> bool" where
  "boot_inv_opt c = (case c of None \<Rightarrow> True | Some c \<Rightarrow> boot_inv c)"

interpretation boot: atomic_machine boot_step boot_inv_opt BOOT_OK
proof unfold_locales
  show "boot_inv_opt s \<Longrightarrow> boot_inv_opt (snd (boot_step s op))" for s op
    using boot_note_inv[of _ op]
    by (cases s) (auto simp: boot_inv_opt_def boot_step_def split_beta)
  show "fst (boot_step s op) \<noteq> BOOT_OK \<Longrightarrow> snd (boot_step s op) = s" for s op
    using boot_note_refused[of _ op] by (cases s) (simp_all add: boot_step_def split_beta)
qed

lemma boot_run_defined:
  "\<exists>c. run_ops boot_step (Some boot_context_init) ops = Some c \<and> boot_inv c"
proof -
  have "run_ops boot_step (Some c) ops \<noteq> None" for c
    by (induction ops arbitrary: c)
       (auto simp: boot_step_def split: prod.splits)
  moreover have "boot_inv_opt (run_ops boot_step (Some boot_context_init) ops)"
    by (rule boot.run_inv) (simp add: boot_inv_opt_def boot_init_inv)
  ultimately show ?thesis by (fastforce simp: boot_inv_opt_def split: option.splits)
qed

section \<open>Properties\<close>

text \<open>After any sequence of boot notes on an initialised context the events are
  a prefix of the boot order, and every readiness flag is set exactly when its
  event is among them: system_ready in particular means that all eight events
  were noted, in their order.\<close>

theorem boot_run_invariant:
  "\<exists>c. run_ops boot_step (Some boot_context_init) ops = Some c \<and> boot_inv c"
  by (rule boot_run_defined)

lemma accepted_events:
  "boot_inv c \<Longrightarrow> run_ops boot_step (Some c) ops = Some d \<Longrightarrow>
     b_events d = b_events c @ map event_of (accepted boot_step BOOT_OK (Some c) ops)"
proof (induction ops arbitrary: c)
  case (Cons op ops)
  obtain st c' where n: "boot_note c op = (st, c')" by (cases "boot_note c op")
  then have s: "boot_step (Some c) op = (st, Some c')" by (simp add: boot_step_def)
  have inv: "boot_inv c'" using boot_note_inv[OF Cons.prems(1), of op] n by simp
  have ev: "st = BOOT_OK \<Longrightarrow> b_events c' = b_events c @ [event_of op]"
    using boot_note_accepted[OF Cons.prems(1), of op] n by simp
  have eq: "st \<noteq> BOOT_OK \<Longrightarrow> c' = c" using boot_note_refused[of c op] n by simp
  show ?case using Cons.IH[OF inv] Cons.prems(2) s ev eq by auto
qed simp

text \<open>whatever is called, in whatever order, the accepted notes of a run are the
  notes of the boot order one after the other, each once; and the refused ones
  leave no trace: the context is the one the accepted notes alone give.\<close>

theorem boot_accepted_in_order:
  "EV_BOOT_START # map event_of (accepted boot_step BOOT_OK (Some boot_context_init) ops) =
     take (Suc (length (accepted boot_step BOOT_OK (Some boot_context_init) ops))) BOOT_EVENT_ORDER \<and>
   run_ops boot_step (Some boot_context_init)
     (accepted boot_step BOOT_OK (Some boot_context_init) ops) =
   run_ops boot_step (Some boot_context_init) ops"
proof -
  obtain d where d: "run_ops boot_step (Some boot_context_init) ops = Some d" "boot_inv d"
    using boot_run_defined by blast
  have i: "b_events boot_context_init = [EV_BOOT_START]"
    by (simp add: boot_context_init_def boot_append_event_def BOOT_EVENT_CAPACITY_def
        BOOT_EVENT_ORDER_def)
  have "b_events d = EV_BOOT_START # map event_of (accepted boot_step BOOT_OK (Some boot_context_init) ops)"
    using accepted_events[OF boot_init_inv d(1)] i by simp
  moreover from this have "b_events d = take (Suc (length (accepted boot_step BOOT_OK (Some boot_context_init) ops))) BOOT_EVENT_ORDER"
    using d(2) unfolding boot_inv_def by (metis length_Cons length_map)
  ultimately show ?thesis by (simp add: boot.run_accepted)
qed

end
