(* ===== verification/Manifest.thy ===== *)
theory Manifest
  imports Strings
begin

text \<open>
  src/jpp_manifest_core.c: validation of an app manifest (schema, identity,
  entry path, app type, capabilities, background tasks with their cron
  expressions, toolchain). Pointers the code tests are options; the C int that
  a cron number is accumulated in is a 32-bit word read as signed, because the
  accumulation of a long run of digits leaves the range of int (the C standard
  leaves the result undefined; the model takes the two's-complement result).
\<close>

datatype app_type = APP_TYPE_MICROPYTHON | APP_TYPE_NATIVE | APP_TYPE_OTHER int

datatype manifest_result =
    MANIFEST_OK | INVALID_MANIFEST | SCHEMA_MISMATCH | RESERVED_APP_ID | INVALID_ENTRY
  | INVALID_APP_TYPE | INVALID_CAPABILITY | INVALID_BACKGROUND | INVALID_TOOLCHAIN
  | RUNTIME_MISMATCH | SDK_TOO_OLD

record bg_task =
  bt_name :: cstr
  bt_interval_s :: nat
  bt_cron :: cstr

record manifest_background =
  bg_enabled :: int
  bg_tasks :: "bg_task list option"
  bg_task_count :: nat

record manifest_toolchain =
  tc_runtime_version :: cstr
  tc_cross_version :: cstr
  tc_bytecode_abi :: int

record manifest_v2 =
  schema_version :: int
  m_app_id :: cstr
  m_name :: cstr
  m_version :: cstr
  sdk_min :: int
  m_entry :: cstr
  m_app_type :: app_type
  capabilities :: "cstr list option"
  capability_count :: nat
  m_background :: manifest_background
  m_toolchain :: manifest_toolchain

definition MANIFEST_V2_SCHEMA_VERSION :: int where "MANIFEST_V2_SCHEMA_VERSION = 2"
definition MANIFEST_V2_RUNTIME_VERSION :: string where "MANIFEST_V2_RUNTIME_VERSION = ''v1.28.0''"
definition MANIFEST_V2_CROSS_VERSION :: string where "MANIFEST_V2_CROSS_VERSION = ''1.28.0''"
definition MANIFEST_V2_BYTECODE_ABI :: int where "MANIFEST_V2_BYTECODE_ABI = 6"
definition SDK_VERSION :: int where "SDK_VERSION = 3"
definition MANIFEST_V2_BG_TASK_MAX :: nat where "MANIFEST_V2_BG_TASK_MAX = 4"
definition BG_INTERVAL_MIN_S :: nat where "BG_INTERVAL_MIN_S = 60"

definition has_suffix :: "string \<Rightarrow> string \<Rightarrow> bool" where
  "has_suffix str suf =
     (length str \<ge> length suf \<and> drop (length str - length suf) str = suf)"

definition is_reserved_app_id :: "cstr \<Rightarrow> bool" where
  "is_reserved_app_id app_id =
     list_ex (\<lambda>r. str_eq app_id (Some r))
       [''launcher'', ''settings'', ''webdav'', ''webdav_passconfig'',
        ''shell'', ''dialog'', ''app_crash'', ''sd_ejected'']"

definition is_allowed_capability :: "cstr \<Rightarrow> bool" where
  "is_allowed_capability cap =
     (if str_eq cap (Some ''http.request'') \<or> str_eq cap (Some ''https.request'') \<or>
         str_eq cap (Some ''ble.scan'') \<or> str_eq cap (Some ''ble.advertise'') \<or>
         str_eq cap (Some ''background.register'') \<or> str_eq cap (Some ''esp_now'')
      then True
      else if str_eq cap (Some ''files.full'') \<or> str_eq cap (Some ''network.bind'') \<or>
         str_eq cap (Some ''network.connect'') \<or> str_eq cap (Some ''ble.connect'') \<or>
         str_eq cap (Some ''ble.host'')
      then True else False)"

definition is_valid_entry_path :: "cstr \<Rightarrow> bool" where
  "is_valid_entry_path path =
     (case path of
        None \<Rightarrow> False
      | Some p \<Rightarrow>
          if \<not> str_nonempty path then False
          else if char_at p 0 = Some (CHR ''/'') then False
          else if str_has_parent_segment path then False
          else True)"

definition validate_capabilities :: "manifest_v2 \<Rightarrow> manifest_result" where
  "validate_capabilities m =
     (case capabilities m of
        None \<Rightarrow> if capability_count m > 0 then INVALID_MANIFEST else MANIFEST_OK
      | Some caps \<Rightarrow>
          if list_ex (\<lambda>i. \<not> is_allowed_capability (caps ! i)) [0..<capability_count m]
          then INVALID_CAPABILITY else MANIFEST_OK)"

section \<open>Cron expressions\<close>

definition is_digit_c :: "char \<Rightarrow> bool" where
  "is_digit_c c = (ord c \<ge> ord (CHR ''0'') \<and> ord c \<le> ord (CHR ''9''))"

text \<open>The digit loop: the value so far and what is left of the string.\<close>

fun cron_number :: "32 word \<Rightarrow> string \<Rightarrow> 32 word \<times> string" where
  "cron_number v [] = (v, [])"
| "cron_number v (c # p) =
     (if is_digit_c c then cron_number (v * 10 + of_nat (ord c - ord (CHR ''0''))) p
      else (v, c # p))"

fun skip_spaces :: "string \<Rightarrow> string" where
  "skip_spaces [] = []"
| "skip_spaces (c # p) = (if c = CHR '' '' then skip_spaces p else c # p)"

text \<open>One field: None for a bad one, otherwise the cursor after the field and
  its trailing spaces.\<close>

definition cron_field_ok :: "string \<Rightarrow> int \<Rightarrow> int \<Rightarrow> string option" where
  "cron_field_ok cursor min_v max_v =
     (let after =
        (case cursor of
           [] \<Rightarrow> None
         | c # p \<Rightarrow>
             if c = CHR ''*'' then Some p
             else if \<not> is_digit_c c then None
             else (let (v, p) = cron_number 0 cursor
                   in if sint v < min_v \<or> sint v > max_v then None else Some p))
      in case after of
           None \<Rightarrow> None
         | Some p \<Rightarrow>
             if char_at p 0 \<noteq> Some (CHR '' '') \<and> char_at p 0 \<noteq> None then None
             else Some (skip_spaces p))"

definition cron_ranges :: "(int \<times> int) list" where
  "cron_ranges = [(0, 59), (0, 23), (1, 31), (1, 12), (0, 6)]"

fun cron_fields_ok :: "(int \<times> int) list \<Rightarrow> string \<Rightarrow> bool" where
  "cron_fields_ok [] p = (char_at p 0 = None)"
| "cron_fields_ok ((min_v, max_v) # rs) p =
     (case cron_field_ok p min_v max_v of None \<Rightarrow> False | Some p \<Rightarrow> cron_fields_ok rs p)"

definition is_valid_cron :: "cstr \<Rightarrow> bool" where
  "is_valid_cron cron =
     (case cron of
        None \<Rightarrow> False
      | Some c \<Rightarrow> if \<not> str_nonempty cron then False else cron_fields_ok cron_ranges c)"

section \<open>Background tasks, toolchain, entry\<close>

definition bg_task_result :: "bg_task \<Rightarrow> manifest_result" where
  "bg_task_result task =
     (let has_interval = bt_interval_s task > 0;
          has_cron = str_nonempty (bt_cron task)
      in if \<not> str_name_valid (bt_name task) then INVALID_BACKGROUND
         else if has_interval = has_cron then INVALID_BACKGROUND
         else if has_interval \<and> bt_interval_s task < BG_INTERVAL_MIN_S then INVALID_BACKGROUND
         else if has_cron \<and> \<not> is_valid_cron (bt_cron task) then INVALID_BACKGROUND
         else MANIFEST_OK)"

definition validate_background :: "manifest_v2 \<Rightarrow> manifest_result" where
  "validate_background m =
     (let b = m_background m
      in if bg_enabled b \<noteq> 0 \<and> bg_enabled b \<noteq> 1 then INVALID_BACKGROUND
         else if bg_task_count b > MANIFEST_V2_BG_TASK_MAX then INVALID_BACKGROUND
         else
           (case bg_tasks b of
              None \<Rightarrow> if bg_task_count b > 0 then INVALID_BACKGROUND else MANIFEST_OK
            | Some tasks \<Rightarrow>
                if list_ex (\<lambda>i. bg_task_result (tasks ! i) \<noteq> MANIFEST_OK) [0..<bg_task_count b]
                then INVALID_BACKGROUND else MANIFEST_OK))"

definition validate_toolchain :: "manifest_v2 \<Rightarrow> manifest_result" where
  "validate_toolchain m =
     (let t = m_toolchain m
      in if m_app_type m = APP_TYPE_NATIVE then MANIFEST_OK
         else if \<not> str_nonempty (tc_runtime_version t) \<or> \<not> str_nonempty (tc_cross_version t) \<or>
                 tc_bytecode_abi t \<le> 0 then INVALID_TOOLCHAIN
         else if \<not> str_eq (tc_runtime_version t) (Some MANIFEST_V2_RUNTIME_VERSION) \<or>
                 \<not> str_eq (tc_cross_version t) (Some MANIFEST_V2_CROSS_VERSION) \<or>
                 tc_bytecode_abi t \<noteq> MANIFEST_V2_BYTECODE_ABI then RUNTIME_MISMATCH
         else MANIFEST_OK)"

text \<open>Called only after the entry was found non-empty; a NULL entry is the
  empty text here.\<close>

definition validate_app_type_entry :: "manifest_v2 \<Rightarrow> manifest_result" where
  "validate_app_type_entry m =
     (let entry = (case m_entry m of None \<Rightarrow> [] | Some e \<Rightarrow> e)
      in case m_app_type m of
           APP_TYPE_MICROPYTHON \<Rightarrow>
             if \<not> has_suffix entry ''.mpy'' then INVALID_APP_TYPE else MANIFEST_OK
         | APP_TYPE_NATIVE \<Rightarrow>
             if \<not> has_suffix entry ''.bin'' then INVALID_APP_TYPE else MANIFEST_OK
         | APP_TYPE_OTHER _ \<Rightarrow> INVALID_APP_TYPE)"

definition manifest_v2_validate :: "manifest_v2 option \<Rightarrow> manifest_result" where
  "manifest_v2_validate manifest =
     (case manifest of
        None \<Rightarrow> INVALID_MANIFEST
      | Some m \<Rightarrow>
          if schema_version m \<noteq> MANIFEST_V2_SCHEMA_VERSION then SCHEMA_MISMATCH
          else if \<not> str_nonempty (m_app_id m) \<or> \<not> str_nonempty (m_name m) \<or>
                  \<not> str_nonempty (m_version m) \<or> \<not> str_nonempty (m_entry m)
          then INVALID_MANIFEST
          else if is_reserved_app_id (m_app_id m) then RESERVED_APP_ID
          else if sdk_min m < 1 then INVALID_MANIFEST
          else if sdk_min m > SDK_VERSION then SDK_TOO_OLD
          else if \<not> is_valid_entry_path (m_entry m) then INVALID_ENTRY
          else
            let result = validate_app_type_entry m
            in if result \<noteq> MANIFEST_OK then result
               else
                 let result = validate_capabilities m
                 in if result \<noteq> MANIFEST_OK then result
                    else
                      let result = validate_background m
                      in if result \<noteq> MANIFEST_OK then result
                         else validate_toolchain m)"

definition manifest_result_name :: "manifest_result \<Rightarrow> string" where
  "manifest_result_name r =
     (case r of MANIFEST_OK \<Rightarrow> ''OK'' | INVALID_MANIFEST \<Rightarrow> ''INVALID_MANIFEST''
      | SCHEMA_MISMATCH \<Rightarrow> ''SCHEMA_MISMATCH'' | RESERVED_APP_ID \<Rightarrow> ''RESERVED_APP_ID''
      | INVALID_ENTRY \<Rightarrow> ''INVALID_ENTRY'' | INVALID_APP_TYPE \<Rightarrow> ''INVALID_APP_TYPE''
      | INVALID_CAPABILITY \<Rightarrow> ''INVALID_CAPABILITY'' | INVALID_BACKGROUND \<Rightarrow> ''INVALID_BACKGROUND''
      | INVALID_TOOLCHAIN \<Rightarrow> ''INVALID_TOOLCHAIN'' | RUNTIME_MISMATCH \<Rightarrow> ''RUNTIME_MISMATCH''
      | SDK_TOO_OLD \<Rightarrow> ''SDK_TOO_OLD'')"

section \<open>Cron: the grammar\<close>

definition cron_value :: "string \<Rightarrow> 32 word" where
  "cron_value f = foldl (\<lambda>v c. v * 10 + of_nat (ord c - ord (CHR ''0''))) 0 f"

text \<open>A field of the grammar: a star or a number in its range.\<close>

definition cron_field_spec :: "int \<times> int \<Rightarrow> string \<Rightarrow> bool" where
  "cron_field_spec r f =
     (f = ''*'' \<or>
      (f \<noteq> [] \<and> list_all is_digit_c f \<and> fst r \<le> sint (cron_value f) \<and> sint (cron_value f) \<le> snd r))"

definition cron_fields :: "string \<Rightarrow> string list" where
  "cron_fields s = filter (\<lambda>f. f \<noteq> []) (split_on (CHR '' '') s)"

lemma skip_spaces_dropWhile: "skip_spaces p = dropWhile (\<lambda>c. c = CHR '' '') p"
  by (induction p) simp_all

lemma cron_number_eq:
  "cron_number v s =
     (foldl (\<lambda>v c. v * 10 + of_nat (ord c - ord (CHR ''0''))) v (takeWhile is_digit_c s),
      dropWhile is_digit_c s)"
  by (induction v s rule: cron_number.induct) simp_all

lemma is_digit_c_not [simp]: "\<not> is_digit_c (CHR '' '')" "\<not> is_digit_c (CHR ''*'')"
  by (simp_all add: is_digit_c_def ord_def)

abbreviation not_space :: "char \<Rightarrow> bool" where
  "not_space c \<equiv> c \<noteq> CHR '' ''"

lemma split_on_takeWhile:
  "split_on d s = takeWhile (\<lambda>c. c \<noteq> d) s #
     (case dropWhile (\<lambda>c. c \<noteq> d) s of [] \<Rightarrow> [] | _ # r \<Rightarrow> split_on d r)"
  by (induction s) (simp_all split: list.split)

lemma cron_fields_skip: "cron_fields (CHR '' '' # s) = cron_fields s"
  by (simp add: cron_fields_def)

lemma cron_fields_skip_spaces: "cron_fields (skip_spaces s) = cron_fields s"
  by (induction s) (simp_all add: cron_fields_skip)

lemma cron_fields_step:
  "s \<noteq> [] \<Longrightarrow> char_at s 0 \<noteq> Some (CHR '' '') \<Longrightarrow>
     cron_fields s = takeWhile not_space s # cron_fields (skip_spaces (dropWhile not_space s))"
proof -
  assume a: "s \<noteq> []" "char_at s 0 \<noteq> Some (CHR '' '')"
  then have ne: "takeWhile not_space s \<noteq> []" by (cases s) auto
  have rest: "cron_fields (dropWhile not_space s) =
      filter (\<lambda>f. f \<noteq> []) (case dropWhile not_space s of [] \<Rightarrow> [] | _ # r \<Rightarrow> split_on (CHR '' '') r)"
  proof (cases "dropWhile not_space s")
    case (Cons c r)
    then have "\<not> not_space c" using hd_dropWhile[of not_space s] by (simp only: list.sel) blast
    with Cons show ?thesis by (simp add: cron_fields_def)
  next
    case Nil
    show ?thesis by (simp only: Nil cron_fields_def) simp
  qed
  have "cron_fields s = takeWhile not_space s #
      filter (\<lambda>f. f \<noteq> []) (case dropWhile not_space s of [] \<Rightarrow> [] | _ # r \<Rightarrow> split_on (CHR '' '') r)"
    unfolding cron_fields_def by (subst split_on_takeWhile) (simp only: filter.simps ne if_True not_False_eq_True)
  then show ?thesis by (simp only: rest[symmetric] cron_fields_skip_spaces)
qed

lemma cron_fields_nil_iff: "cron_fields s = [] \<longleftrightarrow> skip_spaces s = []"
proof (induction s)
  case (Cons c s)
  then show ?case
    by (cases "c = CHR '' ''") (simp_all add: cron_fields_skip cron_fields_step)
qed (simp add: cron_fields_def)

lemma digits_field:
  assumes "char_at (dropWhile is_digit_c s) 0 \<in> {None, Some (CHR '' '')}"
  shows "takeWhile not_space s = takeWhile is_digit_c s"
    and "dropWhile not_space s = dropWhile is_digit_c s"
  using assms by (induction s) (auto split: if_splits)

lemma not_digits_field:
  "list_all is_digit_c (takeWhile not_space s) \<longleftrightarrow>
     char_at (dropWhile is_digit_c s) 0 \<in> {None, Some (CHR '' '')}"
  by (induction s) auto

lemma star_field:
  "takeWhile not_space (CHR ''*'' # p) = ''*'' \<longleftrightarrow> char_at p 0 \<in> {None, Some (CHR '' '')}"
  by (cases p) auto

lemma star_rest:
  "char_at p 0 \<in> {None, Some (CHR '' '')} \<Longrightarrow> dropWhile not_space (CHR ''*'' # p) = p"
  by (cases p) auto

lemma cron_field_ok_star:
  "cron_field_ok (CHR ''*'' # p) lo hi =
     (if char_at p 0 \<in> {None, Some (CHR '' '')} then Some (skip_spaces p) else None)"
  by (simp add: cron_field_ok_def)

lemma cron_field_ok_digits:
  "c \<noteq> CHR ''*'' \<Longrightarrow> cron_field_ok (c # s) lo hi =
     (if is_digit_c c \<and> lo \<le> sint (fst (cron_number 0 (c # s))) \<and>
         sint (fst (cron_number 0 (c # s))) \<le> hi \<and>
         char_at (snd (cron_number 0 (c # s))) 0 \<in> {None, Some (CHR '' '')}
      then Some (skip_spaces (snd (cron_number 0 (c # s)))) else None)"
  by (simp add: cron_field_ok_def split_beta Let_def not_less not_le del: cron_number.simps)

lemma cron_field_ok_eq:
  assumes "s = [] \<or> not_space (hd s)"
  shows "cron_field_ok s lo hi =
     (if s \<noteq> [] \<and> cron_field_spec (lo, hi) (takeWhile not_space s)
      then Some (skip_spaces (dropWhile not_space s)) else None)"
proof (cases s)
  case Nil
  then show ?thesis by (simp add: cron_field_ok_def)
next
  case (Cons c p)
  show ?thesis
  proof (cases "c = CHR ''*''")
    case True
    then have "cron_field_spec (lo, hi) (takeWhile not_space s) \<longleftrightarrow>
        char_at p 0 \<in> {None, Some (CHR '' '')}"
      using Cons star_field[of p] by (simp add: cron_field_spec_def)
    then show ?thesis using True Cons star_rest[of p] by (simp add: cron_field_ok_star)
  next
    case False
    have ne: "takeWhile not_space s \<noteq> []" "takeWhile not_space s \<noteq> ''*''"
      using assms Cons False by auto
    let ?ok = "char_at (dropWhile is_digit_c s) 0 \<in> {None, Some (CHR '' '')}"
    have val: "?ok \<Longrightarrow> fst (cron_number 0 s) = cron_value (takeWhile not_space s) \<and>
        snd (cron_number 0 s) = dropWhile not_space s"
      using digits_field[of s] by (simp only: cron_number_eq cron_value_def fst_conv snd_conv)
    have dig: "?ok \<Longrightarrow> list_all is_digit_c (takeWhile not_space s) \<and> is_digit_c c"
      using not_digits_field[of s] digits_field(1)[of s] ne Cons
      by (cases "is_digit_c c") auto
    have "snd (cron_number 0 s) = dropWhile is_digit_c s"
      by (simp only: cron_number_eq snd_conv)
    then show ?thesis
      using cron_field_ok_digits[OF False, of p lo hi] val dig not_digits_field[of s] ne Cons
      by (auto simp add: cron_field_spec_def simp del: cron_number.simps takeWhile.simps dropWhile.simps)
  qed
qed

lemma skip_spaces_start: "skip_spaces s = [] \<or> not_space (hd (skip_spaces s))"
  by (induction s) simp_all

lemma cron_fields_ok_eq:
  "s = [] \<or> not_space (hd s) \<Longrightarrow>
     cron_fields_ok rs s \<longleftrightarrow> list_all2 cron_field_spec rs (cron_fields s)"
proof (induction rs arbitrary: s)
  case Nil
  then show ?case by (cases s) (auto simp: cron_fields_def cron_fields_step)
next
  case (Cons r rs)
  obtain lo hi where r: "r = (lo, hi)" by (cases r)
  show ?case
  proof (cases "s = []")
    case True
    then show ?thesis by (simp add: r cron_field_ok_def cron_fields_def)
  next
    case False
    with Cons.prems have "char_at s 0 \<noteq> Some (CHR '' '')" by (cases s) auto
    then show ?thesis
      using False Cons.prems Cons.IH[OF skip_spaces_start]
      by (simp add: r cron_field_ok_eq cron_fields_step)
  qed
qed

lemma is_valid_cron_grammar:
  "is_valid_cron cron \<longleftrightarrow>
     (\<exists>s. cron = Some s \<and> s \<noteq> [] \<and> hd s \<noteq> CHR '' '' \<and>
        list_all2 cron_field_spec cron_ranges (cron_fields s))"
proof (cases cron)
  case (Some s)
  show ?thesis
  proof (cases "s = [] \<or> not_space (hd s)")
    case True
    then show ?thesis using Some
      by (cases "s = []") (simp_all add: is_valid_cron_def cron_fields_ok_eq)
  next
    case False
    then have "cron_field_ok s lo hi = None" for lo hi
      by (cases s) (simp_all add: cron_field_ok_def)
    then show ?thesis using Some False by (simp add: is_valid_cron_def cron_ranges_def)
  qed
qed (simp add: is_valid_cron_def)

text \<open>jpp_manifest_v2_is_valid_cron accepts exactly the texts that start with a
  field and consist of five fields separated by spaces (trailing spaces
  allowed), each a star or digits whose accumulated 32-bit value lies in the
  range of its position.\<close>

theorem is_valid_cron_iff:
  "is_valid_cron cron \<longleftrightarrow>
     (\<exists>s. cron = Some s \<and> s \<noteq> [] \<and> hd s \<noteq> CHR '' '' \<and>
        list_all2 cron_field_spec cron_ranges (cron_fields s))"
  by (rule is_valid_cron_grammar)

text \<open>The decimal value of a run of digits.\<close>

definition decimal :: "string \<Rightarrow> nat" where
  "decimal f = foldl (\<lambda>v c. v * 10 + (ord c - ord (CHR ''0''))) 0 f"

lemma cron_value_decimal: "cron_value f = of_nat (decimal f)"
proof -
  have "foldl (\<lambda>v c. v * 10 + of_nat (ord c - ord (CHR ''0''))) (of_nat n) f =
      (of_nat (foldl (\<lambda>v c. v * 10 + (ord c - ord (CHR ''0''))) n f) :: 32 word)" for n
  proof (induction f arbitrary: n)
    case (Cons c f)
    have "of_nat n * 10 + of_nat (ord c - ord (CHR ''0'')) =
        (of_nat (n * 10 + (ord c - ord (CHR ''0''))) :: 32 word)" by simp
    then show ?case by (simp only: foldl_Cons Cons.IH)
  qed simp
  from this[of 0] show ?thesis by (simp add: cron_value_def decimal_def)
qed

lemma decimal_bound:
  assumes "list_all is_digit_c f" shows "decimal f < 10 ^ length f"
proof -
  have "foldl (\<lambda>v c. v * 10 + (ord c - ord (CHR ''0''))) n f < (n + 1) * 10 ^ length f" for n
    using assms
  proof (induction f arbitrary: n)
    case (Cons c f)
    have "ord c - ord (CHR ''0'') \<le> 9" using Cons.prems by (auto simp: is_digit_c_def ord_def)
    then have "n * 10 + (ord c - ord (CHR ''0'')) + 1 \<le> (n + 1) * 10" by simp
    from mult_le_mono1[OF this, of "10 ^ length f"] Cons show ?case
      by (fastforce simp: algebra_simps intro: less_le_trans)
  qed simp
  from this[of 0] show ?thesis by (simp add: decimal_def)
qed

lemma cron_value_small:
  assumes "list_all is_digit_c f" "length f \<le> 9"
  shows "sint (cron_value f) = int (decimal f)"
proof -
  have "decimal f < 10 ^ length f" using decimal_bound[OF assms(1)] .
  also have "\<dots> \<le> 10 ^ 9" using assms(2) by (intro power_increasing) simp_all
  finally have "int (decimal f) < 2 ^ 31" by simp
  then show ?thesis
    by (simp add: cron_value_decimal signed_of_nat signed_take_bit_int_eq_self)
qed

text \<open>A cron text with no number longer than nine digits is accepted exactly when its
  five fields are stars or decimal numbers in the ranges minute 0-59, hour
  0-23, day 1-31, month 1-12, weekday 0-6: with short numbers the accumulation
  in a C int does not overflow.\<close>

theorem is_valid_cron_decimal:
  assumes "list_all (\<lambda>f. length f \<le> 9) (cron_fields s)"
  shows "is_valid_cron (Some s) \<longleftrightarrow>
     s \<noteq> [] \<and> hd s \<noteq> CHR '' '' \<and>
     list_all2 (\<lambda>(lo, hi) f. f = ''*'' \<or>
         (f \<noteq> [] \<and> list_all is_digit_c f \<and> lo \<le> int (decimal f) \<and> int (decimal f) \<le> hi))
       cron_ranges (cron_fields s)"
proof -
  have "list_all2 cron_field_spec rs fs \<longleftrightarrow>
     list_all2 (\<lambda>(lo, hi) f. f = ''*'' \<or>
         (f \<noteq> [] \<and> list_all is_digit_c f \<and> lo \<le> int (decimal f) \<and> int (decimal f) \<le> hi)) rs fs"
    if "list_all (\<lambda>f. length f \<le> 9) fs" for rs fs
    using that
  proof (induction rs arbitrary: fs)
    case (Cons r rs)
    then show ?case
      by (cases fs; cases r) (auto simp: cron_field_spec_def cron_value_small)
  qed (cases fs; simp)
  from this[OF assms] show ?thesis by (simp only: is_valid_cron_grammar option.inject) blast
qed

theorem is_valid_cron_decimal_witness:
  "list_all (\<lambda>f. length f \<le> 9) (cron_fields ''30 7 * * 1'') \<and> is_valid_cron (Some ''30 7 * * 1'')"
proof -
  have h: "list_all (\<lambda>f. length f \<le> 9) (cron_fields ''30 7 * * 1'')"
    by (simp add: cron_fields_def)
  show ?thesis
    using is_valid_cron_decimal[OF h]
    by (simp add: cron_fields_def cron_ranges_def is_digit_c_def decimal_def ord_def)
qed

text \<open>The numbers are accumulated without a bound: 4294967301, which is five
  modulo the int range, is accepted as a minute.\<close>

lemma cron_overflow_accepted: "is_valid_cron (Some ''4294967301 * * * *'')"
  by code_simp

section \<open>What validation accepts\<close>

definition allowed_capabilities :: "string set" where
  "allowed_capabilities =
     {''http.request'', ''https.request'', ''ble.scan'', ''ble.advertise'',
      ''background.register'', ''esp_now'', ''files.full'', ''network.bind'',
      ''network.connect'', ''ble.connect'', ''ble.host''}"

text \<open>A relative path without a parent segment.\<close>

definition entry_path_spec :: "string \<Rightarrow> bool" where
  "entry_path_spec p = (p \<noteq> [] \<and> hd p \<noteq> CHR ''/'' \<and> ''..'' \<notin> set (split_on (CHR ''/'') p))"

lemma is_valid_entry_path_iff:
  "is_valid_entry_path path \<longleftrightarrow> (\<exists>p. path = Some p \<and> entry_path_spec p)"
  using str_has_parent_segment_split[of path]
  by (cases path) (auto simp: is_valid_entry_path_def entry_path_spec_def char_at_def hd_conv_nth)

text \<open>Exactly one of an interval of at least a minute and a cron expression.\<close>

definition bg_task_spec :: "bg_task \<Rightarrow> bool" where
  "bg_task_spec t =
     (str_name_valid (bt_name t) \<and>
      ((60 \<le> bt_interval_s t \<and> (bt_cron t = None \<or> bt_cron t = Some [])) \<or>
       (bt_interval_s t = 0 \<and> is_valid_cron (bt_cron t))))"

lemma bg_task_result_iff: "bg_task_result t = MANIFEST_OK \<longleftrightarrow> bg_task_spec t"
proof -
  have "is_valid_cron (bt_cron t) \<Longrightarrow> str_nonempty (bt_cron t)"
    by (simp add: is_valid_cron_def split: option.splits if_splits)
  moreover have "\<not> str_nonempty (bt_cron t) \<longleftrightarrow> bt_cron t = None \<or> bt_cron t = Some []"
    by (cases "bt_cron t") simp_all
  ultimately show ?thesis
    by (auto simp: bg_task_result_def bg_task_spec_def BG_INTERVAL_MIN_S_def Let_def
        split: if_splits)
qed

lemma has_suffix_iff: "has_suffix s suf \<longleftrightarrow> (\<exists>q. s = q @ suf)"
proof
  assume "has_suffix s suf"
  then have "s = take (length s - length suf) s @ suf"
    unfolding has_suffix_def by (metis append_take_drop_id)
  then show "\<exists>q. s = q @ suf" by blast
qed (auto simp: has_suffix_def)

lemma allowed_capability_iff:
  "is_allowed_capability c \<longleftrightarrow> c \<in> Some ` allowed_capabilities"
  by (cases c) (auto simp: is_allowed_capability_def allowed_capabilities_def split: if_splits)

lemma validate_capabilities_iff:
  "validate_capabilities m = MANIFEST_OK \<longleftrightarrow>
     capability_count m = 0 \<or>
     (\<exists>caps. capabilities m = Some caps \<and>
        (\<forall>i\<in>{..<capability_count m}. caps ! i \<in> Some ` allowed_capabilities))"
  by (auto simp: validate_capabilities_def list_ex_iff allowed_capability_iff split: option.split)

lemma validate_background_iff:
  "validate_background m = MANIFEST_OK \<longleftrightarrow>
     bg_enabled (m_background m) \<in> {0, 1} \<and> bg_task_count (m_background m) \<le> 4 \<and>
     (bg_task_count (m_background m) = 0 \<or>
      (\<exists>ts. bg_tasks (m_background m) = Some ts \<and>
         (\<forall>i\<in>{..<bg_task_count (m_background m)}. bg_task_spec (ts ! i))))"
  by (auto simp: validate_background_def list_ex_iff bg_task_result_iff Let_def
      MANIFEST_V2_BG_TASK_MAX_def split: option.split)

lemma validate_entry_iff:
  "m_entry m = Some p \<Longrightarrow>
     (validate_app_type_entry m = MANIFEST_OK \<and> validate_toolchain m = MANIFEST_OK) \<longleftrightarrow>
     (m_app_type m = APP_TYPE_MICROPYTHON \<and> (\<exists>q. p = q @ ''.mpy'') \<and>
        m_toolchain m = \<lparr> tc_runtime_version = Some ''v1.28.0'',
          tc_cross_version = Some ''1.28.0'', tc_bytecode_abi = 6 \<rparr>) \<or>
     (m_app_type m = APP_TYPE_NATIVE \<and> (\<exists>q. p = q @ ''.bin''))"
proof -
  assume e: "m_entry m = Some p"
  have tc: "(str_eq r (Some ''v1.28.0'') \<and> str_eq c (Some ''1.28.0'')) \<longleftrightarrow>
      r = Some ''v1.28.0'' \<and> c = Some ''1.28.0''" for r c
    by (cases r; cases c; simp)
  have "m_app_type m \<noteq> APP_TYPE_NATIVE \<Longrightarrow> validate_toolchain m = MANIFEST_OK \<longleftrightarrow>
      m_toolchain m = \<lparr> tc_runtime_version = Some ''v1.28.0'',
          tc_cross_version = Some ''1.28.0'', tc_bytecode_abi = 6 \<rparr>"
    using tc[of "tc_runtime_version (m_toolchain m)" "tc_cross_version (m_toolchain m)"]
    by (cases "m_toolchain m")
       (auto simp: validate_toolchain_def Let_def MANIFEST_V2_RUNTIME_VERSION_def
        MANIFEST_V2_CROSS_VERSION_def MANIFEST_V2_BYTECODE_ABI_def)
  moreover have "m_app_type m = APP_TYPE_NATIVE \<Longrightarrow> validate_toolchain m = MANIFEST_OK"
    by (simp add: validate_toolchain_def)
  ultimately show ?thesis
    by (cases "m_app_type m") (simp_all add: validate_app_type_entry_def e has_suffix_iff)
qed

lemma validate_split:
  "manifest_v2_validate (Some m) = MANIFEST_OK \<longleftrightarrow>
     schema_version m = 2 \<and>
     str_nonempty (m_app_id m) \<and> str_nonempty (m_name m) \<and> str_nonempty (m_version m) \<and>
     str_nonempty (m_entry m) \<and> \<not> is_reserved_app_id (m_app_id m) \<and>
     1 \<le> sdk_min m \<and> sdk_min m \<le> 3 \<and> is_valid_entry_path (m_entry m) \<and>
     (validate_app_type_entry m = MANIFEST_OK \<and> validate_toolchain m = MANIFEST_OK) \<and>
     validate_capabilities m = MANIFEST_OK \<and> validate_background m = MANIFEST_OK"
  by (simp add: manifest_v2_validate_def Let_def MANIFEST_V2_SCHEMA_VERSION_def SDK_VERSION_def)
     (auto simp: not_less)

definition manifest_spec :: "manifest_v2 \<Rightarrow> bool" where
  "manifest_spec m =
     (schema_version m = 2 \<and>
      str_nonempty (m_app_id m) \<and> str_nonempty (m_name m) \<and> str_nonempty (m_version m) \<and>
      \<not> is_reserved_app_id (m_app_id m) \<and> 1 \<le> sdk_min m \<and> sdk_min m \<le> 3 \<and>
      (\<exists>p. m_entry m = Some p \<and> entry_path_spec p \<and>
        ((m_app_type m = APP_TYPE_MICROPYTHON \<and> (\<exists>q. p = q @ ''.mpy'') \<and>
          m_toolchain m = \<lparr> tc_runtime_version = Some ''v1.28.0'',
            tc_cross_version = Some ''1.28.0'', tc_bytecode_abi = 6 \<rparr>) \<or>
         (m_app_type m = APP_TYPE_NATIVE \<and> (\<exists>q. p = q @ ''.bin'')))) \<and>
      (capability_count m = 0 \<or>
       (\<exists>caps. capabilities m = Some caps \<and>
          (\<forall>i\<in>{..<capability_count m}. caps ! i \<in> Some ` allowed_capabilities))) \<and>
      bg_enabled (m_background m) \<in> {0, 1} \<and> bg_task_count (m_background m) \<le> 4 \<and>
      (bg_task_count (m_background m) = 0 \<or>
       (\<exists>ts. bg_tasks (m_background m) = Some ts \<and>
          (\<forall>i\<in>{..<bg_task_count (m_background m)}. bg_task_spec (ts ! i)))))"


definition example_manifest :: manifest_v2 where
  "example_manifest =
     \<lparr> schema_version = 2, m_app_id = Some ''notes'', m_name = Some ''Notes'',
       m_version = Some ''1.0'', sdk_min = 1, m_entry = Some ''bin/app.bin'',
       m_app_type = APP_TYPE_NATIVE, capabilities = Some [Some ''ble.scan''],
       capability_count = 1,
       m_background = \<lparr> bg_enabled = 1,
         bg_tasks = Some [\<lparr> bt_name = Some ''sync'', bt_interval_s = 0,
                            bt_cron = Some ''30 7 * * 1'' \<rparr>],
         bg_task_count = 1 \<rparr>,
       m_toolchain = \<lparr> tc_runtime_version = None, tc_cross_version = None,
                       tc_bytecode_abi = 0 \<rparr> \<rparr>"

lemma example_manifest_ok: "manifest_v2_validate (Some example_manifest) = MANIFEST_OK"
  by code_simp

end
