(* ===== verification/AppLoader.thy ===== *)
theory AppLoader
  imports Manifest
begin

text \<open>
  src/jpp_app_loader_core.c: the preflight check of an app before it is
  launched, from its manifest and the record of its entry file.
\<close>

datatype app_loader_result =
    LOADER_OK | LOADER_MANIFEST_REJECTED | LOADER_MISSING_ENTRY | LOADER_INVALID_ENTRY
  | LOADER_INVALID_TOOLCHAIN | LOADER_RUNTIME_MISMATCH | LOADER_CORRUPT

record app_entry_record =
  ae_path :: cstr
  ae_present :: bool
  ae_size_bytes :: nat
  ae_runtime_version :: cstr
  ae_cross_version :: cstr
  ae_bytecode_abi :: int

record app_loader_check =
  lc_result :: app_loader_result
  lc_manifest_result :: manifest_result
  lc_app_id :: cstr
  lc_entry_path :: cstr

definition make_check ::
  "app_loader_result \<Rightarrow> manifest_result \<Rightarrow> manifest_v2 option \<Rightarrow> app_entry_record option \<Rightarrow>
   app_loader_check" where
  "make_check result manifest_res manifest entry_record =
     \<lparr> lc_result = result, lc_manifest_result = manifest_res,
       lc_app_id = (case manifest of None \<Rightarrow> None | Some m \<Rightarrow> m_app_id m),
       lc_entry_path =
         (case entry_record of
            Some e \<Rightarrow> if str_nonempty (ae_path e) then ae_path e
                      else (case manifest of None \<Rightarrow> None | Some m \<Rightarrow> m_entry m)
          | None \<Rightarrow> (case manifest of None \<Rightarrow> None | Some m \<Rightarrow> m_entry m)) \<rparr>"

definition entry_toolchain_is_complete :: "app_entry_record \<Rightarrow> bool" where
  "entry_toolchain_is_complete e =
     (str_nonempty (ae_runtime_version e) \<and> str_nonempty (ae_cross_version e) \<and>
      ae_bytecode_abi e > 0)"

definition entry_toolchain_matches :: "app_entry_record \<Rightarrow> bool" where
  "entry_toolchain_matches e =
     (str_eq (ae_runtime_version e) (Some MANIFEST_V2_RUNTIME_VERSION) \<and>
      str_eq (ae_cross_version e) (Some MANIFEST_V2_CROSS_VERSION) \<and>
      ae_bytecode_abi e = MANIFEST_V2_BYTECODE_ABI)"

definition app_loader_preflight ::
  "manifest_v2 option \<Rightarrow> app_entry_record option \<Rightarrow> app_loader_check" where
  "app_loader_preflight manifest entry_record =
     (let mr = manifest_v2_validate manifest
      in if mr \<noteq> MANIFEST_OK then make_check LOADER_MANIFEST_REJECTED mr manifest entry_record
         else
           (case (manifest, entry_record) of
              (Some m, Some e) \<Rightarrow>
                if \<not> ae_present e then make_check LOADER_MISSING_ENTRY mr manifest entry_record
                else if \<not> str_eq (ae_path e) (m_entry m) \<or> \<not> is_valid_entry_path (ae_path e)
                then make_check LOADER_INVALID_ENTRY mr manifest entry_record
                else if ae_size_bytes e = 0 then make_check LOADER_CORRUPT mr manifest entry_record
                else if m_app_type m = APP_TYPE_MICROPYTHON \<and> \<not> entry_toolchain_is_complete e
                then make_check LOADER_INVALID_TOOLCHAIN mr manifest entry_record
                else if m_app_type m = APP_TYPE_MICROPYTHON \<and> \<not> entry_toolchain_matches e
                then make_check LOADER_RUNTIME_MISMATCH mr manifest entry_record
                else make_check LOADER_OK mr manifest entry_record
            | _ \<Rightarrow> make_check LOADER_MISSING_ENTRY mr manifest entry_record))"

definition app_loader_result_name :: "app_loader_result \<Rightarrow> string" where
  "app_loader_result_name r =
     (case r of LOADER_OK \<Rightarrow> ''OK'' | LOADER_MANIFEST_REJECTED \<Rightarrow> ''MANIFEST_REJECTED''
      | LOADER_MISSING_ENTRY \<Rightarrow> ''MISSING_ENTRY'' | LOADER_INVALID_ENTRY \<Rightarrow> ''INVALID_ENTRY''
      | LOADER_INVALID_TOOLCHAIN \<Rightarrow> ''INVALID_TOOLCHAIN''
      | LOADER_RUNTIME_MISMATCH \<Rightarrow> ''RUNTIME_MISMATCH'' | LOADER_CORRUPT \<Rightarrow> ''CORRUPT'')"

section \<open>Lemmas\<close>

text \<open>The entry file of a launchable app: it is there, non-empty, at the path the
  manifest declares, and built by the toolchain the firmware runs.\<close>

definition entry_matches :: "manifest_v2 \<Rightarrow> app_entry_record \<Rightarrow> bool" where
  "entry_matches m e =
     (ae_present e \<and> ae_path e = m_entry m \<and> 0 < ae_size_bytes e \<and>
      (m_app_type m = APP_TYPE_MICROPYTHON \<longrightarrow> entry_toolchain_matches e))"

lemma toolchain_matches_complete:
  "entry_toolchain_matches e \<Longrightarrow> entry_toolchain_is_complete e"
  by (cases "ae_runtime_version e"; cases "ae_cross_version e")
     (auto simp: entry_toolchain_matches_def entry_toolchain_is_complete_def
      MANIFEST_V2_RUNTIME_VERSION_def MANIFEST_V2_CROSS_VERSION_def MANIFEST_V2_BYTECODE_ABI_def)

lemma make_check_result [simp]:
  "lc_result (make_check r mr m e) = r" "lc_manifest_result (make_check r mr m e) = mr"
  by (simp_all add: make_check_def)

lemma validated_entry:
  "manifest_v2_validate (Some m) = MANIFEST_OK \<Longrightarrow>
     is_valid_entry_path (m_entry m) \<and> str_nonempty (m_entry m) \<and> m_entry m \<noteq> None"
  by (cases "m_entry m") (auto simp: validate_split)

text \<open>preflight answers OK exactly when the manifest validates and the entry
  file is present, non-empty, at the manifest's path and (for MicroPython apps) of
  the firmware's toolchain; the check then names the manifest's app and entry.\<close>

theorem app_loader_preflight_ok_iff:
  "lc_result (app_loader_preflight manifest entry_record) = LOADER_OK \<longleftrightarrow>
     (\<exists>m e. manifest = Some m \<and> entry_record = Some e \<and>
        manifest_v2_validate (Some m) = MANIFEST_OK \<and> entry_matches m e \<and>
        app_loader_preflight manifest entry_record =
          \<lparr> lc_result = LOADER_OK, lc_manifest_result = MANIFEST_OK,
            lc_app_id = m_app_id m, lc_entry_path = m_entry m \<rparr>)"
proof (cases "manifest_v2_validate manifest = MANIFEST_OK")
  case False
  then show ?thesis by (auto simp: app_loader_preflight_def Let_def)
next
  case True
  then obtain m where m: "manifest = Some m"
    by (cases manifest) (auto simp: manifest_v2_validate_def)
  note v = validated_entry[of m]
  show ?thesis
  proof (cases entry_record)
    case None
    then show ?thesis by (simp add: app_loader_preflight_def m Let_def)
  next
    case (Some e)
    have "str_eq (ae_path e) (m_entry m) \<longleftrightarrow> ae_path e = m_entry m"
      using v True m by (cases "ae_path e"; cases "m_entry m") simp_all
    then show ?thesis
      using True v toolchain_matches_complete[of e]
      by (auto simp: app_loader_preflight_def m Some Let_def entry_matches_def make_check_def)
  qed
qed

end
