(* ===== verification/VM.thy ===== *)
theory VM
  imports Strings Boot
begin

text \<open>
  src/jpp_vm_core.c: the MicroPython runtime context. It holds the validated
  configuration, the runtime state and the ring buffer of requests (several
  producers, one consumer: the owner task), and decides which modules may be
  imported from where. Each operation runs its queue section inside a spinlock,
  so one operation is one step. The strings inside a request are arrays in the
  code and never NULL.
\<close>

datatype vm_state = VM_OFFLINE | VM_WAITING_FOR_BOOT | VM_RUNNING

datatype vm_status =
    VM_OK | VM_INVALID_ARGUMENT | VM_INVALID_CONFIG | VM_INVALID_STATE | VM_BOOT_NOT_READY
  | VM_QUEUE_FULL | VM_ACCESS_DENIED | VM_APP_NOT_ALLOWED | VM_UNSUPPORTED_IMPORT
  | VM_PATH_NOT_ALLOWED

datatype vm_request_kind = RQ_NONE | RQ_STARTUP | RQ_IDLE | RQ_IMPORT_MODULE | RQ_ACTION

text \<open>An enumeration argument may hold a number no constructor stands for.\<close>

datatype vm_import_source =
  SRC_CORE | SRC_SDK | SRC_RUNTIME_PATH | SRC_APP_PATH | SRC_OTHER nat

datatype vm_path_role = ROLE_RUNTIME | ROLE_SDK | ROLE_APP | ROLE_OTHER nat

record vm_memory_config =
  heap_bytes :: nat
  stack_words :: nat
  queue_depth :: nat

record vm_import_surface =
  app_root :: cstr
  runtime_root :: cstr
  sd_lib_root :: cstr
  allowed_modules :: "cstr list option"
  allowed_module_count :: nat

record vm_runtime_config =
  owner_task_name :: cstr
  vm_memory :: vm_memory_config
  import_surface :: vm_import_surface

record vm_request =
  rq_kind :: vm_request_kind
  origin_task_name :: string
  rq_app_id :: string
  rq_module_name :: string
  rq_origin_path :: string
  rq_import_source :: vm_import_source
  rq_action_payload :: "32 word"

record vm_context =
  vm_config :: vm_runtime_config
  vm_state_of :: vm_state
  queue_capacity :: nat
  queue_head :: nat
  queue_count :: nat
  vm_queue :: "vm_request list"

definition VM_QUEUE_CAPACITY_MAX :: nat where "VM_QUEUE_CAPACITY_MAX = 8"
definition VM_TASK_NAME_MAX :: nat where "VM_TASK_NAME_MAX = 32"
definition VM_HEAP_LIMIT_BYTES :: nat where "VM_HEAP_LIMIT_BYTES = 196608"
definition VM_STACK_LIMIT_WORDS :: nat where "VM_STACK_LIMIT_WORDS = 12288"

section \<open>Names, paths and the import surface\<close>

definition vm_task_name_matches :: "cstr \<Rightarrow> cstr \<Rightarrow> bool" where
  "vm_task_name_matches left right = (str_eq left right \<and> str_nonempty left)"

definition vm_app_id_is_valid :: "cstr \<Rightarrow> bool" where
  "vm_app_id_is_valid app_id =
     (if \<not> str_name_valid app_id then False else app_id \<noteq> Some ''settings'')"

definition vm_path_is_under_root :: "cstr \<Rightarrow> cstr \<Rightarrow> bool" where
  "vm_path_is_under_root path root =
     (case (path, root) of
        (Some p, Some r) \<Rightarrow>
          if \<not> str_nonempty path \<or> \<not> str_nonempty root \<or> char_at p 0 \<noteq> Some (CHR ''/'') then False
          else if str_has_parent_segment path then False
          else if take (length r) p \<noteq> r then False
          else char_at p (length r) = None \<or> char_at p (length r) = Some (CHR ''/'')
      | _ \<Rightarrow> False)"

definition vm_app_root_is_valid :: "cstr \<Rightarrow> bool" where
  "vm_app_root_is_valid path =
     (case path of
        None \<Rightarrow> False
      | Some p \<Rightarrow>
          let sd_prefix = ''/sd/apps/''; data_prefix = ''/data/apps/''
          in if \<not> str_nonempty path then False
             else if take (length sd_prefix) p = sd_prefix then
               char_at p (length sd_prefix) \<noteq> None \<and> \<not> str_has_parent_segment path
             else if take (length data_prefix) p = data_prefix then
               char_at p (length data_prefix) \<noteq> None \<and> \<not> str_has_parent_segment path
             else False)"

definition vm_allowed_module_matches :: "cstr \<Rightarrow> cstr \<Rightarrow> bool" where
  "vm_allowed_module_matches allowed_module module_name =
     (case (allowed_module, module_name) of
        (Some a, Some m) \<Rightarrow>
          if \<not> str_nonempty allowed_module \<or> \<not> str_nonempty module_name then False
          else if take (length a) m \<noteq> a then False
          else char_at m (length a) = None \<or> char_at m (length a) = Some (CHR ''.'')
      | _ \<Rightarrow> False)"

definition blocked_modules :: "string list" where
  "blocked_modules =
     [''machine'', ''network'', ''socket'', ''os'', ''uos'', ''esp'', ''esp32'']"

definition vm_module_is_blocked :: "cstr \<Rightarrow> bool" where
  "vm_module_is_blocked module_name =
     (if \<not> str_nonempty module_name then True
      else list_ex (\<lambda>b. vm_allowed_module_matches (Some b) module_name) blocked_modules)"

definition vm_import_surface_is_valid :: "vm_import_surface \<Rightarrow> bool" where
  "vm_import_surface_is_valid s =
     (if \<not> vm_app_root_is_valid (app_root s) then False
      else if \<not> vm_task_name_matches (runtime_root s) (Some ''/lib'') then False
      else if \<not> vm_task_name_matches (sd_lib_root s) (Some ''/sd/lib'') then False
      else (case allowed_modules s of
              None \<Rightarrow> False
            | Some ms \<Rightarrow>
                if allowed_module_count s = 0 then False
                else list_all (\<lambda>i. str_name_valid (ms ! i) \<and> \<not> vm_module_is_blocked (ms ! i))
                       [0..<allowed_module_count s]))"

definition vm_runtime_config_is_valid :: "vm_runtime_config \<Rightarrow> bool" where
  "vm_runtime_config_is_valid c =
     (let m = vm_memory c
      in if \<not> str_nonempty (owner_task_name c) then False
         else if heap_bytes m = 0 \<or> stack_words m = 0 then False
         else if heap_bytes m > VM_HEAP_LIMIT_BYTES then False
         else if stack_words m > VM_STACK_LIMIT_WORDS then False
         else if queue_depth m = 0 \<or> queue_depth m > VM_QUEUE_CAPACITY_MAX then False
         else vm_import_surface_is_valid (import_surface c))"

definition vm_module_is_allowed :: "vm_import_surface \<Rightarrow> cstr \<Rightarrow> bool" where
  "vm_module_is_allowed s module_name =
     (if \<not> str_name_valid module_name \<or> vm_module_is_blocked module_name then False
      else (case allowed_modules s of
              None \<Rightarrow> False
            | Some ms \<Rightarrow>
                list_ex (\<lambda>i. vm_allowed_module_matches (ms ! i) module_name)
                  [0..<allowed_module_count s]))"

definition vm_request_targets_sd_app :: "vm_request \<Rightarrow> bool" where
  "vm_request_targets_sd_app r =
     (case rq_kind r of
        RQ_NONE \<Rightarrow> False
      | _ \<Rightarrow> vm_app_id_is_valid (Some (rq_app_id r)))"

definition vm_request_is_valid :: "vm_request \<Rightarrow> bool" where
  "vm_request_is_valid r =
     (if \<not> vm_request_targets_sd_app r then False
      else if rq_kind r = RQ_IMPORT_MODULE then
        (if \<not> str_nonempty (Some (rq_module_name r)) then False
         else (case rq_import_source r of SRC_OTHER _ \<Rightarrow> False | _ \<Rightarrow> True))
      else True)"

section \<open>The runtime\<close>

definition empty_request :: vm_request where
  "empty_request =
     \<lparr> rq_kind = RQ_NONE, origin_task_name = [], rq_app_id = [], rq_module_name = [],
       rq_origin_path = [], rq_import_source = SRC_CORE, rq_action_payload = 0 \<rparr>"

definition vm_context_init :: vm_context where
  "vm_context_init =
     \<lparr> vm_config =
         \<lparr> owner_task_name = None,
           vm_memory = \<lparr> heap_bytes = 0, stack_words = 0, queue_depth = 0 \<rparr>,
           import_surface =
             \<lparr> app_root = None, runtime_root = None, sd_lib_root = None,
               allowed_modules = None, allowed_module_count = 0 \<rparr> \<rparr>,
       vm_state_of = VM_OFFLINE, queue_capacity = 0, queue_head = 0, queue_count = 0,
       vm_queue = replicate 8 empty_request \<rparr>"

definition vm_runtime_prepare ::
  "vm_context \<Rightarrow> vm_runtime_config option \<Rightarrow> vm_status \<times> vm_context" where
  "vm_runtime_prepare c config =
     (case config of
        None \<Rightarrow> (VM_INVALID_ARGUMENT, c)
      | Some cfg \<Rightarrow>
          if \<not> vm_runtime_config_is_valid cfg then (VM_INVALID_CONFIG, c)
          else (VM_OK,
                vm_context_init\<lparr> vm_config := cfg, queue_capacity := queue_depth (vm_memory cfg),
                                 vm_state_of := VM_WAITING_FOR_BOOT \<rparr>))"

definition vm_boot_ready :: "boot_context option \<Rightarrow> bool" where
  "vm_boot_ready boot_context =
     (case boot_context of
        None \<Rightarrow> False
      | Some b \<Rightarrow>
          if \<not> b_flash_layout_ready b \<or> \<not> b_settings_available b then False
          else if \<not> b_runtime_paths_ready b \<or> \<not> b_services_ready b then False
          else if \<not> b_system_ready b then False
          else True)"

definition vm_runtime_start ::
  "vm_context \<Rightarrow> boot_context option \<Rightarrow> vm_status \<times> vm_context" where
  "vm_runtime_start c boot_context =
     (if boot_context = None then (VM_INVALID_ARGUMENT, c)
      else if vm_state_of c \<noteq> VM_WAITING_FOR_BOOT then (VM_INVALID_STATE, c)
      else if \<not> vm_boot_ready boot_context then (VM_BOOT_NOT_READY, c)
      else (VM_OK, c\<lparr> vm_state_of := VM_RUNNING \<rparr>))"

definition vm_task_can_touch_python_objects :: "vm_context option \<Rightarrow> cstr \<Rightarrow> bool" where
  "vm_task_can_touch_python_objects context task_name =
     (case context of
        None \<Rightarrow> False
      | Some c \<Rightarrow>
          if vm_state_of c \<noteq> VM_RUNNING then False
          else vm_task_name_matches (owner_task_name (vm_config c)) task_name)"

text \<open>The critical section of the producer: None when the ring is full.\<close>

definition ring_enq :: "vm_context \<Rightarrow> vm_request \<Rightarrow> vm_context option" where
  "ring_enq c r =
     (if queue_count c \<ge> queue_capacity c then None
      else
        let insert_index = (queue_head c + queue_count c) mod queue_capacity c
        in Some (c\<lparr> vm_queue := (vm_queue c)[insert_index := r],
                    queue_count := queue_count c + 1 \<rparr>))"

definition vm_schedule_request ::
  "vm_context \<Rightarrow> cstr \<Rightarrow> vm_request option \<Rightarrow> vm_status \<times> vm_context" where
  "vm_schedule_request c task_name request =
     (case (task_name, request) of
        (Some task, Some rq) \<Rightarrow>
          if \<not> str_nonempty task_name then (VM_INVALID_ARGUMENT, c)
          else if vm_state_of c \<noteq> VM_RUNNING then (VM_INVALID_STATE, c)
          else if \<not> vm_request_is_valid rq then (VM_APP_NOT_ALLOWED, c)
          else
            (case ring_enq c (rq\<lparr> origin_task_name := take (VM_TASK_NAME_MAX - 1) task \<rparr>) of
               None \<Rightarrow> (VM_QUEUE_FULL, c)
             | Some c' \<Rightarrow> (VM_OK, c'))
      | _ \<Rightarrow> (VM_INVALID_ARGUMENT, c))"

text \<open>The critical section of the consumer: None when the ring is empty.\<close>

definition ring_deq :: "vm_context \<Rightarrow> (vm_request \<times> vm_context) option" where
  "ring_deq c =
     (if queue_count c = 0 then None
      else Some (vm_queue c ! queue_head c,
                 c\<lparr> queue_head := (queue_head c + 1) mod queue_capacity c,
                    queue_count := queue_count c - 1 \<rparr>))"

text \<open>The request parameter is an out parameter (None is NULL).\<close>

definition vm_owner_dequeue_request ::
  "vm_context \<Rightarrow> cstr \<Rightarrow> vm_request option \<Rightarrow> vm_status \<times> vm_request option \<times> vm_context" where
  "vm_owner_dequeue_request c task_name request =
     (if request = None \<or> \<not> str_nonempty task_name then (VM_INVALID_ARGUMENT, request, c)
      else if vm_state_of c \<noteq> VM_RUNNING then (VM_INVALID_STATE, request, c)
      else if \<not> vm_task_can_touch_python_objects (Some c) task_name
      then (VM_ACCESS_DENIED, request, c)
      else
        (case ring_deq c of
           None \<Rightarrow> (VM_INVALID_STATE, request, c)
         | Some (r, c') \<Rightarrow> (VM_OK, Some r, c')))"

definition vm_check_import ::
  "vm_context option \<Rightarrow> cstr \<Rightarrow> vm_import_source \<Rightarrow> cstr \<Rightarrow> vm_status" where
  "vm_check_import context module_name source origin_path =
     (case context of
        None \<Rightarrow> VM_INVALID_ARGUMENT
      | Some c \<Rightarrow>
          if \<not> str_nonempty module_name then VM_INVALID_ARGUMENT
          else if vm_state_of c \<noteq> VM_RUNNING then VM_INVALID_STATE
          else if \<not> str_name_valid module_name then VM_INVALID_ARGUMENT
          else if vm_module_is_blocked module_name then VM_UNSUPPORTED_IMPORT
          else
            let surface = import_surface (vm_config c)
            in case source of
                 SRC_CORE \<Rightarrow>
                   if vm_module_is_allowed surface module_name then VM_OK else VM_UNSUPPORTED_IMPORT
               | SRC_SDK \<Rightarrow>
                   if vm_module_is_allowed surface module_name then VM_OK else VM_UNSUPPORTED_IMPORT
               | SRC_RUNTIME_PATH \<Rightarrow>
                   if \<not> vm_module_is_allowed surface module_name then VM_UNSUPPORTED_IMPORT
                   else if vm_path_is_under_root origin_path (runtime_root surface) \<or>
                           vm_path_is_under_root origin_path (sd_lib_root surface) then VM_OK
                   else VM_PATH_NOT_ALLOWED
               | SRC_APP_PATH \<Rightarrow>
                   if vm_path_is_under_root origin_path (app_root surface) then VM_OK
                   else VM_PATH_NOT_ALLOWED
               | SRC_OTHER _ \<Rightarrow> VM_INVALID_ARGUMENT)"

definition vm_check_sys_path_entry ::
  "vm_context option \<Rightarrow> cstr \<Rightarrow> vm_path_role \<Rightarrow> vm_status" where
  "vm_check_sys_path_entry context path role =
     (case context of
        None \<Rightarrow> VM_INVALID_ARGUMENT
      | Some c \<Rightarrow>
          if \<not> str_nonempty path then VM_INVALID_ARGUMENT
          else if vm_state_of c \<noteq> VM_RUNNING then VM_INVALID_STATE
          else
            let surface = import_surface (vm_config c)
            in case role of
                 ROLE_RUNTIME \<Rightarrow>
                   if vm_path_is_under_root path (runtime_root surface) then VM_OK
                   else VM_PATH_NOT_ALLOWED
               | ROLE_SDK \<Rightarrow>
                   if vm_path_is_under_root path (sd_lib_root surface) then VM_OK
                   else VM_PATH_NOT_ALLOWED
               | ROLE_APP \<Rightarrow>
                   if vm_path_is_under_root path (app_root surface) then VM_OK
                   else VM_PATH_NOT_ALLOWED
               | ROLE_OTHER _ \<Rightarrow> VM_INVALID_ARGUMENT)"

definition vm_state_name :: "vm_state \<Rightarrow> string" where
  "vm_state_name s =
     (case s of VM_OFFLINE \<Rightarrow> ''OFFLINE'' | VM_WAITING_FOR_BOOT \<Rightarrow> ''WAITING_FOR_BOOT''
      | VM_RUNNING \<Rightarrow> ''RUNNING'')"

definition vm_status_name :: "vm_status \<Rightarrow> string" where
  "vm_status_name s =
     (case s of VM_OK \<Rightarrow> ''OK'' | VM_INVALID_ARGUMENT \<Rightarrow> ''INVALID_ARGUMENT''
      | VM_INVALID_CONFIG \<Rightarrow> ''INVALID_CONFIG'' | VM_INVALID_STATE \<Rightarrow> ''INVALID_STATE''
      | VM_BOOT_NOT_READY \<Rightarrow> ''BOOT_NOT_READY'' | VM_QUEUE_FULL \<Rightarrow> ''QUEUE_FULL''
      | VM_ACCESS_DENIED \<Rightarrow> ''ACCESS_DENIED'' | VM_APP_NOT_ALLOWED \<Rightarrow> ''APP_NOT_ALLOWED''
      | VM_UNSUPPORTED_IMPORT \<Rightarrow> ''UNSUPPORTED_IMPORT''
      | VM_PATH_NOT_ALLOWED \<Rightarrow> ''PATH_NOT_ALLOWED'')"

definition vm_request_kind_name :: "vm_request_kind \<Rightarrow> string" where
  "vm_request_kind_name k =
     (case k of RQ_NONE \<Rightarrow> ''NONE'' | RQ_STARTUP \<Rightarrow> ''STARTUP'' | RQ_IDLE \<Rightarrow> ''IDLE''
      | RQ_IMPORT_MODULE \<Rightarrow> ''IMPORT_MODULE'' | RQ_ACTION \<Rightarrow> ''ACTION'')"

definition vm_import_source_name :: "vm_import_source \<Rightarrow> string" where
  "vm_import_source_name s =
     (case s of SRC_CORE \<Rightarrow> ''core'' | SRC_SDK \<Rightarrow> ''sdk'' | SRC_RUNTIME_PATH \<Rightarrow> ''runtime_path''
      | SRC_APP_PATH \<Rightarrow> ''app_path'' | SRC_OTHER _ \<Rightarrow> ''unknown'')"

definition vm_path_role_name :: "vm_path_role \<Rightarrow> string" where
  "vm_path_role_name r =
     (case r of ROLE_RUNTIME \<Rightarrow> ''runtime'' | ROLE_SDK \<Rightarrow> ''sdk'' | ROLE_APP \<Rightarrow> ''app''
      | ROLE_OTHER _ \<Rightarrow> ''unknown'')"

section \<open>The operation set\<close>

datatype vm_op =
    Op_Init | Op_Prepare "vm_runtime_config option" | Op_Start "boot_context option"
  | Op_Schedule cstr "vm_request option" | Op_Dequeue cstr "vm_request option"

text \<open>The result of a step is the status and, for a dequeue, the request read.\<close>

fun vm_call :: "vm_context \<Rightarrow> vm_op \<Rightarrow> (vm_status \<times> vm_request option) \<times> vm_context" where
  "vm_call c Op_Init = ((VM_OK, None), vm_context_init)"
| "vm_call c (Op_Prepare cfg) =
     (let (st, c) = vm_runtime_prepare c cfg in ((st, None), c))"
| "vm_call c (Op_Start b) = (let (st, c) = vm_runtime_start c b in ((st, None), c))"
| "vm_call c (Op_Schedule t r) = (let (st, c) = vm_schedule_request c t r in ((st, None), c))"
| "vm_call c (Op_Dequeue t r) =
     (let (st, out, c) = vm_owner_dequeue_request c t r
      in ((st, if st = VM_OK then out else None), c))"

text \<open>Every operation refuses a NULL context.\<close>

definition vm_step ::
  "vm_context option \<Rightarrow> vm_op \<Rightarrow> (vm_status \<times> vm_request option) \<times> vm_context option" where
  "vm_step context op =
     (case context of None \<Rightarrow> ((VM_INVALID_ARGUMENT, None), None)
      | Some c \<Rightarrow> (let (r, c) = vm_call c op in (r, Some c)))"

section \<open>The ring buffer is a bounded FIFO\<close>

text \<open>The requests the ring holds, oldest first.\<close>

definition vm_pending :: "vm_context \<Rightarrow> vm_request list" where
  "vm_pending c =
     map (\<lambda>i. vm_queue c ! ((queue_head c + i) mod queue_capacity c)) [0..<queue_count c]"

definition ring_inv :: "vm_context \<Rightarrow> bool" where
  "ring_inv c =
     (length (vm_queue c) = 8 \<and> queue_capacity c \<le> 8 \<and>
      (0 < queue_capacity c \<longrightarrow> queue_head c < queue_capacity c) \<and>
      queue_count c \<le> queue_capacity c)"

lemma mod_slots_distinct:
  "i < j \<Longrightarrow> j < n \<Longrightarrow> (h + i) mod n \<noteq> (h + j) mod (n :: nat)"
proof
  assume a: "i < j" "j < n" and "(h + i) mod n = (h + j) mod n"
  then have "n dvd (h + j) - (h + i)" by (metis mod_eq_dvd_iff_nat add_le_cancel_left less_imp_le)
  with a show False by (simp add: nat_dvd_not_less)
qed

lemma ring_enq_pending:
  assumes "ring_inv c" "ring_enq c r = Some c'"
  shows "ring_inv c' \<and> vm_pending c' = vm_pending c @ [r] \<and> queue_capacity c' = queue_capacity c"
proof -
  let ?n = "queue_capacity c" and ?h = "queue_head c" and ?k = "queue_count c"
  have k: "?k < ?n" and c': "c' = c\<lparr> vm_queue := (vm_queue c)[(?h + ?k) mod ?n := r],
      queue_count := ?k + 1 \<rparr>"
    using assms(2) by (auto simp: ring_enq_def Let_def split: if_splits)
  have ix: "(?h + ?k) mod ?n < length (vm_queue c)"
    using assms(1) k by (auto simp: ring_inv_def intro: less_le_trans[OF mod_less_divisor])
  have "i < ?k \<Longrightarrow> (vm_queue c)[(?h + ?k) mod ?n := r] ! ((?h + i) mod ?n) =
      vm_queue c ! ((?h + i) mod ?n)" for i
    using mod_slots_distinct[of i ?k ?n ?h] k by simp
  then show ?thesis
    using assms(1) k ix by (simp add: c' vm_pending_def ring_inv_def)
qed

lemma ring_deq_pending:
  assumes "ring_inv c" "ring_deq c = Some (r, c')"
  shows "ring_inv c' \<and> vm_pending c = r # vm_pending c' \<and> queue_capacity c' = queue_capacity c"
proof -
  let ?n = "queue_capacity c" and ?h = "queue_head c" and ?k = "queue_count c"
  have k: "0 < ?k" and r: "r = vm_queue c ! ?h"
    and c': "c' = c\<lparr> queue_head := (?h + 1) mod ?n, queue_count := ?k - 1 \<rparr>"
    using assms(2) by (auto simp: ring_deq_def split: if_splits)
  have n: "0 < ?n" "?h < ?n" using assms(1) k by (auto simp: ring_inv_def)
  have "[0..<?k] = 0 # map Suc [0..<?k - 1]"
    using k by (metis Suc_diff_1 map_Suc_upt upt_conv_Cons)
  moreover have "(Suc ?h mod ?n + i) mod ?n = Suc (?h + i) mod ?n" for i
    by (metis add_Suc mod_add_left_eq)
  ultimately have "vm_pending c = r # vm_pending c'"
    using n by (simp add: c' r vm_pending_def comp_def)
  then show ?thesis using assms(1) n k by (auto simp: c' ring_inv_def)
qed

interpretation ring: bounded_fifo vm_pending queue_capacity ring_inv ring_enq ring_deq
proof unfold_locales
  show "ring_inv q \<Longrightarrow> length (vm_pending q) \<le> queue_capacity q" for q
    by (simp add: ring_inv_def vm_pending_def)
  show "ring_inv q \<Longrightarrow> (ring_enq q a = None) = (length (vm_pending q) = queue_capacity q)" for q a
    by (auto simp: ring_inv_def vm_pending_def ring_enq_def Let_def)
  show "ring_inv q \<Longrightarrow> (ring_deq q = None) = (vm_pending q = [])" for q
    by (auto simp: vm_pending_def ring_deq_def)
qed (use ring_enq_pending ring_deq_pending in blast)+

section \<open>Invariant of the runtime\<close>

definition vm_inv :: "vm_context \<Rightarrow> bool" where
  "vm_inv c =
     (ring_inv c \<and>
      (vm_state_of c = VM_OFFLINE \<longrightarrow> queue_count c = 0) \<and>
      (vm_state_of c \<noteq> VM_OFFLINE \<longrightarrow>
         vm_runtime_config_is_valid (vm_config c) \<and>
         queue_capacity c = queue_depth (vm_memory (vm_config c))))"

lemma ring_enq_frame:
  "ring_enq c r = Some c' \<Longrightarrow> vm_config c' = vm_config c \<and> vm_state_of c' = vm_state_of c"
  by (auto simp: ring_enq_def Let_def split: if_splits)

lemma ring_deq_frame:
  "ring_deq c = Some (r, c') \<Longrightarrow> vm_config c' = vm_config c \<and> vm_state_of c' = vm_state_of c"
  by (auto simp: ring_deq_def split: if_splits)

lemma vm_context_init_inv: "vm_inv vm_context_init" "vm_pending vm_context_init = []"
  by (simp_all add: vm_inv_def ring_inv_def vm_context_init_def vm_pending_def)

lemma config_valid_depth:
  "vm_runtime_config_is_valid cfg \<Longrightarrow> 0 < queue_depth (vm_memory cfg) \<and> queue_depth (vm_memory cfg) \<le> 8"
  by (auto simp: vm_runtime_config_is_valid_def Let_def VM_QUEUE_CAPACITY_MAX_def split: if_splits)

text \<open>Each handler as the change it makes to the pending requests.\<close>

definition stamped :: "cstr \<Rightarrow> vm_request option \<Rightarrow> vm_request" where
  "stamped task r = (the r)\<lparr> origin_task_name := take 31 (the task) \<rparr>"

lemma schedule_cases:
  assumes "vm_schedule_request c t r = (st, c')"
  shows "(st = VM_OK \<and> vm_state_of c = VM_RUNNING \<and> t \<noteq> None \<and>
            (\<exists>q. r = Some q \<and> vm_request_is_valid q) \<and> ring_enq c (stamped t r) = Some c') \<or>
         (st \<noteq> VM_OK \<and> c' = c)"
  using assms
  by (auto simp: vm_schedule_request_def stamped_def VM_TASK_NAME_MAX_def
      split: option.splits if_splits)

lemma dequeue_cases:
  assumes "vm_owner_dequeue_request c t r = (st, out, c')"
  shows "(st = VM_OK \<and> vm_state_of c = VM_RUNNING \<and>
            vm_task_can_touch_python_objects (Some c) t \<and>
            (\<exists>a. out = Some a \<and> ring_deq c = Some (a, c'))) \<or>
         (st \<noteq> VM_OK \<and> c' = c \<and> out = r)"
  using assms by (auto simp: vm_owner_dequeue_request_def split: option.splits if_splits)

lemma vm_call_inv: "vm_inv c \<Longrightarrow> vm_inv (snd (vm_call c op))"
proof (cases op)
  case (Op_Prepare cfg)
  assume "vm_inv c"
  then show ?thesis
    by (auto simp: Op_Prepare vm_runtime_prepare_def vm_inv_def ring_inv_def vm_context_init_def
        config_valid_depth split: option.split)
next
  case (Op_Start b)
  assume "vm_inv c"
  then show ?thesis
    by (auto simp: Op_Start vm_runtime_start_def vm_inv_def ring_inv_def)
next
  case (Op_Schedule t r)
  assume inv: "vm_inv c"
  obtain st c' where s: "vm_schedule_request c t r = (st, c')" by fastforce
  have "ring_enq c q = Some c' \<Longrightarrow> vm_state_of c = VM_RUNNING \<Longrightarrow> vm_inv c'" for q
    using inv ring_enq_pending[of c q c'] ring_enq_frame[of c q c'] by (simp add: vm_inv_def)
  with schedule_cases[OF s] inv show ?thesis by (auto simp: Op_Schedule s)
next
  case (Op_Dequeue t r)
  assume inv: "vm_inv c"
  obtain st out c' where s: "vm_owner_dequeue_request c t r = (st, out, c')"
    by (cases "vm_owner_dequeue_request c t r")
  have "ring_deq c = Some (q, c') \<Longrightarrow> vm_state_of c = VM_RUNNING \<Longrightarrow> vm_inv c'" for q
    using inv ring_deq_pending[of c q c'] ring_deq_frame[of c q c'] by (simp add: vm_inv_def)
  with dequeue_cases[OF s] inv show ?thesis by (auto simp: Op_Dequeue s)
qed (simp add: vm_context_init_inv)

interpretation vm: kept_invariant vm_call vm_inv
  by unfold_locales (rule vm_call_inv)

text \<open>The requests accepted and the requests delivered since the runtime was last
  initialised or prepared, and the context.\<close>

definition vm_log_step ::
  "vm_request list \<times> vm_request list \<times> vm_context \<Rightarrow> vm_op \<Rightarrow>
   vm_request list \<times> vm_request list \<times> vm_context" where
  "vm_log_step l op =
     (case l of (acc, del, c) \<Rightarrow>
        let ((st, out), c') = vm_call c op
        in case op of
             Op_Init \<Rightarrow> ([], [], c')
           | Op_Prepare _ \<Rightarrow> if st = VM_OK then ([], [], c') else (acc, del, c')
           | Op_Start _ \<Rightarrow> (acc, del, c')
           | Op_Schedule t r \<Rightarrow> if st = VM_OK then (acc @ [stamped t r], del, c') else (acc, del, c')
           | Op_Dequeue _ _ \<Rightarrow> (acc, (case out of None \<Rightarrow> del | Some r \<Rightarrow> del @ [r]), c'))"

definition vm_log :: "vm_op list \<Rightarrow> vm_request list \<times> vm_request list \<times> vm_context" where
  "vm_log ops = foldl vm_log_step ([], [], vm_context_init) ops"

definition log_ok :: "vm_request list \<times> vm_request list \<times> vm_context \<Rightarrow> bool" where
  "log_ok l = (case l of (acc, del, c) \<Rightarrow> vm_inv c \<and> acc = del @ vm_pending c)"

lemma vm_log_step_ok: "log_ok l \<Longrightarrow> log_ok (vm_log_step l op)"
proof -
  assume ok: "log_ok l"
  obtain acc del c where l: "l = (acc, del, c)" by (cases l)
  have inv: "vm_inv c" and eq: "acc = del @ vm_pending c" using ok by (simp_all add: l log_ok_def)
  have ring: "ring_inv c" using inv by (simp add: vm_inv_def)
  have inv': "vm_inv (snd (vm_call c op))" using inv by (rule vm_call_inv)
  show ?thesis
  proof (cases op)
    case Op_Init
    then show ?thesis by (simp add: l vm_log_step_def log_ok_def vm_context_init_inv)
  next
    case (Op_Prepare cfg)
    then show ?thesis using inv' eq
      by (auto simp: l vm_log_step_def log_ok_def vm_runtime_prepare_def vm_pending_def
          vm_context_init_def split: option.splits)
  next
    case (Op_Start b)
    then show ?thesis using inv' eq
      by (auto simp: l vm_log_step_def log_ok_def vm_runtime_start_def vm_pending_def)
  next
    case (Op_Schedule t r)
    obtain st c' where s: "vm_schedule_request c t r = (st, c')" by fastforce
    from schedule_cases[OF s] show ?thesis
      using Op_Schedule inv' eq s ring.enq_some[OF ring, of "stamped t r" c']
      by (auto simp: l vm_log_step_def log_ok_def)
  next
    case (Op_Dequeue t r)
    obtain st out c' where s: "vm_owner_dequeue_request c t r = (st, out, c')"
      by (cases "vm_owner_dequeue_request c t r")
    from dequeue_cases[OF s] show ?thesis
      using Op_Dequeue inv' eq s ring.deq_some[OF ring, of _ c']
      by (auto simp: l vm_log_step_def log_ok_def)
  qed
qed

lemma vm_log_ok: "log_ok (vm_log ops)"
proof -
  have "log_ok l \<Longrightarrow> log_ok (foldl vm_log_step l ops)" for l
    by (induction ops arbitrary: l) (simp_all add: vm_log_step_ok)
  then show ?thesis
    by (simp add: vm_log_def log_ok_def vm_context_init_inv)
qed

section \<open>Properties\<close>

text \<open>C6: in any sequence of runtime operations the requests delivered to the owner
  are, in order and each once, the ones accepted by jpp_vm_schedule_request since
  the runtime was last prepared (stamped with the task that posted them); what
  is accepted and not yet delivered is exactly what the ring still holds, never
  more than its configured depth, which is at most eight.\<close>

theorem vm_queue_fifo:
  "case vm_log ops of (acc, del, c) \<Rightarrow>
     acc = del @ vm_pending c \<and> length (vm_pending c) \<le> queue_capacity c \<and> queue_capacity c \<le> 8"
  using vm_log_ok[of ops]
  by (auto simp: log_ok_def vm_inv_def ring_inv_def vm_pending_def split: prod.splits)

text \<open>on a reachable context a well-formed request to a valid app is accepted by a
  running runtime exactly while the ring has room, and only the configured owner
  task takes requests out, in a running runtime with a request pending.\<close>

theorem vm_queue_access:
  assumes "vm_inv c"
  shows "(fst (vm_schedule_request c t r) = VM_OK \<longleftrightarrow>
            str_nonempty t \<and> vm_state_of c = VM_RUNNING \<and>
            (\<exists>q. r = Some q \<and> vm_request_is_valid q) \<and>
            length (vm_pending c) < queue_capacity c) \<and>
         (fst (vm_owner_dequeue_request c t out) = VM_OK \<longleftrightarrow>
            out \<noteq> None \<and> vm_state_of c = VM_RUNNING \<and> str_nonempty t \<and>
            t = owner_task_name (vm_config c) \<and> vm_pending c \<noteq> [])"
proof -
  have ring: "ring_inv c" using assms by (simp add: vm_inv_def)
  have m: "vm_task_name_matches a t \<longleftrightarrow> str_nonempty t \<and> t = a" for a
    by (cases a; cases t; auto simp: vm_task_name_matches_def)
  show ?thesis
  proof (rule conjI)
    show "fst (vm_schedule_request c t r) = VM_OK \<longleftrightarrow>
            str_nonempty t \<and> vm_state_of c = VM_RUNNING \<and>
            (\<exists>q. r = Some q \<and> vm_request_is_valid q) \<and>
            length (vm_pending c) < queue_capacity c"
      using ring.enq_full[OF ring] ring.bounded[OF ring]
      by (auto simp: vm_schedule_request_def le_less split: option.split)
    show "fst (vm_owner_dequeue_request c t out) = VM_OK \<longleftrightarrow>
            out \<noteq> None \<and> vm_state_of c = VM_RUNNING \<and> str_nonempty t \<and>
            t = owner_task_name (vm_config c) \<and> vm_pending c \<noteq> []"
      using ring.deq_empty[OF ring] m[of "owner_task_name (vm_config c)"]
      by (auto simp: vm_owner_dequeue_request_def vm_task_can_touch_python_objects_def
          split: option.split)
  qed
qed

section \<open>Imports and paths\<close>

text \<open>An absolute path inside a root directory, in segments.\<close>

definition path_inside :: "string \<Rightarrow> string \<Rightarrow> bool" where
  "path_inside root p =
     (p \<noteq> [] \<and> hd p = CHR ''/'' \<and> ''..'' \<notin> set (split_on (CHR ''/'') p) \<and>
      prefix (split_on (CHR ''/'') root) (split_on (CHR ''/'') p))"

lemma vm_path_is_under_root_iff:
  "vm_path_is_under_root path root \<longleftrightarrow>
     (\<exists>p r. path = Some p \<and> root = Some r \<and> r \<noteq> [] \<and> path_inside r p)"
proof (cases path; cases root)
  fix p r assume pr: "path = Some p" "root = Some r"
  have "char_at p 0 = Some (CHR ''/'') \<longleftrightarrow> p \<noteq> [] \<and> hd p = CHR ''/''" by (cases p) auto
  then show ?thesis
    using pr prefix_segments_iff[of r p "CHR ''/''"] str_has_parent_segment_split[of path]
    by (auto simp: vm_path_is_under_root_def path_inside_def)
qed (simp_all add: vm_path_is_under_root_def)

text \<open>A dotted name inside a package.\<close>

definition in_package :: "string \<Rightarrow> string \<Rightarrow> bool" where
  "in_package pkg m = prefix (split_on (CHR ''.'') pkg) (split_on (CHR ''.'') m)"

lemma vm_allowed_module_matches_iff:
  "vm_allowed_module_matches a m \<longleftrightarrow>
     (\<exists>x y. a = Some x \<and> m = Some y \<and> x \<noteq> [] \<and> y \<noteq> [] \<and> in_package x y)"
proof (cases a; cases m)
  fix x y assume "a = Some x" "m = Some y"
  then show ?thesis
    using prefix_segments_iff[of x y "CHR ''.''"]
    by (auto simp: vm_allowed_module_matches_def in_package_def)
qed (simp_all add: vm_allowed_module_matches_def)

lemma vm_module_is_blocked_iff:
  "vm_module_is_blocked (Some m) \<longleftrightarrow>
     m = [] \<or> hd (split_on (CHR ''.'') m) \<in> set blocked_modules"
proof -
  have "in_package b m \<longleftrightarrow> hd (split_on (CHR ''.'') m) = b" if "b \<in> set blocked_modules" for b
  proof -
    have "CHR ''.'' \<notin> set b" using that by (auto simp: blocked_modules_def)
    then have "split_on (CHR ''.'') b = [b]" by (rule split_on_single)
    then show ?thesis
      by (cases "split_on (CHR ''.'') m") (auto simp: in_package_def)
  qed
  moreover have "[] \<notin> set blocked_modules" by (simp add: blocked_modules_def)
  ultimately show ?thesis
    by (auto simp: vm_module_is_blocked_def list_ex_iff vm_allowed_module_matches_iff)
qed

text \<open>A module the configured surface names, itself or inside a named package.\<close>

definition surface_names :: "vm_import_surface \<Rightarrow> string \<Rightarrow> bool" where
  "surface_names s m =
     (\<exists>ms. allowed_modules s = Some ms \<and>
        (\<exists>i\<in>{..<allowed_module_count s}. \<exists>a. ms ! i = Some a \<and> a \<noteq> [] \<and> in_package a m))"

lemma vm_module_is_allowed_iff:
  "str_name_valid (Some m) \<Longrightarrow> \<not> vm_module_is_blocked (Some m) \<Longrightarrow>
     vm_module_is_allowed s (Some m) \<longleftrightarrow> surface_names s m"
proof -
  assume a: "str_name_valid (Some m)" "\<not> vm_module_is_blocked (Some m)"
  then have "m \<noteq> []" by (auto simp: vm_module_is_blocked_iff)
  with a show ?thesis
    by (auto simp: vm_module_is_allowed_def surface_names_def list_ex_iff
        vm_allowed_module_matches_iff split: option.split)
qed

lemma running_roots:
  assumes "vm_inv c" "vm_state_of c = VM_RUNNING"
  shows "runtime_root (import_surface (vm_config c)) = Some ''/lib''"
    and "sd_lib_root (import_surface (vm_config c)) = Some ''/sd/lib''"
    and "app_root (import_surface (vm_config c)) \<noteq> Some []"
proof -
  have v: "vm_import_surface_is_valid (import_surface (vm_config c))"
    using assms by (auto simp: vm_inv_def vm_runtime_config_is_valid_def Let_def split: if_splits)
  have m: "vm_task_name_matches a (Some b) \<Longrightarrow> a = Some b" for a b
    by (cases a) (simp_all add: vm_task_name_matches_def)
  show "runtime_root (import_surface (vm_config c)) = Some ''/lib''"
    "sd_lib_root (import_surface (vm_config c)) = Some ''/sd/lib''"
    using v m by (auto simp: vm_import_surface_is_valid_def split: if_splits)
  show "app_root (import_surface (vm_config c)) \<noteq> Some []"
    using v by (auto simp: vm_import_surface_is_valid_def vm_app_root_is_valid_def)
qed

text \<open>C5: a running runtime allows an import exactly when the module name is well formed,
  its first segment is none of the blocked modules, and: for core and SDK
  modules the surface names the module; for the runtime path it also lies inside
  /lib or /sd/lib; for the app path it lies inside the app's own root; inside
  meaning segment by segment, without any parent segment.\<close>

theorem vm_check_import_ok_iff:
  assumes "vm_inv c"
  shows "vm_check_import (Some c) (Some m) src path = VM_OK \<longleftrightarrow>
     vm_state_of c = VM_RUNNING \<and> str_name_valid (Some m) \<and>
     hd (split_on (CHR ''.'') m) \<notin> set blocked_modules \<and>
     (case src of
        SRC_CORE \<Rightarrow> surface_names (import_surface (vm_config c)) m
      | SRC_SDK \<Rightarrow> surface_names (import_surface (vm_config c)) m
      | SRC_RUNTIME_PATH \<Rightarrow> surface_names (import_surface (vm_config c)) m \<and>
          (\<exists>p. path = Some p \<and> (path_inside ''/lib'' p \<or> path_inside ''/sd/lib'' p))
      | SRC_APP_PATH \<Rightarrow>
          (\<exists>p r. path = Some p \<and> app_root (import_surface (vm_config c)) = Some r \<and> path_inside r p)
      | SRC_OTHER _ \<Rightarrow> False)"
proof (cases "vm_state_of c = VM_RUNNING \<and> str_name_valid (Some m) \<and> \<not> vm_module_is_blocked (Some m)")
  case True
  then have st: "vm_state_of c = VM_RUNNING" "str_name_valid (Some m)" "\<not> vm_module_is_blocked (Some m)"
    "m \<noteq> []" "hd (split_on (CHR ''.'') m) \<notin> set blocked_modules"
    by (auto simp: vm_module_is_blocked_iff)
  show ?thesis
    using running_roots[OF assms st(1)] st(4,5)
    by (cases src) (auto simp: vm_check_import_def st(1,2,3) vm_module_is_allowed_iff
        vm_path_is_under_root_iff Let_def)
next
  case False
  then show ?thesis
    using str_name_valid_nonempty[of m]
    by (cases "m = []") (auto simp: vm_check_import_def vm_module_is_blocked_iff)
qed

section \<open>Start after boot\<close>

text \<open>the runtime comes to run only after a full boot: on the context of any boot
  sequence, jpp_vm_runtime_start succeeds exactly for a prepared runtime once
  the boot has noted all eight events in order.\<close>

theorem vm_start_after_boot:
  "\<exists>b. run_ops boot_step (Some boot_context_init) ops = Some b \<and>
     (fst (vm_runtime_start c (Some b)) = VM_OK \<longleftrightarrow>
        vm_state_of c = VM_WAITING_FOR_BOOT \<and> b_events b = BOOT_EVENT_ORDER)"
proof -
  obtain b where b: "run_ops boot_step (Some boot_context_init) ops = Some b" "boot_inv b"
    using boot_run_defined by blast
  have "vm_boot_ready (Some b) \<longleftrightarrow> length (b_events b) = 8"
    using b(2) by (auto simp: vm_boot_ready_def boot_inv_def)
  moreover have "length (b_events b) = 8 \<longleftrightarrow> b_events b = BOOT_EVENT_ORDER"
    using boot_invD(3)[OF b(2)] order_distinct(2) by (metis take_all order_refl)
  ultimately show ?thesis using b(1) by (auto simp: vm_runtime_start_def)
qed

section \<open>A runtime to try the properties on\<close>

definition example_surface :: vm_import_surface where
  "example_surface =
     \<lparr> app_root = Some ''/sd/apps/notes'', runtime_root = Some ''/lib'',
       sd_lib_root = Some ''/sd/lib'', allowed_modules = Some [Some ''jpp''],
       allowed_module_count = 1 \<rparr>"

definition example_config :: vm_runtime_config where
  "example_config =
     \<lparr> owner_task_name = Some ''app'',
       vm_memory = \<lparr> heap_bytes = 131072, stack_words = 8192, queue_depth = 2 \<rparr>,
       import_surface = example_surface \<rparr>"

definition example_vm :: vm_context where
  "example_vm = vm_context_init\<lparr> vm_config := example_config, queue_capacity := 2,
     vm_state_of := VM_RUNNING \<rparr>"

lemma example_vm_inv: "vm_inv example_vm"
proof -
  have "vm_import_surface_is_valid example_surface" by code_simp
  then have "vm_runtime_config_is_valid example_config"
    by (simp add: vm_runtime_config_is_valid_def example_config_def Let_def VM_HEAP_LIMIT_BYTES_def
        VM_STACK_LIMIT_WORDS_def VM_QUEUE_CAPACITY_MAX_def)
  moreover have "queue_depth (vm_memory example_config) = 2" by (simp add: example_config_def)
  ultimately show ?thesis
    by (simp add: vm_inv_def ring_inv_def example_vm_def vm_context_init_def)
qed

definition example_request :: vm_request where
  "example_request = empty_request\<lparr> rq_kind := RQ_STARTUP, rq_app_id := ''notes'' \<rparr>"

theorem vm_queue_access_witness:
  "fst (vm_schedule_request example_vm (Some ''main'') (Some example_request)) = VM_OK \<and>
   fst (vm_owner_dequeue_request example_vm (Some ''app'') (Some empty_request)) \<noteq> VM_OK"
proof -
  have v: "vm_request_is_valid example_request" by code_simp
  have c: "vm_state_of example_vm = VM_RUNNING" "owner_task_name (vm_config example_vm) = Some ''app''"
    "vm_pending example_vm = []" "queue_capacity example_vm = 2"
    by (simp_all add: example_vm_def vm_context_init_def example_config_def vm_pending_def)
  show ?thesis
    using vm_queue_access[OF example_vm_inv, of "Some ''main''" "Some example_request" None]
      vm_queue_access[OF example_vm_inv, of "Some ''app''" None "Some empty_request"] v
    by (simp add: c)
qed

theorem vm_check_import_ok_iff_witness:
  "vm_check_import (Some example_vm) (Some ''util'') SRC_APP_PATH (Some ''/sd/apps/notes/util.mpy'') = VM_OK \<and>
   vm_check_import (Some example_vm) (Some ''os.path'') SRC_APP_PATH (Some ''/sd/apps/notes/util.mpy'') \<noteq> VM_OK"
proof -
  have n: "str_name_valid (Some ''util'')" by code_simp
  have r: "vm_state_of example_vm = VM_RUNNING"
    "app_root (import_surface (vm_config example_vm)) = Some ''/sd/apps/notes''"
    by (simp_all add: example_vm_def example_config_def example_surface_def)
  have p: "path_inside ''/sd/apps/notes'' ''/sd/apps/notes/util.mpy''"
    by code_simp
  show ?thesis
    using vm_check_import_ok_iff[OF example_vm_inv, of "''util''" SRC_APP_PATH "Some ''/sd/apps/notes/util.mpy''"]
      vm_check_import_ok_iff[OF example_vm_inv, of "''os.path''" SRC_APP_PATH "Some ''/sd/apps/notes/util.mpy''"]
      n r p
    by (simp add: blocked_modules_def)
qed

end
