(* ===== verification/Broker.thy ===== *)
theory Broker
  imports Strings
begin

text \<open>
  src/jpp_broker_core.c: results with a bounded list of fields, capability
  lookup, and the lock set that runs an operation while its resource is marked
  locked. The exclusive operation is a callback that may itself come back to the
  broker with the same lock set, so it is a function of the lock set, the result
  and the state of the world it acts on. An array with its count is one list.
\<close>

datatype broker_status = BROKER_OK | BROKER_INVALID_ARGUMENT | BROKER_FIELD_OVERFLOW

record broker_result =
  br_ok :: bool
  br_code :: cstr
  br_fields :: "(string \<times> string) list"

record broker_caller =
  bc_capabilities :: "cstr list"

record lock_entry =
  le_resource :: string
  le_locked :: bool

type_synonym lock_set = "lock_entry list"

type_synonym 'w exclusive_operation =
  "lock_set \<Rightarrow> broker_result \<Rightarrow> 'w \<Rightarrow> broker_status \<times> broker_result \<times> lock_set \<times> 'w"

definition BROKER_RESULT_FIELD_CAPACITY :: nat where "BROKER_RESULT_FIELD_CAPACITY = 8"
definition BROKER_LOCK_CAPACITY :: nat where "BROKER_LOCK_CAPACITY = 8"

definition broker_ok_result :: "broker_result option \<Rightarrow> broker_status \<times> broker_result option" where
  "broker_ok_result result =
     (case result of
        None \<Rightarrow> (BROKER_INVALID_ARGUMENT, None)
      | Some _ \<Rightarrow> (BROKER_OK, Some \<lparr> br_ok = True, br_code = Some ''OK'', br_fields = [] \<rparr>))"

definition broker_error_result ::
  "broker_result option \<Rightarrow> cstr \<Rightarrow> broker_status \<times> broker_result option" where
  "broker_error_result result code =
     (case (result, code) of
        (Some _, Some c) \<Rightarrow> (BROKER_OK, Some \<lparr> br_ok = False, br_code = Some c, br_fields = [] \<rparr>)
      | _ \<Rightarrow> (BROKER_INVALID_ARGUMENT, result))"

definition broker_result_put ::
  "broker_result option \<Rightarrow> cstr \<Rightarrow> cstr \<Rightarrow> broker_status \<times> broker_result option" where
  "broker_result_put result key val =
     (case (result, key, val) of
        (Some r, Some k, Some v) \<Rightarrow>
          if length (br_fields r) \<ge> BROKER_RESULT_FIELD_CAPACITY then (BROKER_FIELD_OVERFLOW, result)
          else (BROKER_OK, Some (r\<lparr> br_fields := br_fields r @ [(k, v)] \<rparr>))
      | _ \<Rightarrow> (BROKER_INVALID_ARGUMENT, result))"

fun result_get_from :: "(string \<times> string) list \<Rightarrow> string \<Rightarrow> cstr" where
  "result_get_from [] key = None"
| "result_get_from ((k, v) # fs) key =
     (if str_eq (Some k) (Some key) then Some v else result_get_from fs key)"

definition broker_result_get :: "broker_result option \<Rightarrow> cstr \<Rightarrow> cstr" where
  "broker_result_get result key =
     (case (result, key) of (Some r, Some k) \<Rightarrow> result_get_from (br_fields r) k | _ \<Rightarrow> None)"

definition broker_caller_has_capability :: "broker_caller option \<Rightarrow> cstr \<Rightarrow> bool" where
  "broker_caller_has_capability caller capability =
     (case (caller, capability) of
        (Some c, Some _) \<Rightarrow> list_ex (\<lambda>x. str_eq x capability) (bc_capabilities c)
      | _ \<Rightarrow> False)"

text \<open>The index of the entry of a resource, from index i on.\<close>

fun find_lock_from :: "nat \<Rightarrow> lock_set \<Rightarrow> string \<Rightarrow> nat option" where
  "find_lock_from i [] resource = None"
| "find_lock_from i (e # es) resource =
     (if str_eq (Some (le_resource e)) (Some resource) then Some i
      else find_lock_from (i + 1) es resource)"

definition broker_find_lock :: "lock_set \<Rightarrow> string \<Rightarrow> nat option" where
  "broker_find_lock ls resource = find_lock_from 0 ls resource"

definition broker_lock_set_init :: "lock_set option \<Rightarrow> broker_status \<times> lock_set option" where
  "broker_lock_set_init ls =
     (case ls of None \<Rightarrow> (BROKER_INVALID_ARGUMENT, None) | Some _ \<Rightarrow> (BROKER_OK, Some []))"

definition set_locked :: "lock_set \<Rightarrow> nat \<Rightarrow> bool \<Rightarrow> lock_set" where
  "set_locked ls i b = ls[i := (ls ! i)\<lparr> le_locked := b \<rparr>]"

text \<open>The error answer of jpp_broker_run_exclusive: an error result naming the
  resource.\<close>

definition error_with_resource ::
  "broker_result \<Rightarrow> string \<Rightarrow> string \<Rightarrow> broker_status \<times> broker_result option" where
  "error_with_resource result code resource =
     (let (status, result') = broker_error_result (Some result) (Some code)
      in if status \<noteq> BROKER_OK then (status, result')
         else broker_result_put result' (Some ''resource'') (Some resource))"

definition broker_run_exclusive ::
  "lock_set option \<Rightarrow> cstr \<Rightarrow> 'w exclusive_operation option \<Rightarrow> broker_result option \<Rightarrow> 'w \<Rightarrow>
   broker_status \<times> broker_result option \<times> lock_set option \<times> 'w" where
  "broker_run_exclusive lock_set resource operation result w =
     (case (lock_set, resource, result) of
        (Some ls, Some res, Some r) \<Rightarrow>
          let entry = broker_find_lock ls res
          in if (case entry of Some i \<Rightarrow> le_locked (ls ! i) | None \<Rightarrow> False) then
               (let (status, r') = error_with_resource r ''BUSY'' res in (status, r', Some ls, w))
             else
               (case operation of
                  None \<Rightarrow>
                    (let (status, r') = error_with_resource r ''INVALID_OPERATION'' res
                     in (status, r', Some ls, w))
                | Some op \<Rightarrow>
                    if entry = None \<and> length ls \<ge> BROKER_LOCK_CAPACITY
                    then (BROKER_FIELD_OVERFLOW, result, lock_set, w)
                    else
                      let i = (case entry of Some i \<Rightarrow> i | None \<Rightarrow> length ls);
                          ls = (case entry of Some _ \<Rightarrow> ls
                                | None \<Rightarrow> ls @ [\<lparr> le_resource = res, le_locked = False \<rparr>]);
                          ls = set_locked ls i True;
                          (status, r', ls, w) = op ls r w;
                          ls = set_locked ls i False
                      in (status, Some r', Some ls, w))
      | _ \<Rightarrow> (BROKER_INVALID_ARGUMENT, result, lock_set, w))"

definition broker_status_name :: "broker_status \<Rightarrow> string" where
  "broker_status_name s =
     (case s of BROKER_OK \<Rightarrow> ''OK'' | BROKER_INVALID_ARGUMENT \<Rightarrow> ''INVALID_ARGUMENT''
      | BROKER_FIELD_OVERFLOW \<Rightarrow> ''FIELD_OVERFLOW'')"

section \<open>Lemmas\<close>

lemma find_lock_from_some:
  "find_lock_from k ls res = Some i \<Longrightarrow>
     k \<le> i \<and> i < k + length ls \<and> le_resource (ls ! (i - k)) = res"
proof (induction ls arbitrary: k)
  case (Cons e es)
  then show ?case
    by (cases "le_resource e = res") (auto simp: nth_Cons' dest!: Cons.IH)
qed simp

lemma find_lock_some:
  "broker_find_lock ls res = Some i \<Longrightarrow> i < length ls \<and> le_resource (ls ! i) = res"
  using find_lock_from_some[of 0 ls res i] by (simp add: broker_find_lock_def)

lemma find_lock_from_none:
  "find_lock_from k ls res = None \<longleftrightarrow> res \<notin> le_resource ` set ls"
  by (induction k ls res rule: find_lock_from.induct) auto

lemma find_lock_none: "broker_find_lock ls res = None \<longleftrightarrow> res \<notin> le_resource ` set ls"
  by (simp add: broker_find_lock_def find_lock_from_none)

text \<open>A lock set with one entry per resource and room for eight.\<close>

definition lock_inv :: "lock_set \<Rightarrow> bool" where
  "lock_inv ls = (distinct (map le_resource ls) \<and> length ls \<le> 8)"

lemma find_lock_index:
  assumes "lock_inv ls" "i < length ls" "le_resource (ls ! i) = res"
  shows "broker_find_lock ls res = Some i"
proof (cases "broker_find_lock ls res")
  case None
  with assms show ?thesis by (auto simp: find_lock_none)
next
  case (Some j)
  with assms find_lock_some[OF Some] have "j = i"
    by (auto simp: lock_inv_def distinct_conv_nth)
  with Some show ?thesis by simp
qed

text \<open>What the broker asks of an operation: it keeps the invariant and leaves the
  entries it was given as they were, adding only unlocked entries.\<close>

definition frame_ok :: "lock_set \<Rightarrow> lock_set \<Rightarrow> bool" where
  "frame_ok ls ls' =
     (lock_inv ls' \<and> take (length ls) ls' = ls \<and> list_all (\<lambda>e. \<not> le_locked e) (drop (length ls) ls'))"

definition well_behaved :: "'w exclusive_operation \<Rightarrow> bool" where
  "well_behaved op = (\<forall>ls\<in>{ls. lock_inv ls}. \<forall>r w. frame_ok ls (fst (snd (snd (op ls r w)))))"

lemma well_behavedD: "well_behaved op \<Longrightarrow> lock_inv ls \<Longrightarrow> frame_ok ls (fst (snd (snd (op ls r w))))"
  by (simp add: well_behaved_def)

lemma frame_ok_refl: "lock_inv ls \<Longrightarrow> frame_ok ls ls"
  by (simp add: frame_ok_def)

lemma set_locked_resources [simp]: "map le_resource (set_locked ls i b) = map le_resource ls"
  by (cases "i < length ls") (auto simp: set_locked_def map_update intro: nth_equalityI simp: nth_list_update)

lemma set_locked_length [simp]: "length (set_locked ls i b) = length ls"
  by (simp add: set_locked_def)

lemma set_locked_inv [simp]: "lock_inv (set_locked ls i b) = lock_inv ls"
  by (simp add: lock_inv_def)

lemma set_locked_undo:
  assumes "i < length ls" "\<not> le_locked (ls ! i)" "take (length ls) ls' = set_locked ls i True"
  shows "take (length ls) (set_locked ls' i False) = ls"
proof -
  have "take (length ls) (set_locked ls' i False) = set_locked (take (length ls) ls') i False"
    using assms(1) by (simp add: set_locked_def take_update_swap)
  also have "\<dots> = ls[i := (ls ! i)\<lparr> le_locked := False \<rparr>]"
    using assms(1) by (simp add: assms(3)) (simp add: set_locked_def)
  also have "(ls ! i)\<lparr> le_locked := False \<rparr> = ls ! i" using assms(2) by simp
  finally show ?thesis by simp
qed

text \<open>The operation's own frame, seen from the lock set the caller had.\<close>

lemma locked_run_frame:
  assumes i: "i < length ls" "\<not> le_locked (ls ! i)" and f: "frame_ok (set_locked ls i True) ls'"
  shows "frame_ok ls (set_locked ls' i False)"
proof -
  have "take (length ls) (set_locked ls' i False) = ls"
    using set_locked_undo[OF i] f by (simp add: frame_ok_def)
  moreover have "drop (length ls) (set_locked ls' i False) = drop (length ls) ls'"
    using i(1) by (simp add: set_locked_def drop_update_cancel)
  ultimately show ?thesis using f by (simp add: frame_ok_def)
qed

lemma new_entry_frame:
  assumes "frame_ok (ls @ [\<lparr> le_resource = res, le_locked = False \<rparr>]) ls'"
  shows "frame_ok ls ls'"
proof -
  have t: "take (Suc (length ls)) ls' = ls @ [\<lparr> le_resource = res, le_locked = False \<rparr>]"
    using assms by (simp add: frame_ok_def)
  have l: "length ls < length ls'" using arg_cong[OF t, of length] by simp
  have "take (length ls) ls' = ls"
    using arg_cong[OF t, of "take (length ls)"] by (simp add: min_def)
  moreover have "drop (length ls) ls' =
      \<lparr> le_resource = res, le_locked = False \<rparr> # drop (Suc (length ls)) ls'"
    using Cons_nth_drop_Suc[OF l] arg_cong[OF t, of "\<lambda>x. x ! length ls"] by simp
  ultimately show ?thesis using assms by (simp add: frame_ok_def)
qed

lemma run_exclusive_frame:
  assumes wb: "well_behaved op" and inv: "lock_inv ls"
  shows "\<exists>st r' ls' w'. broker_run_exclusive (Some ls) (Some res) (Some op) (Some r) w = (st, Some r', Some ls', w')
           \<and> frame_ok ls ls'"
proof (cases "broker_find_lock ls res")
  case (Some i)
  note i = find_lock_some[OF Some]
  show ?thesis
  proof (cases "le_locked (ls ! i)")
    case True
    then show ?thesis
      using Some inv by (simp add: broker_run_exclusive_def error_with_resource_def broker_error_result_def
          broker_result_put_def BROKER_RESULT_FIELD_CAPACITY_def frame_ok_refl)
  next
    case False
    obtain st r' ls' w' where o: "op (set_locked ls i True) r w = (st, r', ls', w')"
      by (cases "op (set_locked ls i True) r w")
    have "frame_ok (set_locked ls i True) ls'"
      using well_behavedD[OF wb, of "set_locked ls i True" r w] inv o by simp
    then have "frame_ok ls (set_locked ls' i False)" using locked_run_frame i False by blast
    with Some False o show ?thesis by (simp add: broker_run_exclusive_def)
  qed
next
  case None
  show ?thesis
  proof (cases "length ls \<ge> 8")
    case True
    with None inv show ?thesis
      by (simp add: broker_run_exclusive_def BROKER_LOCK_CAPACITY_def frame_ok_refl)
  next
    case False
    let ?l0 = "ls @ [\<lparr> le_resource = res, le_locked = False \<rparr>]"
    let ?l1 = "set_locked ?l0 (length ls) True"
    obtain st r' ls' w' where o: "op ?l1 r w = (st, r', ls', w')" by (cases "op ?l1 r w")
    have "lock_inv ?l0" using inv None False by (simp add: lock_inv_def find_lock_none)
    then have "frame_ok ?l1 ls'"
      using well_behavedD[OF wb, of ?l1 r w] o by simp
    then have "frame_ok ?l0 (set_locked ls' (length ls) False)"
      by (intro locked_run_frame) simp_all
    then have "frame_ok ls (set_locked ls' (length ls) False)" by (rule new_entry_frame)
    with None False o show ?thesis
      by (simp add: broker_run_exclusive_def BROKER_LOCK_CAPACITY_def)
  qed
qed

text \<open>The exclusive run of an operation, as an operation again: what a nested call
  of the broker from inside an operation is.\<close>

definition nested :: "string \<Rightarrow> 'w exclusive_operation \<Rightarrow> 'w exclusive_operation" where
  "nested res op = (\<lambda>ls r w.
     case broker_run_exclusive (Some ls) (Some res) (Some op) (Some r) w of
       (st, Some r', Some ls', w') \<Rightarrow> (st, r', ls', w') | (st, _, _, w') \<Rightarrow> (st, r, ls, w'))"

section \<open>Properties\<close>

text \<open>C7: an operation that leaves the lock set in order can be run exclusively, and
  its exclusive run leaves the lock set in order again: after it every entry
  the caller had is as it was (its own resource included: released), entries it
  added are released, no resource has two entries and there are at most eight.
  So operations may nest exclusive runs to any depth.\<close>

theorem run_exclusive_well_behaved:
  assumes "well_behaved op"
  shows "well_behaved (nested res op)"
  unfolding well_behaved_def
proof (intro ballI allI)
  fix ls r w assume "ls \<in> {ls. lock_inv ls}"
  then obtain st r' ls' w' where
    "broker_run_exclusive (Some ls) (Some res) (Some op) (Some r) w = (st, Some r', Some ls', w')" "frame_ok ls ls'"
    using run_exclusive_frame[OF assms] by blast
  then show "frame_ok ls (fst (snd (snd (nested res op ls r w))))" by (simp add: nested_def)
qed

definition put_operation :: "string \<Rightarrow> string \<Rightarrow> unit exclusive_operation" where
  "put_operation k v = (\<lambda>ls r w.
     case broker_result_put (Some r) (Some k) (Some v) of
       (st, Some r') \<Rightarrow> (st, r', ls, w) | (st, None) \<Rightarrow> (st, r, ls, w))"

lemma put_operation_well_behaved: "well_behaved (put_operation k v)"
  by (auto simp: well_behaved_def put_operation_def broker_result_put_def frame_ok_refl)

theorem run_exclusive_well_behaved_witness:
  "well_behaved (nested ''storage'' (nested ''network'' (put_operation ''k'' ''v'')))"
  by (rule run_exclusive_well_behaved[OF run_exclusive_well_behaved[OF put_operation_well_behaved]])

text \<open>Mutual exclusion: while an operation runs, the lock set it is given has its
  resource locked, and any exclusive call on a locked resource answers BUSY with
  the resource's name, without running its operation or touching the locks.\<close>

theorem run_exclusive_busy:
  assumes "lock_inv ls" "i < length ls"
  shows "broker_run_exclusive (Some (set_locked ls i True)) (Some (le_resource (ls ! i))) op (Some r) w =
     (BROKER_OK,
      Some \<lparr> br_ok = False, br_code = Some ''BUSY'',
             br_fields = [(''resource'', le_resource (ls ! i))] \<rparr>,
      Some (set_locked ls i True), w)"
proof -
  have "le_resource (set_locked ls i True ! i) = le_resource (ls ! i)"
    "le_locked (set_locked ls i True ! i)"
    using assms(2) by (simp_all add: set_locked_def)
  moreover from this have "broker_find_lock (set_locked ls i True) (le_resource (ls ! i)) = Some i"
    using assms by (intro find_lock_index) simp_all
  ultimately show ?thesis
    by (simp add: broker_run_exclusive_def error_with_resource_def broker_error_result_def
        broker_result_put_def BROKER_RESULT_FIELD_CAPACITY_def)
qed

theorem run_exclusive_busy_witness:
  "broker_run_exclusive
     (Some (set_locked [\<lparr> le_resource = ''storage'', le_locked = False \<rparr>] 0 True))
     (Some ''storage'') (Some (put_operation ''k'' ''v''))
     (Some \<lparr> br_ok = True, br_code = None, br_fields = [] \<rparr>) () =
   (BROKER_OK,
    Some \<lparr> br_ok = False, br_code = Some ''BUSY'', br_fields = [(''resource'', ''storage'')] \<rparr>,
    Some (set_locked [\<lparr> le_resource = ''storage'', le_locked = False \<rparr>] 0 True), ())"
  using run_exclusive_busy[of "[\<lparr> le_resource = ''storage'', le_locked = False \<rparr>]" 0]
  by (simp add: lock_inv_def)

end
