(* ===== verification/FileBrowser.thy ===== *)
theory FileBrowser
  imports Strings "HOL-Library.List_Lexorder"
begin

text \<open>
  src/jpp_file_browser_core.c with the scrolling helpers of src/jpp_ui_core.c it
  draws its rows with. The directory listing (list_dir) is outside the
  repository's core: it is a parameter that threads a world of its own, and so
  is the display. The keys waited for are the input sequence of the run.
\<close>

section \<open>Scrolling helpers\<close>

definition ui_scroll_clamp :: "nat \<Rightarrow> nat \<Rightarrow> nat \<Rightarrow> nat \<Rightarrow> nat" where
  "ui_scroll_clamp cursor n_rows visible scroll =
     (let scroll = (if cursor < scroll then cursor
                    else if cursor \<ge> scroll + visible then cursor - visible + 1 else scroll)
      in if n_rows \<le> visible then 0
         else if scroll + visible > n_rows then n_rows - visible else scroll)"

definition ui_marquee_offset :: "32 word \<Rightarrow> nat \<Rightarrow> nat \<Rightarrow> nat \<Rightarrow> nat" where
  "ui_marquee_offset tick text_len window pause_ticks =
     (if text_len \<le> window then 0
      else
        let max_off = text_len - window;
            cycle = 2 * pause_ticks + max_off;
            phase = unat (tick mod word_of_nat cycle)
        in if phase < pause_ticks then 0
           else if phase < pause_ticks + max_off then phase - pause_ticks
           else max_off)"

definition ui_consent_selector_row :: "bool \<Rightarrow> string" where
  "ui_consent_selector_row allow =
     (if allow then '' Deny       >Allow'' else ''>Deny        Allow'')"

section \<open>The browser state\<close>

definition FB_ENTRY_MAX :: nat where "FB_ENTRY_MAX = 32"
definition FB_NAME_MAX :: nat where "FB_NAME_MAX = 65"
definition FB_PATH_MAX :: nat where "FB_PATH_MAX = 256"
definition FB_VISIBLE :: nat where "FB_VISIBLE = 6"
definition FB_ITEM_CHARS :: nat where "FB_ITEM_CHARS = 20"
definition FB_ROW_MAX :: nat where "FB_ROW_MAX = 22"
definition FB_PAUSE_TICKS :: nat where "FB_PAUSE_TICKS = 3"

datatype fb_key = FB_KEY_NONE | FB_KEY_UP | FB_KEY_DOWN | FB_KEY_OK | FB_KEY_BACK

text \<open>The arrays names and is_dir and the count are one list of entries.\<close>

type_synonym fb_entry = "string \<times> bool"

record fb_state =
  fb_root :: string
  fb_dir :: string
  fb_entries :: "fb_entry list"
  fb_has_parent :: bool
  fb_cursor :: nat
  fb_scroll :: nat
  fb_marquee :: "32 word"

type_synonym 'w list_dir = "'w \<Rightarrow> string \<Rightarrow> fb_entry list \<times> 'w"

definition fb_total :: "fb_state \<Rightarrow> nat" where
  "fb_total s = length (fb_entries s) + (if fb_has_parent s then 1 else 0)"

definition fb_name :: "fb_state \<Rightarrow> nat \<Rightarrow> string" where
  "fb_name s i =
     (if fb_has_parent s then (if i = 0 then ''..'' else fst (fb_entries s ! (i - 1)))
      else fst (fb_entries s ! i))"

definition fb_is_dir :: "fb_state \<Rightarrow> nat \<Rightarrow> bool" where
  "fb_is_dir s i =
     (if fb_has_parent s \<and> i = 0 then True
      else let ei = (if fb_has_parent s then i - 1 else i) in snd (fb_entries s ! ei))"

text \<open>strcmp of two names greater than zero.\<close>

fun strcmp_gt :: "string \<Rightarrow> string \<Rightarrow> bool" where
  "strcmp_gt [] ys = False"
| "strcmp_gt (x # xs) [] = True"
| "strcmp_gt (x # xs) (y # ys) = (if x = y then strcmp_gt xs ys else ord x > ord y)"

text \<open>The inner loop of the bubble sort: m comparisons, each of the entry at the
  window with the next one, which move along the list.\<close>

fun bubble_pass :: "nat \<Rightarrow> fb_entry list \<Rightarrow> fb_entry list" where
  "bubble_pass (Suc m) (a # b # xs) =
     (if strcmp_gt (fst a) (fst b) then b # bubble_pass m (a # xs)
      else a # bubble_pass m (b # xs))"
| "bubble_pass _ xs = xs"

definition bubble_sort :: "fb_entry list \<Rightarrow> fb_entry list" where
  "bubble_sort xs =
     (let n = length xs
      in foldl (\<lambda>xs i. bubble_pass (n - i - 1) xs) xs [0..<n - 1])"

definition fb_load :: "'w list_dir \<Rightarrow> fb_state \<Rightarrow> 'w \<Rightarrow> fb_state \<times> 'w" where
  "fb_load ld s w =
     (let (entries, w) = ld w (fb_dir s)
      in (s\<lparr> fb_entries := bubble_sort entries,
             fb_has_parent := \<not> str_eq (Some (fb_dir s)) (Some (fb_root s)),
             fb_cursor := 0, fb_scroll := 0, fb_marquee := 0 \<rparr>, w))"

text \<open>strrchr: the position of the last occurrence.\<close>

fun last_index :: "char \<Rightarrow> string \<Rightarrow> nat option" where
  "last_index c [] = None"
| "last_index c (x # xs) =
     (case last_index c xs of
        Some i \<Rightarrow> Some (Suc i)
      | None \<Rightarrow> if x = c then Some 0 else None)"

definition fb_go_up :: "'w list_dir \<Rightarrow> fb_state \<Rightarrow> 'w \<Rightarrow> fb_state \<times> 'w" where
  "fb_go_up ld s w =
     fb_load ld
       (case last_index (CHR ''/'') (fb_dir s) of
          None \<Rightarrow> s
        | Some i \<Rightarrow> if i \<noteq> 0 then s\<lparr> fb_dir := take i (fb_dir s) \<rparr> else s) w"

definition fb_enter :: "'w list_dir \<Rightarrow> fb_state \<Rightarrow> string \<Rightarrow> 'w \<Rightarrow> fb_state \<times> 'w" where
  "fb_enter ld s name w =
     (let subname = take (FB_NAME_MAX - 1) name;
          subname = (if subname \<noteq> [] \<and> last subname = CHR ''/'' then butlast subname else subname);
          newdir = take (FB_PATH_MAX * 2 - 1) (fb_dir s @ ''/'' @ subname)
      in fb_load ld (s\<lparr> fb_dir := take (FB_PATH_MAX - 1) newdir \<rparr>) w)"

text \<open>One pass of the loop up to the wait: the clamped scroll and the rows drawn.\<close>

definition fb_row :: "fb_state \<Rightarrow> nat \<Rightarrow> string" where
  "fb_row s idx =
     (let name = fb_name s idx;
          off = ui_marquee_offset (fb_marquee s) (length name) FB_ITEM_CHARS FB_PAUSE_TICKS
      in take (FB_ROW_MAX - 1)
           ((if idx = fb_cursor s then CHR ''>'' else CHR '' '') # take FB_ITEM_CHARS (drop off name)))"

definition fb_draw :: "fb_state \<Rightarrow> fb_state \<times> string list" where
  "fb_draw s =
     (let n_rows = fb_total s;
          s = s\<lparr> fb_scroll := ui_scroll_clamp (fb_cursor s) n_rows FB_VISIBLE (fb_scroll s) \<rparr>
      in (s, map (\<lambda>v. fb_row s (fb_scroll s + v))
               (takeWhile (\<lambda>v. fb_scroll s + v < n_rows) [0..<FB_VISIBLE])))"

datatype fb_outcome = Fb_Continue fb_state | Fb_Selected string | Fb_Cancelled

text \<open>The stored name of the entry under the cursor (index ei in the code).\<close>

definition fb_cursor_name :: "fb_state \<Rightarrow> string" where
  "fb_cursor_name s =
     (let ei = (if fb_has_parent s then fb_cursor s - 1 else fb_cursor s)
      in fst (fb_entries s ! ei))"

text \<open>The rest of the pass, on the key the wait returned; out_len is the size of the
  caller's buffer.\<close>

definition fb_key_step ::
  "'w list_dir \<Rightarrow> nat \<Rightarrow> fb_state \<Rightarrow> 'w \<Rightarrow> fb_key \<Rightarrow> fb_outcome \<times> 'w" where
  "fb_key_step ld out_len s w key =
     (if key = FB_KEY_NONE then (Fb_Continue (s\<lparr> fb_marquee := fb_marquee s + 1 \<rparr>), w)
      else
        let n_rows = fb_total s; s = s\<lparr> fb_marquee := 0 \<rparr>
        in case key of
             FB_KEY_UP \<Rightarrow>
               (Fb_Continue (if fb_cursor s > 0 then s\<lparr> fb_cursor := fb_cursor s - 1 \<rparr> else s), w)
           | FB_KEY_DOWN \<Rightarrow>
               (Fb_Continue (if fb_cursor s + 1 < n_rows then s\<lparr> fb_cursor := fb_cursor s + 1 \<rparr> else s), w)
           | FB_KEY_OK \<Rightarrow>
               (if n_rows = 0 then (Fb_Continue s, w)
                else if fb_is_dir s (fb_cursor s) then
                  (if fb_has_parent s \<and> fb_cursor s = 0
                   then (let (s, w) = fb_go_up ld s w in (Fb_Continue s, w))
                   else (let (s, w) = fb_enter ld s (fb_cursor_name s) w in (Fb_Continue s, w)))
                else
                  (Fb_Selected (take (out_len - 1) (fb_dir s @ ''/'' @ fb_cursor_name s)), w))
           | FB_KEY_BACK \<Rightarrow>
               (if fb_has_parent s
                then (let (s, w) = fb_go_up ld s w in (Fb_Continue s, w))
                else (Fb_Cancelled, w))
           | FB_KEY_NONE \<Rightarrow> (Fb_Continue s, w))"

definition fb_init :: "'w list_dir \<Rightarrow> string \<Rightarrow> 'w \<Rightarrow> fb_state \<times> 'w" where
  "fb_init ld root_path w =
     fb_load ld
       \<lparr> fb_root = take (FB_PATH_MAX - 1) root_path, fb_dir = take (FB_PATH_MAX - 1) root_path,
         fb_entries = [], fb_has_parent = False, fb_cursor = 0, fb_scroll = 0, fb_marquee = 0 \<rparr> w"

text \<open>The loop on the keys given: the frames drawn and where it stands when the
  keys are used up or the browser returned.\<close>

fun fb_loop ::
  "'w list_dir \<Rightarrow> nat \<Rightarrow> fb_state \<Rightarrow> 'w \<Rightarrow> fb_key list \<Rightarrow> string list list \<times> fb_outcome \<times> 'w" where
  "fb_loop ld out_len s w [] = (let (s, rows) = fb_draw s in ([rows], Fb_Continue s, w))"
| "fb_loop ld out_len s w (k # ks) =
     (let (s, rows) = fb_draw s
      in case fb_key_step ld out_len s w k of
           (Fb_Continue s, w) \<Rightarrow>
             (let (frames, out, w) = fb_loop ld out_len s w ks in (rows # frames, out, w))
         | (out, w) \<Rightarrow> ([rows], out, w))"

text \<open>The call: None stands for the refusal of a NULL root or an empty out buffer
  (the code then returns false without drawing).\<close>

definition file_browser_run ::
  "'w list_dir \<Rightarrow> cstr \<Rightarrow> nat \<Rightarrow> 'w \<Rightarrow> fb_key list \<Rightarrow>
   (string list list \<times> fb_outcome \<times> 'w) option" where
  "file_browser_run ld root_path out_len w keys =
     (case root_path of
        None \<Rightarrow> None
      | Some root \<Rightarrow>
          if out_len = 0 then None
          else (let (s, w) = fb_init ld root w in Some (fb_loop ld out_len s w keys)))"

section \<open>The sort\<close>

lemma strcmp_gt_list: "strcmp_gt a b \<longleftrightarrow> map ord b < map ord a"
proof (induction a b rule: strcmp_gt.induct)
  case (3 x xs y ys)
  have "x = y \<longleftrightarrow> ord x = ord y" by (simp add: ord_def)
  with 3 show ?case by (auto simp: neq_iff)
qed (simp_all add: ord_def)

definition name_le :: "fb_entry \<Rightarrow> fb_entry \<Rightarrow> bool" where
  "name_le a b = (map ord (fst a) \<le> map ord (fst b))"

lemma name_le_not_gt: "name_le a b \<longleftrightarrow> \<not> strcmp_gt (fst a) (fst b)"
  by (auto simp: name_le_def strcmp_gt_list)

lemma name_le_trans: "name_le a b \<Longrightarrow> name_le b c \<Longrightarrow> name_le a c"
  unfolding name_le_def by (rule order_trans)

lemma name_le_linear: "name_le a b \<or> name_le b a"
  unfolding name_le_def by (rule linear)

lemma bubble_pass_mset [simp]: "mset (bubble_pass m xs) = mset xs"
  by (induction m xs rule: bubble_pass.induct) simp_all

lemma bubble_pass_length [simp]: "length (bubble_pass m xs) = length xs"
  by (rule mset_eq_length) simp

lemma bubble_pass_max:
  "length xs = Suc m \<Longrightarrow>
     \<exists>ws x. bubble_pass m (xs @ ys) = ws @ x # ys \<and> length ws = m \<and> (\<forall>w\<in>set ws. name_le w x) \<and>
        mset (ws @ [x]) = mset xs"
proof (induction m arbitrary: xs)
  case 0
  then obtain a where "xs = [a]" by (cases xs) auto
  then show ?case by (intro exI[of _ "[]"] exI[of _ a]) (cases ys; simp)
next
  case (Suc m)
  then obtain a b zs where xs: "xs = a # b # zs" by (cases xs; cases "tl xs") auto
  let ?c = "if strcmp_gt (fst a) (fst b) then a else b"
  let ?d = "if strcmp_gt (fst a) (fst b) then b else a"
  obtain ws x where w: "bubble_pass m ((?c # zs) @ ys) = ws @ x # ys" "length ws = m"
    "\<forall>w\<in>set ws. name_le w x" "mset (ws @ [x]) = mset (?c # zs)"
    using Suc.IH[of "?c # zs"] Suc.prems xs by auto
  have "?c \<in># mset (ws @ [x])" using w(4) by simp
  then have "?c = x \<or> ?c \<in> set ws" by auto
  then have "name_le ?c x" using w(3) name_le_linear[of x x] by metis
  moreover have "name_le ?d ?c" using name_le_linear[of a b] by (auto simp: name_le_not_gt)
  ultimately have "name_le ?d x" using name_le_trans by blast
  moreover have "bubble_pass (Suc m) (xs @ ys) = (?d # ws) @ x # ys"
    using w(1) xs by (cases "strcmp_gt (fst a) (fst b)") simp_all
  moreover have "mset ((?d # ws) @ [x]) = mset xs" using w(4) xs by (simp add: ac_simps)
  ultimately show ?case using w(2,3) by (intro exI[of _ "?d # ws"] exI[of _ x]) simp
qed

text \<open>After some passes the list is an unsorted part and a sorted part that is above it.\<close>

definition bubbled :: "nat \<Rightarrow> fb_entry list \<Rightarrow> bool" where
  "bubbled k xs =
     (sorted_wrt name_le (drop k xs) \<and> (\<forall>a\<in>set (take k xs). \<forall>b\<in>set (drop k xs). name_le a b))"

lemma bubble_pass_bubbled:
  assumes "bubbled (Suc m) xs" "Suc m \<le> length xs"
  shows "bubbled m (bubble_pass m xs)"
proof -
  obtain ws x where w: "bubble_pass m (take (Suc m) xs @ drop (Suc m) xs) = ws @ x # drop (Suc m) xs"
    "length ws = m" "\<forall>w\<in>set ws. name_le w x" "mset (ws @ [x]) = mset (take (Suc m) xs)"
    using bubble_pass_max[of "take (Suc m) xs" m "drop (Suc m) xs"] assms(2) by auto
  have s: "set (take (Suc m) xs) = insert x (set ws)" using arg_cong[OF w(4), of set_mset] by simp
  have "bubble_pass m xs = ws @ x # drop (Suc m) xs" using w(1) by simp
  then show ?thesis using assms(1) w(2,3) s by (auto simp: bubbled_def)
qed

lemma bubble_sort_correct:
  "mset (bubble_sort xs) = mset xs \<and> sorted_wrt name_le (bubble_sort xs)"
proof -
  let ?n = "length xs" and ?f = "\<lambda>xs' i. bubble_pass (length xs - i - 1) xs'"
  have inv: "k \<le> ?n - 1 \<Longrightarrow> mset (foldl ?f xs [0..<k]) = mset xs \<and> bubbled (?n - k) (foldl ?f xs [0..<k])" for k
  proof (induction k)
    case 0
    then show ?case by (simp add: bubbled_def)
  next
    case (Suc k)
    let ?ys = "foldl ?f xs [0..<k]"
    obtain m where m: "?n - k = Suc m" "?n - Suc k = m" "Suc m \<le> ?n" using Suc.prems
      by (intro that[of "?n - Suc k"]) arith+
    have "k \<le> ?n - 1" using Suc.prems by simp
    then have ih: "mset ?ys = mset xs" "bubbled (Suc m) ?ys" using Suc.IH unfolding m(1) by blast+
    have l: "length ?ys = ?n" using ih(1) by (rule mset_eq_length)
    have "bubbled m (bubble_pass m ?ys)"
      using ih(2) m(3) l by (intro bubble_pass_bubbled) simp_all
    moreover have "foldl ?f xs [0..<Suc k] = bubble_pass m ?ys" using m by simp
    ultimately show ?case using m ih(1) by simp
  qed
  have p: "mset (bubble_sort xs) = mset xs \<and> bubbled (?n - (?n - 1)) (bubble_sort xs)"
    using inv[of "?n - 1"] by (simp add: bubble_sort_def Let_def)
  have l: "length (bubble_sort xs) = ?n" using conjunct1[OF p] by (rule mset_eq_length)
  have "sorted_wrt name_le (bubble_sort xs)"
  proof (cases "bubble_sort xs")
    case (Cons a as)
    then have "?n - (?n - 1) = Suc 0" using l by simp
    with p Cons show ?thesis by (simp add: bubbled_def)
  qed simp
  with p show ?thesis by simp
qed

section \<open>Staying below the root\<close>

text \<open>The directory shown is the root or continues it at a slash; the cursor is on a
  row; and there is a parent row exactly below the root.\<close>

definition below_root :: "string \<Rightarrow> string \<Rightarrow> bool" where
  "below_root root dir = (\<exists>r. dir = root @ r \<and> (r = [] \<or> hd r = CHR ''/''))"

definition fb_inv :: "fb_state \<Rightarrow> bool" where
  "fb_inv s =
     (below_root (fb_root s) (fb_dir s) \<and> length (fb_dir s) \<le> 255 \<and>
      (fb_has_parent s \<longleftrightarrow> fb_dir s \<noteq> fb_root s) \<and>
      (fb_cursor s < fb_total s \<or> fb_cursor s = 0))"

lemma last_index_append:
  "last_index c (xs @ ys) =
     (case last_index c ys of Some i \<Rightarrow> Some (length xs + i) | None \<Rightarrow> last_index c xs)"
  by (induction xs) (simp_all split: option.split)

lemma last_index_some: "last_index c xs = Some i \<Longrightarrow> i < length xs"
  by (induction xs arbitrary: i) (auto split: option.splits if_splits)

lemma last_index_mem: "c \<in> set xs \<Longrightarrow> last_index c xs \<noteq> None"
  by (induction xs) (auto split: option.split)

lemma below_root_up:
  assumes b: "below_root root dir" and n: "dir \<noteq> root" and i: "last_index (CHR ''/'') dir = Some i"
  shows "below_root root (take i dir)"
proof -
  obtain r where r: "dir = root @ r" "r \<noteq> []" "hd r = CHR ''/''"
    using b n by (auto simp: below_root_def)
  then have "last_index (CHR ''/'') r \<noteq> None" using last_index_mem[of "CHR ''/''" r] by (metis hd_in_set)
  then obtain j where "last_index (CHR ''/'') r = Some j" by blast
  with i r(1) have "i = length root + j" by (simp add: last_index_append)
  with r show ?thesis
    by (cases j; cases r) (auto simp: below_root_def)
qed

lemma below_root_take:
  "below_root root (root @ r) \<Longrightarrow> length root \<le> n \<Longrightarrow> below_root root (take n (root @ r))"
  by (cases r; cases "n - length root") (auto simp: below_root_def)

lemma fb_load_state:
  "fb_load ld s w = (s', w') \<Longrightarrow>
     fb_root s' = fb_root s \<and> fb_dir s' = fb_dir s \<and> fb_cursor s' = 0 \<and> fb_scroll s' = 0 \<and>
     (fb_has_parent s' \<longleftrightarrow> fb_dir s \<noteq> fb_root s) \<and>
     (\<exists>es. fb_entries s' = bubble_sort es \<and> es = fst (ld w (fb_dir s)))"
  by (auto simp: fb_load_def split: prod.splits)

lemma fb_load_inv:
  "below_root (fb_root s) (fb_dir s) \<Longrightarrow> length (fb_dir s) \<le> 255 \<Longrightarrow>
     fb_load ld s w = (s', w') \<Longrightarrow> fb_inv s' \<and> fb_root s' = fb_root s"
  using fb_load_state[of ld s w s' w'] by (simp add: fb_inv_def)

lemma fb_go_up_inv:
  assumes "fb_inv s" "fb_has_parent s" "fb_go_up ld s w = (s', w')"
  shows "fb_inv s' \<and> fb_root s' = fb_root s"
proof (cases "last_index (CHR ''/'') (fb_dir s)")
  case None
  with assms show ?thesis
    by (intro fb_load_inv[of s]) (simp_all add: fb_go_up_def fb_inv_def)
next
  case (Some i)
  have "below_root (fb_root s) (take i (fb_dir s))"
    using below_root_up[OF _ _ Some] assms(1,2) by (simp add: fb_inv_def)
  moreover have "length (take i (fb_dir s)) \<le> 255" using assms(1) by (auto simp: fb_inv_def)
  moreover have "fb_load ld (if i \<noteq> 0 then s\<lparr> fb_dir := take i (fb_dir s) \<rparr> else s) w = (s', w')"
    using assms(3) Some by (simp add: fb_go_up_def)
  ultimately show ?thesis
    using fb_load_inv[of s ld w s' w'] fb_load_inv[of "s\<lparr> fb_dir := take i (fb_dir s) \<rparr>" ld w s' w']
      assms(1) fb_inv_def[of s] by (cases "i = 0") simp_all
qed

lemma fb_enter_inv:
  assumes "fb_inv s" "fb_enter ld s name w = (s', w')"
  shows "fb_inv s' \<and> fb_root s' = fb_root s"
proof -
  obtain sub where f: "fb_load ld (s\<lparr> fb_dir := take 255 (fb_dir s @ CHR ''/'' # sub) \<rparr>) w = (s', w')"
    using assms(2) by (auto simp: fb_enter_def Let_def FB_PATH_MAX_def take_take min_def simp del: take_append)
  obtain r where r: "fb_dir s = fb_root s @ r" "r = [] \<or> hd r = CHR ''/''"
    using assms(1) by (auto simp: fb_inv_def below_root_def)
  have "below_root (fb_root s) (fb_root s @ (r @ CHR ''/'' # sub))"
    using r(2) by (cases r) (auto simp: below_root_def)
  then have "below_root (fb_root s) (take 255 (fb_root s @ (r @ CHR ''/'' # sub)))"
    using assms(1) r(1) by (intro below_root_take) (simp_all add: fb_inv_def)
  then have b: "below_root (fb_root s) (take 255 (fb_dir s @ CHR ''/'' # sub))"
    by (simp only: r(1) append_assoc)
  then have "below_root (fb_root s) (fb_dir (s\<lparr> fb_dir := take 255 (fb_dir s @ CHR ''/'' # sub) \<rparr>))"
    by (simp del: take_append)
  moreover have "length (fb_dir (s\<lparr> fb_dir := take 255 (fb_dir s @ CHR ''/'' # sub) \<rparr>)) \<le> 255"
    by (simp del: take_append)
  ultimately show ?thesis
    using fb_load_inv[OF _ _ f] by (simp del: take_append)
qed

lemma fb_key_step_inv:
  assumes "fb_inv s" "fb_key_step ld n s w key = (Fb_Continue s', w')"
  shows "fb_inv s' \<and> fb_root s' = fb_root s"
proof -
  have m: "fb_inv (s\<lparr> fb_marquee := t \<rparr>)" for t
    using assms(1) by (auto simp: fb_inv_def fb_total_def split: if_splits)
  show ?thesis
  proof (cases key)
    case FB_KEY_NONE
    with assms m show ?thesis by (auto simp: fb_key_step_def)
  next
    case FB_KEY_UP
    with assms show ?thesis by (auto simp: fb_key_step_def fb_inv_def fb_total_def Let_def split: if_splits)
  next
    case FB_KEY_DOWN
    with assms show ?thesis by (auto simp: fb_key_step_def fb_inv_def fb_total_def Let_def split: if_splits)
  next
    case FB_KEY_OK
    let ?s = "s\<lparr> fb_marquee := 0 \<rparr>"
    let ?nm = "fb_cursor_name ?s"
    obtain a b where g: "fb_go_up ld ?s w = (a, b)" by fastforce
    obtain c d where e: "fb_enter ld ?s ?nm w = (c, d)" by fastforce
    have "s' = ?s \<or> (fb_has_parent ?s \<and> fb_go_up ld ?s w = (s', w')) \<or>
        fb_enter ld ?s ?nm w = (s', w')"
      using assms(2) FB_KEY_OK g e
      by (cases "fb_total s = 0"; cases "fb_is_dir ?s (fb_cursor s)";
          cases "fb_has_parent s \<and> fb_cursor s = 0"; simp add: fb_key_step_def Let_def)
    with m[of 0] fb_go_up_inv[of ?s ld w s' w'] fb_enter_inv[of ?s ld _ w s' w']
    have "fb_inv s' \<and> fb_root s' = fb_root ?s" by blast
    then show ?thesis by simp
  next
    case FB_KEY_BACK
    let ?s = "s\<lparr> fb_marquee := 0 \<rparr>"
    obtain a b where g: "fb_go_up ld ?s w = (a, b)" by fastforce
    have "fb_has_parent ?s \<and> fb_go_up ld ?s w = (s', w')"
      using assms(2) FB_KEY_BACK g
      by (cases "fb_has_parent s"; simp add: fb_key_step_def Let_def)
    with m[of 0] fb_go_up_inv[of ?s ld w s' w'] show ?thesis by simp
  qed
qed

lemma fb_draw_inv:
  "fb_inv s \<Longrightarrow> fb_draw s = (s', rows) \<Longrightarrow>
     fb_inv s' \<and> fb_root s' = fb_root s \<and> fb_dir s' = fb_dir s \<and> length rows \<le> 6"
  using length_takeWhile_le[of _ "[0..<6]"]
  by (auto simp: fb_draw_def Let_def fb_inv_def fb_total_def FB_VISIBLE_def)

lemma fb_selected_below:
  assumes "fb_inv s" "fb_key_step ld n s w key = (Fb_Selected p, w')"
  shows "\<exists>r. p = take (n - 1) (fb_root s @ CHR ''/'' # r)"
proof -
  obtain r where r: "fb_dir s = fb_root s @ r" "r = [] \<or> hd r = CHR ''/''"
    using assms(1) by (auto simp: fb_inv_def below_root_def)
  have "\<exists>nm. p = take (n - 1) (fb_dir s @ CHR ''/'' # nm)"
    using assms(2) by (cases key) (auto simp: fb_key_step_def Let_def split: if_splits prod.splits)
  then obtain nm where "p = take (n - 1) (fb_root s @ (r @ CHR ''/'' # nm))"
    using r(1) by auto
  moreover have "\<exists>t. r @ CHR ''/'' # nm = CHR ''/'' # t" using r(2) by (cases r) auto
  ultimately show ?thesis by metis
qed

lemma fb_loop_below:
  "fb_inv s \<Longrightarrow> fb_loop ld n s w keys = (frames, out, w') \<Longrightarrow>
     (\<forall>f\<in>set frames. length f \<le> 6) \<and>
     (case out of
        Fb_Continue t \<Rightarrow> fb_inv t \<and> fb_root t = fb_root s
      | Fb_Selected p \<Rightarrow> (\<exists>r. p = take (n - 1) (fb_root s @ CHR ''/'' # r))
      | Fb_Cancelled \<Rightarrow> True)"
proof (induction keys arbitrary: s w frames out w')
  case Nil
  obtain t rows where d: "fb_draw s = (t, rows)" by fastforce
  with Nil fb_draw_inv[OF Nil(1) d] show ?case by auto
next
  case (Cons k ks)
  obtain t rows where d: "fb_draw s = (t, rows)" by fastforce
  note di = fb_draw_inv[OF Cons.prems(1) d]
  obtain o' w'' where k: "fb_key_step ld n t w k = (o', w'')" by fastforce
  show ?case
  proof (cases o')
    case (Fb_Continue t')
    obtain fr ou wx where l: "fb_loop ld n t' w'' ks = (fr, ou, wx)" by (metis prod_cases3)
    have i: "fb_inv t'" "fb_root t' = fb_root t"
      using fb_key_step_inv[of t ld n w k t' w''] di k Fb_Continue by auto
    show ?thesis using Cons.IH[OF i(1) l] Cons.prems(2) d k Fb_Continue l di i(2)
      by (auto split: fb_outcome.splits)
  next
    case (Fb_Selected p)
    with Cons.prems(2) d k di fb_selected_below[of t ld n w k p w''] show ?thesis by auto
  next
    case Fb_Cancelled
    with Cons.prems(2) d k di show ?thesis by auto
  qed
qed

section \<open>Properties\<close>

text \<open>loading a directory shows exactly the entries the listing returned, each name
  with its own directory flag, in the byte order of their names.\<close>

theorem fb_load_sorted:
  "fb_load ld s w = (s', w') \<Longrightarrow>
     mset (fb_entries s') = mset (fst (ld w (fb_dir s))) \<and>
     sorted_wrt (\<lambda>a b. \<not> strcmp_gt (fst a) (fst b)) (fb_entries s')"
proof -
  assume l: "fb_load ld s w = (s', w')"
  have "name_le = (\<lambda>a b. \<not> strcmp_gt (fst a) (fst b))"
    by (intro ext) (simp add: name_le_not_gt)
  with fb_load_state[OF l] bubble_sort_correct show ?thesis by metis
qed

definition example_listing :: "unit list_dir" where
  "example_listing w dir = ([(''b.txt'', False), (''a/'', True)], w)"

theorem fb_load_sorted_witness:
  "mset [(''a/'', True), (''b.txt'', False)] = mset (fst (example_listing () ''/sd''))"
proof -
  let ?s = "\<lparr> fb_root = ''/sd'', fb_dir = ''/sd'', fb_entries = [], fb_has_parent = False,
             fb_cursor = 0, fb_scroll = 0, fb_marquee = 0 \<rparr>"
  have "fb_load example_listing ?s () =
      (?s\<lparr> fb_entries := [(''a/'', True), (''b.txt'', False)] \<rparr>, ())"
    by (simp add: fb_load_def example_listing_def bubble_sort_def ord_def numeral_2_eq_2)
  from fb_load_sorted[OF this] show ?thesis by simp
qed

lemma file_browser_example:
  "file_browser_run example_listing (Some ''/sd'') 64 () [FB_KEY_DOWN, FB_KEY_OK] =
     Some (fst (the (file_browser_run example_listing (Some ''/sd'') 64 () [FB_KEY_DOWN, FB_KEY_OK])),
           Fb_Selected ''/sd/b.txt'', ())"
  by code_simp



text \<open>After the clamp the cursor row is among the visible rows and the window does
  not run past the list; and the marquee offset never runs past the text.\<close>

theorem ui_scroll_and_marquee:
  assumes "cursor < n_rows" "0 < visible"
  shows "ui_scroll_clamp cursor n_rows visible scroll \<le> cursor \<and>
         cursor < ui_scroll_clamp cursor n_rows visible scroll + visible \<and>
         (ui_scroll_clamp cursor n_rows visible scroll + visible \<le> n_rows \<or>
          ui_scroll_clamp cursor n_rows visible scroll = 0) \<and>
         ui_marquee_offset tick text_len window pause_ticks \<le> text_len - window"
  using assms by (auto simp: ui_scroll_clamp_def ui_marquee_offset_def Let_def)

theorem ui_scroll_and_marquee_witness: "ui_scroll_clamp 7 10 6 0 = 2 \<and> (2::nat) \<le> 7"
  using ui_scroll_and_marquee[of 7 10 6 0] by (simp add: ui_scroll_clamp_def)

end
