(* ===== verification/Rtc.thy ===== *)
theory Rtc
  imports Strings
begin

unbundle bit_operations_syntax

text \<open>
  src/jpp_rtc_core.c: the real-time clock. Dates are records of C ints; the
  DS1307 registers are bytes. What the I2C driver and the timer return is an
  argument of the operation that calls them (None is a failed transfer), and the
  bytes an operation transmits are part of its result.
\<close>

datatype rtc_status =
    RTC_OK | RTC_INVALID_ARGUMENT | RTC_INVALID_TIME | RTC_UNAVAILABLE | RTC_NTP_TIMEOUT
  | RTC_HW_ERROR

datatype rtc_unavailable_reason =
  RTC_REASON_NONE | RTC_REASON_DISABLED | RTC_REASON_CLOCK_UNAVAILABLE

record rtc_datetime =
  year :: int
  month :: int
  day :: int
  weekday :: int
  hour :: int
  minute :: int
  second :: int
  subseconds :: int

record rtc_config =
  rc_enabled :: bool
  rc_has_datetime :: bool
  rc_datetime :: rtc_datetime
  rc_ntp_timeout_s :: int
  rc_ntp_host :: cstr
  rc_i2c_bus :: bool
  rc_ds1307_addr :: "8 word"

record rtc_state =
  rs_ready :: bool
  rs_enabled :: bool
  rs_has_datetime :: bool
  rs_datetime :: rtc_datetime
  rs_ntp_timeout_s :: int
  rs_ntp_host :: cstr
  rs_unavailable_reason :: rtc_unavailable_reason
  rs_hw_attached :: bool
  rs_last_hw_read_us :: int

section \<open>BCD\<close>

definition bcd_to_bin :: "8 word \<Rightarrow> 8 word" where
  "bcd_to_bin bcd = drop_bit 4 bcd * 10 + (bcd AND 0x0F)"

definition bin_to_bcd :: "8 word \<Rightarrow> 8 word" where
  "bin_to_bcd bin = (push_bit 4 (bin div 10)) OR (bin mod 10)"

section \<open>Configuration and initialisation\<close>

definition zero_datetime :: rtc_datetime where
  "zero_datetime = \<lparr> year = 0, month = 0, day = 0, weekday = 0, hour = 0, minute = 0,
                     second = 0, subseconds = 0 \<rparr>"

definition rtc_config_defaults :: rtc_config where
  "rtc_config_defaults =
     \<lparr> rc_enabled = True, rc_has_datetime = False, rc_datetime = zero_datetime,
       rc_ntp_timeout_s = 10, rc_ntp_host = Some ''time.nist.gov'', rc_i2c_bus = False,
       rc_ds1307_addr = 0x68 \<rparr>"

definition rtc_datetime_valid :: "rtc_datetime option \<Rightarrow> bool" where
  "rtc_datetime_valid d =
     (case d of None \<Rightarrow> False
      | Some dt \<Rightarrow>
          year dt \<ge> 2000 \<and> month dt \<ge> 1 \<and> month dt \<le> 12 \<and> day dt \<ge> 1 \<and> day dt \<le> 31 \<and>
          weekday dt \<ge> 0 \<and> weekday dt \<le> 6 \<and> hour dt \<ge> 0 \<and> hour dt \<le> 23 \<and>
          minute dt \<ge> 0 \<and> minute dt \<le> 59 \<and> second dt \<ge> 0 \<and> second dt \<le> 59 \<and>
          subseconds dt \<ge> 0)"

text \<open>The state after the memset; probe_ok and attach_ok are what the I2C driver
  answers when the bus handle is given.\<close>

definition rtc_state_init ::
  "rtc_config option \<Rightarrow> bool \<Rightarrow> bool \<Rightarrow> bool \<Rightarrow> rtc_status \<times> rtc_state" where
  "rtc_state_init config clock_available probe_ok attach_ok =
     (let src = (case config of None \<Rightarrow> rtc_config_defaults | Some c \<Rightarrow> c);
          s = \<lparr> rs_ready = False, rs_enabled = rc_enabled src, rs_has_datetime = False,
                rs_datetime = zero_datetime,
                rs_ntp_timeout_s = (if rc_ntp_timeout_s src > 0 then rc_ntp_timeout_s src else 10),
                rs_ntp_host = (if rc_ntp_host src \<noteq> None then rc_ntp_host src
                               else Some ''time.nist.gov''),
                rs_unavailable_reason = RTC_REASON_NONE, rs_hw_attached = False,
                rs_last_hw_read_us = 0 \<rparr>;
          s = (if rc_has_datetime src \<and> rtc_datetime_valid (Some (rc_datetime src))
               then s\<lparr> rs_has_datetime := True, rs_datetime := rc_datetime src \<rparr> else s)
      in if \<not> rs_enabled s then
           (RTC_UNAVAILABLE, s\<lparr> rs_unavailable_reason := RTC_REASON_DISABLED \<rparr>)
         else if \<not> clock_available then
           (RTC_UNAVAILABLE, s\<lparr> rs_unavailable_reason := RTC_REASON_CLOCK_UNAVAILABLE \<rparr>)
         else
           let s = (if rc_i2c_bus src then s\<lparr> rs_hw_attached := (probe_ok \<and> attach_ok) \<rparr> else s)
           in (RTC_OK, s\<lparr> rs_ready := True, rs_unavailable_reason := RTC_REASON_NONE \<rparr>))"

section \<open>The DS1307\<close>

text \<open>regs: the seven registers read, or None when the transfer failed. The second
  component lists the byte strings transmitted (the read-modify-write that clears
  the clock-halt bit; its failure is only logged).\<close>

definition rtc_hw_read ::
  "rtc_state \<Rightarrow> 8 word list option \<Rightarrow> int \<Rightarrow> rtc_status \<times> 8 word list list \<times> rtc_state" where
  "rtc_hw_read s regs now_us =
     (if \<not> rs_ready s \<or> \<not> rs_hw_attached s then (RTC_UNAVAILABLE, [], s)
      else
        (case regs of
           None \<Rightarrow> (RTC_HW_ERROR, [], s)
         | Some r \<Rightarrow>
             let sent = (if r ! 0 AND 0x80 \<noteq> 0 then [ [0x00, r ! 0 AND 0x7F] ] else []);
                 r = (if r ! 0 AND 0x80 \<noteq> 0 then r[0 := r ! 0 AND 0x7F] else r);
                 dt = \<lparr> year = 2000 + uint (bcd_to_bin (r ! 6)),
                        month = uint (bcd_to_bin (r ! 5)),
                        day = uint (bcd_to_bin (r ! 4)),
                        weekday = uint (r ! 3),
                        hour = uint (bcd_to_bin (r ! 2 AND 0x3F)),
                        minute = uint (bcd_to_bin (r ! 1)),
                        second = uint (bcd_to_bin (r ! 0 AND 0x7F)),
                        subseconds = 0 \<rparr>
             in if \<not> rtc_datetime_valid (Some dt) then (RTC_INVALID_TIME, sent, s)
                else (RTC_OK, sent,
                      s\<lparr> rs_datetime := dt, rs_has_datetime := True, rs_last_hw_read_us := now_us \<rparr>)))"

text \<open>The eight bytes of a write: the register address and the seven registers.\<close>

definition rtc_write_bytes :: "rtc_datetime \<Rightarrow> 8 word list" where
  "rtc_write_bytes dt =
     [0x00,
      bin_to_bcd (word_of_int (second dt)) AND 0x7F,
      bin_to_bcd (word_of_int (minute dt)),
      bin_to_bcd (word_of_int (hour dt)) AND 0x3F,
      word_of_int (weekday dt),
      bin_to_bcd (word_of_int (day dt)),
      bin_to_bcd (word_of_int (month dt)),
      bin_to_bcd (word_of_int (year dt - 2000))]"

definition rtc_hw_write ::
  "rtc_state \<Rightarrow> rtc_datetime option \<Rightarrow> bool \<Rightarrow> int \<Rightarrow> rtc_status \<times> 8 word list list \<times> rtc_state" where
  "rtc_hw_write s d transmit_ok now_us =
     (case d of
        None \<Rightarrow> (RTC_INVALID_ARGUMENT, [], s)
      | Some dt \<Rightarrow>
          if \<not> rs_ready s \<or> \<not> rs_hw_attached s then (RTC_UNAVAILABLE, [], s)
          else if \<not> rtc_datetime_valid (Some dt) then (RTC_INVALID_TIME, [], s)
          else if \<not> transmit_ok then (RTC_HW_ERROR, [rtc_write_bytes dt], s)
          else (RTC_OK, [rtc_write_bytes dt],
                s\<lparr> rs_datetime := dt, rs_has_datetime := True, rs_last_hw_read_us := now_us \<rparr>))"

section \<open>The current time\<close>

text \<open>The conversion of a 64-bit value to C int.\<close>

definition to_int32 :: "int \<Rightarrow> int" where
  "to_int32 x = sint (word_of_int x :: 32 word)"

definition days_in_month :: "int list" where
  "days_in_month = [31,28,31,30,31,30,31,31,30,31,30,31]"

text \<open>while (low >= 60) { low -= 60; high++; }\<close>

function carry60 :: "int \<Rightarrow> int \<Rightarrow> int \<times> int" where
  "carry60 low high = (if low \<ge> 60 then carry60 (low - 60) (high + 1) else (low, high))"
  by auto
termination by (relation "measure (\<lambda>(low, _). nat low)") auto

declare carry60.simps [simp del]

definition max_day :: "rtc_datetime \<Rightarrow> int" where
  "max_day dt =
     (let month_idx = (month dt - 1) mod 12
      in if month_idx = 1 \<and> year dt mod 4 = 0 \<and> (year dt mod 100 \<noteq> 0 \<or> year dt mod 400 = 0)
         then 29 else days_in_month ! nat month_idx)"

definition next_day :: "rtc_datetime \<Rightarrow> rtc_datetime" where
  "next_day dt =
     (let dt = dt\<lparr> day := day dt + 1 \<rparr>
      in if day dt > max_day dt then
           let dt = dt\<lparr> day := 1, month := month dt + 1 \<rparr>
           in if month dt > 12 then dt\<lparr> month := 1, year := year dt + 1 \<rparr> else dt
         else dt)"

text \<open>while (hour >= 24) { hour -= 24; the next day }\<close>

function carry_days :: "rtc_datetime \<Rightarrow> rtc_datetime" where
  "carry_days dt =
     (if hour dt \<ge> 24 then carry_days (next_day (dt\<lparr> hour := hour dt - 24 \<rparr>)) else dt)"
  by auto
termination
  by (relation "measure (\<lambda>dt. nat (hour dt))") (auto simp: next_day_def Let_def)

declare carry_days.simps [simp del]

definition add_seconds :: "rtc_datetime \<Rightarrow> int \<Rightarrow> rtc_datetime" where
  "add_seconds dt elapsed_s =
     (let (sec, mn) = carry60 (second dt + elapsed_s) (minute dt);
          (mn, hr) = carry60 mn (hour dt)
      in carry_days (dt\<lparr> second := sec, minute := mn, hour := hr \<rparr>))"

definition rtc_get_current ::
  "rtc_state option \<Rightarrow> int \<Rightarrow> rtc_datetime option \<Rightarrow> rtc_status \<times> rtc_datetime option" where
  "rtc_get_current state now_us out =
     (case (state, out) of
        (Some s, Some _) \<Rightarrow>
          if \<not> rs_has_datetime s then (RTC_UNAVAILABLE, out)
          else if rs_last_hw_read_us s = 0 then (RTC_OK, Some (rs_datetime s))
          else
            let elapsed_us = now_us - rs_last_hw_read_us s
            in if elapsed_us \<le> 0 then (RTC_OK, Some (rs_datetime s))
               else
                 let elapsed_s = to_int32 (elapsed_us div 1000000)
                 in if elapsed_s \<le> 0 then (RTC_OK, Some (rs_datetime s))
                    else (RTC_OK, Some (add_seconds (rs_datetime s) elapsed_s))
      | _ \<Rightarrow> (RTC_INVALID_ARGUMENT, out))"

section \<open>Setters and names\<close>

definition rtc_set_time :: "rtc_state \<Rightarrow> rtc_datetime option \<Rightarrow> int \<Rightarrow> rtc_status \<times> rtc_state" where
  "rtc_set_time s d now_us =
     (if \<not> rs_ready s then (RTC_UNAVAILABLE, s)
      else
        (case d of
           None \<Rightarrow> (RTC_OK, s\<lparr> rs_has_datetime := False, rs_datetime := zero_datetime \<rparr>)
         | Some dt \<Rightarrow>
             if \<not> rtc_datetime_valid (Some dt) then (RTC_INVALID_TIME, s)
             else (RTC_OK, s\<lparr> rs_datetime := dt, rs_has_datetime := True, rs_last_hw_read_us := now_us \<rparr>)))"

definition rtc_sync_ntp ::
  "rtc_state \<Rightarrow> cstr \<Rightarrow> rtc_datetime option \<Rightarrow> bool \<Rightarrow> int \<Rightarrow> rtc_status \<times> rtc_state" where
  "rtc_sync_ntp s ntp_host resolved ntp_available now_us =
     (if \<not> rs_ready s then (RTC_UNAVAILABLE, s)
      else
        let s = s\<lparr> rs_ntp_host := (if str_nonempty ntp_host then ntp_host else Some ''time.nist.gov'') \<rparr>
        in if \<not> ntp_available then (RTC_NTP_TIMEOUT, s)
           else rtc_set_time s resolved now_us)"

definition rtc_status_name :: "rtc_status \<Rightarrow> string" where
  "rtc_status_name s =
     (case s of RTC_OK \<Rightarrow> ''OK'' | RTC_INVALID_ARGUMENT \<Rightarrow> ''INVALID_ARGUMENT''
      | RTC_INVALID_TIME \<Rightarrow> ''INVALID_TIME'' | RTC_UNAVAILABLE \<Rightarrow> ''UNAVAILABLE''
      | RTC_NTP_TIMEOUT \<Rightarrow> ''NTP_TIMEOUT'' | RTC_HW_ERROR \<Rightarrow> ''HW_ERROR'')"

definition rtc_unavailable_reason_name :: "rtc_unavailable_reason \<Rightarrow> string" where
  "rtc_unavailable_reason_name r =
     (case r of RTC_REASON_NONE \<Rightarrow> ''none'' | RTC_REASON_DISABLED \<Rightarrow> ''disabled''
      | RTC_REASON_CLOCK_UNAVAILABLE \<Rightarrow> ''clock_unavailable'')"

section \<open>Operations and the clock invariant\<close>

text \<open>The operations on a clock state, with what the hardware answers.\<close>

datatype rtc_op =
    Rtc_Read "8 word list option" int | Rtc_Write "rtc_datetime option" bool int
  | Rtc_Set "rtc_datetime option" int | Rtc_Sync cstr "rtc_datetime option" bool int

fun rtc_step :: "rtc_state \<Rightarrow> rtc_op \<Rightarrow> rtc_status \<times> rtc_state" where
  "rtc_step s (Rtc_Read regs t) = (let (st, _, s) = rtc_hw_read s regs t in (st, s))"
| "rtc_step s (Rtc_Write d ok t) = (let (st, _, s) = rtc_hw_write s d ok t in (st, s))"
| "rtc_step s (Rtc_Set d t) = rtc_set_time s d t"
| "rtc_step s (Rtc_Sync h d ok t) = rtc_sync_ntp s h d ok t"

definition rtc_inv :: "rtc_state \<Rightarrow> bool" where
  "rtc_inv s = (rs_has_datetime s \<longrightarrow> rtc_datetime_valid (Some (rs_datetime s)))"

lemma rtc_step_inv: "rtc_inv s \<Longrightarrow> rtc_inv (snd (rtc_step s op))"
  by (cases op)
     (auto simp: rtc_inv_def rtc_hw_read_def rtc_hw_write_def rtc_set_time_def rtc_sync_ntp_def
      Let_def simp del: rtc_datetime_valid_def split: option.splits)

interpretation rtc: kept_invariant rtc_step rtc_inv
  by unfold_locales (rule rtc_step_inv)

lemma rtc_state_init_inv: "rtc_inv (snd (rtc_state_init c a p q))"
  by (auto simp: rtc_inv_def rtc_state_init_def Let_def)

section \<open>Lemmas on BCD\<close>

definition bcd_range :: "8 word \<Rightarrow> bool" where
  "bcd_range b = (b < 100)"

lemma word8_below_100: "b < (100 :: 8 word) \<Longrightarrow> \<exists>n\<in>set [0..<100]. b = word_of_nat n"
  by (intro bexI[of _ "unat b"]) (auto simp: word_less_nat_alt)

lemma bcd_table:
  "list_all (\<lambda>n. bcd_to_bin (bin_to_bcd (word_of_nat n)) = word_of_nat n) [0..<100]"
  by code_simp

interpretation bcd: codec bin_to_bcd bcd_to_bin bcd_range
proof unfold_locales
  fix a assume "bcd_range a"
  then have "a < 100" by (simp add: bcd_range_def)
  from word8_below_100[OF this] obtain n where "n \<in> set [0..<100]" "a = word_of_nat n" by blast
  then show "bcd_to_bin (bin_to_bcd a) = a" using bcd_table by (simp add: list_all_iff)
qed

lemma int_in_upt: "0 \<le> i \<Longrightarrow> i < int n \<Longrightarrow> nat i \<in> set [0..<n]"
  by auto

lemma word_of_int_nat: "0 \<le> i \<Longrightarrow> (word_of_int i :: 8 word) = word_of_nat (nat i)"
  by simp

lemma bcd_roundtrip_int:
  assumes "0 \<le> i" "i < 100"
  shows "uint (bcd_to_bin (bin_to_bcd (word_of_int i))) = i"
proof -
  have "(word_of_int i :: 8 word) < 100"
    using assms by (simp add: word_less_def uint_word_of_int)
  then have "bcd_to_bin (bin_to_bcd (word_of_int i)) = word_of_int i"
    using bcd.dec_enc by (simp add: bcd_range_def)
  then show ?thesis using assms by (simp add: uint_word_of_int)
qed

lemma seconds_table:
  "list_all (\<lambda>n. bin_to_bcd (word_of_nat n) AND 0x7F = bin_to_bcd (word_of_nat n) \<and>
       bin_to_bcd (word_of_nat n) AND 0x80 = 0) [0..<60]"
  by code_simp

lemma hours_table:
  "list_all (\<lambda>n. bin_to_bcd (word_of_nat n) AND 0x3F = bin_to_bcd (word_of_nat n)) [0..<24]"
  by code_simp

lemma seconds_register:
  assumes "0 \<le> i" "i < 60"
  shows "bin_to_bcd (word_of_int i) AND 0x7F = bin_to_bcd (word_of_int i)"
    "bin_to_bcd (word_of_int i) AND 0x80 = 0"
  using seconds_table int_in_upt[of i 60] assms word_of_int_nat[of i]
  by (simp_all only: list_all_iff)

lemma hours_register:
  assumes "0 \<le> i" "i < 24"
  shows "bin_to_bcd (word_of_int i) AND 0x3F = bin_to_bcd (word_of_int i)"
  using hours_table int_in_upt[of i 24] assms word_of_int_nat[of i]
  by (simp only: list_all_iff)

section \<open>Carrying seconds\<close>

lemma carry60_eq:
  "0 \<le> low \<Longrightarrow> carry60 low high = (low mod 60, high + low div 60)"
proof (induction low high rule: carry60.induct)
  case (1 low high)
  show ?case
  proof (cases "low \<ge> 60")
    case True
    have "(low - 60) div 60 = low div 60 - 1" "(low - 60) mod 60 = low mod 60"
      using div_mult_self1[of 60 "-1" low] by (simp_all add: mod_diff_right_eq)
    with 1 True show ?thesis by (subst carry60.simps) simp
  next
    case False
    with 1 show ?thesis by (subst carry60.simps) simp
  qed
qed

text \<open>The date of a record is one the calendar has.\<close>

definition date_ok :: "rtc_datetime \<Rightarrow> bool" where
  "date_ok dt = (1 \<le> month dt \<and> month dt \<le> 12 \<and> 1 \<le> day dt \<and> day dt \<le> max_day dt)"

lemma days_in_month_pos: "i < 12 \<Longrightarrow> 28 \<le> days_in_month ! i \<and> days_in_month ! i \<le> 31"
proof -
  have "list_all (\<lambda>i. 28 \<le> days_in_month ! i \<and> days_in_month ! i \<le> 31) [0..<12]"
    by code_simp
  then show "i < 12 \<Longrightarrow> ?thesis" by (simp add: list_all_iff)
qed

lemma max_day_bounds: "28 \<le> max_day dt" "max_day dt \<le> 31"
  using days_in_month_pos[of "nat ((month dt - 1) mod 12)"]
  by (auto simp: max_day_def Let_def nat_less_iff)

lemma max_day_cong [simp]:
  "max_day (dt\<lparr> hour := h \<rparr>) = max_day dt" "max_day (dt\<lparr> day := d \<rparr>) = max_day dt"
  "max_day (dt\<lparr> minute := m \<rparr>) = max_day dt" "max_day (dt\<lparr> second := s \<rparr>) = max_day dt"
  by (simp_all add: max_day_def)

lemma next_day_valid:
  "rtc_datetime_valid (Some (dt\<lparr> hour := 0 \<rparr>)) \<Longrightarrow>
     rtc_datetime_valid (Some ((next_day dt)\<lparr> hour := 0 \<rparr>))"
  using max_day_bounds[of dt] by (auto simp: next_day_def rtc_datetime_valid_def Let_def)

lemma next_day_hour [simp]: "hour (next_day dt) = hour dt"
  by (simp add: next_day_def Let_def)

lemma next_day_commute: "(next_day dt)\<lparr> hour := h \<rparr> = next_day (dt\<lparr> hour := h \<rparr>)"
  by (simp add: next_day_def Let_def)

lemma carry_days_valid:
  "0 \<le> hour dt \<Longrightarrow> rtc_datetime_valid (Some (dt\<lparr> hour := 0 \<rparr>)) \<Longrightarrow>
     rtc_datetime_valid (Some (carry_days dt))"
proof (induction dt rule: carry_days.induct)
  case (1 dt)
  show ?case
  proof (cases "hour dt \<ge> 24")
    case True
    with 1 next_day_valid[of "dt\<lparr> hour := hour dt - 24 \<rparr>"] show ?thesis
      by (subst carry_days.simps) simp
  next
    case False
    with 1 show ?thesis by (subst carry_days.simps) (simp add: rtc_datetime_valid_def)
  qed
qed

lemma add_seconds_valid:
  assumes "rtc_datetime_valid (Some dt)" "0 \<le> e"
  shows "rtc_datetime_valid (Some (add_seconds dt e))"
proof -
  have b: "0 \<le> second dt + e" "0 \<le> minute dt" "0 \<le> hour dt"
    using assms by (auto simp: rtc_datetime_valid_def)
  define q where "q = (second dt + e) div 60"
  define p where "p = (minute dt + q) div 60"
  have q: "0 \<le> q" using b(1) by (simp add: q_def pos_imp_zdiv_nonneg_iff)
  then have p: "0 \<le> p" using b(2) by (simp add: p_def pos_imp_zdiv_nonneg_iff)
  have m: "x mod 60 \<le> 59" for x :: int using pos_mod_bound[of 60 x] by simp
  have "add_seconds dt e = carry_days (dt\<lparr> second := (second dt + e) mod 60,
      minute := (minute dt + q) mod 60, hour := hour dt + p \<rparr>)"
    using b q by (simp add: add_seconds_def carry60_eq q_def p_def)
  moreover have "rtc_datetime_valid (Some (carry_days (dt\<lparr> second := (second dt + e) mod 60,
      minute := (minute dt + q) mod 60, hour := hour dt + p \<rparr>)))"
    by (rule carry_days_valid) (use assms b p m in \<open>simp_all add: rtc_datetime_valid_def\<close>)
  ultimately show ?thesis by simp
qed

section \<open>Properties\<close>

text \<open>a date written to the DS1307 is read back: with the seven register bytes
  that a successful jpp_rtc_hw_write transmits, jpp_rtc_hw_read sets the same date and
  time (its subseconds cleared), for the years 2000 to 2099 the chip has.\<close>

theorem rtc_write_read_roundtrip:
  assumes "rs_ready s" "rs_hw_attached s" "rtc_datetime_valid (Some dt)" "year dt \<le> 2099"
  shows "case rtc_hw_write s (Some dt) True t of
     (st, [bytes], s') \<Rightarrow>
       st = RTC_OK \<and> length bytes = 8 \<and> hd bytes = 0 \<and>
       rtc_hw_read s' (Some (tl bytes)) t' =
         (RTC_OK, [],
          s'\<lparr> rs_datetime := dt\<lparr> subseconds := 0 \<rparr>, rs_last_hw_read_us := t' \<rparr>)
   | _ \<Rightarrow> False"
proof -
  have b: "0 \<le> second dt" "second dt < 60" "0 \<le> minute dt" "minute dt < 60" "0 \<le> hour dt" "hour dt < 24"
    "0 \<le> weekday dt" "weekday dt < 7" "1 \<le> day dt" "day dt < 32" "1 \<le> month dt" "month dt < 13"
    "0 \<le> year dt - 2000" "year dt - 2000 < 100"
    using assms(3,4) by (auto simp: rtc_datetime_valid_def)
  have w: "uint (word_of_int (weekday dt) :: 8 word) = weekday dt"
    using b by (simp add: uint_word_of_int)
  have r: "uint (bcd_to_bin (bin_to_bcd (word_of_int (second dt)))) = second dt"
    "uint (bcd_to_bin (bin_to_bcd (word_of_int (minute dt)))) = minute dt"
    "uint (bcd_to_bin (bin_to_bcd (word_of_int (hour dt)))) = hour dt"
    "uint (bcd_to_bin (bin_to_bcd (word_of_int (day dt)))) = day dt"
    "uint (bcd_to_bin (bin_to_bcd (word_of_int (month dt)))) = month dt"
    "uint (bcd_to_bin (bin_to_bcd (word_of_int (year dt - 2000)))) = year dt - 2000"
    using b by (intro bcd_roundtrip_int; simp)+
  have v: "rtc_datetime_valid (Some
      \<lparr> year = year dt, month = month dt, day = day dt, weekday = weekday dt,
        hour = hour dt, minute = minute dt, second = second dt, subseconds = 0 \<rparr>)"
    using assms(3) by (simp add: rtc_datetime_valid_def)
  have "rtc_hw_read s' (Some (tl (rtc_write_bytes dt))) t' =
      (RTC_OK, [], s'\<lparr> rs_datetime := dt\<lparr> subseconds := 0 \<rparr>, rs_has_datetime := True,
                     rs_last_hw_read_us := t' \<rparr>)"
    if "rs_ready s'" "rs_hw_attached s'" for s'
  proof -
    have "rtc_write_bytes dt =
        [0, bin_to_bcd (word_of_int (second dt)), bin_to_bcd (word_of_int (minute dt)),
         bin_to_bcd (word_of_int (hour dt)), word_of_int (weekday dt), bin_to_bcd (word_of_int (day dt)),
         bin_to_bcd (word_of_int (month dt)), bin_to_bcd (word_of_int (year dt - 2000))]"
      by (simp only: rtc_write_bytes_def seconds_register[OF b(1,2)] hours_register[OF b(5,6)])
    moreover have "dt\<lparr> subseconds := 0 \<rparr> =
        \<lparr> year = 2000 + (year dt - 2000), month = month dt, day = day dt, weekday = weekday dt,
          hour = hour dt, minute = minute dt, second = second dt, subseconds = 0 \<rparr>"
      by (cases dt) simp
    ultimately show ?thesis
      using that v
      by (simp add: rtc_hw_read_def Let_def seconds_register[OF b(1,2)]
          hours_register[OF b(5,6)] r w r(6)[simplified])
  qed
  then show ?thesis
    using assms by (simp add: rtc_hw_write_def) (simp add: rtc_write_bytes_def)
qed

definition example_datetime :: rtc_datetime where
  "example_datetime = \<lparr> year = 2024, month = 2, day = 28, weekday = 3, hour = 23, minute = 59,
                        second = 50, subseconds = 0 \<rparr>"

definition example_rtc :: rtc_state where
  "example_rtc = \<lparr> rs_ready = True, rs_enabled = True, rs_has_datetime = True,
     rs_datetime = example_datetime, rs_ntp_timeout_s = 10, rs_ntp_host = None,
     rs_unavailable_reason = RTC_REASON_NONE, rs_hw_attached = True,
     rs_last_hw_read_us = 1000000 \<rparr>"

lemma example_datetime_valid: "rtc_datetime_valid (Some example_datetime)"
  by (simp add: example_datetime_def rtc_datetime_valid_def)

theorem rtc_write_read_roundtrip_witness:
  "fst (rtc_hw_write example_rtc (Some example_datetime) True 5) = RTC_OK"
proof -
  have "rs_ready example_rtc" "rs_hw_attached example_rtc" "year example_datetime \<le> 2099"
    by (simp_all add: example_rtc_def example_datetime_def)
  from rtc_write_read_roundtrip[OF this(1,2) example_datetime_valid this(3), where t = 5 and t' = 6]
  show ?thesis by (simp split: prod.splits list.splits)
qed

text \<open>the running clock stays valid: after any sequence of reads, writes and
  settings, whatever the hardware answers, a jpp_rtc_get_current that succeeds gives a
  date and time with every field in its range, also after any number of days of
  software ticks.\<close>

theorem rtc_current_valid:
  "case rtc_get_current (Some (run_ops rtc_step (snd (rtc_state_init cfg avail probe_ok attach_ok)) ops)) now_us (Some d) of
     (RTC_OK, Some out) \<Rightarrow> rtc_datetime_valid (Some out)
   | (st, r) \<Rightarrow> st = RTC_UNAVAILABLE \<and> r = Some d"
proof -
  let ?s = "run_ops rtc_step (snd (rtc_state_init cfg avail probe_ok attach_ok)) ops"
  have inv: "rtc_inv ?s" by (rule rtc.run_inv) (rule rtc_state_init_inv)
  show ?thesis
  proof (cases "rs_has_datetime ?s")
    case True
    then have v: "rtc_datetime_valid (Some (rs_datetime ?s))" using inv by (simp add: rtc_inv_def)
    then show ?thesis using True add_seconds_valid[OF v]
      by (simp add: rtc_get_current_def Let_def)
  next
    case False
    then show ?thesis by (simp add: rtc_get_current_def)
  qed
qed

end
