(* ===== verification/BgScheduler.thy ===== *)
theory BgScheduler
  imports Manifest Rtc
begin

text \<open>
  src/main/jpp_bg_scheduler.c: the table of scheduled background tasks (at most
  eight), its replacement when an app's manifest is synchronised, and the choice
  of the task that is due at the current time. The static table is passed as the
  list of its entries; the JSON file is the list of the objects in it.
\<close>

definition BG_SCHEDULE_MAX :: nat where "BG_SCHEDULE_MAX = 8"

record bg_entry =
  be_app_id :: string
  be_task :: string
  be_interval_s :: "32 word"
  be_cron :: string
  be_last_run :: "32 word"

section \<open>Time\<close>

definition days_from_civil :: "int \<Rightarrow> int \<Rightarrow> int \<Rightarrow> int" where
  "days_from_civil y m d =
     (let y = y - (if m \<le> 2 then 1 else 0);
          era = (if y \<ge> 0 then y else y - 399) sdiv 400;
          yoe = y - era * 400;
          doy = (153 * (m + (if m > 2 then - 3 else 9)) + 2) sdiv 5 + d - 1;
          doe = yoe * 365 + yoe div 4 - yoe div 100 + doy
      in era * 146097 + doe - 719468)"

definition datetime_to_epoch :: "rtc_datetime \<Rightarrow> 32 word" where
  "datetime_to_epoch dt =
     (let days = days_from_civil (year dt) (month dt) (day dt)
      in word_of_int days * 86400 + word_of_int (hour dt) * 3600 +
         word_of_int (minute dt) * 60 + word_of_int (second dt))"

section \<open>Cron matching\<close>

definition cron_field_matches :: "string \<Rightarrow> int \<Rightarrow> bool \<times> string" where
  "cron_field_matches cursor val =
     (let (m, p) =
        (if char_at cursor 0 = Some (CHR ''*'') then (True, tl cursor)
         else (let (v, p) = cron_number 0 cursor in (sint v = val, p)))
      in (m, skip_spaces p))"

definition cron_matches :: "string \<Rightarrow> rtc_datetime \<Rightarrow> bool" where
  "cron_matches cron dt =
     (let dow = uint ((word_of_int (days_from_civil (year dt) (month dt) (day dt)) + 4 :: 32 word) mod 7);
          (ok1, p) = cron_field_matches cron (minute dt);
          (ok2, p) = cron_field_matches p (hour dt);
          (ok3, p) = cron_field_matches p (day dt);
          (ok4, p) = cron_field_matches p (month dt);
          (ok5, p) = cron_field_matches p dow
      in ok1 \<and> ok2 \<and> ok3 \<and> ok4 \<and> ok5)"

section \<open>Persistence\<close>

text \<open>One object of the entries array: a member that is missing or of the wrong type
  is None.\<close>

record bg_json =
  bj_app :: cstr
  bj_task :: cstr
  bj_interval_s :: "32 word option"
  bj_cron :: cstr
  bj_last_run :: "32 word option"

definition save_schedule :: "bg_entry list \<Rightarrow> bg_json list" where
  "save_schedule entries =
     map (\<lambda>e. \<lparr> bj_app = Some (be_app_id e), bj_task = Some (be_task e),
                bj_interval_s = Some (be_interval_s e), bj_cron = Some (be_cron e),
                bj_last_run = Some (be_last_run e) \<rparr>) entries"

text \<open>The text a char array of n bytes holds after jpp_str_copy.\<close>

definition copied :: "nat \<Rightarrow> cstr \<Rightarrow> string" where
  "copied n src = (case str_copy n src of None \<Rightarrow> [] | Some t \<Rightarrow> t)"

fun load_entries :: "bg_entry list \<Rightarrow> bg_json list \<Rightarrow> bg_entry list" where
  "load_entries entries [] = entries"
| "load_entries entries (e # es) =
     (if length entries \<ge> BG_SCHEDULE_MAX then entries
      else if bj_app e = None \<or> bj_task e = None then load_entries entries es
      else load_entries
        (entries @
           [\<lparr> be_app_id = copied 32 (bj_app e), be_task = copied 32 (bj_task e),
              be_interval_s = (case bj_interval_s e of None \<Rightarrow> 0 | Some v \<Rightarrow> v),
              be_cron = (case bj_cron e of None \<Rightarrow> [] | Some c \<Rightarrow> copied 24 (Some c)),
              be_last_run = (case bj_last_run e of None \<Rightarrow> 0 | Some v \<Rightarrow> v) \<rparr>]) es)"

text \<open>The file: None when it cannot be read or parsed.\<close>

definition bg_scheduler_init :: "bg_json list option \<Rightarrow> bg_entry list" where
  "bg_scheduler_init file = (case file of None \<Rightarrow> [] | Some arr \<Rightarrow> load_entries [] arr)"

section \<open>Operations\<close>

text \<open>The first loop of the synchronisation: the (last run, task) pairs of the app and
  the entries of the other apps.\<close>

fun drop_app :: "string \<Rightarrow> bg_entry list \<Rightarrow> ((32 word \<times> string) list \<times> bg_entry list)" where
  "drop_app app [] = ([], [])"
| "drop_app app (e # es) =
     (let (prev, kept) = drop_app app es
      in if str_eq (Some (be_app_id e)) (Some app)
         then ((be_last_run e, copied 32 (Some (be_task e))) # prev, kept)
         else (prev, e # kept))"

fun prev_run :: "(32 word \<times> string) list \<Rightarrow> cstr \<Rightarrow> 32 word" where
  "prev_run [] name = 0"
| "prev_run ((t, nm) # prev) name = (if str_eq (Some nm) name then t else prev_run prev name)"

definition new_entry :: "string \<Rightarrow> (32 word \<times> string) list \<Rightarrow> bg_task \<Rightarrow> bg_entry" where
  "new_entry app prev t =
     \<lparr> be_app_id = copied 32 (Some app), be_task = copied 32 (bt_name t),
       be_interval_s = word_of_nat (bt_interval_s t),
       be_cron = (if str_nonempty (bt_cron t) then copied 24 (bt_cron t) else []),
       be_last_run = prev_run prev (bt_name t) \<rparr>"

fun add_tasks :: "string \<Rightarrow> (32 word \<times> string) list \<Rightarrow> bg_entry list \<Rightarrow> bg_task list \<Rightarrow> bg_entry list" where
  "add_tasks app prev entries [] = entries"
| "add_tasks app prev entries (t # ts) =
     (if length entries \<ge> BG_SCHEDULE_MAX then entries
      else add_tasks app prev (entries @ [new_entry app prev t]) ts)"

text \<open>The new table and the file written (None when nothing is).\<close>

definition bg_scheduler_sync_app ::
  "bg_entry list \<Rightarrow> cstr \<Rightarrow> bg_task list \<Rightarrow> bg_entry list \<times> bg_json list option" where
  "bg_scheduler_sync_app entries app_id tasks =
     (case app_id of
        None \<Rightarrow> (entries, None)
      | Some app \<Rightarrow>
          let (prev, kept) = drop_app app entries;
              entries = add_tasks app prev kept tasks
          in (entries, Some (save_schedule entries)))"

definition entry_due :: "bg_entry \<Rightarrow> rtc_datetime \<Rightarrow> bool" where
  "entry_due e now =
     (let epoch = datetime_to_epoch now
      in if be_interval_s e > 0 then
           be_last_run e = 0 \<or> epoch \<ge> be_last_run e + be_interval_s e
         else cron_matches (be_cron e) now \<and> epoch div 60 \<noteq> be_last_run e div 60)"

fun first_due :: "bg_entry list \<Rightarrow> rtc_datetime \<Rightarrow> bg_entry option" where
  "first_due [] now = None"
| "first_due (e # es) now = (if entry_due e now then Some e else first_due es now)"

text \<open>None is the answer false; otherwise what the two out buffers then hold.\<close>

definition bg_scheduler_due ::
  "bg_entry list \<Rightarrow> rtc_state option \<Rightarrow> int \<Rightarrow> nat \<Rightarrow> nat \<Rightarrow> (string option \<times> string option) option" where
  "bg_scheduler_due entries rtc now_us app_len task_len =
     (if entries = [] \<or> rtc = None then None
      else
        (case rtc_get_current rtc now_us (Some zero_datetime) of
           (RTC_OK, Some now) \<Rightarrow>
             (case first_due entries now of
                None \<Rightarrow> None
              | Some e \<Rightarrow> Some (str_copy app_len (Some (be_app_id e)),
                                str_copy task_len (Some (be_task e))))
         | _ \<Rightarrow> None))"

fun mark_first :: "bg_entry list \<Rightarrow> cstr \<Rightarrow> cstr \<Rightarrow> 32 word \<Rightarrow> bg_entry list" where
  "mark_first [] app task epoch = []"
| "mark_first (e # es) app task epoch =
     (if str_eq (Some (be_app_id e)) app \<and> str_eq (Some (be_task e)) task
      then e\<lparr> be_last_run := epoch \<rparr> # es
      else e # mark_first es app task epoch)"

definition bg_scheduler_mark_run ::
  "bg_entry list \<Rightarrow> rtc_state option \<Rightarrow> int \<Rightarrow> cstr \<Rightarrow> cstr \<Rightarrow> bg_entry list \<times> bg_json list option" where
  "bg_scheduler_mark_run entries rtc now_us app task =
     (let epoch = (case rtc_get_current rtc now_us (Some zero_datetime) of
                     (RTC_OK, Some now) \<Rightarrow> datetime_to_epoch now | _ \<Rightarrow> 0);
          entries = mark_first entries app task epoch
      in (entries, Some (save_schedule entries)))"

section \<open>The civil calendar\<close>

text \<open>The days from a March-based year, in the closed form of the Gregorian rules.\<close>

definition year_days :: "int \<Rightarrow> int" where
  "year_days y = 365 * y + y div 4 - y div 100 + y div 400"

definition month_days :: "int \<Rightarrow> int" where
  "month_days m = (153 * (m + (if m > 2 then - 3 else 9)) + 2) div 5"

lemma era_floor: "(if y \<ge> 0 then y else y - 399) sdiv 400 = y div (400 :: int)"
proof (cases "y \<ge> 0")
  case False
  have "(y - 399) sdiv 400 = - ((399 - y) div 400)"
    using False by (simp add: signed_divide_int_def sgn_if)
  also have "(399 - y) div 400 = (399 - y mod 400 + 400 * (- (y div 400))) div 400"
    by (rule arg_cong[where f = "\<lambda>x. x div 400"]) (simp add: minus_mult_div_eq_mod [symmetric])
  also have "\<dots> = (399 - y mod 400) div 400 - y div 400"
    by (subst div_mult_self2) simp_all
  also have "(399 - y mod 400) div 400 = 0"
    using pos_mod_bound[of 400 y] pos_mod_sign[of 400 y] by (intro div_pos_pos_trivial) linarith+
  finally show ?thesis using False by simp
qed (simp add: sdiv_nonneg)

lemma year_days_era:
  "year_days y = (y div 400) * 146097 + (y mod 400) * 365 + (y mod 400) div 4 - (y mod 400) div 100"
proof -
  have "(400 * e + r) div 4 = 100 * e + r div 4" "(400 * e + r) div 100 = 4 * e + r div 100" for e r :: int
  proof -
    have "400 * e + r = r + 4 * (100 * e)" "400 * e + r = r + 100 * (4 * e)" by simp_all
    then show "(400 * e + r) div 4 = 100 * e + r div 4" "(400 * e + r) div 100 = 4 * e + r div 100"
      by (metis add.commute div_mult_self2 zero_neq_numeral)+
  qed
  then have "y div 4 = 100 * (y div 400) + (y mod 400) div 4"
    "y div 100 = 4 * (y div 400) + (y mod 400) div 100"
    by (metis mult_div_mod_eq)+
  moreover have "y = 400 * (y div 400) + y mod 400" by simp
  ultimately show ?thesis unfolding year_days_def by linarith
qed

lemma days_from_civil_eq:
  assumes "1 \<le> m" "m \<le> 12"
  shows "days_from_civil y m d =
     year_days (y - (if m \<le> 2 then 1 else 0)) + month_days m + d - 1 - 719468"
proof -
  have "0 \<le> 153 * (m + (if m > 2 then - 3 else 9)) + 2" using assms by simp
  then have m: "(153 * (m + (if m > 2 then - 3 else 9)) + 2) sdiv 5 = month_days m"
    by (simp only: month_days_def sdiv_nonneg)
  show ?thesis
    unfolding days_from_civil_def Let_def era_floor m
    by (simp only: year_days_era minus_div_mult_eq_mod)
qed

lemma div_step: "0 < k \<Longrightarrow> y div k = (y - 1) div k + (if y mod k = 0 then 1 else 0)" for y k :: int
proof -
  assume k: "0 < k"
  define r where "r = y mod k"
  have r: "0 \<le> r" "r < k" using k by (simp_all add: r_def)
  have y: "y - 1 = (r - 1) + k * (y div k)"
    using mult_div_mod_eq[of k y] by (simp add: r_def)
  have "(y - 1) div k = (r - 1) div k + y div k"
    using k by (subst y) simp
  moreover have "(r - 1) div k = (if r = 0 then - 1 else 0)"
    using r k by (auto simp: div_eq_minus1 intro: div_pos_pos_trivial)
  ultimately show ?thesis by (simp add: r_def)
qed

lemma leap_arith:
  "a = a' + (if p4 then 1 else 0) \<Longrightarrow> b = b' + (if p100 then 1 else 0) \<Longrightarrow>
   c = c' + (if p400 then 1 else 0) \<Longrightarrow> (p400 \<Longrightarrow> p100) \<Longrightarrow> (p100 \<Longrightarrow> p4) \<Longrightarrow>
   365 * y + a - b + c =
     365 * (y - 1) + a' - b' + c' + 337 + (if p4 \<and> (\<not> p100 \<or> p400) then 29 else (28 :: int))"
  by (cases p4; cases p100; cases p400) simp_all

lemma year_days_step:
  "year_days y = year_days (y - 1) + 337 + max_day (dt\<lparr> year := y, month := 2 \<rparr>)"
proof -
  have "y mod 400 = 0 \<Longrightarrow> y mod 100 = 0" "y mod 100 = 0 \<Longrightarrow> y mod 4 = 0"
    using dvd_trans[of 100 400 y] dvd_trans[of 4 100 y] by (simp_all flip: dvd_eq_mod_eq_0)
  then have "year_days y = year_days (y - 1) + 337 +
      (if y mod 4 = 0 \<and> (\<not> y mod 100 = 0 \<or> y mod 400 = 0) then 29 else 28)"
    unfolding year_days_def by (intro leap_arith div_step) simp_all
  then show ?thesis by (simp add: max_day_def days_in_month_def)
qed

definition datetime_days :: "rtc_datetime \<Rightarrow> int" where
  "datetime_days dt = days_from_civil (year dt) (month dt) (day dt)"

lemma twelve_months:
  "1 \<le> m \<Longrightarrow> m \<le> 12 \<Longrightarrow>
     m = 1 \<or> m = 2 \<or> m = 3 \<or> m = 4 \<or> m = 5 \<or> m = 6 \<or> m = 7 \<or> m = 8 \<or> m = 9 \<or> m = 10 \<or> m = 11 \<or> m = (12 :: int)"
  by presburger

lemma month_step:
  assumes "1 \<le> month dt" "month dt \<le> 12" "month dt \<noteq> 2" "month dt \<noteq> 12"
  shows "month_days (month dt + 1) = month_days (month dt) + max_day dt"
  using twelve_months[OF assms(1,2)] assms(3,4)
  by (elim disjE) (simp_all add: month_days_def max_day_def days_in_month_def)

lemma next_day_days:
  assumes "date_ok dt"
  shows "datetime_days (next_day dt) = datetime_days dt + 1"
proof (cases "day dt + 1 \<le> max_day dt")
  case True
  then show ?thesis using assms
    by (simp add: next_day_def Let_def datetime_days_def date_ok_def days_from_civil_eq)
next
  case False
  have m: "1 \<le> month dt" "month dt \<le> 12" and d: "day dt = max_day dt"
    using assms False by (auto simp: date_ok_def)
  consider "month dt = 2" | "month dt = 12" | "month dt \<noteq> 2" "month dt \<noteq> 12" by blast
  then show ?thesis
  proof cases
    case 1
    have "dt\<lparr> year := year dt, month := 2 \<rparr> = dt" using 1 by simp
    then have "year_days (year dt) = year_days (year dt - 1) + 337 + max_day dt"
      using year_days_step[of "year dt" dt] by simp
    then show ?thesis using 1 d
      by (simp add: next_day_def Let_def datetime_days_def days_from_civil_eq month_days_def)
  next
    case 2
    then show ?thesis using d
      by (simp add: next_day_def Let_def datetime_days_def days_from_civil_eq month_days_def
          max_day_def days_in_month_def)
  next
    case 3
    then show ?thesis using d m month_step[OF m 3]
      by (simp add: next_day_def Let_def datetime_days_def days_from_civil_eq)
  qed
qed

lemma next_day_date_ok: "date_ok dt \<Longrightarrow> date_ok (next_day dt)"
  using max_day_bounds[of "next_day dt"] max_day_bounds[of dt]
  by (auto simp: date_ok_def next_day_def Let_def)

definition datetime_seconds :: "rtc_datetime \<Rightarrow> int" where
  "datetime_seconds dt =
     datetime_days dt * 86400 + hour dt * 3600 + minute dt * 60 + second dt"

lemma next_day_time [simp]:
  "minute (next_day dt) = minute dt" "second (next_day dt) = second dt"
  by (simp_all add: next_day_def Let_def)

lemma carry_days_seconds:
  "date_ok dt \<Longrightarrow> datetime_seconds (carry_days dt) = datetime_seconds dt \<and> date_ok (carry_days dt)"
proof (induction dt rule: carry_days.induct)
  case (1 dt)
  show ?case
  proof (cases "hour dt \<ge> 24")
    case True
    let ?d = "dt\<lparr> hour := hour dt - 24 \<rparr>"
    have ok: "date_ok ?d" using 1(2) by (simp add: date_ok_def)
    then have "datetime_seconds (next_day ?d) = datetime_seconds dt"
      by (simp add: datetime_seconds_def next_day_days) (simp add: datetime_days_def)
    with 1 True next_day_date_ok[OF ok] show ?thesis by (subst (1 2) carry_days.simps) simp
  next
    case False
    with 1 show ?thesis by (subst (1 2) carry_days.simps) simp
  qed
qed

lemma add_seconds_seconds:
  assumes "rtc_datetime_valid (Some dt)" "date_ok dt" "0 \<le> e"
  shows "datetime_seconds (add_seconds dt e) = datetime_seconds dt + e \<and> date_ok (add_seconds dt e)"
proof -
  have b: "0 \<le> second dt + e" "0 \<le> minute dt" "0 \<le> hour dt"
    using assms by (auto simp: rtc_datetime_valid_def)
  define q where "q = (second dt + e) div 60"
  have q: "0 \<le> q" using b(1) by (simp add: q_def pos_imp_zdiv_nonneg_iff)
  define u p r where "u = (second dt + e) mod 60" and "p = (minute dt + q) div 60"
    and "r = (minute dt + q) mod 60"
  have m: "60 * q + u = second dt + e" "60 * p + r = minute dt + q"
    unfolding q_def u_def p_def r_def by (rule mult_div_mod_eq)+
  define t where "t = dt\<lparr> second := u, minute := r, hour := hour dt + p \<rparr>"
  have "add_seconds dt e = carry_days t"
    using b q by (simp add: add_seconds_def carry60_eq t_def q_def[symmetric] u_def p_def r_def)
  moreover have "date_ok t" using assms(2) by (simp add: t_def date_ok_def)
  moreover have "datetime_seconds t = datetime_seconds dt + e"
    using m by (simp add: datetime_seconds_def datetime_days_def t_def)
  ultimately show ?thesis using carry_days_seconds[of t] by simp
qed

lemma epoch_seconds: "datetime_to_epoch dt = word_of_int (datetime_seconds dt)"
  by (simp add: datetime_to_epoch_def datetime_seconds_def datetime_days_def Let_def)

text \<open>C19: the software clock advances in step with the timer: with a date the calendar has,
  the time jpp_rtc_get_current gives lies exactly the elapsed whole seconds after
  the stored one, in the day count of days_from_civil, across any number of
  minutes, days, months and (leap) years; and it is again a date of the calendar.\<close>

theorem rtc_current_seconds:
  assumes "rs_has_datetime s" "rtc_datetime_valid (Some (rs_datetime s))" "date_ok (rs_datetime s)"
    "rs_last_hw_read_us s \<noteq> 0" "rs_last_hw_read_us s \<le> now_us"
    "(now_us - rs_last_hw_read_us s) div 1000000 < 2 ^ 31"
  shows "case rtc_get_current (Some s) now_us (Some d) of
     (st, Some out) \<Rightarrow> st = RTC_OK \<and> date_ok out \<and>
       datetime_seconds out =
         datetime_seconds (rs_datetime s) + (now_us - rs_last_hw_read_us s) div 1000000 \<and>
       datetime_to_epoch out = word_of_int (datetime_seconds out)
   | _ \<Rightarrow> False"
proof -
  define e where "e = (now_us - rs_last_hw_read_us s) div 1000000"
  have e: "0 \<le> e" using assms(5) by (simp add: e_def pos_imp_zdiv_nonneg_iff)
  have t: "to_int32 e = e"
    using e assms(6) unfolding e_def[symmetric]
    by (simp add: to_int32_def signed_of_int signed_take_bit_int_eq_self)
  show ?thesis
  proof (cases "now_us - rs_last_hw_read_us s \<le> 0 \<or> e = 0")
    case True
    then have "e = 0" using assms(5) by (auto simp: e_def)
    then show ?thesis using assms t True
      by (simp add: rtc_get_current_def Let_def e_def[symmetric] epoch_seconds)
  next
    case False
    then show ?thesis using assms(1-4) t e add_seconds_seconds[OF assms(2,3) e]
      by (simp add: rtc_get_current_def Let_def e_def[symmetric] epoch_seconds)
  qed
qed

text \<open>The leap day of 2024: ten seconds before midnight of 28 February, eleven seconds later.\<close>

theorem rtc_current_seconds_witness:
  "datetime_seconds (the (snd (rtc_get_current (Some example_rtc) 12500000 (Some zero_datetime)))) =
     datetime_seconds example_datetime + 11"
proof -
  have p: "rs_has_datetime example_rtc" "rtc_datetime_valid (Some (rs_datetime example_rtc))"
    "date_ok (rs_datetime example_rtc)" "rs_last_hw_read_us example_rtc \<noteq> 0"
    "rs_last_hw_read_us example_rtc \<le> 12500000"
    "(12500000 - rs_last_hw_read_us example_rtc) div 1000000 < 2 ^ 31"
    using example_datetime_valid
    by (simp_all add: example_rtc_def date_ok_def example_datetime_def max_day_def days_in_month_def)
  have d: "rs_datetime example_rtc = example_datetime" "rs_last_hw_read_us example_rtc = 1000000"
    by (simp_all add: example_rtc_def)
  show ?thesis
    using rtc_current_seconds[OF p, of zero_datetime] by (simp add: d split: prod.splits option.splits)
qed

section \<open>Cron matching\<close>

text \<open>What a field of a valid expression asks of a value.\<close>

definition cron_field_is :: "string \<Rightarrow> int \<Rightarrow> bool" where
  "cron_field_is f v = (f = ''*'' \<or> sint (cron_value f) = v)"

lemma cron_field_ok_matches:
  assumes "s = [] \<or> not_space (hd s)" "cron_field_ok s lo hi = Some rest"
  shows "cron_field_matches s v = (cron_field_is (takeWhile not_space s) v, rest)"
proof -
  have ok: "s \<noteq> []" "cron_field_spec (lo, hi) (takeWhile not_space s)"
    "rest = skip_spaces (dropWhile not_space s)"
    using assms by (auto simp: cron_field_ok_eq split: if_splits)
  show ?thesis
  proof (cases "hd s = CHR ''*''")
    case True
    then obtain p where s: "s = CHR ''*'' # p" using ok(1) by (cases s) auto
    have "list_all is_digit_c (takeWhile not_space s) \<Longrightarrow> False" by (simp add: s)
    then have "takeWhile not_space s = ''*''"
      using ok(2) by (auto simp: cron_field_spec_def)
    then show ?thesis
      using ok(3) star_field[of p] star_rest[of p]
      by (simp add: s cron_field_matches_def cron_field_is_def)
  next
    case False
    then obtain c p where s: "s = c # p" "c \<noteq> CHR ''*''" using ok(1) by (cases s) auto
    have "takeWhile not_space s \<noteq> ''*''" using s assms(1) by auto
    then have d: "list_all is_digit_c (takeWhile not_space s)"
      using ok(2) by (auto simp: cron_field_spec_def)
    then have e: "char_at (dropWhile is_digit_c s) 0 \<in> {None, Some (CHR '' '')}"
      using not_digits_field by blast
    have "char_at s 0 \<noteq> Some (CHR ''*'')" using s by simp
    then have "cron_field_matches s v =
        (sint (fst (cron_number 0 s)) = v, skip_spaces (snd (cron_number 0 s)))"
      by (simp add: cron_field_matches_def split_beta)
    then show ?thesis
      using ok(3) digits_field[OF e] \<open>takeWhile not_space s \<noteq> ''*''\<close>
      by (simp add: cron_number_eq cron_field_is_def cron_value_def)
  qed
qed

fun cron_all_match :: "string \<Rightarrow> int list \<Rightarrow> bool" where
  "cron_all_match p [] = True"
| "cron_all_match p (v # vs) = (let (ok, p) = cron_field_matches p v in ok \<and> cron_all_match p vs)"

definition cron_weekday :: "rtc_datetime \<Rightarrow> int" where
  "cron_weekday dt = uint ((word_of_int (datetime_days dt) + 4 :: 32 word) mod 7)"

lemma cron_matches_all:
  "cron_matches cron dt = cron_all_match cron [minute dt, hour dt, day dt, month dt, cron_weekday dt]"
  by (simp add: cron_matches_def cron_weekday_def datetime_days_def Let_def split: prod.split)

lemma cron_all_match_iff:
  "s = [] \<or> not_space (hd s) \<Longrightarrow> cron_fields_ok rs s \<Longrightarrow> length vs = length rs \<Longrightarrow>
     cron_all_match s vs \<longleftrightarrow> list_all2 cron_field_is (cron_fields s) vs"
proof (induction rs arbitrary: s vs)
  case Nil
  then show ?case by (cases s) (auto simp: cron_fields_def)
next
  case (Cons r rs)
  obtain lo hi where r: "r = (lo, hi)" by (cases r)
  obtain v vs' where vs: "vs = v # vs'" using Cons.prems(3) by (cases vs) auto
  obtain rest where rest: "cron_field_ok s lo hi = Some rest" "cron_fields_ok rs rest"
    using Cons.prems(2) by (auto simp: r split: option.splits)
  then have s: "s \<noteq> []" "rest = skip_spaces (dropWhile not_space s)"
    using Cons.prems(1) by (auto simp: cron_field_ok_eq split: if_splits)
  then have "char_at s 0 \<noteq> Some (CHR '' '')" using Cons.prems(1) by (cases s) auto
  then have "cron_fields s = takeWhile not_space s # cron_fields rest"
    using s by (simp add: cron_fields_step)
  moreover have "cron_all_match rest vs' \<longleftrightarrow> list_all2 cron_field_is (cron_fields rest) vs'"
    using Cons.IH[of rest vs'] rest(2) s(2) Cons.prems(3) vs skip_spaces_start by simp
  ultimately show ?case
    using cron_field_ok_matches[OF Cons.prems(1) rest(1)] by (simp add: vs)
qed

lemma year_days_bounds: "2000 \<le> y + 1 \<Longrightarrow> y \<le> 9999 \<Longrightarrow> 728000 \<le> year_days y \<and> year_days y \<le> 4000000"
proof -
  assume y: "2000 \<le> y + 1" "y \<le> 9999"
  have "y div 100 \<le> y div 4" using zdiv_mono2[of y 4 100] y by simp
  moreover have "0 \<le> y div 100" "0 \<le> y div 400" "y div 400 \<le> y" "y div 4 \<le> y"
    using y zdiv_mono2[of y 1 400] zdiv_mono2[of y 1 4] by (simp_all add: pos_imp_zdiv_nonneg_iff)
  ultimately show ?thesis using y unfolding year_days_def by linarith
qed

lemma cron_weekday_eq:
  assumes "rtc_datetime_valid (Some dt)" "year dt \<le> 9999"
  shows "cron_weekday dt = (datetime_days dt + 4) mod 7"
proof -
  have v: "2000 \<le> year dt" "1 \<le> month dt" "month dt \<le> 12" "1 \<le> day dt" "day dt \<le> 31"
    using assms(1) by (auto simp: rtc_datetime_valid_def)
  have "0 \<le> month_days (month dt)" "month_days (month dt) \<le> 400"
    using twelve_months[OF v(2,3)] by (auto simp: month_days_def)
  moreover have "728000 \<le> year_days (year dt - (if month dt \<le> 2 then 1 else 0))"
    "year_days (year dt - (if month dt \<le> 2 then 1 else 0)) \<le> 4000000"
    using year_days_bounds[of "year dt - (if month dt \<le> 2 then 1 else 0)"] v assms(2) by (auto split: if_splits)
  ultimately have "0 \<le> datetime_days dt" "datetime_days dt < 4000000"
    using v by (simp_all add: datetime_days_def days_from_civil_eq)
  then have "uint (word_of_int (datetime_days dt) + 4 :: 32 word) = datetime_days dt + 4"
    by (simp add: uint_word_ariths uint_word_of_int)
  then show ?thesis by (simp add: cron_weekday_def uint_mod)
qed

text \<open>C20: for a cron expression the manifest check accepts, the scheduler's matcher holds at
  a date and time exactly when each of the five fields is a star or the number of
  the minute, hour, day, month and weekday; the weekday counts from Sunday,
  1970-01-01 being a Thursday.\<close>

theorem cron_matches_iff:
  assumes "is_valid_cron (Some cron)" "rtc_datetime_valid (Some dt)" "year dt \<le> 9999"
  shows "cron_matches cron dt \<longleftrightarrow>
     list_all2 cron_field_is (cron_fields cron)
       [minute dt, hour dt, day dt, month dt, (datetime_days dt + 4) mod 7]"
proof -
  have c: "cron \<noteq> []" "hd cron \<noteq> CHR '' ''" using assms(1) by (auto simp: is_valid_cron_grammar)
  have "cron_fields_ok cron_ranges cron" using assms(1) by (simp add: is_valid_cron_def split: if_splits)
  then show ?thesis
    using cron_all_match_iff[of cron cron_ranges "[minute dt, hour dt, day dt, month dt, cron_weekday dt]"] c
    by (simp add: cron_matches_all cron_weekday_eq[OF assms(2,3)] cron_ranges_def)
qed

theorem cron_matches_iff_witness: "\<not> cron_matches ''59 23 28 2 0'' example_datetime"
proof -
  have "is_valid_cron (Some ''59 23 28 2 0'')" by code_simp
  moreover have "(datetime_days example_datetime + 4) mod 7 = 3"
    by (simp add: datetime_days_def example_datetime_def days_from_civil_eq year_days_def month_days_def)
  moreover have "year example_datetime \<le> 9999" by (simp add: example_datetime_def)
  ultimately show ?thesis
    using cron_matches_iff[of "''59 23 28 2 0''" example_datetime] example_datetime_valid
    by (simp add: cron_fields_def cron_field_is_def cron_value_def ord_def)
qed

section \<open>The table\<close>

text \<open>What the fixed-size table can hold.\<close>

definition bg_inv :: "bg_entry list \<Rightarrow> bool" where
  "bg_inv entries =
     (length entries \<le> 8 \<and>
      list_all (\<lambda>e. length (be_app_id e) \<le> 31 \<and> length (be_task e) \<le> 31 \<and> length (be_cron e) \<le> 23) entries)"

lemma copied_32 [simp]: "copied 32 (Some x) = take 31 x"
  by (simp add: copied_def str_copy_def)

lemma copied_24 [simp]: "copied 24 (Some x) = take 23 x"
  by (simp add: copied_def str_copy_def)

lemma copied_length: "length (copied 32 s) \<le> 31" "length (copied 24 s) \<le> 23"
  by (simp_all add: copied_def str_copy_def split: option.split)

lemma drop_app_eq:
  "drop_app app es =
     (map (\<lambda>e. (be_last_run e, take 31 (be_task e))) (filter (\<lambda>e. be_app_id e = app) es),
      filter (\<lambda>e. be_app_id e \<noteq> app) es)"
  by (induction es) simp_all

lemma add_tasks_eq:
  "add_tasks app prev es ts = es @ map (new_entry app prev) (take (8 - length es) ts)"
proof (induction app prev es ts rule: add_tasks.induct)
  case (2 app prev entries t ts)
  then show ?case
    by (cases "length entries \<ge> 8") (simp_all add: BG_SCHEDULE_MAX_def take_Cons')
qed simp

lemma load_entries_inv: "bg_inv es \<Longrightarrow> bg_inv (load_entries es js)"
  by (induction es js rule: load_entries.induct)
     (auto simp: bg_inv_def BG_SCHEDULE_MAX_def copied_length split: option.split)

lemma load_save:
  "length es + length xs \<le> 8 \<Longrightarrow> bg_inv xs \<Longrightarrow> load_entries es (save_schedule xs) = es @ xs"
proof (induction xs arbitrary: es)
  case (Cons x xs)
  have "bg_inv xs" using Cons.prems(2) by (simp add: bg_inv_def)
  with Cons show ?case
    by (simp add: save_schedule_def BG_SCHEDULE_MAX_def bg_inv_def)
qed (simp add: save_schedule_def)

interpretation schedule_file: codec save_schedule "\<lambda>js. bg_scheduler_init (Some js)" bg_inv
  by unfold_locales (auto simp: bg_scheduler_init_def load_save bg_inv_def)

lemma new_entry_sizes:
  "length (be_app_id (new_entry app prev t)) \<le> 31" "length (be_task (new_entry app prev t)) \<le> 31"
  "length (be_cron (new_entry app prev t)) \<le> 23"
  by (simp_all add: new_entry_def copied_length)

lemma sync_inv: "bg_inv es \<Longrightarrow> bg_inv (fst (bg_scheduler_sync_app es app ts))"
proof (cases app)
  case (Some a)
  assume inv: "bg_inv es"
  have "length (filter (\<lambda>e. be_app_id e \<noteq> a) es) \<le> 8"
    using inv by (auto simp: bg_inv_def intro: le_trans[OF length_filter_le])
  moreover have "list_all (\<lambda>e. length (be_app_id e) \<le> 31 \<and> length (be_task e) \<le> 31 \<and>
      length (be_cron e) \<le> 23) (filter (\<lambda>e. be_app_id e \<noteq> a) es)"
    using inv by (auto simp: bg_inv_def list_all_iff)
  ultimately show ?thesis
    by (simp add: Some bg_scheduler_sync_app_def Let_def drop_app_eq add_tasks_eq bg_inv_def list_all_iff)
       (auto simp: new_entry_sizes)
qed (simp add: bg_scheduler_sync_app_def)

lemma mark_first_length [simp]: "length (mark_first es app task t) = length es"
  by (induction es app task t rule: mark_first.induct) simp_all

lemma mark_first_inv: "bg_inv es \<Longrightarrow> bg_inv (mark_first es app task t)"
  by (induction es app task t rule: mark_first.induct) (auto simp: bg_inv_def)

datatype bg_op =
    Bg_Sync cstr "bg_task list" | Bg_Mark "rtc_state option" int cstr cstr

fun bg_step :: "bg_entry list \<Rightarrow> bg_op \<Rightarrow> bg_json list option \<times> bg_entry list" where
  "bg_step es (Bg_Sync app ts) = (let (es, f) = bg_scheduler_sync_app es app ts in (f, es))"
| "bg_step es (Bg_Mark rtc t app task) = (let (es, f) = bg_scheduler_mark_run es rtc t app task in (f, es))"

interpretation bg: kept_invariant bg_step bg_inv
  by unfold_locales
     (case_tac op; simp add: split_beta sync_inv bg_scheduler_mark_run_def Let_def mark_first_inv)

section \<open>Properties of the table\<close>

text \<open>the schedule survives a restart: whatever was loaded and whatever operations
  followed, the file the last operation wrote loads back as exactly the table in
  memory, which has at most eight entries.\<close>

theorem schedule_restart:
  "let es = run_ops bg_step (bg_scheduler_init file) ops in
     length es \<le> 8 \<and>
     (case fst (bg_step es op) of
        None \<Rightarrow> snd (bg_step es op) = es
      | Some written \<Rightarrow> bg_scheduler_init (Some written) = snd (bg_step es op))"
proof -
  let ?es = "run_ops bg_step (bg_scheduler_init file) ops"
  have "bg_inv (bg_scheduler_init file)"
    by (auto simp: bg_scheduler_init_def bg_inv_def[of "[]"] load_entries_inv split: option.split)
  then have inv: "bg_inv ?es" by (rule bg.run_inv)
  have w: "fst (bg_step ?es op) = Some j \<Longrightarrow> j = save_schedule (snd (bg_step ?es op))" for j
    by (cases op) (auto simp: bg_scheduler_sync_app_def bg_scheduler_mark_run_def Let_def
        split: option.splits prod.splits)
  have n: "fst (bg_step ?es op) = None \<Longrightarrow> snd (bg_step ?es op) = ?es"
    by (cases op) (auto simp: bg_scheduler_sync_app_def bg_scheduler_mark_run_def Let_def
        split: option.splits prod.splits)
  show ?thesis
    using inv n w schedule_file.dec_enc[OF bg.step_inv[OF inv, of op]]
    by (auto simp: Let_def bg_inv_def split: option.split)
qed

text \<open>synchronising an app replaces its entries: the entries of the other apps stay, in
  their order, then come the app's tasks as far as the table has room; a task that
  was scheduled before under the same name keeps its last run.\<close>

theorem sync_app_replaces:
  assumes "length app \<le> 31"
  shows "\<exists>new. fst (bg_scheduler_sync_app es (Some app) ts) = filter (\<lambda>e. be_app_id e \<noteq> app) es @ new \<and>
     length new = min (length ts) (8 - length (filter (\<lambda>e. be_app_id e \<noteq> app) es)) \<and>
     list_all2 (\<lambda>e t. be_app_id e = app \<and> be_interval_s e = word_of_nat (bt_interval_s t) \<and>
         be_last_run e =
           (case filter (\<lambda>x. be_app_id x = app \<and> Some (take 31 (be_task x)) = bt_name t) es of
              [] \<Rightarrow> 0 | x # _ \<Rightarrow> be_last_run x))
       new (take (8 - length (filter (\<lambda>e. be_app_id e \<noteq> app) es)) ts)"
proof -
  let ?kept = "filter (\<lambda>e. be_app_id e \<noteq> app) es"
  let ?prev = "map (\<lambda>e. (be_last_run e, take 31 (be_task e))) (filter (\<lambda>e. be_app_id e = app) es)"
  have p: "prev_run (map (\<lambda>e. (be_last_run e, take 31 (be_task e))) (filter (\<lambda>e. be_app_id e = app) xs)) nm =
      (case filter (\<lambda>x. be_app_id x = app \<and> Some (take 31 (be_task x)) = nm) xs of
         [] \<Rightarrow> 0 | x # _ \<Rightarrow> be_last_run x)" for xs nm
    by (induction xs) (cases nm; auto)+
  show ?thesis
    using assms p[of es]
    by (intro exI[of _ "map (new_entry app ?prev) (take (8 - length ?kept) ts)"])
       (simp add: bg_scheduler_sync_app_def Let_def drop_app_eq add_tasks_eq list.rel_map list_all2_same
        new_entry_def)
qed

definition example_task :: bg_task where
  "example_task = \<lparr> bt_name = Some ''sync'', bt_interval_s = 3600, bt_cron = None \<rparr>"

theorem sync_app_replaces_witness:
  "\<exists>new. fst (bg_scheduler_sync_app [] (Some ''notes'') [example_task]) = new \<and> length new = 1"
proof -
  have "length ''notes'' \<le> 31" by simp
  from sync_app_replaces[OF this, of "[]" "[example_task]"] show ?thesis by auto
qed

text \<open>the identifier of an entry is cut to 31 characters but compared in full: an app whose id is
  longer never has its old entries removed by a synchronisation.\<close>

theorem sync_long_id_keeps_all:
  assumes "bg_inv es" "32 \<le> length app"
  shows "take (length es) (fst (bg_scheduler_sync_app es (Some app) ts)) = es"
proof -
  have "filter (\<lambda>e. be_app_id e \<noteq> app) es = es"
    using assms by (auto simp: bg_inv_def list_all_iff filter_id_conv)
  then show ?thesis by (simp add: bg_scheduler_sync_app_def Let_def drop_app_eq add_tasks_eq)
qed

theorem sync_long_id_keeps_all_witness:
  "take 1 (fst (bg_scheduler_sync_app
     [new_entry ''app.with.a.very.long.identifier.xyz'' [] example_task]
     (Some ''app.with.a.very.long.identifier.xyz'') [])) =
   [new_entry ''app.with.a.very.long.identifier.xyz'' [] example_task]"
proof -
  have "bg_inv [new_entry ''app.with.a.very.long.identifier.xyz'' [] example_task]"
    by (simp add: bg_inv_def new_entry_def example_task_def)
  from sync_long_id_keeps_all[OF this, of "''app.with.a.very.long.identifier.xyz''" "[]"]
  show ?thesis by simp
qed

end
