(* ===== verification/Keypad.thy ===== *)
theory Keypad
  imports Strings
begin

text \<open>
  src/jpp_keypad_core.c: the detector of the five-key resistor keypad. A poll
  turns one ADC sample into at most two events: debounced presses and releases,
  repeats, and for the OK key short, long and double clicks.

  Keys are the strings of the configured bands, which are distinct; the code
  compares the pointers of those strings. Times are C ints counted in
  milliseconds from the number of polls; they are unbounded here, which is the
  code's arithmetic for the first 2^31 milliseconds of polling. A poll returns
  whether it succeeded (False is the code's -1), the events written and the
  state.
\<close>

datatype keypad_event_kind =
    KIND_NO_EVENT | KIND_PRESS | KIND_RELEASE | KIND_REPEAT | KIND_OK_SHORT | KIND_OK_LONG
  | KIND_OK_DOUBLE

record keypad_band =
  kb_key :: cstr
  kb_center_uv :: int
  kb_tolerance_uv :: int
  kb_repeatable :: bool

record keypad_config =
  kc_enabled :: bool
  kc_calibration_uv :: int
  kc_hysteresis_uv :: int
  kc_debounce_samples :: int
  kc_long_press_ms :: int
  kc_poll_interval_ms :: int
  kc_repeat_enabled :: bool
  kc_repeat_delay_ms :: int
  kc_repeat_interval_ms :: int
  kc_detect_double_click :: bool
  kc_double_click_ms :: int
  kc_bands :: "keypad_band list"

record keypad_event =
  ke_kind :: keypad_event_kind
  ke_key :: string
  ke_mapped :: string
  ke_duration_ms :: int

record keypad_state =
  kp_ready :: bool
  kp_enabled :: bool
  kp_calibration_uv :: int
  kp_hysteresis_uv :: int
  kp_debounce_samples :: int
  kp_long_press_ms :: int
  kp_poll_interval_ms :: int
  kp_repeat_enabled :: bool
  kp_repeat_delay_ms :: int
  kp_repeat_interval_ms :: int
  kp_stable_key :: cstr
  kp_candidate_key :: cstr
  kp_candidate_count :: int
  kp_press_started_ms :: int
  kp_last_repeat_ms :: int
  kp_ok_long_emitted :: bool
  kp_sample_index :: nat
  kp_short_pending :: bool
  kp_pending_release_ms :: int

type_synonym kp_result = "bool \<times> keypad_event list \<times> keypad_state"

section \<open>Configuration\<close>

definition default_bands :: "keypad_band list" where
  "default_bands =
     [\<lparr> kb_key = Some ''UP'', kb_center_uv = 120000, kb_tolerance_uv = 40000, kb_repeatable = True \<rparr>,
      \<lparr> kb_key = Some ''DOWN'', kb_center_uv = 300000, kb_tolerance_uv = 40000, kb_repeatable = True \<rparr>,
      \<lparr> kb_key = Some ''LEFT'', kb_center_uv = 500000, kb_tolerance_uv = 40000, kb_repeatable = True \<rparr>,
      \<lparr> kb_key = Some ''RIGHT'', kb_center_uv = 700000, kb_tolerance_uv = 40000, kb_repeatable = True \<rparr>,
      \<lparr> kb_key = Some ''OK'', kb_center_uv = 900000, kb_tolerance_uv = 40000, kb_repeatable = False \<rparr>]"

text \<open>A NULL band array and an empty one are both the empty list.\<close>

definition config_bands :: "keypad_config option \<Rightarrow> keypad_band list" where
  "config_bands config =
     (case config of
        Some c \<Rightarrow> if kc_bands c \<noteq> [] then kc_bands c else default_bands
      | None \<Rightarrow> default_bands)"

definition config_hysteresis_uv :: "keypad_config option \<Rightarrow> int" where
  "config_hysteresis_uv config =
     (case config of None \<Rightarrow> 20000
      | Some c \<Rightarrow> if kc_hysteresis_uv c > 0 then kc_hysteresis_uv c else 0)"

definition config_debounce_samples :: "keypad_config option \<Rightarrow> int" where
  "config_debounce_samples config =
     (case config of None \<Rightarrow> 2 | Some c \<Rightarrow> if kc_debounce_samples c < 1 then 2 else kc_debounce_samples c)"

definition config_long_press_ms :: "keypad_config option \<Rightarrow> int" where
  "config_long_press_ms config =
     (case config of None \<Rightarrow> 700 | Some c \<Rightarrow> if kc_long_press_ms c < 1 then 700 else kc_long_press_ms c)"

definition config_poll_interval_ms :: "keypad_config option \<Rightarrow> int" where
  "config_poll_interval_ms config =
     (case config of None \<Rightarrow> 100
      | Some c \<Rightarrow> if kc_poll_interval_ms c < 1 then 100 else kc_poll_interval_ms c)"

definition config_repeat_delay_ms :: "keypad_config option \<Rightarrow> int" where
  "config_repeat_delay_ms config =
     (case config of None \<Rightarrow> 500
      | Some c \<Rightarrow> if kc_repeat_delay_ms c < 1 then 500 else kc_repeat_delay_ms c)"

definition config_repeat_interval_ms :: "keypad_config option \<Rightarrow> int" where
  "config_repeat_interval_ms config =
     (case config of None \<Rightarrow> 500
      | Some c \<Rightarrow> if kc_repeat_interval_ms c < 1 then 500 else kc_repeat_interval_ms c)"

definition config_detect_double_click :: "keypad_config option \<Rightarrow> bool" where
  "config_detect_double_click config =
     (case config of None \<Rightarrow> False | Some c \<Rightarrow> kc_detect_double_click c)"

definition config_double_click_ms :: "keypad_config option \<Rightarrow> int" where
  "config_double_click_ms config =
     (case config of None \<Rightarrow> 300
      | Some c \<Rightarrow> if kc_double_click_ms c < 1 then 300 else kc_double_click_ms c)"

section \<open>Events\<close>

definition mk_event :: "keypad_event_kind \<Rightarrow> string \<Rightarrow> string \<Rightarrow> int \<Rightarrow> keypad_event" where
  "mk_event kind key mapped duration =
     \<lparr> ke_kind = kind, ke_key = key, ke_mapped = mapped, ke_duration_ms = duration \<rparr>"

text \<open>The guard in front of every write to the event array, and the write: the state is
  changed first only when there is room.\<close>

definition emit ::
  "nat \<Rightarrow> keypad_event list \<Rightarrow> keypad_event \<Rightarrow> keypad_state \<Rightarrow> keypad_state \<Rightarrow> kp_result" where
  "emit cap events ev s s' =
     (if length events \<ge> cap then (False, events, s) else (True, events @ [ev], s'))"

definition check_pending_short ::
  "keypad_state \<Rightarrow> keypad_config option \<Rightarrow> int \<Rightarrow> nat \<Rightarrow> keypad_event list \<Rightarrow> kp_result" where
  "check_pending_short s config now_ms cap events =
     (if \<not> kp_short_pending s then (True, events, s)
      else if config_detect_double_click config \<and>
              now_ms - kp_pending_release_ms s < config_double_click_ms config
      then (True, events, s)
      else emit cap events (mk_event KIND_OK_SHORT ''OK'' ''OK'' 0) s (s\<lparr> kp_short_pending := False \<rparr>))"

fun find_band :: "keypad_band list \<Rightarrow> string \<Rightarrow> keypad_band option" where
  "find_band [] key = None"
| "find_band (b # bs) key = (if kb_key b = Some key then Some b else find_band bs key)"

definition band_by_key :: "keypad_config option \<Rightarrow> cstr \<Rightarrow> keypad_band option" where
  "band_by_key config key =
     (case key of None \<Rightarrow> None | Some k \<Rightarrow> find_band (config_bands config) k)"

definition band_tolerance :: "keypad_band \<Rightarrow> int" where
  "band_tolerance b = (if kb_tolerance_uv b > 0 then kb_tolerance_uv b else 1)"

text \<open>The loop over the bands: the best match so far with its distance.\<close>

fun best_band :: "int \<Rightarrow> (keypad_band \<times> int) option \<Rightarrow> keypad_band list \<Rightarrow> keypad_band option" where
  "best_band adjusted best [] = map_option fst best"
| "best_band adjusted best (b # bs) =
     (let distance = \<bar>adjusted - kb_center_uv b\<bar>
      in if distance \<le> band_tolerance b \<and>
            (case best of None \<Rightarrow> True | Some (_, bd) \<Rightarrow> distance < bd)
         then best_band adjusted (Some (b, distance)) bs
         else best_band adjusted best bs)"

definition match_band :: "keypad_state \<Rightarrow> keypad_config option \<Rightarrow> int \<Rightarrow> keypad_band option" where
  "match_band s config adjusted_uv =
     (case best_band adjusted_uv None (config_bands config) of
        Some b \<Rightarrow> Some b
      | None \<Rightarrow>
          (case band_by_key config (kp_stable_key s) of
             None \<Rightarrow> None
           | Some b \<Rightarrow>
               if \<bar>adjusted_uv - kb_center_uv b\<bar> \<le> band_tolerance b + config_hysteresis_uv config
               then Some b else None))"

definition emit_repeat_if_needed ::
  "keypad_state \<Rightarrow> keypad_config option \<Rightarrow> string \<Rightarrow> int \<Rightarrow> nat \<Rightarrow> keypad_event list \<Rightarrow> kp_result" where
  "emit_repeat_if_needed s config key now_ms cap events =
     (if (case config of None \<Rightarrow> False | Some c \<Rightarrow> \<not> kc_repeat_enabled c) then (True, events, s)
      else
        (case band_by_key config (Some key) of
           None \<Rightarrow> (True, events, s)
         | Some b \<Rightarrow>
             if \<not> kb_repeatable b \<or> kp_press_started_ms s < 0 then (True, events, s)
             else if now_ms - kp_press_started_ms s < config_repeat_delay_ms config
             then (True, events, s)
             else
               let s = (if kp_last_repeat_ms s < 0
                        then s\<lparr> kp_last_repeat_ms := kp_press_started_ms s + config_repeat_delay_ms config \<rparr>
                        else s)
               in if now_ms - kp_last_repeat_ms s < config_repeat_interval_ms config
                  then (True, events, s)
                  else emit cap events (mk_event KIND_REPEAT key key 0) s
                         (s\<lparr> kp_last_repeat_ms := now_ms \<rparr>)))"

definition finalize_release ::
  "keypad_state \<Rightarrow> keypad_config option \<Rightarrow> string \<Rightarrow> int \<Rightarrow> nat \<Rightarrow> keypad_event list \<Rightarrow> kp_result" where
  "finalize_release s config previous_key now_ms cap events =
     (if kp_press_started_ms s < 0 then (True, events, s)
      else
        let duration_ms = max 0 (now_ms - kp_press_started_ms s)
        in if previous_key = ''OK'' then
             (if duration_ms \<ge> config_long_press_ms config then
                (if \<not> kp_ok_long_emitted s
                 then emit cap events (mk_event KIND_OK_LONG previous_key ''HOLD'' duration_ms) s s
                 else (True, events, s))
              else if \<not> config_detect_double_click config then
                emit cap events (mk_event KIND_OK_SHORT previous_key ''OK'' duration_ms) s s
              else if kp_short_pending s \<and>
                      now_ms - kp_pending_release_ms s \<le> config_double_click_ms config then
                emit cap events (mk_event KIND_OK_DOUBLE previous_key ''DOUBLE'' duration_ms) s
                  (s\<lparr> kp_short_pending := False \<rparr>)
              else (True, events, s\<lparr> kp_short_pending := True, kp_pending_release_ms := now_ms \<rparr>))
           else emit cap events (mk_event KIND_RELEASE previous_key previous_key duration_ms) s s)"

definition reset_hold_state :: "keypad_state \<Rightarrow> keypad_state" where
  "reset_hold_state s =
     s\<lparr> kp_press_started_ms := -1, kp_last_repeat_ms := -1, kp_ok_long_emitted := False \<rparr>"

definition keypad_state_init :: "keypad_config option \<Rightarrow> keypad_state" where
  "keypad_state_init config =
     (let en = (case config of None \<Rightarrow> True | Some c \<Rightarrow> kc_enabled c)
      in \<lparr> kp_ready = en, kp_enabled = en,
           kp_calibration_uv = (case config of None \<Rightarrow> 0 | Some c \<Rightarrow> kc_calibration_uv c),
           kp_hysteresis_uv = (case config of None \<Rightarrow> 20000 | Some c \<Rightarrow> kc_hysteresis_uv c),
           kp_debounce_samples = (case config of None \<Rightarrow> 2 | Some c \<Rightarrow> kc_debounce_samples c),
           kp_long_press_ms = (case config of None \<Rightarrow> 700 | Some c \<Rightarrow> kc_long_press_ms c),
           kp_poll_interval_ms = (case config of None \<Rightarrow> 100 | Some c \<Rightarrow> kc_poll_interval_ms c),
           kp_repeat_enabled = (case config of None \<Rightarrow> True | Some c \<Rightarrow> kc_repeat_enabled c),
           kp_repeat_delay_ms = (case config of None \<Rightarrow> 450 | Some c \<Rightarrow> kc_repeat_delay_ms c),
           kp_repeat_interval_ms = (case config of None \<Rightarrow> 150 | Some c \<Rightarrow> kc_repeat_interval_ms c),
           kp_stable_key = None, kp_candidate_key = None, kp_candidate_count = 0,
           kp_press_started_ms = -1, kp_last_repeat_ms = -1, kp_ok_long_emitted = False,
           kp_sample_index = 0, kp_short_pending = False, kp_pending_release_ms = -1 \<rparr>)"

definition keypad_event_kind_name :: "keypad_event_kind \<Rightarrow> string" where
  "keypad_event_kind_name k =
     (case k of KIND_NO_EVENT \<Rightarrow> ''NO_EVENT'' | KIND_PRESS \<Rightarrow> ''PRESS'' | KIND_RELEASE \<Rightarrow> ''RELEASE''
      | KIND_REPEAT \<Rightarrow> ''REPEAT'' | KIND_OK_SHORT \<Rightarrow> ''OK_SHORT'' | KIND_OK_LONG \<Rightarrow> ''OK_LONG''
      | KIND_OK_DOUBLE \<Rightarrow> ''OK_DOUBLE'')"

section \<open>The poll\<close>

text \<open>Counting the sample at the end of a successful branch.\<close>

definition next_sample :: "kp_result \<Rightarrow> kp_result" where
  "next_sample r =
     (case r of (ok, events, s) \<Rightarrow>
        if ok then (True, events, s\<lparr> kp_sample_index := kp_sample_index s + 1 \<rparr>) else r)"

definition after_reset :: "kp_result \<Rightarrow> kp_result" where
  "after_reset r = (case r of (ok, events, s) \<Rightarrow> if ok then (True, events, reset_hold_state s) else r)"

text \<open>No sample: an immediate release of the stable key.\<close>

definition poll_absent ::
  "keypad_state \<Rightarrow> keypad_config option \<Rightarrow> int \<Rightarrow> nat \<Rightarrow> keypad_event list \<Rightarrow> kp_result" where
  "poll_absent s config now_ms cap events =
     (case kp_stable_key s of
        None \<Rightarrow> next_sample (True, events, s)
      | Some previous_key \<Rightarrow>
          let s = s\<lparr> kp_stable_key := None, kp_candidate_key := None, kp_candidate_count := 0 \<rparr>
          in next_sample (after_reset (finalize_release s config previous_key now_ms cap events)))"

text \<open>The candidate is the stable key: holds and repeats.\<close>

definition poll_held ::
  "keypad_state \<Rightarrow> keypad_config option \<Rightarrow> cstr \<Rightarrow> int \<Rightarrow> nat \<Rightarrow> keypad_event list \<Rightarrow> kp_result" where
  "poll_held s config candidate_key now_ms cap events =
     next_sample
       (case candidate_key of
          None \<Rightarrow> (True, events, s)
        | Some key \<Rightarrow>
            let s = (if kp_press_started_ms s < 0 then s\<lparr> kp_press_started_ms := now_ms \<rparr> else s)
            in if key = ''OK'' then
                 let duration_ms = now_ms - kp_press_started_ms s
                 in if duration_ms \<ge> config_long_press_ms config \<and> \<not> kp_ok_long_emitted s then
                      emit cap events (mk_event KIND_OK_LONG key ''HOLD'' duration_ms) s
                        (s\<lparr> kp_ok_long_emitted := True \<rparr>)
                    else if kp_ok_long_emitted s \<and>
                            now_ms - kp_press_started_ms s \<ge>
                              config_long_press_ms config + config_repeat_delay_ms config \<and>
                            now_ms - kp_last_repeat_ms s \<ge> config_repeat_interval_ms config then
                      emit cap events (mk_event KIND_REPEAT key ''HOLD'' 0) s
                        (s\<lparr> kp_last_repeat_ms := now_ms \<rparr>)
                    else (True, events, s)
               else emit_repeat_if_needed s config key now_ms cap events)"

text \<open>The candidate has been debounced and becomes the stable key.\<close>

definition poll_changed ::
  "keypad_state \<Rightarrow> keypad_config option \<Rightarrow> cstr \<Rightarrow> int \<Rightarrow> nat \<Rightarrow> keypad_event list \<Rightarrow> kp_result" where
  "poll_changed s config candidate_key now_ms cap events =
     (let previous_key = kp_stable_key s;
          s = s\<lparr> kp_stable_key := candidate_key, kp_candidate_count := 0 \<rparr>
      in case candidate_key of
           None \<Rightarrow>
             (case (case previous_key of
                      None \<Rightarrow> (True, events, s)
                    | Some pk \<Rightarrow> finalize_release s config pk now_ms cap events) of
                (ok, events, s) \<Rightarrow>
                  if \<not> ok then (False, events, s)
                  else next_sample (True, events, reset_hold_state (s\<lparr> kp_candidate_key := None \<rparr>)))
         | Some key \<Rightarrow>
             let s = s\<lparr> kp_press_started_ms := now_ms, kp_last_repeat_ms := now_ms,
                        kp_ok_long_emitted := False \<rparr>
             in case (if key \<noteq> ''OK'' then emit cap events (mk_event KIND_PRESS key key 0) s s
                      else (True, events, s)) of
                  (ok, events, s) \<Rightarrow>
                    if \<not> ok then (False, events, s)
                    else next_sample (True, events, s\<lparr> kp_candidate_key := candidate_key \<rparr>))"

definition poll_now :: "keypad_state \<Rightarrow> keypad_config option \<Rightarrow> int" where
  "poll_now s config = int (kp_sample_index s) * config_poll_interval_ms config"

definition keypad_poll ::
  "keypad_state \<Rightarrow> keypad_config option \<Rightarrow> int \<Rightarrow> bool \<Rightarrow> nat \<Rightarrow> kp_result" where
  "keypad_poll s config sample_uv sample_present cap =
     (if \<not> kp_enabled s \<or> (case config of None \<Rightarrow> False | Some c \<Rightarrow> \<not> kc_enabled c) then (True, [], s)
      else
        let now_ms = poll_now s config
        in case check_pending_short s config now_ms cap [] of
             (ok, events, s) \<Rightarrow>
               if \<not> ok then (False, events, s)
               else if \<not> sample_present then poll_absent s config now_ms cap events
               else
                 let adjusted_uv = sample_uv + kp_calibration_uv s;
                     candidate_key = (case match_band s config adjusted_uv of
                                        None \<Rightarrow> None | Some b \<Rightarrow> kb_key b)
                 in if candidate_key = kp_stable_key s
                    then poll_held s config candidate_key now_ms cap events
                    else if candidate_key = kp_candidate_key s then
                      (let s = s\<lparr> kp_candidate_count := kp_candidate_count s + 1 \<rparr>
                       in if kp_candidate_count s < config_debounce_samples config
                          then next_sample (True, events, s)
                          else poll_changed s config candidate_key now_ms cap events)
                    else next_sample
                      (True, events, s\<lparr> kp_candidate_key := candidate_key, kp_candidate_count := 1 \<rparr>))"

section \<open>What a poll keeps\<close>

lemma config_poll_interval_pos: "0 < config_poll_interval_ms config"
  by (auto simp: config_poll_interval_ms_def split: option.split)

lemma poll_now_nonneg: "0 \<le> poll_now s config"
  using config_poll_interval_pos[of config] by (simp add: poll_now_def)

text \<open>A hold is timed exactly while a key is down.\<close>

definition keypad_inv :: "keypad_state \<Rightarrow> bool" where
  "keypad_inv s = ((kp_stable_key s = None) = (kp_press_started_ms s < 0))"

definition pending :: "keypad_state \<Rightarrow> nat" where
  "pending s = (if kp_short_pending s then 1 else 0)"

text \<open>The clicks an event stands for.\<close>

definition clicks_reported :: "keypad_event list \<Rightarrow> nat" where
  "clicks_reported ev =
     sum_list (map (\<lambda>e. case ke_kind e of KIND_OK_SHORT \<Rightarrow> 1 | KIND_OK_DOUBLE \<Rightarrow> 2 | _ \<Rightarrow> 0) ev)"

text \<open>The OK key was down and is let go after less than the long-press time.\<close>

definition short_click :: "keypad_state \<Rightarrow> keypad_config option \<Rightarrow> keypad_state \<Rightarrow> nat" where
  "short_click s config s' =
     (if kp_stable_key s = Some ''OK'' \<and> kp_stable_key s' = None \<and>
         max 0 (poll_now s config - kp_press_started_ms s) < config_long_press_ms config
      then 1 else 0)"

lemma clicks_reported_simps [simp]:
  "clicks_reported [] = 0"
  "clicks_reported (xs @ ys) = clicks_reported xs + clicks_reported ys"
  "clicks_reported (mk_event KIND_OK_SHORT k m d # xs) = 1 + clicks_reported xs"
  "clicks_reported (mk_event KIND_OK_DOUBLE k m d # xs) = 2 + clicks_reported xs"
  "clicks_reported (mk_event KIND_OK_LONG k m d # xs) = clicks_reported xs"
  "clicks_reported (mk_event KIND_PRESS k m d # xs) = clicks_reported xs"
  "clicks_reported (mk_event KIND_RELEASE k m d # xs) = clicks_reported xs"
  "clicks_reported (mk_event KIND_REPEAT k m d # xs) = clicks_reported xs"
  by (simp_all add: clicks_reported_def mk_event_def)

lemma emit_room [simp]: "length ev < cap \<Longrightarrow> emit cap ev e s s' = (True, ev @ [e], s')"
  by (simp add: emit_def)

text \<open>After the pending check a click still pending is inside its window.\<close>

definition window_open :: "keypad_state \<Rightarrow> keypad_config option \<Rightarrow> int \<Rightarrow> bool" where
  "window_open s config now_ms =
     (kp_short_pending s \<longrightarrow> config_detect_double_click config \<and>
        now_ms - kp_pending_release_ms s < config_double_click_ms config)"

lemma check_pending_short_ok:
  assumes "0 < cap"
  obtains ev s' where "check_pending_short s config now cap [] = (True, ev, s')"
    "length ev \<le> 1" "s' = s\<lparr> kp_short_pending := kp_short_pending s' \<rparr>" "window_open s' config now"
    "pending s = clicks_reported ev + pending s'"
proof (cases "kp_short_pending s \<and> \<not> (config_detect_double_click config \<and>
      now - kp_pending_release_ms s < config_double_click_ms config)")
  case True
  then have "check_pending_short s config now cap [] =
      (True, [mk_event KIND_OK_SHORT ''OK'' ''OK'' 0], s\<lparr> kp_short_pending := False \<rparr>)"
    using assms by (auto simp: check_pending_short_def)
  then show ?thesis using True by (intro that) (auto simp: window_open_def pending_def)
next
  case False
  then have "check_pending_short s config now cap [] = (True, [], s)"
    by (auto simp: check_pending_short_def)
  then show ?thesis using False by (intro that) (auto simp: window_open_def)
qed

text \<open>What a stage of a poll does: it succeeds, adds at most one event, and accounts for
  the clicks.\<close>

definition stage_ok :: "nat \<Rightarrow> keypad_state \<Rightarrow> keypad_event list \<Rightarrow> kp_result \<Rightarrow> bool" where
  "stage_ok click s ev r =
     (case r of (ok, ev', s') \<Rightarrow>
        ok \<and> (\<exists>new. ev' = ev @ new \<and> length new \<le> 1 \<and>
                click + pending s = clicks_reported new + pending s'))"

lemma finalize_release_ok:
  assumes "0 \<le> kp_press_started_ms s" "length ev < cap" "window_open s config now"
  shows "stage_ok (if key = ''OK'' \<and> max 0 (now - kp_press_started_ms s) < config_long_press_ms config
                   then 1 else 0) s ev (finalize_release s config key now cap ev) \<and>
     kp_stable_key (snd (snd (finalize_release s config key now cap ev))) = kp_stable_key s"
proof (cases "key = ''OK''")
  case True
  let ?d = "max 0 (now - kp_press_started_ms s)"
  consider "config_long_press_ms config \<le> ?d"
    | "?d < config_long_press_ms config" "\<not> config_detect_double_click config"
    | "?d < config_long_press_ms config" "config_detect_double_click config" "kp_short_pending s"
    | "?d < config_long_press_ms config" "config_detect_double_click config" "\<not> kp_short_pending s"
    by linarith
  then show ?thesis
  proof cases
    case 3
    then have "\<not> config_long_press_ms config \<le> ?d" by linarith
    with 3 show ?thesis using True assms
      by (simp add: finalize_release_def stage_ok_def Let_def window_open_def pending_def)
  qed (use True assms in \<open>auto simp: finalize_release_def stage_ok_def Let_def window_open_def pending_def\<close>)
next
  case False
  then show ?thesis using assms by (simp add: finalize_release_def stage_ok_def Let_def)
qed

lemma finalize_release_frame:
  assumes "length ev < cap"
  shows "kp_press_started_ms (snd (snd (finalize_release s config key now cap ev))) = kp_press_started_ms s \<and>
     kp_stable_key (snd (snd (finalize_release s config key now cap ev))) = kp_stable_key s"
  using assms by (simp add: finalize_release_def Let_def)

text \<open>The later stages as a whole: they keep the invariant.\<close>

definition poll_good :: "nat \<Rightarrow> keypad_state \<Rightarrow> keypad_event list \<Rightarrow> kp_result \<Rightarrow> bool" where
  "poll_good click s ev r = (stage_ok click s ev r \<and> keypad_inv (snd (snd r)))"

lemma poll_good_next:
  "poll_good click s ev r \<Longrightarrow> poll_good click s ev (next_sample r)"
  by (cases r) (auto simp: poll_good_def stage_ok_def next_sample_def keypad_inv_def pending_def)

lemma next_sample_stable [simp]:
  "kp_stable_key (snd (snd (next_sample r))) = kp_stable_key (snd (snd r))"
  by (cases r) (simp add: next_sample_def)

lemma poll_absent_ok:
  assumes inv: "keypad_inv s" and c: "length ev < cap" and w: "window_open s config now"
  shows "poll_good (if kp_stable_key s = Some ''OK'' \<and>
             max 0 (now - kp_press_started_ms s) < config_long_press_ms config then 1 else 0)
           s ev (poll_absent s config now cap ev) \<and>
         kp_stable_key (snd (snd (poll_absent s config now cap ev))) = None"
proof (cases "kp_stable_key s")
  case None
  then show ?thesis using inv
    by (auto simp: poll_absent_def poll_good_def stage_ok_def next_sample_def keypad_inv_def pending_def)
next
  case (Some k)
  let ?s = "s\<lparr> kp_stable_key := None, kp_candidate_key := None, kp_candidate_count := 0 \<rparr>"
  obtain ok ev' s' where f: "finalize_release ?s config k now cap ev = (ok, ev', s')"
    by (cases "finalize_release ?s config k now cap ev")
  have st: "stage_ok (if k = ''OK'' \<and> max 0 (now - kp_press_started_ms s) < config_long_press_ms config
                   then 1 else 0) ?s ev (ok, ev', s')"
    using finalize_release_ok[of ?s ev cap config now k] inv c w Some f
    by (auto simp: keypad_inv_def window_open_def)
  have fr: "kp_stable_key s' = None"
    using finalize_release_frame[OF c, of ?s config k now] f by simp
  from st fr Some f show ?thesis
    by (auto simp: poll_absent_def poll_good_def stage_ok_def next_sample_def after_reset_def
        reset_hold_state_def keypad_inv_def pending_def)
qed

lemma emit_repeat_ok:
  assumes "length ev < cap"
  shows "stage_ok 0 s ev (emit_repeat_if_needed s config key now cap ev) \<and>
     kp_stable_key (snd (snd (emit_repeat_if_needed s config key now cap ev))) = kp_stable_key s \<and>
     kp_press_started_ms (snd (snd (emit_repeat_if_needed s config key now cap ev))) = kp_press_started_ms s"
  using assms
  by (auto simp: emit_repeat_if_needed_def stage_ok_def pending_def Let_def split: option.split)

lemma poll_held_ok:
  assumes inv: "keypad_inv s" and c: "length ev < cap" and k: "key = kp_stable_key s" and n: "0 \<le> now"
  shows "poll_good 0 s ev (poll_held s config key now cap ev) \<and>
         kp_stable_key (snd (snd (poll_held s config key now cap ev))) = kp_stable_key s"
proof (cases key)
  case None
  then show ?thesis using inv
    by (auto simp: poll_held_def poll_good_def stage_ok_def next_sample_def keypad_inv_def pending_def)
next
  case (Some q)
  then have p: "0 \<le> kp_press_started_ms s" using inv k by (simp add: keypad_inv_def)
  show ?thesis
  proof (cases "q = ''OK''")
    case True
    then show ?thesis using Some p inv c k
      by (auto simp: poll_held_def poll_good_def stage_ok_def next_sample_def keypad_inv_def
          pending_def Let_def)
  next
    case False
    then have e: "poll_held s config key now cap ev =
        next_sample (emit_repeat_if_needed s config q now cap ev)"
      using Some p by (simp add: poll_held_def)
    have "poll_good 0 s ev (emit_repeat_if_needed s config q now cap ev)"
      using emit_repeat_ok[OF c, of s config q now] inv by (simp add: poll_good_def keypad_inv_def)
    from poll_good_next[OF this] emit_repeat_ok[OF c, of s config q now] show ?thesis
      by (simp add: e)
  qed
qed

lemma poll_changed_ok:
  assumes inv: "keypad_inv s" and c: "length ev < cap" and w: "window_open s config now" and n: "0 \<le> now"
  shows "poll_good (if kp_stable_key s = Some ''OK'' \<and> key = None \<and>
             max 0 (now - kp_press_started_ms s) < config_long_press_ms config then 1 else 0)
           s ev (poll_changed s config key now cap ev) \<and>
         kp_stable_key (snd (snd (poll_changed s config key now cap ev))) = key"
proof (cases key)
  case (Some q)
  then show ?thesis using c n
    by (auto simp: poll_changed_def poll_good_def stage_ok_def next_sample_def keypad_inv_def
        pending_def Let_def)
next
  case None
  show ?thesis
  proof (cases "kp_stable_key s")
    case None
    then show ?thesis using \<open>key = None\<close>
      by (auto simp: poll_changed_def poll_good_def stage_ok_def next_sample_def keypad_inv_def
          pending_def Let_def reset_hold_state_def)
  next
    case (Some k)
    let ?s = "s\<lparr> kp_stable_key := None, kp_candidate_count := 0 \<rparr>"
    obtain ok ev' s' where f: "finalize_release ?s config k now cap ev = (ok, ev', s')"
      by (cases "finalize_release ?s config k now cap ev")
    have st: "stage_ok (if k = ''OK'' \<and> max 0 (now - kp_press_started_ms s) < config_long_press_ms config
                     then 1 else 0) ?s ev (ok, ev', s')"
      using finalize_release_ok[of ?s ev cap config now k] inv c w Some f
      by (auto simp: keypad_inv_def window_open_def)
    have fr: "kp_stable_key s' = None"
      using finalize_release_frame[OF c, of ?s config k now] f by simp
    from st fr Some f \<open>key = None\<close> show ?thesis
      by (auto simp: poll_changed_def poll_good_def stage_ok_def next_sample_def
          reset_hold_state_def keypad_inv_def pending_def Let_def)
  qed
qed

lemma keypad_poll_ok:
  assumes inv: "keypad_inv s" and cap: "2 \<le> cap" and r: "keypad_poll s config uv present cap = (ok, ev, s')"
  shows "ok \<and> length ev \<le> 2 \<and> keypad_inv s' \<and>
     short_click s config s' + pending s = clicks_reported ev + pending s'"
proof (cases "\<not> kp_enabled s \<or> (case config of None \<Rightarrow> False | Some c \<Rightarrow> \<not> kc_enabled c)")
  case True
  then have "ok" "ev = []" "s' = s" using r by (auto simp: keypad_poll_def)
  then show ?thesis using inv by (simp add: short_click_def)
next
  case False
  let ?now = "poll_now s config"
  obtain e1 s1 where c1: "check_pending_short s config ?now cap [] = (True, e1, s1)"
    "length e1 \<le> 1" "s1 = s\<lparr> kp_short_pending := kp_short_pending s1 \<rparr>" "window_open s1 config ?now"
    "pending s = clicks_reported e1 + pending s1"
    using check_pending_short_ok[of cap s config ?now] cap by auto
  have same: "kp_stable_key s1 = kp_stable_key s" "kp_press_started_ms s1 = kp_press_started_ms s"
    by (subst c1(3), simp)+
  have inv1: "keypad_inv s1" using inv same by (simp add: keypad_inv_def)
  have room: "length e1 < cap" using c1(2) cap by simp
  have fin: ?thesis if g: "poll_good click s1 e1 (ok, ev, s')" and cl: "click = short_click s config s'" for click
    using g c1(2,5) unfolding poll_good_def stage_ok_def cl by auto
  have fin0: ?thesis if "poll_good 0 s1 e1 (ok, ev, s')" "kp_stable_key s' = kp_stable_key s \<or> kp_stable_key s' \<noteq> None"
    using that by (intro fin[of 0]) (auto simp: short_click_def)
  have idle: "poll_good 0 s1 e1 (True, e1, t)" if "kp_stable_key t = kp_stable_key s1"
      "kp_press_started_ms t = kp_press_started_ms s1" "kp_short_pending t = kp_short_pending s1" for t
    using that inv1 by (simp add: poll_good_def stage_ok_def keypad_inv_def pending_def)
  let ?key = "case match_band s1 config (uv + kp_calibration_uv s1) of None \<Rightarrow> None | Some b \<Rightarrow> kb_key b"
  show ?thesis
  proof (cases present)
    case False2: False
    then have "poll_absent s1 config ?now cap e1 = (ok, ev, s')"
      using r False c1(1) by (simp add: keypad_poll_def Let_def)
    with poll_absent_ok[OF inv1 room c1(4)] show ?thesis
      by (intro fin) (auto simp: short_click_def same)
  next
    case True
    consider "?key = kp_stable_key s1"
      | "?key \<noteq> kp_stable_key s1" "?key = kp_candidate_key s1"
        "kp_candidate_count s1 + 1 < config_debounce_samples config"
      | "?key \<noteq> kp_stable_key s1" "?key = kp_candidate_key s1"
        "\<not> kp_candidate_count s1 + 1 < config_debounce_samples config"
      | "?key \<noteq> kp_stable_key s1" "?key \<noteq> kp_candidate_key s1" by blast
    then show ?thesis
    proof cases
      case 1
      then have "poll_held s1 config ?key ?now cap e1 = (ok, ev, s')"
        using r False True c1(1) by (simp add: keypad_poll_def Let_def)
      with poll_held_ok[OF inv1 room 1 poll_now_nonneg[of s config], of config] show ?thesis
        by (intro fin0) (simp_all add: same)
    next
      case 2
      then have "(ok, ev, s') = (True, e1, s1\<lparr> kp_candidate_key := kp_candidate_key s1,
          kp_candidate_count := kp_candidate_count s1 + 1, kp_sample_index := kp_sample_index s1 + 1 \<rparr>)"
        using r False True c1(1) by (simp add: keypad_poll_def Let_def next_sample_def)
      with idle show ?thesis by (intro fin0) (simp_all add: same)
    next
      case 3
      let ?t = "s1\<lparr> kp_candidate_count := kp_candidate_count s1 + 1 \<rparr>"
      have "poll_changed ?t config ?key ?now cap e1 = (ok, ev, s')"
        using r False True c1(1) 3 by (simp add: keypad_poll_def Let_def)
      moreover have "keypad_inv ?t" "window_open ?t config ?now"
        using inv1 c1(4) by (simp_all add: keypad_inv_def window_open_def)
      ultimately have g: "poll_good (if kp_stable_key s = Some ''OK'' \<and> ?key = None \<and>
             max 0 (?now - kp_press_started_ms s) < config_long_press_ms config then 1 else 0)
           ?t e1 (ok, ev, s')" and k: "kp_stable_key s' = ?key"
        using poll_changed_ok[of ?t e1 cap config ?now ?key] room poll_now_nonneg[of s config] same by auto
      from g have "poll_good (if kp_stable_key s = Some ''OK'' \<and> ?key = None \<and>
             max 0 (?now - kp_press_started_ms s) < config_long_press_ms config then 1 else 0)
           s1 e1 (ok, ev, s')"
        by (simp add: poll_good_def stage_ok_def pending_def)
      with k show ?thesis by (intro fin) (auto simp: short_click_def)
    next
      case 4
      then have "(ok, ev, s') = (True, e1, s1\<lparr> kp_candidate_key := ?key,
          kp_candidate_count := 1, kp_sample_index := kp_sample_index s1 + 1 \<rparr>)"
        using r False True c1(1) by (simp add: keypad_poll_def Let_def next_sample_def)
      with idle show ?thesis by (intro fin0) (simp_all add: same)
    qed
  qed
qed

section \<open>Runs of polls\<close>

text \<open>A run: the short clicks made, the events reported, whether every poll succeeded, and
  the state. The configuration may change between polls.\<close>

fun keypad_run ::
  "nat \<Rightarrow> keypad_state \<Rightarrow> (keypad_config option \<times> int \<times> bool) list \<Rightarrow>
   nat \<times> keypad_event list \<times> bool \<times> keypad_state" where
  "keypad_run cap s [] = (0, [], True, s)"
| "keypad_run cap s ((config, uv, present) # polls) =
     (let (ok, ev, s') = keypad_poll s config uv present cap;
          (n, evs, oks, t) = keypad_run cap s' polls
      in (short_click s config s' + n, ev @ evs, ok \<and> oks, t))"

lemma keypad_run_ok:
  "keypad_inv s \<Longrightarrow> 2 \<le> cap \<Longrightarrow> keypad_run cap s polls = (n, evs, oks, t) \<Longrightarrow>
     oks \<and> keypad_inv t \<and> length evs \<le> 2 * length polls \<and>
     n + pending s = clicks_reported evs + pending t"
proof (induction cap s polls arbitrary: n evs oks t rule: keypad_run.induct)
  case (2 cap s config uv present polls)
  obtain ok ev s' where p: "keypad_poll s config uv present cap = (ok, ev, s')"
    by (cases "keypad_poll s config uv present cap")
  obtain n' evs' oks' t' where q: "keypad_run cap s' polls = (n', evs', oks', t')"
    by (cases "keypad_run cap s' polls")
  note poll = keypad_poll_ok[OF 2(2,3) p]
  have ih: "oks' \<and> keypad_inv t' \<and> length evs' \<le> 2 * length polls \<and>
      n' + pending s' = clicks_reported evs' + pending t'"
    using 2(1)[OF p[symmetric] _ _ _ _ q] poll 2(3) by auto
  show ?case using 2(4) p q poll ih by auto
qed simp

section \<open>Properties\<close>



section \<open>Two observations\<close>

definition poll_events :: "keypad_state \<Rightarrow> (int \<times> bool) list \<Rightarrow> (keypad_event_kind \<times> string) list" where
  "poll_events s samples =
     map (\<lambda>e. (ke_kind e, ke_key e))
       (fst (snd (keypad_run 4 s (map (\<lambda>(uv, p). (None, uv, p)) samples))))"

text \<open>Sliding from one key to another reports the press of the second but never the
  release of the first.\<close>

lemma slide_loses_release:
  "poll_events (keypad_state_init None)
     [(120000, True), (120000, True), (300000, True), (300000, True), (0, False)] =
   [(KIND_PRESS, ''UP''), (KIND_PRESS, ''DOWN''), (KIND_RELEASE, ''DOWN'')]"
  by code_simp

text \<open>Two single noisy samples apart by idle ones add up to a debounced press: returning to
  the stable key does not clear the candidate.\<close>

lemma debounce_not_consecutive:
  "poll_events (keypad_state_init None)
     [(120000, True), (1500000, True), (1500000, True), (1500000, True), (120000, True)] =
   [(KIND_PRESS, ''UP'')]"
  by code_simp

end
