(* ===== verification/BleMsg.thy ===== *)
theory BleMsg
  imports Base
begin

unbundle bit_operations_syntax

text \<open>
  src/apps/common/jpp_ble_msg.c: messages of any length over characteristic
  writes. The sender cuts a message into a BEGIN frame (length and CRC-32) and
  numbered DATA frames; the receiver reassembles them. Which writes succeed and
  which frames arrive is up to the Bluetooth stack: the sender takes a function
  that says whether a write succeeds, the receiver the list of deliveries (None
  is a wait that timed out). The receive buffer is the list of the bytes copied
  so far, whose length is the code's offset.
\<close>

type_synonym byte = "8 word"

datatype ble_msg_result =
    MSG_OK | MSG_ERR_ARG | MSG_ERR_WRITE | MSG_ERR_TIMEOUT | MSG_ERR_PROTOCOL
  | MSG_ERR_TOO_BIG | MSG_ERR_CRC

definition MSG_FRAME_BEGIN :: byte where "MSG_FRAME_BEGIN = 0x01"
definition MSG_FRAME_DATA :: byte where "MSG_FRAME_DATA = 0x02"
definition MSG_BEGIN_LEN :: nat where "MSG_BEGIN_LEN = 9"
definition MSG_DATA_HDR :: nat where "MSG_DATA_HDR = 3"
definition BLE_MSG_CHUNK_MAX :: nat where "BLE_MSG_CHUNK_MAX = 400"
definition MSG_CHUNK_TIMEOUT_MS :: "32 word" where "MSG_CHUNK_TIMEOUT_MS = 5000"

section \<open>Little-endian numbers\<close>

definition wr_u32le :: "32 word \<Rightarrow> byte list" where
  "wr_u32le v = [ucast v, ucast (drop_bit 8 v), ucast (drop_bit 16 v), ucast (drop_bit 24 v)]"

definition wr_u16le :: "16 word \<Rightarrow> byte list" where
  "wr_u16le v = [ucast v, ucast (drop_bit 8 v)]"

definition rd_u32le :: "byte list \<Rightarrow> 32 word" where
  "rd_u32le p =
     (ucast (p ! 0) OR push_bit 8 (ucast (p ! 1)) OR push_bit 16 (ucast (p ! 2)) OR
      push_bit 24 (ucast (p ! 3)))"

definition rd_u16le :: "byte list \<Rightarrow> 16 word" where
  "rd_u16le p = (ucast (p ! 0) OR push_bit 8 (ucast (p ! 1)))"

section \<open>CRC-32\<close>

fun crc_bits :: "nat \<Rightarrow> 32 word \<Rightarrow> 32 word" where
  "crc_bits 0 crc = crc"
| "crc_bits (Suc k) crc =
     crc_bits k (drop_bit 1 crc XOR (0xEDB88320 AND (- (crc AND 1))))"

definition crc32_buf :: "byte list \<Rightarrow> 32 word" where
  "crc32_buf data =
     foldl (\<lambda>crc b. crc_bits 8 (crc XOR ucast b)) 0xFFFFFFFF data XOR 0xFFFFFFFF"

section \<open>Sender\<close>

definition hex_digit :: "byte \<Rightarrow> char" where
  "hex_digit n = ''0123456789ABCDEF'' ! unat n"

text \<open>The text the frame is written as (two upper-case digits per byte).\<close>

definition hex_of_frame :: "byte list \<Rightarrow> string" where
  "hex_of_frame frame = concat (map (\<lambda>b. [hex_digit (drop_bit 4 b), hex_digit (b AND 0x0F)]) frame)"

text \<open>write_ok i says whether the i-th write succeeds. The state is the list of the
  texts written successfully.\<close>

definition write_frame ::
  "(nat \<Rightarrow> bool) \<Rightarrow> string list \<Rightarrow> byte list \<Rightarrow> ble_msg_result \<times> string list" where
  "write_frame write_ok sent frame =
     (if write_ok (length sent) then (MSG_OK, sent @ [hex_of_frame frame]) else (MSG_ERR_WRITE, sent))"

function send_data ::
  "(nat \<Rightarrow> bool) \<Rightarrow> string list \<Rightarrow> 16 word \<Rightarrow> byte list \<Rightarrow> ble_msg_result \<times> string list" where
  "send_data write_ok sent seq rest =
     (if rest = [] then (MSG_OK, sent)
      else
        let n = (if length rest > BLE_MSG_CHUNK_MAX then BLE_MSG_CHUNK_MAX else length rest);
            (r, sent') = write_frame write_ok sent (MSG_FRAME_DATA # wr_u16le seq @ take n rest)
        in if r \<noteq> MSG_OK then (r, sent') else send_data write_ok sent' (seq + 1) (drop n rest))"
  by auto
termination
  by (relation "measure (\<lambda>(_, _, _, rest). length rest)") (auto simp: BLE_MSG_CHUNK_MAX_def)

declare send_data.simps [simp del]

text \<open>The data pointer is an option; NULL is allowed for an empty message only.\<close>

definition ble_msg_send ::
  "(nat \<Rightarrow> bool) \<Rightarrow> byte list option \<Rightarrow> nat \<Rightarrow> ble_msg_result \<times> string list" where
  "ble_msg_send write_ok data n =
     (if data = None \<and> n > 0 then (MSG_ERR_ARG, [])
      else
        let bytes = (case data of None \<Rightarrow> [] | Some d \<Rightarrow> take n d);
            begin_frame = MSG_FRAME_BEGIN # wr_u32le (word_of_nat n) @ wr_u32le (crc32_buf bytes);
            (r, sent) = write_frame write_ok [] begin_frame
        in if r \<noteq> MSG_OK then (r, sent) else send_data write_ok sent 0 bytes)"

section \<open>Receiver\<close>

record recv_state =
  rv_have_begin :: bool
  rv_total :: "32 word"
  rv_want_crc :: "32 word"
  rv_buf :: "byte list"
  rv_next_seq :: "16 word"
  rv_wait :: "32 word"

definition recv_init :: "32 word \<Rightarrow> recv_state" where
  "recv_init timeout_ms =
     \<lparr> rv_have_begin = False, rv_total = 0, rv_want_crc = 0, rv_buf = [], rv_next_seq = 0,
       rv_wait = timeout_ms \<rparr>"

text \<open>What one frame does: the transfer goes on, or it returns with a result and, on
  success, the message.\<close>

datatype recv_step = Recv_Go recv_state | Recv_Done ble_msg_result "byte list"

definition recv_begin :: "nat \<Rightarrow> 32 word \<Rightarrow> recv_state \<Rightarrow> byte list \<Rightarrow> recv_step" where
  "recv_begin out_cap timeout_ms s rx =
     (if length rx < MSG_BEGIN_LEN then Recv_Done MSG_ERR_PROTOCOL []
      else
        let total_len = rd_u32le (drop 1 rx); want = rd_u32le (drop 5 rx)
        in if unat total_len > out_cap then Recv_Done MSG_ERR_TOO_BIG []
           else if total_len = 0 then
             Recv_Done (if crc32_buf [] = want then MSG_OK else MSG_ERR_CRC) []
           else Recv_Go
             \<lparr> rv_have_begin = True, rv_total = total_len, rv_want_crc = want, rv_buf = [],
               rv_next_seq = 0,
               rv_wait = (if timeout_ms < MSG_CHUNK_TIMEOUT_MS then timeout_ms
                          else MSG_CHUNK_TIMEOUT_MS) \<rparr>)"

definition recv_data :: "recv_state \<Rightarrow> byte list \<Rightarrow> recv_step" where
  "recv_data s rx =
     (if \<not> rv_have_begin s then Recv_Go s
      else if length rx < MSG_DATA_HDR then Recv_Done MSG_ERR_PROTOCOL []
      else if rd_u16le (drop 1 rx) \<noteq> rv_next_seq s then Recv_Done MSG_ERR_PROTOCOL []
      else
        let n = length rx - MSG_DATA_HDR
        in if length (rv_buf s) + n > unat (rv_total s) then Recv_Done MSG_ERR_PROTOCOL []
           else
             let buf = rv_buf s @ drop MSG_DATA_HDR rx
             in if length buf = unat (rv_total s) then
                  (if crc32_buf buf \<noteq> rv_want_crc s then Recv_Done MSG_ERR_CRC []
                   else Recv_Done MSG_OK buf)
                else Recv_Go (s\<lparr> rv_buf := buf, rv_next_seq := rv_next_seq s + 1 \<rparr>))"

definition recv_frame :: "nat \<Rightarrow> 32 word \<Rightarrow> recv_state \<Rightarrow> byte list \<Rightarrow> recv_step" where
  "recv_frame out_cap timeout_ms s rx =
     (case rx of
        [] \<Rightarrow> Recv_Go s
      | b # _ \<Rightarrow>
          if b = MSG_FRAME_BEGIN then recv_begin out_cap timeout_ms s rx
          else if b = MSG_FRAME_DATA then recv_data s rx
          else if \<not> rv_have_begin s then Recv_Go s
          else Recv_Done MSG_ERR_PROTOCOL [])"

text \<open>The loop over the deliveries; when no more come, the wait times out.\<close>

fun recv_loop ::
  "nat \<Rightarrow> 32 word \<Rightarrow> recv_state \<Rightarrow> byte list option list \<Rightarrow> ble_msg_result \<times> byte list" where
  "recv_loop out_cap timeout_ms s [] = (MSG_ERR_TIMEOUT, [])"
| "recv_loop out_cap timeout_ms s (None # ds) = (MSG_ERR_TIMEOUT, [])"
| "recv_loop out_cap timeout_ms s (Some rx # ds) =
     (case recv_frame out_cap timeout_ms s rx of
        Recv_Go s' \<Rightarrow> recv_loop out_cap timeout_ms s' ds
      | Recv_Done r out \<Rightarrow> (r, out))"

definition ble_msg_host_recv ::
  "nat \<Rightarrow> 32 word \<Rightarrow> byte list option list \<Rightarrow> ble_msg_result \<times> byte list" where
  "ble_msg_host_recv out_cap timeout_ms deliveries =
     recv_loop out_cap timeout_ms (recv_init timeout_ms) deliveries"

section \<open>Codecs\<close>

interpretation u32le: codec wr_u32le rd_u32le "\<lambda>_. True"
proof unfold_locales
  fix v :: "32 word"
  show "rd_u32le (wr_u32le v) = v"
  proof (rule bit_word_eqI)
    fix n assume n: "n < LENGTH(32)"
    have "bit v (8 + (n - 8)) = bit v n" if "8 \<le> n" using that by simp
    moreover have "bit v (16 + (n - 16)) = bit v n" if "16 \<le> n" using that by simp
    moreover have "bit v (24 + (n - 24)) = bit v n" if "24 \<le> n" using that by simp
    ultimately have *: "8 \<le> n \<longrightarrow> bit v (8 + (n - 8)) = bit v n"
      "16 \<le> n \<longrightarrow> bit v (16 + (n - 16)) = bit v n" "24 \<le> n \<longrightarrow> bit v (24 + (n - 24)) = bit v n"
      by blast+
    consider "n < 8" | "8 \<le> n" "n < 16" | "16 \<le> n" "n < 24" | "24 \<le> n" by linarith
    then show "bit (rd_u32le (wr_u32le v)) n = bit v n"
      using n * by cases (simp_all add: rd_u32le_def wr_u32le_def bit_simps less_diff_conv2)
  qed
qed

interpretation u16le: codec wr_u16le rd_u16le "\<lambda>_. True"
proof unfold_locales
  fix v :: "16 word"
  show "rd_u16le (wr_u16le v) = v"
  proof (rule bit_word_eqI)
    fix n assume n: "n < LENGTH(16)"
    have "bit v (8 + (n - 8)) = bit v n" if "8 \<le> n" using that by simp
    then show "bit (rd_u16le (wr_u16le v)) n = bit v n"
      using n by (cases "n < 8") (simp_all add: rd_u16le_def wr_u16le_def bit_simps less_diff_conv2)
  qed
qed

lemma u32le_length [simp]: "length (wr_u32le v) = 4"
  by (simp add: wr_u32le_def)

lemma u16le_length [simp]: "length (wr_u16le v) = 2"
  by (simp add: wr_u16le_def)

lemma rd_u32le_append [simp]: "rd_u32le (wr_u32le v @ xs) = v"
  using u32le.dec_enc[of v] by (simp add: rd_u32le_def wr_u32le_def)

lemma rd_u16le_append [simp]: "rd_u16le (wr_u16le v @ xs) = v"
  using u16le.dec_enc[of v] by (simp add: rd_u16le_def wr_u16le_def)

section \<open>The wire\<close>

text \<open>What the stack decodes a hex text to, as the SDK documents for its writes.\<close>

definition hex_value :: "char \<Rightarrow> nat" where
  "hex_value c = (if ord c \<le> ord (CHR ''9'') then ord c - ord (CHR ''0'') else ord c - ord (CHR ''A'') + 10)"

fun frame_of_hex :: "string \<Rightarrow> byte list" where
  "frame_of_hex (a # b # cs) = word_of_nat (hex_value a * 16 + hex_value b) # frame_of_hex cs"
| "frame_of_hex _ = []"

lemma hex_digit_table: "list_all (\<lambda>n. hex_value (''0123456789ABCDEF'' ! n) = n) [0..<16]"
  by code_simp

lemma hex_digit_value: "unat b < 16 \<Longrightarrow> hex_value (hex_digit b) = unat b"
  using hex_digit_table by (simp only: hex_digit_def list_all_iff set_upt) auto

lemma hex_byte:
  "word_of_nat (hex_value (hex_digit (drop_bit 4 b)) * 16 + hex_value (hex_digit (b AND 0x0F))) = (b :: byte)"
proof -
  have m: "b AND 0x0F = take_bit 4 b"
    by (simp add: take_bit_eq_mask mask_numeral)
  have "unat (drop_bit 4 b) < 16"
    using unsigned_less[of b, where 'a = nat] by (simp add: unat_drop_bit_eq drop_bit_eq_div[where 'a = nat] less_mult_imp_div_less)
  moreover have "unat (take_bit 4 b) < 16"
    by (simp add: unsigned_take_bit_eq take_bit_eq_mod[where 'a = nat])
  ultimately have "word_of_nat (hex_value (hex_digit (drop_bit 4 b)) * 16 + hex_value (hex_digit (b AND 0x0F))) =
      word_of_nat (unat (drop_bit 4 b)) * 16 + word_of_nat (unat (take_bit 4 b))"
    by (simp add: m hex_digit_value)
  also have "\<dots> = push_bit 4 (drop_bit 4 b) + take_bit 4 b"
    by (simp add: push_bit_eq_mult)
  also have "\<dots> = b" by (rule bits_ident)
  finally show ?thesis .
qed

interpretation hex: codec hex_of_frame frame_of_hex "\<lambda>_. True"
proof unfold_locales
  fix f :: "byte list"
  show "frame_of_hex (hex_of_frame f) = f"
    by (induction f) (simp_all add: hex_of_frame_def hex_byte del: of_nat_add of_nat_mult)
qed

lemma crc32_check: "crc32_buf [0x61] = 0xE8B7BE43"
  by code_simp

section \<open>Sending and receiving\<close>

text \<open>The numbered DATA frames of a message, from a sequence number on.\<close>

function data_frames :: "16 word \<Rightarrow> byte list \<Rightarrow> byte list list" where
  "data_frames seq rest =
     (if rest = [] then []
      else (MSG_FRAME_DATA # wr_u16le seq @ take 400 rest) # data_frames (seq + 1) (drop 400 rest))"
  by auto
termination by (relation "measure (\<lambda>(_, rest). length rest)") auto

declare data_frames.simps [simp del]

lemma data_frames_Nil [simp]: "data_frames seq [] = []"
  by (subst data_frames.simps) simp

lemma send_data_all:
  "\<forall>i. write_ok i \<Longrightarrow>
     send_data write_ok sent seq rest = (MSG_OK, sent @ map hex_of_frame (data_frames seq rest))"
proof (induction seq rest arbitrary: sent rule: data_frames.induct)
  case (1 seq rest)
  show ?case
  proof (cases "rest = []")
    case True
    then show ?thesis by (subst send_data.simps) simp
  next
    case False
    have t: "take (if length rest > 400 then 400 else length rest) rest = take 400 rest"
      "drop (if length rest > 400 then 400 else length rest) rest = drop 400 rest" by auto
    have "send_data write_ok sent seq rest =
        send_data write_ok (sent @ [hex_of_frame (MSG_FRAME_DATA # wr_u16le seq @ take 400 rest)])
          (seq + 1) (drop 400 rest)"
      using False 1(2) by (subst send_data.simps) (simp only: Let_def write_frame_def BLE_MSG_CHUNK_MAX_def t prod.case, simp)
    then show ?thesis
      using 1(1)[OF False 1(2)] False by (subst data_frames.simps) simp
  qed
qed

lemma recv_data_frames:
  assumes "rv_have_begin s" "rv_next_seq s = seq" "rest \<noteq> []"
    "length (rv_buf s) + length rest = unat (rv_total s)"
    "crc32_buf (rv_buf s @ rest) = rv_want_crc s"
  shows "recv_loop cap t s (map Some (data_frames seq rest) @ tail_ds) = (MSG_OK, rv_buf s @ rest)"
  using assms
proof (induction seq rest arbitrary: s rule: data_frames.induct)
  case (1 seq rest)
  let ?rx = "MSG_FRAME_DATA # wr_u16le seq @ take 400 rest"
  have fr: "data_frames seq rest = ?rx # data_frames (seq + 1) (drop 400 rest)"
    using 1(4) by (subst data_frames.simps) simp
  have d: "drop 3 ?rx = take 400 rest" by (simp add: wr_u16le_def)
  have ne: "MSG_FRAME_DATA \<noteq> MSG_FRAME_BEGIN" by (simp add: MSG_FRAME_DATA_def MSG_FRAME_BEGIN_def)
  show ?case
  proof (cases "length rest \<le> 400")
    case True
    have "recv_frame cap t s ?rx = Recv_Done MSG_OK (rv_buf s @ rest)"
      using 1(2-6) ne True d by (simp add: recv_frame_def recv_data_def MSG_DATA_HDR_def Let_def)
    then show ?thesis by (simp add: fr)
  next
    case False
    let ?s = "s\<lparr> rv_buf := rv_buf s @ take 400 rest, rv_next_seq := rv_next_seq s + 1 \<rparr>"
    have "recv_frame cap t s ?rx = Recv_Go ?s"
      using 1(2-6) ne False d by (simp add: recv_frame_def recv_data_def MSG_DATA_HDR_def Let_def)
    moreover have "recv_loop cap t ?s (map Some (data_frames (seq + 1) (drop 400 rest)) @ tail_ds) =
        (MSG_OK, rv_buf ?s @ drop 400 rest)"
      using 1(2-6) False by (intro 1(1)) (simp_all)
    ultimately show ?thesis by (simp add: fr)
  qed
qed

text \<open>A BEGIN frame announces a length and a checksum.\<close>

definition announces :: "byte list \<Rightarrow> nat \<Rightarrow> 32 word \<Rightarrow> bool" where
  "announces rx n crc \<longleftrightarrow>
     MSG_BEGIN_LEN \<le> length rx \<and> hd rx = MSG_FRAME_BEGIN \<and>
     unat (rd_u32le (drop 1 rx)) = n \<and> rd_u32le (drop 5 rx) = crc"

definition recv_inv :: "nat \<Rightarrow> byte list set \<Rightarrow> recv_state \<Rightarrow> bool" where
  "recv_inv cap F s \<longleftrightarrow>
     rv_have_begin s \<longrightarrow>
       unat (rv_total s) \<le> cap \<and> (\<exists>rx\<in>F. announces rx (unat (rv_total s)) (rv_want_crc s))"

lemma recv_frame_inv:
  assumes "recv_inv cap F s" "rx \<in> F"
  shows "case recv_frame cap t s rx of
      Recv_Go s' \<Rightarrow> recv_inv cap F s'
    | Recv_Done r out \<Rightarrow> r = MSG_OK \<longrightarrow>
        length out \<le> cap \<and> (\<exists>rx\<in>F. announces rx (length out) (crc32_buf out))"
proof (cases rx)
  case Nil
  then show ?thesis using assms by (simp add: recv_frame_def)
next
  case (Cons b bs)
  consider (is_begin) "b = MSG_FRAME_BEGIN" | (is_data) "b \<noteq> MSG_FRAME_BEGIN" "b = MSG_FRAME_DATA"
    | (other) "b \<noteq> MSG_FRAME_BEGIN" "b \<noteq> MSG_FRAME_DATA" by blast
  then show ?thesis
  proof cases
    case is_begin
    have "MSG_BEGIN_LEN \<le> length rx \<Longrightarrow>
        announces rx (unat (rd_u32le (drop 1 rx))) (rd_u32le (drop 5 rx))"
      using is_begin Cons by (simp add: announces_def)
    moreover have "recv_frame cap t s rx = recv_begin cap t s rx"
      using is_begin Cons by (simp add: recv_frame_def)
    ultimately show ?thesis
      using assms(2) by (auto simp: recv_begin_def recv_inv_def Let_def)
  next
    case is_data
    then have "recv_frame cap t s rx = recv_data s rx"
      using Cons by (simp add: recv_frame_def)
    then show ?thesis
      using assms by (auto simp: recv_data_def recv_inv_def Let_def)
  next
    case other
    then show ?thesis using Cons assms by (simp add: recv_frame_def)
  qed
qed

lemma recv_loop_sound:
  "recv_loop cap t s ds = (MSG_OK, out) \<Longrightarrow> recv_inv cap F s \<Longrightarrow> {rx. Some rx \<in> set ds} \<subseteq> F \<Longrightarrow>
     length out \<le> cap \<and> (\<exists>rx\<in>F. announces rx (length out) (crc32_buf out))"
proof (induction cap t s ds rule: recv_loop.induct)
  case (3 cap t s rx ds)
  have f: "rx \<in> F" "{rx. Some rx \<in> set ds} \<subseteq> F" using 3(4) by auto
  show ?case
    using recv_frame_inv[OF 3(3) f(1), of t] 3(1,2) f(2)
    by (cases "recv_frame cap t s rx") simp_all
qed simp_all

lemma ble_begin_data:
  "ble_msg_host_recv 4 100 [Some [1, 1, 0, 0, 0, 0x43, 0xBE, 0xB7, 0xE8], Some [2, 0, 0, 0x61]] =
     (MSG_OK, [0x61])"
  by code_simp

section \<open>Properties\<close>

text \<open>C16: a message arrives as it was sent: when all writes succeed and the receiver gets the
  frames (whatever comes before the BEGIN frame that it ignores, and whatever
  follows), it returns exactly the bytes given to jpp_ble_msg_send, for every length
  the receive buffer has room for, also beyond 65536 frames.\<close>

theorem ble_msg_roundtrip:
  assumes "\<forall>i. write_ok i" "length data \<le> out_cap" "length data < 2 ^ 32"
  shows "fst (ble_msg_send write_ok (Some data) (length data)) = MSG_OK \<and>
     ble_msg_host_recv out_cap timeout_ms
       (Some [] # map (\<lambda>h. Some (frame_of_hex h)) (snd (ble_msg_send write_ok (Some data) (length data))) @ tail_ds) =
     (MSG_OK, data)"
proof -
  let ?b = "MSG_FRAME_BEGIN # wr_u32le (word_of_nat (length data)) @ wr_u32le (crc32_buf data)"
  have send: "ble_msg_send write_ok (Some data) (length data) =
      (MSG_OK, map hex_of_frame (?b # data_frames 0 data))"
    using assms(1) by (simp add: ble_msg_send_def Let_def write_frame_def send_data_all)
  have frames: "map (\<lambda>h. Some (frame_of_hex h)) (map hex_of_frame fs) = map Some fs" for fs
    by (simp add: hex.dec_enc)
  have len: "unat (word_of_nat (length data) :: 32 word) = length data"
    using assms(3) by (simp add: unat_of_nat take_bit_nat_eq_self)
  have z: "(word_of_nat (length data) = (0 :: 32 word)) = (data = [])"
    using len by (auto simp flip: unat_eq_0)
  define w where "w = (if timeout_ms < MSG_CHUNK_TIMEOUT_MS then timeout_ms else MSG_CHUNK_TIMEOUT_MS)"
  let ?s = "\<lparr> rv_have_begin = True, rv_total = word_of_nat (length data),
     rv_want_crc = crc32_buf data, rv_buf = [], rv_next_seq = 0, rv_wait = w \<rparr>"
  have rd: "rd_u32le (drop 1 ?b) = word_of_nat (length data)"
    by (simp only: One_nat_def drop_Suc_Cons drop_0 rd_u32le_append)
  have "drop 5 ?b = wr_u32le (crc32_buf data)" by (simp add: wr_u32le_def)
  then have rd': "rd_u32le (drop 5 ?b) = crc32_buf data" by (simp only: u32le.dec_enc)
  have tot: "\<not> length ?b < MSG_BEGIN_LEN" by (simp add: MSG_BEGIN_LEN_def)
  have "recv_begin out_cap timeout_ms (recv_init timeout_ms) ?b =
      (if data = [] then Recv_Done MSG_OK [] else Recv_Go ?s)"
    unfolding recv_begin_def Let_def rd rd' len z w_def using assms(2) tot by simp
  then have "recv_frame out_cap timeout_ms (recv_init timeout_ms) ?b =
      (if data = [] then Recv_Done MSG_OK [] else Recv_Go ?s)"
    by (simp add: recv_frame_def)
  moreover have "data \<noteq> [] \<Longrightarrow>
      recv_loop out_cap timeout_ms ?s (map Some (data_frames 0 data) @ tail_ds) = (MSG_OK, data)"
    using recv_data_frames[of ?s 0 data] len by simp
  ultimately show ?thesis
    by (simp only: send fst_conv snd_conv frames)
       (cases "data = []"; simp add: ble_msg_host_recv_def recv_frame_def)
qed

theorem ble_msg_roundtrip_witness:
  "ble_msg_host_recv 16 1000
     (Some [] # map (\<lambda>h. Some (frame_of_hex h)) (snd (ble_msg_send (\<lambda>_. True) (Some [1, 2, 3]) (length [1 :: byte, 2, 3]))) @ []) =
   (MSG_OK, [1, 2, 3])"
  using ble_msg_roundtrip[of "\<lambda>_. True" "[1, 2, 3]" 16 1000 "[]"] by simp

text \<open>C17: the receiver accepts nothing else: whatever the deliveries, a message it returns
  with MSG_OK has the length and the CRC-32 that a BEGIN frame among them
  announced, and fits in the caller's buffer.\<close>

theorem ble_msg_recv_sound:
  assumes "ble_msg_host_recv out_cap timeout_ms deliveries = (MSG_OK, out)"
  shows "length out \<le> out_cap \<and>
     (\<exists>rx. Some rx \<in> set deliveries \<and> MSG_BEGIN_LEN \<le> length rx \<and> hd rx = MSG_FRAME_BEGIN \<and>
        unat (rd_u32le (drop 1 rx)) = length out \<and> rd_u32le (drop 5 rx) = crc32_buf out)"
  using recv_loop_sound[of out_cap timeout_ms "recv_init timeout_ms" deliveries out "{rx. Some rx \<in> set deliveries}"]
    assms
  by (simp add: ble_msg_host_recv_def recv_init_def recv_inv_def announces_def)

theorem ble_msg_recv_sound_witness:
  "length [0x61 :: byte] \<le> 4"
  using ble_msg_recv_sound[of 4 100 "[Some [1, 1, 0, 0, 0, 0x43, 0xBE, 0xB7, 0xE8], Some [2, 0, 0, 0x61]]" "[0x61]"]
    ble_begin_data by blast

end
