(* ===== verification/AppPool.thy ===== *)
theory AppPool
  imports Base
begin

unbundle bit_operations_syntax

text \<open>
  src/components/jpp_app_pool: the one static memory pool shared by native apps,
  the MicroPython heap and the servers. A pointer into the pool is its offset from
  the base address, NULL is None, size_t is a 32-bit word.
\<close>

definition JPP_APP_POOL_BYTES :: "32 word" where
  "JPP_APP_POOL_BYTES = 80 * 1024"

record app_pool =
  s_in_use :: bool
  s_used :: "32 word"
  s_owner :: "string option"

definition app_pool_boot :: app_pool where
  "app_pool_boot = \<lparr> s_in_use = False, s_used = 0, s_owner = None \<rparr>"

section \<open>Operations\<close>

text \<open>The base pointer (offset 0) with the capacity written through out_size.\<close>

definition app_pool_acquire_as ::
  "string option \<Rightarrow> 32 word \<Rightarrow> app_pool \<Rightarrow> (32 word \<times> 32 word) option \<times> app_pool" where
  "app_pool_acquire_as owner need_bytes p =
     (if s_in_use p then (None, p)
      else if need_bytes > JPP_APP_POOL_BYTES then (None, p)
      else (Some (0, JPP_APP_POOL_BYTES),
            \<lparr> s_in_use = True, s_used = 0,
              s_owner = Some (case owner of Some w \<Rightarrow> w | None \<Rightarrow> ''app'') \<rparr>))"

definition app_pool_acquire ::
  "32 word \<Rightarrow> app_pool \<Rightarrow> (32 word \<times> 32 word) option \<times> app_pool" where
  "app_pool_acquire need_bytes p = app_pool_acquire_as (Some ''app'') need_bytes p"

definition align_up :: "32 word \<Rightarrow> 32 word \<Rightarrow> 32 word" where
  "align_up used align = (used + (align - 1)) AND NOT (align - 1)"

definition app_pool_alloc ::
  "32 word \<Rightarrow> 32 word \<Rightarrow> app_pool \<Rightarrow> 32 word option \<times> app_pool" where
  "app_pool_alloc bytes align p =
     (if \<not> s_in_use p then (None, p)
      else
        let align' = (if align < 4 then 4 else align);
            start = align_up (s_used p) align'
        in if start > JPP_APP_POOL_BYTES \<or> bytes > JPP_APP_POOL_BYTES - start then (None, p)
           else (Some start, p\<lparr> s_used := start + bytes \<rparr>))"

definition app_pool_avail :: "app_pool \<Rightarrow> 32 word" where
  "app_pool_avail p = (if s_in_use p then JPP_APP_POOL_BYTES - s_used p else JPP_APP_POOL_BYTES)"

definition app_pool_release :: "app_pool \<Rightarrow> app_pool" where
  "app_pool_release p = \<lparr> s_in_use = False, s_used = 0, s_owner = None \<rparr>"

definition app_pool_size :: "32 word" where
  "app_pool_size = JPP_APP_POOL_BYTES"

definition app_pool_in_use :: "app_pool \<Rightarrow> bool" where
  "app_pool_in_use p = s_in_use p"

definition app_pool_owner :: "app_pool \<Rightarrow> string option" where
  "app_pool_owner p = (if s_in_use p then s_owner p else None)"

section \<open>Runs\<close>

datatype pool_op =
    Op_Acquire "string option" "32 word"
  | Op_Alloc "32 word" "32 word"
  | Op_Release

text \<open>A block handed out: offset, size, and the alignment it was asked with.\<close>

type_synonym pool_block = "nat \<times> nat \<times> nat"

text \<open>One call; beside the pool, the blocks handed out since it was last acquired.
  The answer is the pointer, if the call returns one.\<close>

fun pool_step ::
  "app_pool \<times> pool_block list \<Rightarrow> pool_op \<Rightarrow> 32 word option \<times> app_pool \<times> pool_block list" where
  "pool_step (p, live) (Op_Acquire owner need) =
     (case app_pool_acquire_as owner need p of
        (None, p') \<Rightarrow> (None, p', live)
      | (Some (base, _), p') \<Rightarrow> (Some base, p', []))"
| "pool_step (p, live) (Op_Alloc bytes align) =
     (case app_pool_alloc bytes align p of
        (None, p') \<Rightarrow> (None, p', live)
      | (Some start, p') \<Rightarrow> (Some start, p', live @ [(unat start, unat bytes, unat align)]))"
| "pool_step (p, live) Op_Release = (None, app_pool_release p, [])"

text \<open>The documented precondition of an allocation: the alignment is a power of two
  (those below four are rounded up to four).\<close>

fun align_ok :: "pool_op \<Rightarrow> bool" where
  "align_ok (Op_Alloc bytes align) \<longleftrightarrow> align < 4 \<or> (\<exists>k\<in>{2..<32}. align = 2 ^ k)"
| "align_ok _ \<longleftrightarrow> True"

section \<open>Alignment\<close>

lemma align_up_pow2:
  assumes "k < 32" "unat u + 2 ^ k < 2 ^ 32"
  shows "unat (align_up u (2 ^ k)) = (unat u + (2 ^ k - 1)) div 2 ^ k * 2 ^ k"
proof -
  let ?x = "u + mask k :: 32 word"
  have m: "(2 ^ k :: 32 word) - 1 = mask k" by (simp add: mask_eq_exp_minus_1)
  have um: "unat (mask k :: 32 word) = 2 ^ k - 1"
  proof -
    have "(2 :: nat) ^ k < 2 ^ 32" using assms(1) by (intro power_strict_increasing) simp_all
    then have "(2 :: nat) ^ k - 1 < 2 ^ LENGTH(32)" by simp
    then have "unat (word_of_nat (2 ^ k - 1) :: 32 word) = 2 ^ k - 1"
      by (subst unat_of_nat) (rule mod_less)
    moreover have "(mask k :: 32 word) = word_of_nat (2 ^ k - 1)"
      by (simp add: mask_eq_exp_minus_1 of_nat_diff)
    ultimately show ?thesis by (simp only:)
  qed
  have x: "unat ?x = unat u + (2 ^ k - 1)"
    using assms(2) um by (subst unat_add_lem[THEN iffD1]) simp_all
  have "?x AND NOT (mask k) = ?x - take_bit k ?x"
  proof -
    have "?x AND NOT (mask k) = push_bit k (drop_bit k ?x)"
      by (rule bit_word_eqI) (auto simp: bit_simps)
    then show ?thesis using bits_ident[of k ?x] by (simp add: eq_diff_eq)
  qed
  then have "unat (align_up u (2 ^ k)) = unat (?x - take_bit k ?x)"
    by (simp add: align_up_def m)
  also have "\<dots> = unat ?x - unat (take_bit k ?x)"
    by (rule unat_sub) (simp add: word_le_nat_alt unsigned_take_bit_eq take_bit_eq_mod[where 'a = nat])
  also have "\<dots> = unat ?x div 2 ^ k * 2 ^ k"
    by (simp add: unsigned_take_bit_eq take_bit_eq_mod[where 'a = nat] minus_mod_eq_div_mult)
  finally show ?thesis by (simp only: x)
qed

lemma align_up_bounds:
  assumes "k < 32" "unat u + 2 ^ k < 2 ^ 32"
  shows "unat u \<le> unat (align_up u (2 ^ k))" "2 ^ k dvd unat (align_up u (2 ^ k))"
    "unat (align_up u (2 ^ k)) < unat u + 2 ^ k"
proof -
  have "unat u + (2 ^ k - 1) = (unat u + (2 ^ k - 1)) div 2 ^ k * 2 ^ k + (unat u + (2 ^ k - 1)) mod 2 ^ k"
    by (rule div_mult_mod_eq[symmetric])
  moreover have "(unat u + (2 ^ k - 1)) mod 2 ^ k < 2 ^ k" by simp
  moreover have "(0 :: nat) < 2 ^ k" by simp
  ultimately show "unat u \<le> unat (align_up u (2 ^ k))"
    "unat (align_up u (2 ^ k)) < unat u + 2 ^ k"
    unfolding align_up_pow2[OF assms] by linarith+
  show "2 ^ k dvd unat (align_up u (2 ^ k))" by (simp add: align_up_pow2[OF assms])
qed

section \<open>The pool invariant\<close>

definition block_ok :: "pool_block \<Rightarrow> bool" where
  "block_ok b \<longleftrightarrow> (case b of (start, n, a) \<Rightarrow> (4 dvd start \<and> a dvd start \<or> 4 dvd start \<and> a < 4))"

definition before :: "pool_block \<Rightarrow> pool_block \<Rightarrow> bool" where
  "before b c \<longleftrightarrow> fst b + fst (snd b) \<le> fst c"

definition pool_inv :: "app_pool \<times> pool_block list \<Rightarrow> bool" where
  "pool_inv s \<longleftrightarrow>
     (case s of (p, live) \<Rightarrow>
        unat (s_used p) \<le> 81920 \<and> (\<not> s_in_use p \<longrightarrow> live = []) \<and>
        (\<forall>b\<in>set live. fst b + fst (snd b) \<le> unat (s_used p)) \<and>
        (\<forall>b\<in>set live. block_ok b) \<and> sorted_wrt before live)"

lemma pool_bytes: "unat JPP_APP_POOL_BYTES = 81920"
  by (simp add: JPP_APP_POOL_BYTES_def)

lemma alloc_some:
  assumes "app_pool_alloc bytes align p = (Some start, p')" "unat (s_used p) \<le> 81920"
    "align_ok (Op_Alloc bytes align)"
  shows "s_in_use p \<and> p' = p\<lparr> s_used := start + bytes \<rparr> \<and> unat (s_used p) \<le> unat start \<and>
     unat (start + bytes) = unat start + unat bytes \<and> unat start + unat bytes \<le> 81920 \<and>
     block_ok (unat start, unat bytes, unat align)"
proof -
  define a where "a = (if align < 4 then 4 else align)"
  obtain k where k: "2 \<le> k" "k < 32" "a = 2 ^ k"
  proof (cases "align < 4")
    case True
    then have "a = 2 ^ 2" by (simp add: a_def)
    then show ?thesis using that[of 2] by simp
  next
    case False
    then obtain k where "k \<in> {2..<32}" "a = 2 ^ k" using assms(3) by (auto simp: a_def)
    then show ?thesis using that[of k] by simp
  qed
  have "(2 :: nat) ^ k \<le> 2 ^ 31" using k(2) by (intro power_increasing) simp_all
  then have fit: "unat (s_used p) + 2 ^ k < 2 ^ 32" using assms(2) by simp
  have c: "s_in_use p" "start = align_up (s_used p) a" "\<not> start > JPP_APP_POOL_BYTES"
    "\<not> bytes > JPP_APP_POOL_BYTES - start" "p' = p\<lparr> s_used := start + bytes \<rparr>"
    using assms(1) by (auto simp: app_pool_alloc_def Let_def a_def split: if_splits)
  have lo: "unat (s_used p) \<le> unat start" "2 ^ k dvd unat start"
    using align_up_bounds(1,2)[OF k(2) fit] by (simp_all add: c(2) k(3))
  have "unat (JPP_APP_POOL_BYTES - start) = 81920 - unat start"
    using c(3) by (subst unat_sub) (simp_all add: pool_bytes not_less)
  then have hi: "unat start + unat bytes \<le> 81920"
    using c(3,4) by (simp add: word_less_nat_alt pool_bytes not_less)
  have sum: "unat (start + bytes) = unat start + unat bytes"
    using hi by (subst unat_add_lem[THEN iffD1]) simp_all
  have "(4 :: nat) dvd 2 ^ k" using k(1) le_imp_power_dvd[of 2 k "2 :: nat"] by simp
  then have four: "4 dvd unat start" using lo(2) by (rule dvd_trans)
  have "unat align dvd unat start \<or> unat align < 4"
  proof (cases "align < 4")
    case True
    then show ?thesis by (simp add: word_less_nat_alt)
  next
    case False
    then have "align = word_of_nat (2 ^ k)" using k a_def by simp
    then have "unat align = 2 ^ k"
      using fit by (simp add: unat_of_nat take_bit_nat_eq_self del: of_nat_power)
    then show ?thesis using lo(2) by simp
  qed
  then show ?thesis using c lo(1) hi sum four by (auto simp: block_ok_def)
qed

lemma pool_step_inv:
  assumes "pool_inv s" "align_ok op"
  shows "pool_inv (snd (pool_step s op))"
proof -
  obtain p live where s: "s = (p, live)" by (cases s)
  show ?thesis
  proof (cases op)
    case (Op_Acquire owner need)
    then show ?thesis using assms(1) s
      by (auto simp: pool_inv_def app_pool_acquire_as_def)
  next
    case (Op_Alloc bytes align)
    obtain r p' where r: "app_pool_alloc bytes align p = (r, p')" by (cases "app_pool_alloc bytes align p")
    show ?thesis
    proof (cases r)
      case None
      then have "p' = p" using r by (auto simp: app_pool_alloc_def Let_def split: if_splits)
      then show ?thesis using assms(1) s Op_Alloc r None by simp
    next
      case (Some start)
      have u: "unat (s_used p) \<le> 81920" using assms(1) s by (simp add: pool_inv_def)
      note a = alloc_some[OF r[unfolded Some] u assms(2)[unfolded Op_Alloc]]
      have e: "snd (pool_step s op) = (p', live @ [(unat start, unat bytes, unat align)])"
        using s Op_Alloc r Some by simp
      have i: "\<forall>b\<in>set live. fst b + fst (snd b) \<le> unat (s_used p)"
        "\<forall>b\<in>set live. block_ok b" "sorted_wrt before live"
        using assms(1) s by (simp_all add: pool_inv_def)
      have "unat (s_used p') = unat start + unat bytes" "s_in_use p'" using a by simp_all
      moreover have "\<forall>b\<in>set live. fst b + fst (snd b) \<le> unat start"
        using i(1) a by (meson le_trans)
      ultimately show ?thesis
        unfolding e using i a by (auto simp: pool_inv_def sorted_wrt_append before_def)
    qed
  next
    case Op_Release
    then show ?thesis using s by (simp add: pool_inv_def app_pool_release_def)
  qed
qed

text \<open>As a machine whose operations are those with a legal alignment.\<close>

definition pool_step_ok ::
  "app_pool \<times> pool_block list \<Rightarrow> pool_op \<Rightarrow> 32 word option \<times> app_pool \<times> pool_block list" where
  "pool_step_ok s op = (if align_ok op then pool_step s op else (None, s))"

interpretation pool: kept_invariant pool_step_ok pool_inv
  by unfold_locales (auto simp: pool_step_ok_def pool_step_inv)

lemma run_pool_step_ok:
  "\<forall>op\<in>set ops. align_ok op \<Longrightarrow> run_ops pool_step_ok s ops = run_ops pool_step s ops"
  by (induction ops arbitrary: s) (simp_all add: pool_step_ok_def)

lemma pool_boot_inv: "pool_inv (app_pool_boot, [])"
  by (simp add: pool_inv_def app_pool_boot_def)

lemma pool_run_example:
  "list_all align_ok [Op_Acquire None 0, Op_Alloc 18 16, Op_Alloc 5 4]"
  "run_ops pool_step (app_pool_boot, []) [Op_Acquire None 0, Op_Alloc 18 16, Op_Alloc 5 4] =
     (\<lparr> s_in_use = True, s_used = 25, s_owner = Some ''app'' \<rparr>, [(0, 18, 16), (20, 5, 4)])"
  by code_simp+

section \<open>Properties\<close>

text \<open>however the pool is used with legal alignments (acquired, allocated from,
  released, in any order and any number of times), the blocks handed out since it was
  last acquired lie inside the 80 KB, do not overlap, and start at a multiple of four
  and of the alignment asked for.\<close>

theorem pool_blocks_disjoint:
  assumes "\<forall>op\<in>set ops. align_ok op"
    and "run_ops pool_step (app_pool_boot, []) ops = (p, live)"
  shows "(\<forall>(start, n, a)\<in>set live. start + n \<le> unat JPP_APP_POOL_BYTES \<and> 4 dvd start \<and>
            (4 \<le> a \<longrightarrow> a dvd start)) \<and>
     (\<forall>i j. i < j \<and> j < length live \<longrightarrow> fst (live ! i) + fst (snd (live ! i)) \<le> fst (live ! j))"
proof -
  have "pool_inv (run_ops pool_step (app_pool_boot, []) ops)"
    using pool.run_inv[OF pool_boot_inv] run_pool_step_ok[OF assms(1)] by metis
  then have "pool_inv (p, live)" by (simp only: assms(2))
  then show ?thesis
    by (fastforce simp: pool_inv_def pool_bytes block_ok_def before_def sorted_wrt_iff_nth_less)
qed

theorem pool_blocks_disjoint_witness:
  "(20, 5, 4) \<in> set [(0 :: nat, 18 :: nat, 16 :: nat), (20, 5, 4)] \<and> 20 + 5 \<le> unat JPP_APP_POOL_BYTES"
  using pool_blocks_disjoint[of "[Op_Acquire None 0, Op_Alloc 18 16, Op_Alloc 5 4]"
      "\<lparr> s_in_use = True, s_used = 25, s_owner = Some ''app'' \<rparr>" "[(0, 18, 16), (20, 5, 4)]"]
    pool_run_example
  by (simp add: list_all_iff del: align_ok.simps)

lemma pool_step_held:
  assumes "s_in_use (fst s)" "op \<noteq> Op_Release"
  shows "s_in_use (fst (snd (pool_step s op))) \<and> s_owner (fst (snd (pool_step s op))) = s_owner (fst s)"
  using assms
  by (cases s; cases op)
     (auto simp: app_pool_acquire_as_def app_pool_alloc_def Let_def split: option.splits prod.splits if_splits)

lemma run_pool_held:
  "s_in_use (fst s) \<Longrightarrow> Op_Release \<notin> set ops \<Longrightarrow>
     s_in_use (fst (run_ops pool_step s ops)) \<and> s_owner (fst (run_ops pool_step s ops)) = s_owner (fst s)"
proof (induction ops arbitrary: s)
  case (Cons op ops)
  then have "op \<noteq> Op_Release" by auto
  note h = pool_step_held[OF Cons.prems(1) this]
  show ?case using Cons.IH[of "snd (pool_step s op)"] h Cons.prems(2) by simp
qed simp

text \<open>the pool has one holder at a time: from a successful acquire until the release,
  whatever is allocated or attempted, it reports that holder and refuses every
  further acquire without a change; after the release it is free and any request of
  at most 80 KB is granted.\<close>

theorem pool_single_holder:
  assumes "app_pool_acquire_as owner need p = (Some r, p')" "Op_Release \<notin> set ops"
    and "fst (run_ops pool_step (p', []) ops) = q"
  shows "app_pool_in_use q \<and>
     app_pool_owner q = Some (case owner of Some w \<Rightarrow> w | None \<Rightarrow> ''app'') \<and>
     app_pool_acquire_as w n q = (None, q) \<and>
     \<not> app_pool_in_use (app_pool_release q) \<and>
     (fst (app_pool_acquire_as w n (app_pool_release q)) = None \<longleftrightarrow> n > JPP_APP_POOL_BYTES)"
proof -
  have p': "s_in_use p'" "s_owner p' = Some (case owner of Some w \<Rightarrow> w | None \<Rightarrow> ''app'')"
    using assms(1) by (auto simp: app_pool_acquire_as_def split: if_splits)
  have "s_in_use q \<and> s_owner q = s_owner p'"
    using run_pool_held[of "(p', [])" ops] p'(1) assms(2,3) by simp
  then show ?thesis
    using p'(2)
    by (simp add: app_pool_in_use_def app_pool_owner_def app_pool_acquire_as_def app_pool_release_def)
qed

theorem pool_single_holder_witness:
  "app_pool_acquire_as (Some ''webdav'') 0 (snd (app_pool_acquire 100 app_pool_boot)) =
     (None, snd (app_pool_acquire 100 app_pool_boot))"
  using pool_single_holder[of "Some ''app''" 100 app_pool_boot _ _ "[]" _ "Some ''webdav''" 0]
  by (simp add: app_pool_acquire_def app_pool_acquire_as_def app_pool_boot_def JPP_APP_POOL_BYTES_def)

end
