(* ===== verification/Battery.thy ===== *)
theory Battery
  imports Rtc
begin

text \<open>
  src/jpp_battery_core.c: the battery gauge. C ints are HOL ints; conversions to int
  are written out. The oneshot reads and the calibration are Espressif's driver: the
  results of the reads are an argument (None is an error), the calibration handle is
  the function from a raw count to millivolts (None is an error), or None for NULL.
\<close>

record battery_config =
  adc_channel :: int
  adc_unit :: int
  full_scale_uv :: int
  r_top_ohm :: int
  r_bot_ohm :: int
  vbat_full_uv :: int
  vbat_empty_uv :: int
  cali_handle :: "(int \<Rightarrow> int option) option"

record battery_state =
  percent :: int
  valid :: bool
  raw_avg :: int
  pin_uv :: int
  vbat_uv :: int

definition BATTERY_ADC_MAX_RAW :: int where "BATTERY_ADC_MAX_RAW = 4095"
definition BATTERY_OVERSAMPLE_COUNT :: nat where "BATTERY_OVERSAMPLE_COUNT = 8"

definition battery_config_defaults :: battery_config where
  "battery_config_defaults =
     \<lparr> adc_channel = 4, adc_unit = 1, full_scale_uv = 3300000, r_top_ohm = 220000,
       r_bot_ohm = 220000, vbat_full_uv = 4200000, vbat_empty_uv = 3000000, cali_handle = None \<rparr>"

text \<open>scheme is what the driver makes for the unit and attenuation, if it can.\<close>

definition battery_cali_init ::
  "(int \<Rightarrow> 'atten \<Rightarrow> (int \<Rightarrow> int option) option) \<Rightarrow> battery_config option \<Rightarrow> 'atten \<Rightarrow> battery_config option" where
  "battery_cali_init create_scheme cfg atten =
     (case cfg of
        None \<Rightarrow> None
      | Some c \<Rightarrow> Some (c\<lparr> cali_handle := create_scheme (adc_unit c) atten \<rparr>))"

text \<open>The sum of the samples; None when a read fails.\<close>

fun sum_reads :: "(nat \<Rightarrow> int option) \<Rightarrow> nat \<Rightarrow> nat \<Rightarrow> int \<Rightarrow> int option" where
  "sum_reads read i 0 raw_sum = Some raw_sum"
| "sum_reads read i (Suc k) raw_sum =
     (case read i of None \<Rightarrow> None | Some sample \<Rightarrow> sum_reads read (Suc i) k (raw_sum + sample))"

definition pin_voltage :: "battery_config \<Rightarrow> int \<Rightarrow> int" where
  "pin_voltage cfg raw =
     (case (case cali_handle cfg of None \<Rightarrow> None | Some to_mv \<Rightarrow> to_mv raw) of
        Some pin_mv \<Rightarrow> pin_mv * 1000
      | None \<Rightarrow> to_int32 (raw * full_scale_uv cfg sdiv BATTERY_ADC_MAX_RAW))"

definition battery_voltage :: "battery_config \<Rightarrow> int \<Rightarrow> int" where
  "battery_voltage cfg pin = to_int32 (pin * (r_top_ohm cfg + r_bot_ohm cfg) sdiv r_bot_ohm cfg)"

definition clamp_percent :: "int \<Rightarrow> int" where
  "clamp_percent p = (let p = (if p < 0 then 0 else p) in if p > 100 then 100 else p)"

definition battery_percent :: "battery_config \<Rightarrow> int \<Rightarrow> int" where
  "battery_percent cfg v =
     clamp_percent (to_int32 ((v - vbat_empty_uv cfg) * 100 sdiv (vbat_full_uv cfg - vbat_empty_uv cfg)))"

definition battery_invalid :: "battery_state \<Rightarrow> battery_state" where
  "battery_invalid s = s\<lparr> valid := False, percent := 0 \<rparr>"

text \<open>A zero bottom resistor divides by zero.\<close>

datatype battery_outcome = Bat_State "battery_state option" | Bat_Division_By_Zero

definition battery_read ::
  "bool \<Rightarrow> battery_config option \<Rightarrow> (nat \<Rightarrow> int option) \<Rightarrow> battery_state option \<Rightarrow> battery_outcome" where
  "battery_read adc cfg read state =
     (case (cfg, state) of
        (Some c, Some s) \<Rightarrow>
          if \<not> adc then Bat_State (Some (battery_invalid s))
          else
            (case sum_reads read 0 BATTERY_OVERSAMPLE_COUNT 0 of
               None \<Rightarrow> Bat_State (Some (battery_invalid s))
             | Some raw_sum \<Rightarrow>
                 let raw = to_int32 (raw_sum sdiv int BATTERY_OVERSAMPLE_COUNT);
                     pin = pin_voltage c raw
                 in if r_bot_ohm c = 0 then Bat_Division_By_Zero
                    else
                      let v = battery_voltage c pin
                      in if vbat_full_uv c - vbat_empty_uv c \<le> 0
                         then Bat_State (Some (battery_invalid s))
                         else Bat_State (Some
                           (s\<lparr> raw_avg := raw, pin_uv := pin, vbat_uv := v,
                              percent := battery_percent c v, valid := True \<rparr>)))
      | (None, Some s) \<Rightarrow> Bat_State (Some (battery_invalid s))
      | (_, None) \<Rightarrow> Bat_State None)"

section \<open>Bounds\<close>

lemma to_int32_id: "- (2 ^ 31) \<le> x \<Longrightarrow> x < 2 ^ 31 \<Longrightarrow> to_int32 x = x"
  by (simp add: to_int32_def signed_of_int signed_take_bit_int_eq_self)

lemma clamp_percent_range: "0 \<le> clamp_percent p \<and> clamp_percent p \<le> 100"
  by (simp add: clamp_percent_def Let_def)

lemma clamp_percent_mono: "p \<le> q \<Longrightarrow> clamp_percent p \<le> clamp_percent q"
  by (simp add: clamp_percent_def Let_def)

text \<open>The gauge without calibration, on counts of the 12-bit converter.\<close>

definition sane_config :: "battery_config \<Rightarrow> bool" where
  "sane_config c \<longleftrightarrow>
     cali_handle c = None \<and> 0 < full_scale_uv c \<and> 0 \<le> r_top_ohm c \<and> 0 < r_bot_ohm c \<and>
     full_scale_uv c * (r_top_ohm c + r_bot_ohm c) div r_bot_ohm c < 21000000 \<and>
     0 \<le> vbat_empty_uv c \<and> vbat_empty_uv c < vbat_full_uv c \<and> vbat_empty_uv c \<le> 21000000"

lemma sum_reads_counts:
  "\<forall>i<n. f (j + i) = Some (g (j + i)) \<and> 0 \<le> g (j + i) \<and> g (j + i) \<le> 4095 \<Longrightarrow>
     \<exists>t. sum_reads f j n acc = Some (acc + t) \<and> t = (\<Sum>i<n. g (j + i)) \<and> 0 \<le> t \<and> t \<le> 4095 * int n"
proof (induction n arbitrary: j acc)
  case (Suc n)
  have h: "f j = Some (g j)" "0 \<le> g j" "g j \<le> 4095" using Suc.prems[rule_format, of 0] by auto
  have "\<forall>i<n. f (Suc j + i) = Some (g (Suc j + i)) \<and> 0 \<le> g (Suc j + i) \<and> g (Suc j + i) \<le> 4095"
    using Suc.prems by (auto dest: spec[where x = "Suc _"])
  from Suc.IH[OF this, of "acc + g j"] obtain t where
    t: "sum_reads f (Suc j) n (acc + g j) = Some (acc + g j + t)"
      "t = (\<Sum>i<n. g (Suc j + i))" "0 \<le> t" "t \<le> 4095 * int n" by auto
  have "(\<Sum>i<Suc n. g (j + i)) = g j + (\<Sum>i<n. g (Suc j + i))"
    by (simp add: sum.lessThan_Suc_shift del: sum.lessThan_Suc)
  then show ?case using h t by (intro exI[of _ "g j + t"]) simp
qed simp

lemma pin_bounds:
  assumes "sane_config c" "0 \<le> raw" "raw \<le> 4095"
  shows "pin_voltage c raw = to_int32 (raw * full_scale_uv c div 4095)"
    "0 \<le> raw * full_scale_uv c div 4095" "raw * full_scale_uv c div 4095 \<le> full_scale_uv c"
proof -
  have p: "0 \<le> raw * full_scale_uv c" using assms by (simp add: sane_config_def)
  then show "0 \<le> raw * full_scale_uv c div 4095" by simp
  have "raw * full_scale_uv c \<le> 4095 * full_scale_uv c"
    using assms by (intro mult_right_mono) (simp_all add: sane_config_def)
  then have "raw * full_scale_uv c div 4095 \<le> 4095 * full_scale_uv c div 4095"
    by (intro zdiv_mono1) simp_all
  then show "raw * full_scale_uv c div 4095 \<le> full_scale_uv c" by simp
  show "pin_voltage c raw = to_int32 (raw * full_scale_uv c div 4095)"
    using assms p by (simp add: pin_voltage_def sane_config_def BATTERY_ADC_MAX_RAW_def sdiv_nonneg)
qed

text \<open>The voltage and the percentage as functions of the averaged count.\<close>

definition gauge_uv :: "battery_config \<Rightarrow> int \<Rightarrow> int" where
  "gauge_uv c raw = raw * full_scale_uv c div 4095 * (r_top_ohm c + r_bot_ohm c) div r_bot_ohm c"

lemma gauge_uv:
  assumes "sane_config c" "0 \<le> raw" "raw \<le> 4095"
  shows "battery_voltage c (pin_voltage c raw) = gauge_uv c raw \<and>
     0 \<le> gauge_uv c raw \<and> gauge_uv c raw < 21000000"
proof -
  let ?p = "raw * full_scale_uv c div 4095" and ?r = "r_top_ohm c + r_bot_ohm c"
  note b = pin_bounds[OF assms]
  have c: "0 < full_scale_uv c" "0 < ?r" "0 < r_bot_ohm c" "r_bot_ohm c \<le> ?r"
    "full_scale_uv c * ?r div r_bot_ohm c < 21000000"
    using assms(1) by (auto simp: sane_config_def)
  have "full_scale_uv c * r_bot_ohm c \<le> full_scale_uv c * ?r"
    using c by (intro mult_left_mono) simp_all
  then have "full_scale_uv c * r_bot_ohm c div r_bot_ohm c \<le> full_scale_uv c * ?r div r_bot_ohm c"
    using c(3) by (rule zdiv_mono1)
  then have fs: "full_scale_uv c < 21000000" using c(3,5) by simp
  then have pin: "pin_voltage c raw = ?p" using b by (simp add: to_int32_id)
  have "?p * ?r \<le> full_scale_uv c * ?r" using b(3) c by (intro mult_right_mono) simp_all
  then have "?p * ?r div r_bot_ohm c \<le> full_scale_uv c * ?r div r_bot_ohm c"
    using c(3) by (rule zdiv_mono1)
  then have hi: "gauge_uv c raw < 21000000" using c(5) by (simp add: gauge_uv_def)
  have nn: "0 \<le> ?p * ?r" using b(2) c by simp
  then have lo: "0 \<le> gauge_uv c raw" using c(3) by (simp add: gauge_uv_def pos_imp_zdiv_nonneg_iff)
  have "battery_voltage c ?p = to_int32 (gauge_uv c raw)"
    using nn c(3) by (simp add: battery_voltage_def gauge_uv_def sdiv_nonneg)
  then show ?thesis using lo hi by (simp add: pin to_int32_id)
qed

lemma gauge_uv_mono:
  assumes "sane_config c" "raw \<le> raw'"
  shows "gauge_uv c raw \<le> gauge_uv c raw'"
proof -
  have c: "0 \<le> full_scale_uv c" "0 \<le> r_top_ohm c + r_bot_ohm c" "0 < r_bot_ohm c"
    using assms(1) by (auto simp: sane_config_def)
  have "raw * full_scale_uv c div 4095 \<le> raw' * full_scale_uv c div 4095"
    using assms(2) c(1) by (intro zdiv_mono1 mult_right_mono) simp_all
  then have "raw * full_scale_uv c div 4095 * (r_top_ohm c + r_bot_ohm c) \<le>
      raw' * full_scale_uv c div 4095 * (r_top_ohm c + r_bot_ohm c)"
    using c(2) by (rule mult_right_mono)
  then show ?thesis unfolding gauge_uv_def using c(3) by (rule zdiv_mono1)
qed

text \<open>The quotient fits an int, so the percentage is monotone in the voltage.\<close>

lemma percent_quotient_fits:
  assumes "sane_config c" "0 \<le> v" "v < 21000000"
  shows "to_int32 ((v - vbat_empty_uv c) * 100 sdiv (vbat_full_uv c - vbat_empty_uv c)) =
     (v - vbat_empty_uv c) * 100 sdiv (vbat_full_uv c - vbat_empty_uv c)"
proof -
  let ?r = "vbat_full_uv c - vbat_empty_uv c" and ?x = "(v - vbat_empty_uv c) * 100"
  have r: "0 < ?r" and x: "- 2100000000 \<le> ?x" "?x \<le> 2100000000"
    using assms by (auto simp: sane_config_def)
  have d: "n div ?r \<le> 2100000000" if "0 \<le> n" "n \<le> 2100000000" for n
  proof -
    have "n div ?r \<le> n div 1" using r that by (intro zdiv_mono2) simp_all
    then show ?thesis using that by simp
  qed
  have "- 2100000000 \<le> ?x sdiv ?r \<and> ?x sdiv ?r \<le> 2100000000"
  proof (cases "?x < 0")
    case True
    then show ?thesis using d[of "- ?x"] x r pos_imp_zdiv_nonneg_iff[OF r, of "- ?x"]
      by (simp add: sdiv_neg)
  next
    case False
    then show ?thesis using d[of ?x] x r pos_imp_zdiv_nonneg_iff[OF r, of ?x]
      by (simp add: sdiv_nonneg)
  qed
  then show ?thesis by (intro to_int32_id) simp_all
qed

lemma battery_percent_sane:
  assumes "sane_config c" "0 \<le> v" "v < 21000000"
  shows "vbat_full_uv c \<le> v \<Longrightarrow> battery_percent c v = 100"
    "v \<le> vbat_empty_uv c \<Longrightarrow> battery_percent c v = 0"
    "v' < 21000000 \<Longrightarrow> v \<le> v' \<Longrightarrow> battery_percent c v \<le> battery_percent c v'"
proof -
  let ?r = "vbat_full_uv c - vbat_empty_uv c"
  have r: "0 < ?r" using assms by (simp add: sane_config_def)
  have e: "battery_percent c w = clamp_percent ((w - vbat_empty_uv c) * 100 sdiv ?r)"
    if "0 \<le> w" "w < 21000000" for w
    using percent_quotient_fits[OF assms(1) that] by (simp add: battery_percent_def)
  show "battery_percent c v = 100" if h: "vbat_full_uv c \<le> v"
  proof -
    have "?r * 100 sdiv ?r \<le> (v - vbat_empty_uv c) * 100 sdiv ?r"
      using h r by (intro sdiv_mono) simp_all
    moreover have "?r * 100 sdiv ?r = ?r * 100 div ?r" using r by (intro sdiv_nonneg) simp_all
    moreover have "?r * 100 div ?r = 100" using r by (intro nonzero_mult_div_cancel_left) simp
    ultimately show ?thesis using assms by (simp add: e clamp_percent_def Let_def)
  qed
  show "battery_percent c v = 0" if h: "v \<le> vbat_empty_uv c"
  proof -
    have "(v - vbat_empty_uv c) * 100 sdiv ?r \<le> 0 sdiv ?r" using h r by (intro sdiv_mono) simp_all
    then show ?thesis using assms r by (simp add: e clamp_percent_def Let_def sdiv_nonneg)
  qed
  show "battery_percent c v \<le> battery_percent c v'" if "v' < 21000000" "v \<le> v'"
    using that assms r by (simp add: e clamp_percent_mono sdiv_mono)
qed

lemma battery_read_counts:
  assumes "sane_config c" "\<forall>i<8. f i = Some (g i) \<and> 0 \<le> g i \<and> g i \<le> 4095"
  defines "raw \<equiv> (\<Sum>i<8. g i) div 8"
  shows "0 \<le> raw \<and> raw \<le> 4095 \<and>
     battery_read True (Some c) f (Some s) = Bat_State (Some
       (s\<lparr> raw_avg := raw, pin_uv := pin_voltage c raw, vbat_uv := gauge_uv c raw,
          percent := battery_percent c (gauge_uv c raw), valid := True \<rparr>))"
proof -
  from sum_reads_counts[of 8 f 0 g 0] assms(2) obtain t where
    t: "sum_reads f 0 8 0 = Some t" "t = (\<Sum>i<8. g i)" "0 \<le> t" "t \<le> 4095 * 8" by auto
  have raw: "0 \<le> raw" "raw \<le> 4095" "to_int32 (t sdiv 8) = raw"
    using t by (simp_all add: raw_def sdiv_nonneg to_int32_id)
  show ?thesis
    using t raw gauge_uv[OF assms(1) raw(1,2)] assms(1)
    by (simp add: battery_read_def BATTERY_OVERSAMPLE_COUNT_def Let_def sane_config_def)
qed

section \<open>Properties\<close>

text \<open>without calibration, for any divider and thresholds within the converter's
  range, a reading of eight counts is valid, its percentage lies in 0 to 100, is 100
  from the full voltage up and 0 from the empty voltage down, and does not fall when
  the counts rise.\<close>

theorem battery_monotone:
  assumes "sane_config c"
    and "\<forall>i<8. f i = Some (g i) \<and> 0 \<le> g i \<and> g i \<le> 4095"
    and "\<forall>i<8. f' i = Some (g' i) \<and> g i \<le> g' i \<and> g' i \<le> 4095"
  shows "\<exists>r r'. battery_read True (Some c) f (Some s) = Bat_State (Some r) \<and>
     battery_read True (Some c) f' (Some s) = Bat_State (Some r') \<and> valid r \<and> valid r' \<and>
     0 \<le> percent r \<and> percent r \<le> percent r' \<and> percent r' \<le> 100 \<and>
     (vbat_full_uv c \<le> vbat_uv r \<longrightarrow> percent r = 100) \<and>
     (vbat_uv r \<le> vbat_empty_uv c \<longrightarrow> percent r = 0)"
proof -
  have "\<forall>i<8. f' i = Some (g' i) \<and> 0 \<le> g' i \<and> g' i \<le> 4095" using assms(2,3) by fastforce
  note r' = battery_read_counts[OF assms(1) this, of s]
  note r = battery_read_counts[OF assms(1,2), of s]
  have "(\<Sum>i<8. g i) \<le> (\<Sum>i<8. g' i)" using assms(3) by (intro sum_mono) simp
  then have "(\<Sum>i<8. g i) div 8 \<le> (\<Sum>i<8. g' i) div 8" by (intro zdiv_mono1) simp_all
  note m = gauge_uv_mono[OF assms(1) this]
  note u = gauge_uv[OF assms(1), of "(\<Sum>i<8. g i) div 8"] gauge_uv[OF assms(1), of "(\<Sum>i<8. g' i) div 8"]
  have "battery_percent c v \<le> 100 \<and> 0 \<le> battery_percent c v" for v
    using clamp_percent_range by (simp add: battery_percent_def)
  then show ?thesis
    using r r' u m battery_percent_sane[OF assms(1)] by simp
qed

lemma battery_defaults_sane: "sane_config battery_config_defaults"
  by (simp add: sane_config_def battery_config_defaults_def)

theorem battery_monotone_witness:
  "\<forall>s :: battery_state. \<exists>r r'.
     battery_read True (Some battery_config_defaults) (\<lambda>_. Some 2000) (Some s) = Bat_State (Some r) \<and>
     battery_read True (Some battery_config_defaults) (\<lambda>_. Some 2600) (Some s) = Bat_State (Some r') \<and>
     percent r \<le> percent r'"
  using battery_monotone[OF battery_defaults_sane, of "\<lambda>_. Some 2000" "\<lambda>_. 2000"
      "\<lambda>_. Some 2600" "\<lambda>_. 2600"]
  by simp blast

end
