(* ===== verification/Kbd.thy ===== *)
theory Kbd
  imports Strings
begin

unbundle bit_operations_syntax

text \<open>
  src/jpp_kbd_core.c: the on-screen keyboard: its layouts, the cursor that edits the
  value, and the renderer into the 128 x 48 pixel buffer. The rows array with row_len
  and row_count is a list of rows; the value array with len is the string of its
  first len characters, and a write past its 65 bytes is None. size_t is nat.
\<close>

section \<open>Pixels\<close>

definition KBD_PX_ROWS :: nat where "KBD_PX_ROWS = 48"
definition KBD_PX_COLS :: nat where "KBD_PX_COLS = 16"

type_synonym pixbuf = "8 word list list"

definition s_font :: "8 word list list" where
  "s_font =
   [[0x00, 0x00, 0x00, 0x00, 0x00], [0x00, 0x00, 0x5F, 0x00, 0x00],
    [0x00, 0x07, 0x00, 0x07, 0x00], [0x14, 0x7F, 0x14, 0x7F, 0x14],
    [0x24, 0x2A, 0x7F, 0x2A, 0x12], [0x23, 0x13, 0x08, 0x64, 0x62],
    [0x36, 0x49, 0x55, 0x22, 0x50], [0x00, 0x05, 0x03, 0x00, 0x00],
    [0x00, 0x1C, 0x22, 0x41, 0x00], [0x00, 0x41, 0x22, 0x1C, 0x00],
    [0x14, 0x08, 0x3E, 0x08, 0x14], [0x08, 0x08, 0x3E, 0x08, 0x08],
    [0x00, 0x50, 0x30, 0x00, 0x00], [0x08, 0x08, 0x08, 0x08, 0x08],
    [0x00, 0x60, 0x60, 0x00, 0x00], [0x20, 0x10, 0x08, 0x04, 0x02],
    [0x3E, 0x51, 0x49, 0x45, 0x3E], [0x00, 0x42, 0x7F, 0x40, 0x00],
    [0x42, 0x61, 0x51, 0x49, 0x46], [0x21, 0x41, 0x45, 0x4B, 0x31],
    [0x18, 0x14, 0x12, 0x7F, 0x10], [0x27, 0x45, 0x45, 0x45, 0x39],
    [0x3C, 0x4A, 0x49, 0x49, 0x30], [0x01, 0x71, 0x09, 0x05, 0x03],
    [0x36, 0x49, 0x49, 0x49, 0x36], [0x06, 0x49, 0x49, 0x29, 0x1E],
    [0x00, 0x36, 0x36, 0x00, 0x00], [0x00, 0x56, 0x36, 0x00, 0x00],
    [0x08, 0x14, 0x22, 0x41, 0x00], [0x14, 0x14, 0x14, 0x14, 0x14],
    [0x00, 0x41, 0x22, 0x14, 0x08], [0x02, 0x01, 0x51, 0x09, 0x06],
    [0x32, 0x49, 0x79, 0x41, 0x3E], [0x7E, 0x11, 0x11, 0x11, 0x7E],
    [0x7F, 0x49, 0x49, 0x49, 0x36], [0x3E, 0x41, 0x41, 0x41, 0x22],
    [0x7F, 0x41, 0x41, 0x22, 0x1C], [0x7F, 0x49, 0x49, 0x49, 0x41],
    [0x7F, 0x09, 0x09, 0x09, 0x01], [0x3E, 0x41, 0x49, 0x49, 0x7A],
    [0x7F, 0x08, 0x08, 0x08, 0x7F], [0x00, 0x41, 0x7F, 0x41, 0x00],
    [0x20, 0x40, 0x41, 0x3F, 0x01], [0x7F, 0x08, 0x14, 0x22, 0x41],
    [0x7F, 0x40, 0x40, 0x40, 0x40], [0x7F, 0x02, 0x0C, 0x02, 0x7F],
    [0x7F, 0x04, 0x08, 0x10, 0x7F], [0x3E, 0x41, 0x41, 0x41, 0x3E],
    [0x7F, 0x09, 0x09, 0x09, 0x06], [0x3E, 0x41, 0x51, 0x21, 0x5E],
    [0x7F, 0x09, 0x19, 0x29, 0x46], [0x46, 0x49, 0x49, 0x49, 0x31],
    [0x01, 0x01, 0x7F, 0x01, 0x01], [0x3F, 0x40, 0x40, 0x40, 0x3F],
    [0x1F, 0x20, 0x40, 0x20, 0x1F], [0x3F, 0x40, 0x38, 0x40, 0x3F],
    [0x63, 0x14, 0x08, 0x14, 0x63], [0x07, 0x08, 0x70, 0x08, 0x07],
    [0x61, 0x51, 0x49, 0x45, 0x43], [0x00, 0x7F, 0x41, 0x41, 0x00],
    [0x02, 0x04, 0x08, 0x10, 0x20], [0x00, 0x41, 0x41, 0x7F, 0x00],
    [0x04, 0x02, 0x01, 0x02, 0x04], [0x40, 0x40, 0x40, 0x40, 0x40],
    [0x00, 0x01, 0x02, 0x04, 0x00], [0x20, 0x54, 0x54, 0x54, 0x78],
    [0x7F, 0x48, 0x44, 0x44, 0x38], [0x38, 0x44, 0x44, 0x44, 0x20],
    [0x38, 0x44, 0x44, 0x48, 0x7F], [0x38, 0x54, 0x54, 0x54, 0x18],
    [0x08, 0x7E, 0x09, 0x01, 0x02], [0x0C, 0x52, 0x52, 0x52, 0x3E],
    [0x7F, 0x08, 0x04, 0x04, 0x78], [0x00, 0x44, 0x7D, 0x40, 0x00],
    [0x20, 0x40, 0x44, 0x3D, 0x00], [0x7F, 0x10, 0x28, 0x44, 0x00],
    [0x00, 0x41, 0x7F, 0x40, 0x00], [0x7C, 0x04, 0x18, 0x04, 0x78],
    [0x7C, 0x08, 0x04, 0x04, 0x78], [0x38, 0x44, 0x44, 0x44, 0x38],
    [0x7C, 0x14, 0x14, 0x14, 0x08], [0x08, 0x14, 0x14, 0x18, 0x7C],
    [0x7C, 0x08, 0x04, 0x04, 0x08], [0x48, 0x54, 0x54, 0x54, 0x20],
    [0x04, 0x3F, 0x44, 0x40, 0x20], [0x3C, 0x40, 0x40, 0x40, 0x7C],
    [0x1C, 0x20, 0x40, 0x20, 0x1C], [0x3C, 0x40, 0x30, 0x40, 0x3C],
    [0x44, 0x28, 0x10, 0x28, 0x44], [0x0C, 0x50, 0x50, 0x50, 0x3C],
    [0x44, 0x64, 0x54, 0x4C, 0x44], [0x00, 0x08, 0x36, 0x41, 0x00],
    [0x00, 0x00, 0x7F, 0x00, 0x00], [0x00, 0x41, 0x36, 0x08, 0x00],
    [0x0A, 0x07, 0x00, 0x0A, 0x07]]"

definition KBD_ICON_SHIFT :: "8 word list" where "KBD_ICON_SHIFT = [0x04, 0x06, 0x1F, 0x06, 0x04]"
definition KBD_ICON_DONE :: "8 word list" where "KBD_ICON_DONE = [0x18, 0x30, 0x18, 0x0C, 0x06]"
definition KBD_ICON_CANCEL :: "8 word list" where "KBD_ICON_CANCEL = [0x22, 0x14, 0x08, 0x14, 0x22]"
definition KBD_ICON_BKSP :: "8 word list" where "KBD_ICON_BKSP = [0x08, 0x1C, 0x2A, 0x08, 0x08]"

definition kbd_px :: "pixbuf \<Rightarrow> int \<Rightarrow> int \<Rightarrow> bool \<Rightarrow> pixbuf" where
  "kbd_px buf x y on =
     (if x < 0 \<or> x \<ge> 128 \<or> y < 0 \<or> y \<ge> int KBD_PX_ROWS then buf
      else
        let row = buf ! nat y;
            byte = row ! nat (x div 8);
            b = drop_bit (nat (x mod 8)) 0x80
        in buf[nat y := row[nat (x div 8) := (if on then byte OR b else byte AND NOT b)]])"

text \<open>The columns of a glyph or icon, drawn on, or off in an inverted cell.\<close>

definition kbd_columns :: "pixbuf \<Rightarrow> int \<Rightarrow> int \<Rightarrow> 8 word list \<Rightarrow> bool \<Rightarrow> pixbuf" where
  "kbd_columns buf x y g knockout =
     foldl (\<lambda>b c. foldl (\<lambda>b r.
         if bit (g ! c) r then kbd_px b (x + int c) (y + int r) (\<not> knockout) else b) b [0..<8])
       buf [0..<5]"

definition kbd_glyph :: "pixbuf \<Rightarrow> int \<Rightarrow> int \<Rightarrow> char \<Rightarrow> bool \<Rightarrow> pixbuf" where
  "kbd_glyph buf x y ch knockout =
     (let code = of_char ch :: nat
      in if code < 0x20 \<or> code - 0x20 \<ge> length s_font then buf
         else kbd_columns buf x y (s_font ! (code - 0x20)) knockout)"

fun kbd_text :: "pixbuf \<Rightarrow> int \<Rightarrow> int \<Rightarrow> string \<Rightarrow> int \<Rightarrow> bool \<Rightarrow> pixbuf" where
  "kbd_text buf x y [] max_x knockout = buf"
| "kbd_text buf x y (ch # s) max_x knockout =
     (if x + 5 > max_x then buf
      else kbd_text (kbd_glyph buf x y ch knockout) (x + 6) y s max_x knockout)"

definition kbd_fill_rect :: "pixbuf \<Rightarrow> int \<Rightarrow> int \<Rightarrow> int \<Rightarrow> int \<Rightarrow> bool \<Rightarrow> pixbuf" where
  "kbd_fill_rect buf x0 y0 x1 y1 on =
     foldl (\<lambda>b y. foldl (\<lambda>b x. kbd_px b x y on) b [x0..x1]) buf [y0..y1]"

definition kbd_frame_rect :: "pixbuf \<Rightarrow> int \<Rightarrow> int \<Rightarrow> int \<Rightarrow> int \<Rightarrow> pixbuf" where
  "kbd_frame_rect buf x0 y0 x1 y1 =
     foldl (\<lambda>b y. kbd_px (kbd_px b x0 y True) x1 y True)
       (foldl (\<lambda>b x. kbd_px (kbd_px b x y0 True) x y1 True) buf [x0..x1]) [y0..y1]"

definition kbd_icon :: "pixbuf \<Rightarrow> int \<Rightarrow> int \<Rightarrow> 8 word list \<Rightarrow> bool \<Rightarrow> pixbuf" where
  "kbd_icon buf x y bmp knockout = kbd_columns buf x y bmp knockout"

section \<open>Layout\<close>

datatype kbd_input_type = KBD_TYPE_TEXT | KBD_TYPE_NUMBER | KBD_TYPE_DATE | KBD_TYPE_TIME

datatype kbd_key_kind =
    KBD_KIND_CHAR | KBD_KIND_SHIFT | KBD_KIND_SPACE | KBD_KIND_BKSP | KBD_KIND_DONE | KBD_KIND_CANCEL

text \<open>shift_ch is None for the NUL character.\<close>

record kbd_key =
  key_ch :: char
  key_kind :: kbd_key_kind
  key_shift_ch :: "char option"

definition char_key :: "char \<Rightarrow> kbd_key" where
  "char_key c = \<lparr> key_ch = c, key_kind = KBD_KIND_CHAR, key_shift_ch = None \<rparr>"

definition special_key :: "char \<Rightarrow> kbd_key_kind \<Rightarrow> kbd_key" where
  "special_key c k = \<lparr> key_ch = c, key_kind = k, key_shift_ch = None \<rparr>"

definition kbd_digits_row :: "kbd_key list" where
  "kbd_digits_row =
     map (\<lambda>(d, s). \<lparr> key_ch = d, key_kind = KBD_KIND_CHAR, key_shift_ch = Some s \<rparr>)
       (zip ''1234567890'' ''!?@#*/:.()'')"

definition kbd_layout :: "kbd_input_type \<Rightarrow> kbd_key list list" where
  "kbd_layout type =
     (if type = KBD_TYPE_TEXT then
        [kbd_digits_row,
         map char_key ''qwertyuiop'',
         map char_key ''asdfghjkl'' @ [special_key (CHR ''^'') KBD_KIND_SHIFT],
         map char_key ''zxcvbnm'' @
           [special_key (CHR ''_'') KBD_KIND_SPACE, special_key (CHR ''<'') KBD_KIND_BKSP,
            special_key (CHR ''*'') KBD_KIND_DONE, special_key (CHR ''X'') KBD_KIND_CANCEL]]
      else
        [kbd_digits_row,
         (if type = KBD_TYPE_NUMBER then map char_key ''-.''
          else if type = KBD_TYPE_DATE then map char_key ''-''
          else map char_key '':'') @
           [special_key (CHR ''<'') KBD_KIND_BKSP, special_key (CHR ''*'') KBD_KIND_DONE,
            special_key (CHR ''X'') KBD_KIND_CANCEL]])"

section \<open>Cursor\<close>

definition KBD_VALUE_MAX :: nat where "KBD_VALUE_MAX = 64"

record kbd_cursor =
  kc_value :: string
  kc_focus_row :: nat
  kc_focus_col :: nat
  kc_upper :: bool

definition kbd_cursor_init :: "cstr \<Rightarrow> kbd_cursor" where
  "kbd_cursor_init prefill =
     \<lparr> kc_value = (case prefill of None \<Rightarrow> [] | Some s \<Rightarrow> take KBD_VALUE_MAX s),
       kc_focus_row = 0, kc_focus_col = 0, kc_upper = False \<rparr>"

datatype kbd_result = KBD_RESULT_CONTINUE | KBD_RESULT_DONE | KBD_RESULT_CANCEL

text \<open>Appends a character below the cap; past the array it is None.\<close>

definition kbd_insert :: "nat \<Rightarrow> char \<Rightarrow> kbd_cursor \<Rightarrow> kbd_cursor option" where
  "kbd_insert cap ch c =
     (if length (kc_value c) < cap then
        if length (kc_value c) + 1 \<le> KBD_VALUE_MAX then Some (c\<lparr> kc_value := kc_value c @ [ch] \<rparr>)
        else None
      else Some c)"

text \<open>The character a key stands for.\<close>

definition shifted :: "bool \<Rightarrow> kbd_key \<Rightarrow> char" where
  "shifted upper k =
     (if upper then
        if 97 \<le> (of_char (key_ch k) :: nat) \<and> (of_char (key_ch k) :: nat) \<le> 122
        then char_of ((of_char (key_ch k) :: nat) - 97 + 65)
        else (case key_shift_ch k of Some s \<Rightarrow> s | None \<Rightarrow> key_ch k)
      else key_ch k)"

definition kbd_press :: "nat \<Rightarrow> kbd_key \<Rightarrow> kbd_cursor \<Rightarrow> (kbd_result \<times> kbd_cursor) option" where
  "kbd_press cap k c =
     (case key_kind k of
        KBD_KIND_SHIFT \<Rightarrow> Some (KBD_RESULT_CONTINUE, c\<lparr> kc_upper := \<not> kc_upper c \<rparr>)
      | KBD_KIND_BKSP \<Rightarrow> Some (KBD_RESULT_CONTINUE, c\<lparr> kc_value := butlast (kc_value c) \<rparr>)
      | KBD_KIND_SPACE \<Rightarrow> map_option (Pair KBD_RESULT_CONTINUE) (kbd_insert cap (CHR '' '') c)
      | KBD_KIND_DONE \<Rightarrow> Some (KBD_RESULT_DONE, c)
      | KBD_KIND_CANCEL \<Rightarrow> Some (KBD_RESULT_CANCEL, c)
      | KBD_KIND_CHAR \<Rightarrow>
          map_option (Pair KBD_RESULT_CONTINUE) (kbd_insert cap (shifted (kc_upper c) k) c))"

definition clamp_col :: "kbd_key list list \<Rightarrow> kbd_cursor \<Rightarrow> kbd_cursor" where
  "clamp_col rows c =
     (let n = length (rows ! kc_focus_row c)
      in if kc_focus_col c \<ge> n then c\<lparr> kc_focus_col := n - 1 \<rparr> else c)"

definition kbd_step ::
  "kbd_key list list \<Rightarrow> int \<Rightarrow> nat \<Rightarrow> kbd_cursor \<Rightarrow> (kbd_result \<times> kbd_cursor) option" where
  "kbd_step rows sdk_key cap c =
     (let row = kc_focus_row c; col = kc_focus_col c; n = length (rows ! row)
      in if sdk_key = 6 then Some (KBD_RESULT_CANCEL, c)
         else if sdk_key = 1 then
           Some (KBD_RESULT_CONTINUE, clamp_col rows
             (c\<lparr> kc_focus_row := (if row = 0 then length rows - 1 else row - 1) \<rparr>))
         else if sdk_key = 2 then
           Some (KBD_RESULT_CONTINUE, clamp_col rows (c\<lparr> kc_focus_row := (row + 1) mod length rows \<rparr>))
         else if sdk_key = 3 then
           Some (KBD_RESULT_CONTINUE, clamp_col rows
             (c\<lparr> kc_focus_col := (if col = 0 then n - 1 else col - 1) \<rparr>))
         else if sdk_key = 4 then
           Some (KBD_RESULT_CONTINUE, clamp_col rows (c\<lparr> kc_focus_col := (col + 1) mod n \<rparr>))
         else if sdk_key = 5 then
           (case kbd_press cap (rows ! row ! col) c of
              None \<Rightarrow> None
            | Some (KBD_RESULT_CONTINUE, c') \<Rightarrow> Some (KBD_RESULT_CONTINUE, clamp_col rows c')
            | Some (r, c') \<Rightarrow> Some (r, c'))
         else Some (KBD_RESULT_CONTINUE, clamp_col rows c))"

section \<open>Render\<close>

definition kbd_field :: "cstr \<Rightarrow> bool \<Rightarrow> string option" where
  "kbd_field input_text ghost =
     (case input_text of
        Some (ch # s) \<Rightarrow>
          let shown = ch # s;
              tail_text = (if length shown > 19 then drop (length shown - 19) shown else shown)
          in Some (if ghost then ''['' @ tail_text @ '']'' else tail_text @ ''_'')
      | _ \<Rightarrow> (if \<not> ghost then Some ''_'' else None))"

definition kbd_draw_key :: "pixbuf \<Rightarrow> kbd_key \<Rightarrow> bool \<Rightarrow> bool \<Rightarrow> int \<Rightarrow> int \<Rightarrow> pixbuf" where
  "kbd_draw_key buf k upper active gx row_top =
     (case key_kind k of
        KBD_KIND_SHIFT \<Rightarrow> kbd_icon buf gx row_top KBD_ICON_SHIFT active
      | KBD_KIND_DONE \<Rightarrow> kbd_icon buf gx row_top KBD_ICON_DONE active
      | KBD_KIND_CANCEL \<Rightarrow> kbd_icon buf gx row_top KBD_ICON_CANCEL active
      | KBD_KIND_BKSP \<Rightarrow> kbd_icon buf gx row_top KBD_ICON_BKSP active
      | KBD_KIND_SPACE \<Rightarrow> kbd_glyph buf gx row_top (key_ch k) active
      | KBD_KIND_CHAR \<Rightarrow> kbd_glyph buf gx row_top (shifted upper k) active)"

definition row_top :: "nat \<Rightarrow> int" where "row_top r = 12 + int r * 9"
definition cell_w :: "kbd_key list list \<Rightarrow> nat \<Rightarrow> int" where
  "cell_w rows r = 128 div int (length (rows ! r))"
definition cell_x :: "kbd_key list list \<Rightarrow> nat \<Rightarrow> nat \<Rightarrow> int" where
  "cell_x rows r c = int c * cell_w rows r"

definition key_active :: "kbd_key list list \<Rightarrow> kbd_cursor \<Rightarrow> nat \<Rightarrow> nat \<Rightarrow> bool" where
  "key_active rows cursor r c \<longleftrightarrow>
     (r = kc_focus_row cursor \<and> c = kc_focus_col cursor) \<or>
     (key_kind (rows ! r ! c) = KBD_KIND_SHIFT \<and> kc_upper cursor)"

definition kbd_draw_cell :: "kbd_key list list \<Rightarrow> kbd_cursor \<Rightarrow> nat \<Rightarrow> pixbuf \<Rightarrow> nat \<Rightarrow> pixbuf" where
  "kbd_draw_cell rows cursor r buf c =
     (let w = cell_w rows r; x = cell_x rows r c; gx = x + (w - 5) sdiv 2;
          active = key_active rows cursor r c;
          buf = (if active then kbd_fill_rect buf x (row_top r - 1) (x + w - 2) (row_top r + 8) True
                 else buf)
      in kbd_draw_key buf (rows ! r ! c) (kc_upper cursor) active gx (row_top r))"

definition kbd_input_field :: "pixbuf \<Rightarrow> cstr \<Rightarrow> bool \<Rightarrow> pixbuf" where
  "kbd_input_field buf input_text ghost =
     (let buf = kbd_frame_rect buf 0 0 127 10
      in case kbd_field input_text ghost of None \<Rightarrow> buf | Some f \<Rightarrow> kbd_text buf 4 2 f 124 False)"

definition kbd_render ::
  "kbd_key list list \<Rightarrow> cstr \<Rightarrow> bool \<Rightarrow> kbd_cursor \<Rightarrow> pixbuf" where
  "kbd_render rows input_text ghost cursor =
     foldl (\<lambda>b r. foldl (kbd_draw_cell rows cursor r) b [0..<length (rows ! r)])
       (kbd_input_field (replicate KBD_PX_ROWS (replicate KBD_PX_COLS 0)) input_text ghost)
       [0..<length rows]"

section \<open>What drawing paints\<close>

definition on_screen :: "int \<Rightarrow> int \<Rightarrow> bool" where
  "on_screen x y \<longleftrightarrow> 0 \<le> x \<and> x < 128 \<and> 0 \<le> y \<and> y < 48"

definition buf_ok :: "pixbuf \<Rightarrow> bool" where
  "buf_ok buf \<longleftrightarrow> length buf = 48 \<and> (\<forall>row\<in>set buf. length row = 16)"

definition pixel :: "pixbuf \<Rightarrow> int \<Rightarrow> int \<Rightarrow> bool" where
  "pixel buf x y = bit (buf ! nat y ! nat (x div 8)) (7 - nat (x mod 8))"

text \<open>f sets the on-screen pixels of S to the value v and leaves the others.\<close>

definition paints :: "(pixbuf \<Rightarrow> pixbuf) \<Rightarrow> (int \<Rightarrow> int \<Rightarrow> bool) \<Rightarrow> bool \<Rightarrow> bool" where
  "paints f S v \<longleftrightarrow>
     (\<forall>buf. buf_ok buf \<longrightarrow>
        buf_ok (f buf) \<and>
        (\<forall>x y. on_screen x y \<longrightarrow> pixel (f buf) x y = (if S x y then v else pixel buf x y)))"

lemma bit_0x80: "k < 8 \<Longrightarrow> bit (drop_bit k 0x80 :: 8 word) n \<longleftrightarrow> k + n = 7"
proof -
  assume "k < 8"
  have "(0x80 :: 8 word) = 2 ^ 7" by simp
  then show ?thesis by (simp only: bit_drop_bit_eq o_apply bit_exp_iff) (auto simp: possible_bit_def)
qed

lemma paints_px: "paints (\<lambda>b. kbd_px b x y v) (\<lambda>x' y'. x' = x \<and> y' = y) v"
  unfolding paints_def
proof (intro allI impI conjI)
  fix buf assume b: "buf_ok buf"
  then show "buf_ok (kbd_px buf x y v)"
    by (auto simp: buf_ok_def kbd_px_def KBD_PX_ROWS_def Let_def dest: set_update_subset_insert[THEN subsetD])
  fix x' y' assume o': "on_screen x' y'"
  show "pixel (kbd_px buf x y v) x' y' = (if x' = x \<and> y' = y then v else pixel buf x' y')"
  proof (cases "on_screen x y")
    case False
    then show ?thesis using o' by (auto simp: kbd_px_def on_screen_def KBD_PX_ROWS_def)
  next
    case True
    let ?b = "drop_bit (nat (x mod 8)) 0x80 :: 8 word"
    let ?byte = "buf ! nat y ! nat (x div 8)"
    have e: "kbd_px buf x y v = buf[nat y := (buf ! nat y)[nat (x div 8) := (if v then ?byte OR ?b else ?byte AND NOT ?b)]]"
      using True by (simp add: kbd_px_def on_screen_def KBD_PX_ROWS_def Let_def)
    have len: "nat y < length buf" "nat (x div 8) < length (buf ! nat y)"
      using True b by (auto simp: buf_ok_def on_screen_def)
    have k: "nat (x mod 8) < 8" "nat (x' mod 8) < 8" by auto
    show ?thesis
    proof (cases "nat y' = nat y \<and> nat (x' div 8) = nat (x div 8)")
      case False
      have ne: "\<not> (x' = x \<and> y' = y)" using False by blast
      have "kbd_px buf x y v ! nat y' ! nat (x' div 8) = buf ! nat y' ! nat (x' div 8)"
        using False len by (cases "nat y' = nat y") (simp_all add: e)
      then show ?thesis by (simp only: if_not_P[OF ne] pixel_def)
    next
      case same: True
      then have yy: "y' = y" and dd: "x' div 8 = x div 8"
        using True o' same by (simp_all add: on_screen_def eq_nat_nat_iff pos_imp_zdiv_nonneg_iff)
      have xx: "x' = x \<longleftrightarrow> nat (x' mod 8) = nat (x mod 8)"
        using dd by (metis div_mult_mod_eq eq_nat_nat_iff pos_mod_sign zero_less_numeral)
      have "pixel (kbd_px buf x y v) x' y' =
          bit (if v then ?byte OR ?b else ?byte AND NOT ?b) (7 - nat (x' mod 8))"
        using len by (simp add: e pixel_def yy dd)
      also have "\<dots> = (if nat (x' mod 8) = nat (x mod 8) then v else bit ?byte (7 - nat (x' mod 8)))"
      proof -
        define j where "j = nat (x' mod 8)"
        define i where "i = nat (x mod 8)"
        have ij: "i < 8" "j < 8" "7 - j < 8" using k by (simp_all add: i_def j_def)
        have "bit ?b (7 - j) \<longleftrightarrow> j = i"
          unfolding i_def[symmetric] bit_0x80[OF ij(1)] using ij by linarith
        then show ?thesis
          unfolding j_def[symmetric] i_def[symmetric] using ij
          by (cases v) (simp_all add: bit_or_iff bit_and_iff bit_not_iff possible_bit_def)
      qed
      finally show ?thesis by (simp only: xx yy dd pixel_def[of buf] simp_thms)
    qed
  qed
qed

lemma paints_id: "paints (\<lambda>b. b) (\<lambda>x y. False) v"
  by (simp add: paints_def)

lemma paints_comp:
  "paints f S v \<Longrightarrow> paints g T v \<Longrightarrow> paints (\<lambda>b. g (f b)) (\<lambda>x y. S x y \<or> T x y) v"
  by (simp add: paints_def)

lemma paints_foldl:
  "(\<And>i. i \<in> set xs \<Longrightarrow> paints (f i) (S i) v) \<Longrightarrow>
     paints (\<lambda>b. foldl (\<lambda>b i. f i b) b xs) (\<lambda>x y. \<exists>i\<in>set xs. S i x y) v"
proof (induction xs)
  case Nil
  then show ?case by (simp add: paints_id)
next
  case (Cons a xs)
  have "paints (\<lambda>b. foldl (\<lambda>b i. f i b) (f a b) xs) (\<lambda>x y. S a x y \<or> (\<exists>i\<in>set xs. S i x y)) v"
    using Cons by (intro paints_comp) simp_all
  then show ?case by simp
qed

lemma paints_cong: "paints f S v \<Longrightarrow> (\<And>x y. on_screen x y \<Longrightarrow> S x y = T x y) \<Longrightarrow> paints f T v"
  by (simp add: paints_def)

text \<open>The ink of a five-column bitmap at (x, y).\<close>

definition ink :: "8 word list \<Rightarrow> int \<Rightarrow> int \<Rightarrow> int \<Rightarrow> int \<Rightarrow> bool" where
  "ink g x y x' y' \<longleftrightarrow>
     x \<le> x' \<and> x' < x + 5 \<and> y \<le> y' \<and> y' < y + 8 \<and> bit (g ! nat (x' - x)) (nat (y' - y))"

lemma paints_columns: "paints (\<lambda>b. kbd_columns b x y g knockout) (ink g x y) (\<not> knockout)"
proof -
  have "paints (\<lambda>b. if bit (g ! c) r then kbd_px b (x + int c) (y + int r) (\<not> knockout) else b)
      (\<lambda>x' y'. bit (g ! c) r \<and> x' = x + int c \<and> y' = y + int r) (\<not> knockout)" for c r
    using paints_px[of "x + int c" "y + int r" "\<not> knockout"] paints_id by (cases "bit (g ! c) r") simp_all
  then have "paints (\<lambda>b. kbd_columns b x y g knockout)
      (\<lambda>x' y'. \<exists>c\<in>set [0..<5]. \<exists>r\<in>set [0..<8]. bit (g ! c) r \<and> x' = x + int c \<and> y' = y + int r)
      (\<not> knockout)"
    unfolding kbd_columns_def by (intro paints_foldl)
  then show ?thesis
  proof (rule paints_cong)
    fix x' y'
    have "(\<exists>c<5. \<exists>r<8. bit (g ! c) r \<and> x' = x + int c \<and> y' = y + int r) = ink g x y x' y'"
    proof
      assume "ink g x y x' y'"
      then show "\<exists>c<5. \<exists>r<8. bit (g ! c) r \<and> x' = x + int c \<and> y' = y + int r"
        by (intro exI[of _ "nat (x' - x)"] conjI exI[of _ "nat (y' - y)"]) (auto simp: ink_def)
    qed (auto simp: ink_def)
    then show "(\<exists>c\<in>set [0..<5]. \<exists>r\<in>set [0..<8]. bit (g ! c) r \<and> x' = x + int c \<and> y' = y + int r) = ink g x y x' y'"
      by (simp add: Bex_def)
  qed
qed

lemma paints_fill_rect:
  "paints (\<lambda>b. kbd_fill_rect b x0 y0 x1 y1 v) (\<lambda>x y. x0 \<le> x \<and> x \<le> x1 \<and> y0 \<le> y \<and> y \<le> y1) v"
proof -
  have "paints (\<lambda>b. kbd_fill_rect b x0 y0 x1 y1 v)
      (\<lambda>x' y'. \<exists>y\<in>set [y0..y1]. \<exists>x\<in>set [x0..x1]. x' = x \<and> y' = y) v"
    unfolding kbd_fill_rect_def by (intro paints_foldl paints_px)
  then show ?thesis by (rule paints_cong) auto
qed

lemma paints_frame_rect:
  "paints (\<lambda>b. kbd_frame_rect b x0 y0 x1 y1)
     (\<lambda>x y. (x0 \<le> x \<and> x \<le> x1 \<and> (y = y0 \<or> y = y1)) \<or> (y0 \<le> y \<and> y \<le> y1 \<and> (x = x0 \<or> x = x1))) True"
proof -
  have "paints (\<lambda>b. kbd_frame_rect b x0 y0 x1 y1)
      (\<lambda>x' y'. (\<exists>x\<in>set [x0..x1]. (x' = x \<and> y' = y0) \<or> (x' = x \<and> y' = y1)) \<or>
        (\<exists>y\<in>set [y0..y1]. (x' = x0 \<and> y' = y) \<or> (x' = x1 \<and> y' = y))) True"
    unfolding kbd_frame_rect_def by (intro paints_comp paints_foldl paints_px)
  then show ?thesis by (rule paints_cong) auto
qed

section \<open>The rendered cells\<close>

text \<open>f changes each on-screen pixel by a function of its old value alone.\<close>

definition shades :: "(pixbuf \<Rightarrow> pixbuf) \<Rightarrow> (int \<Rightarrow> int \<Rightarrow> bool \<Rightarrow> bool) \<Rightarrow> bool" where
  "shades f P \<longleftrightarrow>
     (\<forall>buf. buf_ok buf \<longrightarrow>
        buf_ok (f buf) \<and> (\<forall>x y. on_screen x y \<longrightarrow> pixel (f buf) x y = P x y (pixel buf x y)))"

lemma paints_shades: "paints f S v \<Longrightarrow> shades f (\<lambda>x y w. if S x y then v else w)"
  by (simp add: paints_def shades_def)

lemma shades_comp: "shades f P \<Longrightarrow> shades g Q \<Longrightarrow> shades (\<lambda>b. g (f b)) (\<lambda>x y v. Q x y (P x y v))"
  by (simp add: shades_def)

lemma shades_foldl:
  "(\<And>i. i \<in> set xs \<Longrightarrow> shades (f i) (P i)) \<Longrightarrow>
     shades (\<lambda>b. foldl (\<lambda>b i. f i b) b xs) (\<lambda>x y v. foldl (\<lambda>v i. P i x y v) v xs)"
proof (induction xs)
  case Nil
  then show ?case by (simp add: shades_def)
next
  case (Cons a xs)
  have 1: "shades (f a) (P a)" using Cons.prems by simp
  have 2: "shades (\<lambda>b. foldl (\<lambda>b i. f i b) b xs) (\<lambda>x y v. foldl (\<lambda>v i. P i x y v) v xs)"
    using Cons.prems by (intro Cons.IH) simp
  from shades_comp[OF 1 2] show ?case by simp
qed

lemma foldl_idle: "(\<And>i w. i \<in> set xs \<Longrightarrow> g i w = w) \<Longrightarrow> foldl (\<lambda>w i. g i w) v xs = v"
  by (induction xs arbitrary: v) simp_all

lemma foldl_single:
  assumes "distinct xs" "a \<in> set xs" "\<And>i w. i \<in> set xs \<Longrightarrow> i \<noteq> a \<Longrightarrow> g i w = w"
  shows "foldl (\<lambda>w i. g i w) v xs = g a v"
proof -
  obtain ys zs where xs: "xs = ys @ a # zs" using split_list[OF assms(2)] by blast
  have nin: "a \<notin> set ys" "a \<notin> set zs" using assms(1) by (simp_all add: xs)
  have y: "foldl (\<lambda>w i. g i w) v ys = v"
  proof (rule foldl_idle[of ys g v])
    fix i w assume "i \<in> set ys"
    then show "g i w = w" using nin(1) by (intro assms(3)) (auto simp: xs)
  qed
  have z: "foldl (\<lambda>w i. g i w) (g a v) zs = g a v"
  proof (rule foldl_idle[of zs g])
    fix i w assume "i \<in> set zs"
    then show "g i w = w" using nin(2) by (intro assms(3)) (auto simp: xs)
  qed
  show ?thesis by (simp add: xs y z)
qed

definition glyph_of :: "char \<Rightarrow> 8 word list option" where
  "glyph_of ch =
     (let code = of_char ch :: nat
      in if code < 0x20 \<or> code - 0x20 \<ge> length s_font then None else Some (s_font ! (code - 0x20)))"

definition key_bitmap :: "bool \<Rightarrow> kbd_key \<Rightarrow> 8 word list option" where
  "key_bitmap upper k =
     (case key_kind k of
        KBD_KIND_SHIFT \<Rightarrow> Some KBD_ICON_SHIFT
      | KBD_KIND_DONE \<Rightarrow> Some KBD_ICON_DONE
      | KBD_KIND_CANCEL \<Rightarrow> Some KBD_ICON_CANCEL
      | KBD_KIND_BKSP \<Rightarrow> Some KBD_ICON_BKSP
      | KBD_KIND_SPACE \<Rightarrow> glyph_of (key_ch k)
      | KBD_KIND_CHAR \<Rightarrow> glyph_of (shifted upper k))"

definition bitmap_ink :: "8 word list option \<Rightarrow> int \<Rightarrow> int \<Rightarrow> int \<Rightarrow> int \<Rightarrow> bool" where
  "bitmap_ink g gx gy x y \<longleftrightarrow> (case g of None \<Rightarrow> False | Some g \<Rightarrow> ink g gx gy x y)"

lemma bitmap_ink_simps [simp]:
  "bitmap_ink None = (\<lambda>gx gy x y. False)" "bitmap_ink (Some g) = ink g"
  by (intro ext, simp add: bitmap_ink_def)+

lemma kbd_glyph_alt:
  "kbd_glyph b x y ch ko = (case glyph_of ch of None \<Rightarrow> b | Some g \<Rightarrow> kbd_columns b x y g ko)"
  by (cases "(of_char ch :: nat) < 0x20 \<or> of_char ch - 0x20 \<ge> length s_font")
     (simp_all only: kbd_glyph_def glyph_of_def Let_def if_True if_False option.case)

lemma paints_glyph: "paints (\<lambda>b. kbd_glyph b x y ch ko) (bitmap_ink (glyph_of ch) x y) (\<not> ko)"
  by (cases "glyph_of ch") (simp_all add: kbd_glyph_alt paints_id paints_columns)

lemma paints_key:
  "paints (\<lambda>b. kbd_draw_key b k upper active gx gy) (bitmap_ink (key_bitmap upper k) gx gy) (\<not> active)"
  by (cases "key_kind k")
     (simp_all add: kbd_draw_key_def key_bitmap_def kbd_icon_def paints_glyph paints_columns)

definition in_cell :: "kbd_key list list \<Rightarrow> nat \<Rightarrow> nat \<Rightarrow> int \<Rightarrow> int \<Rightarrow> bool" where
  "in_cell rows r c x y \<longleftrightarrow>
     cell_x rows r c \<le> x \<and> x \<le> cell_x rows r c + cell_w rows r - 2 \<and>
     row_top r - 1 \<le> y \<and> y \<le> row_top r + 8"

definition key_ink :: "kbd_key list list \<Rightarrow> kbd_cursor \<Rightarrow> nat \<Rightarrow> nat \<Rightarrow> int \<Rightarrow> int \<Rightarrow> bool" where
  "key_ink rows cursor r c x y \<longleftrightarrow>
     bitmap_ink (key_bitmap (kc_upper cursor) (rows ! r ! c))
       (cell_x rows r c + (cell_w rows r - 5) sdiv 2) (row_top r) x y"

definition cell_shade ::
  "kbd_key list list \<Rightarrow> kbd_cursor \<Rightarrow> nat \<Rightarrow> nat \<Rightarrow> int \<Rightarrow> int \<Rightarrow> bool \<Rightarrow> bool" where
  "cell_shade rows cursor r c x y v \<longleftrightarrow>
     (if key_ink rows cursor r c x y then \<not> key_active rows cursor r c
      else if key_active rows cursor r c \<and> in_cell rows r c x y then True else v)"

lemma shades_cell: "shades (\<lambda>b. kbd_draw_cell rows cursor r b c) (cell_shade rows cursor r c)"
proof -
  let ?x = "cell_x rows r c" and ?w = "cell_w rows r" and ?a = "key_active rows cursor r c"
  have "shades (\<lambda>b. if ?a then kbd_fill_rect b ?x (row_top r - 1) (?x + ?w - 2) (row_top r + 8) True else b)
      (\<lambda>x y v. if ?a \<and> in_cell rows r c x y then True else v)"
    using paints_shades[OF paints_fill_rect[of ?x "row_top r - 1" "?x + ?w - 2" "row_top r + 8" True]]
    by (cases ?a) (simp_all add: in_cell_def shades_def)
  from shades_comp[OF this paints_shades[OF paints_key[of "rows ! r ! c" "kc_upper cursor" ?a
      "?x + (?w - 5) sdiv 2" "row_top r"]]]
  show ?thesis
    unfolding kbd_draw_cell_def Let_def cell_shade_def key_ink_def by (simp add: shades_def)
qed

lemma key_ink_in_cell:
  assumes "6 \<le> cell_w rows r" "key_ink rows cursor r c x y"
  shows "in_cell rows r c x y"
proof -
  have "(cell_w rows r - 5) sdiv 2 = (cell_w rows r - 5) div 2" using assms(1) by (simp add: sdiv_nonneg)
  then show ?thesis
    using assms by (cases "key_bitmap (kc_upper cursor) (rows ! r ! c)")
      (simp_all add: key_ink_def bitmap_ink_def ink_def in_cell_def, linarith)
qed

lemma cell_shade_outside:
  "6 \<le> cell_w rows r \<Longrightarrow> \<not> in_cell rows r c x y \<Longrightarrow> cell_shade rows cursor r c x y v = v"
  using key_ink_in_cell by (auto simp: cell_shade_def)

lemma paints_text:
  "\<exists>S. paints (\<lambda>b. kbd_text b x y s mx False) S True \<and> (\<forall>x' y'. S x' y' \<longrightarrow> y' < y + 8)"
proof (induction s arbitrary: x)
  case Nil
  then show ?case using paints_id by (intro exI[of _ "\<lambda>_ _. False"]) simp
next
  case (Cons ch s)
  from Cons[of "x + 6"] obtain S where
    S: "paints (\<lambda>b. kbd_text b (x + 6) y s mx False) S True" "\<forall>x' y'. S x' y' \<longrightarrow> y' < y + 8" by blast
  have g: "bitmap_ink (glyph_of ch) x y x' y' \<Longrightarrow> y' < y + 8" for x' y'
    by (auto simp: bitmap_ink_def ink_def split: option.splits)
  have "paints (\<lambda>b. kbd_text (kbd_glyph b x y ch False) (x + 6) y s mx False)
      (\<lambda>x' y'. bitmap_ink (glyph_of ch) x y x' y' \<or> S x' y') True"
    using paints_comp[OF _ S(1)] paints_glyph[of x y ch False] by simp
  then have "\<exists>S. paints (\<lambda>b. kbd_text (kbd_glyph b x y ch False) (x + 6) y s mx False) S True \<and>
      (\<forall>x' y'. S x' y' \<longrightarrow> y' < y + 8)"
    using g S(2) by blast
  moreover have "\<exists>S. paints (\<lambda>b. b) S True \<and> (\<forall>x' y'. S x' y' \<longrightarrow> y' < y + 8)"
    using paints_id by blast
  ultimately show ?case by (cases "x + 5 > mx") simp_all
qed

lemma input_field_above:
  assumes "buf_ok b"
  shows "buf_ok (kbd_input_field b shown ghost) \<and>
     (\<forall>x y. on_screen x y \<and> 11 \<le> y \<longrightarrow> pixel (kbd_input_field b shown ghost) x y = pixel b x y)"
proof -
  have f: "buf_ok (kbd_frame_rect b 0 0 127 10)"
    "\<forall>x y. on_screen x y \<and> 11 \<le> y \<longrightarrow> pixel (kbd_frame_rect b 0 0 127 10) x y = pixel b x y"
    using paints_frame_rect[of 0 0 127 10] assms by (auto simp: paints_def)
  show ?thesis
  proof (cases "kbd_field shown ghost")
    case None
    then show ?thesis using f by (simp add: kbd_input_field_def Let_def)
  next
    case (Some t)
    obtain S where S: "paints (\<lambda>b. kbd_text b 4 2 t 124 False) S True" "\<forall>x y. S x y \<longrightarrow> y < 2 + 8"
      using paints_text[of 4 2 t 124] by blast
    let ?b = "kbd_frame_rect b 0 0 127 10"
    have "buf_ok (kbd_text ?b 4 2 t 124 False)"
      "\<And>x y. on_screen x y \<Longrightarrow> pixel (kbd_text ?b 4 2 t 124 False) x y = (if S x y then True else pixel ?b x y)"
      using S(1) f(1) by (simp_all add: paints_def)
    moreover have "\<not> S x y" if "11 \<le> y" for x y using S(2) that by fastforce
    ultimately show ?thesis using f(2) Some by (simp add: kbd_input_field_def Let_def)
  qed
qed

lemma blank_ok: "buf_ok (replicate KBD_PX_ROWS (replicate KBD_PX_COLS 0))"
  by (simp add: buf_ok_def KBD_PX_ROWS_def KBD_PX_COLS_def)

lemma blank_pixel: "on_screen x y \<Longrightarrow> \<not> pixel (replicate KBD_PX_ROWS (replicate KBD_PX_COLS 0)) x y"
proof -
  assume "on_screen x y"
  then have "nat y < 48" "nat (x div 8) < 16" by (auto simp: on_screen_def)
  then show ?thesis by (simp add: pixel_def KBD_PX_ROWS_def KBD_PX_COLS_def)
qed

lemma layout_shape:
  "length (kbd_layout type) \<in> {2, 4} \<and>
   (\<forall>row\<in>set (kbd_layout type). 4 \<le> length row \<and> length row \<le> 11)"
  by (cases type) (simp_all add: kbd_layout_def kbd_digits_row_def)

lemma layout_cell_w:
  assumes "r < length (kbd_layout type)"
  shows "11 \<le> cell_w (kbd_layout type) r \<and>
     int (length (kbd_layout type ! r)) * cell_w (kbd_layout type) r \<le> 128"
proof -
  have l: "4 \<le> length (kbd_layout type ! r)" "length (kbd_layout type ! r) \<le> 11"
    using layout_shape[of type] nth_mem[OF assms] by blast+
  have n: "0 < int (length (kbd_layout type ! r))" "int (length (kbd_layout type ! r)) \<le> 11"
    using l by linarith+
  then have "(128 :: int) div 11 \<le> 128 div int (length (kbd_layout type ! r))"
    by (intro zdiv_mono2) simp_all
  moreover have "int (length (kbd_layout type ! r)) * (128 div int (length (kbd_layout type ! r))) \<le> 128"
    using pos_mod_sign[OF n(1), of 128] mult_div_mod_eq[of "int (length (kbd_layout type ! r))" 128] by linarith
  ultimately show ?thesis by (simp add: cell_w_def)
qed

text \<open>A point of the body of a cell is in no other cell.\<close>

lemma in_cell_unique:
  assumes "cell_x rows r c \<le> x" "x \<le> cell_x rows r c + cell_w rows r - 2"
    "row_top r \<le> y" "y < row_top r + 8" "in_cell rows r' c' x y"
  shows "r' = r \<and> c' = c"
proof -
  have r: "r' = r" using assms(3-5) by (auto simp: in_cell_def row_top_def)
  let ?w = "cell_w rows r"
  have x: "int c' * ?w \<le> x" "x \<le> int c' * ?w + ?w - 2" "int c * ?w \<le> x" "x \<le> int c * ?w + ?w - 2"
    using assms(1,2,5) r by (auto simp: in_cell_def cell_x_def)
  have w: "0 \<le> ?w" by (cases "length (rows ! r) = 0") (simp_all add: cell_w_def pos_imp_zdiv_nonneg_iff)
  have "\<not> c' < c"
  proof
    assume "c' < c"
    then have "(int c' + 1) * ?w \<le> int c * ?w" using w by (intro mult_right_mono) simp_all
    then show False using x by (simp add: algebra_simps)
  qed
  moreover have "\<not> c < c'"
  proof
    assume "c < c'"
    then have "(int c + 1) * ?w \<le> int c' * ?w" using w by (intro mult_right_mono) simp_all
    then show False using x by (simp add: algebra_simps)
  qed
  ultimately show ?thesis using r by simp
qed

lemma shades_rows:
  "shades (\<lambda>b. foldl (\<lambda>b r. foldl (kbd_draw_cell rows cursor r) b [0..<length (rows ! r)]) b [0..<n])
     (\<lambda>x y v. foldl (\<lambda>v r. foldl (\<lambda>v c. cell_shade rows cursor r c x y v) v [0..<length (rows ! r)]) v [0..<n])"
proof (rule shades_foldl)
  fix r
  show "shades (\<lambda>b. foldl (kbd_draw_cell rows cursor r) b [0..<length (rows ! r)])
      (\<lambda>x y v. foldl (\<lambda>v c. cell_shade rows cursor r c x y v) v [0..<length (rows ! r)])"
    by (rule shades_foldl[where f = "\<lambda>c b. kbd_draw_cell rows cursor r b c"]) (rule shades_cell)
qed

lemma rows_shade_point:
  assumes "r < length rows" "c < length (rows ! r)" "\<forall>r<length rows. 6 \<le> cell_w rows r"
    and "cell_x rows r c \<le> x" "x \<le> cell_x rows r c + cell_w rows r - 2"
    and "row_top r \<le> y" "y < row_top r + 8"
  shows "foldl (\<lambda>v r. foldl (\<lambda>v c. cell_shade rows cursor r c x y v) v [0..<length (rows ! r)]) v
      [0..<length rows] = cell_shade rows cursor r c x y v"
proof -
  have out: "cell_shade rows cursor r' c' x y w = w"
    if "r' < length rows" "r' \<noteq> r \<or> c' \<noteq> c" for r' c' w
    using that assms(3) in_cell_unique[OF assms(4-7), of r' c'] by (intro cell_shade_outside) auto
  let ?g = "\<lambda>r v. foldl (\<lambda>v c. cell_shade rows cursor r c x y v) v [0..<length (rows ! r)]"
  have "foldl (\<lambda>v r. ?g r v) v [0..<length rows] = ?g r v"
  proof (rule foldl_single[of _ r ?g])
    fix r' w assume "r' \<in> set [0..<length rows]" "r' \<noteq> r"
    then show "?g r' w = w"
      using out by (intro foldl_idle[of _ "\<lambda>c v. cell_shade rows cursor r' c x y v"]) simp
  qed (use assms in simp_all)
  moreover have "?g r v = cell_shade rows cursor r c x y v"
  proof (rule foldl_single[of _ c "\<lambda>c v. cell_shade rows cursor r c x y v"])
    fix c' w assume "c' \<in> set [0..<length (rows ! r)]" "c' \<noteq> c"
    then show "cell_shade rows cursor r c' x y w = w" using out assms(1) by simp
  qed (use assms in simp_all)
  ultimately show ?thesis by simp
qed

lemma render_point:
  assumes "rows = kbd_layout type" "r < length rows" "c < length (rows ! r)"
    and "0 \<le> dx" "dx \<le> cell_w rows r - 2" "0 \<le> dy" "dy < 8"
  shows "buf_ok (kbd_render rows shown ghost cursor) \<and>
     pixel (kbd_render rows shown ghost cursor) (cell_x rows r c + dx) (row_top r + dy) =
     (key_ink rows cursor r c (cell_x rows r c + dx) (row_top r + dy) \<noteq> key_active rows cursor r c)"
proof -
  let ?x = "cell_x rows r c + dx" and ?y = "row_top r + dy"
  let ?f = "kbd_input_field (replicate KBD_PX_ROWS (replicate KBD_PX_COLS 0)) shown ghost"
  have w: "11 \<le> cell_w rows r" "int (length (rows ! r)) * cell_w rows r \<le> 128"
    using layout_cell_w[of r type] assms(1,2) by auto
  have w6: "\<forall>r<length rows. 6 \<le> cell_w rows r" using layout_cell_w[of _ type] assms(1) by fastforce
  have "(int c + 1) * cell_w rows r \<le> int (length (rows ! r)) * cell_w rows r"
    using assms(3) w by (intro mult_right_mono) simp_all
  then have "cell_x rows r c + cell_w rows r \<le> 128" "0 \<le> cell_x rows r c"
    using w by (simp_all add: cell_x_def algebra_simps)
  moreover have "r < 4" using layout_shape[of type] assms(1,2) by auto
  ultimately have scr: "on_screen ?x ?y" "11 \<le> ?y"
    using assms(4-7) by (auto simp: on_screen_def row_top_def)
  have f: "buf_ok ?f" "\<not> pixel ?f ?x ?y"
    using input_field_above[OF blank_ok, of shown ghost] scr blank_pixel[OF scr(1)] by auto
  have "buf_ok (kbd_render rows shown ghost cursor) \<and>
      pixel (kbd_render rows shown ghost cursor) ?x ?y = cell_shade rows cursor r c ?x ?y (pixel ?f ?x ?y)"
    using shades_rows[of rows cursor "length rows"] f(1) scr(1)
      rows_shade_point[OF assms(2,3) w6, of ?x ?y cursor "pixel ?f ?x ?y"] assms(4-7)
    unfolding shades_def kbd_render_def by simp
  moreover have "in_cell rows r c ?x ?y" using assms(4-7) by (simp add: in_cell_def)
  ultimately show ?thesis using f(2) by (simp add: cell_shade_def)
qed

section \<open>Navigation and typing\<close>

text \<open>A sequence of key events, up to the first that ends the input.\<close>

fun kbd_run ::
  "kbd_key list list \<Rightarrow> nat \<Rightarrow> kbd_cursor \<Rightarrow> int list \<Rightarrow> (kbd_result \<times> kbd_cursor) option" where
  "kbd_run rows cap c [] = Some (KBD_RESULT_CONTINUE, c)"
| "kbd_run rows cap c (k # ks) =
     (case kbd_step rows k cap c of
        None \<Rightarrow> None
      | Some (KBD_RESULT_CONTINUE, c') \<Rightarrow> kbd_run rows cap c' ks
      | Some (r, c') \<Rightarrow> Some (r, c'))"

definition rows_ok :: "kbd_key list list \<Rightarrow> bool" where
  "rows_ok rows \<longleftrightarrow> rows \<noteq> [] \<and> (\<forall>row\<in>set rows. row \<noteq> [])"

lemma layout_rows_ok: "rows_ok (kbd_layout type)"
  using layout_shape[of type] by (auto simp: rows_ok_def)

definition focus_ok :: "kbd_key list list \<Rightarrow> kbd_cursor \<Rightarrow> bool" where
  "focus_ok rows c \<longleftrightarrow>
     kc_focus_row c < length rows \<and> kc_focus_col c < length (rows ! kc_focus_row c)"

lemma clamp_col_ok:
  assumes "rows_ok rows" "kc_focus_row c < length rows"
  shows "focus_ok rows (clamp_col rows c)"
proof -
  have "rows ! kc_focus_row c \<noteq> []" using assms nth_mem by (auto simp: rows_ok_def)
  then show ?thesis using assms by (auto simp: focus_ok_def clamp_col_def Let_def)
qed

lemma clamp_col_same: "focus_ok rows c \<Longrightarrow> clamp_col rows c = c"
  by (simp add: focus_ok_def clamp_col_def Let_def)

lemma clamp_col_fields [simp]:
  "kc_value (clamp_col rows c) = kc_value c" "kc_upper (clamp_col rows c) = kc_upper c"
  "kc_focus_row (clamp_col rows c) = kc_focus_row c"
  by (simp_all add: clamp_col_def Let_def)

lemma press_fields:
  "kbd_press cap k c = Some (r, c') \<Longrightarrow>
     kc_focus_row c' = kc_focus_row c \<and> kc_focus_col c' = kc_focus_col c \<and>
     (length (kc_value c) \<le> B \<longrightarrow> cap \<le> B \<longrightarrow> length (kc_value c') \<le> B)"
  by (cases "key_kind k") (auto simp: kbd_press_def kbd_insert_def split: if_splits)

lemma press_defined: "cap \<le> 64 \<Longrightarrow> \<exists>r c'. kbd_press cap k c = Some (r, c')"
  by (cases "key_kind k") (auto simp: kbd_press_def kbd_insert_def KBD_VALUE_MAX_def)

lemma step_keeps:
  assumes "rows_ok rows" "focus_ok rows c" "cap \<le> B" "length (kc_value c) \<le> B" "cap \<le> 64"
  shows "\<exists>r c'. kbd_step rows k cap c = Some (r, c') \<and> focus_ok rows c' \<and> length (kc_value c') \<le> B"
proof -
  have foc: "focus_ok rows (clamp_col rows d)" if "kc_focus_row d < length rows" for d
    using clamp_col_ok[OF assms(1) that] .
  have n: "0 < length rows" using assms(1) by (simp add: rows_ok_def)
  have r: "kc_focus_row c < length rows" using assms(2) by (simp add: focus_ok_def)
  consider "k = 6" | "k = 1" | "k = 2" | "k = 3" | "k = 4" | (ok) "k = 5" | "k \<notin> {1, 2, 3, 4, 5, 6}"
    by blast
  then show ?thesis
  proof cases
    case ok
    obtain q c' where p: "kbd_press cap (rows ! kc_focus_row c ! kc_focus_col c) c = Some (q, c')"
      using press_defined[OF assms(5)] by blast
    from press_fields[OF p, of B] assms(2-4)
    have c': "kc_focus_row c' < length rows" "length (kc_value c') \<le> B" "focus_ok rows c'"
      by (simp_all add: focus_ok_def)
    then show ?thesis using p ok foc by (cases q) (simp_all add: kbd_step_def Let_def)
  qed (use assms foc r n in \<open>simp_all add: kbd_step_def Let_def\<close>)
qed

lemma run_keeps:
  assumes "rows_ok rows" "cap \<le> B" "cap \<le> 64"
  shows "focus_ok rows c \<Longrightarrow> length (kc_value c) \<le> B \<Longrightarrow>
     \<exists>r c'. kbd_run rows cap c ks = Some (r, c') \<and> focus_ok rows c' \<and> length (kc_value c') \<le> B"
proof (induction ks arbitrary: c)
  case (Cons k ks)
  obtain q d where d: "kbd_step rows k cap c = Some (q, d)" "focus_ok rows d" "length (kc_value d) \<le> B"
    using step_keeps[OF assms(1) Cons.prems(1) assms(2) Cons.prems(2) assms(3)] by blast
  show ?case using d Cons.IH[OF d(2,3)] by (cases q) simp_all
qed simp

lemma run_append:
  "kbd_run rows cap c ks = Some (KBD_RESULT_CONTINUE, d) \<Longrightarrow>
     kbd_run rows cap c (ks @ ls) = kbd_run rows cap d ls"
proof (induction ks arbitrary: c)
  case (Cons k ks)
  then show ?case by (auto split: option.splits prod.splits kbd_result.splits)
qed simp

definition reach :: "kbd_key list list \<Rightarrow> nat \<Rightarrow> kbd_cursor \<Rightarrow> kbd_cursor \<Rightarrow> bool" where
  "reach rows cap c d \<longleftrightarrow> (\<exists>ks. kbd_run rows cap c ks = Some (KBD_RESULT_CONTINUE, d))"

lemma reach_refl: "reach rows cap c c"
  unfolding reach_def by (rule exI[of _ "[]"]) simp

lemma reach_trans: "reach rows cap c d \<Longrightarrow> reach rows cap d e \<Longrightarrow> reach rows cap c e"
  unfolding reach_def using run_append by metis

lemma reach_step: "kbd_step rows k cap c = Some (KBD_RESULT_CONTINUE, d) \<Longrightarrow> reach rows cap c d"
  unfolding reach_def by (rule exI[of _ "[k]"]) simp

lemma reach_row:
  assumes "rows_ok rows" "focus_ok rows c"
  shows "\<exists>d. reach rows cap c d \<and> focus_ok rows d \<and> kc_value d = kc_value c \<and> kc_upper d = kc_upper c \<and>
     kc_focus_row d = (kc_focus_row c + k) mod length rows"
proof (induction k)
  case 0
  then show ?case using assms(2) reach_refl by (intro exI[of _ c]) (simp add: focus_ok_def)
next
  case (Suc k)
  then obtain d where d: "reach rows cap c d" "focus_ok rows d" "kc_value d = kc_value c"
    "kc_upper d = kc_upper c" "kc_focus_row d = (kc_focus_row c + k) mod length rows" by blast
  let ?e = "clamp_col rows (d\<lparr> kc_focus_row := (kc_focus_row d + 1) mod length rows \<rparr>)"
  have "kbd_step rows 2 cap d = Some (KBD_RESULT_CONTINUE, ?e)" by (simp add: kbd_step_def Let_def)
  then have "reach rows cap c ?e" using d(1) reach_step reach_trans by blast
  moreover have "focus_ok rows ?e"
    using assms(1) by (intro clamp_col_ok) (simp_all add: rows_ok_def)
  ultimately show ?case using d by (intro exI[of _ ?e]) (simp add: mod_Suc_eq)
qed

lemma reach_col:
  assumes "focus_ok rows c"
  shows "reach rows cap c (c\<lparr> kc_focus_col := (kc_focus_col c + k) mod length (rows ! kc_focus_row c) \<rparr>)"
proof (induction k)
  case 0
  then show ?case using assms reach_refl by (simp add: focus_ok_def)
next
  case (Suc k)
  let ?n = "length (rows ! kc_focus_row c)"
  let ?d = "c\<lparr> kc_focus_col := (kc_focus_col c + k) mod ?n \<rparr>"
  let ?e = "c\<lparr> kc_focus_col := (kc_focus_col c + Suc k) mod ?n \<rparr>"
  have "0 < ?n" using assms by (auto simp: focus_ok_def)
  then have "focus_ok rows ?e" using assms by (simp add: focus_ok_def)
  then have "kbd_step rows 4 cap ?d = Some (KBD_RESULT_CONTINUE, ?e)"
    using clamp_col_same[of rows ?e] by (simp add: kbd_step_def Let_def mod_Suc_eq)
  then show ?case using Suc reach_step reach_trans by blast
qed

lemma reach_focus:
  assumes "rows_ok rows" "focus_ok rows c" "r < length rows" "j < length (rows ! r)"
  shows "reach rows cap c (c\<lparr> kc_focus_row := r, kc_focus_col := j \<rparr>)"
proof -
  have "kc_focus_row c + (length rows - kc_focus_row c + r) = length rows + r"
    using assms(2) by (simp add: focus_ok_def)
  then have "(kc_focus_row c + (length rows - kc_focus_row c + r)) mod length rows = r"
    using assms(3) by simp
  with reach_row[OF assms(1,2), of cap "length rows - kc_focus_row c + r"] obtain d where
    d: "reach rows cap c d" "focus_ok rows d" "kc_value d = kc_value c" "kc_upper d = kc_upper c"
      "kc_focus_row d = r" by auto
  have "kc_focus_col d + (length (rows ! r) - kc_focus_col d + j) = length (rows ! r) + j"
    using d(2,5) by (simp add: focus_ok_def)
  then have "(kc_focus_col d + (length (rows ! r) - kc_focus_col d + j)) mod length (rows ! r) = j"
    using assms(4) by simp
  with reach_col[OF d(2), of cap "length (rows ! r) - kc_focus_col d + j"] d(5)
  have "reach rows cap d (d\<lparr> kc_focus_col := j \<rparr>)" by simp
  moreover have "d\<lparr> kc_focus_col := j \<rparr> = c\<lparr> kc_focus_row := r, kc_focus_col := j \<rparr>"
    using d(3-5) by (cases c; cases d) simp
  ultimately show ?thesis using d(1) reach_trans by metis
qed

text \<open>Pressing a key the focus has been moved to.\<close>

lemma reach_press:
  assumes "rows_ok rows" "focus_ok rows c" "r < length rows" "j < length (rows ! r)"
    and "kbd_press cap (rows ! r ! j) (c\<lparr> kc_focus_row := r, kc_focus_col := j \<rparr>) = Some (KBD_RESULT_CONTINUE, d)"
    and "kc_focus_row d = r" "kc_focus_col d = j"
  shows "reach rows cap c d \<and> focus_ok rows d"
proof -
  have d: "focus_ok rows d" using assms by (simp add: focus_ok_def)
  have "kbd_step rows 5 cap (c\<lparr> kc_focus_row := r, kc_focus_col := j \<rparr>) = Some (KBD_RESULT_CONTINUE, d)"
    using assms(5) clamp_col_same[OF d] by (simp add: kbd_step_def Let_def)
  then show ?thesis using reach_focus[OF assms(1-4)] reach_step reach_trans d by blast
qed

text \<open>The characters of the text layout, in both cases, and the space.\<close>

definition TYPEABLE :: string where
  "TYPEABLE = ''abcdefghijklmnopqrstuvwxyzABCDEFGHIJKLMNOPQRSTUVWXYZ1234567890!?@#*/:.() ''"

definition gives :: "bool \<Rightarrow> kbd_key \<Rightarrow> char \<Rightarrow> bool" where
  "gives upper k ch \<longleftrightarrow>
     (key_kind k = KBD_KIND_CHAR \<and> shifted upper k = ch) \<or> (key_kind k = KBD_KIND_SPACE \<and> ch = CHR '' '')"

lemma typeable_table:
  "list_all (\<lambda>ch. list_ex (list_ex (\<lambda>k. gives False k ch \<or> gives True k ch)) (kbd_layout KBD_TYPE_TEXT)) TYPEABLE"
  by (simp add: TYPEABLE_def kbd_layout_def kbd_digits_row_def gives_def char_key_def special_key_def
      shifted_def char_of_def bit_0)

lemma typeable_key:
  assumes "ch \<in> set TYPEABLE"
  shows "\<exists>r j u. r < length (kbd_layout KBD_TYPE_TEXT) \<and> j < length (kbd_layout KBD_TYPE_TEXT ! r) \<and>
     gives u (kbd_layout KBD_TYPE_TEXT ! r ! j) ch"
proof -
  from assms typeable_table obtain row k where
    "row \<in> set (kbd_layout KBD_TYPE_TEXT)" "k \<in> set row" "gives False k ch \<or> gives True k ch"
    unfolding list_all_iff list_ex_iff by blast
  then show ?thesis by (metis in_set_conv_nth)
qed

lemma shift_key:
  "length (kbd_layout KBD_TYPE_TEXT) = 4" "length (kbd_layout KBD_TYPE_TEXT ! 2) = 10"
  "length (kbd_layout KBD_TYPE_TEXT ! 3) = 11"
  "key_kind (kbd_layout KBD_TYPE_TEXT ! 2 ! 9) = KBD_KIND_SHIFT"
  "key_kind (kbd_layout KBD_TYPE_TEXT ! 3 ! 9) = KBD_KIND_DONE"
  by code_simp+

lemma reach_upper:
  assumes "focus_ok (kbd_layout KBD_TYPE_TEXT) c"
  shows "\<exists>d. reach (kbd_layout KBD_TYPE_TEXT) cap c d \<and> focus_ok (kbd_layout KBD_TYPE_TEXT) d \<and>
     kc_value d = kc_value c \<and> kc_upper d = u"
proof (cases "kc_upper c = u")
  case True
  then show ?thesis using assms reach_refl by blast
next
  case False
  let ?d = "c\<lparr> kc_focus_row := 2, kc_focus_col := 9, kc_upper := \<not> kc_upper c \<rparr>"
  have "reach (kbd_layout KBD_TYPE_TEXT) cap c ?d \<and> focus_ok (kbd_layout KBD_TYPE_TEXT) ?d"
    using shift_key by (intro reach_press[OF layout_rows_ok assms, of 2 9]) (simp_all add: kbd_press_def)
  then show ?thesis using False by (intro exI[of _ ?d]) simp
qed

lemma reach_char:
  assumes "focus_ok (kbd_layout KBD_TYPE_TEXT) c" "ch \<in> set TYPEABLE"
    and "length (kc_value c) < cap" "cap \<le> 64"
  shows "\<exists>d. reach (kbd_layout KBD_TYPE_TEXT) cap c d \<and> focus_ok (kbd_layout KBD_TYPE_TEXT) d \<and>
     kc_value d = kc_value c @ [ch]"
proof -
  obtain r j u where k: "r < length (kbd_layout KBD_TYPE_TEXT)" "j < length (kbd_layout KBD_TYPE_TEXT ! r)"
    "gives u (kbd_layout KBD_TYPE_TEXT ! r ! j) ch" using typeable_key[OF assms(2)] by blast
  obtain d where d: "reach (kbd_layout KBD_TYPE_TEXT) cap c d" "focus_ok (kbd_layout KBD_TYPE_TEXT) d"
    "kc_value d = kc_value c" "kc_upper d = u" using reach_upper[OF assms(1)] by blast
  let ?e = "d\<lparr> kc_focus_row := r, kc_focus_col := j, kc_value := kc_value d @ [ch] \<rparr>"
  have "reach (kbd_layout KBD_TYPE_TEXT) cap d ?e \<and> focus_ok (kbd_layout KBD_TYPE_TEXT) ?e"
    using assms(3,4) d(3,4) k(3)
    by (intro reach_press[OF layout_rows_ok d(2) k(1,2)])
       (auto simp: kbd_press_def gives_def kbd_insert_def KBD_VALUE_MAX_def)
  then show ?thesis using d reach_trans by (intro exI[of _ ?e]) auto
qed

lemma reach_text:
  "focus_ok (kbd_layout KBD_TYPE_TEXT) c \<Longrightarrow> set s \<subseteq> set TYPEABLE \<Longrightarrow>
     length (kc_value c) + length s \<le> cap \<Longrightarrow> cap \<le> 64 \<Longrightarrow>
     \<exists>d. reach (kbd_layout KBD_TYPE_TEXT) cap c d \<and> focus_ok (kbd_layout KBD_TYPE_TEXT) d \<and>
       kc_value d = kc_value c @ s"
proof (induction s arbitrary: c)
  case Nil
  then show ?case using reach_refl by (intro exI[of _ c]) simp
next
  case (Cons ch s)
  have h: "ch \<in> set TYPEABLE" "length (kc_value c) < cap" "set s \<subseteq> set TYPEABLE" using Cons.prems by simp_all
  obtain d where d: "reach (kbd_layout KBD_TYPE_TEXT) cap c d" "focus_ok (kbd_layout KBD_TYPE_TEXT) d"
    "kc_value d = kc_value c @ [ch]"
    using reach_char[OF Cons.prems(1) h(1,2) Cons.prems(4)] by blast
  have "length (kc_value d) + length s \<le> cap" using Cons.prems(3) d(3) by simp
  from Cons.IH[OF d(2) h(3) this Cons.prems(4)] obtain e where
    e: "reach (kbd_layout KBD_TYPE_TEXT) cap d e" "focus_ok (kbd_layout KBD_TYPE_TEXT) e"
    "kc_value e = kc_value d @ s" by blast
  then show ?case using d reach_trans by (intro exI[of _ e]) auto
qed

section \<open>Properties\<close>

text \<open>whatever keys arrive, in any layout and with any prefilled value, a keyboard whose
  cap is at most 64 writes inside the value array only, keeps the focus on an
  existing key, and never grows the value past the longer of the cap and the
  (truncated) prefill.\<close>

theorem kbd_safe:
  assumes "cap \<le> KBD_VALUE_MAX"
  shows "\<exists>r c. kbd_run (kbd_layout type) cap (kbd_cursor_init prefill) keys = Some (r, c) \<and>
     kc_focus_row c < length (kbd_layout type) \<and>
     kc_focus_col c < length (kbd_layout type ! kc_focus_row c) \<and>
     length (kc_value c) \<le> max cap (length (kc_value (kbd_cursor_init prefill))) \<and>
     length (kc_value c) \<le> KBD_VALUE_MAX"
proof -
  have f: "focus_ok (kbd_layout type) (kbd_cursor_init prefill)"
    by (cases type) (simp_all add: focus_ok_def kbd_cursor_init_def kbd_layout_def kbd_digits_row_def)
  have "length (kc_value (kbd_cursor_init prefill)) \<le> 64"
    by (simp add: kbd_cursor_init_def KBD_VALUE_MAX_def split: option.split)
  then show ?thesis
    using run_keeps[OF layout_rows_ok _ _ f, of cap "max cap (length (kc_value (kbd_cursor_init prefill)))" keys]
      assms by (auto simp: focus_ok_def KBD_VALUE_MAX_def)
qed

theorem kbd_safe_witness:
  "\<exists>r c. kbd_run (kbd_layout KBD_TYPE_DATE) 2 (kbd_cursor_init None) [5, 5, 5] = Some (r, c) \<and>
     length (kc_value c) \<le> 2"
  using kbd_safe[of 2 KBD_TYPE_DATE None "[5, 5, 5]"]
  by (auto simp: KBD_VALUE_MAX_def kbd_cursor_init_def)

text \<open>every text of at most cap characters out of letters of both cases, digits, the
  ten shifted symbols and the space can be entered with the five keys, and confirmed.\<close>

theorem kbd_types_any_text:
  assumes "set s \<subseteq> set TYPEABLE" "length s \<le> cap" "cap \<le> KBD_VALUE_MAX"
  shows "\<exists>keys c. kbd_run (kbd_layout KBD_TYPE_TEXT) cap (kbd_cursor_init None) keys =
     Some (KBD_RESULT_DONE, c) \<and> kc_value c = s"
proof -
  let ?R = "kbd_layout KBD_TYPE_TEXT"
  have f: "focus_ok ?R (kbd_cursor_init None)"
    by (simp add: focus_ok_def kbd_cursor_init_def kbd_layout_def kbd_digits_row_def)
  obtain d where d: "reach ?R cap (kbd_cursor_init None) d" "focus_ok ?R d" "kc_value d = s"
    using reach_text[OF f assms(1), of cap] assms(2,3) by (auto simp: kbd_cursor_init_def KBD_VALUE_MAX_def)
  let ?e = "d\<lparr> kc_focus_row := 3, kc_focus_col := 9 \<rparr>"
  have "reach ?R cap (kbd_cursor_init None) ?e"
    using reach_focus[OF layout_rows_ok d(2), of 3 9] shift_key d(1) reach_trans[of ?R cap _ d ?e] by simp
  then obtain keys where "kbd_run ?R cap (kbd_cursor_init None) keys = Some (KBD_RESULT_CONTINUE, ?e)"
    unfolding reach_def by blast
  from run_append[OF this, of "[5]"] have
    "kbd_run ?R cap (kbd_cursor_init None) (keys @ [5]) = Some (KBD_RESULT_DONE, ?e)"
    using shift_key by (simp add: kbd_step_def Let_def kbd_press_def)
  then show ?thesis using d(3) by (intro exI[of _ "keys @ [5]"] exI[of _ ?e]) simp
qed

theorem kbd_types_any_text_witness:
  "\<exists>keys c. kbd_run (kbd_layout KBD_TYPE_TEXT) 16 (kbd_cursor_init None) keys =
     Some (KBD_RESULT_DONE, c) \<and> kc_value c = ''Hi #1''"
  using kbd_types_any_text[of "''Hi #1''" 16] by (simp add: TYPEABLE_def KBD_VALUE_MAX_def)

text \<open>C40: in the body of every cell of every layout the rendered picture is the bitmap of its
  key, upper case when the shift is on, inverted exactly on the focused key and on
  an active shift; nothing the input field or other cells draw shows there.\<close>

theorem kbd_render_cells:
  assumes "r < length (kbd_layout type)" "c < length (kbd_layout type ! r)"
    and "0 \<le> dx" "dx \<le> cell_w (kbd_layout type) r - 2" "0 \<le> dy" "dy < 8"
  shows "pixel (kbd_render (kbd_layout type) text ghost cursor)
       (cell_x (kbd_layout type) r c + dx) (row_top r + dy) =
     (bitmap_ink (key_bitmap (kc_upper cursor) (kbd_layout type ! r ! c))
        (cell_x (kbd_layout type) r c + (cell_w (kbd_layout type) r - 5) sdiv 2) (row_top r)
        (cell_x (kbd_layout type) r c + dx) (row_top r + dy) \<noteq>
      key_active (kbd_layout type) cursor r c)"
  using render_point[OF refl assms] by (simp add: key_ink_def)

theorem kbd_render_cells_witness:
  "pixel (kbd_render (kbd_layout KBD_TYPE_TEXT) None False (kbd_cursor_init None)) 0 12"
proof -
  have "pixel (kbd_render (kbd_layout KBD_TYPE_TEXT) None False (kbd_cursor_init None))
       (cell_x (kbd_layout KBD_TYPE_TEXT) 0 0 + 0) (row_top 0 + 0) =
     (bitmap_ink (key_bitmap (kc_upper (kbd_cursor_init None)) (kbd_layout KBD_TYPE_TEXT ! 0 ! 0))
        (cell_x (kbd_layout KBD_TYPE_TEXT) 0 0 + (cell_w (kbd_layout KBD_TYPE_TEXT) 0 - 5) sdiv 2) (row_top 0)
        (cell_x (kbd_layout KBD_TYPE_TEXT) 0 0 + 0) (row_top 0 + 0) \<noteq>
      key_active (kbd_layout KBD_TYPE_TEXT) (kbd_cursor_init None) 0 0)"
    by (rule kbd_render_cells) (simp_all add: kbd_layout_def kbd_digits_row_def cell_w_def)
  moreover have "cell_x (kbd_layout KBD_TYPE_TEXT) 0 0 = 0" "row_top 0 = 12"
    "(cell_w (kbd_layout KBD_TYPE_TEXT) 0 - 5) sdiv 2 = 3"
    by (simp_all add: cell_x_def row_top_def cell_w_def kbd_layout_def kbd_digits_row_def sdiv_nonneg)
  moreover have "key_active (kbd_layout KBD_TYPE_TEXT) (kbd_cursor_init None) 0 0"
    by (simp add: key_active_def kbd_cursor_init_def)
  ultimately show ?thesis by (simp add: bitmap_ink_def ink_def split: option.splits)
qed

end
