(* ===== verification/Eeprom.thy ===== *)
theory Eeprom
  imports Base "HOL-Library.Word"
begin

text \<open>
  src/components/jpp_core/src/jpp_eeprom_core.c: the driver of the optional AT24C32 EEPROM.
  The I2C driver and the timer are a parameter (i2c), functions of the state of the world
  behind them. A pointer argument is an option, NULL is None; log output is left out. The
  wait for the end of a write cycle is a loop without a bound of its own, so an operation
  that writes returns None if it would not return. What the properties need of the chip
  and the bus is stated in chip_ok, after the data sheet the header quotes.
\<close>

section \<open>Driver\<close>

type_synonym byte = "8 word"

definition EEPROM_PAGE_SIZE :: nat where "EEPROM_PAGE_SIZE = 32"
definition EEPROM_WRITE_CYCLE_MAX_MS :: nat where "EEPROM_WRITE_CYCLE_MAX_MS = 25"

datatype eeprom_result =
  EEPROM_OK | EEPROM_ERR_INVALID_ARGUMENT | EEPROM_ERR_NOT_PRESENT | EEPROM_ERR_OUT_OF_RANGE
| EEPROM_ERR_IO

record eeprom_state =
  ee_present :: bool
  ee_size_bytes :: nat

text \<open>The bus and the timer: each call answers and changes the world.\<close>

record 'w i2c =
  bus_probe :: "'w \<Rightarrow> bool \<times> 'w"
  bus_add_device :: "'w \<Rightarrow> bool \<times> 'w"
  bus_transmit :: "byte list \<Rightarrow> 'w \<Rightarrow> bool \<times> 'w"
  bus_transmit_receive :: "byte list \<Rightarrow> nat \<Rightarrow> 'w \<Rightarrow> byte list option \<times> 'w"
  timer_get_time :: "'w \<Rightarrow> int \<times> 'w"

definition eeprom_state_init ::
  "'w i2c option \<Rightarrow> nat \<Rightarrow> 'w \<Rightarrow> eeprom_result \<times> eeprom_state \<times> 'w" where
  "eeprom_state_init bus cap w =
     (let st = \<lparr> ee_present = False, ee_size_bytes = cap \<rparr> in
      case bus of
        None \<Rightarrow> (EEPROM_ERR_NOT_PRESENT, st, w)
      | Some dev \<Rightarrow>
          (let (ok, w) = bus_probe dev w in
           if \<not> ok then (EEPROM_ERR_NOT_PRESENT, st, w)
           else
             (let (ok, w) = bus_add_device dev w in
              if \<not> ok then (EEPROM_ERR_IO, st, w)
              else (EEPROM_OK, st\<lparr> ee_present := True \<rparr>, w))))"

definition eeprom_present :: "eeprom_state option \<Rightarrow> bool" where
  "eeprom_present st = (case st of None \<Rightarrow> False | Some s \<Rightarrow> ee_present s)"

definition word_address :: "16 word \<Rightarrow> byte list" where
  "word_address addr = [ucast (drop_bit 8 addr), ucast addr]"

text \<open>The buffer of a read is given by its length, None for NULL.\<close>

definition eeprom_read ::
  "'w i2c \<Rightarrow> eeprom_state option \<Rightarrow> 16 word \<Rightarrow> nat option \<Rightarrow> 'w \<Rightarrow> eeprom_result \<times> byte list \<times> 'w" where
  "eeprom_read dev st addr buf w =
     (case (st, buf) of
        (Some s, Some len) \<Rightarrow>
          if \<not> ee_present s then (EEPROM_ERR_NOT_PRESENT, [], w)
          else if len = 0 then (EEPROM_OK, [], w)
          else if unat addr + len > ee_size_bytes s then (EEPROM_ERR_OUT_OF_RANGE, [], w)
          else
            (case bus_transmit_receive dev (word_address addr) len w of
               (None, w) \<Rightarrow> (EEPROM_ERR_IO, [], w)
             | (Some xs, w) \<Rightarrow> (EEPROM_OK, xs, w))
      | _ \<Rightarrow> (EEPROM_ERR_INVALID_ARGUMENT, [], w))"

partial_function (option) wait_loop :: "'w i2c \<Rightarrow> int \<Rightarrow> 'w \<Rightarrow> (eeprom_result \<times> 'w) option" where
  "wait_loop dev deadline w =
     (let (ok, w) = bus_probe dev w in
      if ok then Some (EEPROM_OK, w)
      else
        (let (now, w) = timer_get_time dev w in
         if now \<ge> deadline then Some (EEPROM_ERR_IO, w) else wait_loop dev deadline w))"

definition wait_write_complete :: "'w i2c \<Rightarrow> 'w \<Rightarrow> (eeprom_result \<times> 'w) option" where
  "wait_write_complete dev w =
     (let (now, w) = timer_get_time dev w
      in wait_loop dev (now + int EEPROM_WRITE_CYCLE_MAX_MS * 1000) w)"

definition write_page :: "'w i2c \<Rightarrow> 16 word \<Rightarrow> byte list \<Rightarrow> 'w \<Rightarrow> (eeprom_result \<times> 'w) option" where
  "write_page dev addr buf w =
     (let (ok, w) = bus_transmit dev (word_address addr @ buf) w in
      if \<not> ok then Some (EEPROM_ERR_IO, w) else wait_write_complete dev w)"

text \<open>The chunk written from offset off: to the end of the page or of the buffer.\<close>

definition page_chunk :: "16 word \<Rightarrow> nat \<Rightarrow> nat \<Rightarrow> nat" where
  "page_chunk addr len off =
     (let cur = addr + of_nat off; page_rem = EEPROM_PAGE_SIZE - unat cur mod EEPROM_PAGE_SIZE
      in if len - off > page_rem then page_rem else len - off)"

lemma page_chunk_pos: "off < len \<Longrightarrow> 0 < page_chunk addr len off"
  by (simp add: page_chunk_def Let_def EEPROM_PAGE_SIZE_def)

function write_loop ::
  "'w i2c \<Rightarrow> 16 word \<Rightarrow> byte list \<Rightarrow> nat \<Rightarrow> 'w \<Rightarrow> (eeprom_result \<times> 'w) option" where
  "write_loop dev addr buf off w =
     (if off < length buf then
        (let chunk = page_chunk addr (length buf) off in
         case write_page dev (addr + of_nat off) (take chunk (drop off buf)) w of
           None \<Rightarrow> None
         | Some (rc, w) \<Rightarrow>
             if rc \<noteq> EEPROM_OK then Some (rc, w) else write_loop dev addr buf (off + chunk) w)
      else Some (EEPROM_OK, w))"
  by pat_completeness auto
termination
  by (relation "measure (\<lambda>(dev, addr, buf, off, w). length buf - off)")
    (auto intro!: diff_less_mono2 page_chunk_pos)

declare write_loop.simps [simp del]

definition eeprom_write ::
  "'w i2c \<Rightarrow> eeprom_state option \<Rightarrow> 16 word \<Rightarrow> byte list option \<Rightarrow> 'w \<Rightarrow> (eeprom_result \<times> 'w) option" where
  "eeprom_write dev st addr buf w =
     (case (st, buf) of
        (Some s, Some bs) \<Rightarrow>
          if \<not> ee_present s then Some (EEPROM_ERR_NOT_PRESENT, w)
          else if length bs = 0 then Some (EEPROM_OK, w)
          else if unat addr + length bs > ee_size_bytes s then Some (EEPROM_ERR_OUT_OF_RANGE, w)
          else write_loop dev addr bs 0 w
      | _ \<Rightarrow> Some (EEPROM_ERR_INVALID_ARGUMENT, w))"

section \<open>The chip, after its data sheet\<close>

text \<open>The cell a data byte of a page write goes to: the address counter wraps within
  the page.\<close>

definition page_pos :: "nat \<Rightarrow> nat \<Rightarrow> nat" where
  "page_pos a i = a div 32 * 32 + (a + i) mod 32"

definition page_write :: "'a list \<Rightarrow> nat \<Rightarrow> 'a list \<Rightarrow> 'a list" where
  "page_write m a xs = fold (\<lambda>i m. m[page_pos a i := xs ! i]) [0..<length xs] m"

definition address_of :: "byte \<Rightarrow> byte \<Rightarrow> nat" where
  "address_of hi lo = unat hi * 256 + unat lo"

text \<open>mem is the contents of the cells, clk the timer in microseconds. A probe takes time. A
  transfer that fails may have written some of the cells it addresses, and no other.\<close>

definition chip_ok :: "'w i2c \<Rightarrow> nat \<Rightarrow> ('w \<Rightarrow> byte list) \<Rightarrow> ('w \<Rightarrow> int) \<Rightarrow> bool" where
  "chip_ok dev cap mem clk \<longleftrightarrow>
     (\<forall>w. length (mem w) = cap) \<and>
     (\<forall>w. case bus_probe dev w of (ok, w') \<Rightarrow> mem w' = mem w \<and> clk w' > clk w) \<and>
     (\<forall>w. mem (snd (bus_add_device dev w)) = mem w) \<and>
     (\<forall>w. case timer_get_time dev w of (t, w') \<Rightarrow> t = clk w \<and> mem w' = mem w \<and> clk w' \<ge> clk w) \<and>
     (\<forall>w xs n. mem (snd (bus_transmit_receive dev xs n w)) = mem w) \<and>
     (\<forall>w hi lo n xs. fst (bus_transmit_receive dev [hi, lo] n w) = Some xs \<longrightarrow>
        xs = map (\<lambda>i. mem w ! ((address_of hi lo + i) mod cap)) [0..<n]) \<and>
     (\<forall>w hi lo xs. xs \<noteq> [] \<longrightarrow> length xs \<le> 32 \<longrightarrow>
        (case bus_transmit dev (hi # lo # xs) w of
           (ok, w') \<Rightarrow>
             (ok \<longrightarrow> mem w' = page_write (mem w) (address_of hi lo mod cap) xs) \<and>
             (\<forall>k<cap. k \<notin> page_pos (address_of hi lo mod cap) ` {..<length xs} \<longrightarrow>
                mem w' ! k = mem w ! k)))"

text \<open>The contract of a write: a range of an array is replaced.\<close>

definition store :: "'a list \<Rightarrow> nat \<Rightarrow> 'a list \<Rightarrow> 'a list" where
  "store m a xs = take a m @ xs @ drop (a + length xs) m"

lemma store_Nil [simp]: "a \<le> length m \<Longrightarrow> store m a [] = m"
  by (simp add: store_def)

lemma store_length [simp]: "a + length xs \<le> length m \<Longrightarrow> length (store m a xs) = length m"
  by (simp add: store_def)

lemma store_nth:
  assumes "a + length xs \<le> length m"
  shows "store m a xs ! k = (if a \<le> k \<and> k < a + length xs then xs ! (k - a) else m ! k)"
  using assms by (auto simp: store_def nth_append)

lemma store_store:
  assumes "a + length xs + length ys \<le> length m"
  shows "store (store m a xs) (a + length xs) ys = store m a (xs @ ys)"
  using assms by (simp add: store_def ac_simps)

lemma load_store:
  assumes "a + length xs \<le> length m"
  shows "map (\<lambda>i. store m a xs ! (a + i)) [0..<length xs] = xs"
  using assms by (intro nth_equalityI) (simp_all add: store_nth)

text \<open>Inside one page nothing wraps, so a page write is a store.\<close>

lemma page_pos_inside: "a mod 32 + i < 32 \<Longrightarrow> page_pos a i = a + i"
  by (simp add: page_pos_def mod_add_left_eq[symmetric, of a])

lemma page_write_snoc:
  "page_write m a (xs @ [x]) = (page_write m a xs)[page_pos a (length xs) := x]"
proof -
  have "fold (\<lambda>i m. m[page_pos a i := (xs @ [x]) ! i]) [0..<length xs] m
      = fold (\<lambda>i m. m[page_pos a i := xs ! i]) [0..<length xs] m"
    by (rule fold_cong) (auto simp: nth_append)
  then show ?thesis by (simp add: page_write_def)
qed

lemma page_write_store:
  assumes "a mod 32 + length xs \<le> 32" "a + length xs \<le> length m"
  shows "page_write m a xs = store m a xs"
  using assms
proof (induction xs rule: rev_induct)
  case Nil
  then show ?case by (simp add: page_write_def)
next
  case (snoc x xs)
  then have "page_write m a (xs @ [x]) = (store m a xs)[a + length xs := x]"
    by (simp add: page_write_snoc page_pos_inside)
  also have "\<dots> = store m a (xs @ [x])"
    using snoc.prems by (intro nth_equalityI) (auto simp: store_nth nth_list_update nth_append)
  finally show ?case .
qed

section \<open>Operations on such a chip\<close>

lemma probeD:
  assumes "chip_ok dev cap mem clk" "bus_probe dev w = (ok, w')"
  shows "mem w' = mem w" "clk w < clk w'"
proof -
  have "\<forall>w. case bus_probe dev w of (ok, w') \<Rightarrow> mem w' = mem w \<and> clk w' > clk w"
    using assms(1) unfolding chip_ok_def by (elim conjE)
  from spec[OF this, of w] assms(2) show "mem w' = mem w" "clk w < clk w'" by simp_all
qed

lemma timerD:
  assumes "chip_ok dev cap mem clk" "timer_get_time dev w = (t, w')"
  shows "t = clk w" "mem w' = mem w" "clk w \<le> clk w'"
proof -
  have "\<forall>w. case timer_get_time dev w of (t, w') \<Rightarrow> t = clk w \<and> mem w' = mem w \<and> clk w' \<ge> clk w"
    using assms(1) unfolding chip_ok_def by (elim conjE)
  from spec[OF this, of w] assms(2) show "t = clk w" "mem w' = mem w" "clk w \<le> clk w'" by simp_all
qed

lemma addD: "chip_ok dev cap mem clk \<Longrightarrow> mem (snd (bus_add_device dev w)) = mem w"
  unfolding chip_ok_def by (elim conjE) (erule spec)

lemma receiveD:
  assumes "chip_ok dev cap mem clk" "bus_transmit_receive dev [hi, lo] n w = (r, w')"
  shows "mem w' = mem w" "r = Some xs \<Longrightarrow> xs = map (\<lambda>i. mem w ! ((address_of hi lo + i) mod cap)) [0..<n]"
proof -
  have m: "\<forall>w xs n. mem (snd (bus_transmit_receive dev xs n w)) = mem w"
    using assms(1) unfolding chip_ok_def by (elim conjE)
  have r: "\<forall>w hi lo n xs. fst (bus_transmit_receive dev [hi, lo] n w) = Some xs \<longrightarrow>
        xs = map (\<lambda>i. mem w ! ((address_of hi lo + i) mod cap)) [0..<n]"
    using assms(1) unfolding chip_ok_def by (elim conjE)
  from spec[OF spec[OF spec[OF m, of w], of "[hi, lo]"], of n] assms(2) show "mem w' = mem w" by simp
  from spec[OF spec[OF spec[OF spec[OF spec[OF r, of w], of hi], of lo], of n], of xs] assms(2)
  show "r = Some xs \<Longrightarrow> xs = map (\<lambda>i. mem w ! ((address_of hi lo + i) mod cap)) [0..<n]" by simp
qed

lemma chip_length [simp]: "chip_ok dev cap mem clk \<Longrightarrow> length (mem w) = cap"
  unfolding chip_ok_def by (elim conjE) (erule spec)

lemma transmitD:
  assumes "chip_ok dev cap mem clk" "bus_transmit dev (hi # lo # xs) w = (ok, w')" "xs \<noteq> []" "length xs \<le> 32"
  shows "ok \<Longrightarrow> mem w' = page_write (mem w) (address_of hi lo mod cap) xs"
    "k < cap \<Longrightarrow> k \<notin> page_pos (address_of hi lo mod cap) ` {..<length xs} \<Longrightarrow> mem w' ! k = mem w ! k"
proof -
  have "\<forall>w hi lo xs. xs \<noteq> [] \<longrightarrow> length xs \<le> 32 \<longrightarrow>
    (case bus_transmit dev (hi # lo # xs) w of
       (ok, w') \<Rightarrow>
         (ok \<longrightarrow> mem w' = page_write (mem w) (address_of hi lo mod cap) xs) \<and>
         (\<forall>k<cap. k \<notin> page_pos (address_of hi lo mod cap) ` {..<length xs} \<longrightarrow> mem w' ! k = mem w ! k))"
    using assms(1) unfolding chip_ok_def by (elim conjE)
  from spec[OF spec[OF spec[OF spec[OF this, of w], of hi], of lo], of xs] assms(2-4)
  show "ok \<Longrightarrow> mem w' = page_write (mem w) (address_of hi lo mod cap) xs"
    "k < cap \<Longrightarrow> k \<notin> page_pos (address_of hi lo mod cap) ` {..<length xs} \<Longrightarrow> mem w' ! k = mem w ! k"
    by simp_all
qed

text \<open>The wait returns: the deadline is passed at the latest after as many probes as
  microseconds are left.\<close>

lemma wait_loop_returns:
  assumes "chip_ok dev cap mem clk"
  shows "\<exists>rc w'. wait_loop dev deadline w = Some (rc, w') \<and> (rc = EEPROM_OK \<or> rc = EEPROM_ERR_IO) \<and>
    mem w' = mem w"
proof (induction "nat (deadline - clk w)" arbitrary: w rule: less_induct)
  case less
  obtain ok w1 where p: "bus_probe dev w = (ok, w1)" by (cases "bus_probe dev w")
  obtain t w2 where t: "timer_get_time dev w1 = (t, w2)" by (cases "timer_get_time dev w1")
  note pd = probeD[OF assms p] and td = timerD[OF assms t]
  show ?case
  proof (cases "ok \<or> t \<ge> deadline")
    case True
    then show ?thesis using p t pd td by (subst wait_loop.simps) auto
  next
    case False
    then have "wait_loop dev deadline w = wait_loop dev deadline w2"
      using p t by (subst wait_loop.simps) auto
    moreover have "nat (deadline - clk w2) < nat (deadline - clk w)" using False pd td by linarith
    ultimately show ?thesis using less[of w2] pd td by simp
  qed
qed

lemma wait_write_complete_returns:
  assumes "chip_ok dev cap mem clk"
  shows "\<exists>rc w'. wait_write_complete dev w = Some (rc, w') \<and> (rc = EEPROM_OK \<or> rc = EEPROM_ERR_IO) \<and>
    mem w' = mem w"
proof -
  obtain t w1 where t: "timer_get_time dev w = (t, w1)" by (cases "timer_get_time dev w")
  show ?thesis
    using wait_loop_returns[OF assms, of "t + int EEPROM_WRITE_CYCLE_MAX_MS * 1000" w1] timerD[OF assms t]
    by (simp add: wait_write_complete_def t)
qed

lemma word_address_of:
  "address_of (ucast (drop_bit 8 addr)) (ucast addr) = unat (addr :: 16 word)"
proof -
  have "unat addr div 256 < 256" using unsigned_less[of addr, where 'a = nat] by simp
  then have "unat (ucast (drop_bit 8 addr) :: byte) = unat addr div 256"
    by (simp add: unsigned_ucast_eq unsigned_drop_bit_eq drop_bit_eq_div[where 'a = nat] take_bit_nat_eq_self
        del: drop_bit_numeral_bit0)
  moreover have "unat (ucast addr :: byte) = unat addr mod 256"
    by (simp add: unsigned_ucast_eq take_bit_eq_mod)
  ultimately show ?thesis by (simp add: address_of_def)
qed

text \<open>A page write: it returns; when it succeeds the range is stored, and whatever happens
  nothing else changes.\<close>

definition stored_or_not :: "byte list \<Rightarrow> nat \<Rightarrow> byte list \<Rightarrow> eeprom_result \<Rightarrow> byte list \<Rightarrow> bool" where
  "stored_or_not m a xs rc m' \<longleftrightarrow>
     length m' = length m \<and>
     (rc = EEPROM_OK \<or> rc = EEPROM_ERR_IO) \<and> (rc = EEPROM_OK \<longrightarrow> m' = store m a xs) \<and>
     (\<forall>k<length m. k < a \<or> a + length xs \<le> k \<longrightarrow> m' ! k = m ! k)"

lemma write_page_stores:
  assumes chip: "chip_ok dev cap mem clk" and xs: "xs \<noteq> []"
    and fit: "unat addr + length xs \<le> cap" "unat addr mod 32 + length xs \<le> 32"
  shows "\<exists>rc w'. write_page dev addr xs w = Some (rc, w') \<and> stored_or_not (mem w) (unat addr) xs rc (mem w')"
proof -
  let ?hi = "ucast (drop_bit 8 addr)" and ?lo = "ucast addr"
  obtain ok w1 where t: "bus_transmit dev (?hi # ?lo # xs) w = (ok, w1)"
    by (cases "bus_transmit dev (?hi # ?lo # xs) w")
  have a: "address_of ?hi ?lo mod cap = unat addr"
    using fit xs by (cases xs) (simp_all add: word_address_of)
  have l32: "length xs \<le> 32" using fit by simp
  note td = transmitD[OF chip t xs l32, unfolded a]
  have img: "page_pos (unat addr) ` {..<length xs} = {unat addr..<unat addr + length xs}"
  proof -
    have "page_pos (unat addr) ` {..<length xs} = (\<lambda>i. unat addr + i) ` {..<length xs}"
      using fit(2) by (intro image_cong refl page_pos_inside) simp
    also have "\<dots> = {unat addr..<unat addr + length xs}"
      by (simp add: lessThan_atLeast0 image_add_atLeastLessThan add.commute)
    finally show ?thesis .
  qed
  have rest: "\<forall>k<length (mem w). k < unat addr \<or> unat addr + length xs \<le> k \<longrightarrow> mem w1 ! k = mem w ! k"
    using td(2) chip_length[OF chip, of w] unfolding img by auto
  obtain rc w2 where wt: "wait_write_complete dev w1 = Some (rc, w2)"
    "rc = EEPROM_OK \<or> rc = EEPROM_ERR_IO" "mem w2 = mem w1"
    using wait_write_complete_returns[OF chip, of w1] by blast
  have ok: "ok \<Longrightarrow> mem w1 = store (mem w) (unat addr) xs"
    using td(1) page_write_store[OF fit(2), of "mem w"] fit(1) chip_length[OF chip, of w] by simp
  show ?thesis
    using t wt rest ok chip_length[OF chip]
    by (cases ok) (auto simp: write_page_def word_address_def stored_or_not_def)
qed

lemma stored_or_not_trans:
  assumes "stored_or_not m a xs EEPROM_OK m1" "stored_or_not m1 (a + length xs) ys rc m2"
    "a + length xs + length ys \<le> length m"
  shows "stored_or_not m a (xs @ ys) rc m2"
  using assms store_store[of a xs ys m] by (auto simp: stored_or_not_def)

lemma write_loop_stores:
  assumes chip: "chip_ok dev cap mem clk" and cap: "cap \<le> 65536"
    and fit: "unat addr + length buf \<le> cap" and off: "off \<le> length buf"
  shows "\<exists>rc w'. write_loop dev addr buf off w = Some (rc, w') \<and>
    stored_or_not (mem w) (unat addr + off) (drop off buf) rc (mem w')"
  using off
proof (induction "length buf - off" arbitrary: off w rule: less_induct)
  case less
  show ?case
  proof (cases "off < length buf")
    case False
    then show ?thesis
      using less.prems fit chip by (subst write_loop.simps) (simp add: stored_or_not_def)
  next
    case True
    let ?n = "page_chunk addr (length buf) off" and ?cur = "addr + of_nat off"
    let ?xs = "take ?n (drop off buf)"
    have cur: "unat ?cur = unat addr + off"
      using True fit cap by (simp add: unat_add_lem[THEN iffD1] unat_of_nat take_bit_nat_eq_self)
    have n: "0 < ?n" "?n \<le> length buf - off" "unat ?cur mod 32 + ?n \<le> 32"
      using page_chunk_pos[OF True] by (auto simp: page_chunk_def Let_def EEPROM_PAGE_SIZE_def)
    have xs: "length ?xs = ?n" "?xs \<noteq> []" using n by auto
    have fit': "unat addr + off + ?n \<le> cap" using fit n(2) True by linarith
    obtain rc w1 where wp: "write_page dev ?cur ?xs w = Some (rc, w1)"
      and st: "stored_or_not (mem w) (unat ?cur) ?xs rc (mem w1)"
      using write_page_stores[OF chip xs(2), of ?cur w] fit' n(3) unfolding xs(1) cur by blast
    show ?thesis
    proof (cases "rc = EEPROM_OK")
      case False
      then have "write_loop dev addr buf off w = Some (rc, w1)"
        using True wp by (subst write_loop.simps) (simp add: Let_def)
      moreover have "stored_or_not (mem w) (unat addr + off) (drop off buf) rc (mem w1)"
        using st False n xs(1) unfolding cur by (auto simp: stored_or_not_def)
      ultimately show ?thesis by blast
    next
      case ok: True
      then have step: "write_loop dev addr buf off w = write_loop dev addr buf (off + ?n) w1"
        using True wp by (subst write_loop.simps) (simp add: Let_def)
      have off': "off + ?n \<le> length buf" using n(2) True by linarith
      obtain rc2 w2 where rest: "write_loop dev addr buf (off + ?n) w1 = Some (rc2, w2)"
        "stored_or_not (mem w1) (unat addr + (off + ?n)) (drop (off + ?n) buf) rc2 (mem w2)"
        using less.hyps[of "off + ?n" w1, OF _ off'] n True by (metis diff_less_mono2 less_add_same_cancel1)
      have "stored_or_not (mem w) (unat addr + off) (?xs @ drop (off + ?n) buf) rc2 (mem w2)"
      proof (rule stored_or_not_trans)
        show "stored_or_not (mem w) (unat addr + off) ?xs EEPROM_OK (mem w1)"
          using st ok cur by simp
        show "stored_or_not (mem w1) (unat addr + off + length ?xs) (drop (off + ?n) buf) rc2 (mem w2)"
          using rest(2) xs(1) by (simp add: add.assoc)
        show "unat addr + off + length ?xs + length (drop (off + ?n) buf) \<le> length (mem w)"
          using fit n xs(1) chip by simp
      qed
      moreover have "?xs @ drop (off + ?n) buf = drop off buf"
        by (simp add: add.commute[of off] drop_drop[symmetric] del: drop_drop)
      ultimately show ?thesis using step rest(1) by auto
    qed
  qed
qed

text \<open>The driver as its users see it: a write stores a range or reports an error, a read
  gives the range, and nothing else changes.\<close>

lemma eeprom_write_cases:
  assumes "chip_ok dev cap mem clk" "cap \<le> 65536" "ee_present st" "ee_size_bytes st = cap"
  shows "\<exists>rc w'. eeprom_write dev (Some st) addr (Some buf) w = Some (rc, w') \<and>
    (if buf \<noteq> [] \<and> unat addr + length buf > cap then rc = EEPROM_ERR_OUT_OF_RANGE \<and> mem w' = mem w
     else if buf = [] then rc = EEPROM_OK \<and> mem w' = mem w
     else stored_or_not (mem w) (unat addr) buf rc (mem w'))"
  using assms write_loop_stores[OF assms(1,2), of addr buf 0 w]
  by (auto simp: eeprom_write_def)

lemma eeprom_read_loads:
  assumes "chip_ok dev cap mem clk" "eeprom_read dev st addr buf w = (rc, xs, w')"
  shows "mem w' = mem w"
    "rc = EEPROM_OK \<Longrightarrow> \<exists>s n. st = Some s \<and> buf = Some n \<and> ee_present s \<and>
       (0 < n \<longrightarrow> unat addr + n \<le> ee_size_bytes s) \<and>
       (ee_size_bytes s = cap \<longrightarrow> xs = map (\<lambda>i. mem w ! (unat addr + i)) [0..<n])"
proof -
  obtain r w1 where t: "bus_transmit_receive dev (word_address addr) (the buf) w = (r, w1)"
    by (cases "bus_transmit_receive dev (word_address addr) (the buf) w")
  note rd = receiveD[OF assms(1) t[unfolded word_address_def], unfolded word_address_of]
  have eq: "(rc, xs, w') = eeprom_read dev st addr buf w" using assms(2) by simp
  show "mem w' = mem w"
    using eq t rd(1) by (auto simp: eeprom_read_def split: option.splits if_splits prod.splits)
  assume ok: "rc = EEPROM_OK"
  obtain s n where sn: "st = Some s" "buf = Some n" "ee_present s"
    and n: "0 < n \<longrightarrow> unat addr + n \<le> ee_size_bytes s \<and> r = Some xs" and n0: "n = 0 \<longrightarrow> xs = []"
    using eq t ok by (auto simp: eeprom_read_def split: option.splits if_splits prod.splits)
  have "xs = map (\<lambda>i. mem w ! (unat addr + i)) [0..<n]" if c: "ee_size_bytes s = cap"
  proof (cases "n = 0")
    case False
    have lt: "unat addr + i < cap" if "i < n" for i using n c False that by linarith
    have "xs = map (\<lambda>i. mem w ! ((unat addr + i) mod cap)) [0..<n]" using rd(2) n False sn(2) by simp
    also have "\<dots> = map (\<lambda>i. mem w ! (unat addr + i)) [0..<n]" using lt by simp
    finally show ?thesis .
  qed (simp add: n0)
  with sn n show "\<exists>s n. st = Some s \<and> buf = Some n \<and> ee_present s \<and>
       (0 < n \<longrightarrow> unat addr + n \<le> ee_size_bytes s) \<and>
       (ee_size_bytes s = cap \<longrightarrow> xs = map (\<lambda>i. mem w ! (unat addr + i)) [0..<n])" by blast
qed

lemma eeprom_init_state:
  assumes "eeprom_state_init bus cap w = (rc, st, w')"
  shows "ee_size_bytes st = cap" "ee_present st \<longleftrightarrow> rc = EEPROM_OK" "ee_present st \<Longrightarrow> bus \<noteq> None"
    "chip_ok (the bus) c mem clk \<Longrightarrow> mem w' = mem w"
proof -
  have "mem w' = mem w" if "bus = Some dev" "chip_ok dev c mem clk" for dev
    using assms that(1) addD[OF that(2)] probeD(1)[OF that(2)]
    by (auto simp: eeprom_state_init_def Let_def split: prod.splits if_splits) (metis snd_conv)+
  then show "chip_ok (the bus) c mem clk \<Longrightarrow> mem w' = mem w"
    using assms by (cases bus) (auto simp: eeprom_state_init_def)
qed (use assms in \<open>auto simp: eeprom_state_init_def Let_def split: option.splits prod.splits if_splits\<close>)

section \<open>Properties\<close>

text \<open>C36: On a chip that keeps its data sheet a write returns, whatever the length and however
  many pages it spans: out of range it is refused and nothing changes; otherwise OK means
  that exactly the range was replaced by the bytes, and after an I/O error no cell outside
  the range has changed.\<close>

theorem eeprom_write_stores:
  assumes "chip_ok dev cap mem clk" "cap \<le> 65536" "ee_present st" "ee_size_bytes st = cap" "buf \<noteq> []"
  shows "\<exists>rc w'. eeprom_write dev (Some st) addr (Some buf) w = Some (rc, w') \<and>
    (unat addr + length buf > cap \<longrightarrow> rc = EEPROM_ERR_OUT_OF_RANGE \<and> mem w' = mem w) \<and>
    (unat addr + length buf \<le> cap \<longrightarrow>
       (rc = EEPROM_OK \<and> mem w' = store (mem w) (unat addr) buf \<or>
        rc = EEPROM_ERR_IO \<and>
          (\<forall>k. k < cap \<and> (k < unat addr \<or> unat addr + length buf \<le> k) \<longrightarrow> mem w' ! k = mem w ! k)))"
proof -
  obtain rc w' where e: "eeprom_write dev (Some st) addr (Some buf) w = Some (rc, w')"
    and c: "if buf \<noteq> [] \<and> unat addr + length buf > cap then rc = EEPROM_ERR_OUT_OF_RANGE \<and> mem w' = mem w
     else if buf = [] then rc = EEPROM_OK \<and> mem w' = mem w
     else stored_or_not (mem w) (unat addr) buf rc (mem w')"
    using eeprom_write_cases[OF assms(1-4), of addr buf w] by blast
  show ?thesis
  proof (intro exI conjI)
    show "eeprom_write dev (Some st) addr (Some buf) w = Some (rc, w')" by (rule e)
    show "unat addr + length buf > cap \<longrightarrow> rc = EEPROM_ERR_OUT_OF_RANGE \<and> mem w' = mem w"
      using c assms(5) by auto
    show "unat addr + length buf \<le> cap \<longrightarrow>
       (rc = EEPROM_OK \<and> mem w' = store (mem w) (unat addr) buf \<or>
        rc = EEPROM_ERR_IO \<and>
          (\<forall>k. k < cap \<and> (k < unat addr \<or> unat addr + length buf \<le> k) \<longrightarrow> mem w' ! k = mem w ! k))"
      using c assms(1,5) by (auto simp: stored_or_not_def)
  qed
qed

text \<open>A chip of two pages: its world is the cells, the timer and how many probes it is still
  busy for. Anything but sixty-four cells counts as erased.\<close>

definition demo_cells :: "byte list \<Rightarrow> byte list" where
  "demo_cells m = (if length m = 64 then m else replicate 64 0)"

definition demo_mem :: "byte list \<times> int \<times> nat \<Rightarrow> byte list" where
  "demo_mem w = demo_cells (fst w)"

definition demo_i2c :: "(byte list \<times> int \<times> nat) i2c" where
  "demo_i2c =
     \<lparr> bus_probe = (\<lambda>(m, t, busy). (busy = 0, m, t + 1, busy - 1)),
       bus_add_device = (\<lambda>w. (True, w)),
       bus_transmit = (\<lambda>xs (m, t, busy).
         case xs of
           hi # lo # ys \<Rightarrow>
             if busy > 0 then (False, m, t, busy)
             else (True, page_write (demo_cells m) (address_of hi lo mod 64) ys, t, 3)
         | _ \<Rightarrow> (False, m, t, busy)),
       bus_transmit_receive = (\<lambda>xs n (m, t, busy).
         case xs of
           [hi, lo] \<Rightarrow>
             if busy > 0 then (None, m, t, busy)
             else (Some (map (\<lambda>i. demo_cells m ! ((address_of hi lo + i) mod 64)) [0..<n]), m, t, busy)
         | _ \<Rightarrow> (None, m, t, busy)),
       timer_get_time = (\<lambda>(m, t, busy). (t, m, t, busy)) \<rparr>"

lemma demo_length [simp]: "length (demo_cells m) = 64"
  by (simp add: demo_cells_def)

lemma page_write_length [simp]: "length (page_write m a xs) = length m"
  by (induction xs rule: rev_induct) (simp_all add: page_write_snoc, simp add: page_write_def)

lemma page_write_other: "k \<notin> page_pos a ` {..<length xs} \<Longrightarrow> page_write m a xs ! k = m ! k"
proof (induction xs rule: rev_induct)
  case Nil
  show ?case by (simp add: page_write_def)
next
  case (snoc x xs)
  then show ?case by (auto simp: page_write_snoc lessThan_Suc)
qed

lemma demo_chip: "chip_ok demo_i2c 64 demo_mem (fst \<circ> snd)"
  unfolding chip_ok_def demo_i2c_def demo_mem_def
  by (auto simp: page_write_other demo_cells_def[of "page_write _ _ _"] split: list.split)

definition two_pages :: eeprom_state where
  "two_pages = \<lparr> ee_present = True, ee_size_bytes = 64 \<rparr>"

theorem eeprom_write_stores_witness:
  "\<exists>w'. eeprom_write demo_i2c (Some two_pages) 30 (Some [1, 2, 3, 4, 5]) (replicate 64 0, 0, 0)
       = Some (EEPROM_OK, w') \<and>
     demo_mem w' = replicate 30 0 @ [1, 2, 3, 4, 5] @ replicate 29 0"
proof -
  obtain w' where e: "eeprom_write demo_i2c (Some two_pages) 30 (Some [1, 2, 3, 4, 5]) (replicate 64 0, 0, 0)
       = Some (EEPROM_OK, w')"
    by (simp add: eeprom_write_def two_pages_def write_loop.simps page_chunk_def EEPROM_PAGE_SIZE_def
        write_page_def demo_i2c_def word_address_def wait_write_complete_def wait_loop.simps
        EEPROM_WRITE_CYCLE_MAX_MS_def)
  have "store (replicate 64 0) 30 [1, 2, 3, 4, 5 :: byte] = replicate 30 0 @ [1, 2, 3, 4, 5] @ replicate 29 0"
    by (simp add: store_def)
  moreover have "demo_mem w' = store (demo_mem (replicate 64 0, 0, 0)) 30 [1, 2, 3, 4, 5]"
    using eeprom_write_stores[OF demo_chip, of two_pages "[1, 2, 3, 4, 5]" 30 "(replicate 64 0, 0, 0)"]
    unfolding e by (simp add: two_pages_def)
  ultimately show ?thesis using e by (simp add: demo_mem_def demo_cells_def)
qed

end
