(* ===== verification/CText.thy ===== *)
theory CText
  imports Base
begin

text \<open>
  C texts as the servers use them: a text is the list of its characters up to the zero byte.
  The functions of the C library (strchr, strstr with a line end, strcasecmp, strtol, the
  conversions of printf) and lemmas about cutting a text at a separator.
\<close>

definition NUL :: char where "NUL = CHR 0x00"
definition CR :: char where "CR = CHR 0x0D"
definition LF :: char where "LF = CHR 0x0A"

text \<open>What a C function sees of a buffer: the characters before the first zero byte.\<close>

definition cstr_of :: "string \<Rightarrow> string" where
  "cstr_of s = takeWhile (\<lambda>c. c \<noteq> NUL) s"

section \<open>Cutting\<close>

text \<open>strchr: the text before the first c and, if there is one, the text behind it.\<close>

fun cut_char :: "char \<Rightarrow> string \<Rightarrow> string \<times> string option" where
  "cut_char c [] = ([], None)"
| "cut_char c (x # xs) =
     (if x = c then ([], Some xs) else (let (a, r) = cut_char c xs in (x # a, r)))"

text \<open>strstr for a line end.\<close>

fun cut_line :: "string \<Rightarrow> string \<times> string option" where
  "cut_line [] = ([], None)"
| "cut_line (x # xs) =
     (if x = CR \<and> xs \<noteq> [] \<and> hd xs = LF then ([], Some (tl xs))
      else (let (a, r) = cut_line xs in (x # a, r)))"

lemma cut_char_none [simp]: "c \<notin> set xs \<Longrightarrow> cut_char c xs = (xs, None)"
  by (induction xs) auto

lemma cut_char_some [simp]: "c \<notin> set xs \<Longrightarrow> cut_char c (xs @ c # ys) = (xs, Some ys)"
  by (induction xs) auto

lemma cut_line_none: "CR \<notin> set xs \<Longrightarrow> cut_line xs = (xs, None)"
  by (induction xs) auto

lemma cut_line_some: "CR \<notin> set xs \<Longrightarrow> cut_line (xs @ CR # LF # ys) = (xs, Some ys)"
  by (induction xs) auto

lemma cut_line_shorter: "cut_line xs = (a, Some r) \<Longrightarrow> length r < length xs"
  by (induction xs arbitrary: a) (auto split: if_splits prod.splits)

section \<open>Comparing and converting\<close>

definition to_lower :: "char \<Rightarrow> char" where
  "to_lower c = (if 65 \<le> ord c \<and> ord c \<le> 90 then char_of (ord c + 32) else c)"

definition strcasecmp_eq :: "string \<Rightarrow> string \<Rightarrow> bool" where
  "strcasecmp_eq a b \<longleftrightarrow> map to_lower a = map to_lower b"

lemma strcasecmp_refl [simp]: "strcasecmp_eq a a"
  by (simp add: strcasecmp_eq_def)

definition is_space_c :: "char \<Rightarrow> bool" where
  "is_space_c c \<longleftrightarrow> ord c = 32 \<or> (9 \<le> ord c \<and> ord c \<le> 13)"

definition is_dec_digit :: "char \<Rightarrow> bool" where
  "is_dec_digit c \<longleftrightarrow> 48 \<le> ord c \<and> ord c \<le> 57"

definition dec_value :: "string \<Rightarrow> nat" where
  "dec_value s = foldl (\<lambda>v c. v * 10 + (ord c - 48)) 0 s"

text \<open>strtol in base ten, for a 32-bit long: out of range values are clamped.\<close>

definition c_strtol :: "string \<Rightarrow> int" where
  "c_strtol s =
     (let s = dropWhile is_space_c s;
          neg = (s \<noteq> [] \<and> hd s = CHR ''-'');
          s = (if s \<noteq> [] \<and> (hd s = CHR ''-'' \<or> hd s = CHR ''+'') then tl s else s);
          n = int (dec_value (takeWhile is_dec_digit s))
      in if neg then max (- (2 ^ 31)) (- n) else min (2 ^ 31 - 1) n)"

text \<open>Decimal and hexadecimal digits of a number, as printf writes them.\<close>

fun dec :: "nat \<Rightarrow> string" where
  "dec n = (if n < 10 then [char_of (48 + n)] else dec (n div 10) @ [char_of (48 + n mod 10)])"

declare dec.simps [simp del]

definition hex_digits :: string where "hex_digits = ''0123456789abcdef''"

fun hex_text :: "nat \<Rightarrow> string" where
  "hex_text n =
     (if n < 16 then [hex_digits ! n] else hex_text (n div 16) @ [hex_digits ! (n mod 16)])"

declare hex_text.simps [simp del]

definition hex_digit_value :: "char \<Rightarrow> nat" where
  "hex_digit_value c = (if ord c \<le> 57 then ord c - 48 else ord c - 87)"

definition hex_number :: "string \<Rightarrow> nat" where
  "hex_number s = foldl (\<lambda>v c. v * 16 + hex_digit_value c) 0 s"

lemma ord_code [simp]: "n < 256 \<Longrightarrow> ord (char_of n) = n"
  by (simp add: ord_def)

lemma dec_digits: "list_all is_dec_digit (dec n)"
proof (induction n rule: dec.induct)
  case (1 n)
  have "n mod 10 < 10" by simp
  then have "is_dec_digit (char_of (48 + n mod 10))" "n < 10 \<Longrightarrow> is_dec_digit (char_of (48 + n))"
    by (simp_all add: is_dec_digit_def)
  then show ?case using 1 by (subst dec.simps) simp
qed

lemma dec_value_dec: "dec_value (dec n) = n"
proof (induction n rule: dec.induct)
  case (1 n)
  have "n < 10 \<or> dec_value (dec (n div 10)) = n div 10" using 1 by linarith
  then show ?case by (subst dec.simps) (auto simp: dec_value_def)
qed

lemma strtol_dec: "int n < 2 ^ 31 \<Longrightarrow> c_strtol (dec n) = int n"
proof -
  assume n: "int n < 2 ^ 31"
  have "dec n \<noteq> []" by (subst dec.simps) simp
  then obtain d ds where dd: "dec n = d # ds" by (cases "dec n") simp_all
  have "is_dec_digit d" using dec_digits[of n] dd by simp
  then have d: "\<not> is_space_c d" "d \<noteq> CHR ''-''" "d \<noteq> CHR ''+''"
    by (auto simp: is_space_c_def is_dec_digit_def ord_def)
  have "takeWhile is_dec_digit (dec n) = dec n"
    using dec_digits[of n] by (simp add: takeWhile_eq_all_conv list_all_iff)
  then have "c_strtol (dec n) = min (2 ^ 31 - 1) (int (dec_value (dec n)))"
    using d unfolding dd by (simp add: c_strtol_def)
  then show ?thesis using n by (simp add: dec_value_dec)
qed

lemma c_hex_digit_table: "list_all (\<lambda>n. hex_digit_value (hex_digits ! n) = n) [0..<16]"
  by code_simp

lemma hex_digit_back: "n < 16 \<Longrightarrow> hex_digit_value (hex_digits ! n) = n"
  using c_hex_digit_table by (simp add: list_all_length)

lemma hex_number_text: "hex_number (hex_text n) = n"
proof (induction n rule: hex_text.induct)
  case (1 n)
  have "n < 16 \<or> hex_number (hex_text (n div 16)) = n div 16" using 1 by linarith
  then show ?case by (subst hex_text.simps) (auto simp: hex_number_def hex_digit_back)
qed

lemma hex_digits_clean: "CR \<notin> set (hex_text n)"
proof (induction n rule: hex_text.induct)
  case (1 n)
  have "list_all (\<lambda>n. hex_digits ! n \<noteq> CR) [0..<16]" by code_simp
  then have d: "k < 16 \<Longrightarrow> hex_digits ! k \<noteq> CR" for k by (simp add: list_all_length)
  have "n < 16 \<or> CR \<notin> set (hex_text (n div 16))" using 1 by linarith
  then show ?case using d[of n] d[of "n mod 16"] by (subst hex_text.simps) auto
qed

end
