(* ===== verification/Lrv.thy ===== *)
theory Lrv
  imports Eeprom BgScheduler CText
begin

text \<open>
  src/main/jpp_lrv.c: the identity of a device of a limited run, kept in the EEPROM and
  written once. The module's static state is the record lrv; the EEPROM driver is the
  theory Eeprom. The signature function, what the flash storage (NVS) holds and the time
  the clock gives are arguments. Arrays of bytes are lists, a C text in them ends at its
  first zero byte. Wiping of temporary buffers and log output are left out.
\<close>

unbundle bit_operations_syntax

section \<open>Layout\<close>

definition EE_HDR_SIZE :: nat where "EE_HDR_SIZE = 8"
definition EE_IDENTITY_ADDR :: "16 word" where "EE_IDENTITY_ADDR = 0"
definition EE_IDENTITY_MAGIC :: "byte list" where "EE_IDENTITY_MAGIC = [0x4A, 0x4C, 0x52, 0x56]"
definition RC_OFF_SERIAL :: nat where "RC_OFF_SERIAL = 0"
definition RC_OFF_PUBKEY :: nat where "RC_OFF_PUBKEY = 2"
definition RC_OFF_SECKEY :: nat where "RC_OFF_SECKEY = 34"
definition RC_OFF_CERTSIG :: nat where "RC_OFF_CERTSIG = 98"
definition RC_OFF_HWID :: nat where "RC_OFF_HWID = 162"
definition RC_OFF_CERTLEN :: nat where "RC_OFF_CERTLEN = 186"
definition RC_OFF_CERT :: nat where "RC_OFF_CERT = 188"
definition LRV_CERT_MAX :: nat where "LRV_CERT_MAX = 192"
definition LRV_HWID_MAX :: nat where "LRV_HWID_MAX = 24"
definition RC_FIXED_SZ :: nat where "RC_FIXED_SZ = RC_OFF_CERT"
definition RC_MIN_SZ :: nat where "RC_MIN_SZ = RC_FIXED_SZ + 1"
definition RC_MAX_SZ :: nat where "RC_MAX_SZ = RC_FIXED_SZ + LRV_CERT_MAX"
definition HW_EEPROM_SIZE_BYTES :: nat where "HW_EEPROM_SIZE_BYTES = 4096"

lemmas lrv_sizes = EE_HDR_SIZE_def RC_OFF_SERIAL_def RC_OFF_PUBKEY_def RC_OFF_SECKEY_def RC_OFF_CERTSIG_def
  RC_OFF_HWID_def RC_OFF_CERTLEN_def RC_OFF_CERT_def LRV_CERT_MAX_def LRV_HWID_MAX_def RC_FIXED_SZ_def
  RC_MIN_SZ_def RC_MAX_SZ_def HW_EEPROM_SIZE_BYTES_def

datatype lrv_result = LRV_OK | LRV_ERR_NOT_FOUND | LRV_ERR_CORRUPT | LRV_ERR_EXISTS | LRV_ERR_INTERNAL

record lrv_data =
  ld_serial :: "16 word"
  ld_device_pubkey :: "byte list"
  ld_device_seckey :: "byte list"
  ld_cert_sig :: "byte list"
  ld_hwid :: "byte list"
  ld_cert :: "byte list"

definition zero_data :: lrv_data where
  "zero_data = \<lparr> ld_serial = 0, ld_device_pubkey = replicate 32 0, ld_device_seckey = replicate 64 0,
     ld_cert_sig = replicate 64 0, ld_hwid = replicate LRV_HWID_MAX 0, ld_cert = replicate LRV_CERT_MAX 0 \<rparr>"

record lrv =
  lv_eeprom :: eeprom_state
  lv_data :: lrv_data
  lv_data_ok :: bool

section \<open>Checksum and record\<close>

fun crc16_bits :: "nat \<Rightarrow> 16 word \<Rightarrow> 16 word" where
  "crc16_bits 0 crc = crc"
| "crc16_bits (Suc n) crc =
     crc16_bits n (if crc AND 0x8000 \<noteq> 0 then push_bit 1 crc XOR 0x1021 else push_bit 1 crc)"

definition crc16_byte :: "16 word \<Rightarrow> byte \<Rightarrow> 16 word" where
  "crc16_byte crc b = crc16_bits 8 (crc XOR push_bit 8 (ucast b))"

definition crc16_ccitt :: "byte list \<Rightarrow> 16 word" where
  "crc16_ccitt xs = foldl crc16_byte 0xFFFF xs"

definition slice :: "nat \<Rightarrow> nat \<Rightarrow> 'a list \<Rightarrow> 'a list" where
  "slice off n xs = take n (drop off xs)"

definition rd16 :: "byte list \<Rightarrow> nat \<Rightarrow> 16 word" where
  "rd16 xs i = ucast (xs ! i) OR push_bit 8 (ucast (xs ! (i + 1)))"

definition wr16 :: "16 word \<Rightarrow> byte list" where
  "wr16 v = [ucast (v AND 0xFF), ucast (drop_bit 8 v)]"

text \<open>What strncpy and memcpy leave in an array that was zeroed before.\<close>

definition pad_to :: "nat \<Rightarrow> byte list \<Rightarrow> byte list" where
  "pad_to n xs = xs @ replicate (n - length xs) 0"

definition c_text :: "byte list \<Rightarrow> byte list" where
  "c_text xs = takeWhile (\<lambda>b. b \<noteq> 0) xs"

definition deserialise :: "byte list \<Rightarrow> lrv_data option" where
  "deserialise buf =
     (if length buf < RC_MIN_SZ then None
      else
        let cert_len = unat (rd16 buf RC_OFF_CERTLEN);
            copy = (if cert_len < LRV_CERT_MAX then cert_len else LRV_CERT_MAX - 1)
        in if cert_len = 0 \<or> length buf < RC_FIXED_SZ + cert_len then None
           else Some
             \<lparr> ld_serial = rd16 buf RC_OFF_SERIAL,
               ld_device_pubkey = slice RC_OFF_PUBKEY 32 buf,
               ld_device_seckey = slice RC_OFF_SECKEY 64 buf,
               ld_cert_sig = slice RC_OFF_CERTSIG 64 buf,
               ld_hwid = pad_to LRV_HWID_MAX (c_text (slice RC_OFF_HWID (LRV_HWID_MAX - 1) buf)),
               ld_cert = pad_to LRV_CERT_MAX (slice RC_OFF_CERT copy buf) \<rparr>)"

section \<open>Reading the identity\<close>

definition identity_read_record ::
  "'w i2c \<Rightarrow> eeprom_state \<Rightarrow> nat \<Rightarrow> 'w \<Rightarrow> byte list option \<times> 'w" where
  "identity_read_record dev st bufcap w =
     (let (rc, hdr, w) = eeprom_read dev (Some st) EE_IDENTITY_ADDR (Some EE_HDR_SIZE) w in
      if rc \<noteq> EEPROM_OK then (None, w)
      else if take 4 hdr \<noteq> EE_IDENTITY_MAGIC then (None, w)
      else
        let len = unat (rd16 hdr 4); crc = rd16 hdr 6
        in if len < RC_MIN_SZ \<or> len > RC_MAX_SZ \<or> len > bufcap then (None, w)
           else
             let (rc, buf, w) = eeprom_read dev (Some st) (EE_IDENTITY_ADDR + of_nat EE_HDR_SIZE) (Some len) w
             in if rc \<noteq> EEPROM_OK then (None, w)
                else if crc16_ccitt buf \<noteq> crc then (None, w)
                else (Some buf, w))"

definition lrv_init :: "'w i2c option \<Rightarrow> 'w \<Rightarrow> lrv \<times> 'w" where
  "lrv_init bus w =
     (let (rc, st, w) = eeprom_state_init bus HW_EEPROM_SIZE_BYTES w;
          l = \<lparr> lv_eeprom = st, lv_data = zero_data, lv_data_ok = False \<rparr>
      in if \<not> eeprom_present (Some st) then (l, w)
         else
           (case identity_read_record (the bus) st RC_MAX_SZ w of
              (None, w) \<Rightarrow> (l, w)
            | (Some rec, w) \<Rightarrow>
                (case deserialise rec of
                   None \<Rightarrow> (l, w)
                 | Some d \<Rightarrow> (l\<lparr> lv_data := d, lv_data_ok := True \<rparr>, w))))"

definition lrv_has_data :: "lrv \<Rightarrow> bool" where
  "lrv_has_data l = lv_data_ok l"

definition lrv_get_full_data :: "lrv \<Rightarrow> lrv_result \<times> lrv_data option" where
  "lrv_get_full_data l =
     (if \<not> lv_data_ok l then (LRV_ERR_NOT_FOUND, None) else (LRV_OK, Some (lv_data l)))"

section \<open>Writing it once\<close>

definition identity_present :: "'w i2c \<Rightarrow> eeprom_state \<Rightarrow> 'w \<Rightarrow> bool \<times> 'w" where
  "identity_present dev st w =
     (let (rc, hdr, w) = eeprom_read dev (Some st) EE_IDENTITY_ADDR (Some EE_HDR_SIZE) w in
      if rc \<noteq> EEPROM_OK then (False, w)
      else if take 4 hdr \<noteq> EE_IDENTITY_MAGIC then (False, w)
      else let len = unat (rd16 hdr 4) in (RC_MIN_SZ \<le> len \<and> len \<le> RC_MAX_SZ, w))"

definition identity_header :: "byte list \<Rightarrow> byte list" where
  "identity_header rec =
     EE_IDENTITY_MAGIC @ wr16 (of_nat (length rec)) @ wr16 (crc16_ccitt rec)"

definition lrv_store_identity ::
  "'w i2c \<Rightarrow> lrv \<Rightarrow> byte list option \<Rightarrow> 'w \<Rightarrow> (lrv_result \<times> lrv \<times> 'w) option" where
  "lrv_store_identity dev l record_in w =
     (case record_in of
        None \<Rightarrow> Some (LRV_ERR_INTERNAL, l, w)
      | Some rec \<Rightarrow>
          if length rec = 0 then Some (LRV_ERR_INTERNAL, l, w)
          else if length rec < RC_MIN_SZ \<or> length rec > RC_MAX_SZ then Some (LRV_ERR_CORRUPT, l, w)
          else if \<not> eeprom_present (Some (lv_eeprom l)) then Some (LRV_ERR_NOT_FOUND, l, w)
          else
            (case deserialise rec of
               None \<Rightarrow> Some (LRV_ERR_CORRUPT, l, w)
             | Some parsed \<Rightarrow>
                 (case identity_present dev (lv_eeprom l) w of
                    (True, w) \<Rightarrow> Some (LRV_ERR_EXISTS, l, w)
                  | (False, w) \<Rightarrow>
                      (case eeprom_write dev (Some (lv_eeprom l)) (EE_IDENTITY_ADDR + of_nat EE_HDR_SIZE) (Some rec) w of
                         None \<Rightarrow> None
                       | Some (rc, w) \<Rightarrow>
                           if rc \<noteq> EEPROM_OK then Some (LRV_ERR_INTERNAL, l, w)
                           else
                             (case eeprom_write dev (Some (lv_eeprom l)) EE_IDENTITY_ADDR (Some (identity_header rec)) w of
                                None \<Rightarrow> None
                              | Some (rc, w) \<Rightarrow>
                                  if rc \<noteq> EEPROM_OK then Some (LRV_ERR_INTERNAL, l, w)
                                  else
                                    (case identity_read_record dev (lv_eeprom l) RC_MAX_SZ w of
                                       (verify, w) \<Rightarrow>
                                         if verify \<noteq> Some rec then Some (LRV_ERR_INTERNAL, l, w)
                                         else Some (LRV_OK, l\<lparr> lv_data := parsed, lv_data_ok := True \<rparr>, w)))))))"

section \<open>Bytes of the record\<close>

lemma crc16_check:
  "crc16_ccitt [0x31, 0x32, 0x33, 0x34, 0x35, 0x36, 0x37, 0x38, 0x39] = 0x29B1"
  by code_simp

lemma wr16_eq: "wr16 v = [ucast v, ucast (drop_bit 8 v)]"
proof -
  have m: "(0xFF :: 16 word) = mask 8" by (simp add: mask_eq_exp_minus_1)
  have "(ucast (v AND 0xFF) :: byte) = ucast v"
    unfolding m by (rule bit_word_eqI) (simp add: bit_simps)
  then show ?thesis by (simp add: wr16_def)
qed

interpretation le16: codec wr16 "\<lambda>xs. rd16 xs 0" "\<lambda>_. True"
proof unfold_locales
  fix v :: "16 word"
  show "rd16 (wr16 v) 0 = v"
  proof (rule bit_word_eqI)
    fix n assume n: "n < LENGTH(16)"
    have "bit v (8 + (n - 8)) = bit v n" if "8 \<le> n" using that by simp
    then show "bit (rd16 (wr16 v) 0) n = bit v n"
      using n by (cases "n < 8") (simp_all add: rd16_def wr16_eq bit_simps less_diff_conv2)
  qed
qed

lemma rd16_wr16: "rd16 (xs @ wr16 v @ ys) (length xs) = v"
  using le16.dec_enc[of v] by (simp add: rd16_def wr16_eq nth_append)

lemma magic_length [simp]: "length EE_IDENTITY_MAGIC = 4"
  by (simp add: EE_IDENTITY_MAGIC_def)

lemma wr16_length [simp]: "length (wr16 v) = 2"
  by (simp add: wr16_def)

lemma identity_header_length [simp]: "length (identity_header rec) = 8"
  by (simp add: identity_header_def)

lemma identity_header_parts:
  "take 4 (identity_header rec) = EE_IDENTITY_MAGIC"
  "rd16 (identity_header rec) 4 = of_nat (length rec)"
  "rd16 (identity_header rec) 6 = crc16_ccitt rec"
  using rd16_wr16[of EE_IDENTITY_MAGIC "of_nat (length rec)" "wr16 (crc16_ccitt rec)"]
    rd16_wr16[of "EE_IDENTITY_MAGIC @ wr16 (of_nat (length rec))" "crc16_ccitt rec" "[]"]
  by (simp_all add: identity_header_def)

lemma map_slice: "a + n \<le> length m \<Longrightarrow> map (\<lambda>i. m ! (a + i)) [0..<n] = slice a n m"
  by (rule nth_equalityI) (simp_all add: slice_def)

section \<open>The identity on the chip\<close>

text \<open>The cells hold the header of a record and the record after it.\<close>

definition is_identity :: "byte list \<Rightarrow> byte list \<Rightarrow> bool" where
  "is_identity m rec \<longleftrightarrow>
     RC_MIN_SZ \<le> length rec \<and> length rec \<le> RC_MAX_SZ \<and>
     take (EE_HDR_SIZE + length rec) m = identity_header rec @ rec"

text \<open>The bus answers every read and probe (a chip may still fail to be written).\<close>

definition reads_answer :: "'w i2c \<Rightarrow> bool" where
  "reads_answer dev \<longleftrightarrow>
     (\<forall>w. fst (bus_probe dev w)) \<and> (\<forall>w. fst (bus_add_device dev w)) \<and>
     (\<forall>w xs n. fst (bus_transmit_receive dev xs n w) \<noteq> None)"

definition lrv_chip :: "'w i2c \<Rightarrow> ('w \<Rightarrow> byte list) \<Rightarrow> ('w \<Rightarrow> int) \<Rightarrow> eeprom_state \<Rightarrow> bool" where
  "lrv_chip dev mem clk st \<longleftrightarrow> chip_ok dev 4096 mem clk \<and> ee_size_bytes st = 4096"

lemma lrv_chipD:
  assumes "lrv_chip dev mem clk st"
  shows "chip_ok dev 4096 mem clk" "ee_size_bytes st = 4096" "length (mem w) = 4096"
  using assms chip_length[of dev 4096 mem clk w] by (simp_all add: lrv_chip_def)

lemma chip_read:
  assumes "lrv_chip dev mem clk st" "eeprom_read dev (Some st) addr (Some n) w = (rc, xs, w')"
  shows "mem w' = mem w" "rc = EEPROM_OK \<Longrightarrow> 0 < n \<Longrightarrow> xs = slice (unat addr) n (mem w)"
    "reads_answer dev \<Longrightarrow> ee_present st \<Longrightarrow> unat addr + n \<le> 4096 \<Longrightarrow> rc = EEPROM_OK"
proof -
  note c = lrv_chipD[OF assms(1)]
  note rd = eeprom_read_loads[OF c(1) assms(2)]
  show "mem w' = mem w" by (rule rd(1))
  show "xs = slice (unat addr) n (mem w)" if "rc = EEPROM_OK" "0 < n"
    using rd(2)[OF that(1)] that(2) c map_slice[of "unat addr" n "mem w"] by auto
  show "rc = EEPROM_OK" if "reads_answer dev" "ee_present st" "unat addr + n \<le> 4096"
    using assms(2) that c(2)
    by (auto simp: eeprom_read_def reads_answer_def split: if_splits prod.splits option.splits)
      (metis fst_conv option.distinct(1))
qed

lemma identity_cells:
  assumes "is_identity m rec"
  shows "slice 0 8 m = identity_header rec" "slice 8 (length rec) m = rec"
    "189 \<le> length rec" "length rec \<le> 380"
proof -
  have t: "take (8 + length rec) m = identity_header rec @ rec"
    and l: "189 \<le> length rec" "length rec \<le> 380"
    using assms by (simp_all add: is_identity_def lrv_sizes)
  have "take 8 (take (8 + length rec) m) = identity_header rec" unfolding t by simp
  then show "slice 0 8 m = identity_header rec" by (simp add: slice_def min_def)
  have "drop 8 (take (8 + length rec) m) = rec" unfolding t by simp
  then show "slice 8 (length rec) m = rec" by (simp add: slice_def drop_take)
  show "189 \<le> length rec" "length rec \<le> 380" by (fact l)+
qed

lemma len16: "length rec \<le> 380 \<Longrightarrow> unat (of_nat (length rec) :: 16 word) = length rec"
  by (simp add: unat_of_nat take_bit_nat_eq_self)

text \<open>What is read is the identity that is there, or nothing when the bus fails.\<close>

lemma read_record_mem:
  assumes "lrv_chip dev mem clk st" "identity_read_record dev st cap w = (r, w')"
  shows "mem w' = mem w"
proof -
  obtain rc hdr w1 where h: "eeprom_read dev (Some st) EE_IDENTITY_ADDR (Some EE_HDR_SIZE) w = (rc, hdr, w1)"
    by (metis prod_cases3)
  obtain rc2 buf w2 where b: "eeprom_read dev (Some st) (EE_IDENTITY_ADDR + of_nat EE_HDR_SIZE)
      (Some (unat (rd16 hdr 4))) w1 = (rc2, buf, w2)"
    by (metis prod_cases3)
  show ?thesis
    using assms(2) chip_read(1)[OF assms(1) h] chip_read(1)[OF assms(1) b]
    by (auto simp: identity_read_record_def h b Let_def split: if_splits)
qed

lemma read_record_identity:
  assumes chip: "lrv_chip dev mem clk st" and id: "is_identity (mem w) rec"
    and r: "identity_read_record dev st RC_MAX_SZ w = (r, w')"
  shows "r = None \<or> r = Some rec" "reads_answer dev \<Longrightarrow> ee_present st \<Longrightarrow> r = Some rec"
proof -
  obtain rc hdr w1 where h: "eeprom_read dev (Some st) EE_IDENTITY_ADDR (Some EE_HDR_SIZE) w = (rc, hdr, w1)"
    by (metis prod_cases3)
  obtain rc2 buf w2 where b: "eeprom_read dev (Some st) (EE_IDENTITY_ADDR + of_nat EE_HDR_SIZE)
      (Some (length rec)) w1 = (rc2, buf, w2)"
    by (metis prod_cases3)
  note c = identity_cells[OF id]
  note hr = chip_read[OF chip h] and br = chip_read[OF chip b]
  have hdr: "rc = EEPROM_OK \<Longrightarrow> hdr = identity_header rec"
    using hr(2) c(1) by (simp add: EE_IDENTITY_ADDR_def lrv_sizes)
  have "rec \<noteq> []" using c(3) by auto
  then have buf: "rc2 = EEPROM_OK \<Longrightarrow> buf = rec"
    using br(2) c hr(1) by (simp add: EE_IDENTITY_ADDR_def lrv_sizes)
  have eq: "r = (if rc = EEPROM_OK \<and> rc2 = EEPROM_OK then Some rec else None)"
  proof (cases "rc = EEPROM_OK")
    case True
    then have "hdr = identity_header rec" by (rule hdr)
    then show ?thesis
      using r h b buf c(3,4) True len16[OF c(4)]
      by (auto simp: identity_read_record_def identity_header_parts Let_def lrv_sizes split: if_splits)
  next
    case False
    then show ?thesis using r h by (simp add: identity_read_record_def)
  qed
  then show "r = None \<or> r = Some rec" by simp
  assume "reads_answer dev" "ee_present st"
  then have "rc = EEPROM_OK" "rc2 = EEPROM_OK"
    using hr(3) br(3) c(4) by (simp_all add: EE_IDENTITY_ADDR_def lrv_sizes)
  with eq show "r = Some rec" by simp
qed

lemma identity_present_mem:
  assumes "lrv_chip dev mem clk st" "identity_present dev st w = (p, w')"
  shows "mem w' = mem w"
    "is_identity (mem w) rec \<Longrightarrow> reads_answer dev \<Longrightarrow> ee_present st \<Longrightarrow> p"
proof -
  obtain rc hdr w1 where h: "eeprom_read dev (Some st) EE_IDENTITY_ADDR (Some EE_HDR_SIZE) w = (rc, hdr, w1)"
    by (metis prod_cases3)
  note hr = chip_read[OF assms(1) h]
  show "mem w' = mem w"
    using assms(2) hr(1) by (auto simp: identity_present_def h Let_def split: if_splits)
  assume id: "is_identity (mem w) rec" and a: "reads_answer dev" "ee_present st"
  note c = identity_cells[OF id]
  have "rc = EEPROM_OK" using hr(3)[OF a] by (simp add: EE_IDENTITY_ADDR_def lrv_sizes)
  moreover from this have "hdr = identity_header rec"
    using hr(2) c(1) by (simp add: EE_IDENTITY_ADDR_def lrv_sizes)
  ultimately show p
    using assms(2) h c(3,4) len16[OF c(4)]
    by (simp add: identity_present_def identity_header_parts Let_def lrv_sizes)
qed

section \<open>Storing and restarting\<close>

lemma identity_written:
  assumes "RC_MIN_SZ \<le> length rec" "length rec \<le> RC_MAX_SZ" "length m = 4096"
  shows "is_identity (store (store m 8 rec) 0 (identity_header rec)) rec"
  using assms by (simp add: is_identity_def lrv_sizes store_def)

lemma store_failed_header:
  assumes "stored_or_not m 8 rec EEPROM_ERR_IO m'"
  shows "take 8 m' = take 8 m"
  using assms by (intro nth_equalityI) (simp_all add: stored_or_not_def)

lemma store_failed_record:
  assumes "stored_or_not (store m 8 rec) 0 hdr EEPROM_ERR_IO m'" "length hdr = 8" "8 + length rec \<le> length m"
  shows "slice 8 (length rec) m' = rec"
  using assms by (intro nth_equalityI) (auto simp: stored_or_not_def slice_def store_nth)

text \<open>What a call leaves behind. The refusals leave everything as it was; OK means the
  identity is in the cells and published; after an error the header's cells are as they were
  or the record behind them is complete.\<close>

definition store_outcome ::
  "lrv \<Rightarrow> byte list \<Rightarrow> byte list option \<Rightarrow> lrv_result \<Rightarrow> lrv \<Rightarrow> byte list \<Rightarrow> bool" where
  "store_outcome l m record_in rc l' m' \<longleftrightarrow>
     (case rc of
        LRV_OK \<Rightarrow>
          (case record_in of
             None \<Rightarrow> False
           | Some rec \<Rightarrow>
               is_identity m' rec \<and> drop (8 + length rec) m' = drop (8 + length rec) m \<and>
               deserialise rec = Some (lv_data l') \<and> lv_data_ok l' \<and> lv_eeprom l' = lv_eeprom l)
      | LRV_ERR_INTERNAL \<Rightarrow>
          l' = l \<and>
          (case record_in of
             None \<Rightarrow> m' = m
           | Some rec \<Rightarrow> take 8 m' = take 8 m \<or> slice 8 (length rec) m' = rec)
      | _ \<Rightarrow> l' = l \<and> m' = m)"

lemma chip_write:
  assumes "lrv_chip dev mem clk st" "ee_present st" "xs \<noteq> []" "unat addr + length xs \<le> 4096"
  shows "\<exists>rc w'. eeprom_write dev (Some st) addr (Some xs) w = Some (rc, w') \<and>
    stored_or_not (mem w) (unat addr) xs rc (mem w')"
  using eeprom_write_cases[OF lrv_chipD(1)[OF assms(1)] _ assms(2) lrv_chipD(2)[OF assms(1)], of addr xs w]
    assms(3,4) by auto

text \<open>A bus on which every transfer succeeds.\<close>

definition all_answer :: "'w i2c \<Rightarrow> bool" where
  "all_answer dev \<longleftrightarrow> reads_answer dev \<and> (\<forall>w xs. fst (bus_transmit dev xs w))"

lemma write_page_ok:
  assumes "all_answer dev"
  shows "\<exists>w'. write_page dev addr xs w = Some (EEPROM_OK, w')"
  using assms
  by (simp add: all_answer_def reads_answer_def write_page_def wait_write_complete_def wait_loop.simps
      split_beta Let_def)

lemma write_loop_ok:
  assumes "all_answer dev"
  shows "write_loop dev addr buf off w = Some (rc, w') \<Longrightarrow> rc = EEPROM_OK"
proof (induction "length buf - off" arbitrary: off w rule: less_induct)
  case less
  show ?case
  proof (cases "off < length buf")
    case False
    then show ?thesis using less.prems by (subst (asm) write_loop.simps) simp
  next
    case True
    let ?n = "page_chunk addr (length buf) off"
    obtain w1 where "write_page dev (addr + of_nat off) (take ?n (drop off buf)) w = Some (EEPROM_OK, w1)"
      using write_page_ok[OF assms] by blast
    then have "write_loop dev addr buf (off + ?n) w1 = Some (rc, w')"
      using less.prems True by (subst (asm) write_loop.simps) (simp add: Let_def)
    moreover have "length buf - (off + ?n) < length buf - off"
      using page_chunk_pos[OF True] True by (metis diff_less_mono2 less_add_same_cancel1)
    ultimately show ?thesis by (rule less.hyps[rotated])
  qed
qed

lemma write_ok:
  assumes "all_answer dev" "eeprom_write dev (Some st) addr (Some xs) w = Some (rc, w')"
    "ee_present st" "unat addr + length xs \<le> ee_size_bytes st"
  shows "rc = EEPROM_OK"
  using assms write_loop_ok[OF assms(1)] by (auto simp: eeprom_write_def split: if_splits)

lemma write_identity_outcome:
  assumes chip: "lrv_chip dev mem clk (lv_eeprom l)" and pres: "ee_present (lv_eeprom l)"
    and len: "RC_MIN_SZ \<le> length rec" "length rec \<le> RC_MAX_SZ"
    and parsed: "deserialise rec = Some d"
    and free: "identity_present dev (lv_eeprom l) w = (False, w1)"
  shows "\<exists>rc l' w'. lrv_store_identity dev l (Some rec) w = Some (rc, l', w') \<and>
    store_outcome l (mem w) (Some rec) rc l' (mem w') \<and> (all_answer dev \<longrightarrow> rc = LRV_OK)"
proof -
  let ?st = "lv_eeprom l" and ?m = "mem w"
  have m1: "mem w1 = ?m" by (rule identity_present_mem(1)[OF chip free])
  have ml: "length ?m = 4096" by (rule lrv_chipD(3)[OF chip])
  have l8: "8 + length rec \<le> 4096" "rec \<noteq> []" using len by (auto simp: lrv_sizes)
  have addr: "EE_IDENTITY_ADDR + of_nat EE_HDR_SIZE = 8" "unat (8 :: 16 word) = 8"
    "unat EE_IDENTITY_ADDR = 0"
    by (simp_all add: EE_IDENTITY_ADDR_def EE_HDR_SIZE_def)
  obtain rc2 w2 where a: "eeprom_write dev (Some ?st) 8 (Some rec) w1 = Some (rc2, w2)"
    and s2: "stored_or_not ?m 8 rec rc2 (mem w2)"
    using chip_write[OF chip pres l8(2), of 8 w1] l8(1) unfolding addr m1 by blast
  have ok2: "all_answer dev \<Longrightarrow> rc2 = EEPROM_OK"
    using write_ok[OF _ a pres] l8(1) addr(2) lrv_chipD(2)[OF chip] by simp
  have rest: "lrv_store_identity dev l (Some rec) w =
    (if rc2 \<noteq> EEPROM_OK then Some (LRV_ERR_INTERNAL, l, w2)
     else (case eeprom_write dev (Some ?st) EE_IDENTITY_ADDR (Some (identity_header rec)) w2 of
             None \<Rightarrow> None
           | Some (rc, w) \<Rightarrow>
               if rc \<noteq> EEPROM_OK then Some (LRV_ERR_INTERNAL, l, w)
               else (case identity_read_record dev ?st RC_MAX_SZ w of
                       (verify, w) \<Rightarrow>
                         if verify \<noteq> Some rec then Some (LRV_ERR_INTERNAL, l, w)
                         else Some (LRV_OK, l\<lparr> lv_data := d, lv_data_ok := True \<rparr>, w))))"
    using len pres free parsed a l8(2)
    by (auto simp: lrv_store_identity_def addr eeprom_present_def)
  show ?thesis
  proof (cases "rc2 = EEPROM_OK")
    case False
    then have "rc2 = EEPROM_ERR_IO" using s2 by (simp add: stored_or_not_def)
    then have "take 8 (mem w2) = take 8 ?m" using store_failed_header s2 by blast
    then show ?thesis using rest False ok2 by (auto simp: store_outcome_def)
  next
    case True
    then have m2: "mem w2 = store ?m 8 rec" using s2 by (simp add: stored_or_not_def)
    have hne: "identity_header rec \<noteq> []" using identity_header_length[of rec] by (metis list.size(3) zero_neq_numeral)
    obtain rc3 w3 where b: "eeprom_write dev (Some ?st) EE_IDENTITY_ADDR (Some (identity_header rec)) w2 = Some (rc3, w3)"
      and s3: "stored_or_not (store ?m 8 rec) 0 (identity_header rec) rc3 (mem w3)"
      using chip_write[OF chip pres hne, of EE_IDENTITY_ADDR w2] unfolding addr m2 by auto
    have ok3: "all_answer dev \<Longrightarrow> rc3 = EEPROM_OK"
      using write_ok[OF _ b pres] addr(3) lrv_chipD(2)[OF chip] by simp
    show ?thesis
    proof (cases "rc3 = EEPROM_OK")
      case False
      then have "rc3 = EEPROM_ERR_IO" using s3 by (simp add: stored_or_not_def)
      then have "slice 8 (length rec) (mem w3) = rec"
        using store_failed_record[of ?m rec "identity_header rec" "mem w3"] s3 l8 ml by simp
      then show ?thesis using rest True b False ok3 by (auto simp: store_outcome_def)
    next
      case ok: True
      then have m3: "mem w3 = store (store ?m 8 rec) 0 (identity_header rec)"
        using s3 by (simp add: stored_or_not_def)
      have id: "is_identity (mem w3) rec" unfolding m3 by (rule identity_written[OF len ml])
      have tail: "drop (8 + length rec) (mem w3) = drop (8 + length rec) ?m"
        using l8 ml by (simp add: m3 store_def)
      obtain v w4 where r: "identity_read_record dev ?st RC_MAX_SZ w3 = (v, w4)" by fastforce
      have m4: "mem w4 = mem w3" by (rule read_record_mem[OF chip r])
      have ok4: "all_answer dev \<Longrightarrow> v = Some rec"
        using read_record_identity(2)[OF chip id r _ pres] by (simp add: all_answer_def)
      show ?thesis
        using rest True b ok r id tail parsed identity_cells(2)[OF id] m4 ok4
        by (cases "v = Some rec") (auto simp: store_outcome_def)
    qed
  qed
qed

lemma store_identity_outcome:
  assumes "lrv_chip dev mem clk (lv_eeprom l)"
  shows "\<exists>rc l' w'. lrv_store_identity dev l record_in w = Some (rc, l', w') \<and>
    store_outcome l (mem w) record_in rc l' (mem w')"
proof (cases record_in)
  case None
  then show ?thesis by (simp add: lrv_store_identity_def store_outcome_def)
next
  case (Some rec)
  obtain p w1 where p: "identity_present dev (lv_eeprom l) w = (p, w1)" by fastforce
  show ?thesis
  proof (cases "RC_MIN_SZ \<le> length rec \<and> length rec \<le> RC_MAX_SZ \<and> ee_present (lv_eeprom l) \<and>
      deserialise rec \<noteq> None \<and> \<not> p")
    case True
    then show ?thesis
      using write_identity_outcome[OF assms, of rec _ w w1] p Some by auto
  next
    case False
    then show ?thesis
      using Some p identity_present_mem(1)[OF assms p]
      by (auto simp: lrv_store_identity_def store_outcome_def eeprom_present_def split: option.split)
  qed
qed

lemma init_loads:
  assumes chip: "chip_ok dev 4096 mem clk" and init: "lrv_init (Some dev) w = (l, w')"
    and id: "is_identity (mem w) rec" and d: "deserialise rec = Some d"
  shows "mem w' = mem w" "lv_data_ok l \<Longrightarrow> lv_data l = d" "reads_answer dev \<Longrightarrow> lv_data_ok l"
    "ee_size_bytes (lv_eeprom l) = 4096"
proof -
  obtain rc st w1 where s: "eeprom_state_init (Some dev) HW_EEPROM_SIZE_BYTES w = (rc, st, w1)"
    by (metis prod_cases3)
  note st = eeprom_init_state[OF s]
  have lc: "lrv_chip dev mem clk st"
    using chip st(1) by (simp add: lrv_chip_def HW_EEPROM_SIZE_BYTES_def)
  have m1: "mem w1 = mem w" using st(4)[of 4096 mem clk] chip by simp
  obtain r w2 where r: "identity_read_record dev st RC_MAX_SZ w1 = (r, w2)" by fastforce
  have m2: "mem w2 = mem w" using read_record_mem[OF lc r] m1 by simp
  have id1: "is_identity (mem w1) rec" using id m1 by simp
  have rr: "r = None \<or> r = Some rec" by (rule read_record_identity(1)[OF lc id1 r])
  let ?l = "\<lparr> lv_eeprom = st, lv_data = zero_data, lv_data_ok = False \<rparr>"
  have res: "(l, w') = (if \<not> ee_present st then (?l, w1)
     else if r = None then (?l, w2) else (?l\<lparr> lv_data := d, lv_data_ok := True \<rparr>, w2))"
    using init rr d by (auto simp: lrv_init_def s r Let_def eeprom_present_def)
  show "mem w' = mem w" "lv_data_ok l \<Longrightarrow> lv_data l = d" "ee_size_bytes (lv_eeprom l) = 4096"
    using res m1 m2 st(1) by (auto simp: HW_EEPROM_SIZE_BYTES_def split: if_splits)
  assume a: "reads_answer dev"
  have p: "ee_present st"
    using s a by (auto simp: eeprom_state_init_def reads_answer_def split_beta Let_def)
  have "r = Some rec" by (rule read_record_identity(2)[OF lc id1 r a p])
  then show "lv_data_ok l" using res p by simp
qed

section \<open>The challenge\<close>

text \<open>printf's zero padding.\<close>

definition dec_pad :: "nat \<Rightarrow> int \<Rightarrow> string" where
  "dec_pad w v = (let d = dec (nat v) in replicate (w - length d) (CHR ''0'') @ d)"

text \<open>gmtime_r: the calendar time so many seconds after 1970, by counting days.\<close>

definition gmtime :: "int \<Rightarrow> rtc_datetime" where
  "gmtime t =
     carry_days \<lparr> year = 1970, month = 1, day = 1, weekday = 4, hour = t div 3600,
       minute = t mod 3600 div 60, second = t mod 60, subseconds = 0 \<rparr>"

definition iso_text :: "rtc_datetime \<Rightarrow> string" where
  "iso_text tm =
     dec_pad 4 (year tm) @ ''-'' @ dec_pad 2 (month tm) @ ''-'' @ dec_pad 2 (day tm) @ ''T'' @
     dec_pad 2 (hour tm) @ '':'' @ dec_pad 2 (minute tm) @ '':'' @ dec_pad 2 (second tm) @ ''Z''"

definition local_seconds :: "rtc_datetime \<Rightarrow> int" where
  "local_seconds now =
     days_from_civil (year now) (month now) (day now) * 86400 + hour now * 3600 + minute now * 60 + second now"

text \<open>username and tz_h are what NVS holds (None when unset), now what the clock gives (None
  when there is no clock or it is not readable). A stored name that does not fit the
  buffer of 64 is not read. The result is the text, cut to the buffer, and the user name.\<close>

definition lrv_build_challenge ::
  "string option \<Rightarrow> int option \<Rightarrow> rtc_datetime option \<Rightarrow> nat \<Rightarrow> nat \<Rightarrow> string \<times> string" where
  "lrv_build_challenge nvs_username tz_h now out_len username_len =
     (let username = (case nvs_username of None \<Rightarrow> [] | Some u \<Rightarrow> if length u < 64 then u else []);
          iso = (case now of
                   None \<Rightarrow> ''1970-01-01T00:00:00Z''
                 | Some dt \<Rightarrow>
                     iso_text (gmtime (local_seconds dt - (case tz_h of None \<Rightarrow> 0 | Some h \<Rightarrow> h) * 3600)))
      in (take (out_len - 1) (username @ ''|'' @ iso), take (username_len - 1) username))"

text \<open>The signature is the crypto core's; it answers None when it fails.\<close>

definition lrv_sign_challenge ::
  "(string \<Rightarrow> byte list \<Rightarrow> byte list option) \<Rightarrow> lrv \<Rightarrow> string option \<Rightarrow> lrv_result \<times> byte list option" where
  "lrv_sign_challenge sign l challenge =
     (case challenge of
        None \<Rightarrow> (LRV_ERR_INTERNAL, None)
      | Some c \<Rightarrow>
          if \<not> lv_data_ok l then (LRV_ERR_NOT_FOUND, None)
          else
            (case sign c (ld_device_seckey (lv_data l)) of
               None \<Rightarrow> (LRV_ERR_INTERNAL, None)
             | Some sig \<Rightarrow> (LRV_OK, Some sig)))"

section \<open>Texts\<close>

definition hex2 :: "string \<Rightarrow> byte \<Rightarrow> string" where
  "hex2 digits b = [digits ! (unat b div 16), digits ! (unat b mod 16)]"

definition lower_hex :: "byte \<Rightarrow> string" where
  "lower_hex = hex2 ''0123456789abcdef''"

definition upper_hex :: "byte \<Rightarrow> string" where
  "upper_hex = hex2 ''0123456789ABCDEF''"

definition lrv_get_display_info :: "lrv \<Rightarrow> 16 word \<times> string" where
  "lrv_get_display_info l =
     (if lv_data_ok l then
        (let pk = ld_device_pubkey (lv_data l)
         in (ld_serial (lv_data l),
             concat (map lower_hex [pk ! 0, pk ! 1, pk ! 2]) @ ''-'' @
             concat (map lower_hex [pk ! 29, pk ! 30, pk ! 31])))
      else (0, []))"

text \<open>One round of the formatting loop; pos is the length of what is written, the buffer
  keeps room for the final zero.\<close>

definition hex_format_step :: "nat \<Rightarrow> nat \<Rightarrow> string \<Rightarrow> nat \<times> byte \<Rightarrow> string" where
  "hex_format_step bytes_per_row buf_len out ib =
     (let (i, b) = ib;
          out = (if bytes_per_row > 0 \<and> i > 0 \<and> length out + 1 < buf_len
                 then out @ [if i mod bytes_per_row = 0 then CHR 0x0A else CHR '' ''] else out)
      in if length out + 2 < buf_len then out @ upper_hex b else out)"

definition lrv_hex_format :: "byte list \<Rightarrow> nat \<Rightarrow> nat \<Rightarrow> string" where
  "lrv_hex_format xs bytes_per_row buf_len =
     foldl (hex_format_step bytes_per_row buf_len) [] (zip [0..<length xs] xs)"

text \<open>run_size=N is looked up in the certificate text; sscanf skips white space before the
  number and takes a sign.\<close>

definition run_size_needle :: "byte list" where
  "run_size_needle = [0x72, 0x75, 0x6E, 0x5F, 0x73, 0x69, 0x7A, 0x65, 0x3D]"

fun find_text :: "byte list \<Rightarrow> byte list \<Rightarrow> byte list option" where
  "find_text needle [] = (if needle = [] then Some [] else None)"
| "find_text needle (x # xs) =
     (if take (length needle) (x # xs) = needle then Some (x # xs) else find_text needle xs)"

definition is_space :: "byte \<Rightarrow> bool" where
  "is_space b \<longleftrightarrow> b = 0x20 \<or> (0x09 \<le> b \<and> b \<le> 0x0D)"

definition is_digit_b :: "byte \<Rightarrow> bool" where
  "is_digit_b b \<longleftrightarrow> 0x30 \<le> b \<and> b \<le> 0x39"

definition scan_unsigned :: "byte list \<Rightarrow> 32 word option" where
  "scan_unsigned xs =
     (let xs = dropWhile is_space xs;
          negative = (xs \<noteq> [] \<and> hd xs = 0x2D);
          xs = (if xs \<noteq> [] \<and> (hd xs = 0x2D \<or> hd xs = 0x2B) then tl xs else xs);
          ds = takeWhile is_digit_b xs;
          n = foldl (\<lambda>v d. v * 10 + (unat d - 48)) 0 ds;
          v = (if n < 2 ^ 32 then of_nat n else - 1 :: 32 word)
      in if ds = [] then None else Some (if negative \<and> n < 2 ^ 32 then - v else v))"

definition lrv_get_run_size :: "lrv \<Rightarrow> lrv_result \<times> 16 word option" where
  "lrv_get_run_size l =
     (if \<not> lv_data_ok l then (LRV_ERR_NOT_FOUND, None)
      else
        (case find_text run_size_needle (c_text (ld_cert (lv_data l))) of
           None \<Rightarrow> (LRV_ERR_CORRUPT, None)
         | Some needle \<Rightarrow>
             (case scan_unsigned (drop 9 needle) of
                None \<Rightarrow> (LRV_ERR_CORRUPT, None)
              | Some value \<Rightarrow> (LRV_OK, Some (ucast value)))))"

section \<open>Lemmas\<close>

lemma gmtime_seconds:
  assumes "0 \<le> t"
  shows "datetime_seconds (gmtime t) = t"
proof -
  let ?d = "\<lparr> year = 1970, month = 1, day = 1, weekday = 4, hour = t div 3600,
       minute = t mod 3600 div 60, second = t mod 60, subseconds = 0 \<rparr>"
  have "date_ok ?d" by (simp add: date_ok_def max_day_def days_in_month_def)
  then have "datetime_seconds (gmtime t) = datetime_seconds ?d"
    using carry_days_seconds[of ?d] by (simp add: gmtime_def)
  also have "\<dots> = t div 3600 * 3600 + t mod 3600 div 60 * 60 + t mod 60"
    by (simp add: datetime_seconds_def datetime_days_def days_from_civil_def sdiv_nonneg)
  also have "\<dots> = t"
    using div_mult_mod_eq[of t 3600] div_mult_mod_eq[of "t mod 3600" 60] mod_mod_cancel[of 60 3600 t, simplified] by linarith
  finally show ?thesis .
qed

lemma upper_hex_length [simp]: "length (upper_hex b) = 2"
  by (simp add: upper_hex_def hex2_def)

lemma hex_format_step_fits: "length out < n \<Longrightarrow> length (hex_format_step r n out ib) < n"
  by (cases ib) (simp add: hex_format_step_def Let_def)

lemma hex_format_fits: "0 < n \<Longrightarrow> length (lrv_hex_format xs r n) < n"
proof -
  have "length out < n \<Longrightarrow> length (foldl (hex_format_step r n) out ys) < n" for out ys
    by (induction ys arbitrary: out) (simp_all add: hex_format_step_fits)
  then show "0 < n \<Longrightarrow> ?thesis" by (simp add: lrv_hex_format_def)
qed

text \<open>The guard of the write-once promise reads the chip; when that read fails it answers
  "not present", so the writes that follow are not refused.\<close>

lemma guard_fails_open:
  assumes "eeprom_read dev (Some st) EE_IDENTITY_ADDR (Some EE_HDR_SIZE) w = (EEPROM_ERR_IO, [], w')"
  shows "identity_present dev st w = (False, w')"
  using assms by (simp add: identity_present_def)

text \<open>On a bus where every transfer succeeds a proper record is accepted by a blank chip.\<close>

lemma store_succeeds:
  assumes "lrv_chip dev mem clk (lv_eeprom l)" "ee_present (lv_eeprom l)" "all_answer dev"
    and "RC_MIN_SZ \<le> length rec" "length rec \<le> RC_MAX_SZ" "deserialise rec = Some d"
    and "take 4 (mem w) \<noteq> EE_IDENTITY_MAGIC"
  shows "\<exists>l' w'. lrv_store_identity dev l (Some rec) w = Some (LRV_OK, l', w')"
proof -
  obtain rc hdr w1 where h: "eeprom_read dev (Some (lv_eeprom l)) EE_IDENTITY_ADDR (Some EE_HDR_SIZE) w = (rc, hdr, w1)"
    by (metis prod_cases3)
  have "rc = EEPROM_OK \<Longrightarrow> take 4 hdr = take 4 (mem w)"
    using chip_read(2)[OF assms(1) h] by (simp add: EE_IDENTITY_ADDR_def EE_HDR_SIZE_def slice_def)
  then have "identity_present dev (lv_eeprom l) w = (False, w1)"
    using h assms(7) by (auto simp: identity_present_def)
  then show ?thesis using write_identity_outcome[OF assms(1,2,4,5,6)] assms(3) by blast
qed

text \<open>The time in a challenge is the universal time of the local date.\<close>

lemma challenge_time:
  assumes "0 \<le> local_seconds dt - h * 3600"
  shows "\<exists>tm. fst (lrv_build_challenge None (Some h) (Some dt) n k) = take (n - 1) (''|'' @ iso_text tm) \<and>
    datetime_seconds tm = datetime_seconds dt - h * 3600"
  using gmtime_seconds[OF assms]
  by (auto simp: lrv_build_challenge_def local_seconds_def datetime_seconds_def datetime_days_def)

section \<open>Properties\<close>

text \<open>C35: Storing an identity on a chip that keeps its data sheet ends, and with one of these
  outcomes: refused, and nothing has changed; OK, and the cells hold exactly the header and
  the record (nothing behind them changed) while the module publishes what the record
  says; or an error, after which the module is unchanged and the header's cells are as
  they were unless the record behind them is complete: a torn write never leaves a new
  header over a partial record.\<close>

theorem lrv_store_outcomes:
  assumes "lrv_chip dev mem clk (lv_eeprom l)"
  shows "\<exists>rc l' w'. lrv_store_identity dev l record_in w = Some (rc, l', w') \<and>
    store_outcome l (mem w) record_in rc l' (mem w')"
  by (rule store_identity_outcome[OF assms])

text \<open>A blank chip of 4096 cells that is always ready, and a record with a certificate of one
  byte.\<close>

definition ready_cells :: "byte list \<Rightarrow> byte list" where
  "ready_cells m = (if length m = 4096 then m else replicate 4096 0xFF)"

definition ready_mem :: "byte list \<times> int \<Rightarrow> byte list" where
  "ready_mem w = ready_cells (fst w)"

definition ready_i2c :: "(byte list \<times> int) i2c" where
  "ready_i2c =
     \<lparr> bus_probe = (\<lambda>(m, t). (True, m, t + 1)), bus_add_device = (\<lambda>w. (True, w)),
       bus_transmit = (\<lambda>xs (m, t).
         case xs of
           hi # lo # ys \<Rightarrow> (True, page_write (ready_cells m) (address_of hi lo mod 4096) ys, t)
         | _ \<Rightarrow> (True, m, t)),
       bus_transmit_receive = (\<lambda>xs n (m, t).
         case xs of
           [hi, lo] \<Rightarrow>
             (Some (map (\<lambda>i. ready_cells m ! ((address_of hi lo + i) mod 4096)) [0..<n]), m, t)
         | _ \<Rightarrow> (Some [], m, t)),
       timer_get_time = (\<lambda>(m, t). (t, m, t)) \<rparr>"

lemma ready_length [simp]: "length (ready_cells m) = 4096"
  by (simp add: ready_cells_def)

lemma ready_chip: "chip_ok ready_i2c 4096 ready_mem snd"
  unfolding chip_ok_def ready_i2c_def ready_mem_def
  by (auto simp: page_write_other ready_cells_def[of "page_write _ _ _"] split: list.split)

lemma ready_answers: "all_answer ready_i2c"
  by (auto simp: all_answer_def reads_answer_def ready_i2c_def split: list.split)

definition small_record :: "byte list" where
  "small_record = replicate 186 7 @ [1, 0, 0]"

definition blank_lrv :: lrv where
  "blank_lrv = \<lparr> lv_eeprom = \<lparr> ee_present = True, ee_size_bytes = 4096 \<rparr>, lv_data = zero_data, lv_data_ok = False \<rparr>"

lemma small_record_ok:
  "RC_MIN_SZ \<le> length small_record" "length small_record \<le> RC_MAX_SZ" "\<exists>d. deserialise small_record = Some d"
  by (simp_all add: small_record_def deserialise_def lrv_sizes rd16_def nth_append)

lemma blank_lrv_chip: "lrv_chip ready_i2c ready_mem snd (lv_eeprom blank_lrv)"
  using ready_chip by (simp add: lrv_chip_def blank_lrv_def)

lemma blank_store:
  "\<exists>l' w'. lrv_store_identity ready_i2c blank_lrv (Some small_record) ([], 0) = Some (LRV_OK, l', w')"
proof -
  obtain d where "deserialise small_record = Some d" using small_record_ok(3) by blast
  moreover have "take 4 (ready_mem ([], 0)) = replicate 4 0xFF"
    by (simp add: ready_mem_def ready_cells_def)
  moreover have "replicate 4 0xFF \<noteq> EE_IDENTITY_MAGIC" by code_simp
  ultimately show ?thesis
    using store_succeeds[OF blank_lrv_chip _ ready_answers small_record_ok(1,2)]
    by (simp add: blank_lrv_def)
qed

theorem lrv_store_outcomes_witness:
  "\<exists>l' w'. lrv_store_identity ready_i2c blank_lrv (Some small_record) ([], 0) = Some (LRV_OK, l', w') \<and>
    is_identity (ready_mem w') small_record \<and> lv_data_ok l'"
  using blank_store lrv_store_outcomes[OF blank_lrv_chip, of "Some small_record" "([], 0)"]
  by (auto simp: store_outcome_def)

text \<open>The identity survives a restart and is written once. After a store that answered OK, a
  module started on the same cells loads the same identity (or none if the bus fails, which a
  bus that answers excludes), and on a bus that answers no further store is accepted: it
  changes nothing.\<close>

theorem lrv_identity_persists:
  assumes "lrv_chip dev mem clk (lv_eeprom l)"
    and "lrv_store_identity dev l (Some rec) w = Some (LRV_OK, l1, w1)"
    and "mem w2 = mem w1" "lrv_init (Some dev) w2 = (l2, w3)"
    and "lrv_store_identity dev l2 (Some rec2) w3 = Some (rc, l3, w4)"
  shows "(lv_data_ok l2 \<longrightarrow> lv_data l2 = lv_data l1) \<and>
    (reads_answer dev \<longrightarrow> lv_data_ok l2 \<and> rc \<noteq> LRV_OK \<and> l3 = l2 \<and> mem w4 = mem w1)"
proof -
  note c = lrv_chipD[OF assms(1)]
  have o: "store_outcome l (mem w) (Some rec) LRV_OK l1 (mem w1)"
    using store_identity_outcome[OF assms(1), of "Some rec" w] assms(2) by simp
  then have id: "is_identity (mem w1) rec" and d: "deserialise rec = Some (lv_data l1)"
    by (simp_all add: store_outcome_def)
  note i = init_loads[OF c(1) assms(4) id[folded assms(3)] d]
  have lc: "lrv_chip dev mem clk (lv_eeprom l2)" using c(1) i(4) by (simp add: lrv_chip_def)
  have id3: "is_identity (mem w3) rec" using id i(1) assms(3) by simp
  show ?thesis
  proof (intro conjI impI)
    show "lv_data l2 = lv_data l1" if "lv_data_ok l2" using i(2) that .
    assume a: "reads_answer dev"
    show ok: "lv_data_ok l2" by (rule i(3)[OF a])
    obtain p w5 where p: "identity_present dev (lv_eeprom l2) w3 = (p, w5)" by fastforce
    have pres: "ee_present (lv_eeprom l2) \<Longrightarrow> p" using identity_present_mem(2)[OF lc p id3 a] .
    have refused: "rc \<noteq> LRV_OK \<and> l3 = l2 \<and> mem w4 = mem w3"
      using assms(5) p pres identity_present_mem(1)[OF lc p]
      by (auto simp: lrv_store_identity_def eeprom_present_def split: if_splits option.splits)
    then show "rc \<noteq> LRV_OK" "l3 = l2" "mem w4 = mem w1" using i(1) assms(3) by simp_all
  qed
qed

theorem lrv_identity_persists_witness:
  "\<exists>l1 w1 l2 w3 rc l3 w4.
     lrv_store_identity ready_i2c blank_lrv (Some small_record) ([], 0) = Some (LRV_OK, l1, w1) \<and>
     lrv_init (Some ready_i2c) w1 = (l2, w3) \<and> lv_data_ok l2 \<and> lv_data l2 = lv_data l1 \<and>
     lrv_store_identity ready_i2c l2 (Some small_record) w3 = Some (rc, l3, w4) \<and> rc \<noteq> LRV_OK \<and>
     ready_mem w4 = ready_mem w1"
proof -
  obtain l1 w1 where s: "lrv_store_identity ready_i2c blank_lrv (Some small_record) ([], 0) = Some (LRV_OK, l1, w1)"
    using blank_store by blast
  obtain l2 w3 where i: "lrv_init (Some ready_i2c) w1 = (l2, w3)" by (metis surj_pair)
  have "ee_size_bytes (lv_eeprom l2) = 4096"
    using i by (auto simp: lrv_init_def Let_def eeprom_state_init_def HW_EEPROM_SIZE_BYTES_def
        split: prod.splits if_splits option.splits)
  then have "lrv_chip ready_i2c ready_mem snd (lv_eeprom l2)" using ready_chip by (simp add: lrv_chip_def)
  then obtain rc l3 w4 where s2: "lrv_store_identity ready_i2c l2 (Some small_record) w3 = Some (rc, l3, w4)"
    using store_identity_outcome[of _ _ _ l2 "Some small_record" w3] by metis
  have a: "reads_answer ready_i2c" using ready_answers by (simp add: all_answer_def)
  show ?thesis
    using lrv_identity_persists[OF blank_lrv_chip s refl i s2] s i s2 a by blast
qed

end
