(* ===== verification/Http.thy ===== *)
theory Http
  imports CText AppPool
begin

text \<open>
  src/components/jpp_core/src/jpp_http_server_core.c: the HTTP server of the file server and
  of the verification screen. A connection is the record http_conn, whose pointers into the
  request buffer are the texts they point to; bytes are characters. The sockets are the
  parameter net, functions of the state of the world behind them, and the flag stop_req is
  read from that state, as another task sets it. A socket call that is interrupted (EINTR) is
  repeated by the code until it is not, so the parameter gives the answer of the last
  attempt. NULL checks of the connection pointer and log output are left out.
\<close>

section \<open>Constants and state\<close>

definition POLL_SLICE_MS :: int where "POLL_SLICE_MS = 200"
definition STOP_WAIT_MS :: int where "STOP_WAIT_MS = 3000"
definition IDLE_TIMEOUT_MS :: int where "IDLE_TIMEOUT_MS = 5000"
definition HTTP_MAX_REQ_HEADERS :: nat where "HTTP_MAX_REQ_HEADERS = 32"
definition HTTP_REQ_BUF_BYTES :: nat where "HTTP_REQ_BUF_BYTES = 4096"
definition HTTP_RESP_HDR_BYTES :: nat where "HTTP_RESP_HDR_BYTES = 512"
definition HTTP_IO_BYTES_MIN :: nat where "HTTP_IO_BYTES_MIN = 4096"
definition HTTP_IO_BYTES_MAX :: nat where "HTTP_IO_BYTES_MAX = 32 * 1024"

definition HTTP_200 :: string where "HTTP_200 = ''200 OK''"
definition HTTP_201 :: string where "HTTP_201 = ''201 Created''"
definition HTTP_204 :: string where "HTTP_204 = ''204 No Content''"
definition HTTP_207 :: string where "HTTP_207 = ''207 Multi-Status''"
definition HTTP_400 :: string where "HTTP_400 = ''400 Bad Request''"
definition HTTP_401 :: string where "HTTP_401 = ''401 Unauthorized''"
definition HTTP_404 :: string where "HTTP_404 = ''404 Not Found''"
definition HTTP_405 :: string where "HTTP_405 = ''405 Method Not Allowed''"
definition HTTP_500 :: string where "HTTP_500 = ''500 Internal Server Error''"

datatype http_result =
  Http_OK | Http_ERR_ARG | Http_ERR_ALREADY_RUNNING | Http_ERR_POOL_BUSY | Http_ERR_NO_MEMORY
| Http_ERR_SOCKET | Http_ERR_TASK | Http_ERR_NOT_RUNNING | Http_ERR_STOP_TIMEOUT

record http_conn =
  hc_method :: string
  hc_uri :: string
  hc_version :: string
  hc_hdr :: "(string \<times> string) list"
  hc_content_len :: nat
  hc_body_read :: nat
  hc_body_pre :: string
  hc_keep_alive :: bool
  hc_status :: string
  hc_resp_hdr :: string
  hc_resp_started :: bool
  hc_resp_chunked :: bool
  hc_resp_done :: bool
  hc_suppress_body :: bool
  hc_peer_gone :: bool
  hc_io_size :: nat

section \<open>Sockets\<close>

datatype select_result = Sel_Ready | Sel_Timeout | Sel_Error
datatype recv_result = Rv_Data string | Rv_Eof | Rv_Again | Rv_Error
datatype send_result = Sd_Sent nat | Sd_Fail

record 'w net =
  net_stop_req :: "'w \<Rightarrow> bool"
  net_select :: "int \<Rightarrow> 'w \<Rightarrow> select_result \<times> 'w"
  net_recv :: "nat \<Rightarrow> 'w \<Rightarrow> recv_result \<times> 'w"
  net_send :: "string \<Rightarrow> 'w \<Rightarrow> send_result \<times> 'w"
  net_recv_timeout_s :: int

text \<open>What a read gives its caller: some bytes (n > 0), a time-out (0), or the end (-1).\<close>

datatype recv_out = Got string | Got_Timeout | Got_Closed

definition wait_readable :: "'w net \<Rightarrow> int \<Rightarrow> 'w \<Rightarrow> int \<times> 'w" where
  "wait_readable net timeout_ms w =
     (case net_select net timeout_ms w of
        (Sel_Ready, w) \<Rightarrow> (1, w) | (Sel_Timeout, w) \<Rightarrow> (0, w) | (Sel_Error, w) \<Rightarrow> (- 1, w))"

function sock_recv_loop :: "'w net \<Rightarrow> nat \<Rightarrow> int \<Rightarrow> int \<Rightarrow> 'w \<Rightarrow> recv_out \<times> 'w" where
  "sock_recv_loop net len budget_ms waited_ms w =
     (if waited_ms < budget_ms then
        if net_stop_req net w then (Got_Closed, w)
        else
          (let (ready, w) = wait_readable net POLL_SLICE_MS w in
           if ready < 0 then (Got_Closed, w)
           else if ready = 0 then sock_recv_loop net len budget_ms (waited_ms + POLL_SLICE_MS) w
           else
             (case net_recv net len w of
                (Rv_Data xs, w) \<Rightarrow> if xs = [] then (Got_Closed, w) else (Got xs, w)
              | (Rv_Eof, w) \<Rightarrow> (Got_Closed, w)
              | (Rv_Again, w) \<Rightarrow> sock_recv_loop net len budget_ms (waited_ms + POLL_SLICE_MS) w
              | (Rv_Error, w) \<Rightarrow> (Got_Closed, w)))
      else (Got_Timeout, w))"
  by pat_completeness auto
termination
  by (relation "measure (\<lambda>(net, len, budget, waited, w). nat (budget - waited))")
    (auto simp: POLL_SLICE_MS_def)

declare sock_recv_loop.simps [simp del]

definition sock_recv_to :: "'w net \<Rightarrow> nat \<Rightarrow> int \<Rightarrow> 'w \<Rightarrow> recv_out \<times> 'w" where
  "sock_recv_to net len budget_ms w = sock_recv_loop net len budget_ms 0 w"

definition sock_recv :: "'w net \<Rightarrow> nat \<Rightarrow> 'w \<Rightarrow> recv_out \<times> 'w" where
  "sock_recv net len w = sock_recv_to net len (net_recv_timeout_s net * 1000) w"

function send_all :: "'w net \<Rightarrow> http_conn \<Rightarrow> string \<Rightarrow> 'w \<Rightarrow> bool \<times> http_conn \<times> 'w" where
  "send_all net conn xs w =
     (if xs = [] then (True, conn, w)
      else if hc_peer_gone conn \<or> net_stop_req net w then (False, conn\<lparr> hc_peer_gone := True \<rparr>, w)
      else
        (case net_send net xs w of
           (Sd_Sent n, w) \<Rightarrow>
             if n > 0 then send_all net conn (drop n xs) w
             else (False, conn\<lparr> hc_peer_gone := True \<rparr>, w)
         | (Sd_Fail, w) \<Rightarrow> (False, conn\<lparr> hc_peer_gone := True \<rparr>, w)))"
  by pat_completeness auto
termination by (relation "measure (\<lambda>(net, conn, xs, w). length xs)") auto

declare send_all.simps [simp del]

section \<open>Request parsing\<close>

definition is_ows :: "char \<Rightarrow> bool" where
  "is_ows c \<longleftrightarrow> c = CHR '' '' \<or> c = CHR 0x09"

definition skip_ows :: "string \<Rightarrow> string" where
  "skip_ows p = dropWhile is_ows p"

fun find_header_end :: "string \<Rightarrow> nat option" where
  "find_header_end (a # b # c # d # r) =
     (if a = CR \<and> b = LF \<and> c = CR \<and> d = LF then Some 0
      else map_option Suc (find_header_end (b # c # d # r)))"
| "find_header_end _ = None"

definition add_header :: "string \<Rightarrow> string \<Rightarrow> http_conn \<Rightarrow> http_conn" where
  "add_header name value conn =
     (let conn = (if length (hc_hdr conn) < HTTP_MAX_REQ_HEADERS
                  then conn\<lparr> hc_hdr := hc_hdr conn @ [(name, value)] \<rparr> else conn)
      in if strcasecmp_eq name ''Content-Length'' then
           (let v = c_strtol value in conn\<lparr> hc_content_len := (if v > 0 then nat v else 0) \<rparr>)
         else if strcasecmp_eq name ''Connection'' then
           (if strcasecmp_eq value ''close'' then conn\<lparr> hc_keep_alive := False \<rparr>
            else if strcasecmp_eq value ''keep-alive'' then conn\<lparr> hc_keep_alive := True \<rparr>
            else conn)
         else conn)"

definition parse_header_line :: "string \<Rightarrow> http_conn \<Rightarrow> http_conn" where
  "parse_header_line line conn =
     (case cut_char (CHR '':'') line of
        (name, None) \<Rightarrow> conn
      | (name, Some rest) \<Rightarrow> add_header name (skip_ows rest) conn)"

function parse_header_lines :: "string \<Rightarrow> http_conn \<Rightarrow> http_conn" where
  "parse_header_lines lines conn =
     (if lines = [] then conn
      else
        (case cut_line lines of
           (line, None) \<Rightarrow> parse_header_line line conn
         | (line, Some rest) \<Rightarrow> parse_header_lines rest (parse_header_line line conn)))"
  by pat_completeness auto
termination
  by (relation "measure (\<lambda>(lines, conn). length lines)") (auto dest: cut_line_shorter[OF sym])

declare parse_header_lines.simps [simp del]

definition parse_header_block :: "string \<Rightarrow> http_conn \<Rightarrow> http_conn" where
  "parse_header_block block conn =
     (let (line, rest) = cut_line block in
      case cut_char (CHR '' '') line of
        (method, None) \<Rightarrow> conn\<lparr> hc_method := method, hc_uri := [], hc_version := [] \<rparr>
      | (method, Some target) \<Rightarrow>
          (let (uri, ver) = cut_char (CHR '' '') (skip_ows target);
               version = (case ver of None \<Rightarrow> ''HTTP/1.0'' | Some v \<Rightarrow> skip_ows v);
               conn = conn\<lparr> hc_method := method, hc_uri := uri, hc_version := version,
                            hc_keep_alive := (version \<noteq> ''HTTP/1.0'') \<rparr>
           in case rest of None \<Rightarrow> conn | Some lines \<Rightarrow> parse_header_lines lines conn))"

text \<open>The loop that fills the request buffer until the end of the header block is there. A
  read never gives zero bytes (sock_recv_some), so that branch is not taken.\<close>

datatype fill_result = Filled string nat | Fill_None | Fill_Bad

function fill_request :: "'w net \<Rightarrow> string \<Rightarrow> 'w \<Rightarrow> fill_result \<times> 'w" where
  "fill_request net buf w =
     (case find_header_end buf of
        Some hdr_end \<Rightarrow> (Filled buf hdr_end, w)
      | None \<Rightarrow>
          if length buf \<ge> HTTP_REQ_BUF_BYTES then (Fill_Bad, w)
          else
            (case (if length buf = 0 then sock_recv_to net HTTP_REQ_BUF_BYTES IDLE_TIMEOUT_MS w
                   else sock_recv net (HTTP_REQ_BUF_BYTES - length buf) w) of
               (Got xs, w) \<Rightarrow> if xs = [] then (Fill_Bad, w) else fill_request net (buf @ xs) w
             | (_, w) \<Rightarrow> (if length buf = 0 then Fill_None else Fill_Bad, w)))"
  by pat_completeness auto
termination
  by (relation "measure (\<lambda>(net, buf, w). HTTP_REQ_BUF_BYTES - length buf)")
    (auto intro!: diff_less_mono2)

declare fill_request.simps [simp del]

datatype read_result = Read_Ok | Read_None | Read_Bad

definition clear_request :: "http_conn \<Rightarrow> http_conn" where
  "clear_request conn =
     conn\<lparr> hc_method := [], hc_uri := [], hc_version := [], hc_hdr := [], hc_content_len := 0,
       hc_body_read := 0, hc_body_pre := [], hc_keep_alive := True \<rparr>"

definition take_request :: "string \<Rightarrow> nat \<Rightarrow> http_conn \<Rightarrow> http_conn" where
  "take_request buf hdr_end conn =
     (let conn = conn\<lparr> hc_body_pre := drop (hdr_end + 4) buf \<rparr>;
          conn = parse_header_block (cstr_of (take hdr_end buf)) conn
      in if length (hc_body_pre conn) > hc_content_len conn
         then conn\<lparr> hc_body_pre := take (hc_content_len conn) (hc_body_pre conn) \<rparr> else conn)"

definition read_request :: "'w net \<Rightarrow> http_conn \<Rightarrow> 'w \<Rightarrow> read_result \<times> http_conn \<times> 'w" where
  "read_request net conn w =
     (let conn = clear_request conn in
      case fill_request net [] w of
        (Fill_None, w) \<Rightarrow> (Read_None, conn, w)
      | (Fill_Bad, w) \<Rightarrow> (Read_Bad, conn, w)
      | (Filled buf hdr_end, w) \<Rightarrow> (Read_Ok, take_request buf hdr_end conn, w))"

section \<open>Request accessors\<close>

definition http_header :: "http_conn \<Rightarrow> string \<Rightarrow> string option" where
  "http_header conn name = map_option snd (find (\<lambda>h. strcasecmp_eq (fst h) name) (hc_hdr conn))"

definition http_recv :: "'w net \<Rightarrow> http_conn \<Rightarrow> nat \<Rightarrow> 'w \<Rightarrow> recv_out \<times> http_conn \<times> 'w" where
  "http_recv net conn len w =
     (if len = 0 then (Got_Closed, conn, w)
      else
        let remaining = hc_content_len conn - hc_body_read conn
        in if remaining = 0 then (Got_Closed, conn, w)
           else
             let len = (if len > remaining then remaining else len)
             in if length (hc_body_pre conn) > 0 then
                  (let n = (if len < length (hc_body_pre conn) then len else length (hc_body_pre conn))
                   in (Got (take n (hc_body_pre conn)),
                       conn\<lparr> hc_body_pre := drop n (hc_body_pre conn), hc_body_read := hc_body_read conn + n \<rparr>,
                       w))
                else
                  (case sock_recv net len w of
                     (Got xs, w) \<Rightarrow> (Got xs, conn\<lparr> hc_body_read := hc_body_read conn + length xs \<rparr>, w)
                   | (r, w) \<Rightarrow> (r, conn, w)))"

definition crlf :: string where "crlf = [CR, LF]"

definition http_send_continue :: "'w net \<Rightarrow> http_conn \<Rightarrow> 'w \<Rightarrow> bool \<times> http_conn \<times> 'w" where
  "http_send_continue net conn w = send_all net conn (''HTTP/1.1 100 Continue'' @ crlf @ crlf) w"

section \<open>Response\<close>

definition reset_response :: "http_conn \<Rightarrow> http_conn" where
  "reset_response conn =
     conn\<lparr> hc_status := HTTP_200, hc_resp_hdr := [], hc_resp_started := False, hc_resp_chunked := False,
       hc_resp_done := False, hc_suppress_body := (hc_method conn = ''HEAD'') \<rparr>"

definition resp_close_conn :: "http_conn \<Rightarrow> http_conn" where
  "resp_close_conn conn = conn\<lparr> hc_keep_alive := False \<rparr>"

definition resp_set_status :: "string \<Rightarrow> http_conn \<Rightarrow> http_conn" where
  "resp_set_status status conn = conn\<lparr> hc_status := take 39 status \<rparr>"

definition resp_set_hdr :: "string \<Rightarrow> string \<Rightarrow> http_conn \<Rightarrow> http_conn" where
  "resp_set_hdr name value conn =
     (if hc_resp_started conn then conn
      else
        let room = HTTP_RESP_HDR_BYTES - length (hc_resp_hdr conn);
            line = name @ '': '' @ value @ crlf
        in if length line \<ge> room then conn
           else conn\<lparr> hc_resp_hdr := hc_resp_hdr conn @ line \<rparr>)"

definition resp_set_type :: "string \<Rightarrow> http_conn \<Rightarrow> http_conn" where
  "resp_set_type content_type conn = resp_set_hdr ''Content-Type'' content_type conn"

text \<open>The four pieces of the head; content_len None is a chunked response.\<close>

definition head_length :: "nat option \<Rightarrow> string" where
  "head_length content_len =
     (case content_len of
        Some n \<Rightarrow> ''Content-Length: '' @ dec n @ crlf
      | None \<Rightarrow> ''Transfer-Encoding: chunked'' @ crlf)"

definition start_response :: "'w net \<Rightarrow> http_conn \<Rightarrow> nat option \<Rightarrow> 'w \<Rightarrow> bool \<times> http_conn \<times> 'w" where
  "start_response net conn content_len w =
     (let (ok, conn, w) = send_all net conn (''HTTP/1.1 '' @ hc_status conn @ crlf) w in
      if \<not> ok then (False, conn, w)
      else
        (let (ok, conn, w) = (if length (hc_resp_hdr conn) > 0
                              then send_all net conn (hc_resp_hdr conn) w else (True, conn, w)) in
         if \<not> ok then (False, conn, w)
         else
           (let conn = (if content_len = None \<and> hc_suppress_body conn
                        then conn\<lparr> hc_keep_alive := False \<rparr> else conn);
                (ok, conn, w) = send_all net conn (head_length content_len) w in
            if \<not> ok then (False, conn, w)
            else
              (let (ok, conn, w) = send_all net conn
                     (''Connection: '' @ (if hc_keep_alive conn then ''keep-alive'' else ''close'') @ crlf @ crlf) w in
               if \<not> ok then (False, conn, w)
               else (True, conn\<lparr> hc_resp_started := True, hc_resp_chunked := (content_len = None) \<rparr>, w)))))"

text \<open>A body of None is a NULL pointer; the bytes given are the ones the length covers.\<close>

definition resp_send :: "'w net \<Rightarrow> http_conn \<Rightarrow> string option \<Rightarrow> 'w \<Rightarrow> bool \<times> http_conn \<times> 'w" where
  "resp_send net conn body w =
     (if hc_resp_started conn then (False, conn, w)
      else
        (let xs = (case body of None \<Rightarrow> [] | Some b \<Rightarrow> b);
             (ok, conn, w) = start_response net conn (Some (length xs)) w in
         if \<not> ok then (False, conn\<lparr> hc_resp_done := True \<rparr>, w)
         else
           (let (ok, conn, w) = (if length xs = 0 \<or> hc_suppress_body conn then (True, conn, w)
                                 else send_all net conn xs w)
            in (ok, conn\<lparr> hc_resp_done := True \<rparr>, w))))"

definition resp_begin :: "'w net \<Rightarrow> http_conn \<Rightarrow> nat \<Rightarrow> 'w \<Rightarrow> bool \<times> http_conn \<times> 'w" where
  "resp_begin net conn content_len w =
     (if hc_resp_started conn then (False, conn, w) else start_response net conn (Some content_len) w)"

definition resp_write :: "'w net \<Rightarrow> http_conn \<Rightarrow> string \<Rightarrow> 'w \<Rightarrow> bool \<times> http_conn \<times> 'w" where
  "resp_write net conn xs w =
     (if \<not> hc_resp_started conn \<or> hc_resp_chunked conn then (False, conn, w)
      else if length xs = 0 \<or> hc_suppress_body conn then (True, conn, w)
      else send_all net conn xs w)"

definition resp_finish :: "http_conn \<Rightarrow> bool \<times> http_conn" where
  "resp_finish conn = (let conn = conn\<lparr> hc_resp_done := True \<rparr> in (\<not> hc_peer_gone conn, conn))"

definition resp_send_chunk :: "'w net \<Rightarrow> http_conn \<Rightarrow> string option \<Rightarrow> 'w \<Rightarrow> bool \<times> http_conn \<times> 'w" where
  "resp_send_chunk net conn chunk w =
     (let (ok, conn, w) = (if \<not> hc_resp_started conn then start_response net conn None w
                           else (True, conn, w)) in
      if \<not> ok then (False, conn\<lparr> hc_resp_done := True \<rparr>, w)
      else
        (let xs = (case chunk of None \<Rightarrow> [] | Some b \<Rightarrow> b) in
         if length xs = 0 then
           (let (ok, conn, w) = (if hc_suppress_body conn then (True, conn, w)
                                 else send_all net conn (''0'' @ crlf @ crlf) w)
            in (ok, conn\<lparr> hc_resp_done := True \<rparr>, w))
         else if hc_suppress_body conn then (True, conn, w)
         else
           (let (ok, conn, w) = send_all net conn (hex_text (length xs) @ crlf) w in
            if \<not> ok then (False, conn, w)
            else
              (let (ok, conn, w) = send_all net conn xs w in
               if \<not> ok then (False, conn, w) else send_all net conn crlf w))))"

definition resp_send_err :: "'w net \<Rightarrow> http_conn \<Rightarrow> string \<Rightarrow> string \<Rightarrow> 'w \<Rightarrow> bool \<times> http_conn \<times> 'w" where
  "resp_send_err net conn status msg w =
     (if hc_resp_started conn then (False, conn, w)
      else resp_send net (resp_set_type ''text/plain'' (resp_set_status status conn)) (Some msg) w)"

section \<open>Connection loop\<close>

text \<open>A handler answers a request; it may not return (None).\<close>

type_synonym 'w handler = "http_conn \<Rightarrow> 'w \<Rightarrow> (http_conn \<times> 'w) option"

text \<open>What follows the handler: the loop goes on with the connection, or ends.\<close>

definition after_handler :: "'w net \<Rightarrow> http_conn \<Rightarrow> 'w \<Rightarrow> bool \<times> http_conn \<times> 'w" where
  "after_handler net conn w =
     (if \<not> hc_resp_done conn then
        if hc_peer_gone conn then (False, conn, w)
        else if \<not> hc_resp_started conn then
          (let (ok, conn, w) = resp_send_err net (conn\<lparr> hc_keep_alive := False \<rparr>) HTTP_500 ''No response'' w
           in (False, conn, w))
        else (False, conn, w)
      else if hc_peer_gone conn \<or> \<not> hc_keep_alive conn then (False, conn, w)
      else if hc_body_read conn < hc_content_len conn then (False, conn, w)
      else (True, conn, w))"

partial_function (option) serve_conn ::
  "'w net \<Rightarrow> 'w handler \<Rightarrow> http_conn \<Rightarrow> 'w \<Rightarrow> (http_conn \<times> 'w) option" where
  "serve_conn net handler conn w =
     (if net_stop_req net w then Some (conn, w)
      else
        (case read_request net conn w of
           (Read_Ok, conn, w) \<Rightarrow>
             (case handler (reset_response (conn\<lparr> hc_peer_gone := False \<rparr>)) w of
                None \<Rightarrow> None
              | Some (conn, w) \<Rightarrow>
                  (case after_handler net conn w of
                     (go_on, conn, w) \<Rightarrow>
                       if go_on then serve_conn net handler conn w else Some (conn, w)))
         | (_, conn, w) \<Rightarrow> Some (conn, w)))"

text \<open>The task: it serves one connection after the other. wait_conn and accept are select and
  accept on the listening socket.\<close>

datatype accept_result = Acc_Conn | Acc_Again | Acc_Error

partial_function (option) server_task ::
  "'w net \<Rightarrow> (int \<Rightarrow> 'w \<Rightarrow> select_result \<times> 'w) \<Rightarrow> ('w \<Rightarrow> accept_result \<times> 'w) \<Rightarrow> 'w handler \<Rightarrow>
     http_conn \<Rightarrow> 'w \<Rightarrow> (http_conn \<times> 'w) option" where
  "server_task net wait_conn accept handler conn w =
     (if net_stop_req net w then Some (conn, w)
      else
        (case wait_conn POLL_SLICE_MS w of
           (Sel_Error, w) \<Rightarrow> Some (conn, w)
         | (Sel_Timeout, w) \<Rightarrow> server_task net wait_conn accept handler conn w
         | (Sel_Ready, w) \<Rightarrow>
             (case accept w of
                (Acc_Again, w) \<Rightarrow> server_task net wait_conn accept handler conn w
              | (Acc_Error, w) \<Rightarrow> Some (conn, w)
              | (Acc_Conn, w) \<Rightarrow>
                  Option.bind (serve_conn net handler (conn\<lparr> hc_peer_gone := False \<rparr>) w)
                    (\<lambda>(conn, w). server_task net wait_conn accept handler conn w))))"

section \<open>Lifecycle\<close>

record http_config =
  cf_owner :: "string option"
  cf_port :: nat
  cf_stack_bytes :: "32 word"
  cf_has_handler :: bool

text \<open>The control block: what start and stop look at, and the areas carved from the pool.\<close>

record http_srv =
  sv_running :: bool
  sv_stop_req :: bool
  sv_owner :: string
  sv_areas :: "(32 word \<times> 32 word) list"
  sv_io_size :: "32 word"

definition srv_cleared :: "string \<Rightarrow> http_srv" where
  "srv_cleared owner =
     \<lparr> sv_running = False, sv_stop_req = False, sv_owner = owner, sv_areas = [], sv_io_size = 0 \<rparr>"

text \<open>The carving: every area is an offset with its size; None when the pool is too small.
  tcb_size and conn_size are the sizes of a task control block and of a connection.\<close>

definition carve :: "32 word \<Rightarrow> 32 word \<Rightarrow> app_pool \<Rightarrow> (32 word \<times> 32 word) option \<times> app_pool" where
  "carve bytes align p =
     (case app_pool_alloc bytes align p of (a, p) \<Rightarrow> (map_option (\<lambda>a. (a, bytes)) a, p))"

definition io_bytes :: "app_pool \<Rightarrow> 32 word" where
  "io_bytes p =
     (let n = app_pool_avail p AND NOT 0x1FF
      in if n > of_nat HTTP_IO_BYTES_MAX then of_nat HTTP_IO_BYTES_MAX else n)"

definition carve_areas ::
  "32 word \<Rightarrow> 32 word \<Rightarrow> 32 word \<Rightarrow> app_pool \<Rightarrow> ((32 word \<times> 32 word) list \<times> 32 word) option \<times> app_pool" where
  "carve_areas tcb_size stack_bytes conn_size p =
     (let (tcb, p) = carve tcb_size 16 p;
          (stack, p) = carve stack_bytes 16 p;
          (conn, p) = carve conn_size 16 p
      in if tcb = None \<or> stack = None \<or> conn = None then (None, p)
         else
           (let (req_buf, p) = carve (of_nat HTTP_REQ_BUF_BYTES) 4 p;
                (resp_hdr, p) = carve (of_nat HTTP_RESP_HDR_BYTES) 4 p
            in if req_buf = None \<or> resp_hdr = None then (None, p)
               else
                 (let io_size = io_bytes p in
                  if io_size < of_nat HTTP_IO_BYTES_MIN then (None, p)
                  else
                    (let (io, p) = carve io_size 16 p in
                     if io = None then (None, p)
                     else (Some (map the [tcb, stack, conn, req_buf, resp_hdr, io], io_size), p)))))"

text \<open>opened and created are what opening the listener and creating the task answer.\<close>

definition http_server_start ::
  "32 word \<Rightarrow> 32 word \<Rightarrow> bool \<Rightarrow> bool \<Rightarrow> http_config option \<Rightarrow> http_srv \<Rightarrow> app_pool \<Rightarrow>
     http_result \<times> http_srv \<times> app_pool" where
  "http_server_start tcb_size conn_size opened created config srv pool =
     (case config of
        None \<Rightarrow> (Http_ERR_ARG, srv, pool)
      | Some cf \<Rightarrow>
          if \<not> cf_has_handler cf \<or> cf_port cf = 0 then (Http_ERR_ARG, srv, pool)
          else if sv_running srv then (Http_ERR_ALREADY_RUNNING, srv, pool)
          else
            (let owner = (case cf_owner cf of Some ow \<Rightarrow> ow | None \<Rightarrow> ''httpd'');
                 stack_bytes = (if cf_stack_bytes cf \<noteq> 0 then cf_stack_bytes cf else 8192)
             in case app_pool_acquire_as (Some owner) 0 pool of
                  (None, pool) \<Rightarrow> (Http_ERR_POOL_BUSY, srv, pool)
                | (Some _, pool) \<Rightarrow>
                    (let srv = srv_cleared (take 15 owner) in
                     case carve_areas tcb_size stack_bytes conn_size pool of
                       (None, pool) \<Rightarrow> (Http_ERR_NO_MEMORY, srv, app_pool_release pool)
                     | (Some (areas, io_size), pool) \<Rightarrow>
                         if \<not> opened then (Http_ERR_SOCKET, srv, app_pool_release pool)
                         else if \<not> created then (Http_ERR_TASK, srv, app_pool_release pool)
                         else (Http_OK, srv\<lparr> sv_running := True, sv_areas := areas, sv_io_size := io_size \<rparr>,
                               pool))))"

text \<open>exited: the server task ends within STOP_WAIT_MS.\<close>

definition http_server_stop :: "bool \<Rightarrow> http_srv \<Rightarrow> app_pool \<Rightarrow> http_result \<times> http_srv \<times> app_pool" where
  "http_server_stop exited srv pool =
     (if \<not> sv_running srv then (Http_ERR_NOT_RUNNING, srv, pool)
      else
        (let srv = srv\<lparr> sv_stop_req := True \<rparr> in
         if \<not> exited then (Http_ERR_STOP_TIMEOUT, srv, pool)
         else (Http_OK, srv\<lparr> sv_running := False, sv_areas := [] \<rparr>, app_pool_release pool)))"

definition http_server_is_running :: "http_srv \<Rightarrow> bool" where
  "http_server_is_running srv = sv_running srv"

definition http_server_owner :: "http_srv \<Rightarrow> string option" where
  "http_server_owner srv = (if sv_running srv then Some (sv_owner srv) else None)"

definition http_result_name :: "http_result \<Rightarrow> string" where
  "http_result_name r =
     (case r of
        Http_OK \<Rightarrow> ''OK'' | Http_ERR_ARG \<Rightarrow> ''ARG'' | Http_ERR_ALREADY_RUNNING \<Rightarrow> ''ALREADY_RUNNING''
      | Http_ERR_POOL_BUSY \<Rightarrow> ''POOL_BUSY'' | Http_ERR_NO_MEMORY \<Rightarrow> ''NO_MEMORY''
      | Http_ERR_SOCKET \<Rightarrow> ''SOCKET'' | Http_ERR_TASK \<Rightarrow> ''TASK''
      | Http_ERR_NOT_RUNNING \<Rightarrow> ''NOT_RUNNING'' | Http_ERR_STOP_TIMEOUT \<Rightarrow> ''STOP_TIMEOUT'')"

section \<open>Sockets that keep the order of bytes\<close>

text \<open>inp is what the peer will still have sent, out what it has been sent so far. A socket
  delivers the bytes in order and sends a prefix of what it is given.\<close>

definition net_ok :: "'w net \<Rightarrow> ('w \<Rightarrow> string) \<Rightarrow> ('w \<Rightarrow> string) \<Rightarrow> bool" where
  "net_ok net inp out \<longleftrightarrow>
     (\<forall>t w. inp (snd (net_select net t w)) = inp w \<and> out (snd (net_select net t w)) = out w) \<and>
     (\<forall>n w. case net_recv net n w of
        (r, w') \<Rightarrow> out w' = out w \<and>
          (case r of Rv_Data xs \<Rightarrow> length xs \<le> n \<and> inp w = xs @ inp w' | _ \<Rightarrow> inp w' = inp w)) \<and>
     (\<forall>xs w. case net_send net xs w of
        (r, w') \<Rightarrow> inp w' = inp w \<and>
          (case r of Sd_Sent n \<Rightarrow> n \<le> length xs \<and> out w' = out w @ take n xs | Sd_Fail \<Rightarrow> out w' = out w))"

lemma selectD:
  assumes "net_ok net inp out" "net_select net t w = (r, w')"
  shows "inp w' = inp w" "out w' = out w"
proof -
  have "\<forall>t w. inp (snd (net_select net t w)) = inp w \<and> out (snd (net_select net t w)) = out w"
    using assms(1) unfolding net_ok_def by (elim conjE)
  from spec[OF spec[OF this, of t], of w] assms(2) show "inp w' = inp w" "out w' = out w" by simp_all
qed

lemma recvD:
  assumes "net_ok net inp out" "net_recv net n w = (r, w')"
  shows "out w' = out w"
    "case r of Rv_Data xs \<Rightarrow> length xs \<le> n \<and> inp w = xs @ inp w' | _ \<Rightarrow> inp w' = inp w"
proof -
  have "\<forall>n w. case net_recv net n w of
        (r, w') \<Rightarrow> out w' = out w \<and>
          (case r of Rv_Data xs \<Rightarrow> length xs \<le> n \<and> inp w = xs @ inp w' | _ \<Rightarrow> inp w' = inp w)"
    using assms(1) unfolding net_ok_def by (elim conjE)
  from spec[OF spec[OF this, of n], of w] assms(2)
  show "out w' = out w" "case r of Rv_Data xs \<Rightarrow> length xs \<le> n \<and> inp w = xs @ inp w' | _ \<Rightarrow> inp w' = inp w"
    by simp_all
qed

lemma sendD:
  assumes "net_ok net inp out" "net_send net xs w = (r, w')"
  shows "inp w' = inp w"
    "case r of Sd_Sent n \<Rightarrow> n \<le> length xs \<and> out w' = out w @ take n xs | Sd_Fail \<Rightarrow> out w' = out w"
proof -
  have "\<forall>xs w. case net_send net xs w of
        (r, w') \<Rightarrow> inp w' = inp w \<and>
          (case r of Sd_Sent n \<Rightarrow> n \<le> length xs \<and> out w' = out w @ take n xs | Sd_Fail \<Rightarrow> out w' = out w)"
    using assms(1) unfolding net_ok_def by (elim conjE)
  from spec[OF spec[OF this, of xs], of w] assms(2)
  show "inp w' = inp w"
    "case r of Sd_Sent n \<Rightarrow> n \<le> length xs \<and> out w' = out w @ take n xs | Sd_Fail \<Rightarrow> out w' = out w"
    by simp_all
qed

definition recv_ok :: "('w \<Rightarrow> string) \<Rightarrow> ('w \<Rightarrow> string) \<Rightarrow> nat \<Rightarrow> 'w \<Rightarrow> recv_out \<times> 'w \<Rightarrow> bool" where
  "recv_ok inp out len w res \<longleftrightarrow>
     out (snd res) = out w \<and>
     (case fst res of
        Got xs \<Rightarrow> xs \<noteq> [] \<and> length xs \<le> len \<and> inp w = xs @ inp (snd res)
      | _ \<Rightarrow> inp (snd res) = inp w)"

lemma sock_recv_some:
  assumes "net_ok net inp out"
  shows "recv_ok inp out len w (sock_recv_loop net len budget waited w)"
proof (induction "nat (budget - waited)" arbitrary: waited w rule: less_induct)
  case less
  show ?case
  proof (cases "waited < budget \<and> \<not> net_stop_req net w")
    case False
    then show ?thesis by (subst sock_recv_loop.simps) (auto simp: recv_ok_def)
  next
    case True
    obtain s w1 where s: "net_select net POLL_SLICE_MS w = (s, w1)" by (metis surj_pair)
    note sd = selectD[OF assms s]
    obtain r w2 where r: "net_recv net len w1 = (r, w2)" by (metis surj_pair)
    note rd = recvD[OF assms r]
    have meas: "nat (budget - (waited + POLL_SLICE_MS)) < nat (budget - waited)"
      using True by (simp add: POLL_SLICE_MS_def)
    have again: "recv_ok inp out len w (sock_recv_loop net len budget (waited + POLL_SLICE_MS) v)"
      if "inp v = inp w" "out v = out w" for v
      using less[OF meas, of v] unfolding recv_ok_def that .
    show ?thesis
    proof (cases s)
      case Sel_Ready
      then show ?thesis
        using True s sd r rd again[of w2]
        by (subst sock_recv_loop.simps) (cases r; simp add: wait_readable_def recv_ok_def)
    next
      case Sel_Timeout
      then show ?thesis
        using True s sd again[of w1] by (subst sock_recv_loop.simps) (simp add: wait_readable_def)
    next
      case Sel_Error
      then show ?thesis
        using True s sd by (subst sock_recv_loop.simps) (simp add: wait_readable_def recv_ok_def)
    qed
  qed
qed

lemma sock_recv_to_ok:
  assumes "net_ok net inp out"
  shows "recv_ok inp out len w (sock_recv_to net len budget w)" "recv_ok inp out len w (sock_recv net len w)"
  using sock_recv_some[OF assms] by (simp_all add: sock_recv_to_def sock_recv_def)

lemma send_all_Nil [simp]: "send_all net conn [] w = (True, conn, w)"
  by (subst send_all.simps) simp

lemma send_all_gone:
  "xs \<noteq> [] \<Longrightarrow> hc_peer_gone conn \<or> net_stop_req net w \<Longrightarrow>
     send_all net conn xs w = (False, conn\<lparr> hc_peer_gone := True \<rparr>, w)"
  by (subst send_all.simps) simp

lemma send_all_step:
  "xs \<noteq> [] \<Longrightarrow> \<not> hc_peer_gone conn \<Longrightarrow> \<not> net_stop_req net w \<Longrightarrow> net_send net xs w = (r, w1) \<Longrightarrow>
     send_all net conn xs w =
       (case r of
          Sd_Sent n \<Rightarrow> if n > 0 then send_all net conn (drop n xs) w1
                     else (False, conn\<lparr> hc_peer_gone := True \<rparr>, w1)
        | Sd_Fail \<Rightarrow> (False, conn\<lparr> hc_peer_gone := True \<rparr>, w1))"
  by (subst send_all.simps) (cases r; simp)

text \<open>A send gives the whole text, or marks the peer as gone after a prefix of it.\<close>

definition sends ::
  "('w \<Rightarrow> string) \<Rightarrow> ('w \<Rightarrow> string) \<Rightarrow> http_conn \<Rightarrow> string \<Rightarrow> 'w \<Rightarrow> bool \<times> http_conn \<times> 'w \<Rightarrow> bool" where
  "sends inp out conn xs w res \<longleftrightarrow>
     (case res of (ok, conn', w') \<Rightarrow>
        inp w' = inp w \<and>
        (if ok then conn' = conn \<and> out w' = out w @ xs
         else conn' = conn\<lparr> hc_peer_gone := True \<rparr> \<and> (\<exists>k. out w' = out w @ take k xs)))"

lemma sends_nothing: "inp w' = inp w \<Longrightarrow> out w' = out w \<Longrightarrow>
    sends inp out conn xs w (False, conn\<lparr> hc_peer_gone := True \<rparr>, w')"
  by (simp add: sends_def exI[of _ "0::nat"])

lemma sends_more:
  assumes "sends inp out conn (drop n xs) w1 res" "inp w1 = inp w" "out w1 = out w @ take n xs"
  shows "sends inp out conn xs w res"
proof -
  have t: "take n xs @ take k (drop n xs) = take (n + k) xs" for k by (simp add: take_add)
  obtain ok conn' w' where res: "res = (ok, conn', w')" by (metis prod_cases3)
  show ?thesis
  proof (cases ok)
    case True
    then show ?thesis using assms by (simp add: sends_def res)
  next
    case False
    with assms(1) obtain k where k: "inp w' = inp w1" "conn' = conn\<lparr> hc_peer_gone := True \<rparr>"
      "out w' = out w1 @ take k (drop n xs)"
      by (auto simp: sends_def res)
    then have "out w' = out w @ take (n + k) xs" using assms(3) t by simp
    with k(1,2) assms(2) False show ?thesis by (auto simp: sends_def res)
  qed
qed

lemma send_all_sends:
  assumes "net_ok net inp out"
  shows "sends inp out conn xs w (send_all net conn xs w)"
proof (induction "length xs" arbitrary: xs w rule: less_induct)
  case less
  consider "xs = []" | "xs \<noteq> []" "hc_peer_gone conn \<or> net_stop_req net w"
    | "xs \<noteq> []" "\<not> hc_peer_gone conn" "\<not> net_stop_req net w" by blast
  then show ?case
  proof cases
    case 1
    then show ?thesis by (simp add: sends_def)
  next
    case 2
    show ?thesis unfolding send_all_gone[OF 2] by (rule sends_nothing[OF refl refl])
  next
    case 3
    obtain r w1 where r: "net_send net xs w = (r, w1)" by (metis surj_pair)
    note sd = sendD[OF assms r] and step = send_all_step[OF 3 r]
    show ?thesis
    proof (cases r)
      case Sd_Fail
      then show ?thesis unfolding step using sd by (simp add: sends_nothing)
    next
      case (Sd_Sent n)
      show ?thesis
      proof (cases "n > 0")
        case False
        then show ?thesis unfolding step using sd Sd_Sent by (simp add: sends_nothing)
      next
        case True
        have "length (drop n xs) < length xs" using True 3(1) by simp
        from less[OF this] have "sends inp out conn (drop n xs) w1 (send_all net conn (drop n xs) w1)" .
        then have "sends inp out conn xs w (send_all net conn (drop n xs) w1)"
          by (rule sends_more) (use sd Sd_Sent in simp_all)
        then show ?thesis unfolding step using Sd_Sent True by simp
      qed
    qed
  qed
qed

section \<open>The request as it was sent\<close>

lemma header_end_append:
  "find_header_end xs = Some e \<Longrightarrow> find_header_end (xs @ ys) = Some e"
proof (induction xs arbitrary: e rule: find_header_end.induct)
  case (1 a b c d r)
  then show ?case by (auto split: if_splits)
qed simp_all

lemma header_end_bound: "find_header_end xs = Some e \<Longrightarrow> e + 4 \<le> length xs"
  by (induction xs arbitrary: e rule: find_header_end.induct) (auto split: if_splits)

text \<open>The search passes over text without a carriage return and over a line end that another
  line follows.\<close>

lemma CR_LF [simp]: "CR \<noteq> LF" "LF \<noteq> CR"
  by (simp_all add: CR_def LF_def)

lemma header_end_skip1: "x \<noteq> CR \<Longrightarrow> find_header_end (x # r) = map_option Suc (find_header_end r)"
  by (cases "(x # r)" rule: find_header_end.cases) (auto simp: option.map_comp)

lemma header_end_skip:
  "CR \<notin> set s \<Longrightarrow> find_header_end (s @ r) = map_option (\<lambda>k. length s + k) (find_header_end r)"
proof (induction s)
  case Nil
  show ?case by (simp add: option.map_id0[unfolded id_def])
next
  case (Cons x s)
  then have "x \<noteq> CR" by auto
  with Cons show ?case by (simp add: header_end_skip1 option.map_comp comp_def)
qed

lemma header_end_line:
  "x \<noteq> CR \<Longrightarrow> find_header_end (CR # LF # x # r) = map_option (\<lambda>k. 3 + k) (find_header_end r)"
proof -
  assume x: "x \<noteq> CR"
  have "find_header_end (CR # LF # x # r) = map_option Suc (find_header_end (LF # x # r))"
    using x by (cases r) auto
  then show ?thesis
    using x by (simp add: header_end_skip1 option.map_comp comp_def numeral_3_eq_3)
qed

lemma fill_request_fills:
  assumes "net_ok net inp out"
  shows "fill_request net buf w = (Filled all e, w') \<Longrightarrow>
    find_header_end all = Some e \<and> buf @ inp w = all @ inp w' \<and> out w' = out w"
proof (induction "HTTP_REQ_BUF_BYTES - length buf" arbitrary: buf w rule: less_induct)
  case less
  show ?case
  proof (cases "find_header_end buf")
    case (Some k)
    then show ?thesis using less.prems by (subst (asm) fill_request.simps) auto
  next
    case None
    define res where "res = (if length buf = 0 then sock_recv_to net HTTP_REQ_BUF_BYTES IDLE_TIMEOUT_MS w
                   else sock_recv net (HTTP_REQ_BUF_BYTES - length buf) w)"
    have short: "length buf < HTTP_REQ_BUF_BYTES"
      using less.prems None by (subst (asm) fill_request.simps) (auto split: if_splits)
    have eq: "fill_request net buf w =
        (case res of
           (Got xs, w) \<Rightarrow> if xs = [] then (Fill_Bad, w) else fill_request net (buf @ xs) w
         | (_, w) \<Rightarrow> (if length buf = 0 then Fill_None else Fill_Bad, w))"
      using None short by (subst fill_request.simps) (simp add: res_def)
    have "recv_ok inp out (HTTP_REQ_BUF_BYTES - length buf) w res"
      unfolding res_def
      using sock_recv_to_ok(1)[OF assms, of HTTP_REQ_BUF_BYTES] sock_recv_to_ok(2)[OF assms]
      by (cases "length buf = 0") simp_all
    moreover obtain xs w1 where r: "res = (Got xs, w1)" "xs \<noteq> []"
      and rest: "fill_request net (buf @ xs) w1 = (Filled all e, w')"
      using less.prems[unfolded eq] by (auto split: prod.splits recv_out.splits if_splits)
    ultimately have io: "inp w = xs @ inp w1" "out w1 = out w" by (simp_all add: recv_ok_def)
    have "HTTP_REQ_BUF_BYTES - length (buf @ xs) < HTTP_REQ_BUF_BYTES - length buf"
      using short r(2) by (simp add: diff_less_mono2)
    from less.hyps[OF this rest] io show ?thesis by simp
  qed
qed

subsection \<open>Requests as a client writes them\<close>

definition clean :: "string \<Rightarrow> bool" where
  "clean s \<longleftrightarrow> CR \<notin> set s \<and> LF \<notin> set s \<and> NUL \<notin> set s"

definition header_line :: "string \<times> string \<Rightarrow> string" where
  "header_line h = fst h @ '': '' @ snd h"

definition request_head :: "string \<Rightarrow> string \<Rightarrow> (string \<times> string) list \<Rightarrow> string" where
  "request_head m u hs =
     (m @ '' '' @ u @ '' HTTP/1.1'') @ concat (map (\<lambda>h. crlf @ header_line h) hs)"

definition request_text :: "string \<Rightarrow> string \<Rightarrow> (string \<times> string) list \<Rightarrow> string \<Rightarrow> string" where
  "request_text m u hs body = request_head m u hs @ crlf @ crlf @ body"

definition header_ok :: "string \<times> string \<Rightarrow> bool" where
  "header_ok h \<longleftrightarrow>
     clean (fst h) \<and> clean (snd h) \<and> CHR '':'' \<notin> set (fst h) \<and> fst h \<noteq> [] \<and>
     (snd h = [] \<or> \<not> is_ows (hd (snd h)))"

definition request_ok :: "string \<Rightarrow> string \<Rightarrow> (string \<times> string) list \<Rightarrow> bool" where
  "request_ok m u hs \<longleftrightarrow>
     clean m \<and> clean u \<and> CHR '' '' \<notin> set m \<and> CHR '' '' \<notin> set u \<and> u \<noteq> [] \<and> \<not> is_ows (hd u) \<and>
     list_all header_ok hs \<and> length hs \<le> HTTP_MAX_REQ_HEADERS"

text \<open>The length a request declares: the last Content-Length counts.\<close>

definition declared_len :: "(string \<times> string) list \<Rightarrow> nat" where
  "declared_len hs =
     foldl (\<lambda>n h. if strcasecmp_eq (fst h) ''Content-Length''
              then (if c_strtol (snd h) > 0 then nat (c_strtol (snd h)) else 0) else n) 0 hs"

lemma skip_ows_id: "s = [] \<or> \<not> is_ows (hd s) \<Longrightarrow> skip_ows s = s"
  by (cases s) (auto simp: skip_ows_def)

lemma header_line_clean: "header_ok h \<Longrightarrow> clean (header_line h)"
  by (auto simp: header_ok_def header_line_def clean_def CR_def LF_def NUL_def)

lemma parse_header_line_ok: "header_ok h \<Longrightarrow> parse_header_line (header_line h) conn = add_header (fst h) (snd h) conn"
proof -
  assume h: "header_ok h"
  have "skip_ows (CHR '' '' # snd h) = snd h"
    using h skip_ows_id[of "snd h"] by (simp add: header_ok_def skip_ows_def is_ows_def)
  then show ?thesis using h by (simp add: parse_header_line_def header_line_def header_ok_def)
qed

lemma parse_header_lines_ok:
  "list_all header_ok (h # hs) \<Longrightarrow>
     parse_header_lines (header_line h @ concat (map (\<lambda>h. crlf @ header_line h) hs)) conn =
     foldl (\<lambda>c h. add_header (fst h) (snd h) c) conn (h # hs)"
proof (induction hs arbitrary: h conn)
  case Nil
  then have h: "header_ok h" by simp
  have "cut_line (header_line h) = (header_line h, None)"
    using header_line_clean[OF h] by (simp add: cut_line_none clean_def)
  moreover have "header_line h \<noteq> []" by (simp add: header_line_def)
  ultimately show ?case using h by (subst parse_header_lines.simps) (simp add: parse_header_line_ok)
next
  case (Cons g gs)
  then have h: "header_ok h" by simp
  let ?rest = "header_line g @ concat (map (\<lambda>h. crlf @ header_line h) gs)"
  have "cut_line (header_line h @ CR # LF # ?rest) = (header_line h, Some ?rest)"
    using header_line_clean[OF h] by (simp add: cut_line_some clean_def)
  moreover have "header_line h \<noteq> []" by (simp add: header_line_def)
  ultimately have "parse_header_lines (header_line h @ CR # LF # ?rest) conn
      = parse_header_lines ?rest (add_header (fst h) (snd h) conn)"
    using h by (subst parse_header_lines.simps) (simp add: parse_header_line_ok)
  then show ?case using Cons.IH[of g] Cons.prems by (simp add: crlf_def)
qed

lemma add_header_simps [simp]:
  "hc_method (add_header n v c) = hc_method c" "hc_uri (add_header n v c) = hc_uri c"
  "hc_version (add_header n v c) = hc_version c" "hc_body_pre (add_header n v c) = hc_body_pre c"
  "hc_body_read (add_header n v c) = hc_body_read c"
  "hc_hdr (add_header n v c) =
     (if length (hc_hdr c) < HTTP_MAX_REQ_HEADERS then hc_hdr c @ [(n, v)] else hc_hdr c)"
  "hc_content_len (add_header n v c) =
     (if strcasecmp_eq n ''Content-Length'' then (if c_strtol v > 0 then nat (c_strtol v) else 0)
      else hc_content_len c)"
  by (simp_all add: add_header_def Let_def)

lemma fold_headers:
  fixes hs :: "(string \<times> string) list"
  shows "hc_method (foldl (\<lambda>c h. add_header (fst h) (snd h) c) c hs) = hc_method c"
    "hc_uri (foldl (\<lambda>c h. add_header (fst h) (snd h) c) c hs) = hc_uri c"
    "hc_version (foldl (\<lambda>c h. add_header (fst h) (snd h) c) c hs) = hc_version c"
    "hc_body_pre (foldl (\<lambda>c h. add_header (fst h) (snd h) c) c hs) = hc_body_pre c"
    "hc_body_read (foldl (\<lambda>c h. add_header (fst h) (snd h) c) c hs) = hc_body_read c"
  by (induction hs arbitrary: c) simp_all

lemma fold_headers_hdr:
  "length (hc_hdr c) + length hs \<le> HTTP_MAX_REQ_HEADERS \<Longrightarrow>
     hc_hdr (foldl (\<lambda>c h. add_header (fst h) (snd h) c) c hs) = hc_hdr c @ hs"
  by (induction hs arbitrary: c) simp_all

lemma fold_headers_len:
  "hc_content_len (foldl (\<lambda>c h. add_header (fst h) (snd h) c) c hs) =
     foldl (\<lambda>n h. if strcasecmp_eq (fst h) ''Content-Length''
              then (if c_strtol (snd h) > 0 then nat (c_strtol (snd h)) else 0) else n) (hc_content_len c) hs"
  by (induction hs arbitrary: c) simp_all

lemma request_head_end:
  assumes "request_ok m u hs"
  shows "find_header_end (request_text m u hs body) = Some (length (request_head m u hs))"
proof -
  have lines: "list_all header_ok hs \<Longrightarrow>
      find_header_end (concat (map (\<lambda>h. crlf @ header_line h) hs) @ crlf @ crlf @ body) =
      Some (length (concat (map (\<lambda>h. crlf @ header_line h) hs)))"
  proof (induction hs)
    case Nil
    show ?case by (simp add: crlf_def)
  next
    case (Cons h hs)
    then have h: "header_ok h" by simp
    obtain x l where x: "header_line h = x # l"
      by (cases "header_line h") (simp_all add: header_line_def)
    have "x \<noteq> CR" "CR \<notin> set l" using header_line_clean[OF h] by (auto simp: x clean_def)
    then show ?case
      using Cons by (simp add: crlf_def x header_end_line header_end_skip option.map_comp comp_def)
  qed
  have c: "CR \<notin> set (m @ '' '' @ u @ '' HTTP/1.1'')"
    using assms by (auto simp: request_ok_def clean_def CR_def)
  show ?thesis
    using lines assms header_end_skip[OF c]
    by (simp add: request_text_def request_head_def request_ok_def)
qed

lemma parse_request_head:
  assumes "request_ok m u hs" "hc_hdr conn = []" "hc_content_len conn = 0"
  defines "c \<equiv> parse_header_block (request_head m u hs) conn"
  shows "hc_method c = m" "hc_uri c = u" "hc_version c = ''HTTP/1.1''" "hc_hdr c = hs"
    "hc_content_len c = declared_len hs" "hc_body_pre c = hc_body_pre conn" "hc_body_read c = hc_body_read conn"
proof -
  let ?line = "m @ '' '' @ u @ '' HTTP/1.1''"
  let ?conn = "conn\<lparr> hc_method := m, hc_uri := u, hc_version := ''HTTP/1.1'', hc_keep_alive := True \<rparr>"
  have r: "clean m" "clean u" "CHR '' '' \<notin> set m" "CHR '' '' \<notin> set u" "u \<noteq> []" "\<not> is_ows (hd u)"
    "list_all header_ok hs" "length hs \<le> HTTP_MAX_REQ_HEADERS"
    using assms(1) by (simp_all add: request_ok_def)
  have cr: "CR \<notin> set ?line" using r(1,2) by (auto simp: clean_def CR_def)
  have uri: "skip_ows (u @ '' HTTP/1.1'') = u @ '' HTTP/1.1''"
    using skip_ows_id[of "u @ '' HTTP/1.1''"] r(5,6) by simp
  have first: "cut_char (CHR '' '') ?line = (m, Some (u @ '' HTTP/1.1''))"
    "cut_char (CHR '' '') (u @ '' HTTP/1.1'') = (u, Some ''HTTP/1.1'')"
    using r(3,4) by simp_all
  have ver: "skip_ows ''HTTP/1.1'' = ''HTTP/1.1''" by (simp add: skip_ows_def is_ows_def)
  have c: "c = foldl (\<lambda>c h. add_header (fst h) (snd h) c) ?conn hs"
  proof (cases hs)
    case Nil
    have "cut_line (request_head m u hs) = (?line, None)"
      using cut_line_none[OF cr] by (simp add: request_head_def Nil)
    then show ?thesis
      using first uri ver by (simp add: c_def parse_header_block_def Nil)
  next
    case (Cons h gs)
    let ?rest = "header_line h @ concat (map (\<lambda>h. crlf @ header_line h) gs)"
    have "request_head m u hs = ?line @ CR # LF # ?rest" by (simp add: request_head_def Cons crlf_def)
    then have "cut_line (request_head m u hs) = (?line, Some ?rest)"
      using cut_line_some[OF cr] by simp
    then show ?thesis
      using first uri ver parse_header_lines_ok[of h gs ?conn] r(7)
      by (simp add: c_def parse_header_block_def Cons)
  qed
  show "hc_method c = m" "hc_uri c = u" "hc_version c = ''HTTP/1.1''" "hc_hdr c = hs"
    "hc_content_len c = declared_len hs" "hc_body_pre c = hc_body_pre conn" "hc_body_read c = hc_body_read conn"
    unfolding c using r(8) assms(2,3)
    by (simp_all add: fold_headers fold_headers_hdr fold_headers_len declared_len_def)
qed

lemma request_head_clean: "request_ok m u hs \<Longrightarrow> cstr_of (request_head m u hs) = request_head m u hs"
proof -
  assume r: "request_ok m u hs"
  have h: "\<forall>h\<in>set hs. NUL \<notin> set (header_line h)"
    using r header_line_clean by (auto simp: request_ok_def list_all_iff clean_def)
  have "NUL \<notin> set (m @ '' '' @ u @ '' HTTP/1.1'')"
    using r by (auto simp: request_ok_def clean_def NUL_def)
  moreover have "NUL \<notin> set crlf" by (simp add: crlf_def NUL_def CR_def LF_def)
  ultimately have "NUL \<notin> set (request_head m u hs)"
    using h by (auto simp: request_head_def)
  then show ?thesis by (auto simp: cstr_of_def takeWhile_eq_all_conv)
qed

section \<open>The body in order\<close>

text \<open>What of the declared body is still to come: from the bytes read with the head, then from
  the socket.\<close>

definition body_left :: "('w \<Rightarrow> string) \<Rightarrow> http_conn \<Rightarrow> 'w \<Rightarrow> string" where
  "body_left inp c w = take (hc_content_len c - hc_body_read c) (hc_body_pre c @ inp w)"

definition body_ok :: "http_conn \<Rightarrow> bool" where
  "body_ok c \<longleftrightarrow> hc_body_read c + length (hc_body_pre c) \<le> hc_content_len c"

lemma request_read:
  assumes net: "net_ok net inp out" and req: "request_ok m u hs"
    and stream: "inp w = request_text m u hs body"
    and read: "read_request net conn w = (Read_Ok, c, w')"
  shows "hc_method c = m" "hc_uri c = u" "hc_hdr c = hs" "hc_content_len c = declared_len hs"
    "body_left inp c w' = take (declared_len hs) body" "body_ok c" "out w' = out w"
proof -
  obtain buf e where f: "fill_request net [] w = (Filled buf e, w')" and c: "c = take_request buf e (clear_request conn)"
    using read by (auto simp: read_request_def Let_def split: prod.splits fill_result.splits)
  have buf: "find_header_end buf = Some e" "inp w = buf @ inp w'" and out: "out w' = out w"
    using fill_request_fills[OF net f] by simp_all
  have e: "e = length (request_head m u hs)"
    using header_end_append[OF buf(1), of "inp w'"] request_head_end[OF req, of body] stream buf(2) by simp
  have bound: "e + 4 \<le> length buf" by (rule header_end_bound[OF buf(1)])
  have eq: "buf @ inp w' = request_head m u hs @ crlf @ crlf @ body"
    using stream buf(2) by (simp add: request_text_def)
  have hd: "take e buf = request_head m u hs"
    using arg_cong[OF eq, of "take e"] bound e by simp
  have tl: "drop (e + 4) buf @ inp w' = body"
    using arg_cong[OF eq, of "drop (e + 4)"] bound e by (simp add: crlf_def)
  let ?c0 = "(clear_request conn)\<lparr> hc_body_pre := drop (e + 4) buf \<rparr>"
  let ?c1 = "parse_header_block (request_head m u hs) ?c0"
  note p = parse_request_head[OF req, of ?c0]
  have c': "c = (if length (hc_body_pre ?c1) > hc_content_len ?c1
         then ?c1\<lparr> hc_body_pre := take (hc_content_len ?c1) (hc_body_pre ?c1) \<rparr> else ?c1)"
    unfolding c take_request_def hd request_head_clean[OF req] by (simp add: Let_def)
  have clear: "hc_hdr ?c0 = []" "hc_content_len ?c0 = 0" "hc_body_read ?c0 = 0"
    by (simp_all add: clear_request_def)
  note p = p[OF clear(1,2)]
  show "hc_method c = m" "hc_uri c = u" "hc_hdr c = hs" "hc_content_len c = declared_len hs" "body_ok c"
    using p clear by (simp_all add: c' body_ok_def)
  show "out w' = out w" by (rule out)
  show "body_left inp c w' = take (declared_len hs) body"
    using p clear tl by (auto simp: c' body_left_def take_append)
qed

lemma take_split:
  "n \<le> length xs \<Longrightarrow> n \<le> m \<Longrightarrow> take m (xs @ ys) = take n xs @ take (m - n) (drop n xs @ ys)"
  using append_take_drop_id[of n "take m (xs @ ys)"] by (simp add: drop_take min_def)

lemma http_recv_ok:
  assumes net: "net_ok net inp out" and ok: "body_ok c" and r: "http_recv net c len w = (r, c', w')"
  shows "body_ok c'" "out w' = out w" "hc_content_len c' = hc_content_len c"
    "c' = c\<lparr> hc_body_pre := hc_body_pre c', hc_body_read := hc_body_read c' \<rparr>"
    "case r of Got xs \<Rightarrow> xs \<noteq> [] \<and> length xs \<le> len \<and> body_left inp c w = xs @ body_left inp c' w'
       | _ \<Rightarrow> body_left inp c' w' = body_left inp c w"
proof -
  let ?rem = "hc_content_len c - hc_body_read c"
  let ?len = "if len > ?rem then ?rem else len"
  let ?pre = "hc_body_pre c"
  let ?n = "if ?len < length ?pre then ?len else length ?pre"
  obtain s w1 where s: "sock_recv net ?len w = (s, w1)" by (metis surj_pair)
  have so: "recv_ok inp out ?len w (s, w1)" using sock_recv_to_ok(2)[OF net, of ?len w] s by simp
  consider "len = 0 \<or> ?rem = 0" | "len > 0" "?rem > 0" "?pre \<noteq> []" | "len > 0" "?rem > 0" "?pre = []" by fastforce
  then have "body_ok c' \<and> out w' = out w \<and> hc_content_len c' = hc_content_len c \<and>
    c' = c\<lparr> hc_body_pre := hc_body_pre c', hc_body_read := hc_body_read c' \<rparr> \<and>
    (case r of Got xs \<Rightarrow> xs \<noteq> [] \<and> length xs \<le> len \<and> body_left inp c w = xs @ body_left inp c' w'
       | _ \<Rightarrow> body_left inp c' w' = body_left inp c w)"
  proof cases
    case 1
    then have "(r, c', w') = (Got_Closed, c, w)"
      using r by (cases "len = 0") (simp_all add: http_recv_def Let_def)
    then show ?thesis using ok by simp
  next
    case 2
    define n where "n = ?n"
    have n: "0 < n" "n \<le> length ?pre" "n \<le> len" "n \<le> ?rem" unfolding n_def using 2 by auto
    have res: "r = Got (take n ?pre)" "c' = c\<lparr> hc_body_pre := drop n ?pre, hc_body_read := hc_body_read c + n \<rparr>"
      "w' = w"
      using r 2 by (simp_all add: http_recv_def Let_def n_def)
    have left: "body_left inp c w = take n ?pre @ body_left inp c' w'"
      using take_split[OF n(2,4), of "inp w"] by (simp add: body_left_def res diff_diff_left)
    have "body_ok c'" using ok n by (simp add: body_ok_def res)
    moreover have "take n ?pre \<noteq> []" "length (take n ?pre) \<le> len" using n 2(3) by auto
    ultimately show ?thesis using left by (simp add: res)
  next
    case 3
    show ?thesis
    proof (cases s)
      case (Got xs)
      then have io: "xs \<noteq> []" "length xs \<le> ?len" "inp w = xs @ inp w1" "out w1 = out w"
        using so by (simp_all add: recv_ok_def)
      have res: "r = Got xs" "c' = c\<lparr> hc_body_read := hc_body_read c + length xs \<rparr>" "w' = w1"
        using r 3 s Got by (simp_all add: http_recv_def Let_def)
      have "length xs \<le> ?rem" "length xs \<le> len" using io(2) by (auto split: if_splits)
      then show ?thesis
        using io 3(2,3) unfolding res body_left_def body_ok_def by (simp add: diff_diff_left)
    qed (use r 3 s so ok in \<open>auto simp: http_recv_def Let_def recv_ok_def body_left_def\<close>)
  qed
  then show "body_ok c'" "out w' = out w" "hc_content_len c' = hc_content_len c"
    "c' = c\<lparr> hc_body_pre := hc_body_pre c', hc_body_read := hc_body_read c' \<rparr>"
    "case r of Got xs \<Rightarrow> xs \<noteq> [] \<and> length xs \<le> len \<and> body_left inp c w = xs @ body_left inp c' w'
       | _ \<Rightarrow> body_left inp c' w' = body_left inp c w" by blast+
qed

section \<open>What a response looks like on the wire\<close>

definition stays_open :: "http_conn \<Rightarrow> nat option \<Rightarrow> bool" where
  "stays_open c content_len \<longleftrightarrow> hc_keep_alive c \<and> \<not> (content_len = None \<and> hc_suppress_body c)"

definition response_head :: "http_conn \<Rightarrow> nat option \<Rightarrow> string" where
  "response_head c content_len =
     ''HTTP/1.1 '' @ hc_status c @ crlf @ hc_resp_hdr c @ head_length content_len @
     ''Connection: '' @ (if stays_open c content_len then ''keep-alive'' else ''close'') @ crlf @ crlf"

definition started :: "http_conn \<Rightarrow> nat option \<Rightarrow> http_conn" where
  "started c content_len =
     c\<lparr> hc_keep_alive := stays_open c content_len, hc_resp_started := True,
        hc_resp_chunked := (content_len = None) \<rparr>"

lemma send_okD:
  assumes "net_ok net inp out" "send_all net c xs w = (ok, c', w')"
  shows "inp w' = inp w" "ok \<Longrightarrow> c' = c" "ok \<Longrightarrow> out w' = out w @ xs" "\<not> ok \<Longrightarrow> c' = c\<lparr> hc_peer_gone := True \<rparr>"
  using send_all_sends[OF assms(1), of c xs w] assms(2) by (auto simp: sends_def)

lemma start_response_sends:
  assumes net: "net_ok net inp out" and s: "start_response net c cl w = (ok, c', w')"
  shows "inp w' = inp w" "ok \<Longrightarrow> c' = started c cl \<and> out w' = out w @ response_head c cl"
proof -
  obtain ok1 c1 w1 where 1: "send_all net c (''HTTP/1.1 '' @ hc_status c @ crlf) w = (ok1, c1, w1)"
    by (metis prod_cases3)
  obtain ok2 c2 w2 where 2: "(if length (hc_resp_hdr c1) > 0 then send_all net c1 (hc_resp_hdr c1) w1 else (True, c1, w1))
      = (ok2, c2, w2)"
    by (metis prod_cases3)
  let ?c2 = "if cl = None \<and> hc_suppress_body c2 then c2\<lparr> hc_keep_alive := False \<rparr> else c2"
  obtain ok3 c3 w3 where 3: "send_all net ?c2 (head_length cl) w2 = (ok3, c3, w3)"
    by (metis prod_cases3)
  obtain ok4 c4 w4 where 4: "send_all net c3 (''Connection: '' @ (if hc_keep_alive c3 then ''keep-alive'' else ''close'') @ crlf @ crlf) w3
      = (ok4, c4, w4)"
    by (metis prod_cases3)
  have res: "(ok, c', w') =
     (if \<not> ok1 then (False, c1, w1) else if \<not> ok2 then (False, c2, w2) else if \<not> ok3 then (False, c3, w3)
      else if \<not> ok4 then (False, c4, w4)
      else (True, c4\<lparr> hc_resp_started := True, hc_resp_chunked := (cl = None) \<rparr>, w4))"
    unfolding s[symmetric] start_response_def 1 Let_def prod.case 2 3 4 by simp
  note d1 = send_okD[OF net 1] and d3 = send_okD[OF net 3] and d4 = send_okD[OF net 4]
  have d2: "inp w2 = inp w1 \<and> (ok2 \<longrightarrow> c2 = c1 \<and> out w2 = out w1 @ hc_resp_hdr c1)"
  proof (cases "length (hc_resp_hdr c1) > 0")
    case True
    then have "send_all net c1 (hc_resp_hdr c1) w1 = (ok2, c2, w2)" using 2 by simp
    from send_okD[OF net this] show ?thesis by blast
  next
    case False
    then show ?thesis using 2 by simp
  qed
  show "inp w' = inp w" using res d1(1) d2 d3(1) d4(1) by (simp split: if_splits)
  assume ok
  then have all: "ok1" "ok2" "ok3" "ok4" and c': "c' = c4\<lparr> hc_resp_started := True, hc_resp_chunked := (cl = None) \<rparr>" "w' = w4"
    using res by (simp_all split: if_splits)
  have c1: "c1 = c" and c2: "c2 = c" and c3: "c3 = (if cl = None \<and> hc_suppress_body c then c\<lparr> hc_keep_alive := False \<rparr> else c)"
    and c4: "c4 = c3"
    using d1(2) d2 d3(2) d4(2) all by simp_all
  have keep: "hc_keep_alive c3 = stays_open c cl" by (simp add: c3 stays_open_def)
  have "c' = started c cl" by (simp add: c' c4 c3 started_def stays_open_def)
  moreover have "out w' = out w @ response_head c cl"
    using d1(3) d2 d3(3) d4(3) all keep by (simp add: c' c1 response_head_def)
  ultimately show "c' = started c cl \<and> out w' = out w @ response_head c cl" by simp
qed

definition chunk_frame :: "string \<Rightarrow> string" where
  "chunk_frame xs = hex_text (length xs) @ crlf @ xs @ crlf"

definition last_chunk :: string where
  "last_chunk = ''0'' @ crlf @ crlf"

text \<open>The receiver's side, from the definition of the chunked coding: the data and what
  follows it.\<close>

function unchunk :: "string \<Rightarrow> (string \<times> string) option" where
  "unchunk s =
     (case cut_line s of
        (size_line, None) \<Rightarrow> None
      | (size_line, Some r) \<Rightarrow>
          (let n = hex_number size_line in
           if n = 0 then if take 2 r = crlf then Some ([], drop 2 r) else None
           else if take 2 (drop n r) \<noteq> crlf then None
           else map_option (\<lambda>(d, rest). (take n r @ d, rest)) (unchunk (drop (n + 2) r))))"
  by pat_completeness auto
termination
  by (relation "measure length") (auto dest!: cut_line_shorter[OF sym])

declare unchunk.simps [simp del]

lemma unchunk_last: "unchunk (last_chunk @ rest) = Some ([], rest)"
proof -
  have "cut_line (last_chunk @ rest) = (''0'', Some (crlf @ rest))"
    using cut_line_some[of "''0''" "crlf @ rest"] by (simp add: last_chunk_def crlf_def CR_def)
  moreover have "hex_number ''0'' = 0" by code_simp
  ultimately show ?thesis by (subst unchunk.simps) (simp add: crlf_def)
qed

lemma unchunk_frame:
  assumes "xs \<noteq> []"
  shows "unchunk (chunk_frame xs @ rest) = map_option (\<lambda>(d, r). (xs @ d, r)) (unchunk rest)"
proof -
  have "cut_line (chunk_frame xs @ rest) = (hex_text (length xs), Some (xs @ crlf @ rest))"
    using cut_line_some[OF hex_digits_clean, of "length xs" "xs @ crlf @ rest"] by (simp add: chunk_frame_def crlf_def)
  then show ?thesis
    using assms by (subst unchunk.simps) (simp add: hex_number_text crlf_def)
qed

lemma unchunk_frames:
  "list_all (\<lambda>d. d \<noteq> []) ds \<Longrightarrow>
     unchunk (concat (map chunk_frame ds) @ last_chunk @ rest) = Some (concat ds, rest)"
  by (induction ds) (simp_all add: unchunk_last unchunk_frame)

lemma send_chunk_started:
  assumes net: "net_ok net inp out" and c: "hc_resp_started c" "\<not> hc_suppress_body c"
    and s: "resp_send_chunk net c chunk w = (ok, c', w')"
  shows "inp w' = inp w"
    "ok \<Longrightarrow> out w' = out w @ (case chunk of None \<Rightarrow> last_chunk | Some xs \<Rightarrow> if xs = [] then last_chunk else chunk_frame xs)"
    "ok \<Longrightarrow> c' = (if chunk = None \<or> chunk = Some [] then c\<lparr> hc_resp_done := True \<rparr> else c)"
proof -
  let ?xs = "case chunk of None \<Rightarrow> [] | Some b \<Rightarrow> b"
  obtain ok1 c1 w1 where 1: "send_all net c (hex_text (length ?xs) @ crlf) w = (ok1, c1, w1)" by (metis prod_cases3)
  obtain ok2 c2 w2 where 2: "send_all net c1 ?xs w1 = (ok2, c2, w2)" by (metis prod_cases3)
  obtain ok3 c3 w3 where 3: "send_all net c2 crlf w2 = (ok3, c3, w3)" by (metis prod_cases3)
  obtain ok0 c0 w0 where 0: "send_all net c (''0'' @ crlf @ crlf) w = (ok0, c0, w0)" by (metis prod_cases3)
  note d1 = send_okD[OF net 1] and d2 = send_okD[OF net 2] and d3 = send_okD[OF net 3] and d0 = send_okD[OF net 0]
  have res: "(ok, c', w') =
     (if ?xs = [] then (ok0, c0\<lparr> hc_resp_done := True \<rparr>, w0)
      else if \<not> ok1 then (False, c1, w1) else if \<not> ok2 then (False, c2, w2) else (ok3, c3, w3))"
    using c 0 1 2 3 unfolding s[symmetric] resp_send_chunk_def by (simp add: Let_def)
  show "inp w' = inp w" using res d0(1) d1(1) d2(1) d3(1) by (simp split: if_splits)
  assume ok: ok
  have empty: "?xs = [] \<longleftrightarrow> chunk = None \<or> chunk = Some []" by (cases chunk) auto
  show "out w' = out w @ (case chunk of None \<Rightarrow> last_chunk | Some xs \<Rightarrow> if xs = [] then last_chunk else chunk_frame xs)"
  proof (cases "?xs = []")
    case True
    then show ?thesis using res ok d0(3) by (cases chunk) (simp_all add: last_chunk_def)
  next
    case False
    then show ?thesis
      using res ok d1(3) d2(3) d3(3) by (cases chunk) (simp_all add: chunk_frame_def split: if_splits)
  qed
  show "c' = (if chunk = None \<or> chunk = Some [] then c\<lparr> hc_resp_done := True \<rparr> else c)"
    using res ok d0(2) d1(2) d2(2) d3(2) empty by (auto split: if_splits)
qed

section \<open>The pool a server lives in\<close>

lemma carve_inv:
  assumes "pool_inv (p, live)" "carve bytes align p = (Some (a, n), p')" "align = 16 \<or> align = 4"
  shows "n = bytes" "pool_inv (p', live @ [(unat a, unat bytes, unat align)])"
    "s_in_use p' = s_in_use p" "s_owner p' = s_owner p"
proof -
  have al: "app_pool_alloc bytes align p = (Some a, p')" and n: "n = bytes"
    using assms(2) by (auto simp: carve_def split: prod.splits)
  have ok: "align_ok (Op_Alloc bytes align)"
    using assms(3) by (auto intro: bexI[of _ 4] bexI[of _ 2])
  have "pool_step (p, live) (Op_Alloc bytes align) = (Some a, p', live @ [(unat a, unat bytes, unat align)])"
    using al by simp
  then show "pool_inv (p', live @ [(unat a, unat bytes, unat align)])"
    using pool_step_inv[OF assms(1) ok] by simp
  show "n = bytes" by (rule n)
  show "s_in_use p' = s_in_use p" "s_owner p' = s_owner p"
    using al by (auto simp: app_pool_alloc_def Let_def split: if_splits)
qed

text \<open>The areas of a server: inside the pool, one after the other.\<close>

definition areas_ok :: "(32 word \<times> 32 word) list \<Rightarrow> bool" where
  "areas_ok areas \<longleftrightarrow>
     list_all (\<lambda>(a, n). unat a + unat n \<le> unat JPP_APP_POOL_BYTES) areas \<and>
     sorted_wrt (\<lambda>(a, n) (b, k). unat a + unat n \<le> unat b) areas"

lemma io_bytes_max: "io_bytes p \<le> of_nat HTTP_IO_BYTES_MAX"
  by (simp add: io_bytes_def Let_def not_less)

lemma carve_areas_ok:
  assumes inv: "pool_inv (p, [])" and c: "carve_areas tcb stack conn p = (Some (areas, io), p')"
  shows "areas_ok areas" "4096 \<le> unat io" "unat io \<le> 32768" "length areas = 6" "s_in_use p' = s_in_use p"
    "s_owner p' = s_owner p"
proof -
  obtain a1 p1 where 1: "carve tcb 16 p = (a1, p1)" by (metis surj_pair)
  obtain a2 p2 where 2: "carve stack 16 p1 = (a2, p2)" by (metis surj_pair)
  obtain a3 p3 where 3: "carve conn 16 p2 = (a3, p3)" by (metis surj_pair)
  obtain a4 p4 where 4: "carve (of_nat HTTP_REQ_BUF_BYTES) 4 p3 = (a4, p4)" by (metis surj_pair)
  obtain a5 p5 where 5: "carve (of_nat HTTP_RESP_HDR_BYTES) 4 p4 = (a5, p5)" by (metis surj_pair)
  obtain a6 p6 where 6: "carve (io_bytes p5) 16 p5 = (a6, p6)" by (metis surj_pair)
  have some: "a1 \<noteq> None" "a2 \<noteq> None" "a3 \<noteq> None" "a4 \<noteq> None" "a5 \<noteq> None" "a6 \<noteq> None"
    and io: "io = io_bytes p5" "\<not> io < of_nat HTTP_IO_BYTES_MIN"
    and areas: "areas = map the [a1, a2, a3, a4, a5, a6]" "p' = p6"
    using c by (auto simp: carve_areas_def 1 2 3 4 5 6 Let_def split: if_splits)
  obtain b1 n1 b2 n2 b3 n3 b4 n4 b5 n5 b6 n6 where b: "a1 = Some (b1, n1)" "a2 = Some (b2, n2)" "a3 = Some (b3, n3)"
    "a4 = Some (b4, n4)" "a5 = Some (b5, n5)" "a6 = Some (b6, n6)"
    using some by (metis not_Some_eq surj_pair)
  note i1 = carve_inv[OF inv 1[unfolded b]]
  note i2 = carve_inv[OF i1(2) 2[unfolded b]]
  note i3 = carve_inv[OF i2(2) 3[unfolded b]]
  note i4 = carve_inv[OF i3(2) 4[unfolded b]]
  note i5 = carve_inv[OF i4(2) 5[unfolded b]]
  note i6 = carve_inv[OF i5(2) 6[unfolded b]]
  have ar: "areas = [(b1, n1), (b2, n2), (b3, n3), (b4, n4), (b5, n5), (b6, n6)]" by (simp add: areas b)
  have "pool_inv (p6, [(unat b1, unat n1, 16), (unat b2, unat n2, 16), (unat b3, unat n3, 16),
      (unat b4, unat n4, 4), (unat b5, unat n5, 4), (unat b6, unat n6, 16)])"
    using i6(2) i1(1) i2(1) i3(1) i4(1) i5(1) i6(1) by simp
  then show "areas_ok areas"
    by (simp add: ar areas_ok_def pool_inv_def block_ok_def before_def pool_bytes)
  show "4096 \<le> unat io" using io(2) by (simp add: HTTP_IO_BYTES_MIN_def word_less_nat_alt)
  show "unat io \<le> 32768" using io_bytes_max[of p5] by (simp add: io HTTP_IO_BYTES_MAX_def word_le_nat_alt)
  show "length areas = 6" by (simp add: ar)
  show "s_in_use p' = s_in_use p" "s_owner p' = s_owner p"
    using i1 i2 i3 i4 i5 i6 by (simp_all add: areas(2))
qed

section \<open>Properties\<close>

text \<open>C29: A request is understood as it was sent, however the bytes arrive: for a well-formed
  request, what the server has read are its method, target and headers, in order, with
  the length the last Content-Length declares, and what is left to read of the body,
  in the buffer and on the socket together, is exactly that many bytes of what follows.\<close>

theorem http_request_roundtrip:
  assumes "net_ok net inp out" "request_ok m u hs" "inp w = request_text m u hs body"
    and "read_request net conn w = (Read_Ok, c, w')"
  shows "hc_method c = m \<and> hc_uri c = u \<and> hc_hdr c = hs \<and> hc_content_len c = declared_len hs \<and>
    body_left inp c w' = take (declared_len hs) body \<and> body_ok c \<and> out w' = out w"
  using request_read[OF assms] by blast

text \<open>A socket that gives at most forty bytes at a time and takes at most fifty.\<close>

definition slow_net :: "(string \<times> string) net" where
  "slow_net =
     \<lparr> net_stop_req = (\<lambda>w. False), net_select = (\<lambda>t w. (Sel_Ready, w)),
       net_recv = (\<lambda>n (i, ob). if i = [] then (Rv_Eof, i, ob) else (Rv_Data (take (min n 40) i), drop (min n 40) i, ob)),
       net_send = (\<lambda>xs (i, ob). (Sd_Sent (min 50 (length xs)), i, ob @ take (min 50 (length xs)) xs)),
       net_recv_timeout_s = 30 \<rparr>"

lemma slow_net_ok: "net_ok slow_net fst snd"
  by (auto simp: net_ok_def slow_net_def)

definition put_request :: string where
  "put_request = request_text ''PUT'' ''/a'' [(''Content-Length'', ''3''), (''Expect'', ''x'')] ''abcdef''"

definition idle_conn :: http_conn where
  "idle_conn =
     \<lparr> hc_method = [], hc_uri = [], hc_version = [], hc_hdr = [], hc_content_len = 0, hc_body_read = 0,
       hc_body_pre = [], hc_keep_alive = True, hc_status = HTTP_200, hc_resp_hdr = [], hc_resp_started = False,
       hc_resp_chunked = False, hc_resp_done = False, hc_suppress_body = False, hc_peer_gone = False,
       hc_io_size = 4096 \<rparr>"

lemma slow_net_recv:
  assumes "i \<noteq> []" "budget > 0"
  shows "sock_recv_to slow_net n budget (i, ob) =
    (if n = 0 then (Got_Closed, i, ob) else (Got (take (min n 40) i), drop (min n 40) i, ob))"
  using assms unfolding sock_recv_to_def
  by (subst sock_recv_loop.simps) (simp add: wait_readable_def slow_net_def min_def)

lemma slow_net_fills:
  "find_header_end (buf @ i) \<noteq> None \<Longrightarrow> length buf + length i \<le> HTTP_REQ_BUF_BYTES \<Longrightarrow>
     \<exists>all e w'. fill_request slow_net buf (i, ob) = (Filled all e, w')"
proof (induction "length i" arbitrary: buf i rule: less_induct)
  case less
  show ?case
  proof (cases "find_header_end buf")
    case (Some e)
    then show ?thesis by (subst fill_request.simps) simp
  next
    case None
    with less.prems(1) have i: "i \<noteq> []" by auto
    then have short: "length buf < HTTP_REQ_BUF_BYTES" using less.prems(2) by (cases i) auto
    define n where "n = min (HTTP_REQ_BUF_BYTES - length buf) 40"
    have n: "n > 0" using short by (simp add: n_def)
    have "fill_request slow_net buf (i, ob) = fill_request slow_net (buf @ take n i) (drop n i, ob)"
      using None short i n slow_net_recv[OF i]
      by (subst fill_request.simps)
        (simp add: sock_recv_def n_def HTTP_REQ_BUF_BYTES_def IDLE_TIMEOUT_MS_def slow_net_def)
    moreover have "length (drop n i) < length i" using n i by simp
    ultimately show ?thesis using less.hyps[of "drop n i" "buf @ take n i"] less.prems by simp
  qed
qed

lemma put_request_ok: "request_ok ''PUT'' ''/a'' [(''Content-Length'', ''3''), (''Expect'', ''x'')]"
  by code_simp

lemma put_request_read: "fst (read_request slow_net idle_conn (put_request, [])) = Read_Ok"
proof -
  have "length put_request \<le> HTTP_REQ_BUF_BYTES"
    by (simp add: put_request_def request_text_def request_head_def header_line_def crlf_def HTTP_REQ_BUF_BYTES_def)
  then have "\<exists>all e w'. fill_request slow_net [] (put_request, []) = (Filled all e, w')"
    using slow_net_fills[of "[]" put_request "[]"] request_head_end[OF put_request_ok]
    by (simp add: put_request_def)
  then show ?thesis by (auto simp: read_request_def Let_def)
qed

theorem http_request_roundtrip_witness:
  "(let (r, c, w') = read_request slow_net idle_conn (put_request, []) in
     r = Read_Ok \<and> hc_method c = ''PUT'' \<and> hc_uri c = ''/a'' \<and> hc_content_len c = 3 \<and>
     body_left fst c w' = ''abc'')"
proof -
  obtain c w' where r: "read_request slow_net idle_conn (put_request, []) = (Read_Ok, c, w')"
    using put_request_read by (metis prod.collapse)
  have d: "declared_len [(''Content-Length'', ''3''), (''Expect'', ''x'')] = 3" by code_simp
  show ?thesis
    using http_request_roundtrip[OF slow_net_ok put_request_ok _ r, of "''abcdef''"]
    by (simp add: r d put_request_def[symmetric])
qed

text \<open>C30: A chunked response decodes to what was sent: if every call succeeded, the peer has
  been sent the response head and then a text that a receiver of the chunked coding
  decodes to exactly the chunks, one after the other, with nothing behind them.\<close>

fun send_chunks :: "'w net \<Rightarrow> http_conn \<Rightarrow> string list \<Rightarrow> 'w \<Rightarrow> bool \<times> http_conn \<times> 'w" where
  "send_chunks net c [] w = resp_send_chunk net c None w"
| "send_chunks net c (d # ds) w =
     (let (ok, c, w) = resp_send_chunk net c (Some d) w in
      if ok then send_chunks net c ds w else (False, c, w))"

lemma send_chunks_started:
  assumes net: "net_ok net inp out"
  shows "hc_resp_started c \<Longrightarrow> \<not> hc_suppress_body c \<Longrightarrow> list_all (\<lambda>d. d \<noteq> []) ds \<Longrightarrow>
    send_chunks net c ds w = (True, c', w') \<Longrightarrow>
    out w' = out w @ concat (map chunk_frame ds) @ last_chunk \<and> hc_resp_done c'"
proof (induction ds arbitrary: c w)
  case Nil
  then have s: "resp_send_chunk net c None w = (True, c', w')" by simp
  show ?case using send_chunk_started(2,3)[OF net Nil(1,2) s] by simp
next
  case (Cons d ds)
  obtain ok c1 w1 where s: "resp_send_chunk net c (Some d) w = (ok, c1, w1)" by (metis prod_cases3)
  have ok: "ok" and rest: "send_chunks net c1 ds w1 = (True, c', w')"
    using Cons.prems(4) s by (auto split: if_splits)
  note d = send_chunk_started(2,3)[OF net Cons.prems(1,2) s ok]
  have "d \<noteq> []" "c1 = c" "out w1 = out w @ chunk_frame d" using d Cons.prems(3) by simp_all
  then show ?case using Cons.IH[of c w1] Cons.prems(1-3) rest by simp
qed

lemma send_chunk_first:
  assumes "\<not> hc_resp_started c" "start_response net c None w = (True, c1, w1)" "hc_resp_started c1"
  shows "resp_send_chunk net c chunk w = resp_send_chunk net c1 chunk w1"
  using assms by (simp add: resp_send_chunk_def)

lemma send_chunks_first:
  assumes "\<not> hc_resp_started c" "start_response net c None w = (True, c1, w1)" "hc_resp_started c1"
  shows "send_chunks net c ds w = send_chunks net c1 ds w1"
  using send_chunk_first[OF assms] by (cases ds) simp_all

theorem http_chunked_roundtrip:
  assumes "net_ok net inp out" "\<not> hc_resp_started c" "\<not> hc_suppress_body c" "list_all (\<lambda>d. d \<noteq> []) ds"
    and "send_chunks net c ds w = (True, c', w')"
  shows "\<exists>body. out w' = out w @ response_head c None @ body \<and> unchunk body = Some (concat ds, []) \<and>
    hc_resp_done c'"
proof -
  obtain ok c1 w1 where s: "start_response net c None w = (ok, c1, w1)" by (metis prod_cases3)
  have ok: ok
    using assms(2,5) s by (cases ds) (auto simp: resp_send_chunk_def Let_def split: if_splits)
  note h = start_response_sends(2)[OF assms(1) s ok]
  have c1: "hc_resp_started c1" "\<not> hc_suppress_body c1" using h assms(3) by (simp_all add: started_def)
  have "send_chunks net c1 ds w1 = (True, c', w')"
    using send_chunks_first[OF assms(2) _ c1(1), of net w w1 ds] s ok assms(5) by simp
  from send_chunks_started[OF assms(1) c1 assms(4) this] h
  have "out w' = out w @ response_head c None @ concat (map chunk_frame ds) @ last_chunk \<and> hc_resp_done c'" by simp
  moreover have "unchunk (concat (map chunk_frame ds) @ last_chunk) = Some (concat ds, [])"
    using unchunk_frames[OF assms(4), of "[]"] by simp
  ultimately show ?thesis by blast
qed

lemma slow_net_sends: "\<not> hc_peer_gone c \<Longrightarrow> \<exists>w'. send_all slow_net c xs w = (True, c, w')"
proof (induction "length xs" arbitrary: xs w rule: less_induct)
  case less
  show ?case
  proof (cases "xs = []")
    case False
    let ?n = "min 50 (length xs)"
    have n: "?n > 0" using False by simp
    obtain w1 where s: "net_send slow_net xs w = (Sd_Sent ?n, w1)"
      by (cases w) (simp add: slow_net_def)
    have "length (drop ?n xs) < length xs" using False by simp
    then obtain w' where "send_all slow_net c (drop ?n xs) w1 = (True, c, w')" using less by blast
    then show ?thesis
      using send_all_step[OF False less.prems _ s] n by (simp add: slow_net_def)
  qed simp
qed

lemma slow_net_starts:
  assumes "\<not> hc_peer_gone c"
  shows "\<exists>c' w'. start_response slow_net c cl w = (True, c', w')"
proof -
  obtain w1 where 1: "send_all slow_net c (''HTTP/1.1 '' @ hc_status c @ crlf) w = (True, c, w1)"
    using slow_net_sends[OF assms] by blast
  obtain w2 where 2: "(if length (hc_resp_hdr c) > 0 then send_all slow_net c (hc_resp_hdr c) w1 else (True, c, w1)) = (True, c, w2)"
    using slow_net_sends[OF assms, of "hc_resp_hdr c" w1] by (cases "hc_resp_hdr c = []") auto
  let ?c2 = "if cl = None \<and> hc_suppress_body c then c\<lparr> hc_keep_alive := False \<rparr> else c"
  have g: "\<not> hc_peer_gone ?c2" using assms by simp
  obtain w3 where 3: "send_all slow_net ?c2 (head_length cl) w2 = (True, ?c2, w3)"
    using slow_net_sends[OF g] by blast
  obtain w4 where 4: "send_all slow_net ?c2 (''Connection: '' @ (if hc_keep_alive ?c2 then ''keep-alive'' else ''close'') @ crlf @ crlf) w3
      = (True, ?c2, w4)"
    using slow_net_sends[OF g] by blast
  show ?thesis unfolding start_response_def 1 Let_def prod.case 2 3 4 by simp
qed

lemma slow_net_chunk:
  assumes "\<not> hc_peer_gone c"
  shows "\<exists>c' w'. resp_send_chunk slow_net c chunk w = (True, c', w') \<and> \<not> hc_peer_gone c'"
proof -
  obtain c0 w0 where 0: "(if \<not> hc_resp_started c then start_response slow_net c None w else (True, c, w)) = (True, c0, w0)"
    using slow_net_starts[OF assms, of None w] by (cases "hc_resp_started c") auto
  have g: "\<not> hc_peer_gone c0"
    using 0 start_response_sends(2)[OF slow_net_ok, of c None w True c0 w0] assms
    by (auto simp: started_def split: if_splits)
  let ?xs = "case chunk of None \<Rightarrow> [] | Some b \<Rightarrow> b"
  obtain w1 where 1: "send_all slow_net c0 (''0'' @ crlf @ crlf) w0 = (True, c0, w1)" using slow_net_sends[OF g] by blast
  obtain w2 where 2: "send_all slow_net c0 (hex_text (length ?xs) @ crlf) w0 = (True, c0, w2)" using slow_net_sends[OF g] by blast
  obtain w3 where 3: "send_all slow_net c0 ?xs w2 = (True, c0, w3)" using slow_net_sends[OF g] by blast
  obtain w4 where 4: "send_all slow_net c0 crlf w3 = (True, c0, w4)" using slow_net_sends[OF g] by blast
  show ?thesis unfolding resp_send_chunk_def 0 Let_def prod.case 1 2 3 4 using g by simp
qed

lemma chunks_sent: "\<not> hc_peer_gone c \<Longrightarrow> \<exists>c' w'. send_chunks slow_net c ds w = (True, c', w')"
proof (induction ds arbitrary: c w)
  case Nil
  then show ?case using slow_net_chunk[of c None w] by auto
next
  case (Cons d ds)
  then obtain c1 w1 where "resp_send_chunk slow_net c (Some d) w = (True, c1, w1)" "\<not> hc_peer_gone c1"
    using slow_net_chunk by blast
  then show ?case using Cons.IH[of c1 w1] by simp
qed

theorem http_chunked_roundtrip_witness:
  "\<exists>body. snd (snd (snd (send_chunks slow_net idle_conn [''ab'', ''0123456789abcdefg''] ([], [])))) =
      response_head idle_conn None @ body \<and> unchunk body = Some (''ab0123456789abcdefg'', [])"
proof -
  have idle: "\<not> hc_resp_started idle_conn" "\<not> hc_suppress_body idle_conn" "\<not> hc_peer_gone idle_conn"
    by (simp_all add: idle_conn_def)
  let ?ds = "[''ab'', ''0123456789abcdefg'']"
  obtain c w where s: "send_chunks slow_net idle_conn ?ds ([], []) = (True, c, w)"
    using chunks_sent[OF idle(3), of ?ds "([], [])"] by blast
  have "list_all (\<lambda>d. d \<noteq> []) ?ds" "concat ?ds = ''ab0123456789abcdefg''" by simp_all
  with http_chunked_roundtrip[OF slow_net_ok idle(1,2) _ s] show ?thesis unfolding s by auto
qed

text \<open>A server lives in the pool and nowhere else. When it starts, it holds the pool, its
  six areas (task, stack, connection, two header buffers, input and output) lie in the pool
  and do not overlap, and the buffer has between 4 and 32 KB; no other activity can then
  take the pool until the server has stopped, which frees it. When it does not start,
  nothing has changed, or the pool it had taken is free again.\<close>

theorem http_server_owns_pool:
  assumes "http_server_start tcb_size conn_size opened created config srv pool = (r, srv', pool')"
  shows "(r = Http_OK \<longrightarrow>
      sv_running srv' \<and> areas_ok (sv_areas srv') \<and> length (sv_areas srv') = 6 \<and>
      4096 \<le> unat (sv_io_size srv') \<and> unat (sv_io_size srv') \<le> 32768 \<and>
      (\<forall>w n. app_pool_acquire_as w n pool' = (None, pool')) \<and>
      (\<exists>srv2 pool2. http_server_stop True srv' pool' = (Http_OK, srv2, pool2) \<and>
         \<not> sv_running srv2 \<and> \<not> app_pool_in_use pool2)) \<and>
    (r \<noteq> Http_OK \<longrightarrow>
      srv' = srv \<and> pool' = pool \<or>
      \<not> sv_running srv' \<and> \<not> app_pool_in_use pool' \<and> \<not> app_pool_in_use pool)"
proof (cases "\<exists>cf. config = Some cf \<and> cf_has_handler cf \<and> cf_port cf \<noteq> 0 \<and> \<not> sv_running srv \<and> \<not> s_in_use pool")
  case False
  then show ?thesis
    using assms
    by (auto simp: http_server_start_def app_pool_acquire_as_def Let_def split: option.splits if_splits)
next
  case True
  then obtain cf where cf: "config = Some cf" "cf_has_handler cf" "cf_port cf \<noteq> 0" "\<not> sv_running srv" "\<not> s_in_use pool"
    by blast
  define ow where "ow = (case cf_owner cf of Some ow \<Rightarrow> ow | None \<Rightarrow> ''httpd'')"
  define stack where "stack = (if cf_stack_bytes cf \<noteq> 0 then cf_stack_bytes cf else 8192)"
  let ?p = "\<lparr> s_in_use = True, s_used = 0, s_owner = Some ow \<rparr>"
  have acq: "app_pool_acquire_as (Some ow) 0 pool = (Some (0, JPP_APP_POOL_BYTES), ?p)"
    using cf(5) by (simp add: app_pool_acquire_as_def)
  obtain res p where c: "carve_areas tcb_size stack conn_size ?p = (res, p)" by (metis surj_pair)
  have inv: "pool_inv (?p, [])" by (simp add: pool_inv_def)
  have eq: "(r, srv', pool') =
    (case res of
       None \<Rightarrow> (Http_ERR_NO_MEMORY, srv_cleared (take 15 ow), app_pool_release p)
     | Some (areas, io_size) \<Rightarrow>
         if \<not> opened then (Http_ERR_SOCKET, srv_cleared (take 15 ow), app_pool_release p)
         else if \<not> created then (Http_ERR_TASK, srv_cleared (take 15 ow), app_pool_release p)
         else (Http_OK, (srv_cleared (take 15 ow))\<lparr> sv_running := True, sv_areas := areas, sv_io_size := io_size \<rparr>, p))"
    unfolding assms[symmetric] using cf acq c
    by (simp add: http_server_start_def ow_def[symmetric] stack_def[symmetric] Let_def)
  show ?thesis
  proof (cases "r = Http_OK")
    case False
    then show ?thesis
      using eq cf(5)
      by (auto simp: srv_cleared_def app_pool_release_def app_pool_in_use_def split: option.splits if_splits)
  next
    case True
    then obtain areas io where res: "res = Some (areas, io)"
      and s: "srv' = (srv_cleared (take 15 ow))\<lparr> sv_running := True, sv_areas := areas, sv_io_size := io \<rparr>"
      and p: "pool' = p"
      using eq by (auto split: option.splits if_splits)
    note ok = carve_areas_ok[OF inv c[unfolded res]]
    have held: "s_in_use p" using ok(5) by simp
    have stop: "http_server_stop True srv' pool' =
        (Http_OK, srv'\<lparr> sv_stop_req := True, sv_running := False, sv_areas := [] \<rparr>, app_pool_release pool')"
      by (simp add: http_server_stop_def s)
    show ?thesis
      using True ok held unfolding stop
      by (simp add: s p app_pool_acquire_as_def app_pool_release_def app_pool_in_use_def)
  qed
qed

lemma webdav_server_starts:
  "fst (http_server_start 360 200 True True
       (Some \<lparr> cf_owner = Some ''webdav'', cf_port = 80, cf_stack_bytes = 8192, cf_has_handler = True \<rparr>)
       (srv_cleared []) app_pool_boot) = Http_OK"
  by (simp add: http_server_start_def app_pool_acquire_as_def app_pool_boot_def JPP_APP_POOL_BYTES_def
      carve_areas_def carve_def app_pool_alloc_def align_up_def io_bytes_def app_pool_avail_def
      HTTP_REQ_BUF_BYTES_def HTTP_RESP_HDR_BYTES_def HTTP_IO_BYTES_MAX_def HTTP_IO_BYTES_MIN_def
      srv_cleared_def Let_def)

theorem http_server_owns_pool_witness:
  "(let (r, srv, pool) = http_server_start 360 200 True True
       (Some \<lparr> cf_owner = Some ''webdav'', cf_port = 80, cf_stack_bytes = 8192, cf_has_handler = True \<rparr>)
       (srv_cleared []) app_pool_boot in
     r = Http_OK \<and> unat (sv_io_size srv) \<le> 32768 \<and> app_pool_acquire_as (Some ''app'') 0 pool = (None, pool))"
proof -
  obtain r srv pool where s: "http_server_start 360 200 True True
       (Some \<lparr> cf_owner = Some ''webdav'', cf_port = 80, cf_stack_bytes = 8192, cf_has_handler = True \<rparr>)
       (srv_cleared []) app_pool_boot = (r, srv, pool)"
    by (metis prod_cases3)
  have "r = Http_OK" using webdav_server_starts by (simp add: s)
  then show ?thesis using http_server_owns_pool[OF s] by (simp add: s)
qed

end
