(* ===== verification/WebDav.thy ===== *)
theory WebDav
  imports Http Strings
begin

text \<open>
  src/components/jpp_core/src/jpp_fileserver_core.c: the WebDAV file server on the SD card. It
  is a handler of the HTTP server (theory Http). The file system is the parameter fs, one
  function of the world per call; a directory is read as the list of its names, and the size of
  a file is below 2^31, the range of the long it is put in. stack gives
  the bytes that lie behind a buffer on the stack, which a length larger than the buffer
  reads. Random numbers, the network's address and the socket are arguments.
\<close>

section \<open>Constants and state\<close>

definition FULL_PATH_MAX :: nat where "FULL_PATH_MAX = 300"
definition WEBDAV_STACK_BYTES :: "32 word" where "WEBDAV_STACK_BYTES = 8192"
definition FILESERVER_PASS_LEN :: nat where "FILESERVER_PASS_LEN = 8"
definition FILESERVER_PASS_MAX :: nat where "FILESERVER_PASS_MAX = 24"
definition FILESERVER_DEFAULT_PORT :: nat where "FILESERVER_DEFAULT_PORT = 80"
definition FILESERVER_DEFAULT_ROOT :: string where "FILESERVER_DEFAULT_ROOT = ''/sd''"

datatype fileserver_result =
  Fs_OK | Fs_ALREADY_INITIALIZED | Fs_NOT_INITIALIZED | Fs_START_FAILED | Fs_STOP_FAILED

datatype fileserver_state = Fs_STOPPED | Fs_RUNNING | Fs_ERROR

record fileserver =
  s_initialized :: bool
  s_state :: fileserver_state
  s_sd_root :: string
  s_port :: nat
  s_password :: string

definition fileserver_boot :: fileserver where
  "fileserver_boot =
     \<lparr> s_initialized = False, s_state = Fs_STOPPED, s_sd_root = [], s_port = 0, s_password = [] \<rparr>"

record 'w fs =
  fs_stat :: "string \<Rightarrow> 'w \<Rightarrow> (bool \<times> nat) option \<times> 'w"
  fs_list :: "string \<Rightarrow> 'w \<Rightarrow> string list option \<times> 'w"
  fs_unlink :: "string \<Rightarrow> 'w \<Rightarrow> bool \<times> 'w"
  fs_rmdir :: "string \<Rightarrow> 'w \<Rightarrow> bool \<times> 'w"
  fs_mkdir :: "string \<Rightarrow> 'w \<Rightarrow> bool \<times> 'w"
  fs_rename :: "string \<Rightarrow> string \<Rightarrow> 'w \<Rightarrow> bool \<times> 'w"
  fs_open_read :: "string \<Rightarrow> 'w \<Rightarrow> nat option \<times> 'w"
  fs_open_write :: "string \<Rightarrow> 'w \<Rightarrow> nat option \<times> 'w"
  fs_read :: "nat \<Rightarrow> nat \<Rightarrow> 'w \<Rightarrow> string \<times> 'w"
  fs_write :: "nat \<Rightarrow> string \<Rightarrow> 'w \<Rightarrow> bool \<times> 'w"
  fs_close :: "nat \<Rightarrow> 'w \<Rightarrow> 'w"

section \<open>Password\<close>

definition PASS_CHARS :: string where
  "PASS_CHARS = ''ABCDEFGHIJKLMNOPQRSTUVWXYZabcdefghijklmnopqrstuvwxyz0123456789''"

definition PASS_CHARS_LEN :: nat where "PASS_CHARS_LEN = 62"

text \<open>From eight random numbers.\<close>

definition generate_password :: "nat list \<Rightarrow> string" where
  "generate_password rnd = map (\<lambda>i. PASS_CHARS ! ((rnd ! i) mod PASS_CHARS_LEN)) [0..<FILESERVER_PASS_LEN]"

section \<open>Base64 and authorisation\<close>

definition b64_val :: "char \<Rightarrow> nat" where
  "b64_val c =
     (let n = ord c in
      if 65 \<le> n \<and> n \<le> 90 then n - 65
      else if 97 \<le> n \<and> n \<le> 122 then n - 97 + 26
      else if 48 \<le> n \<and> n \<le> 57 then n - 48 + 52
      else if n = 43 then 62
      else if n = 47 then 63
      else 0)"

text \<open>Four characters give one to three bytes; a C char keeps the low eight bits.\<close>

definition b64_quad :: "char \<Rightarrow> char \<Rightarrow> char \<Rightarrow> char \<Rightarrow> string" where
  "b64_quad p q r s =
     (let a = b64_val p; b = b64_val q; c = b64_val r; d = b64_val s in
      [char_of (a * 4 + b div 16)] @
      (if r \<noteq> CHR ''='' then [char_of (b mod 16 * 16 + c div 4)] else []) @
      (if s \<noteq> CHR ''='' then [char_of (c mod 4 * 64 + d)] else []))"

fun b64_loop :: "string \<Rightarrow> string" where
  "b64_loop (p # q # r # s # xs) = b64_quad p q r s @ b64_loop xs"
| "b64_loop _ = []"

definition b64_decode :: "string \<Rightarrow> nat \<Rightarrow> string option" where
  "b64_decode src dst_size =
     (if length src mod 4 \<noteq> 0 then None
      else if dst_size < length src div 4 * 3 + 1 then None
      else Some (b64_loop src))"

text \<open>The decoded bytes are compared as a C text.\<close>

definition check_auth :: "string \<Rightarrow> http_conn \<Rightarrow> bool" where
  "check_auth password conn =
     (case http_header conn ''Authorization'' of
        None \<Rightarrow> False
      | Some hdr \<Rightarrow>
          take 6 hdr = ''Basic '' \<and>
          (case b64_decode (drop 6 hdr) 32 of
             None \<Rightarrow> False
           | Some bytes \<Rightarrow>
               (let creds = cstr_of bytes in take 5 creds = ''jppd:'' \<and> drop 5 creds = password)))"

definition DQ :: char where "DQ = CHR 0x22"

definition deny_auth :: "'w net \<Rightarrow> 'w handler" where
  "deny_auth net conn w =
     (let conn = resp_set_status HTTP_401 conn;
          conn = resp_set_hdr ''WWW-Authenticate'' (''Basic realm='' @ [DQ] @ ''WebDAV'' @ [DQ]) conn;
          conn = resp_set_type ''text/plain'' conn;
          (ok, conn, w) = resp_send net conn (Some ''Unauthorized'') w
      in Some (conn, w))"

section \<open>Helpers\<close>

text \<open>strrchr: the text from the last c on.\<close>

definition from_last :: "char \<Rightarrow> string \<Rightarrow> string option" where
  "from_last c s = (if c \<in> set s then Some (c # rev (takeWhile (\<lambda>x. x \<noteq> c) (rev s))) else None)"

definition mime_for :: "string \<Rightarrow> string" where
  "mime_for name =
     (case from_last (CHR ''.'') name of
        None \<Rightarrow> ''application/octet-stream''
      | Some e \<Rightarrow>
          if strcasecmp_eq e ''.txt'' then ''text/plain''
          else if strcasecmp_eq e ''.py'' then ''text/plain''
          else if strcasecmp_eq e ''.log'' then ''text/plain''
          else if strcasecmp_eq e ''.md'' then ''text/plain''
          else if strcasecmp_eq e ''.html'' then ''text/html''
          else if strcasecmp_eq e ''.htm'' then ''text/html''
          else if strcasecmp_eq e ''.json'' then ''application/json''
          else if strcasecmp_eq e ''.csv'' then ''text/csv''
          else if strcasecmp_eq e ''.xml'' then ''application/xml''
          else if strcasecmp_eq e ''.jpg'' then ''image/jpeg''
          else if strcasecmp_eq e ''.jpeg'' then ''image/jpeg''
          else if strcasecmp_eq e ''.png'' then ''image/png''
          else if strcasecmp_eq e ''.gif'' then ''image/gif''
          else if strcasecmp_eq e ''.bin'' then ''application/octet-stream''
          else ''application/octet-stream'')"

text \<open>The loop, with whether the place is at the start or behind a slash.\<close>

fun path_safe_from :: "bool \<Rightarrow> string \<Rightarrow> bool" where
  "path_safe_from at_start [] = True"
| "path_safe_from at_start (c # cs) =
     (if c = CHR ''.'' \<and> cs \<noteq> [] \<and> hd cs = CHR ''.'' \<and> at_start \<and>
         (tl cs = [] \<or> hd (tl cs) = CHR ''/'') then False
      else path_safe_from (c = CHR ''/'') cs)"

definition path_is_safe :: "string \<Rightarrow> bool" where
  "path_is_safe uri = path_safe_from True uri"

definition build_path :: "string \<Rightarrow> string \<Rightarrow> nat \<Rightarrow> string option" where
  "build_path sd_root uri n =
     (if uri = [] \<or> hd uri \<noteq> CHR ''/'' \<or> \<not> path_is_safe uri then None
      else if length sd_root + length uri + 1 > n then None
      else
        let full = sd_root @ uri
        in Some (if length full > 1 \<and> last full = CHR ''/'' then butlast full else full))"

fun xml_escape_loop :: "string \<Rightarrow> nat \<Rightarrow> string \<Rightarrow> string" where
  "xml_escape_loop [] n buf = buf"
| "xml_escape_loop (c # cs) n buf =
     (if length buf + 8 < n then
        xml_escape_loop cs n
          (buf @ (if c = CHR ''&'' then ''&amp;'' else if c = CHR ''<'' then ''&lt;''
                  else if c = CHR ''>'' then ''&gt;'' else if c = DQ then ''&quot;'' else [c]))
      else buf)"

definition xml_escape :: "string \<Rightarrow> nat \<Rightarrow> string" where
  "xml_escape src n = xml_escape_loop src n []"

text \<open>What is sent for a formatted text of which snprintf says it has n characters: the
  buffer, then whatever lies behind it.\<close>

definition sent_buf :: "(nat \<Rightarrow> string) \<Rightarrow> nat \<Rightarrow> string \<Rightarrow> string" where
  "sent_buf stack bufsize text =
     (if length text < bufsize then text
      else take (bufsize - 1) text @ [NUL] @ stack (length text - bufsize))"

section \<open>PROPFIND\<close>

definition propfind_text :: "string \<Rightarrow> bool \<Rightarrow> nat \<Rightarrow> string" where
  "propfind_text href is_dir file_size =
     (let display = (case from_last (CHR ''/'') href of None \<Rightarrow> href | Some d \<Rightarrow> tl d);
          esc = xml_escape href 260
      in if is_dir then
           ''<D:response><D:href>'' @ esc @ ''</D:href><D:propstat><D:prop><D:displayname>'' @ display @
           ''</D:displayname><D:resourcetype><D:collection/></D:resourcetype></D:prop>'' @
           ''<D:status>HTTP/1.1 200 OK</D:status></D:propstat></D:response>''
         else
           ''<D:response><D:href>'' @ esc @ ''</D:href><D:propstat><D:prop><D:displayname>'' @ display @
           ''</D:displayname><D:resourcetype/><D:getcontentlength>'' @ dec file_size @
           ''</D:getcontentlength><D:getcontenttype>'' @ mime_for display @
           ''</D:getcontenttype></D:prop><D:status>HTTP/1.1 200 OK</D:status></D:propstat></D:response>'')"

definition propfind_send_entry ::
  "'w net \<Rightarrow> (nat \<Rightarrow> string) \<Rightarrow> http_conn \<Rightarrow> string \<Rightarrow> bool \<Rightarrow> nat \<Rightarrow> 'w \<Rightarrow> bool \<times> http_conn \<times> 'w" where
  "propfind_send_entry net stack conn href is_dir file_size w =
     resp_send_chunk net conn (Some (sent_buf stack 640 (propfind_text href is_dir file_size))) w"

definition dot_name :: "string \<Rightarrow> bool" where
  "dot_name n \<longleftrightarrow> n = ''.'' \<or> n = ''..''"

definition child_path :: "string \<Rightarrow> string \<Rightarrow> string" where
  "child_path path name = take (FULL_PATH_MAX - 1) (path @ ''/'' @ name)"

definition child_href :: "string \<Rightarrow> string \<Rightarrow> bool \<Rightarrow> string" where
  "child_href self_href name is_dir =
     (let sep = (if last self_href = CHR ''/'' then [] else ''/'')
      in take 279 (self_href @ sep @ name @ (if is_dir then ''/'' else [])))"

fun propfind_children ::
  "'w net \<Rightarrow> 'w fs \<Rightarrow> (nat \<Rightarrow> string) \<Rightarrow> string \<Rightarrow> string \<Rightarrow> string list \<Rightarrow> http_conn \<Rightarrow> 'w \<Rightarrow>
     bool \<times> http_conn \<times> 'w" where
  "propfind_children net fs stack full_path self_href [] conn w = (True, conn, w)"
| "propfind_children net fs stack full_path self_href (n # ns) conn w =
     (if dot_name n then propfind_children net fs stack full_path self_href ns conn w
      else
        (case fs_stat fs (child_path full_path n) w of
           (None, w) \<Rightarrow> propfind_children net fs stack full_path self_href ns conn w
         | (Some (c_is_dir, c_size), w) \<Rightarrow>
             (let (ok, conn, w) =
                    propfind_send_entry net stack conn (child_href self_href n c_is_dir) c_is_dir c_size w
              in if ok then propfind_children net fs stack full_path self_href ns conn w
                 else (False, conn, w))))"

definition XML_OPEN :: string where
  "XML_OPEN =
     ''<?xml version='' @ [DQ] @ ''1.0'' @ [DQ] @ '' encoding='' @ [DQ] @ ''utf-8'' @ [DQ] @
     ''?><D:multistatus xmlns:D='' @ [DQ] @ ''DAV:'' @ [DQ] @ ''>''"

definition XML_CLOSE :: string where "XML_CLOSE = ''</D:multistatus>''"

definition propfind_answer ::
  "'w net \<Rightarrow> 'w fs \<Rightarrow> (nat \<Rightarrow> string) \<Rightarrow> string \<Rightarrow> string \<Rightarrow> bool \<Rightarrow> nat \<Rightarrow> bool \<Rightarrow> 'w handler" where
  "propfind_answer net fs stack uri full_path self_is_dir self_size list_children conn w =
     (let (send_ok, conn, w) = resp_send_chunk net conn (Some XML_OPEN) w;
          self_href = take 279 (if self_is_dir \<and> (uri = [] \<or> last uri \<noteq> CHR ''/'') then uri @ ''/'' else uri);
          (send_ok, conn, w) =
            (if send_ok then propfind_send_entry net stack conn self_href self_is_dir self_size w
             else (False, conn, w));
          (send_ok, conn, w) =
            (if list_children \<and> send_ok then
               (case fs_list fs full_path w of
                  (None, w) \<Rightarrow> (True, conn, w)
                | (Some names, w) \<Rightarrow> propfind_children net fs stack full_path self_href names conn w)
             else (send_ok, conn, w))
      in if \<not> send_ok then Some (conn, w)
         else
           (let (ok, conn, w) = resp_send_chunk net conn (Some XML_CLOSE) w;
                (ok, conn, w) = resp_send_chunk net conn None w
            in Some (conn, w)))"

text \<open>An answer with an error status.\<close>

definition answer_err :: "'w net \<Rightarrow> string \<Rightarrow> string \<Rightarrow> 'w handler" where
  "answer_err net status msg conn w =
     (let (ok, conn, w) = resp_send_err net conn status msg w in Some (conn, w))"

text \<open>An answer with a status and no body.\<close>

definition answer_status :: "'w net \<Rightarrow> string \<Rightarrow> 'w handler" where
  "answer_status net status conn w =
     (let (ok, conn, w) = resp_send net (resp_set_status status conn) None w in Some (conn, w))"

definition handle_propfind :: "'w net \<Rightarrow> 'w fs \<Rightarrow> (nat \<Rightarrow> string) \<Rightarrow> string \<Rightarrow> 'w handler" where
  "handle_propfind net fs stack sd_root conn w =
     (let uri = hc_uri conn in
      case build_path sd_root uri FULL_PATH_MAX of
        None \<Rightarrow> answer_err net HTTP_400 ''Bad path'' conn w
      | Some full_path \<Rightarrow>
          (case fs_stat fs full_path w of
             (None, w) \<Rightarrow> answer_err net HTTP_404 ''Not found'' conn w
           | (Some (is_dir, sz), w) \<Rightarrow>
               (let list_children =
                      ((case http_header conn ''Depth'' of
                          None \<Rightarrow> True | Some depth \<Rightarrow> depth = [] \<or> hd depth \<noteq> CHR ''0'') \<and> is_dir);
                    conn = resp_set_status HTTP_207 conn;
                    conn = resp_set_type ''application/xml; charset=utf-8'' conn;
                    conn = resp_set_hdr ''DAV'' ''1'' conn
                in propfind_answer net fs stack uri full_path is_dir sz list_children conn w)))"

section \<open>Recursive delete\<close>

text \<open>The job is a path to delete (Inl), or the rest of a directory's names with the result so
  far (Inr). The code's recursion has no bound of its own, so the value None is a delete that
  does not return.\<close>

partial_function (option) del ::
  "'w fs \<Rightarrow> string + string \<times> string list \<times> bool \<Rightarrow> 'w \<Rightarrow> (bool \<times> 'w) option" where
  "del fs job w =
     (case job of
        Inl path \<Rightarrow>
          (case fs_stat fs path w of
             (None, w) \<Rightarrow> Some (False, w)
           | (Some (is_dir, sz), w) \<Rightarrow>
               if \<not> is_dir then Some (fs_unlink fs path w)
               else
                 (case fs_list fs path w of
                    (None, w) \<Rightarrow> Some (False, w)
                  | (Some names, w) \<Rightarrow> del fs (Inr (path, names, True)) w))
      | Inr (path, names, ok) \<Rightarrow>
          (case names of
             [] \<Rightarrow> if ok then Some (fs_rmdir fs path w) else Some (False, w)
           | n # ns \<Rightarrow>
               if dot_name n then del fs (Inr (path, ns, ok)) w
               else Option.bind (del fs (Inl (child_path path n)) w)
                      (\<lambda>(r, w). del fs (Inr (path, ns, ok \<and> r)) w)))"

definition delete_recursive :: "'w fs \<Rightarrow> string \<Rightarrow> 'w \<Rightarrow> (bool \<times> 'w) option" where
  "delete_recursive fs path w = del fs (Inl path) w"

section \<open>Method handlers\<close>

definition ALLOW :: string where
  "ALLOW = ''OPTIONS, GET, HEAD, PUT, DELETE, MKCOL, MOVE, PROPFIND''"

definition handle_options :: "'w net \<Rightarrow> 'w handler" where
  "handle_options net conn w =
     (let conn = resp_set_hdr ''Allow'' ALLOW conn;
          conn = resp_set_hdr ''DAV'' ''1'' conn;
          conn = resp_set_hdr ''MS-Author-Via'' ''DAV'' conn;
          (ok, conn, w) = resp_send net conn None w
      in Some (conn, w))"

text \<open>The page of a directory: the head line, one line per name, the end. The title has a
  dash of three bytes.\<close>

definition page_head :: "string \<Rightarrow> string" where
  "page_head uri =
     ''<html><head><title>SD Card '' @ [CHR 0xE2, CHR 0x80, CHR 0x94] @ '' '' @ uri @
     ''</title></head><body><h2>'' @ uri @ ''</h2><ul>''"

definition page_line :: "string \<Rightarrow> string \<Rightarrow> string" where
  "page_line uri name =
     ''<li><a href='' @ [DQ] @ uri @ (if last uri = CHR ''/'' then [] else ''/'') @ name @ [DQ] @ ''>'' @
     name @ ''</a></li>''"

fun page_lines ::
  "'w net \<Rightarrow> (nat \<Rightarrow> string) \<Rightarrow> string \<Rightarrow> string list \<Rightarrow> bool \<times> http_conn \<times> 'w \<Rightarrow> bool \<times> http_conn \<times> 'w" where
  "page_lines net stack uri [] res = res"
| "page_lines net stack uri (n # ns) (send_ok, conn, w) =
     (if \<not> send_ok then (False, conn, w)
      else if dot_name n then page_lines net stack uri ns (True, conn, w)
      else page_lines net stack uri ns
             (resp_send_chunk net conn (Some (sent_buf stack 300 (page_line uri n))) w))"

definition get_page :: "'w net \<Rightarrow> 'w fs \<Rightarrow> (nat \<Rightarrow> string) \<Rightarrow> string \<Rightarrow> string \<Rightarrow> 'w handler" where
  "get_page net fs stack uri full_path conn w =
     (let conn = resp_set_type ''text/html; charset=utf-8'' conn;
          (send_ok, conn, w) = resp_send_chunk net conn (Some (sent_buf stack 300 (page_head uri))) w;
          (send_ok, conn, w) =
            (case fs_list fs full_path w of
               (None, w) \<Rightarrow> (send_ok, conn, w)
             | (Some names, w) \<Rightarrow> page_lines net stack uri names (send_ok, conn, w))
      in if \<not> send_ok then Some (conn, w)
         else
           (let (ok, conn, w) = resp_send_chunk net conn (Some ''</ul></body></html>'') w;
                (ok, conn, w) = resp_send_chunk net conn None w
            in Some (conn, w)))"

partial_function (option) get_loop :: "'w net \<Rightarrow> 'w fs \<Rightarrow> nat \<Rightarrow> http_conn \<Rightarrow> 'w \<Rightarrow> (http_conn \<times> 'w) option" where
  "get_loop net fs fd conn w =
     (case fs_read fs fd (hc_io_size conn) w of
        (got, w) \<Rightarrow>
          if got = [] then Some (conn, w)
          else
            (case resp_write net conn got w of
               (ok, conn, w) \<Rightarrow> if ok then get_loop net fs fd conn w else Some (conn, w)))"

definition get_file :: "'w net \<Rightarrow> 'w fs \<Rightarrow> string \<Rightarrow> nat \<Rightarrow> 'w handler" where
  "get_file net fs full_path sz conn w =
     (case fs_open_read fs full_path w of
        (None, w) \<Rightarrow> answer_err net HTTP_500 ''Cannot open file'' conn w
      | (Some fd, w) \<Rightarrow>
          (let (ok, conn, w) = resp_begin net (resp_set_type (mime_for full_path) conn) sz w in
           if \<not> ok then Some (conn, fs_close fs fd w)
           else
             (case get_loop net fs fd conn w of
                None \<Rightarrow> None
              | Some (conn, w) \<Rightarrow> Some (snd (resp_finish conn), fs_close fs fd w))))"

definition handle_get :: "'w net \<Rightarrow> 'w fs \<Rightarrow> (nat \<Rightarrow> string) \<Rightarrow> string \<Rightarrow> 'w handler" where
  "handle_get net fs stack sd_root conn w =
     (let uri = hc_uri conn in
      case build_path sd_root uri FULL_PATH_MAX of
        None \<Rightarrow> answer_err net HTTP_400 ''Bad path'' conn w
      | Some full_path \<Rightarrow>
          (case fs_stat fs full_path w of
             (None, w) \<Rightarrow> answer_err net HTTP_404 ''Not found'' conn w
           | (Some (is_dir, sz), w) \<Rightarrow>
               if is_dir then get_page net fs stack uri full_path conn w
               else get_file net fs full_path sz conn w))"

text \<open>The body goes to the file piece by piece; the results are recv_err and write_err. A
  peer that stays silent for ever keeps the loop waiting, so it may not return.\<close>

partial_function (option) put_loop ::
  "'w net \<Rightarrow> 'w fs \<Rightarrow> nat \<Rightarrow> nat \<Rightarrow> http_conn \<Rightarrow> 'w \<Rightarrow> (bool \<times> bool \<times> http_conn \<times> 'w) option" where
  "put_loop net fs fd remaining conn w =
     (if remaining = 0 then Some (False, False, conn, w)
      else
        (case http_recv net conn (min remaining (hc_io_size conn)) w of
           (r, conn, w) \<Rightarrow>
             (case r of
                Got_Timeout \<Rightarrow> put_loop net fs fd remaining conn w
              | Got_Closed \<Rightarrow> Some (True, False, conn, w)
              | Got xs \<Rightarrow>
                  (case fs_write fs fd xs w of
                     (ok, w) \<Rightarrow>
                       if ok then put_loop net fs fd (remaining - length xs) conn w
                       else Some (False, True, conn, w)))))"

definition expects_continue :: "http_conn \<Rightarrow> bool" where
  "expects_continue conn \<longleftrightarrow>
     (case http_header conn ''Expect'' of None \<Rightarrow> False | Some v \<Rightarrow> strcasecmp_eq v ''100-continue'')"

definition put_file :: "'w net \<Rightarrow> 'w fs \<Rightarrow> string \<Rightarrow> 'w handler" where
  "put_file net fs full_path conn w =
     (case fs_open_write fs full_path w of
        (None, w) \<Rightarrow> answer_err net HTTP_500 ''Cannot create file'' conn w
      | (Some fd, w) \<Rightarrow>
          (case put_loop net fs fd (hc_content_len conn) conn w of
             None \<Rightarrow> None
           | Some (recv_err, write_err, conn, w) \<Rightarrow>
               (let w = fs_close fs fd w;
                    w = (if recv_err \<or> write_err then snd (fs_unlink fs full_path w) else w)
                in if recv_err then answer_err net HTTP_400 ''Receive error'' (resp_close_conn conn) w
                   else if write_err then answer_err net HTTP_500 ''Write error'' conn w
                   else answer_status net HTTP_201 conn w)))"

definition handle_put :: "'w net \<Rightarrow> 'w fs \<Rightarrow> string \<Rightarrow> 'w handler" where
  "handle_put net fs sd_root conn w =
     (case build_path sd_root (hc_uri conn) FULL_PATH_MAX of
        None \<Rightarrow> answer_err net HTTP_400 ''Bad path'' conn w
      | Some full_path \<Rightarrow>
          (case fs_stat fs full_path w of
             (st, w) \<Rightarrow>
               if (case st of None \<Rightarrow> False | Some (is_dir, sz) \<Rightarrow> is_dir)
               then answer_err net HTTP_400 ''Cannot PUT to directory'' conn w
               else
                 (let (ok, conn, w) =
                        (if expects_continue conn then http_send_continue net conn w else (True, conn, w))
                  in put_file net fs full_path conn w)))"

definition handle_delete :: "'w net \<Rightarrow> 'w fs \<Rightarrow> string \<Rightarrow> 'w handler" where
  "handle_delete net fs sd_root conn w =
     (case build_path sd_root (hc_uri conn) FULL_PATH_MAX of
        None \<Rightarrow> answer_err net HTTP_400 ''Bad path'' conn w
      | Some full_path \<Rightarrow>
          (case fs_stat fs full_path w of
             (None, w) \<Rightarrow> answer_err net HTTP_404 ''Not found'' conn w
           | (Some st, w) \<Rightarrow>
               (case delete_recursive fs full_path w of
                  None \<Rightarrow> None
                | Some (ok, w) \<Rightarrow>
                    if \<not> ok then answer_err net HTTP_500 ''Delete failed'' conn w
                    else answer_status net HTTP_204 conn w)))"

text \<open>strchr for the first slash of a Destination that names a host.\<close>

definition from_slash :: "string \<Rightarrow> string option" where
  "from_slash s = (if CHR ''/'' \<in> set s then Some (dropWhile (\<lambda>c. c \<noteq> CHR ''/'') s) else None)"

definition dest_path :: "string \<Rightarrow> string option" where
  "dest_path dest_uri =
     (if take 8 dest_uri = ''https://'' then from_slash (drop 8 dest_uri)
      else if take 7 dest_uri = ''http://'' then from_slash (drop 7 dest_uri)
      else Some dest_uri)"

definition handle_move :: "'w net \<Rightarrow> 'w fs \<Rightarrow> string \<Rightarrow> 'w handler" where
  "handle_move net fs sd_root conn w =
     (case build_path sd_root (hc_uri conn) FULL_PATH_MAX of
        None \<Rightarrow> answer_err net HTTP_400 ''Bad source path'' conn w
      | Some full_src \<Rightarrow>
          (case http_header conn ''Destination'' of
             None \<Rightarrow> answer_err net HTTP_400 ''Missing Destination'' conn w
           | Some dest_uri \<Rightarrow>
               (case dest_path dest_uri of
                  None \<Rightarrow> answer_err net HTTP_400 ''Bad Destination'' conn w
                | Some dest_uri \<Rightarrow>
                    (case build_path sd_root dest_uri FULL_PATH_MAX of
                       None \<Rightarrow> answer_err net HTTP_400 ''Bad destination path'' conn w
                     | Some full_dst \<Rightarrow>
                         (case fs_rename fs full_src full_dst w of
                            (ok, w) \<Rightarrow>
                              if \<not> ok then answer_err net HTTP_500 ''Move failed'' conn w
                              else answer_status net HTTP_201 conn w)))))"

definition handle_mkcol :: "'w net \<Rightarrow> 'w fs \<Rightarrow> string \<Rightarrow> 'w handler" where
  "handle_mkcol net fs sd_root conn w =
     (case build_path sd_root (hc_uri conn) FULL_PATH_MAX of
        None \<Rightarrow> answer_err net HTTP_400 ''Bad path'' conn w
      | Some full_path \<Rightarrow>
          (case fs_mkdir fs full_path w of
             (ok, w) \<Rightarrow>
               if \<not> ok then answer_err net HTTP_500 ''Cannot create directory'' conn w
               else answer_status net HTTP_201 conn w))"

section \<open>Dispatch\<close>

definition webdav_dispatch :: "'w net \<Rightarrow> 'w fs \<Rightarrow> (nat \<Rightarrow> string) \<Rightarrow> fileserver \<Rightarrow> 'w handler" where
  "webdav_dispatch net fs stack srv conn w =
     (let m = hc_method conn; sd_root = s_sd_root srv in
      if m = ''OPTIONS'' then handle_options net conn w
      else if \<not> check_auth (s_password srv) conn then deny_auth net conn w
      else if m = ''PROPFIND'' then handle_propfind net fs stack sd_root conn w
      else if m = ''GET'' then handle_get net fs stack sd_root conn w
      else if m = ''HEAD'' then handle_get net fs stack sd_root conn w
      else if m = ''PUT'' then handle_put net fs sd_root conn w
      else if m = ''DELETE'' then handle_delete net fs sd_root conn w
      else if m = ''MOVE'' then handle_move net fs sd_root conn w
      else if m = ''MKCOL'' then handle_mkcol net fs sd_root conn w
      else answer_err net HTTP_405 ''Method not allowed'' (resp_set_hdr ''Allow'' ALLOW conn) w)"

section \<open>Starting and stopping\<close>

record fileserver_config =
  fc_port :: nat
  fc_sd_root :: "string option"

definition fileserver_config_defaults :: fileserver_config where
  "fileserver_config_defaults =
     \<lparr> fc_port = FILESERVER_DEFAULT_PORT, fc_sd_root = Some FILESERVER_DEFAULT_ROOT \<rparr>"

text \<open>root_size is the size of the field for the root.\<close>

definition SD_ROOT_SIZE :: nat where "SD_ROOT_SIZE = 64"

definition fileserver_init :: "fileserver_config option \<Rightarrow> fileserver \<Rightarrow> fileserver_result \<times> fileserver" where
  "fileserver_init config s =
     (if s_initialized s then (Fs_ALREADY_INITIALIZED, s)
      else
        (let src = (case config of Some c \<Rightarrow> c | None \<Rightarrow> fileserver_config_defaults);
             root = (case fc_sd_root src of Some r \<Rightarrow> r | None \<Rightarrow> FILESERVER_DEFAULT_ROOT)
         in (Fs_OK, \<lparr> s_initialized = True, s_state = Fs_STOPPED, s_sd_root = take (SD_ROOT_SIZE - 1) root,
                      s_port = fc_port src, s_password = [] \<rparr>)))"

text \<open>The HTTP server and the pool are passed along; tcb_size, conn_size, opened and created
  are the arguments of http_server_start.\<close>

type_synonym platform = "32 word \<times> 32 word \<times> bool \<times> bool"

definition start_server_impl ::
  "platform \<Rightarrow> fileserver \<Rightarrow> http_srv \<Rightarrow> app_pool \<Rightarrow> fileserver_result \<times> fileserver \<times> http_srv \<times> app_pool" where
  "start_server_impl pf s srv pool =
     (case pf of
        (tcb_size, conn_size, opened, created) \<Rightarrow>
          (let cfg = \<lparr> cf_owner = Some ''webdav'', cf_port = s_port s, cf_stack_bytes = WEBDAV_STACK_BYTES,
                       cf_has_handler = True \<rparr>;
               (rc, srv, pool) = http_server_start tcb_size conn_size opened created (Some cfg) srv pool
           in if rc \<noteq> Http_OK then
                (Fs_START_FAILED, s\<lparr> s_state := Fs_ERROR, s_password := [] \<rparr>, srv, pool)
              else (Fs_OK, s\<lparr> s_state := Fs_RUNNING \<rparr>, srv, pool)))"

definition fileserver_start ::
  "nat list \<Rightarrow> platform \<Rightarrow> fileserver \<Rightarrow> http_srv \<Rightarrow> app_pool \<Rightarrow>
     fileserver_result \<times> fileserver \<times> http_srv \<times> app_pool" where
  "fileserver_start rnd pf s srv pool =
     (if \<not> s_initialized s then (Fs_NOT_INITIALIZED, s, srv, pool)
      else if s_state s = Fs_RUNNING then (Fs_OK, s, srv, pool)
      else start_server_impl pf (s\<lparr> s_password := generate_password rnd \<rparr>) srv pool)"

definition fileserver_start_with_password ::
  "nat list \<Rightarrow> platform \<Rightarrow> string option \<Rightarrow> fileserver \<Rightarrow> http_srv \<Rightarrow> app_pool \<Rightarrow>
     fileserver_result \<times> fileserver \<times> http_srv \<times> app_pool" where
  "fileserver_start_with_password rnd pf password s srv pool =
     (if \<not> s_initialized s then (Fs_NOT_INITIALIZED, s, srv, pool)
      else if s_state s = Fs_RUNNING then (Fs_OK, s, srv, pool)
      else
        (let pw = (case password of
                     Some p \<Rightarrow> if p = [] then generate_password rnd else take FILESERVER_PASS_MAX p
                   | None \<Rightarrow> generate_password rnd)
         in start_server_impl pf (s\<lparr> s_password := pw \<rparr>) srv pool))"

definition fileserver_stop ::
  "bool \<Rightarrow> fileserver \<Rightarrow> http_srv \<Rightarrow> app_pool \<Rightarrow> fileserver_result \<times> fileserver \<times> http_srv \<times> app_pool" where
  "fileserver_stop exited s srv pool =
     (if \<not> s_initialized s then (Fs_NOT_INITIALIZED, s, srv, pool)
      else if s_state s \<noteq> Fs_RUNNING then (Fs_OK, s, srv, pool)
      else
        (let (rc, srv, pool) = http_server_stop exited srv pool in
         if rc \<noteq> Http_OK then (Fs_STOP_FAILED, s, srv, pool)
         else (Fs_OK, s\<lparr> s_state := Fs_STOPPED, s_password := [] \<rparr>, srv, pool)))"

text \<open>ip is the address of the network interface, if there is one with an address.\<close>

record fileserver_status =
  st_state :: fileserver_state
  st_port :: nat
  st_password :: string
  st_ip :: string

definition fileserver_get_status :: "(nat \<times> nat \<times> nat \<times> nat) option \<Rightarrow> fileserver \<Rightarrow> fileserver_status" where
  "fileserver_get_status ip s =
     \<lparr> st_state = s_state s, st_port = s_port s, st_password = take FILESERVER_PASS_MAX (s_password s),
       st_ip = (case ip of
                  None \<Rightarrow> []
                | Some (a, b, c, d) \<Rightarrow>
                    if a = 0 \<and> b = 0 \<and> c = 0 \<and> d = 0 then []
                    else take 15 (dec a @ ''.'' @ dec b @ ''.'' @ dec c @ ''.'' @ dec d)) \<rparr>"

definition fileserver_state_name :: "fileserver_state \<Rightarrow> string" where
  "fileserver_state_name st =
     (case st of Fs_STOPPED \<Rightarrow> ''stopped'' | Fs_RUNNING \<Rightarrow> ''running'' | Fs_ERROR \<Rightarrow> ''error'')"

definition fileserver_result_name :: "fileserver_result \<Rightarrow> string" where
  "fileserver_result_name r =
     (case r of
        Fs_OK \<Rightarrow> ''OK'' | Fs_ALREADY_INITIALIZED \<Rightarrow> ''ALREADY_INITIALIZED''
      | Fs_NOT_INITIALIZED \<Rightarrow> ''NOT_INITIALIZED'' | Fs_START_FAILED \<Rightarrow> ''START_FAILED''
      | Fs_STOP_FAILED \<Rightarrow> ''STOP_FAILED'')"

section \<open>Base64 as a client writes it\<close>

definition b64_chars :: string where
  "b64_chars = ''ABCDEFGHIJKLMNOPQRSTUVWXYZabcdefghijklmnopqrstuvwxyz0123456789+/''"

definition b64_char :: "nat \<Rightarrow> char" where "b64_char n = b64_chars ! n"

fun b64_encode :: "string \<Rightarrow> string" where
  "b64_encode (x # y # z # r) =
     b64_char (ord x div 4) # b64_char (ord x mod 4 * 16 + ord y div 16) #
     b64_char (ord y mod 16 * 4 + ord z div 64) # b64_char (ord z mod 64) # b64_encode r"
| "b64_encode [x, y] =
     [b64_char (ord x div 4), b64_char (ord x mod 4 * 16 + ord y div 16), b64_char (ord y mod 16 * 4), CHR ''='']"
| "b64_encode [x] = [b64_char (ord x div 4), b64_char (ord x mod 4 * 16), CHR ''='', CHR ''='']"
| "b64_encode [] = []"

lemma b64_table: "map b64_val b64_chars = [0..<64]" "CHR ''='' \<notin> set b64_chars" "length b64_chars = 64"
  by (simp_all add: b64_chars_def b64_val_def ord_def upt_rec)

lemma b64_back [simp]: "n < 64 \<Longrightarrow> b64_val (b64_char n) = n" "n < 64 \<Longrightarrow> b64_char n \<noteq> CHR ''=''"
proof -
  assume n: "n < 64"
  then have "map b64_val b64_chars ! n = n" by (simp add: b64_table(1) del: nth_map)
  then show "b64_val (b64_char n) = n" using n by (simp add: b64_char_def b64_table(3))
  show "b64_char n \<noteq> CHR ''=''"
    using n b64_table(2) nth_mem[of n b64_chars, unfolded b64_table(3)] by (auto simp: b64_char_def)
qed

lemma ord_small [simp]: "ord c < 256"
  by (simp add: ord_def)

lemma char_of_parts: "char_of (ord x) = x"
  by (simp add: ord_def)

lemma first_byte: "k < 256 \<Longrightarrow> char_of (ord x div 4 * 4 + (ord x mod 4 * 16 + k div 16) div 16) = x"
proof -
  assume "k < 256"
  then have "(ord x mod 4 * 16 + k div 16) div 16 = ord x mod 4" by auto
  then show ?thesis by (simp add: char_of_parts)
qed

lemma second_byte: "k < 256 \<Longrightarrow> char_of ((j * 16 + ord y div 16) mod 16 * 16 + (ord y mod 16 * 4 + k div 64) div 4) = y"
proof -
  assume "k < 256"
  then have "(ord y mod 16 * 4 + k div 64) div 4 = ord y mod 16" by auto
  moreover have "ord y div 16 < 16" by (simp add: less_mult_imp_div_less)
  then have "(j * 16 + ord y div 16) mod 16 = ord y div 16" by simp
  ultimately show ?thesis by (simp add: char_of_parts)
qed

lemma third_byte: "char_of ((j * 4 + ord z div 64) mod 4 * 64 + ord z mod 64) = z"
proof -
  have "ord z div 64 < 4" by (simp add: less_mult_imp_div_less)
  then show ?thesis by (simp add: char_of_parts)
qed

lemma six_bits [simp]:
  "ord x div 4 < 64" "ord x mod 4 * 16 + ord y div 16 < 64" "ord y mod 16 * 4 + ord z div 64 < 64"
  "ord z mod 64 < 64" "ord x mod 4 * 16 < 64" "ord y mod 16 * 4 < 64"
proof -
  have d: "ord x div 4 < 64" "ord y div 16 < 16" "ord z div 64 < 4" by (simp_all add: less_mult_imp_div_less)
  have m: "ord x mod 4 < 4" "ord y mod 16 < 16" by auto
  show "ord x div 4 < 64" "ord x mod 4 * 16 + ord y div 16 < 64" "ord y mod 16 * 4 + ord z div 64 < 64"
    "ord z mod 64 < 64" "ord x mod 4 * 16 < 64" "ord y mod 16 * 4 < 64"
    using d m by simp_all
qed

lemma b64_quad_back:
  assumes "a < 64" "b < 64" "c < 64" "d < 64"
  shows "b64_quad (b64_char a) (b64_char b) (b64_char c) (b64_char d) =
           [char_of (a * 4 + b div 16), char_of (b mod 16 * 16 + c div 4), char_of (c mod 4 * 64 + d)]"
    "b64_quad (b64_char a) (b64_char b) (b64_char c) (CHR ''='') =
           [char_of (a * 4 + b div 16), char_of (b mod 16 * 16 + c div 4)]"
    "b64_quad (b64_char a) (b64_char b) (CHR ''='') (CHR ''='') = [char_of (a * 4 + b div 16)]"
  using assms by (simp_all add: b64_quad_def Let_def)

lemma b64_encode_back: "b64_loop (b64_encode xs) = xs"
proof (induction xs rule: b64_encode.induct)
  case (1 x y z r)
  then show ?case
    by (simp only: b64_encode.simps b64_loop.simps b64_quad_back(1)[OF six_bits(1-4)] first_byte[OF ord_small]
        second_byte[OF ord_small] third_byte append_Cons append_Nil)
next
  case (2 x y)
  have second: "char_of ((ord x mod 4 * 16 + ord y div 16) mod 16 * 16 + ord y mod 16 * 4 div 4) = y"
    using second_byte[of 0 "ord x mod 4" y] by simp
  show ?case
    by (simp only: b64_encode.simps b64_loop.simps b64_quad_back(2)[OF six_bits(1,2,6,4)] first_byte[OF ord_small]
        second append_Cons append_Nil)
next
  case (3 x)
  have first: "char_of (ord x div 4 * 4 + ord x mod 4 * 16 div 16) = x"
    using first_byte[of 0 x] by simp
  show ?case
    by (simp only: b64_encode.simps b64_loop.simps b64_quad_back(3)[OF six_bits(1,5,6,4)] first append_Cons append_Nil)
qed simp

lemma b64_encode_length: "length (b64_encode xs) = (length xs + 2) div 3 * 4"
proof (induction xs rule: b64_encode.induct)
  case (1 x y z r)
  have "(length (x # y # z # r) + 2) div 3 = (length r + 2) div 3 + 1"
    using div_add_self2[of 3 "length r + 2"] by simp
  then show ?case using 1 by simp
qed simp_all

text \<open>The buffer of check_auth takes up to thirty bytes.\<close>

lemma b64_decode_encode: "b64_decode (b64_encode xs) 32 = (if length xs \<le> 30 then Some xs else None)"
proof -
  let ?k = "(length xs + 2) div 3"
  have "length xs \<le> 30 \<longleftrightarrow> ?k \<le> 10" by auto
  then show ?thesis by (simp add: b64_decode_def b64_encode_length b64_encode_back)
qed

lemma cstr_of_clean: "NUL \<notin> set s \<Longrightarrow> cstr_of s = s"
  by (auto simp: cstr_of_def takeWhile_eq_all_conv)

text \<open>A request with basic authorisation is let in exactly when its user and password are the
  server's.\<close>

definition basic_auth :: "string \<Rightarrow> string" where
  "basic_auth creds = ''Basic '' @ b64_encode creds"

lemma check_auth_basic:
  assumes "length pw \<le> FILESERVER_PASS_MAX" "NUL \<notin> set creds"
    and "http_header conn ''Authorization'' = Some (basic_auth creds)"
  shows "check_auth pw conn \<longleftrightarrow> creds = ''jppd:'' @ pw"
proof (cases "length creds \<le> 30")
  case True
  have "creds = ''jppd:'' @ pw" if "take 5 creds = ''jppd:''" "drop 5 creds = pw"
    using append_take_drop_id[of 5 creds] unfolding that by simp
  then have "take 5 creds = ''jppd:'' \<and> drop 5 creds = pw \<longleftrightarrow> creds = ''jppd:'' @ pw" by auto
  then show ?thesis
    using True assms by (simp add: check_auth_def basic_auth_def b64_decode_encode cstr_of_clean Let_def)
next
  case False
  then have "creds \<noteq> ''jppd:'' @ pw" using assms(1) by (auto simp: FILESERVER_PASS_MAX_def)
  then show ?thesis using False assms(3) by (simp add: check_auth_def basic_auth_def b64_decode_encode)
qed

section \<open>Paths stay below the root\<close>

text \<open>A path inside the root: the root itself or something below it, without a segment "..".\<close>

definition inside :: "string \<Rightarrow> string \<Rightarrow> bool" where
  "inside root p \<longleftrightarrow>
     (\<exists>r. p = root @ r \<and> (r = [] \<or> hd r = CHR ''/'') \<and> ''..'' \<notin> set (split_on (CHR ''/'') r))"

lemma path_safe_scan: "path_safe_from b p \<longleftrightarrow> \<not> parent_scan b p"
proof (induction p arbitrary: b)
  case (Cons c s)
  have "s = ''.'' \<or> take 2 s = ''./'' \<longleftrightarrow>
      s \<noteq> [] \<and> hd s = CHR ''.'' \<and> (tl s = [] \<or> hd (tl s) = CHR ''/'')"
  proof (cases s)
    case (Cons d t)
    then show ?thesis by (cases t) auto
  qed simp
  then show ?case using Cons.IH by auto
qed simp

lemma path_is_safe_segments: "path_is_safe p \<longleftrightarrow> ''..'' \<notin> set (split_on (CHR ''/'') p)"
  by (simp add: path_is_safe_def path_safe_scan parent_scan_split)

lemma split_on_butlast:
  "xs \<noteq> [] \<Longrightarrow> last xs = c \<Longrightarrow> set (split_on c (butlast xs)) \<subseteq> set (split_on c xs)"
  using split_on_append_sep[of c "butlast xs" "[]"] append_butlast_last_id[of xs] by auto

lemma build_path_inside:
  assumes "build_path root uri n = Some full"
  shows "inside root full" "length full < n" "full \<noteq> []"
proof -
  have uri: "uri \<noteq> []" "hd uri = CHR ''/''" "path_is_safe uri" "length root + length uri + 1 \<le> n"
    and full: "full = (if length (root @ uri) > 1 \<and> last (root @ uri) = CHR ''/'' then butlast (root @ uri) else root @ uri)"
    using assms unfolding build_path_def Let_def by (simp_all only: option.inject split: if_splits) simp_all
  have safe: "''..'' \<notin> set (split_on (CHR ''/'') uri)" using uri(3) by (simp add: path_is_safe_segments)
  have cut: "full = root @ butlast uri \<and> last uri = CHR ''/'' \<or> full = root @ uri"
    using uri(1) by (simp add: full butlast_append)
  have start: "butlast uri = [] \<or> hd (butlast uri) = CHR ''/''"
    using uri(1,2) by (cases uri) (auto split: if_splits)
  show "inside root full" using cut
  proof
    assume "full = root @ butlast uri \<and> last uri = CHR ''/''"
    then show ?thesis unfolding inside_def using start safe split_on_butlast[OF uri(1)] by blast
  next
    assume "full = root @ uri"
    then show ?thesis unfolding inside_def using uri(2) safe by blast
  qed
  show "length full < n" using cut uri(1,4) by auto
  show "full \<noteq> []" using full uri(1) by (cases uri) (auto simp: butlast_append split: if_splits)
qed

lemma child_inside:
  assumes "inside root p" "CHR ''/'' \<notin> set name" "name \<noteq> ''..''" "length p + 1 + length name < FULL_PATH_MAX"
  shows "inside root (child_path p name)" "child_path p name = p @ ''/'' @ name"
proof -
  show child: "child_path p name = p @ ''/'' @ name" using assms(4) by (simp add: child_path_def)
  obtain r where r: "p = root @ r" "r = [] \<or> hd r = CHR ''/''" "''..'' \<notin> set (split_on (CHR ''/'') r)"
    using assms(1) by (auto simp: inside_def)
  have "''..'' \<notin> set (split_on (CHR ''/'') (r @ ''/'' @ name))"
    using r(3) assms(2,3) by (simp add: split_on_append_sep split_on_single)
  moreover have "hd (r @ ''/'' @ name) = CHR ''/''" using r(2) by (cases r) simp_all
  ultimately show "inside root (child_path p name)" unfolding inside_def child unfolding r(1)
    by (intro exI[of _ "r @ ''/'' @ name"]) simp
qed

text \<open>Two file systems that answer alike for every path inside the root.\<close>

definition agree :: "string \<Rightarrow> 'w fs \<Rightarrow> 'w fs \<Rightarrow> bool" where
  "agree root fs1 fs2 \<longleftrightarrow>
     (\<forall>p. inside root p \<longrightarrow>
        fs_stat fs1 p = fs_stat fs2 p \<and> fs_list fs1 p = fs_list fs2 p \<and> fs_unlink fs1 p = fs_unlink fs2 p \<and>
        fs_rmdir fs1 p = fs_rmdir fs2 p \<and> fs_mkdir fs1 p = fs_mkdir fs2 p \<and>
        fs_open_read fs1 p = fs_open_read fs2 p \<and> fs_open_write fs1 p = fs_open_write fs2 p \<and>
        (\<forall>q. inside root q \<longrightarrow> fs_rename fs1 p q = fs_rename fs2 p q)) \<and>
     fs_read fs1 = fs_read fs2 \<and> fs_write fs1 = fs_write fs2 \<and> fs_close fs1 = fs_close fs2"

text \<open>Names a directory inside the root may list: without a slash, and short enough for the
  path of the child to fit its buffer.\<close>

definition name_fits :: "string \<Rightarrow> string \<Rightarrow> bool" where
  "name_fits p n \<longleftrightarrow> dot_name n \<or> (CHR ''/'' \<notin> set n \<and> length p + 1 + length n < FULL_PATH_MAX)"

definition names_fit :: "string \<Rightarrow> 'w fs \<Rightarrow> bool" where
  "names_fit root fs \<longleftrightarrow>
     (\<forall>p w. inside root p \<and> length p < FULL_PATH_MAX \<longrightarrow>
        (case fst (fs_list fs p w) of None \<Rightarrow> True | Some names \<Rightarrow> list_all (name_fits p) names))"

lemma agree_sym: "agree root fs1 fs2 \<Longrightarrow> agree root fs2 fs1"
  by (simp add: agree_def)

lemma agreeD:
  assumes "agree root fs1 fs2" "inside root p"
  shows "fs_stat fs2 p = fs_stat fs1 p" "fs_list fs2 p = fs_list fs1 p" "fs_unlink fs2 p = fs_unlink fs1 p"
    "fs_rmdir fs2 p = fs_rmdir fs1 p" "fs_mkdir fs2 p = fs_mkdir fs1 p"
    "fs_open_read fs2 p = fs_open_read fs1 p" "fs_open_write fs2 p = fs_open_write fs1 p"
    "inside root q \<Longrightarrow> fs_rename fs2 p q = fs_rename fs1 p q"
  using assms by (simp_all add: agree_def)

lemma agree_io:
  assumes "agree root fs1 fs2"
  shows "fs_read fs2 = fs_read fs1" "fs_write fs2 = fs_write fs1" "fs_close fs2 = fs_close fs1"
  using assms by (simp_all add: agree_def)

lemma agree_names: "agree root fs1 fs2 \<Longrightarrow> names_fit root fs1 \<Longrightarrow> names_fit root fs2"
  by (simp add: names_fit_def agreeD)

lemma names_fitD:
  "names_fit root fs \<Longrightarrow> inside root p \<Longrightarrow> length p < FULL_PATH_MAX \<Longrightarrow> fs_list fs p w = (Some names, w') \<Longrightarrow>
     list_all (name_fits p) names"
  by (auto simp: names_fit_def dest!: spec[of _ p] spec[of _ w])

lemma fits_child:
  assumes "inside root p" "name_fits p n" "\<not> dot_name n"
  shows "inside root (child_path p n)" "length (child_path p n) < FULL_PATH_MAX"
proof -
  have n: "CHR ''/'' \<notin> set n" "n \<noteq> ''..''" "length p + 1 + length n < FULL_PATH_MAX"
    using assms(2,3) by (auto simp: name_fits_def dot_name_def)
  note c = child_inside[OF assms(1) n]
  show "inside root (child_path p n)" by (rule c(1))
  show "length (child_path p n) < FULL_PATH_MAX" using n(3) unfolding c(2) by simp
qed

lemma propfind_children_agree:
  assumes "agree root fs1 fs2" "inside root p" "list_all (name_fits p) names"
  shows "propfind_children net fs2 stack p href names conn w = propfind_children net fs1 stack p href names conn w"
  using assms(3)
proof (induction names arbitrary: conn w)
  case (Cons n ns)
  have stat: "fs_stat fs2 (child_path p n) = fs_stat fs1 (child_path p n)" if "\<not> dot_name n"
    using agreeD(1)[OF assms(1) fits_child(1)[OF assms(2) _ that]] Cons.prems by simp
  show ?case using Cons by (auto simp: stat split: prod.splits option.splits)
qed simp

definition job_inside :: "string \<Rightarrow> string + string \<times> string list \<times> bool \<Rightarrow> bool" where
  "job_inside root job \<longleftrightarrow>
     (case job of
        Inl p \<Rightarrow> inside root p \<and> length p < FULL_PATH_MAX
      | Inr (p, names, ok) \<Rightarrow>
          inside root p \<and> length p < FULL_PATH_MAX \<and> list_all (name_fits p) names)"

lemma del_path:
  "del fs (Inl p) w =
     (case fs_stat fs p w of
        (None, w) \<Rightarrow> Some (False, w)
      | (Some (is_dir, sz), w) \<Rightarrow>
          if \<not> is_dir then Some (fs_unlink fs p w)
          else
            (case fs_list fs p w of
               (None, w) \<Rightarrow> Some (False, w)
             | (Some names, w) \<Rightarrow> del fs (Inr (p, names, True)) w))"
  by (subst del.simps) simp

lemma del_names:
  "del fs (Inr (p, [], ok)) w = (if ok then Some (fs_rmdir fs p w) else Some (False, w))"
  "del fs (Inr (p, n # ns, ok)) w =
     (if dot_name n then del fs (Inr (p, ns, ok)) w
      else Option.bind (del fs (Inl (child_path p n)) w) (\<lambda>(r, w). del fs (Inr (p, ns, ok \<and> r)) w))"
  by (subst del.simps; simp)+

lemma del_agree_some:
  assumes "del fs1 job w = Some r" "agree root fs1 fs2" "names_fit root fs1" "job_inside root job"
  shows "del fs2 job w = Some r"
  using assms
proof (induction rule: del.raw_induct[rotated 1, consumes 1])
  case (1 self fs1 job w r)
  note IH = 1(1) and body = 1(2) and ag = 1(3) and names = 1(4) and job = 1(5)
  show ?case
  proof (cases job)
    case (Inl p)
    then have p: "inside root p" "length p < FULL_PATH_MAX" using job by (simp_all add: job_inside_def)
    note eq = agreeD[OF ag p(1)]
    obtain st w1 where st: "fs_stat fs1 p w = (st, w1)" by (metis surj_pair)
    show ?thesis
    proof (cases st)
      case (Some a)
      obtain is_dir sz where a: "a = (is_dir, sz)" by (metis surj_pair)
      show ?thesis
      proof (cases is_dir)
        case True
        obtain ls w2 where ls: "fs_list fs1 p w1 = (ls, w2)" by (metis surj_pair)
        show ?thesis
        proof (cases ls)
          case (Some ns)
          have "list_all (name_fits p) ns" using names_fitD[OF names p, of w1 ns w2] ls Some by simp
          then have "job_inside root (Inr (p, ns, True))" using p by (simp add: job_inside_def)
          moreover have "self fs1 (Inr (p, ns, True)) w2 = Some r"
            using body Inl st \<open>st = Some a\<close> a True ls Some by simp
          ultimately have "del fs2 (Inr (p, ns, True)) w2 = Some r" using IH ag names by blast
          then show ?thesis using Inl st \<open>st = Some a\<close> a True ls Some by (simp add: del_path eq)
        qed (use body Inl st \<open>st = Some a\<close> a True ls in \<open>simp add: del_path eq\<close>)
      qed (use body Inl st \<open>st = Some a\<close> a in \<open>simp add: del_path eq\<close>)
    qed (use body Inl st in \<open>simp add: del_path eq\<close>)
  next
    case (Inr d)
    obtain p ns ok where d: "d = (p, ns, ok)" by (metis prod_cases3)
    have p: "inside root p" "length p < FULL_PATH_MAX" "list_all (name_fits p) ns"
      using job Inr d by (simp_all add: job_inside_def)
    note eq = agreeD[OF ag p(1)]
    show ?thesis
    proof (cases ns)
      case Nil
      then show ?thesis using body Inr d by (simp add: del_names eq split: if_splits)
    next
      case (Cons n ms)
      have rest: "job_inside root (Inr (p, ms, b))" for b using p Cons by (simp add: job_inside_def)
      show ?thesis
      proof (cases "dot_name n")
        case True
        then have "self fs1 (Inr (p, ms, ok)) w = Some r" using body Inr d Cons by simp
        then have "del fs2 (Inr (p, ms, ok)) w = Some r" using IH ag names rest by blast
        then show ?thesis using Inr d Cons True by (simp add: del_names)
      next
        case False
        then obtain x w1 where x: "self fs1 (Inl (child_path p n)) w = Some (x, w1)"
          "self fs1 (Inr (p, ms, ok \<and> x)) w1 = Some r"
          using body Inr d Cons by (auto simp: bind_eq_Some_conv)
        have "job_inside root (Inl (child_path p n))"
          using fits_child[OF p(1) _ False] p(3) Cons by (simp add: job_inside_def)
        then have "del fs2 (Inl (child_path p n)) w = Some (x, w1)" using IH ag names x(1) by blast
        moreover have "del fs2 (Inr (p, ms, ok \<and> x)) w1 = Some r" using IH ag names x(2) rest by blast
        ultimately show ?thesis using Inr d Cons False by (simp add: del_names)
      qed
    qed
  qed
qed

lemma delete_agree:
  assumes "agree root fs1 fs2" "names_fit root fs1" "inside root p" "length p < FULL_PATH_MAX"
  shows "delete_recursive fs2 p w = delete_recursive fs1 p w"
proof -
  have job: "job_inside root (Inl p)" using assms(3,4) by (simp add: job_inside_def)
  note there = del_agree_some[OF _ assms(1,2) job]
  note other = del_agree_some[OF _ agree_sym[OF assms(1)] agree_names[OF assms(1,2)] job]
  show ?thesis
    unfolding delete_recursive_def using there[of w] other[of w]
    by (cases "del fs1 (Inl p) w"; cases "del fs2 (Inl p) w") auto
qed

lemma get_loop_some:
  assumes "get_loop net fs1 fd conn w = Some r" "fs_read fs2 = fs_read fs1"
  shows "get_loop net fs2 fd conn w = Some r"
  using assms
proof (induction rule: get_loop.raw_induct[rotated 1, consumes 1])
  case (1 self net fs1 fd conn w r)
  then show ?case
    by (cases r; subst get_loop.simps) (auto split: prod.splits if_splits)
qed

lemma put_loop_some:
  assumes "put_loop net fs1 fd n conn w = Some r" "fs_write fs2 = fs_write fs1"
  shows "put_loop net fs2 fd n conn w = Some r"
  using assms
proof (induction rule: put_loop.raw_induct[rotated 1, consumes 1])
  case (1 self net fs1 fd n conn w r)
  then show ?case
    by (cases r rule: prod_cases4; subst put_loop.simps) (auto split: prod.splits if_splits recv_out.splits)
qed

lemma same_option: "(\<And>r. a = Some r \<Longrightarrow> b = Some r) \<Longrightarrow> (\<And>r. b = Some r \<Longrightarrow> a = Some r) \<Longrightarrow> a = b"
  by (cases a; cases b) auto

lemma get_loop_agree: "fs_read fs2 = fs_read fs1 \<Longrightarrow> get_loop net fs2 fd conn w = get_loop net fs1 fd conn w"
  by (rule same_option) (auto intro: get_loop_some)

lemma put_loop_agree: "fs_write fs2 = fs_write fs1 \<Longrightarrow> put_loop net fs2 fd n conn w = put_loop net fs1 fd n conn w"
  by (rule same_option) (auto intro: put_loop_some)

section \<open>Each handler stays inside the root\<close>

lemma page_lines_no_fs: "fs_list fs2 p = fs_list fs1 p \<Longrightarrow> get_page net fs2 stack uri p conn w = get_page net fs1 stack uri p conn w"
  by (simp add: get_page_def)

lemma propfind_agree:
  assumes "agree root fs1 fs2" "names_fit root fs1"
  shows "handle_propfind net fs2 stack root conn w = handle_propfind net fs1 stack root conn w"
proof (cases "build_path root (hc_uri conn) FULL_PATH_MAX")
  case (Some p)
  note b = build_path_inside[OF Some] and eq = agreeD[OF assms(1) build_path_inside(1)[OF Some]]
  have kids: "(case fs_list fs1 p w of (None, w) \<Rightarrow> (True, conn, w)
      | (Some names, w) \<Rightarrow> propfind_children net fs2 stack p href names conn w) =
     (case fs_list fs1 p w of (None, w) \<Rightarrow> (True, conn, w)
      | (Some names, w) \<Rightarrow> propfind_children net fs1 stack p href names conn w)" for href conn w
    using names_fitD[OF assms(2) b(1,2)]
    by (auto split: prod.splits option.splits intro!: propfind_children_agree[OF assms(1) b(1)])
  have ans: "propfind_answer net fs2 stack uri p d sz l conn w = propfind_answer net fs1 stack uri p d sz l conn w"
    for uri d sz l conn w
    unfolding propfind_answer_def eq kids ..
  show ?thesis unfolding handle_propfind_def Let_def Some option.case eq ans ..
qed (simp add: handle_propfind_def)

lemma get_agree:
  assumes "agree root fs1 fs2"
  shows "handle_get net fs2 stack root conn w = handle_get net fs1 stack root conn w"
proof (cases "build_path root (hc_uri conn) FULL_PATH_MAX")
  case (Some p)
  note eq = agreeD[OF assms build_path_inside(1)[OF Some]] and io = agree_io[OF assms]
  have whole: "get_file net fs2 p sz conn w = get_file net fs1 p sz conn w" for sz conn w
    unfolding get_file_def eq io get_loop_agree[OF io(1)] ..
  have page: "get_page net fs2 stack uri p conn w = get_page net fs1 stack uri p conn w" for uri conn w
    by (rule page_lines_no_fs[OF eq(2)])
  show ?thesis unfolding handle_get_def Let_def Some option.case eq whole page ..
qed (simp add: handle_get_def)

lemma put_agree:
  assumes "agree root fs1 fs2"
  shows "handle_put net fs2 root conn w = handle_put net fs1 root conn w"
proof (cases "build_path root (hc_uri conn) FULL_PATH_MAX")
  case (Some p)
  note eq = agreeD[OF assms build_path_inside(1)[OF Some]] and io = agree_io[OF assms]
  have whole: "put_file net fs2 p conn w = put_file net fs1 p conn w" for conn w
    unfolding put_file_def eq io put_loop_agree[OF io(2)] ..
  show ?thesis unfolding handle_put_def Some option.case eq whole ..
qed (simp add: handle_put_def)

lemma delete_handler_agree:
  assumes "agree root fs1 fs2" "names_fit root fs1"
  shows "handle_delete net fs2 root conn w = handle_delete net fs1 root conn w"
proof (cases "build_path root (hc_uri conn) FULL_PATH_MAX")
  case (Some p)
  note b = build_path_inside[OF Some] and eq = agreeD[OF assms(1) build_path_inside(1)[OF Some]]
  show ?thesis unfolding handle_delete_def Some option.case eq delete_agree[OF assms b(1,2)] ..
qed (simp add: handle_delete_def)

lemma move_agree:
  assumes "agree root fs1 fs2"
  shows "handle_move net fs2 root conn w = handle_move net fs1 root conn w"
proof (cases "build_path root (hc_uri conn) FULL_PATH_MAX")
  case (Some p)
  note ren = agreeD(8)[OF assms build_path_inside(1)[OF Some]]
  show ?thesis
    unfolding handle_move_def Some option.case
    by (auto simp: ren[OF build_path_inside(1)] split: option.split)
qed (simp add: handle_move_def)

lemma mkcol_agree:
  assumes "agree root fs1 fs2"
  shows "handle_mkcol net fs2 root conn w = handle_mkcol net fs1 root conn w"
proof (cases "build_path root (hc_uri conn) FULL_PATH_MAX")
  case (Some p)
  note eq = agreeD[OF assms build_path_inside(1)[OF Some]]
  show ?thesis unfolding handle_mkcol_def Some option.case eq ..
qed (simp add: handle_mkcol_def)


section \<open>What a PUT leaves on the disk\<close>

text \<open>What sockets keep: any part of the world that a socket call does not touch.\<close>

definition net_keeps :: "'w net \<Rightarrow> ('w \<Rightarrow> 'a) \<Rightarrow> bool" where
  "net_keeps net f \<longleftrightarrow>
     (\<forall>t w. f (snd (net_select net t w)) = f w) \<and> (\<forall>n w. f (snd (net_recv net n w)) = f w) \<and>
     (\<forall>xs w. f (snd (net_send net xs w)) = f w)"

lemma keepsD:
  assumes "net_keeps net f"
  shows "net_select net t w = (s, w') \<Longrightarrow> f w' = f w" "net_recv net n w = (r, w') \<Longrightarrow> f w' = f w"
    "net_send net xs w = (d, w') \<Longrightarrow> f w' = f w"
proof -
  have "\<forall>t w. f (snd (net_select net t w)) = f w" "\<forall>n w. f (snd (net_recv net n w)) = f w"
    "\<forall>xs w. f (snd (net_send net xs w)) = f w"
    using assms by (simp_all add: net_keeps_def)
  from this(1)[THEN spec, of t, THEN spec, of w] this(2)[THEN spec, of n, THEN spec, of w]
    this(3)[THEN spec, of xs, THEN spec, of w]
  show "net_select net t w = (s, w') \<Longrightarrow> f w' = f w" "net_recv net n w = (r, w') \<Longrightarrow> f w' = f w"
    "net_send net xs w = (d, w') \<Longrightarrow> f w' = f w" by simp_all
qed

lemma wait_keeps:
  assumes "net_keeps net f" "wait_readable net t w = (k, w')"
  shows "f w' = f w"
proof -
  obtain s w1 where s: "net_select net t w = (s, w1)" by (metis surj_pair)
  then have "w' = w1" using assms(2) by (cases s) (simp_all add: wait_readable_def)
  then show ?thesis using keepsD(1)[OF assms(1) s] by simp
qed

lemma recv_loop_keeps:
  assumes "net_keeps net f"
  shows "f (snd (sock_recv_loop net len budget waited w)) = f w"
proof (induction "nat (budget - waited)" arbitrary: waited w rule: less_induct)
  case less
  have meas: "nat (budget - (waited + POLL_SLICE_MS)) < nat (budget - waited)" if "waited < budget"
    using that by (simp add: POLL_SLICE_MS_def)
  show ?case
    using wait_keeps[OF assms, of POLL_SLICE_MS w] keepsD(2)[OF assms, of len] less[OF meas]
    by (subst sock_recv_loop.simps) (auto simp: Let_def split: prod.splits recv_result.splits)
qed

lemma http_recv_keeps: "net_keeps net f \<Longrightarrow> http_recv net c len w = (r, c', w') \<Longrightarrow> f w' = f w"
  using recv_loop_keeps[of net f]
  by (auto simp: http_recv_def Let_def sock_recv_def sock_recv_to_def split: if_splits prod.splits recv_out.splits)
    (metis snd_conv)+

lemma http_recv_count:
  "http_recv net c len w = (Got xs, c', w') \<Longrightarrow> hc_body_read c' = hc_body_read c + length xs"
  by (auto simp: http_recv_def Let_def split: if_splits prod.splits recv_out.splits)

lemma send_all_keeps:
  assumes "net_keeps net f"
  shows "send_all net c xs w = (ok, c', w') \<Longrightarrow>
    f w' = f w \<and> (c' = c \<or> c' = c\<lparr> hc_peer_gone := True \<rparr>)"
proof (induction "length xs" arbitrary: xs w rule: less_induct)
  case less
  consider "xs = []" | "xs \<noteq> []" "hc_peer_gone c \<or> net_stop_req net w"
    | "xs \<noteq> []" "\<not> hc_peer_gone c" "\<not> net_stop_req net w" by blast
  then show ?case
  proof cases
    case 3
    obtain r w1 where r: "net_send net xs w = (r, w1)" by (metis surj_pair)
    have f: "f w1 = f w" by (rule keepsD(3)[OF assms r])
    have rest: "f w' = f w1 \<and> (c' = c \<or> c' = c\<lparr> hc_peer_gone := True \<rparr>)"
      if "n > 0" "send_all net c (drop n xs) w1 = (ok, c', w')" for n
      using less.hyps[OF _ that(2)] that(1) 3(1) by simp
    show ?thesis
      using less.prems rest f unfolding send_all_step[OF 3 r]
      by (auto split: send_result.splits if_splits)
  next
    case 1
    then show ?thesis using less.prems by simp
  next
    case 2
    then show ?thesis using less.prems unfolding send_all_gone[OF 2] by simp
  qed
qed

lemma start_response_keeps:
  assumes "net_keeps net f" "start_response net c cl w = (ok, c', w')"
  shows "f w' = f w \<and> hc_status c' = hc_status c"
proof -
  have k: "f v' = f v \<and> hc_status d' = hc_status d" if "send_all net d xs v = (b, d', v')" for d xs v b d' v'
    using send_all_keeps[OF assms(1) that] by auto
  show ?thesis
    using assms(2) unfolding start_response_def Let_def
    by (auto split: prod.splits if_splits dest!: k)
qed

lemma resp_send_keeps:
  assumes "net_keeps net f" "resp_send net c body w = (ok, c', w')"
  shows "f w' = f w \<and> hc_status c' = hc_status c"
proof -
  have k: "f v' = f v \<and> hc_status d' = hc_status d" if "send_all net d xs v = (b, d', v')" for d xs v b d' v'
    using send_all_keeps[OF assms(1) that] by auto
  show ?thesis
    using assms(2) unfolding resp_send_def Let_def
    by (auto split: prod.splits if_splits dest!: k start_response_keeps[OF assms(1)])
qed

lemma set_hdr_status [simp]: "hc_status (resp_set_hdr n v c) = hc_status c" "hc_status (resp_set_type t c) = hc_status c"
  by (simp_all add: resp_set_type_def resp_set_hdr_def Let_def)

lemma answer_keeps:
  assumes "net_keeps net f"
  shows "answer_status net st c w = Some (c', w') \<Longrightarrow> f w' = f w \<and> hc_status c' = take 39 st"
    "answer_err net st msg c w = Some (c', w') \<Longrightarrow> hc_status c' = (if hc_resp_started c then hc_status c else take 39 st)"
    "deny_auth net c w = Some (c', w') \<Longrightarrow> hc_status c' = take 39 HTTP_401"
  by (auto simp: answer_status_def answer_err_def deny_auth_def resp_send_err_def resp_set_status_def Let_def
      split: prod.splits if_splits dest!: resp_send_keeps[OF assms])

text \<open>A disk: files with their content and open descriptors with the path they were opened for.
  Calls of the file system leave the socket's input alone and socket calls leave the disk alone;
  a file opened for writing is empty, a write that succeeds appends.\<close>

type_synonym disk = "(string \<rightharpoonup> string) \<times> (nat \<rightharpoonup> string)"

definition disk_ok :: "'w net \<Rightarrow> 'w fs \<Rightarrow> ('w \<Rightarrow> string) \<Rightarrow> ('w \<Rightarrow> disk) \<Rightarrow> bool" where
  "disk_ok net fs inp dsk \<longleftrightarrow>
     net_keeps net dsk \<and>
     (\<forall>p w. inp (snd (fs_stat fs p w)) = inp w \<and> dsk (snd (fs_stat fs p w)) = dsk w) \<and>
     (\<forall>p w. inp (snd (fs_open_write fs p w)) = inp w \<and>
        (case fst (fs_open_write fs p w) of
           None \<Rightarrow> True
         | Some fd \<Rightarrow> dsk (snd (fs_open_write fs p w)) = ((fst (dsk w))(p \<mapsto> []), (snd (dsk w))(fd \<mapsto> p)))) \<and>
     (\<forall>fd xs w. inp (snd (fs_write fs fd xs w)) = inp w \<and>
        (fst (fs_write fs fd xs w) \<longrightarrow>
           (\<forall>p old. snd (dsk w) fd = Some p \<and> fst (dsk w) p = Some old \<longrightarrow>
              dsk (snd (fs_write fs fd xs w)) = ((fst (dsk w))(p \<mapsto> old @ xs), snd (dsk w))))) \<and>
     (\<forall>fd w. fst (dsk (fs_close fs fd w)) = fst (dsk w))"

lemma disk_okD:
  assumes "disk_ok net fs inp dsk"
  shows "net_keeps net dsk"
    "fs_stat fs p w = (st, w') \<Longrightarrow> inp w' = inp w \<and> dsk w' = dsk w"
    "fs_open_write fs p w = (Some fd, w') \<Longrightarrow>
       inp w' = inp w \<and> dsk w' = ((fst (dsk w))(p \<mapsto> []), (snd (dsk w))(fd \<mapsto> p))"
    "fs_write fs fd xs w = (True, w') \<Longrightarrow> snd (dsk w) fd = Some p \<Longrightarrow> fst (dsk w) p = Some old \<Longrightarrow>
       inp w' = inp w \<and> dsk w' = ((fst (dsk w))(p \<mapsto> old @ xs), snd (dsk w))"
    "fst (dsk (fs_close fs fd w)) = fst (dsk w)"
proof -
  have all: "net_keeps net dsk"
    "\<forall>p w. inp (snd (fs_stat fs p w)) = inp w \<and> dsk (snd (fs_stat fs p w)) = dsk w"
    "\<forall>p w. inp (snd (fs_open_write fs p w)) = inp w \<and>
        (case fst (fs_open_write fs p w) of
           None \<Rightarrow> True
         | Some fd \<Rightarrow> dsk (snd (fs_open_write fs p w)) = ((fst (dsk w))(p \<mapsto> []), (snd (dsk w))(fd \<mapsto> p)))"
    "\<forall>fd xs w. inp (snd (fs_write fs fd xs w)) = inp w \<and>
        (fst (fs_write fs fd xs w) \<longrightarrow>
           (\<forall>p old. snd (dsk w) fd = Some p \<and> fst (dsk w) p = Some old \<longrightarrow>
              dsk (snd (fs_write fs fd xs w)) = ((fst (dsk w))(p \<mapsto> old @ xs), snd (dsk w))))"
    "\<forall>fd w. fst (dsk (fs_close fs fd w)) = fst (dsk w)"
    using assms unfolding disk_ok_def by - (elim conjE; assumption)+
  show "net_keeps net dsk" by (rule all(1))
  show "fs_stat fs p w = (st, w') \<Longrightarrow> inp w' = inp w \<and> dsk w' = dsk w"
    using all(2)[THEN spec, of p, THEN spec, of w] by simp
  show "fs_open_write fs p w = (Some fd, w') \<Longrightarrow>
       inp w' = inp w \<and> dsk w' = ((fst (dsk w))(p \<mapsto> []), (snd (dsk w))(fd \<mapsto> p))"
    using all(3)[THEN spec, of p, THEN spec, of w] by simp
  show "fs_write fs fd xs w = (True, w') \<Longrightarrow> snd (dsk w) fd = Some p \<Longrightarrow> fst (dsk w) p = Some old \<Longrightarrow>
       inp w' = inp w \<and> dsk w' = ((fst (dsk w))(p \<mapsto> old @ xs), snd (dsk w))"
    using all(4)[THEN spec, of fd, THEN spec, of xs, THEN spec, of w] by simp
  show "fst (dsk (fs_close fs fd w)) = fst (dsk w)" using all(5) by simp
qed

lemma put_loop_stores:
  assumes "put_loop net fs fd n c w = Some r" "net_ok net inp out" "disk_ok net fs inp dsk"
    and "body_ok c" "n = hc_content_len c - hc_body_read c"
    and "snd (dsk w) fd = Some p" "fst (dsk w) p = Some old"
  shows "case r of (recv_err, write_err, c', w') \<Rightarrow>
    hc_status c' = hc_status c \<and> hc_resp_started c' = hc_resp_started c \<and>
    (\<not> recv_err \<and> \<not> write_err \<longrightarrow>
       fst (dsk w') = (fst (dsk w))(p \<mapsto> old @ body_left inp c w) \<and> length (body_left inp c w) = n)"
  using assms
proof (induction arbitrary: old rule: put_loop.raw_induct[rotated 1, consumes 1])
  case (1 self net fs fd n c w r)
  note IH = 1(1) and body = 1(2) and net = 1(3) and dk = 1(4) and ok = 1(5) and n = 1(6) and op = 1(7,8)
  show ?case
  proof (cases "n = 0")
    case True
    then have "r = (False, False, c, w)" using body by simp
    moreover have "(fst (dsk w))(p \<mapsto> old) = fst (dsk w)" using op(2) by auto
    ultimately show ?thesis using True n by (simp add: body_left_def)
  next
    case False
    obtain g c1 w1 where g: "http_recv net c (min n (hc_io_size c)) w = (g, c1, w1)" by (metis prod_cases3)
    note rv = http_recv_ok[OF net ok g]
    have d1: "dsk w1 = dsk w" by (rule http_recv_keeps[OF disk_okD(1)[OF dk] g])
    have same: "hc_status c1 = hc_status c" "hc_resp_started c1 = hc_resp_started c"
      using arg_cong[OF rv(4), of hc_status] arg_cong[OF rv(4), of hc_resp_started] by simp_all
    show ?thesis
    proof (cases g)
      case Got_Closed
      then have "r = (True, False, c1, w1)" using body False g by simp
      then show ?thesis using same by simp
    next
      case Got_Timeout
      then have call: "self net fs fd n c1 w1 = Some r" using body False g by simp
      have left: "body_left inp c1 w1 = body_left inp c w" using rv(5) Got_Timeout by simp
      have "hc_body_read c1 = hc_body_read c"
        using g Got_Timeout by (auto simp: http_recv_def Let_def split: if_splits prod.splits recv_out.splits)
      then have n1: "n = hc_content_len c1 - hc_body_read c1" using n rv(3) by simp
      show ?thesis
        using IH[OF call net dk rv(1) n1 op[folded d1]] by (simp add: d1 left same split: prod.splits)
    next
      case (Got xs)
      have len: "length xs \<le> n" and left: "body_left inp c w = xs @ body_left inp c1 w1"
        using rv(5) Got by simp_all
      have n1: "n - length xs = hc_content_len c1 - hc_body_read c1"
        using n rv(3) http_recv_count[of net c _ w xs c1 w1] g Got by simp
      obtain b w2 where wr: "fs_write fs fd xs w1 = (b, w2)" by (metis surj_pair)
      show ?thesis
      proof (cases b)
        case False
        then have "r = (False, True, c1, w2)" using body \<open>n \<noteq> 0\<close> g Got wr by simp
        then show ?thesis using same by simp
      next
        case True
        then have call: "self net fs fd (n - length xs) c1 w2 = Some r" using body \<open>n \<noteq> 0\<close> g Got wr by simp
        have wt: "fs_write fs fd xs w1 = (True, w2)" using wr True by simp
        have w2: "inp w2 = inp w1" "dsk w2 = ((fst (dsk w))(p \<mapsto> old @ xs), snd (dsk w))"
          using disk_okD(4)[OF dk wt, unfolded d1, OF op] by simp_all
        have op2: "snd (dsk w2) fd = Some p" "fst (dsk w2) p = Some (old @ xs)" using op w2(2) by simp_all
        have same_left: "body_left inp c1 w2 = body_left inp c1 w1" by (simp add: body_left_def w2(1))
        have upd: "(fst (dsk w2))(p \<mapsto> z) = (fst (dsk w))(p \<mapsto> z)" for z by (simp add: w2(2))
        show ?thesis
          using IH[OF call net dk rv(1) n1 op2] len
          by (simp add: upd left same same_left split: prod.splits)
      qed
    qed
  qed
qed

text \<open>What the handler does when it ends with 201.\<close>

lemma put_file_stores:
  assumes net: "net_ok net inp out" and dk: "disk_ok net fs inp dsk"
    and c: "body_ok c" "hc_body_read c = 0" "hc_status c \<noteq> HTTP_201" "\<not> hc_resp_started c"
    and run: "put_file net fs p c w = Some (c', w')" and st: "hc_status c' = HTTP_201"
  shows "fst (dsk w') = (fst (dsk w))(p \<mapsto> body_left inp c w) \<and> length (body_left inp c w) = hc_content_len c"
proof -
  note keeps = disk_okD(1)[OF dk]
  have err: False if "answer_err net s m d v = Some (c', w')" "\<not> hc_resp_started d" "take 39 s \<noteq> HTTP_201" for s m d v
    using answer_keeps(2)[OF keeps that(1)] that(2,3) st by simp
  note codes = HTTP_400_def HTTP_500_def HTTP_201_def
  obtain fdo w1 where fdo: "fs_open_write fs p w = (fdo, w1)" by (metis surj_pair)
  show ?thesis
  proof (cases fdo)
    case None
    then have "answer_err net HTTP_500 ''Cannot create file'' c w1 = Some (c', w')"
      using run fdo by (simp add: put_file_def)
    then have False using c(4) by (rule err) (simp add: codes)
    then show ?thesis ..
  next
    case (Some fd)
    note op = disk_okD(3)[OF dk fdo[unfolded Some]]
    obtain r where r: "put_loop net fs fd (hc_content_len c) c w1 = Some r"
      using run fdo Some by (cases "put_loop net fs fd (hc_content_len c) c w1") (simp_all add: put_file_def)
    obtain re we d w2 where rr: "r = (re, we, d, w2)" by (metis prod_cases4)
    have "hc_content_len c = hc_content_len c - hc_body_read c" "snd (dsk w1) fd = Some p" "fst (dsk w1) p = Some []"
      using c(2) op by simp_all
    note loop = put_loop_stores[OF r net dk c(1) this]
    have d: "hc_status d = hc_status c" "\<not> hc_resp_started d" using loop c(4) by (simp_all add: rr)
    let ?w3 = "fs_close fs fd w2"
    have "\<not> re"
    proof
      assume re
      then obtain v where "answer_err net HTTP_400 ''Receive error'' (resp_close_conn d) v = Some (c', w')"
        using run fdo Some r rr by (auto simp: put_file_def Let_def)
      then show False by (rule err) (use d in \<open>simp_all add: resp_close_conn_def codes\<close>)
    qed
    moreover have "\<not> we"
    proof
      assume we
      then obtain v where "answer_err net HTTP_500 ''Write error'' d v = Some (c', w')"
        using \<open>\<not> re\<close> run fdo Some r rr by (auto simp: put_file_def Let_def)
      then show False using d(2) by (rule err) (simp add: codes)
    qed
    ultimately have fin: "answer_status net HTTP_201 d ?w3 = Some (c', w')"
      using run fdo Some r rr by (simp add: put_file_def Let_def)
    have "dsk w' = dsk ?w3" using answer_keeps(1)[OF keeps fin] by simp
    moreover have "fst (dsk ?w3) = fst (dsk w2)" by (rule disk_okD(5)[OF dk])
    moreover have "body_left inp c w1 = body_left inp c w" using op by (simp add: body_left_def)
    ultimately show ?thesis using loop \<open>\<not> re\<close> \<open>\<not> we\<close> op by (simp add: rr)
  qed
qed

lemma reset_fields [simp]:
  "hc_status (reset_response c) = HTTP_200" "\<not> hc_resp_started (reset_response c)"
  "hc_method (reset_response c) = hc_method c" "hc_uri (reset_response c) = hc_uri c"
  "hc_hdr (reset_response c) = hc_hdr c" "hc_content_len (reset_response c) = hc_content_len c"
  "hc_body_read (reset_response c) = hc_body_read c" "hc_body_pre (reset_response c) = hc_body_pre c"
  by (simp_all add: reset_response_def)

lemma http_codes: "take 39 HTTP_400 \<noteq> HTTP_201" "take 39 HTTP_401 \<noteq> HTTP_201" "take 39 HTTP_500 \<noteq> HTTP_201"
  "HTTP_200 \<noteq> HTTP_201"
  by (simp_all add: HTTP_200_def HTTP_201_def HTTP_400_def HTTP_401_def HTTP_500_def)

text \<open>C27: A file that the server says it has created holds what the client declared: when the
  answer to a PUT is 201, the URI names a path inside the root, that file - and no other - has
  changed, and it holds exactly the bytes of the request's body, as many as its length says,
  whatever pieces they arrived in and whether the client waited for the interim answer or not.\<close>

theorem webdav_put_stores:
  assumes net: "net_ok net inp out" and dk: "disk_ok net fs inp dsk"
    and c: "hc_method c = ''PUT''" "body_ok c" "hc_body_read c = 0"
    and run: "webdav_dispatch net fs stack srv (reset_response c) w = Some (c', w')"
    and st: "hc_status c' = HTTP_201"
  shows "\<exists>p. build_path (s_sd_root srv) (hc_uri c) FULL_PATH_MAX = Some p \<and>
     fst (dsk w') = (fst (dsk w))(p \<mapsto> body_left inp c w) \<and> length (body_left inp c w) = hc_content_len c"
proof -
  let ?c = "reset_response c"
  note keeps = disk_okD(1)[OF dk]
  have auth: "check_auth (s_password srv) ?c"
  proof (rule ccontr)
    assume "\<not> check_auth (s_password srv) ?c"
    then have "deny_auth net ?c w = Some (c', w')" using run c(1) by (simp add: webdav_dispatch_def)
    then show False using answer_keeps(3)[OF keeps] st http_codes(2) by simp
  qed
  have hp: "handle_put net fs (s_sd_root srv) ?c w = Some (c', w')"
    using run c(1) auth by (simp add: webdav_dispatch_def)
  have err: False if "answer_err net HTTP_400 m ?c v = Some (c', w')" for m v
    using answer_keeps(2)[OF keeps that] st http_codes(1) by simp
  obtain p where p: "build_path (s_sd_root srv) (hc_uri c) FULL_PATH_MAX = Some p"
    using hp err by (cases "build_path (s_sd_root srv) (hc_uri c) FULL_PATH_MAX") (auto simp: handle_put_def)
  obtain so w1 where so: "fs_stat fs p w = (so, w1)" by (metis surj_pair)
  have w1: "inp w1 = inp w" "dsk w1 = dsk w" using disk_okD(2)[OF dk so] by simp_all
  obtain b d w2 where cont: "(if expects_continue ?c then http_send_continue net ?c w1 else (True, ?c, w1)) = (b, d, w2)"
    by (metis prod_cases3)
  have d: "inp w2 = inp w1 \<and> dsk w2 = dsk w1 \<and> (d = ?c \<or> d = ?c\<lparr> hc_peer_gone := True \<rparr>)"
  proof (cases "expects_continue ?c")
    case True
    then have s: "send_all net ?c (''HTTP/1.1 100 Continue'' @ crlf @ crlf) w1 = (b, d, w2)"
      using cont by (simp add: http_send_continue_def)
    show ?thesis using send_all_keeps[OF keeps s] send_okD(1)[OF net s] by simp
  qed (use cont in simp)
  have "put_file net fs p d w2 = Some (c', w')"
    using hp p so cont err by (auto simp: handle_put_def split: if_splits)
  note stores = put_file_stores[OF net dk _ _ _ _ this st]
  have left: "body_left inp d w2 = body_left inp c w" using d w1 by (auto simp: body_left_def)
  have fields: "body_ok d" "hc_body_read d = 0" "hc_status d \<noteq> HTTP_201" "\<not> hc_resp_started d"
    "hc_content_len d = hc_content_len c"
    using d c(2,3) http_codes(4) by (auto simp: body_ok_def)
  show ?thesis using stores[OF fields(1-4)] p left d w1 fields(5) by simp
qed

text \<open>A disk and a socket to try the handlers on: the socket takes everything, the disk has
  files only.\<close>

type_synonym disk_world = "(string \<times> string) \<times> disk"

definition disk_net :: "disk_world net" where
  "disk_net =
     \<lparr> net_stop_req = (\<lambda>w. False), net_select = (\<lambda>t w. (Sel_Ready, w)),
       net_recv = (\<lambda>n ((i, ob), d). if i = [] then (Rv_Eof, (i, ob), d) else (Rv_Data (take n i), (drop n i, ob), d)),
       net_send = (\<lambda>xs ((i, ob), d). (Sd_Sent (length xs), (i, ob @ xs), d)),
       net_recv_timeout_s = 30 \<rparr>"

definition disk_fs :: "disk_world fs" where
  "disk_fs =
     \<lparr> fs_stat = (\<lambda>p (s, f, h). (map_option (\<lambda>x. (False, length x)) (f p), s, f, h)),
       fs_list = (\<lambda>p w. (if p = ''/sd'' then Some [''.'', ''a''] else None, w)),
       fs_unlink = (\<lambda>p (s, f, h). (f p \<noteq> None, s, f(p := None), h)),
       fs_rmdir = (\<lambda>p w. (False, w)),
       fs_mkdir = (\<lambda>p w. (False, w)),
       fs_rename = (\<lambda>p q (s, f, h). (f p \<noteq> None, s, f(q := f p, p := None), h)),
       fs_open_read = (\<lambda>p (s, f, h). (map_option (\<lambda>x. 4) (f p), s, f, h(4 \<mapsto> p))),
       fs_open_write = (\<lambda>p (s, f, h). (Some 3, s, f(p \<mapsto> []), h(3 \<mapsto> p))),
       fs_read = (\<lambda>fd n w. ([], w)),
       fs_write = (\<lambda>fd xs (s, f, h).
          case h fd of
            None \<Rightarrow> (False, s, f, h)
          | Some p \<Rightarrow> (True, s, f(p := map_option (\<lambda>old. old @ xs) (f p)), h)),
       fs_close = (\<lambda>fd (s, f, h). (s, f, h(fd := None))) \<rparr>"

lemma disk_net_ok: "net_ok disk_net (fst \<circ> fst) (snd \<circ> fst)"
  by (auto simp: net_ok_def disk_net_def)

lemma disk_fs_ok: "disk_ok disk_net disk_fs (fst \<circ> fst) snd"
  by (auto simp: disk_ok_def net_keeps_def disk_net_def disk_fs_def split: option.splits)

lemma disk_net_sends: "\<not> hc_peer_gone c \<Longrightarrow> send_all disk_net c xs ((i, ob), d) = (True, c, (i, ob @ xs), d)"
  by (subst send_all.simps) (simp add: disk_net_def)

lemma disk_starts:
  assumes "\<not> hc_peer_gone c"
  shows "\<exists>w'. start_response disk_net c (Some n) w = (True, started c (Some n), w')"
proof -
  obtain i ob d where w: "w = ((i, ob), d)" by (metis surj_pair)
  show ?thesis
    using assms
    by (cases "hc_resp_hdr c = []")
      (simp_all add: w start_response_def disk_net_sends started_def stays_open_def Let_def)
qed

lemma disk_status:
  assumes "\<not> hc_peer_gone c" "\<not> hc_resp_started c"
  shows "\<exists>c' w'. answer_status disk_net st c w = Some (c', w') \<and> hc_status c' = take 39 st"
proof -
  let ?c = "resp_set_status st c"
  obtain w' where "start_response disk_net ?c (Some 0) w = (True, started ?c (Some 0), w')"
    using disk_starts[of ?c 0 w] assms by (auto simp: resp_set_status_def)
  then have "answer_status disk_net st c w = Some ((started ?c (Some 0))\<lparr> hc_resp_done := True \<rparr>, w')"
    using assms by (simp add: answer_status_def resp_send_def resp_set_status_def)
  moreover have "hc_status ((started ?c (Some 0))\<lparr> hc_resp_done := True \<rparr>) = take 39 st"
    by (simp add: started_def resp_set_status_def)
  ultimately show ?thesis by blast
qed

definition disk_server :: fileserver where
  "disk_server = fileserver_boot\<lparr> s_initialized := True, s_state := Fs_RUNNING, s_sd_root := ''/sd'',
     s_password := ''pw'' \<rparr>"

definition disk_put :: http_conn where
  "disk_put = idle_conn\<lparr> hc_method := ''PUT'', hc_uri := ''/a'', hc_content_len := 3, hc_body_pre := ''abc'',
     hc_hdr := [(''Authorization'', basic_auth ''jppd:pw'')] \<rparr>"

definition disk_empty :: disk_world where
  "disk_empty = (([], []), (\<lambda>p. None), (\<lambda>fd. None))"

lemma strcasecmp_length: "length a \<noteq> length b \<Longrightarrow> \<not> strcasecmp_eq a b"
  unfolding strcasecmp_eq_def by (metis length_map)

lemma disk_put_answer:
  "\<exists>c' w'. webdav_dispatch disk_net disk_fs (\<lambda>n. []) disk_server (reset_response disk_put) disk_empty = Some (c', w') \<and>
     hc_status c' = HTTP_201"
proof -
  let ?c = "reset_response disk_put"
  let ?d = "?c\<lparr> hc_body_pre := [], hc_body_read := Suc (Suc (Suc 0)) \<rparr>"
  have hdr: "http_header ?c ''Authorization'' = Some (basic_auth ''jppd:pw'')"
    by (simp add: http_header_def disk_put_def)
  have "length ''pw'' \<le> FILESERVER_PASS_MAX" "NUL \<notin> set ''jppd:pw''"
    by (simp_all add: FILESERVER_PASS_MAX_def NUL_def)
  from check_auth_basic[OF this hdr] have auth: "check_auth ''pw'' ?c" by simp
  have "\<not> expects_continue ?c"
    by (simp add: expects_continue_def http_header_def disk_put_def strcasecmp_length)
  moreover have "build_path ''/sd'' ''/a'' FULL_PATH_MAX = Some ''/sd/a''"
    by (simp add: build_path_def path_is_safe_def FULL_PATH_MAX_def)
  moreover have "put_file disk_net disk_fs ''/sd/a'' ?c disk_empty =
      answer_status disk_net HTTP_201 ?d (([], []), [''/sd/a'' \<mapsto> ''abc''], (\<lambda>fd. None))"
    by (simp add: put_file_def disk_fs_def disk_empty_def put_loop.simps http_recv_def Let_def disk_put_def
        idle_conn_def reset_response_def fun_upd_idem)
  moreover have "\<exists>c' w'. answer_status disk_net HTTP_201 ?d v = Some (c', w') \<and> hc_status c' = take 39 HTTP_201" for v
    by (rule disk_status) (simp_all add: disk_put_def idle_conn_def reset_response_def)
  moreover have "fs_stat disk_fs ''/sd/a'' disk_empty = (None, disk_empty)"
    by (simp add: disk_fs_def disk_empty_def)
  ultimately show ?thesis
    using auth by (simp add: webdav_dispatch_def handle_put_def disk_server_def disk_put_def HTTP_201_def)
qed

theorem webdav_put_stores_witness:
  "\<exists>c' w'. webdav_dispatch disk_net disk_fs (\<lambda>n. []) disk_server (reset_response disk_put) disk_empty = Some (c', w') \<and>
     fst (snd w') = [''/sd/a'' \<mapsto> ''abc'']"
proof -
  obtain c' w' where run: "webdav_dispatch disk_net disk_fs (\<lambda>n. []) disk_server (reset_response disk_put) disk_empty = Some (c', w')"
    and st: "hc_status c' = HTTP_201"
    using disk_put_answer by blast
  have c: "hc_method disk_put = ''PUT''" "body_ok disk_put" "hc_body_read disk_put = 0"
    by (simp_all add: disk_put_def idle_conn_def body_ok_def)
  have path: "build_path (s_sd_root disk_server) (hc_uri disk_put) FULL_PATH_MAX = Some ''/sd/a''"
    by (simp add: build_path_def path_is_safe_def FULL_PATH_MAX_def disk_server_def disk_put_def)
  have "fst (snd w') = (fst (snd disk_empty))(''/sd/a'' \<mapsto> body_left (fst \<circ> fst) disk_put disk_empty)"
    using webdav_put_stores[OF disk_net_ok disk_fs_ok c run st] path by auto
  moreover have "fst (snd disk_empty) = (\<lambda>p. None)" "body_left (fst \<circ> fst) disk_put disk_empty = ''abc''"
    by (simp_all add: disk_empty_def body_left_def disk_put_def idle_conn_def)
  ultimately show ?thesis using run by simp
qed


section \<open>Starting and stopping\<close>

text \<open>The file server and the HTTP server it shares with the verification screen, under every
  order of calls; the screen stops the HTTP server only when it has started it itself. The pool
  is whatever it is at each call.\<close>

inductive service_reach :: "fileserver \<Rightarrow> http_srv \<Rightarrow> bool" where
  boot: "service_reach fileserver_boot (srv_cleared [])"
| init: "service_reach s srv \<Longrightarrow> fileserver_init cfg s = (r, s') \<Longrightarrow> service_reach s' srv"
| start: "service_reach s srv \<Longrightarrow> fileserver_start rnd pf s srv pool = (r, s', srv', pool') \<Longrightarrow> service_reach s' srv'"
| start_with: "service_reach s srv \<Longrightarrow> fileserver_start_with_password rnd pf pw s srv pool = (r, s', srv', pool') \<Longrightarrow>
    service_reach s' srv'"
| stop: "service_reach s srv \<Longrightarrow> fileserver_stop exited s srv pool = (r, s', srv', pool') \<Longrightarrow> service_reach s' srv'"
| screen_start: "service_reach s srv \<Longrightarrow>
    http_server_start tcb_size conn_size opened created cfg srv pool = (rc, srv', pool') \<Longrightarrow> service_reach s srv'"
| screen_stop: "service_reach s srv \<Longrightarrow> s_state s \<noteq> Fs_RUNNING \<Longrightarrow>
    http_server_stop exited srv pool = (rc, srv', pool') \<Longrightarrow> service_reach s srv'"

definition service_ok :: "fileserver \<Rightarrow> http_srv \<Rightarrow> bool" where
  "service_ok s srv \<longleftrightarrow>
     (if s_state s = Fs_RUNNING
      then s_initialized s \<and> http_server_owner srv = Some ''webdav'' \<and>
           s_password s \<noteq> [] \<and> length (s_password s) \<le> FILESERVER_PASS_MAX
      else s_password s = [])"

lemma generated_password: "generate_password rnd \<noteq> []" "length (generate_password rnd) \<le> FILESERVER_PASS_MAX"
  by (simp_all add: generate_password_def FILESERVER_PASS_LEN_def FILESERVER_PASS_MAX_def)

lemma http_start_running:
  "http_server_start tcb_size conn_size opened created cfg srv pool = (rc, srv', pool') \<Longrightarrow> sv_running srv \<Longrightarrow>
     srv' = srv \<and> rc \<noteq> Http_OK"
  by (auto simp: http_server_start_def split: option.splits if_splits)

lemma http_start_owner:
  "http_server_start tcb_size conn_size opened created (Some cf) srv pool = (Http_OK, srv', pool') \<Longrightarrow>
     cf_owner cf = Some ow \<Longrightarrow> http_server_owner srv' = Some (take 15 ow)"
  by (auto simp: http_server_start_def http_server_owner_def srv_cleared_def Let_def split: option.splits if_splits prod.splits)

lemma impl_ok:
  assumes "start_server_impl pf s srv pool = (r, s', srv', pool')" "s_initialized s"
    "s_password s \<noteq> []" "length (s_password s) \<le> FILESERVER_PASS_MAX"
  shows "service_ok s' srv'"
proof -
  obtain tcb_size conn_size opened created where pf: "pf = (tcb_size, conn_size, opened, created)" by (metis prod_cases4)
  let ?cf = "\<lparr> cf_owner = Some ''webdav'', cf_port = s_port s, cf_stack_bytes = WEBDAV_STACK_BYTES, cf_has_handler = True \<rparr>"
  obtain rc srv1 pool1 where st: "http_server_start tcb_size conn_size opened created (Some ?cf) srv pool = (rc, srv1, pool1)"
    by (metis prod_cases3)
  show ?thesis
  proof (cases "rc = Http_OK")
    case True
    have "http_server_owner srv1 = Some ''webdav''" using http_start_owner[of _ _ _ _ ?cf] st True by fastforce
    then show ?thesis using assms st True by (auto simp: start_server_impl_def pf service_ok_def)
  next
    case False
    then show ?thesis using assms st by (auto simp: start_server_impl_def pf service_ok_def)
  qed
qed

lemma service_reach_ok: "service_reach s srv \<Longrightarrow> service_ok s srv"
proof (induction rule: service_reach.induct)
  case boot
  show ?case by (simp add: service_ok_def fileserver_boot_def)
next
  case (init s srv cfg r s')
  then show ?case
    by (auto simp: fileserver_init_def service_ok_def Let_def split: if_splits)
next
  case (start s srv rnd pf pool r s' srv' pool')
  show ?case
  proof (cases "s_initialized s \<and> s_state s \<noteq> Fs_RUNNING")
    case True
    then have "start_server_impl pf (s\<lparr> s_password := generate_password rnd \<rparr>) srv pool = (r, s', srv', pool')"
      using start.hyps(2) by (simp add: fileserver_start_def)
    then show ?thesis by (rule impl_ok) (use True generated_password in simp_all)
  qed (use start in \<open>auto simp: fileserver_start_def split: if_splits\<close>)
next
  case (start_with s srv rnd pf pw pool r s' srv' pool')
  define word where "word = (case pw of Some p \<Rightarrow> if p = [] then generate_password rnd else take FILESERVER_PASS_MAX p
                   | None \<Rightarrow> generate_password rnd)"
  have word: "word \<noteq> []" "length word \<le> FILESERVER_PASS_MAX"
    using generated_password by (auto simp: word_def FILESERVER_PASS_MAX_def split: option.splits)
  show ?case
  proof (cases "s_initialized s \<and> s_state s \<noteq> Fs_RUNNING")
    case True
    then have "start_server_impl pf (s\<lparr> s_password := word \<rparr>) srv pool = (r, s', srv', pool')"
      using start_with.hyps(2) by (simp add: fileserver_start_with_password_def word_def)
    then show ?thesis by (rule impl_ok) (use True word in simp_all)
  qed (use start_with in \<open>auto simp: fileserver_start_with_password_def split: if_splits\<close>)
next
  case (stop s srv exited pool r s' srv' pool')
  then show ?case
    by (auto simp: fileserver_stop_def service_ok_def http_server_stop_def http_server_owner_def Let_def split: if_splits)
next
  case (screen_start s srv tcb_size conn_size opened created cfg pool rc srv' pool')
  then show ?case
    using http_start_running[OF screen_start.hyps(2)]
    by (auto simp: service_ok_def http_server_owner_def split: if_splits)
next
  case (screen_stop s srv exited pool rc srv' pool')
  then show ?case by (simp add: service_ok_def)
qed

text \<open>C28: Nobody gets in without the password, and the one shown does let in: in every reachable
  state in which the file server runs, the HTTP server is its own, its password is not empty,
  and a request with any credentials is let in exactly when they are the user "jppd" and this
  password - any other request but OPTIONS, also one without credentials, is answered by the
  denial alone and touches no file.\<close>

theorem webdav_login:
  assumes "service_reach s srv" "s_state s = Fs_RUNNING" "hc_method conn \<noteq> ''OPTIONS''"
  shows "http_server_owner srv = Some ''webdav'' \<and> s_password s \<noteq> [] \<and>
    (http_header conn ''Authorization'' = None \<longrightarrow>
       webdav_dispatch net fs stack s conn w = deny_auth net conn w) \<and>
    (\<forall>creds. NUL \<notin> set creds \<and> http_header conn ''Authorization'' = Some (basic_auth creds) \<longrightarrow>
       (check_auth (s_password s) conn \<longleftrightarrow> creds = ''jppd:'' @ s_password s) \<and>
       (creds \<noteq> ''jppd:'' @ s_password s \<longrightarrow> webdav_dispatch net fs stack s conn w = deny_auth net conn w))"
proof -
  have ok: "http_server_owner srv = Some ''webdav''" "s_password s \<noteq> []" "length (s_password s) \<le> FILESERVER_PASS_MAX"
    using service_reach_ok[OF assms(1)] assms(2) by (simp_all add: service_ok_def)
  have deny: "webdav_dispatch net fs stack s conn w = deny_auth net conn w" if "\<not> check_auth (s_password s) conn"
    using that assms(3) by (simp add: webdav_dispatch_def)
  have "\<not> check_auth (s_password s) conn" if "http_header conn ''Authorization'' = None"
    using that by (simp add: check_auth_def)
  then show ?thesis using ok deny check_auth_basic[OF ok(3)] by blast
qed

theorem webdav_login_witness:
  "\<exists>s. s_state s = Fs_RUNNING \<and> s_password s = ''pw'' \<and>
     check_auth (s_password s) disk_put \<and>
     webdav_dispatch disk_net disk_fs (\<lambda>n. []) s (disk_put\<lparr> hc_hdr := [] \<rparr>) disk_empty =
       deny_auth disk_net (disk_put\<lparr> hc_hdr := [] \<rparr>) disk_empty"
proof -
  let ?i = "snd (fileserver_init None fileserver_boot)"
  obtain r s srv pool where st: "fileserver_start_with_password [] (360, 200, True, True) (Some ''pw'') ?i
      (srv_cleared []) app_pool_boot = (r, s, srv, pool)"
    by (metis prod_cases4)
  have "service_reach ?i (srv_cleared [])" by (rule init[OF boot prod.collapse[symmetric]])
  from start_with[OF this st] have reach: "service_reach s srv" .
  have i: "?i = \<lparr> s_initialized = True, s_state = Fs_STOPPED, s_sd_root = ''/sd'', s_port = 80, s_password = [] \<rparr>"
    by (simp add: fileserver_init_def fileserver_boot_def fileserver_config_defaults_def Let_def
        FILESERVER_DEFAULT_PORT_def FILESERVER_DEFAULT_ROOT_def SD_ROOT_SIZE_def)
  have run: "s_state s = Fs_RUNNING" "s_password s = ''pw''"
    using st webdav_server_starts unfolding i
    by (auto simp: fileserver_start_with_password_def start_server_impl_def WEBDAV_STACK_BYTES_def
        FILESERVER_PASS_MAX_def Let_def split: prod.splits if_splits)
  have m: "hc_method disk_put \<noteq> ''OPTIONS''" "hc_method (disk_put\<lparr> hc_hdr := [] \<rparr>) \<noteq> ''OPTIONS''"
    "http_header (disk_put\<lparr> hc_hdr := [] \<rparr>) ''Authorization'' = None"
    "http_header disk_put ''Authorization'' = Some (basic_auth ''jppd:pw'')" "NUL \<notin> set ''jppd:pw''"
    by (simp_all add: disk_put_def http_header_def NUL_def)
  note inn = webdav_login[OF reach run(1) m(1), of disk_net disk_fs "\<lambda>n. []" disk_empty]
  note no_one = webdav_login[OF reach run(1) m(2), of disk_net disk_fs "\<lambda>n. []" disk_empty]
  have "check_auth (s_password s) disk_put" using inn m(4,5) run(2) by (metis append.simps)
  moreover have "webdav_dispatch disk_net disk_fs (\<lambda>n. []) s (disk_put\<lparr> hc_hdr := [] \<rparr>) disk_empty =
       deny_auth disk_net (disk_put\<lparr> hc_hdr := [] \<rparr>) disk_empty"
    using no_one m(3) by blast
  ultimately show ?thesis using run by blast
qed

section \<open>Lengths that pass the buffer\<close>

text \<open>The length that snprintf returns is sent as it is: for a name of 145 characters the line of
  the page is longer than its buffer, and the bytes behind the buffer are sent too.\<close>

lemma page_line_overreads:
  assumes "length name \<ge> 145"
  shows "\<exists>k. sent_buf stack 300 (page_line uri name) = take 299 (page_line uri name) @ [NUL] @ stack k"
proof -
  have "length (page_line uri name) \<ge> 300" using assms by (simp add: page_line_def)
  then show ?thesis by (auto simp: sent_buf_def)
qed

text \<open>A path cut to its buffer can name another file: the child of a long directory becomes its
  parent.\<close>

lemma child_path_cut:
  assumes "length p = 296"
  shows "child_path p ''..x'' = p @ ''/..''"
  using assms by (simp add: child_path_def FULL_PATH_MAX_def)

end
