(* ===== verification/Crypto.thy ===== *)
theory Crypto
  imports Base "HOL-Library.Word"
begin

unbundle bit_operations_syntax

text \<open>
  src/components/jpp_crypto_core: Ed25519 keys, the two-round multi-signature over them, AES-256
  in IGE mode and modular exponentiation. libsodium and mbedTLS are parameters: ed_lib has the
  hash, the scalar and point operations, mbed_lib the block cipher, the digests and the big
  numbers. A call that can fail returns an option. Buffers are lists of bytes, several keys or
  nonces one list that is read in blocks; a NULL pointer is None. The IGE loop works on an
  explicit memory, as the output may be the input buffer. Wiping of temporary buffers is left
  out.
\<close>

type_synonym bytes = "8 word list"

section \<open>Constants and status\<close>

definition PUBKEY_BYTES :: nat where "PUBKEY_BYTES = 32"
definition SECKEY_BYTES :: nat where "SECKEY_BYTES = 64"
definition SIG_BYTES :: nat where "SIG_BYTES = 64"
definition AES_BLOCK_BYTES :: nat where "AES_BLOCK_BYTES = 16"
definition MUSIG2_PUBNONCE_BYTES :: nat where "MUSIG2_PUBNONCE_BYTES = 64"
definition MUSIG2_PARTIAL_SIG_BYTES :: nat where "MUSIG2_PARTIAL_SIG_BYTES = 32"

datatype crypto_status = Crypto_OK | Crypto_ERR_INVALID_ARG | Crypto_ERR_INTERNAL

text \<open>A status with the bytes written when it is OK.\<close>

type_synonym 'a crypto = "crypto_status + 'a"

record ed_lib =
  ed_sha512 :: "bytes \<Rightarrow> bytes"
  ed_scalar_reduce :: "bytes \<Rightarrow> bytes"
  ed_scalar_add :: "bytes \<Rightarrow> bytes \<Rightarrow> bytes"
  ed_scalar_mul :: "bytes \<Rightarrow> bytes \<Rightarrow> bytes"
  ed_base_noclamp :: "bytes \<Rightarrow> bytes option"
  ed_mult_noclamp :: "bytes \<Rightarrow> bytes \<Rightarrow> bytes option"
  ed_add :: "bytes \<Rightarrow> bytes \<Rightarrow> bytes option"
  ed_keypair :: "bytes \<Rightarrow> (bytes \<times> bytes) option"
  ed_sign_detached :: "bytes \<Rightarrow> bytes \<Rightarrow> bytes option"
  ed_verify_detached :: "bytes \<Rightarrow> bytes \<Rightarrow> bytes \<Rightarrow> bool"

section \<open>Ed25519\<close>

definition hash64_to_scalar :: "ed_lib \<Rightarrow> bytes \<Rightarrow> bytes" where
  "hash64_to_scalar lib h = ed_scalar_reduce lib h"

text \<open>rnd is the seed the library draws.\<close>

definition crypto_keygen :: "ed_lib \<Rightarrow> bytes \<Rightarrow> (bytes \<times> bytes) crypto" where
  "crypto_keygen lib rnd =
     (case ed_keypair lib rnd of None \<Rightarrow> Inl Crypto_ERR_INTERNAL | Some kp \<Rightarrow> Inr kp)"

definition crypto_sign :: "ed_lib \<Rightarrow> bytes option \<Rightarrow> bytes option \<Rightarrow> bytes crypto" where
  "crypto_sign lib message seckey =
     (case (message, seckey) of
        (Some m, Some sk) \<Rightarrow>
          (case ed_sign_detached lib m sk of None \<Rightarrow> Inl Crypto_ERR_INTERNAL | Some sig \<Rightarrow> Inr sig)
      | _ \<Rightarrow> Inl Crypto_ERR_INVALID_ARG)"

definition crypto_verify :: "ed_lib \<Rightarrow> bytes option \<Rightarrow> bytes option \<Rightarrow> bytes option \<Rightarrow> crypto_status" where
  "crypto_verify lib message pubkey sig =
     (case (message, pubkey, sig) of
        (Some m, Some pk, Some s) \<Rightarrow>
          if ed_verify_detached lib s m pk then Crypto_OK else Crypto_ERR_INTERNAL
      | _ \<Rightarrow> Crypto_ERR_INVALID_ARG)"

section \<open>Key aggregation\<close>

definition blk :: "nat \<Rightarrow> nat \<Rightarrow> 'a list \<Rightarrow> 'a list" where
  "blk n i xs = take n (drop (i * n) xs)"

definition compute_key_list_hash :: "ed_lib \<Rightarrow> bytes \<Rightarrow> nat \<Rightarrow> bytes" where
  "compute_key_list_hash lib pubkeys n =
     ed_sha512 lib (concat (map (\<lambda>i. blk PUBKEY_BYTES i pubkeys) [0..<n]))"

definition compute_key_coeff :: "ed_lib \<Rightarrow> bytes \<Rightarrow> bytes \<Rightarrow> bytes" where
  "compute_key_coeff lib L pubkey = hash64_to_scalar lib (ed_sha512 lib (L @ take PUBKEY_BYTES pubkey))"

text \<open>The sum of the weighted keys; the accumulator is empty before the first term.\<close>

fun aggregate_loop :: "ed_lib \<Rightarrow> bytes \<Rightarrow> bytes \<Rightarrow> nat list \<Rightarrow> bytes option \<Rightarrow> bytes option crypto" where
  "aggregate_loop lib L pubkeys [] acc = Inr acc"
| "aggregate_loop lib L pubkeys (i # is) acc =
     (let key = blk PUBKEY_BYTES i pubkeys; coeff = compute_key_coeff lib L key in
      case ed_mult_noclamp lib coeff key of
        None \<Rightarrow> Inl Crypto_ERR_INTERNAL
      | Some t \<Rightarrow>
          (case acc of
             None \<Rightarrow> aggregate_loop lib L pubkeys is (Some t)
           | Some a \<Rightarrow>
               (case ed_add lib a t of
                  None \<Rightarrow> Inl Crypto_ERR_INTERNAL
                | Some a \<Rightarrow> aggregate_loop lib L pubkeys is (Some a))))"

definition musig2_aggregate_pubkeys :: "ed_lib \<Rightarrow> bytes option \<Rightarrow> nat \<Rightarrow> bytes crypto" where
  "musig2_aggregate_pubkeys lib pubkeys n =
     (case pubkeys of
        None \<Rightarrow> Inl Crypto_ERR_INVALID_ARG
      | Some pks \<Rightarrow>
          if n = 0 then Inl Crypto_ERR_INVALID_ARG
          else
            (let L = compute_key_list_hash lib pks n in
             case aggregate_loop lib L pks [0..<n] None of
               Inl e \<Rightarrow> Inl e
             | Inr acc \<Rightarrow> Inr (the acc)))"

section \<open>Nonces\<close>

text \<open>rnd: the thirty-two random bytes. The results are the secret and the public nonce.\<close>

definition musig2_nonce_gen :: "ed_lib \<Rightarrow> bytes \<Rightarrow> (bytes \<times> bytes) crypto" where
  "musig2_nonce_gen lib rnd =
     (let r = ed_scalar_reduce lib (rnd @ replicate 32 0) in
      case ed_base_noclamp lib r of
        None \<Rightarrow> Inl Crypto_ERR_INTERNAL
      | Some R \<Rightarrow> Inr (r @ R, R @ replicate 32 0))"

fun add_nonces :: "ed_lib \<Rightarrow> bytes \<Rightarrow> nat list \<Rightarrow> bytes \<Rightarrow> bytes crypto" where
  "add_nonces lib pub_nonces [] acc = Inr acc"
| "add_nonces lib pub_nonces (i # is) acc =
     (case ed_add lib acc (take 32 (blk MUSIG2_PUBNONCE_BYTES i pub_nonces)) of
        None \<Rightarrow> Inl Crypto_ERR_INTERNAL
      | Some acc \<Rightarrow> add_nonces lib pub_nonces is acc)"

definition musig2_aggregate_nonces :: "ed_lib \<Rightarrow> bytes option \<Rightarrow> nat \<Rightarrow> bytes crypto" where
  "musig2_aggregate_nonces lib pub_nonces n =
     (case pub_nonces of
        None \<Rightarrow> Inl Crypto_ERR_INVALID_ARG
      | Some ns \<Rightarrow>
          if n = 0 then Inl Crypto_ERR_INVALID_ARG
          else
            (case add_nonces lib ns [1..<n] (take 32 ns) of
               Inl e \<Rightarrow> Inl e
             | Inr acc \<Rightarrow> Inr (acc @ replicate 32 0)))"

section \<open>Partial signatures\<close>

definition clamp_scalar :: "bytes \<Rightarrow> bytes" where
  "clamp_scalar h = (let h = h[0 := h ! 0 AND 248]; h = h[31 := h ! 31 AND 127] in h[31 := h ! 31 OR 64])"

definition signing_scalar :: "ed_lib \<Rightarrow> bytes \<Rightarrow> bytes" where
  "signing_scalar lib seckey = take 32 (clamp_scalar (ed_sha512 lib (take 32 seckey)))"

definition challenge_scalar :: "ed_lib \<Rightarrow> bytes \<Rightarrow> bytes \<Rightarrow> bytes option \<Rightarrow> bytes" where
  "challenge_scalar lib P_agg R_agg message =
     hash64_to_scalar lib
       (ed_sha512 lib (take 32 P_agg @ take 32 R_agg @ (case message of None \<Rightarrow> [] | Some m \<Rightarrow> m)))"

text \<open>message None is a NULL pointer with length zero; one with a length is refused, so bad_message
  stands for that case.\<close>

definition musig2_partial_sign ::
  "ed_lib \<Rightarrow> bytes option \<Rightarrow> bytes option \<Rightarrow> bytes option \<Rightarrow> nat \<Rightarrow> bytes option \<Rightarrow> bool \<Rightarrow> bytes option \<Rightarrow> bytes crypto" where
  "musig2_partial_sign lib secret_nonce seckey all_pubkeys n agg_pubnonce bad_message message =
     (case (secret_nonce, seckey, all_pubkeys, agg_pubnonce) of
        (Some sn, Some sk, Some pks, Some agg) \<Rightarrow>
          if n = 0 \<or> bad_message then Inl Crypto_ERR_INVALID_ARG
          else
            (let r = take 32 sn; x = signing_scalar lib sk in
             case musig2_aggregate_pubkeys lib (Some pks) n of
               Inl st \<Rightarrow> Inl st
             | Inr P_agg \<Rightarrow>
                 (let c = challenge_scalar lib P_agg agg message;
                      L = compute_key_list_hash lib pks n;
                      a = compute_key_coeff lib L (drop 32 sk);
                      temp1 = ed_scalar_mul lib c a;
                      temp2 = ed_scalar_mul lib temp1 x
                  in Inr (ed_scalar_add lib r temp2)))
      | _ \<Rightarrow> Inl Crypto_ERR_INVALID_ARG)"

text \<open>Only the second half of the final signature is written.\<close>

definition musig2_aggregate_sigs :: "ed_lib \<Rightarrow> bytes option \<Rightarrow> nat \<Rightarrow> bytes option \<Rightarrow> bytes crypto" where
  "musig2_aggregate_sigs lib partial_sigs n final_sig =
     (case (partial_sigs, final_sig) of
        (Some ps, Some fs) \<Rightarrow>
          if n = 0 then Inl Crypto_ERR_INVALID_ARG
          else
            (let s = fold (\<lambda>i s. ed_scalar_add lib s (blk MUSIG2_PARTIAL_SIG_BYTES i ps)) [1..<n] (take 32 ps)
             in Inr (take 32 fs @ s))
      | _ \<Rightarrow> Inl Crypto_ERR_INVALID_ARG)"

definition musig2_verify :: "ed_lib \<Rightarrow> bool \<Rightarrow> bytes option \<Rightarrow> bytes option \<Rightarrow> bytes option \<Rightarrow> crypto_status" where
  "musig2_verify lib bad_message message agg_pubkey final_sig =
     (case (agg_pubkey, final_sig) of
        (Some P, Some sig) \<Rightarrow>
          if bad_message then Crypto_ERR_INVALID_ARG
          else
            (let R = take 32 sig; s = take 32 (drop 32 sig); c = challenge_scalar lib P R message in
             case ed_base_noclamp lib s of
               None \<Rightarrow> Crypto_ERR_INTERNAL
             | Some sG \<Rightarrow>
                 (case ed_mult_noclamp lib c P of
                    None \<Rightarrow> Crypto_ERR_INTERNAL
                  | Some cP \<Rightarrow>
                      (case ed_add lib R cP of
                         None \<Rightarrow> Crypto_ERR_INTERNAL
                       | Some expected \<Rightarrow> if sG \<noteq> expected then Crypto_ERR_INTERNAL else Crypto_OK)))
      | _ \<Rightarrow> Crypto_ERR_INVALID_ARG)"

section \<open>The group\<close>

text \<open>What libsodium documents: scalars are numbers modulo the order l of the base point, points
  are multiples of it, the operations are those of the group, a multiplication that gives the
  neutral element fails, and a key pair is the seed with the multiple of its clamped hash. val
  reads the number in thirty-two bytes, pt writes the multiple of the base point.\<close>

definition ed_ok :: "ed_lib \<Rightarrow> int \<Rightarrow> (bytes \<Rightarrow> int) \<Rightarrow> (int \<Rightarrow> bytes) \<Rightarrow> bool" where
  "ed_ok lib l val pt \<longleftrightarrow>
     (\<forall>h. length (ed_scalar_reduce lib h) = 32) \<and>
     (\<forall>a b. length (ed_scalar_add lib a b) = 32 \<and> val (ed_scalar_add lib a b) mod l = (val a + val b) mod l) \<and>
     (\<forall>a b. length (ed_scalar_mul lib a b) = 32 \<and> val (ed_scalar_mul lib a b) mod l = (val a * val b) mod l) \<and>
     (\<forall>s. ed_base_noclamp lib s = (if val s mod l = 0 then None else Some (pt (val s)))) \<and>
     (\<forall>s k. ed_mult_noclamp lib s (pt k) = (if (val s * k) mod l = 0 then None else Some (pt (val s * k)))) \<and>
     (\<forall>j k. ed_add lib (pt j) (pt k) = Some (pt (j + k))) \<and>
     (\<forall>j k. pt j = pt k \<longleftrightarrow> j mod l = k mod l) \<and> (\<forall>k. length (pt k) = 32) \<and>
     (\<forall>seed. length seed = 32 \<longrightarrow>
        ed_keypair lib seed = Some (pt (val (signing_scalar lib seed)), seed @ pt (val (signing_scalar lib seed))))"

lemma ed_okD:
  assumes "ed_ok lib l val pt"
  shows "length (ed_scalar_reduce lib h) = 32" "length (ed_scalar_add lib a b) = 32"
    "val (ed_scalar_add lib a b) mod l = (val a + val b) mod l" "length (ed_scalar_mul lib a b) = 32"
    "val (ed_scalar_mul lib a b) mod l = (val a * val b) mod l"
    "ed_base_noclamp lib a = (if val a mod l = 0 then None else Some (pt (val a)))"
    "ed_mult_noclamp lib a (pt k) = (if (val a * k) mod l = 0 then None else Some (pt (val a * k)))"
    "ed_add lib (pt j) (pt k) = Some (pt (j + k))" "pt j = pt k \<longleftrightarrow> j mod l = k mod l" "length (pt k) = 32"
    "length h = 32 \<Longrightarrow>
       ed_keypair lib h = Some (pt (val (signing_scalar lib h)), h @ pt (val (signing_scalar lib h)))"
  using assms unfolding ed_ok_def by blast+

lemma blk_append: "(i + 1) * k \<le> length xs \<Longrightarrow> blk k i (xs @ ys) = blk k i xs"
proof -
  assume "(i + 1) * k \<le> length xs"
  then have "i * k + k \<le> length xs" by simp
  then have "k - (length xs - i * k) = 0" "i * k - length xs = 0" by linarith+
  then show ?thesis by (simp add: blk_def)
qed

lemma blocks_length: "(\<And>i. i < n \<Longrightarrow> length (f i) = k) \<Longrightarrow> length (concat (map f [0..<n])) = n * k"
  by (induction n) auto

lemma blk_concat:
  assumes "\<And>i. i < n \<Longrightarrow> length (f i) = k" "i < n"
  shows "blk k i (concat (map f [0..<n])) = f i"
  using assms
proof (induction n)
  case (Suc n)
  have len: "length (concat (map f [0..<n])) = n * k" by (rule blocks_length) (use Suc.prems in simp)
  show ?case
  proof (cases "i = n")
    case True
    then show ?thesis using Suc.prems len by (simp add: blk_def)
  next
    case False
    then have "i < n" using Suc.prems by simp
    moreover from this have "(i + 1) * k \<le> n * k" by (intro mult_le_mono1) simp
    ultimately show ?thesis using Suc.IH Suc.prems(1) len by (simp add: blk_append)
  qed
qed simp

section \<open>Sums in the group\<close>

lemma aggregate_loop_sum:
  assumes ed: "ed_ok lib l val pt" and keys: "\<forall>i\<in>set is. blk PUBKEY_BYTES i pks = pt (x i)"
    and run: "aggregate_loop lib L pks is acc = Inr r" and acc: "acc = None \<or> acc = Some (pt z)" "acc = None \<Longrightarrow> z = 0"
  shows "is = [] \<and> r = acc \<or>
    r = Some (pt (z + (\<Sum>i\<leftarrow>is. val (compute_key_coeff lib L (pt (x i))) * x i)))"
  using keys run acc
proof (induction "is" arbitrary: acc z)
  case (Cons i "is")
  let ?c = "val (compute_key_coeff lib L (pt (x i))) * x i"
  obtain t where t: "ed_mult_noclamp lib (compute_key_coeff lib L (pt (x i))) (pt (x i)) = Some t"
    using Cons.prems(1,2) by (auto simp: Let_def split: option.splits)
  then have tt: "t = pt ?c" by (simp add: ed_okD(7)[OF ed] split: if_splits)
  have "acc = None \<and> z = 0 \<or> acc = Some (pt z)" using Cons.prems(3,4) by blast
  then have nxt: "aggregate_loop lib L pks is (Some (pt (z + ?c))) = Inr r"
    using Cons.prems(1,2) t tt by (auto simp: Let_def ed_okD(8)[OF ed])
  have "is = [] \<and> r = Some (pt (z + ?c)) \<or>
      r = Some (pt (z + ?c + (\<Sum>i\<leftarrow>is. val (compute_key_coeff lib L (pt (x i))) * x i)))"
    by (rule Cons.IH[OF _ nxt]) (use Cons.prems(1) in auto)
  then show ?case by (auto simp: add.assoc)
qed simp

lemma add_nonces_sum:
  assumes ed: "ed_ok lib l val pt"
  shows "\<forall>i\<in>set is. take 32 (blk MUSIG2_PUBNONCE_BYTES i ns) = pt (k i) \<Longrightarrow>
    add_nonces lib ns is (pt z) = Inr (pt (z + (\<Sum>i\<leftarrow>is. k i)))"
  by (induction "is" arbitrary: z) (auto simp: ed_okD(8)[OF ed] add.assoc)

lemma add_sigs_sum:
  assumes ed: "ed_ok lib l val pt"
  shows "val (fold (\<lambda>i s. ed_scalar_add lib s (f i)) is a) mod l = (val a + (\<Sum>i\<leftarrow>is. val (f i))) mod l"
proof (induction "is" arbitrary: a)
  case (Cons i "is")
  have "val (fold (\<lambda>i s. ed_scalar_add lib s (f i)) is (ed_scalar_add lib a (f i))) mod l =
      (val (ed_scalar_add lib a (f i)) mod l + (\<Sum>i\<leftarrow>is. val (f i))) mod l"
    by (simp add: Cons.IH mod_simps)
  also have "\<dots> = (val a + val (f i) + (\<Sum>i\<leftarrow>is. val (f i))) mod l"
    by (simp add: ed_okD(3)[OF ed] mod_simps)
  finally show ?case by (simp add: add.assoc)
qed simp

lemma add_sigs_length:
  assumes "ed_ok lib l val pt"
  shows "length a = 32 \<Longrightarrow> length (fold (\<lambda>i s. ed_scalar_add lib s (f i)) is a) = 32"
  by (induction "is" arbitrary: a) (simp_all add: ed_okD(2)[OF assms])

lemma sum_first: "0 < n \<Longrightarrow> (f :: nat \<Rightarrow> int) 0 + (\<Sum>i\<leftarrow>[1..<n]. f i) = (\<Sum>i\<leftarrow>[0..<n]. f i)"
  by (simp add: upt_conv_Cons)

lemma sum_list_mod:
  "(\<And>i. i \<in> set is \<Longrightarrow> (f i :: int) mod l = g i mod l) \<Longrightarrow> (\<Sum>i\<leftarrow>is. f i) mod l = (\<Sum>i\<leftarrow>is. g i) mod l"
proof (induction "is")
  case (Cons i "is")
  have "f i mod l = g i mod l" by (rule Cons.prems) simp
  moreover have "(\<Sum>i\<leftarrow>is. f i) mod l = (\<Sum>i\<leftarrow>is. g i) mod l" by (rule Cons.IH) (use Cons.prems in simp)
  ultimately show ?case using mod_add_cong[of "f i" l "g i"] by simp
qed simp

text \<open>What an honest session of n participants is: every value comes from the call that makes it,
  the participants use one list of keys, and the leader puts the sum of the nonces in front.\<close>

definition honest_session ::
  "ed_lib \<Rightarrow> nat \<Rightarrow> bytes option \<Rightarrow> (nat \<Rightarrow> bytes) \<Rightarrow> (nat \<Rightarrow> bytes) \<Rightarrow> bytes \<Rightarrow> bytes \<Rightarrow> bool" where
  "honest_session lib n msg seed rnd P sig \<longleftrightarrow>
     (\<exists>pk sk sn pn ps agg fs.
        (\<forall>i<n. length (seed i) = 32 \<and> crypto_keygen lib (seed i) = Inr (pk i, sk i)) \<and>
        (\<forall>i<n. musig2_nonce_gen lib (rnd i) = Inr (sn i, pn i)) \<and>
        musig2_aggregate_pubkeys lib (Some (concat (map pk [0..<n]))) n = Inr P \<and>
        musig2_aggregate_nonces lib (Some (concat (map pn [0..<n]))) n = Inr agg \<and>
        (\<forall>i<n. musig2_partial_sign lib (Some (sn i)) (Some (sk i)) (Some (concat (map pk [0..<n]))) n
           (Some agg) False msg = Inr (ps i)) \<and>
        take 32 fs = take 32 agg \<and>
        musig2_aggregate_sigs lib (Some (concat (map ps [0..<n]))) n (Some fs) = Inr sig)"

lemma session_keys:
  assumes "ed_ok lib l val pt" "length seed = 32" "crypto_keygen lib seed = Inr (pk, sk)"
  shows "pk = pt (val (signing_scalar lib seed))" "drop 32 sk = pk" "signing_scalar lib sk = signing_scalar lib seed"
  using assms by (auto simp: crypto_keygen_def ed_okD(11)[OF assms(1,2)] signing_scalar_def)

lemma session_nonces:
  assumes "ed_ok lib l val pt" "musig2_nonce_gen lib rnd = Inr (sn, pn)"
  shows "pn = pt (val (take 32 sn)) @ replicate 32 0" "length (take 32 sn) = 32"
  using assms(2)
  by (auto simp: musig2_nonce_gen_def Let_def ed_okD(6)[OF assms(1)] ed_okD(1)[OF assms(1)] split: if_splits)

lemma session_partial:
  assumes ed: "ed_ok lib l val pt"
    and P: "musig2_aggregate_pubkeys lib (Some pks) n = Inr P"
    and run: "musig2_partial_sign lib (Some sn) (Some sk) (Some pks) n (Some agg) False msg = Inr s"
  shows "length s = 32"
    "val s mod l = (val (take 32 sn) + val (challenge_scalar lib P agg msg) *
       (val (compute_key_coeff lib (compute_key_list_hash lib pks n) (drop 32 sk)) * val (signing_scalar lib sk))) mod l"
proof -
  let ?c = "challenge_scalar lib P agg msg"
  let ?a = "compute_key_coeff lib (compute_key_list_hash lib pks n) (drop 32 sk)"
  let ?x = "signing_scalar lib sk"
  have s: "s = ed_scalar_add lib (take 32 sn) (ed_scalar_mul lib (ed_scalar_mul lib ?c ?a) ?x)"
    using run P by (auto simp: musig2_partial_sign_def Let_def split: if_splits)
  show "length s = 32" unfolding s by (rule ed_okD(2)[OF ed])
  have "val (ed_scalar_mul lib (ed_scalar_mul lib ?c ?a) ?x) mod l = (val (ed_scalar_mul lib ?c ?a) * val ?x) mod l"
    by (rule ed_okD(5)[OF ed])
  also have "\<dots> = (val ?c * val ?a * val ?x) mod l" by (rule mod_mult_cong[OF ed_okD(5)[OF ed] refl])
  finally have m: "val (ed_scalar_mul lib (ed_scalar_mul lib ?c ?a) ?x) mod l = (val ?c * (val ?a * val ?x)) mod l"
    by (simp add: mult.assoc)
  have "val s mod l = (val (take 32 sn) + val (ed_scalar_mul lib (ed_scalar_mul lib ?c ?a) ?x) mod l) mod l"
    unfolding s by (simp add: ed_okD(3)[OF ed] mod_simps)
  then show "val s mod l = (val (take 32 sn) + val ?c * (val ?a * val ?x)) mod l"
    unfolding m by (simp add: mod_simps)
qed

lemma aggregate_keys_sum:
  assumes ed: "ed_ok lib l val pt" and n: "0 < n"
    and keys: "\<And>i. i < n \<Longrightarrow> pk i = pt (x i)"
    and P: "musig2_aggregate_pubkeys lib (Some (concat (map pk [0..<n]))) n = Inr P"
  shows "P = pt (\<Sum>i\<leftarrow>[0..<n].
    val (compute_key_coeff lib (compute_key_list_hash lib (concat (map pk [0..<n])) n) (pk i)) * x i)"
proof -
  let ?pks = "concat (map pk [0..<n])"
  let ?L = "compute_key_list_hash lib ?pks n"
  obtain r where r: "aggregate_loop lib ?L ?pks [0..<n] None = Inr r" "P = the r"
    using P n by (auto simp: musig2_aggregate_pubkeys_def Let_def split: sum.splits)
  have len: "i < n \<Longrightarrow> length (pk i) = PUBKEY_BYTES" for i
    by (simp add: keys ed_okD(10)[OF ed] PUBKEY_BYTES_def)
  have "\<forall>i\<in>set [0..<n]. blk PUBKEY_BYTES i ?pks = pt (x i)"
    using blk_concat[OF len] keys by auto
  from aggregate_loop_sum[OF ed this r(1), of 0] n
  have "r = Some (pt (\<Sum>i\<leftarrow>[0..<n]. val (compute_key_coeff lib ?L (pt (x i))) * x i))" by simp
  moreover have "(\<Sum>i\<leftarrow>[0..<n]. val (compute_key_coeff lib ?L (pt (x i))) * x i) =
      (\<Sum>i\<leftarrow>[0..<n]. val (compute_key_coeff lib ?L (pk i)) * x i)"
    by (intro arg_cong[of _ _ sum_list] map_cong) (simp_all add: keys)
  ultimately show ?thesis using r(2) by simp
qed

lemma aggregate_nonces_sum:
  assumes ed: "ed_ok lib l val pt" and n: "0 < n"
    and nonces: "\<And>i. i < n \<Longrightarrow> pn i = pt (k i) @ replicate 32 0"
    and agg: "musig2_aggregate_nonces lib (Some (concat (map pn [0..<n]))) n = Inr agg"
  shows "take 32 agg = pt (\<Sum>i\<leftarrow>[0..<n]. k i)"
proof -
  let ?ns = "concat (map pn [0..<n])"
  have len: "i < n \<Longrightarrow> length (pn i) = MUSIG2_PUBNONCE_BYTES" for i
    by (simp add: nonces ed_okD(10)[OF ed] MUSIG2_PUBNONCE_BYTES_def)
  have block: "take 32 (blk MUSIG2_PUBNONCE_BYTES i ?ns) = pt (k i)" if "i < n" for i
    using blk_concat[OF len that] nonces[OF that] by (simp add: ed_okD(10)[OF ed])
  have "take 32 ?ns = pt (k 0)"
    using block[OF n] n by (simp add: blk_def MUSIG2_PUBNONCE_BYTES_def min_def)
  moreover have "add_nonces lib ?ns [1..<n] (pt (k 0)) = Inr (pt (k 0 + (\<Sum>i\<leftarrow>[1..<n]. k i)))"
    by (rule add_nonces_sum[OF ed]) (use block in auto)
  ultimately have "agg = pt (k 0 + (\<Sum>i\<leftarrow>[1..<n]. k i)) @ replicate 32 0"
    using agg n by (simp add: musig2_aggregate_nonces_def)
  then show ?thesis using sum_first[OF n, of k] by (simp add: ed_okD(10)[OF ed])
qed

lemma aggregate_sigs_sum:
  assumes ed: "ed_ok lib l val pt" and n: "0 < n" and len: "\<And>i. i < n \<Longrightarrow> length (ps i) = 32"
    and run: "musig2_aggregate_sigs lib (Some (concat (map ps [0..<n]))) n (Some fs) = Inr sig"
  shows "\<exists>s. sig = take 32 fs @ s \<and> length s = 32 \<and> val s mod l = (\<Sum>i\<leftarrow>[0..<n]. val (ps i)) mod l"
proof -
  let ?ps = "concat (map ps [0..<n])"
  have block: "blk MUSIG2_PARTIAL_SIG_BYTES i ?ps = ps i" if "i < n" for i
    using blk_concat[of n ps 32 i] len that by (simp add: MUSIG2_PARTIAL_SIG_BYTES_def)
  have first: "take 32 ?ps = ps 0" using block[OF n] by (simp add: blk_def MUSIG2_PARTIAL_SIG_BYTES_def)
  let ?s = "fold (\<lambda>i s. ed_scalar_add lib s (blk MUSIG2_PARTIAL_SIG_BYTES i ?ps)) [1..<n] (ps 0)"
  have sig: "sig = take 32 fs @ ?s"
    using run n first by (simp add: musig2_aggregate_sigs_def Let_def)
  have "length ?s = 32" by (rule add_sigs_length[OF ed len[OF n]])
  moreover have "val ?s mod l = (\<Sum>i\<leftarrow>[0..<n]. val (ps i)) mod l"
  proof -
    have "(\<Sum>i\<leftarrow>[1..<n]. val (blk MUSIG2_PARTIAL_SIG_BYTES i ?ps)) = (\<Sum>i\<leftarrow>[1..<n]. val (ps i))"
      by (intro arg_cong[of _ _ sum_list] map_cong) (simp_all add: block)
    then have "val (ps 0) + (\<Sum>i\<leftarrow>[1..<n]. val (blk MUSIG2_PARTIAL_SIG_BYTES i ?ps)) = (\<Sum>i\<leftarrow>[0..<n]. val (ps i))"
      using sum_first[OF n, of "\<lambda>i. val (ps i)"] by argo
    then show ?thesis unfolding add_sigs_sum[OF ed] by argo
  qed
  ultimately show ?thesis using sig by blast
qed

section \<open>Honest signatures verify\<close>


text \<open>A group of seven elements, written in the first of thirty-two bytes.\<close>

definition seven :: "int \<Rightarrow> bytes" where "seven k = word_of_int (k mod 7) # replicate 31 0"
definition seven_val :: "bytes \<Rightarrow> int" where "seven_val b = uint (b ! 0)"

definition seven_lib :: ed_lib where
  "seven_lib =
     \<lparr> ed_sha512 = (\<lambda>m. 8 # replicate 63 0),
       ed_scalar_reduce = (\<lambda>h. seven (seven_val h)),
       ed_scalar_add = (\<lambda>a b. seven (seven_val a + seven_val b)),
       ed_scalar_mul = (\<lambda>a b. seven (seven_val a * seven_val b)),
       ed_base_noclamp = (\<lambda>s. if seven_val s mod 7 = 0 then None else Some (seven (seven_val s))),
       ed_mult_noclamp = (\<lambda>s p. if (seven_val s * seven_val p) mod 7 = 0 then None
          else Some (seven (seven_val s * seven_val p))),
       ed_add = (\<lambda>p q. Some (seven (seven_val p + seven_val q))),
       ed_keypair = (\<lambda>seed. Some (seven 8, seed @ seven 8)),
       ed_sign_detached = (\<lambda>m sk. None),
       ed_verify_detached = (\<lambda>s m pk. False) \<rparr>"

lemma seven_val_seven [simp]: "seven_val (seven k) = k mod 7"
proof -
  have "0 \<le> k mod 7" "k mod 7 < 256" by (simp_all add: order.strict_trans[of _ 7])
  then show ?thesis by (simp add: seven_val_def seven_def uint_word_of_int take_bit_int_eq_self)
qed

lemma seven_eq: "seven j = seven k \<longleftrightarrow> j mod 7 = k mod 7"
proof
  assume "seven j = seven k"
  from arg_cong[OF this, of seven_val] show "j mod 7 = k mod 7" by simp
qed (simp add: seven_def)

lemma seven_mod: "seven (k mod 7) = seven k"
  by (simp add: seven_eq)

lemma seven_scalar: "signing_scalar seven_lib seed = 8 # replicate 30 0 @ [64]"
  by (simp add: signing_scalar_def clamp_scalar_def seven_lib_def Let_def numeral_eq_Suc)

lemma seven_ok: "ed_ok seven_lib 7 seven_val seven"
  unfolding ed_ok_def seven_scalar
  by (simp add: seven_lib_def seven_eq mod_simps) (simp add: seven_def seven_val_def)

text \<open>A session of two participants.\<close>

definition seven_seed :: "nat \<Rightarrow> bytes" where "seven_seed i = replicate 32 (of_nat i)"

lemma seven_length [simp]: "length (seven k) = 32"
  by (simp add: seven_def)

lemma seven_ops:
  "ed_sha512 seven_lib m = 8 # replicate 63 0" "ed_scalar_reduce seven_lib h = seven (seven_val h)"
  "ed_scalar_add seven_lib a b = seven (seven_val a + seven_val b)"
  "ed_scalar_mul seven_lib a b = seven (seven_val a * seven_val b)"
  "ed_base_noclamp seven_lib a = (if seven_val a mod 7 = 0 then None else Some (seven (seven_val a)))"
  "ed_mult_noclamp seven_lib a b = (if (seven_val a * seven_val b) mod 7 = 0 then None
          else Some (seven (seven_val a * seven_val b)))"
  "ed_add seven_lib a b = Some (seven (seven_val a + seven_val b))"
  by (simp_all add: seven_lib_def)

lemma seven_vals [simp]: "seven_val (8 # xs) = 8" "seven_val (1 # xs) = 1" "seven_val (seven k @ ys) = k mod 7"
  using seven_val_seven[of k] by (simp_all add: seven_val_def seven_def)

lemma seven_coeff: "compute_key_coeff seven_lib L pk = seven 1"
  by (simp add: compute_key_coeff_def hash64_to_scalar_def seven_ops seven_eq)

lemma seven_challenge: "challenge_scalar seven_lib P R m = seven 1"
  by (simp add: challenge_scalar_def hash64_to_scalar_def seven_ops seven_eq)

lemma two_blocks: "length a = k \<Longrightarrow> length b = k \<Longrightarrow> blk k 0 (a @ b) = a \<and> blk k 1 (a @ b) = b"
  by (simp add: blk_def)

lemma upto_two: "[0..<2] = [0, 1::nat]" "[1..<2] = [1::nat]"
  by (simp_all add: upt_rec)

lemma seven_session: "honest_session seven_lib 2 (Some [1, 2, 3]) seven_seed (\<lambda>i. replicate 32 1) (seven 2) (seven 2 @ seven 4)"
proof -
  let ?two = "\<lambda>x. concat (map (\<lambda>i. x) [0..<2::nat])"
  have two: "?two x = x @ x" for x :: bytes by (simp add: upto_two)
  have len: "length (seven_seed i) = 32" for i by (simp add: seven_seed_def)
  have key: "crypto_keygen seven_lib (seven_seed i) = Inr (seven 1, seven_seed i @ seven 1)" for i
    by (simp add: crypto_keygen_def seven_lib_def seven_eq)
  have nonce: "musig2_nonce_gen seven_lib (replicate 32 1) = Inr (seven 1 @ seven 1, seven 1 @ replicate 32 0)"
    by (simp add: musig2_nonce_gen_def seven_ops numeral_eq_Suc Let_def)
  have keys: "blk PUBKEY_BYTES 0 (seven 1 @ seven 1) = seven 1" "blk PUBKEY_BYTES 1 (seven 1 @ seven 1) = seven 1"
    using two_blocks[of "seven 1" 32 "seven 1"] by (simp_all add: PUBKEY_BYTES_def)
  have P: "musig2_aggregate_pubkeys seven_lib (Some (seven 1 @ seven 1)) 2 = Inr (seven 2)"
    unfolding musig2_aggregate_pubkeys_def upto_two
    by (simp add: Let_def keys[unfolded One_nat_def] keys seven_coeff seven_ops)
  have nonces: "take 32 (blk MUSIG2_PUBNONCE_BYTES 1 ((seven 1 @ replicate 32 0) @ (seven 1 @ replicate 32 0))) = seven 1"
    using two_blocks[of "seven 1 @ replicate 32 0" 64 "seven 1 @ replicate 32 0"]
    by (simp add: MUSIG2_PUBNONCE_BYTES_def)
  have agg: "musig2_aggregate_nonces seven_lib (Some ((seven 1 @ replicate 32 0) @ (seven 1 @ replicate 32 0))) 2 =
      Inr (seven 2 @ replicate 32 0)"
    unfolding musig2_aggregate_nonces_def upto_two using nonces by (simp add: seven_ops)
  have part: "musig2_partial_sign seven_lib (Some (seven 1 @ seven 1)) (Some (seven_seed i @ seven 1))
      (Some (seven 1 @ seven 1)) 2 (Some (seven 2 @ replicate 32 0)) False (Some [1, 2, 3]) = Inr (seven 2)" for i
    by (simp add: musig2_partial_sign_def P Let_def seven_challenge seven_coeff seven_scalar seven_ops seven_eq)
  have parts: "blk MUSIG2_PARTIAL_SIG_BYTES 1 (seven 2 @ seven 2) = seven 2"
    using two_blocks[of "seven 2" 32 "seven 2"] by (simp add: MUSIG2_PARTIAL_SIG_BYTES_def)
  have sig: "musig2_aggregate_sigs seven_lib (Some (seven 2 @ seven 2)) 2 (Some (seven 2)) = Inr (seven 2 @ seven 4)"
    unfolding musig2_aggregate_sigs_def upto_two using parts by (simp add: seven_ops Let_def)
  have front: "take 32 (seven 2) = take 32 (seven 2 @ replicate 32 0)" by simp
  show ?thesis
    unfolding honest_session_def
    by (rule exI[of _ "\<lambda>i. seven 1"], rule exI[of _ "\<lambda>i. seven_seed i @ seven 1"],
        rule exI[of _ "\<lambda>i. seven 1 @ seven 1"], rule exI[of _ "\<lambda>i. seven 1 @ replicate 32 0"],
        rule exI[of _ "\<lambda>i. seven 2"], rule exI[of _ "seven 2 @ replicate 32 0"], rule exI[of _ "seven 2"])
      (unfold two, intro conjI allI impI, (rule len key nonce P agg part front sig)+)
qed


section \<open>Digests, AES-256-IGE and big numbers\<close>

record mbed_lib =
  mb_sha256 :: "bytes \<Rightarrow> bytes option"
  mb_sha1 :: "bytes \<Rightarrow> bytes option"
  mb_setkey :: "bool \<Rightarrow> bytes \<Rightarrow> bool"
  mb_ecb :: "bool \<Rightarrow> bytes \<Rightarrow> bytes \<Rightarrow> bytes option"
  mb_read :: "bytes \<Rightarrow> nat option"
  mb_exp_mod :: "nat \<Rightarrow> nat \<Rightarrow> nat \<Rightarrow> nat option"
  mb_write :: "nat \<Rightarrow> nat \<Rightarrow> bytes option"

text \<open>message None is NULL; len is the length given with it.\<close>

definition digest :: "(bytes \<Rightarrow> bytes option) \<Rightarrow> bytes option \<Rightarrow> nat \<Rightarrow> bool \<Rightarrow> bytes crypto" where
  "digest hash message len out_ok =
     (if (message = None \<and> len \<noteq> 0) \<or> \<not> out_ok then Inl Crypto_ERR_INVALID_ARG
      else
        (case hash (case message of None \<Rightarrow> [] | Some m \<Rightarrow> m) of
           None \<Rightarrow> Inl Crypto_ERR_INTERNAL | Some d \<Rightarrow> Inr d))"

definition crypto_sha256 :: "mbed_lib \<Rightarrow> bytes option \<Rightarrow> nat \<Rightarrow> bool \<Rightarrow> bytes crypto" where
  "crypto_sha256 lib = digest (mb_sha256 lib)"

definition crypto_sha1 :: "mbed_lib \<Rightarrow> bytes option \<Rightarrow> nat \<Rightarrow> bool \<Rightarrow> bytes crypto" where
  "crypto_sha1 lib = digest (mb_sha1 lib)"

definition xor16 :: "bytes \<Rightarrow> bytes \<Rightarrow> bytes" where
  "xor16 a b = map2 (XOR) a b"

text \<open>The memory the buffers lie in.\<close>

type_synonym mem = "nat \<Rightarrow> 8 word"

definition rd :: "mem \<Rightarrow> nat \<Rightarrow> nat \<Rightarrow> bytes" where
  "rd m a n = map m [a..<a + n]"

definition wr :: "mem \<Rightarrow> nat \<Rightarrow> bytes \<Rightarrow> mem" where
  "wr m a xs = (\<lambda>i. if a \<le> i \<and> i < a + length xs then xs ! (i - a) else m i)"

text \<open>k blocks are left at offset off; chain_c and chain_m are the previous blocks.\<close>

fun ige_loop ::
  "mbed_lib \<Rightarrow> bool \<Rightarrow> bytes \<Rightarrow> nat \<Rightarrow> nat \<Rightarrow> nat \<Rightarrow> nat \<Rightarrow> bytes \<Rightarrow> bytes \<Rightarrow> mem \<Rightarrow> crypto_status \<times> mem" where
  "ige_loop lib enc key inp outp 0 off chain_c chain_m m = (Crypto_OK, m)"
| "ige_loop lib enc key inp outp (Suc k) off chain_c chain_m m =
     (let cur_in = rd m (inp + off) AES_BLOCK_BYTES; ob = outp + off;
          tmp = xor16 cur_in (if enc then chain_c else chain_m) in
      case mb_ecb lib enc key tmp of
        None \<Rightarrow> (Crypto_ERR_INTERNAL, m)
      | Some t \<Rightarrow>
          (let m = wr m ob t;
               m = wr m ob (xor16 (rd m ob AES_BLOCK_BYTES) (if enc then chain_m else chain_c))
           in if enc then
                ige_loop lib enc key inp outp k (off + AES_BLOCK_BYTES) (rd m ob AES_BLOCK_BYTES) cur_in m
              else
                ige_loop lib enc key inp outp k (off + AES_BLOCK_BYTES) cur_in (rd m ob AES_BLOCK_BYTES) m))"

definition aes256_ige ::
  "mbed_lib \<Rightarrow> nat option \<Rightarrow> nat \<Rightarrow> bytes option \<Rightarrow> bytes option \<Rightarrow> nat option \<Rightarrow> bool \<Rightarrow> mem \<Rightarrow> crypto_status \<times> mem" where
  "aes256_ige lib inp len key iv outp enc m =
     (case (inp, key, iv, outp) of
        (Some a, Some k, Some v, Some b) \<Rightarrow>
          if len = 0 \<or> len mod AES_BLOCK_BYTES \<noteq> 0 then (Crypto_ERR_INVALID_ARG, m)
          else if \<not> mb_setkey lib enc k then (Crypto_ERR_INTERNAL, m)
          else ige_loop lib enc k a b (len div AES_BLOCK_BYTES) 0 (take AES_BLOCK_BYTES v)
                 (take AES_BLOCK_BYTES (drop AES_BLOCK_BYTES v)) m
      | _ \<Rightarrow> (Crypto_ERR_INVALID_ARG, m))"

definition aes256_ige_encrypt ::
  "mbed_lib \<Rightarrow> nat option \<Rightarrow> nat \<Rightarrow> bytes option \<Rightarrow> bytes option \<Rightarrow> nat option \<Rightarrow> mem \<Rightarrow> crypto_status \<times> mem" where
  "aes256_ige_encrypt lib inp len key iv outp m = aes256_ige lib inp len key iv outp True m"

definition aes256_ige_decrypt ::
  "mbed_lib \<Rightarrow> nat option \<Rightarrow> nat \<Rightarrow> bytes option \<Rightarrow> bytes option \<Rightarrow> nat option \<Rightarrow> mem \<Rightarrow> crypto_status \<times> mem" where
  "aes256_ige_decrypt lib inp len key iv outp m = aes256_ige lib inp len key iv outp False m"

text \<open>A buffer of length zero is refused, as is a NULL pointer.\<close>

definition crypto_modexp :: "mbed_lib \<Rightarrow> bytes option \<Rightarrow> bytes option \<Rightarrow> bytes option \<Rightarrow> bytes crypto" where
  "crypto_modexp lib base exponent modulus =
     (case (base, exponent, modulus) of
        (Some b, Some e, Some md) \<Rightarrow>
          if b = [] \<or> e = [] \<or> md = [] then Inl Crypto_ERR_INVALID_ARG
          else
            (case (mb_read lib b, mb_read lib e, mb_read lib md) of
               (Some mb, Some me, Some mm) \<Rightarrow>
                 if mm = 0 then Inl Crypto_ERR_INVALID_ARG
                 else
                   (case mb_exp_mod lib mb me mm of
                      None \<Rightarrow> Inl Crypto_ERR_INTERNAL
                    | Some mr \<Rightarrow>
                        (case mb_write lib mr (length md) of
                           None \<Rightarrow> Inl Crypto_ERR_INTERNAL | Some out \<Rightarrow> Inr out))
             | _ \<Rightarrow> Inl Crypto_ERR_INTERNAL)
      | _ \<Rightarrow> Inl Crypto_ERR_INVALID_ARG)"

definition crypto_rsa_encrypt :: "mbed_lib \<Rightarrow> bytes option \<Rightarrow> bytes option \<Rightarrow> bytes option \<Rightarrow> bytes crypto" where
  "crypto_rsa_encrypt lib data modulus exponent = crypto_modexp lib data exponent modulus"

definition crypto_dh_compute :: "mbed_lib \<Rightarrow> bytes option \<Rightarrow> bytes option \<Rightarrow> bytes option \<Rightarrow> bytes crypto" where
  "crypto_dh_compute lib base exponent prime = crypto_modexp lib base exponent prime"

section \<open>The mode as equations on blocks\<close>

fun ige_encrypt_blocks :: "(bytes \<Rightarrow> bytes) \<Rightarrow> bytes \<Rightarrow> bytes \<Rightarrow> bytes list \<Rightarrow> bytes list" where
  "ige_encrypt_blocks E c m [] = []"
| "ige_encrypt_blocks E c m (x # xs) =
     (let y = xor16 (E (xor16 x c)) m in y # ige_encrypt_blocks E y x xs)"

fun ige_decrypt_blocks :: "(bytes \<Rightarrow> bytes) \<Rightarrow> bytes \<Rightarrow> bytes \<Rightarrow> bytes list \<Rightarrow> bytes list" where
  "ige_decrypt_blocks D c m [] = []"
| "ige_decrypt_blocks D c m (y # ys) =
     (let x = xor16 (D (xor16 y m)) c in x # ige_decrypt_blocks D y x ys)"

lemma xor16_length [simp]: "length (xor16 a b) = min (length a) (length b)"
  by (simp add: xor16_def)

lemma xor16_twice: "length a \<le> length b \<Longrightarrow> xor16 (xor16 a b) b = a"
  by (induction a b rule: list_induct2') (simp_all add: xor16_def xor.assoc)

lemma ige_blocks_roundtrip:
  assumes "\<And>b. length b = 16 \<Longrightarrow> length (E b) = 16 \<and> D (E b) = b"
  shows "length c = 16 \<Longrightarrow> length m = 16 \<Longrightarrow> \<forall>x\<in>set xs. length x = 16 \<Longrightarrow>
    ige_decrypt_blocks D c m (ige_encrypt_blocks E c m xs) = xs"
  by (induction xs arbitrary: c m) (simp_all add: Let_def assms xor16_twice)

lemma ige_encrypt_length:
  assumes E: "\<And>b. length b = 16 \<Longrightarrow> length (E b) = 16"
  shows "length c = 16 \<Longrightarrow> length m = 16 \<Longrightarrow> \<forall>x\<in>set xs. length x = 16 \<Longrightarrow>
    list_all (\<lambda>y. length y = 16) (ige_encrypt_blocks E c m xs) \<and> length (ige_encrypt_blocks E c m xs) = length xs"
proof (induction xs arbitrary: c m)
  case (Cons x xs)
  let ?y = "xor16 (E (xor16 x c)) m"
  have x: "length x = 16" using Cons.prems(3) by simp
  then have "length ?y = 16" using Cons.prems(1,2) E by simp
  moreover from this have "list_all (\<lambda>y. length y = 16) (ige_encrypt_blocks E ?y x xs) \<and>
      length (ige_encrypt_blocks E ?y x xs) = length xs"
    by (rule Cons.IH) (use x Cons.prems(3) in simp_all)
  ultimately show ?case by (simp add: Let_def)
qed simp

section \<open>The loop computes the mode\<close>

text \<open>The output is the input buffer itself or does not touch it.\<close>

definition apart :: "nat \<Rightarrow> nat \<Rightarrow> nat \<Rightarrow> bool" where
  "apart a b n \<longleftrightarrow> a = b \<or> a + n \<le> b \<or> b + n \<le> a"

lemma rd_length [simp]: "length (rd m a n) = n"
  by (simp add: rd_def)

lemma rd_wr_same: "length xs = n \<Longrightarrow> rd (wr m a xs) a n = xs"
  by (auto simp: rd_def wr_def intro!: nth_equalityI)

lemma rd_wr_other: "a + n \<le> b \<or> b + length xs \<le> a \<Longrightarrow> rd (wr m b xs) a n = rd m a n"
  by (auto simp: rd_def wr_def)

lemma wr_wr: "length xs = length ys \<Longrightarrow> wr (wr m a xs) a ys = wr m a ys"
  by (auto simp: wr_def)

lemma rd_split: "rd m a (n + k) = rd m a n @ rd m (a + n) k"
proof -
  have "[a..<a + (n + k)] = [a..<a + n] @ [a + n..<a + n + k]"
    using upt_add_eq_append[of a "a + n" k] by (simp add: add.assoc)
  then show ?thesis by (simp add: rd_def)
qed

definition cipher_ok :: "mbed_lib \<Rightarrow> bytes \<Rightarrow> (bytes \<Rightarrow> bytes) \<Rightarrow> (bytes \<Rightarrow> bytes) \<Rightarrow> bool" where
  "cipher_ok lib key E D \<longleftrightarrow>
     mb_setkey lib True key \<and> mb_setkey lib False key \<and>
     (\<forall>b. length b = 16 \<longrightarrow> mb_ecb lib True key b = Some (E b) \<and> mb_ecb lib False key b = Some (D b) \<and>
        length (E b) = 16 \<and> length (D b) = 16 \<and> D (E b) = b)"

text \<open>The blocks of a buffer.\<close>

definition blocks_of :: "mem \<Rightarrow> nat \<Rightarrow> nat \<Rightarrow> bytes list" where
  "blocks_of m a k = map (\<lambda>i. rd m (a + i * 16) 16) [0..<k]"

lemma blocks_of_Suc: "blocks_of m a (Suc k) = rd m a 16 # blocks_of m (a + 16) k"
  by (simp add: blocks_of_def upt_conv_Cons map_Suc_upt[symmetric] add.assoc del: upt_Suc)

lemma concat_blocks: "concat (blocks_of m a k) = rd m a (k * 16)"
proof (induction k arbitrary: a)
  case (Suc k)
  then show ?case using rd_split[of m a 16 "k * 16"] by (simp add: blocks_of_Suc)
qed (simp add: blocks_of_def rd_def)

lemma blocks_of_lengths: "length (blocks_of m a k) = k" "list_all (\<lambda>b. length b = 16) (blocks_of m a k)"
  by (simp_all add: blocks_of_def list_all_iff)

lemma blocks_of_cong: "(\<And>i. a \<le> i \<Longrightarrow> i < a + k * 16 \<Longrightarrow> m1 i = m2 i) \<Longrightarrow> blocks_of m1 a k = blocks_of m2 a k"
proof (induction k arbitrary: a)
  case (Suc k)
  have "rd m1 a 16 = rd m2 a 16" using Suc.prems by (auto simp: rd_def)
  moreover have "blocks_of m1 (a + 16) k = blocks_of m2 (a + 16) k" by (rule Suc.IH) (rule Suc.prems, auto)
  ultimately show ?case by (simp add: blocks_of_Suc)
qed (simp add: blocks_of_def)

lemma ige_loop_computes:
  assumes c: "cipher_ok lib key E D" and place: "apart inp outp n" "n = off + k * 16"
    and len: "length cc = 16" "length cm = 16"
  shows "\<exists>m'. ige_loop lib enc key inp outp k off cc cm m = (Crypto_OK, m') \<and>
    blocks_of m' (outp + off) k =
      (if enc then ige_encrypt_blocks E cc cm (blocks_of m (inp + off) k)
       else ige_decrypt_blocks D cc cm (blocks_of m (inp + off) k)) \<and>
    (\<forall>i. i < outp + off \<or> outp + n \<le> i \<longrightarrow> m' i = m i)"
  using place len
proof (induction k arbitrary: off cc cm m)
  case 0
  then show ?case by (simp add: blocks_of_def)
next
  case (Suc k)
  let ?x = "rd m (inp + off) 16" and ?ob = "outp + off"
  let ?t = "xor16 ?x (if enc then cc else cm)"
  let ?e = "if enc then E ?t else D ?t"
  let ?y = "xor16 ?e (if enc then cm else cc)"
  let ?m = "wr m ?ob ?y"
  have t: "length ?t = 16" using Suc.prems(3,4) by simp
  have ecb: "mb_ecb lib enc key ?t = Some ?e" "length ?e = 16"
    using c t unfolding cipher_ok_def by (cases enc; simp)+
  have y: "length ?y = 16" using ecb(2) Suc.prems(3,4) by simp
  have step: "ige_loop lib enc key inp outp (Suc k) off cc cm m =
      (if enc then ige_loop lib enc key inp outp k (off + 16) ?y ?x ?m
       else ige_loop lib enc key inp outp k (off + 16) ?x ?y ?m)"
    using ecb y by (cases enc) (simp_all add: AES_BLOCK_BYTES_def Let_def rd_wr_same wr_wr)
  have n: "n = (off + 16) + k * 16" using Suc.prems(2) by simp
  note x = rd_length[of m "inp + off" 16]
  note both = Suc.IH[OF Suc.prems(1) n y x, of ?m] Suc.IH[OF Suc.prems(1) n x y, of ?m]
  have kept: "blocks_of ?m (inp + (off + 16)) k = blocks_of m (inp + (off + 16)) k"
  proof (rule blocks_of_cong)
    fix i assume "inp + (off + 16) \<le> i" "i < inp + (off + 16) + k * 16"
    then show "?m i = m i" using Suc.prems(1) n y by (auto simp: wr_def apart_def)
  qed
  have "\<exists>m'. ige_loop lib enc key inp outp (Suc k) off cc cm m = (Crypto_OK, m') \<and>
    blocks_of m' (outp + (off + 16)) k =
      (if enc then ige_encrypt_blocks E ?y ?x (blocks_of m (inp + (off + 16)) k)
       else ige_decrypt_blocks D ?x ?y (blocks_of m (inp + (off + 16)) k)) \<and>
    (\<forall>i. i < outp + (off + 16) \<or> outp + n \<le> i \<longrightarrow> m' i = ?m i)"
  proof (cases enc)
    case True
    show ?thesis using both(1) unfolding step kept by (simp only: True if_True)
  next
    case False
    show ?thesis using both(2) unfolding step kept by (simp only: False if_False)
  qed
  then obtain m' where m': "ige_loop lib enc key inp outp (Suc k) off cc cm m = (Crypto_OK, m')"
    "blocks_of m' (outp + (off + 16)) k =
      (if enc then ige_encrypt_blocks E ?y ?x (blocks_of m (inp + (off + 16)) k)
       else ige_decrypt_blocks D ?x ?y (blocks_of m (inp + (off + 16)) k))"
    "\<forall>i. i < outp + (off + 16) \<or> outp + n \<le> i \<longrightarrow> m' i = ?m i" by blast
  have "rd m' ?ob 16 = rd ?m ?ob 16" using m'(3) by (auto simp: rd_def)
  then have first: "rd m' ?ob 16 = ?y" using y by (simp add: rd_wr_same)
  have rest: "\<forall>i. i < ?ob \<or> outp + n \<le> i \<longrightarrow> m' i = m i"
    using m'(3) n y by (auto simp: wr_def)
  have "blocks_of m' ?ob (Suc k) = ?y # blocks_of m' (outp + (off + 16)) k"
    using first by (simp add: blocks_of_Suc add.assoc)
  then show ?case
    using m'(1,2) rest by (cases enc) (simp_all add: blocks_of_Suc Let_def add.assoc)
qed

lemma aes256_ige_computes:
  assumes c: "cipher_ok lib key E D" and n: "0 < n" "n mod 16 = 0" and place: "apart a b n" and iv: "length iv = 32"
  shows "\<exists>m'. aes256_ige lib (Some a) n (Some key) (Some iv) (Some b) enc m = (Crypto_OK, m') \<and>
    blocks_of m' b (n div 16) =
      (if enc then ige_encrypt_blocks E (take 16 iv) (drop 16 iv) (blocks_of m a (n div 16))
       else ige_decrypt_blocks D (take 16 iv) (drop 16 iv) (blocks_of m a (n div 16))) \<and>
    (\<forall>i. i < b \<or> b + n \<le> i \<longrightarrow> m' i = m i)"
proof -
  have len: "length (take 16 iv) = 16" "length (drop 16 iv) = 16" "take 16 (drop 16 iv) = drop 16 iv"
    using iv by simp_all
  have k: "n = 0 + n div 16 * 16" using n by auto
  have key: "mb_setkey lib enc key" using c by (cases enc) (simp_all add: cipher_ok_def)
  show ?thesis
    using ige_loop_computes[OF c place k len(1,2), of enc m] n key len(3)
    by (cases enc) (simp_all add: aes256_ige_def AES_BLOCK_BYTES_def)
qed

text \<open>C34: Decrypting undoes encrypting, also in place: for a block cipher whose decryption inverts
  its encryption, a buffer of any number of blocks that is encrypted into a second and from there
  decrypted into a third holds the old bytes again - each buffer either the one before it or
  apart from it, all other memory left as it was, and the initial vector not changed.\<close>

theorem aes_ige_roundtrip:
  assumes c: "cipher_ok lib key E D" and n: "0 < n" "n mod 16 = 0" and iv: "length iv = 32"
    and place: "apart a b n" "apart b c n"
  shows "\<exists>m1 m2. aes256_ige_encrypt lib (Some a) n (Some key) (Some iv) (Some b) m = (Crypto_OK, m1) \<and>
    aes256_ige_decrypt lib (Some b) n (Some key) (Some iv) (Some c) m1 = (Crypto_OK, m2) \<and>
    rd m2 c n = rd m a n \<and>
    (\<forall>i. (i < b \<or> b + n \<le> i) \<and> (i < c \<or> c + n \<le> i) \<longrightarrow> m2 i = m i)"
proof -
  let ?k = "n div 16" and ?cc = "take 16 iv" and ?cm = "drop 16 iv"
  have len: "length ?cc = 16" "length ?cm = 16" using iv by simp_all
  obtain m1 where m1: "aes256_ige lib (Some a) n (Some key) (Some iv) (Some b) True m = (Crypto_OK, m1)"
    "blocks_of m1 b ?k = ige_encrypt_blocks E ?cc ?cm (blocks_of m a ?k)"
    "\<forall>i. i < b \<or> b + n \<le> i \<longrightarrow> m1 i = m i"
    using aes256_ige_computes[OF c n place(1) iv, of True m] by auto
  obtain m2 where m2: "aes256_ige lib (Some b) n (Some key) (Some iv) (Some c) False m1 = (Crypto_OK, m2)"
    "blocks_of m2 c ?k = ige_decrypt_blocks D ?cc ?cm (blocks_of m1 b ?k)"
    "\<forall>i. i < c \<or> c + n \<le> i \<longrightarrow> m2 i = m1 i"
    using aes256_ige_computes[OF c n place(2) iv, of False m1] by auto
  have cipher: "length y = 16 \<Longrightarrow> length (E y) = 16 \<and> D (E y) = y" for y
    using c by (simp add: cipher_ok_def)
  have "blocks_of m2 c ?k = blocks_of m a ?k"
    unfolding m2(2) m1(2)
    by (rule ige_blocks_roundtrip[OF cipher len]) (use blocks_of_lengths(2)[of m a ?k] in \<open>simp_all add: list_all_iff\<close>)
  then have "rd m2 c (?k * 16) = rd m a (?k * 16)" by (metis concat_blocks)
  moreover have "?k * 16 = n" using n by auto
  ultimately show ?thesis
    using m1 m2 by (auto simp: aes256_ige_encrypt_def aes256_ige_decrypt_def)
qed

text \<open>A cipher to try it on: it inverts every bit.\<close>

definition not_cipher :: mbed_lib where
  "not_cipher =
     \<lparr> mb_sha256 = (\<lambda>m. None), mb_sha1 = (\<lambda>m. None), mb_setkey = (\<lambda>enc key. True),
       mb_ecb = (\<lambda>enc key b. Some (map (\<lambda>x. NOT x) b)), mb_read = (\<lambda>b. None),
       mb_exp_mod = (\<lambda>b e m. None), mb_write = (\<lambda>v n. None) \<rparr>"

theorem aes_ige_roundtrip_witness:
  "\<exists>m1 m2. aes256_ige_encrypt not_cipher (Some 0) 48 (Some []) (Some (replicate 32 5)) (Some 0) (\<lambda>i. of_nat i) = (Crypto_OK, m1) \<and>
     aes256_ige_decrypt not_cipher (Some 0) 48 (Some []) (Some (replicate 32 5)) (Some 48) m1 = (Crypto_OK, m2) \<and>
     rd m2 48 48 = rd (\<lambda>i. of_nat i) 0 48"
proof -
  have "cipher_ok not_cipher [] (map (\<lambda>x. NOT x)) (map (\<lambda>x. NOT x))"
    by (simp add: cipher_ok_def not_cipher_def comp_def)
  from aes_ige_roundtrip[OF this, of 48 "replicate 32 5" 0 0 48 "\<lambda>i. of_nat i"]
  show ?thesis by (auto simp: apart_def)
qed

end
