(* ===== verification/Loader.thy ===== *)
theory Loader
  imports AppPool
begin

text \<open>
  src/components/jpp_native_loader_core: the loader of native apps and of their code modules,
  ELF32 shared objects for RISC-V. Memory is the whole 32-bit address space, so that pointer
  arithmetic, and what lies outside the image, is the code's; pool_addr is the address of the
  app pool and syms the table of exported symbols. The file is the list of its bytes, None when
  it does not open. A null pointer of the code is the address zero here. The flush of the
  instruction cache, log output and the alignment of memory accesses are left out.
\<close>

section \<open>Memory and file\<close>

type_synonym addr = "32 word"
type_synonym memory = "32 word \<Rightarrow> 8 word"

definition rd16 :: "memory \<Rightarrow> addr \<Rightarrow> 16 word" where
  "rd16 m a = ucast (m a) OR push_bit 8 (ucast (m (a + 1)))"

definition rd32 :: "memory \<Rightarrow> addr \<Rightarrow> 32 word" where
  "rd32 m a = ucast (m a) OR push_bit 8 (ucast (m (a + 1))) OR push_bit 16 (ucast (m (a + 2))) OR
     push_bit 24 (ucast (m (a + 3)))"

definition wr32 :: "memory \<Rightarrow> addr \<Rightarrow> 32 word \<Rightarrow> memory" where
  "wr32 m a v = m(a := ucast v, a + 1 := ucast (drop_bit 8 v), a + 2 := ucast (drop_bit 16 v),
     a + 3 := ucast (drop_bit 24 v))"

fun wr_bytes :: "memory \<Rightarrow> addr \<Rightarrow> 8 word list \<Rightarrow> memory" where
  "wr_bytes m a [] = m"
| "wr_bytes m a (b # bs) = wr_bytes (m(a := b)) (a + 1) bs"

definition zero_range :: "memory \<Rightarrow> addr \<Rightarrow> nat \<Rightarrow> memory" where
  "zero_range m a n = wr_bytes m a (replicate n 0)"

text \<open>What fread gives of n bytes at an offset; an offset of 2^31 or more is a negative long,
  which fseek refuses.\<close>

definition pread :: "8 word list \<Rightarrow> 32 word \<Rightarrow> nat \<Rightarrow> 8 word list option" where
  "pread file off n = (if unat off \<ge> 2 ^ 31 then None else Some (take n (drop (unat off) file)))"

definition pread_exact :: "8 word list \<Rightarrow> 32 word \<Rightarrow> nat \<Rightarrow> 8 word list option" where
  "pread_exact file off n =
     (case pread file off n of None \<Rightarrow> None | Some bs \<Rightarrow> if length bs = n then Some bs else None)"

section \<open>ELF structures\<close>

definition PT_LOAD :: "32 word" where "PT_LOAD = 1"
definition PT_DYNAMIC :: "32 word" where "PT_DYNAMIC = 2"
definition DT_NULL :: "32 word" where "DT_NULL = 0"
definition DT_PLTRELSZ :: "32 word" where "DT_PLTRELSZ = 2"
definition DT_HASH :: "32 word" where "DT_HASH = 4"
definition DT_STRTAB :: "32 word" where "DT_STRTAB = 5"
definition DT_SYMTAB :: "32 word" where "DT_SYMTAB = 6"
definition DT_RELA :: "32 word" where "DT_RELA = 7"
definition DT_RELASZ :: "32 word" where "DT_RELASZ = 8"
definition DT_RELAENT :: "32 word" where "DT_RELAENT = 9"
definition DT_SYMENT :: "32 word" where "DT_SYMENT = 11"
definition DT_JMPREL :: "32 word" where "DT_JMPREL = 23"
definition SHN_UNDEF :: "16 word" where "SHN_UNDEF = 0"
definition STB_GLOBAL :: "8 word" where "STB_GLOBAL = 1"
definition R_RISCV_NONE :: "8 word" where "R_RISCV_NONE = 0"
definition R_RISCV_32 :: "8 word" where "R_RISCV_32 = 1"
definition R_RISCV_RELATIVE :: "8 word" where "R_RISCV_RELATIVE = 3"
definition R_RISCV_JUMP_SLOT :: "8 word" where "R_RISCV_JUMP_SLOT = 5"
definition ET_DYN :: "16 word" where "ET_DYN = 3"
definition EM_RISCV :: "16 word" where "EM_RISCV = 243"

definition EHDR_SIZE :: nat where "EHDR_SIZE = 52"
definition PHDR_SIZE :: nat where "PHDR_SIZE = 32"
definition DYN_SIZE :: "32 word" where "DYN_SIZE = 8"
definition SYM_SIZE :: "32 word" where "SYM_SIZE = 16"
definition RELA_SIZE :: "32 word" where "RELA_SIZE = 12"

text \<open>Numbers in a list of bytes, least significant byte first.\<close>

definition le16 :: "8 word list \<Rightarrow> nat \<Rightarrow> 16 word" where
  "le16 bs i = ucast (bs ! i) OR push_bit 8 (ucast (bs ! (i + 1)))"

definition le32 :: "8 word list \<Rightarrow> nat \<Rightarrow> 32 word" where
  "le32 bs i = ucast (bs ! i) OR push_bit 8 (ucast (bs ! (i + 1))) OR push_bit 16 (ucast (bs ! (i + 2))) OR
     push_bit 24 (ucast (bs ! (i + 3)))"

record elf_ehdr =
  e_ident :: "8 word list"
  e_type :: "16 word"
  e_machine :: "16 word"
  e_phoff :: "32 word"
  e_phentsize :: "16 word"
  e_phnum :: "16 word"

definition ehdr_of :: "8 word list \<Rightarrow> elf_ehdr" where
  "ehdr_of bs =
     \<lparr> e_ident = take 16 bs, e_type = le16 bs 16, e_machine = le16 bs 18, e_phoff = le32 bs 28,
       e_phentsize = le16 bs 42, e_phnum = le16 bs 44 \<rparr>"

record elf_phdr =
  p_type :: "32 word"
  p_offset :: "32 word"
  p_vaddr :: "32 word"
  p_filesz :: "32 word"
  p_memsz :: "32 word"

definition phdr_of :: "8 word list \<Rightarrow> elf_phdr" where
  "phdr_of bs =
     \<lparr> p_type = le32 bs 0, p_offset = le32 bs 4, p_vaddr = le32 bs 8, p_filesz = le32 bs 16, p_memsz = le32 bs 20 \<rparr>"

record elf_sym =
  st_name :: "32 word"
  st_value :: "32 word"
  st_info :: "8 word"
  st_shndx :: "16 word"

definition sym_at :: "memory \<Rightarrow> addr \<Rightarrow> elf_sym" where
  "sym_at m a = \<lparr> st_name = rd32 m a, st_value = rd32 m (a + 4), st_info = m (a + 12), st_shndx = rd16 m (a + 14) \<rparr>"

record elf_rela =
  r_offset :: "32 word"
  r_info :: "32 word"
  r_addend :: "32 word"

definition rela_at :: "memory \<Rightarrow> addr \<Rightarrow> elf_rela" where
  "rela_at m a = \<lparr> r_offset = rd32 m a, r_info = rd32 m (a + 4), r_addend = rd32 m (a + 8) \<rparr>"

definition ELF32_R_SYM :: "32 word \<Rightarrow> 32 word" where "ELF32_R_SYM i = drop_bit 8 i"
definition ELF32_R_TYPE :: "32 word \<Rightarrow> 8 word" where "ELF32_R_TYPE i = ucast i"
definition ELF32_ST_BIND :: "8 word \<Rightarrow> 8 word" where "ELF32_ST_BIND i = drop_bit 4 i"

section \<open>Symbols\<close>

text \<open>strcmp with a C text in memory.\<close>

fun mem_streq :: "memory \<Rightarrow> addr \<Rightarrow> string \<Rightarrow> bool" where
  "mem_streq m a [] = (m a = 0)"
| "mem_streq m a (c # cs) = (m a = of_char c \<and> mem_streq m (a + 1) cs)"

type_synonym symtab = "(string \<times> addr) list"

fun lookup_sym :: "symtab \<Rightarrow> memory \<Rightarrow> addr \<Rightarrow> addr" where
  "lookup_sym [] m name = 0"
| "lookup_sym ((n, a) # syms) m name = (if mem_streq m name n then a else lookup_sym syms m name)"

datatype loader_result =
  Loader_OK | Loader_READ_FAILED | Loader_INVALID_ELF | Loader_UNSUPPORTED | Loader_NO_MEMORY
| Loader_UNRESOLVED_SYM | Loader_NO_ENTRY | Loader_BAD_STATE

section \<open>Headers\<close>

definition ehdr_valid :: "elf_ehdr \<Rightarrow> bool" where
  "ehdr_valid h \<longleftrightarrow>
     e_ident h ! 0 = 0x7F \<and> e_ident h ! 1 = 0x45 \<and> e_ident h ! 2 = 0x4C \<and> e_ident h ! 3 = 0x46 \<and>
     e_ident h ! 4 = 1 \<and> e_ident h ! 5 = 1 \<and>
     e_machine h = EM_RISCV \<and> e_type h = ET_DYN \<and>
     unat (e_phentsize h) \<ge> PHDR_SIZE \<and> e_phnum h \<noteq> 0 \<and> e_phnum h \<le> 8"

fun read_phdrs :: "8 word list \<Rightarrow> elf_ehdr \<Rightarrow> nat list \<Rightarrow> elf_phdr list option" where
  "read_phdrs file h [] = Some []"
| "read_phdrs file h (i # is) =
     (case pread_exact file (e_phoff h + of_nat i * ucast (e_phentsize h)) PHDR_SIZE of
        None \<Rightarrow> None
      | Some bs \<Rightarrow> map_option (\<lambda>ps. phdr_of bs # ps) (read_phdrs file h is))"

definition is_load :: "elf_phdr \<Rightarrow> bool" where
  "is_load p \<longleftrightarrow> p_type p = PT_LOAD \<and> p_memsz p > 0"

text \<open>The least address and the largest end (which wraps) of the segments to load.\<close>

definition vaddr_range :: "elf_phdr list \<Rightarrow> 32 word \<times> 32 word" where
  "vaddr_range phdrs =
     fold (\<lambda>p (lo, hi). if is_load p
             then (if p_vaddr p < lo then p_vaddr p else lo,
                   let seg_end = p_vaddr p + p_memsz p in if seg_end > hi then seg_end else hi)
             else (lo, hi)) phdrs (0xFFFFFFFF, 0)"

text \<open>Every segment is read to its place; the first short read ends the loop.\<close>

fun load_segments :: "8 word list \<Rightarrow> addr \<Rightarrow> elf_phdr list \<Rightarrow> memory \<Rightarrow> bool \<times> memory" where
  "load_segments file delta [] m = (True, m)"
| "load_segments file delta (p # ps) m =
     (if \<not> is_load p \<or> p_filesz p = 0 then load_segments file delta ps m
      else
        (case pread file (p_offset p) (unat (p_filesz p)) of
           None \<Rightarrow> (False, m)
         | Some bs \<Rightarrow>
             let m = wr_bytes m (delta + p_vaddr p) bs
             in if length bs = unat (p_filesz p) then load_segments file delta ps m else (False, m)))"

section \<open>The dynamic section\<close>

record dyn =
  dt_strtab :: "32 word"
  dt_symtab :: "32 word"
  dt_syment :: "32 word"
  dt_hash :: "32 word"
  dt_rela :: "32 word"
  dt_relasz :: "32 word"
  dt_relaent :: "32 word"
  dt_jmprel :: "32 word"
  dt_pltrelsz :: "32 word"

definition dyn0 :: dyn where
  "dyn0 = \<lparr> dt_strtab = 0, dt_symtab = 0, dt_syment = 0, dt_hash = 0, dt_rela = 0, dt_relasz = 0,
     dt_relaent = 0, dt_jmprel = 0, dt_pltrelsz = 0 \<rparr>"

definition dyn_entry :: "32 word \<Rightarrow> 32 word \<Rightarrow> dyn \<Rightarrow> dyn" where
  "dyn_entry tag v d =
     (if tag = DT_STRTAB then d\<lparr> dt_strtab := v \<rparr>
      else if tag = DT_SYMTAB then d\<lparr> dt_symtab := v \<rparr>
      else if tag = DT_SYMENT then d\<lparr> dt_syment := v \<rparr>
      else if tag = DT_HASH then d\<lparr> dt_hash := v \<rparr>
      else if tag = DT_RELA then d\<lparr> dt_rela := v \<rparr>
      else if tag = DT_RELASZ then d\<lparr> dt_relasz := v \<rparr>
      else if tag = DT_RELAENT then d\<lparr> dt_relaent := v \<rparr>
      else if tag = DT_JMPREL then d\<lparr> dt_jmprel := v \<rparr>
      else if tag = DT_PLTRELSZ then d\<lparr> dt_pltrelsz := v \<rparr>
      else d)"

fun parse_dyn :: "memory \<Rightarrow> addr \<Rightarrow> nat \<Rightarrow> dyn \<Rightarrow> dyn" where
  "parse_dyn m a 0 d = d"
| "parse_dyn m a (Suc k) d =
     (if rd32 m a = DT_NULL then d
      else parse_dyn m (a + DYN_SIZE) k (dyn_entry (rd32 m a) (rd32 m (a + 4)) d))"

text \<open>The first segment of type PT_DYNAMIC.\<close>

definition find_dynamic :: "elf_phdr list \<Rightarrow> 32 word \<times> 32 word" where
  "find_dynamic phdrs =
     (case find (\<lambda>p. p_type p = PT_DYNAMIC) phdrs of
        None \<Rightarrow> (0, 0) | Some p \<Rightarrow> (p_vaddr p, p_filesz p div DYN_SIZE))"

text \<open>The pointers into the loaded image.\<close>

record tables =
  t_load_base :: addr
  t_delta :: addr
  t_strtab :: addr
  t_symtab :: addr
  t_sym_ent :: "32 word"
  t_sym_count :: "32 word"

definition tables_of :: "memory \<Rightarrow> addr \<Rightarrow> addr \<Rightarrow> dyn \<Rightarrow> tables" where
  "tables_of m load_base delta d =
     \<lparr> t_load_base = load_base, t_delta = delta, t_strtab = delta + dt_strtab d, t_symtab = delta + dt_symtab d,
       t_sym_ent = (if dt_syment d > 0 then dt_syment d else SYM_SIZE),
       t_sym_count = (if dt_hash d \<noteq> 0 then rd32 m (delta + dt_hash d + 4) else 0) \<rparr>"

definition symbol :: "tables \<Rightarrow> memory \<Rightarrow> 32 word \<Rightarrow> elf_sym" where
  "symbol t m idx = sym_at m (t_symtab t + idx * t_sym_ent t)"

section \<open>Relocation\<close>

text \<open>What one entry of a relocation table asks for.\<close>

datatype action = Patch addr "32 word" | Skip | Fail loader_result

text \<open>The address a symbol stands for; None when no exported symbol has its name.\<close>

definition resolve :: "symtab \<Rightarrow> tables \<Rightarrow> memory \<Rightarrow> 32 word \<Rightarrow> 32 word option" where
  "resolve syms t m idx =
     (let s = symbol t m idx in
      if st_shndx s = SHN_UNDEF then
        (let f = lookup_sym syms m (t_strtab t + st_name s) in if f = 0 then None else Some f)
      else Some (t_delta t + st_value s))"

definition rela_action :: "symtab \<Rightarrow> tables \<Rightarrow> memory \<Rightarrow> elf_rela \<Rightarrow> action" where
  "rela_action syms t m r =
     (let r_type = ELF32_R_TYPE (r_info r); r_sym = ELF32_R_SYM (r_info r); patch = t_delta t + r_offset r in
      if r_type = R_RISCV_RELATIVE then Patch patch (t_load_base t + r_addend r)
      else if r_type = R_RISCV_32 then
        (if r_sym \<noteq> 0 \<and> r_sym < t_sym_count t then
           (case resolve syms t m r_sym of
              None \<Rightarrow> Fail Loader_UNRESOLVED_SYM | Some v \<Rightarrow> Patch patch (v + r_addend r))
         else Patch patch (r_addend r))
      else if r_type = R_RISCV_JUMP_SLOT then
        (if r_sym = 0 \<or> r_sym \<ge> t_sym_count t then Skip
         else
           (case resolve syms t m r_sym of
              None \<Rightarrow> Fail Loader_UNRESOLVED_SYM | Some v \<Rightarrow> Patch patch v))
      else if r_type = R_RISCV_NONE then Skip
      else Fail Loader_UNSUPPORTED)"

definition plt_action :: "symtab \<Rightarrow> tables \<Rightarrow> memory \<Rightarrow> elf_rela \<Rightarrow> action" where
  "plt_action syms t m r =
     (let r_sym = ELF32_R_SYM (r_info r) in
      if ELF32_R_TYPE (r_info r) \<noteq> R_RISCV_JUMP_SLOT then Fail Loader_UNSUPPORTED
      else if r_sym = 0 \<or> r_sym \<ge> t_sym_count t then Skip
      else
        (case resolve syms t m r_sym of
           None \<Rightarrow> Fail Loader_UNRESOLVED_SYM | Some v \<Rightarrow> Patch (t_delta t + r_offset r) v))"

text \<open>k entries are left at address a.\<close>

fun relocate :: "(memory \<Rightarrow> elf_rela \<Rightarrow> action) \<Rightarrow> 32 word \<Rightarrow> nat \<Rightarrow> addr \<Rightarrow> memory \<Rightarrow> loader_result \<times> memory" where
  "relocate act ent 0 a m = (Loader_OK, m)"
| "relocate act ent (Suc k) a m =
     (case act m (rela_at m a) of
        Fail r \<Rightarrow> (r, m)
      | Skip \<Rightarrow> relocate act ent k (a + ent) m
      | Patch p v \<Rightarrow> relocate act ent k (a + ent) (wr32 m p v))"

definition rela_ent :: "dyn \<Rightarrow> 32 word" where
  "rela_ent d = (if dt_relaent d > 0 then dt_relaent d else RELA_SIZE)"

definition relocate_all :: "symtab \<Rightarrow> tables \<Rightarrow> dyn \<Rightarrow> memory \<Rightarrow> loader_result \<times> memory" where
  "relocate_all syms t d m =
     (let (r, m) = (if dt_rela d \<noteq> 0 \<and> dt_relasz d > 0
                    then relocate (rela_action syms t) (rela_ent d) (unat (dt_relasz d div rela_ent d))
                           (t_delta t + dt_rela d) m
                    else (Loader_OK, m))
      in if r \<noteq> Loader_OK then (r, m)
         else if dt_jmprel d \<noteq> 0 \<and> dt_pltrelsz d > 0
         then relocate (plt_action syms t) (rela_ent d) (unat (dt_pltrelsz d div rela_ent d))
                (t_delta t + dt_jmprel d) m
         else (Loader_OK, m))"

section \<open>Entry symbols\<close>

text \<open>k symbols are left from index idx on; the addresses found so far, zero when none.\<close>

fun find_entries ::
  "tables \<Rightarrow> memory \<Rightarrow> string \<Rightarrow> string option \<Rightarrow> nat \<Rightarrow> 32 word \<Rightarrow> addr \<Rightarrow> addr \<Rightarrow> addr \<times> addr" where
  "find_entries t m name name2 0 idx e1 e2 = (e1, e2)"
| "find_entries t m name name2 (Suc k) idx e1 e2 =
     (let s = symbol t m idx in
      if st_shndx s = SHN_UNDEF \<or> ELF32_ST_BIND (st_info s) \<noteq> STB_GLOBAL
      then find_entries t m name name2 k (idx + 1) e1 e2
      else
        (let sname = t_strtab t + st_name s;
             e1' = (if mem_streq m sname name then t_delta t + st_value s else e1);
             e2' = (if \<not> mem_streq m sname name \<and>
                       (case name2 of None \<Rightarrow> False | Some n2 \<Rightarrow> mem_streq m sname n2)
                    then t_delta t + st_value s else e2)
         in if e1' \<noteq> 0 \<and> (name2 = None \<or> e2' \<noteq> 0) then (e1', e2')
            else find_entries t m name name2 k (idx + 1) e1' e2'))"

section \<open>Loading an image\<close>

record image =
  im_mem :: addr
  im_size :: "32 word"
  im_vaddr_base :: "32 word"
  im_entry :: addr
  im_entry2 :: addr

text \<open>The watermark of the pool and the module that is loaded, by its handle.\<close>

record loader =
  s_pool_base :: addr
  s_pool_used :: "32 word"
  s_active_module :: "nat option"

definition loader_boot :: loader where
  "loader_boot = \<lparr> s_pool_base = 0, s_pool_used = 0, s_active_module = None \<rparr>"

definition loader_align :: "32 word \<Rightarrow> 32 word" where
  "loader_align sz = (sz + 15) AND NOT 15"

definition place_image ::
  "addr \<Rightarrow> bool \<Rightarrow> 32 word \<Rightarrow> loader \<Rightarrow> app_pool \<Rightarrow> addr option \<times> app_pool" where
  "place_image pool_addr as_module total_size st pool =
     (if \<not> as_module then
        (case app_pool_acquire total_size pool of
           (None, pool) \<Rightarrow> (None, pool)
         | (Some (off, cap), pool) \<Rightarrow> (Some (pool_addr + off), pool))
      else
        (let tail_off = loader_align (s_pool_used st) in
         if tail_off + total_size > app_pool_size then (None, pool)
         else (Some (s_pool_base st + tail_off), pool)))"

definition free_mem :: "bool \<Rightarrow> app_pool \<Rightarrow> app_pool" where
  "free_mem as_module pool = (if \<not> as_module then app_pool_release pool else pool)"

text \<open>From the segments on: the result, the entries and the memory.\<close>

definition link_image ::
  "symtab \<Rightarrow> 8 word list \<Rightarrow> elf_phdr list \<Rightarrow> string \<Rightarrow> string option \<Rightarrow> addr \<Rightarrow> 32 word \<Rightarrow> memory \<Rightarrow>
     loader_result \<times> (addr \<times> addr) \<times> memory" where
  "link_image syms file phdrs name name2 load_base vaddr_min m =
     (let delta = load_base - vaddr_min; (ok, m) = load_segments file delta phdrs m in
      if \<not> ok then (Loader_READ_FAILED, (0, 0), m)
      else
        (let (dyn_vaddr, dyn_count) = find_dynamic phdrs in
         if dyn_vaddr = 0 then (Loader_INVALID_ELF, (0, 0), m)
         else
           (let d = parse_dyn m (delta + dyn_vaddr) (unat dyn_count) dyn0 in
            if dt_strtab d = 0 \<or> dt_symtab d = 0 then (Loader_INVALID_ELF, (0, 0), m)
            else
              (let t = tables_of m load_base delta d; (r, m) = relocate_all syms t d m in
               if r \<noteq> Loader_OK then (r, (0, 0), m)
               else
                 (let (e1, e2) = find_entries t m name name2 (unat (t_sym_count t) - 1) 1 0 0 in
                  if e1 = 0 then (Loader_NO_ENTRY, (0, 0), m) else (Loader_OK, (e1, e2), m))))))"

definition load_image ::
  "addr \<Rightarrow> symtab \<Rightarrow> 8 word list option \<Rightarrow> bool \<Rightarrow> string \<Rightarrow> string option \<Rightarrow> loader \<Rightarrow> app_pool \<Rightarrow> memory \<Rightarrow>
     loader_result \<times> image option \<times> app_pool \<times> memory" where
  "load_image pool_addr syms path as_module name name2 st pool m =
     (case path of
        None \<Rightarrow> (Loader_READ_FAILED, None, pool, m)
      | Some file \<Rightarrow>
          (case pread_exact file 0 EHDR_SIZE of
             None \<Rightarrow> (Loader_READ_FAILED, None, pool, m)
           | Some hb \<Rightarrow>
               (let h = ehdr_of hb in
                if \<not> ehdr_valid h then (Loader_INVALID_ELF, None, pool, m)
                else
                  (case read_phdrs file h [0..<unat (e_phnum h)] of
                     None \<Rightarrow> (Loader_READ_FAILED, None, pool, m)
                   | Some phdrs \<Rightarrow>
                       (let (vaddr_min, vaddr_max) = vaddr_range phdrs in
                        if vaddr_max \<le> vaddr_min then (Loader_INVALID_ELF, None, pool, m)
                        else
                          (let total_size = vaddr_max - vaddr_min in
                           case place_image pool_addr as_module total_size st pool of
                             (None, pool) \<Rightarrow> (Loader_NO_MEMORY, None, pool, m)
                           | (Some mem, pool) \<Rightarrow>
                               (let m = zero_range m mem (unat total_size);
                                    (r, (e1, e2), m) = link_image syms file phdrs name name2 mem vaddr_min m
                                in if r \<noteq> Loader_OK then (r, None, free_mem as_module pool, m)
                                   else (Loader_OK, Some \<lparr> im_mem = mem, im_size = total_size,
                                           im_vaddr_base = vaddr_min, im_entry = e1, im_entry2 = e2 \<rparr>,
                                         pool, m))))))))"

section \<open>Apps and modules\<close>

definition app_entry_name :: string where "app_entry_name = ''jpp_app_entry''"
definition task_entry_name :: string where "task_entry_name = ''jpp_app_task_entry''"
definition module_entry_name :: string where "module_entry_name = ''jpp_module_entry''"

text \<open>allocated: malloc gives the handle. The path and the out pointer may be NULL (bad_arg).\<close>

definition native_loader_load ::
  "addr \<Rightarrow> symtab \<Rightarrow> bool \<Rightarrow> bool \<Rightarrow> 8 word list option \<Rightarrow> loader \<Rightarrow> app_pool \<Rightarrow> memory \<Rightarrow>
     loader_result \<times> image option \<times> loader \<times> app_pool \<times> memory" where
  "native_loader_load pool_addr syms bad_arg allocated path st pool m =
     (if bad_arg then (Loader_INVALID_ELF, None, st, pool, m)
      else
        (case load_image pool_addr syms path False app_entry_name (Some task_entry_name) st pool m of
           (r, img, pool, m) \<Rightarrow>
             if r \<noteq> Loader_OK then (r, None, st, pool, m)
             else if \<not> allocated then (Loader_NO_MEMORY, None, st, app_pool_release pool, m)
             else (Loader_OK, img, st\<lparr> s_pool_base := im_mem (the img), s_pool_used := im_size (the img) \<rparr>, pool, m)))"

text \<open>handle: the new module handle, when malloc gives one.\<close>

definition native_loader_load_module ::
  "addr \<Rightarrow> symtab \<Rightarrow> bool \<Rightarrow> nat option \<Rightarrow> 8 word list option \<Rightarrow> loader \<Rightarrow> app_pool \<Rightarrow> memory \<Rightarrow>
     loader_result \<times> image option \<times> loader \<times> app_pool \<times> memory" where
  "native_loader_load_module pool_addr syms bad_arg handle path st pool m =
     (if bad_arg then (Loader_INVALID_ELF, None, st, pool, m)
      else if s_pool_base st = 0 then (Loader_BAD_STATE, None, st, pool, m)
      else if s_active_module st \<noteq> None then (Loader_BAD_STATE, None, st, pool, m)
      else
        (case load_image pool_addr syms path True module_entry_name None st pool m of
           (r, img, pool, m) \<Rightarrow>
             if r \<noteq> Loader_OK then (r, None, st, pool, m)
             else
               (case handle of
                  None \<Rightarrow> (Loader_NO_MEMORY, None, st, pool, m)
                | Some k \<Rightarrow> (Loader_OK, img, st\<lparr> s_active_module := Some k \<rparr>, pool, m))))"

definition native_loader_module_free :: "nat option \<Rightarrow> loader \<Rightarrow> loader" where
  "native_loader_module_free module st =
     (case module of
        None \<Rightarrow> st
      | Some k \<Rightarrow> if s_active_module st = Some k then st\<lparr> s_active_module := None \<rparr> else st)"

text \<open>The app is None for NULL; its memory is always set after a load.\<close>

definition native_loader_free :: "image option \<Rightarrow> loader \<Rightarrow> app_pool \<Rightarrow> loader \<times> app_pool" where
  "native_loader_free app st pool =
     (case app of
        None \<Rightarrow> (st, pool)
      | Some a \<Rightarrow>
          (let st = (if s_active_module st \<noteq> None then native_loader_module_free (s_active_module st) st else st);
               pool = (if im_mem a \<noteq> 0 then app_pool_release pool else pool)
           in (st\<lparr> s_pool_base := 0, s_pool_used := 0 \<rparr>, pool)))"

text \<open>What running calls: the address of the function, if one is called.\<close>

definition native_loader_run :: "image option \<Rightarrow> bool \<Rightarrow> addr option" where
  "native_loader_run app ctx_ok =
     (case app of None \<Rightarrow> None | Some a \<Rightarrow> if im_entry a = 0 \<or> \<not> ctx_ok then None else Some (im_entry a))"

definition native_loader_run_task :: "image option \<Rightarrow> bool \<Rightarrow> string option \<Rightarrow> addr option" where
  "native_loader_run_task app ctx_ok task_name =
     (case app of
        None \<Rightarrow> None
      | Some a \<Rightarrow> if im_entry2 a = 0 \<or> \<not> ctx_ok \<or> task_name = None then None else Some (im_entry2 a))"

definition native_loader_module_run :: "image option \<Rightarrow> bool \<Rightarrow> addr option" where
  "native_loader_module_run module ctx_ok = native_loader_run module ctx_ok"

definition native_loader_result_name :: "loader_result \<Rightarrow> string" where
  "native_loader_result_name r =
     (case r of
        Loader_OK \<Rightarrow> ''OK'' | Loader_READ_FAILED \<Rightarrow> ''READ_FAILED'' | Loader_INVALID_ELF \<Rightarrow> ''INVALID_ELF''
      | Loader_UNSUPPORTED \<Rightarrow> ''UNSUPPORTED'' | Loader_NO_MEMORY \<Rightarrow> ''NO_MEMORY''
      | Loader_UNRESOLVED_SYM \<Rightarrow> ''UNRESOLVED_SYM'' | Loader_NO_ENTRY \<Rightarrow> ''NO_ENTRY''
      | Loader_BAD_STATE \<Rightarrow> ''BAD_STATE'')"

section \<open>What a write leaves\<close>

definition window :: "addr \<Rightarrow> nat \<Rightarrow> addr set" where
  "window a n = (\<lambda>k. a + of_nat k) ` {..<n}"

lemma window_mem: "k < n \<Longrightarrow> a + of_nat k \<in> window a n"
  by (auto simp: window_def)

lemma window_self [simp]: "0 < n \<Longrightarrow> a \<in> window a n"
  using window_mem[of 0 n a] by simp

lemma window4: "a \<in> window a 4" "a + 1 \<in> window a 4" "a + 2 \<in> window a 4" "a + 3 \<in> window a 4"
  using window_mem[of 0 4 a] window_mem[of 1 4 a] window_mem[of 2 4 a] window_mem[of 3 4 a] by simp_all

lemma window_sub: "j + k \<le> n \<Longrightarrow> window (a + of_nat j) k \<subseteq> window a n"
proof
  fix x assume le: "j + k \<le> n" and "x \<in> window (a + of_nat j) k"
  then obtain i where i: "x = a + of_nat j + of_nat i" "i < k" by (auto simp: window_def)
  then have "x = a + of_nat (j + i)" by simp
  then show "x \<in> window a n" using window_mem[of "j + i" n a] i(2) le by simp
qed

lemma rd32_cong: "(\<And>x. x \<in> window a 4 \<Longrightarrow> m1 x = m2 x) \<Longrightarrow> rd32 m1 a = rd32 m2 a"
  using window4[of a] by (simp add: rd32_def)

lemma wr32_other: "x \<notin> window a 4 \<Longrightarrow> wr32 m a v x = m x"
  using window4[of a] by (auto simp: wr32_def)

lemma four_apart: "(a :: addr) \<noteq> a + 1" "a \<noteq> a + 2" "a \<noteq> a + 3" "a + 1 \<noteq> a + 2" "a + 1 \<noteq> a + 3" "a + 2 \<noteq> a + 3"
  by simp_all

lemma rd32_wr32: "rd32 (wr32 m a v) a = v"
proof -
  have "rd32 (wr32 m a v) a =
      ucast (ucast v :: 8 word) OR push_bit 8 (ucast (ucast (drop_bit 8 v) :: 8 word)) OR
      push_bit 16 (ucast (ucast (drop_bit 16 v) :: 8 word)) OR push_bit 24 (ucast (ucast (drop_bit 24 v) :: 8 word))"
    by (simp add: rd32_def wr32_def)
  also have "\<dots> = v"
  proof (rule bit_word_eqI)
    fix n assume "n < LENGTH(32)"
    then consider "n < 8" | "8 \<le> n" "n < 16" | "16 \<le> n" "n < 24" | "24 \<le> n" "n < 32" by fastforce
    then show "bit (ucast (ucast v :: 8 word) OR push_bit 8 (ucast (ucast (drop_bit 8 v) :: 8 word)) OR
        push_bit 16 (ucast (ucast (drop_bit 16 v) :: 8 word)) OR
        push_bit 24 (ucast (ucast (drop_bit 24 v) :: 8 word)) :: 32 word) n = bit v n"
      by cases (simp_all add: bit_simps less_diff_conv2)
  qed
  finally show ?thesis .
qed

lemma rd32_wr32_other: "window a 4 \<inter> window p 4 = {} \<Longrightarrow> rd32 (wr32 m p v) a = rd32 m a"
  by (rule rd32_cong) (auto intro: wr32_other)

lemma wr_bytes_other: "x \<notin> window a (length bs) \<Longrightarrow> wr_bytes m a bs x = m x"
proof (induction bs arbitrary: m a)
  case (Cons b bs)
  have "window (a + of_nat 1) (length bs) \<subseteq> window a (Suc (length bs))" by (rule window_sub) simp
  then have "x \<notin> window (a + 1) (length bs)" using Cons.prems by auto
  moreover have "x \<noteq> a" using Cons.prems window_mem[of 0 "Suc (length bs)" a] by auto
  ultimately show ?case using Cons.IH by simp
qed simp

section \<open>Patches\<close>

definition apply_patches :: "(addr \<times> 32 word) list \<Rightarrow> memory \<Rightarrow> memory" where
  "apply_patches ps m = fold (\<lambda>(p, v) m. wr32 m p v) ps m"

definition frozen :: "addr set \<Rightarrow> memory \<Rightarrow> memory \<Rightarrow> bool" where
  "frozen T m1 m \<longleftrightarrow> (\<forall>x\<in>T. m x = m1 x)"

lemma apply_patches_simps [simp]:
  "apply_patches [] m = m" "apply_patches ((p, v) # ps) m = apply_patches ps (wr32 m p v)"
  "apply_patches (ps @ qs) m = apply_patches qs (apply_patches ps m)"
  by (simp_all add: apply_patches_def)

lemma apply_patches_other: "(\<And>p v. (p, v) \<in> set ps \<Longrightarrow> x \<notin> window p 4) \<Longrightarrow> apply_patches ps m x = m x"
proof (induction ps arbitrary: m)
  case (Cons q ps)
  obtain p v where q: "q = (p, v)" by (metis surj_pair)
  have out: "x \<notin> window p 4" by (rule Cons.prems[of p v]) (simp add: q)
  have "apply_patches ps (wr32 m p v) x = wr32 m p v x"
    by (rule Cons.IH) (rule Cons.prems, erule list.set_intros(2))
  then show ?case by (simp add: q wr32_other[OF out])
qed simp

lemma apply_patches_value:
  assumes "\<And>p v. (p, v) \<in> set qs \<Longrightarrow> window a 4 \<inter> window p 4 = {}"
  shows "rd32 (apply_patches (ps @ (a, w) # qs) m) a = w"
proof -
  have "rd32 (apply_patches qs (wr32 (apply_patches ps m) a w)) a = rd32 (wr32 (apply_patches ps m) a w) a"
    by (rule rd32_cong) (use assms in \<open>blast intro: apply_patches_other\<close>)
  then show ?thesis by (simp add: rd32_wr32)
qed

lemma rela_at_cong: "(\<And>x. x \<in> window a 12 \<Longrightarrow> m1 x = m2 x) \<Longrightarrow> rela_at m1 a = rela_at m2 a"
proof -
  assume same: "\<And>x. x \<in> window a 12 \<Longrightarrow> m1 x = m2 x"
  have "window (a + of_nat 0) 4 \<subseteq> window a 12" "window (a + of_nat 4) 4 \<subseteq> window a 12" "window (a + of_nat 8) 4 \<subseteq> window a 12"
    by (rule window_sub; simp)+
  then have "rd32 m1 a = rd32 m2 a" "rd32 m1 (a + 4) = rd32 m2 (a + 4)" "rd32 m1 (a + 8) = rd32 m2 (a + 8)"
    using same by (auto intro!: rd32_cong)
  then show ?thesis by (simp add: rela_at_def)
qed

text \<open>The entries of both tables in the order the loader visits them, each with what is done
  for its table.\<close>

type_synonym slot = "(memory \<Rightarrow> elf_rela \<Rightarrow> action) \<times> addr"

definition slots_at :: "(memory \<Rightarrow> elf_rela \<Rightarrow> action) \<Rightarrow> 32 word \<Rightarrow> nat \<Rightarrow> addr \<Rightarrow> slot list" where
  "slots_at act ent k a = map (\<lambda>i. (act, a + of_nat i * ent)) [0..<k]"

definition all_slots :: "symtab \<Rightarrow> tables \<Rightarrow> dyn \<Rightarrow> slot list" where
  "all_slots syms t d =
     (if dt_rela d \<noteq> 0 \<and> dt_relasz d > 0
      then slots_at (rela_action syms t) (rela_ent d) (unat (dt_relasz d div rela_ent d)) (t_delta t + dt_rela d)
      else []) @
     (if dt_jmprel d \<noteq> 0 \<and> dt_pltrelsz d > 0
      then slots_at (plt_action syms t) (rela_ent d) (unat (dt_pltrelsz d div rela_ent d)) (t_delta t + dt_jmprel d)
      else [])"

fun run_slots :: "slot list \<Rightarrow> memory \<Rightarrow> loader_result \<times> memory" where
  "run_slots [] m = (Loader_OK, m)"
| "run_slots ((act, e) # es) m =
     (case act m (rela_at m e) of
        Fail r \<Rightarrow> (r, m) | Skip \<Rightarrow> run_slots es m | Patch p v \<Rightarrow> run_slots es (wr32 m p v))"

lemma slots_at_0 [simp]: "slots_at act ent 0 a = []"
  by (simp add: slots_at_def)

lemma slots_at_Suc: "slots_at act ent (Suc k) a = (act, a) # slots_at act ent k (a + ent)"
proof -
  have next_entry: "a + of_nat (Suc i) * ent = a + ent + of_nat i * ent" for i by (simp add: algebra_simps)
  have "[0..<Suc k] = 0 # map Suc [0..<k]" by (simp add: map_Suc_upt upt_conv_Cons del: upt_Suc)
  then show ?thesis
    unfolding slots_at_def by (simp only: list.map map_map comp_def next_entry) simp
qed

lemma relocate_run: "relocate act ent k a m = run_slots (slots_at act ent k a) m"
  by (induction k arbitrary: a m) (auto simp: slots_at_Suc split: action.splits)

lemma run_slots_append:
  "(\<And>m act e r. (act, e) \<in> set xs \<Longrightarrow> act m r \<noteq> Fail Loader_OK) \<Longrightarrow>
     run_slots (xs @ ys) m = (let (r, m) = run_slots xs m in if r \<noteq> Loader_OK then (r, m) else run_slots ys m)"
proof (induction xs arbitrary: m)
  case (Cons x xs)
  obtain act e where x: "x = (act, e)" by (cases x)
  have ok: "act m r \<noteq> Fail Loader_OK" for m r using Cons.prems[of act e] x by simp
  have IH: "run_slots (xs @ ys) m = (let (r, m) = run_slots xs m in if r \<noteq> Loader_OK then (r, m) else run_slots ys m)" for m
    by (rule Cons.IH) (erule Cons.prems[OF list.set_intros(2)])
  show ?case using ok by (cases "act m (rela_at m e)") (auto simp: x IH)
qed simp

lemma actions_not_ok: "rela_action syms t m r \<noteq> Fail Loader_OK" "plt_action syms t m r \<noteq> Fail Loader_OK"
  by (auto simp: rela_action_def plt_action_def Let_def split: option.splits)

lemma slots_not_ok: "(act, e) \<in> set (all_slots syms t d) \<Longrightarrow> act m r \<noteq> Fail Loader_OK"
  using actions_not_ok by (auto simp: all_slots_def slots_at_def split: if_splits)

lemma relocate_all_run: "relocate_all syms t d m = run_slots (all_slots syms t d) m"
proof -
  let ?xs = "if dt_rela d \<noteq> 0 \<and> dt_relasz d > 0
      then slots_at (rela_action syms t) (rela_ent d) (unat (dt_relasz d div rela_ent d)) (t_delta t + dt_rela d) else []"
  have "run_slots (?xs @ ys) m = (let (r, m) = run_slots ?xs m in if r \<noteq> Loader_OK then (r, m) else run_slots ys m)" for ys
    by (rule run_slots_append) (use actions_not_ok in \<open>auto simp: slots_at_def split: if_splits\<close>)
  then show ?thesis
    unfolding all_slots_def relocate_all_def by (simp add: relocate_run Let_def split: prod.splits)
qed

text \<open>A relocation run writes the patches that its tables ask for in the memory before the run, as
  long as no patch touches what the run reads; when it stops with an error, a first part of them.\<close>

definition entry_safe :: "addr set \<Rightarrow> memory \<Rightarrow> slot \<Rightarrow> bool" where
  "entry_safe T m s \<longleftrightarrow>
     (case s of (act, e) \<Rightarrow>
        window e 12 \<subseteq> T \<and> (\<forall>m'. frozen T m m' \<longrightarrow> act m' (rela_at m e) = act m (rela_at m e)) \<and>
        (\<forall>p v. act m (rela_at m e) = Patch p v \<longrightarrow> window p 4 \<inter> T = {}))"

definition patches :: "slot list \<Rightarrow> memory \<Rightarrow> (addr \<times> 32 word) list" where
  "patches es m = concat (map (\<lambda>(act, e). case act m (rela_at m e) of Patch p v \<Rightarrow> [(p, v)] | _ \<Rightarrow> []) es)"

lemma patches_simps [simp]:
  "patches [] m = []"
  "patches ((act, e) # es) m = (case act m (rela_at m e) of Patch p v \<Rightarrow> [(p, v)] | _ \<Rightarrow> []) @ patches es m"
  by (simp_all add: patches_def)

definition never_ok :: "slot list \<Rightarrow> bool" where
  "never_ok es \<longleftrightarrow> (\<forall>s\<in>set es. \<forall>m r. fst s m r \<noteq> Fail Loader_OK)"

lemma all_slots_never_ok: "never_ok (all_slots syms t d)"
  using slots_not_ok by (auto simp: never_ok_def)

lemma run_slots_patches:
  assumes "\<forall>s\<in>set es. entry_safe T m0 s" "never_ok es"
    and "frozen T m0 m" "run_slots es m = (r, m')"
  shows "frozen T m0 m' \<and> (\<exists>qs rest. patches es m0 = qs @ rest \<and> m' = apply_patches qs m \<and>
      (r = Loader_OK \<longrightarrow> rest = [] \<and> (\<forall>s\<in>set es. \<forall>f. fst s m0 (rela_at m0 (snd s)) \<noteq> Fail f)))"
  using assms
proof (induction es arbitrary: m)
  case Nil
  then show ?case by simp
next
  case (Cons s es)
  obtain act e where s: "s = (act, e)" by (cases s)
  let ?r = "rela_at m0 e"
  have here: "window e 12 \<subseteq> T" "\<And>m'. frozen T m0 m' \<Longrightarrow> act m' ?r = act m0 ?r"
    "\<And>p v. act m0 ?r = Patch p v \<Longrightarrow> window p 4 \<inter> T = {}"
    using Cons.prems(1) s by (simp_all add: entry_safe_def)
  have later: "\<forall>s\<in>set es. entry_safe T m0 s" "never_ok es"
    using Cons.prems(1,2) by (simp_all add: never_ok_def)
  note fr0 = Cons.prems(3)
  have "rela_at m e = ?r"
    by (rule rela_at_cong) (use here(1) fr0 in \<open>auto simp: frozen_def\<close>)
  then have act: "act m (rela_at m e) = act m0 ?r" using here(2)[OF fr0] by simp
  show ?case
  proof (cases "act m0 ?r")
    case (Patch p v)
    then have "window p 4 \<inter> T = {}" using here(3) by blast
    then have "x \<notin> window p 4" if "x \<in> T" for x using that by blast
    then have fr: "frozen T m0 (wr32 m p v)" using fr0 by (simp add: frozen_def wr32_other)
    have run: "run_slots es (wr32 m p v) = (r, m')" using Cons.prems(4) act Patch s by simp
    from Cons.IH[OF later fr run] obtain qs rest where q: "frozen T m0 m'"
      "patches es m0 = qs @ rest" "m' = apply_patches qs (wr32 m p v)"
      "r = Loader_OK \<longrightarrow> rest = [] \<and> (\<forall>s\<in>set es. \<forall>f. fst s m0 (rela_at m0 (snd s)) \<noteq> Fail f)"
      by blast
    have "patches (s # es) m0 = ((p, v) # qs) @ rest" using q(2) Patch s by simp
    moreover have "m' = apply_patches ((p, v) # qs) m" using q(3) by simp
    moreover have "\<forall>f. fst s m0 (rela_at m0 (snd s)) \<noteq> Fail f" using Patch s by simp
    ultimately show ?thesis using q(1,4) by (metis set_ConsD)
  next
    case Skip
    then have run: "run_slots es m = (r, m')" using Cons.prems(4) act s by simp
    from Cons.IH[OF later fr0 run] show ?thesis using Skip s by simp
  next
    case (Fail f)
    then have "r = f" "m' = m" using Cons.prems(4) act s by simp_all
    moreover have "f \<noteq> Loader_OK" using Cons.prems(2) Fail s by (auto simp: never_ok_def)
    ultimately show ?thesis using fr0
      by (intro conjI exI[of _ "[]"] exI[of _ "patches (s # es) m0"]) simp_all
  qed
qed

lemma run_slots_values:
  assumes "\<forall>s\<in>set es. entry_safe T m s" "never_ok es"
    and "run_slots es m = (Loader_OK, m')"
    and "\<And>i j. \<lbrakk>i < length (patches es m); j < i\<rbrakk> \<Longrightarrow>
          window (fst (patches es m ! j)) 4 \<inter> window (fst (patches es m ! i)) 4 = {}"
  shows "frozen T m m'" "\<And>p v. (p, v) \<in> set (patches es m) \<Longrightarrow> rd32 m' p = v"
    "\<And>x. (\<And>p v. (p, v) \<in> set (patches es m) \<Longrightarrow> x \<notin> window p 4) \<Longrightarrow> m' x = m x"
proof -
  have "frozen T m m" by (simp add: frozen_def)
  from run_slots_patches[OF assms(1,2) this assms(3)]
  have m': "m' = apply_patches (patches es m) m" and fr: "frozen T m m'" by auto
  show "frozen T m m'" by (rule fr)
  show "rd32 m' p = v" if "(p, v) \<in> set (patches es m)" for p v
  proof -
    from that obtain i where i: "i < length (patches es m)" "patches es m ! i = (p, v)" by (metis in_set_conv_nth)
    have split: "patches es m = take i (patches es m) @ (p, v) # drop (Suc i) (patches es m)"
      using id_take_nth_drop[OF i(1)] i(2) by simp
    have "window p 4 \<inter> window q 4 = {}" if "(q, w) \<in> set (drop (Suc i) (patches es m))" for q w
    proof -
      from that obtain k where k: "Suc i + k < length (patches es m)" "patches es m ! (Suc i + k) = (q, w)"
        by (fastforce simp: in_set_conv_nth less_diff_conv add.commute)
      show ?thesis using assms(4)[of "Suc i + k" i] k i by simp
    qed
    then have "rd32 (apply_patches (take i (patches es m) @ (p, v) # drop (Suc i) (patches es m)) m) p = v"
      by (rule apply_patches_value)
    then show ?thesis unfolding m' using split by simp
  qed
  show "m' x = m x" if "\<And>p v. (p, v) \<in> set (patches es m) \<Longrightarrow> x \<notin> window p 4" for x
    unfolding m' by (rule apply_patches_other) (rule that)
qed

section \<open>Writes stay inside a region\<close>

text \<open>Every patch that a run makes lies in R.\<close>

fun run_inside :: "addr set \<Rightarrow> slot list \<Rightarrow> memory \<Rightarrow> bool" where
  "run_inside R [] m = True"
| "run_inside R ((act, e) # es) m =
     (case act m (rela_at m e) of
        Fail r \<Rightarrow> True | Skip \<Rightarrow> run_inside R es m
      | Patch p v \<Rightarrow> window p 4 \<subseteq> R \<and> run_inside R es (wr32 m p v))"

lemma run_inside_other: "\<lbrakk>run_inside R es m; run_slots es m = (r, m'); x \<notin> R\<rbrakk> \<Longrightarrow> m' x = m x"
proof (induction es arbitrary: m)
  case (Cons s es)
  obtain act e where s: "s = (act, e)" by (cases s)
  show ?case
  proof (cases "act m (rela_at m e)")
    case (Patch p v)
    then have "x \<notin> window p 4" "run_inside R es (wr32 m p v)" "run_slots es (wr32 m p v) = (r, m')"
      using Cons.prems s by auto
    then show ?thesis using Cons.IH[of "wr32 m p v"] Cons.prems(3) by (simp add: wr32_other)
  qed (use Cons s in auto)
qed simp

text \<open>A segment that is loaded ends inside the address space and has room for its bytes.\<close>

definition seg_fits :: "elf_phdr \<Rightarrow> bool" where
  "seg_fits p \<longleftrightarrow> p_filesz p \<le> p_memsz p \<and> unat (p_vaddr p) + unat (p_memsz p) < 2 ^ 32"

lemma seg_end: "seg_fits p \<Longrightarrow> unat (p_vaddr p + p_memsz p) = unat (p_vaddr p) + unat (p_memsz p)"
  by (simp add: seg_fits_def unat_word_ariths(1))

lemma vaddr_fold_mono:
  assumes "fold (\<lambda>p (lo, hi). if is_load p
             then (if p_vaddr p < lo then p_vaddr p else lo,
                   let seg_end = p_vaddr p + p_memsz p in if seg_end > hi then seg_end else hi)
             else (lo, hi)) phdrs (lo0, hi0) = (lo, hi)"
  shows "lo \<le> lo0 \<and> hi0 \<le> hi \<and> (\<forall>p\<in>set phdrs. is_load p \<longrightarrow> lo \<le> p_vaddr p \<and> p_vaddr p + p_memsz p \<le> hi)"
  using assms
proof (induction phdrs arbitrary: lo0 hi0)
  case Nil
  then show ?case by simp
next
  case (Cons p ps)
  let ?lo = "if is_load p \<and> p_vaddr p < lo0 then p_vaddr p else lo0"
  let ?hi = "if is_load p \<and> p_vaddr p + p_memsz p > hi0 then p_vaddr p + p_memsz p else hi0"
  have "lo \<le> ?lo \<and> ?hi \<le> hi \<and> (\<forall>p\<in>set ps. is_load p \<longrightarrow> lo \<le> p_vaddr p \<and> p_vaddr p + p_memsz p \<le> hi)"
    by (rule Cons.IH) (use Cons.prems in \<open>cases "is_load p"; simp add: Let_def\<close>)
  then show ?case by (auto split: if_splits intro: order.trans)
qed

lemma vaddr_range_bounds:
  assumes "vaddr_range phdrs = (lo, hi)" "p \<in> set phdrs" "is_load p" "seg_fits p"
  shows "unat lo \<le> unat (p_vaddr p)" "unat (p_vaddr p) + unat (p_memsz p) \<le> unat hi"
proof -
  have b: "lo \<le> p_vaddr p" "p_vaddr p + p_memsz p \<le> hi"
    using vaddr_fold_mono[OF assms(1)[unfolded vaddr_range_def]] assms(2,3) by blast+
  show "unat lo \<le> unat (p_vaddr p)" using b(1) by (simp add: word_le_nat_alt)
  show "unat (p_vaddr p) + unat (p_memsz p) \<le> unat hi"
    using b(2) seg_end[OF assms(4)] by (simp add: word_le_nat_alt)
qed

lemma segment_inside:
  assumes "vaddr_range phdrs = (lo, hi)" "lo < hi" "p \<in> set phdrs" "is_load p" "seg_fits p" "n \<le> unat (p_filesz p)"
  shows "window (base - lo + p_vaddr p) n \<subseteq> window base (unat (hi - lo))"
proof -
  note b = vaddr_range_bounds[OF assms(1,3,4,5)]
  have len: "n \<le> unat (p_memsz p)" using assms(5,6) by (simp add: seg_fits_def word_le_nat_alt)
  have "unat (hi - lo) = unat hi - unat lo" using assms(2) by (simp add: unat_sub order_less_imp_le)
  moreover have off: "unat (p_vaddr p - lo) = unat (p_vaddr p) - unat lo" using b(1) by (simp add: unat_sub word_le_nat_alt)
  ultimately have "window (base + of_nat (unat (p_vaddr p - lo))) n \<subseteq> window base (unat (hi - lo))"
    by (intro window_sub) (use b len in linarith)
  moreover have "base + of_nat (unat (p_vaddr p - lo)) = base - lo + p_vaddr p" by simp
  ultimately show ?thesis by metis
qed

lemma load_segments_inside:
  assumes "\<And>p n. \<lbrakk>p \<in> set ps; is_load p; n \<le> unat (p_filesz p)\<rbrakk> \<Longrightarrow> window (delta + p_vaddr p) n \<subseteq> R"
    and "load_segments prog delta ps m = (ok, m')" "x \<notin> R"
  shows "m' x = m x"
  using assms(1,2)
proof (induction ps arbitrary: m)
  case (Cons p ps)
  have IH: "load_segments prog delta ps m = (ok, m') \<Longrightarrow> m' x = m x" for m
    by (rule Cons.IH[OF Cons.prems(1)]) auto
  show ?case
  proof (cases "\<not> is_load p \<or> p_filesz p = 0")
    case True
    then show ?thesis using Cons.prems(2) IH by simp
  next
    case False
    show ?thesis
    proof (cases "pread prog (p_offset p) (unat (p_filesz p))")
      case None
      then show ?thesis using Cons.prems(2) False by simp
    next
      case (Some bs)
      then have "length bs \<le> unat (p_filesz p)" by (auto simp: pread_def split: if_splits)
      then have "x \<notin> window (delta + p_vaddr p) (length bs)"
        using Cons.prems(1)[of p "length bs"] False assms(3) by auto
      then have "wr_bytes m (delta + p_vaddr p) bs x = m x" by (rule wr_bytes_other)
      then show ?thesis using Cons.prems(2) False Some IH[of "wr_bytes m (delta + p_vaddr p) bs"]
        by (auto simp: Let_def split: if_splits)
    qed
  qed
qed simp

lemma run_slots_no_fail:
  assumes "\<forall>s\<in>set es. entry_safe T m s" "never_ok es" "run_slots es m = (Loader_OK, m')" "s \<in> set es"
  shows "fst s m (rela_at m (snd s)) \<noteq> Fail f"
proof -
  have "frozen T m m" by (simp add: frozen_def)
  from run_slots_patches[OF assms(1,2) this assms(3)] assms(4) show ?thesis by blast
qed

section \<open>The linked image\<close>

text \<open>What the RISC-V psABI asks of the word an entry relocates, for an image that was linked at
  address zero: B + A, S + A and S, with B the load bias and S what the symbol stands for.\<close>

definition reloc_done :: "tables \<Rightarrow> (32 word \<Rightarrow> 32 word option) \<Rightarrow> memory \<Rightarrow> elf_rela \<Rightarrow> bool" where
  "reloc_done t S m r \<longleftrightarrow>
     (let ty = ELF32_R_TYPE (r_info r); sym = ELF32_R_SYM (r_info r); w = rd32 m (t_delta t + r_offset r);
          known = (sym \<noteq> 0 \<and> sym < t_sym_count t)
      in (ty = R_RISCV_RELATIVE \<longrightarrow> w = t_delta t + r_addend r) \<and>
         (ty = R_RISCV_32 \<and> known \<longrightarrow> (\<exists>v. S sym = Some v \<and> w = v + r_addend r)) \<and>
         (ty = R_RISCV_32 \<and> \<not> known \<longrightarrow> w = r_addend r) \<and>
         (ty = R_RISCV_JUMP_SLOT \<and> known \<longrightarrow> S sym = Some w))"

lemma rela_action_done:
  assumes "\<forall>f. rela_action syms t m0 r \<noteq> Fail f" "\<forall>p v. rela_action syms t m0 r = Patch p v \<longrightarrow> rd32 m p = v"
    and "t_load_base t = t_delta t"
  shows "reloc_done t (resolve syms t m0) m r"
  using assms
  by (cases "rela_action syms t m0 r")
    (auto simp: reloc_done_def rela_action_def Let_def R_RISCV_RELATIVE_def R_RISCV_32_def R_RISCV_JUMP_SLOT_def
      split: if_splits option.splits)

lemma plt_action_done:
  assumes "\<forall>f. plt_action syms t m0 r \<noteq> Fail f" "\<forall>p v. plt_action syms t m0 r = Patch p v \<longrightarrow> rd32 m p = v"
  shows "reloc_done t (resolve syms t m0) m r"
  using assms
  by (cases "plt_action syms t m0 r")
    (auto simp: reloc_done_def plt_action_def Let_def R_RISCV_RELATIVE_def R_RISCV_32_def R_RISCV_JUMP_SLOT_def
      split: if_splits option.splits)

lemma all_slots_acts:
  "s \<in> set (all_slots syms t d) \<Longrightarrow> fst s = rela_action syms t \<or> fst s = plt_action syms t"
  by (auto simp: all_slots_def slots_at_def split: if_splits)

lemma patches_mem:
  "\<lbrakk>s \<in> set es; fst s m (rela_at m (snd s)) = Patch p v\<rbrakk> \<Longrightarrow> (p, v) \<in> set (patches es m)"
  by (force simp: patches_def split_beta)

text \<open>The entry is the last symbol of its name that the search visits.\<close>

definition is_entry :: "tables \<Rightarrow> memory \<Rightarrow> string \<Rightarrow> 32 word \<Rightarrow> addr \<Rightarrow> bool" where
  "is_entry t m name idx e \<longleftrightarrow>
     (let s = symbol t m idx in
      st_shndx s \<noteq> SHN_UNDEF \<and> ELF32_ST_BIND (st_info s) = STB_GLOBAL \<and> mem_streq m (t_strtab t + st_name s) name \<and>
      e = t_delta t + st_value s)"

lemma if_pair_cases: "(if c then (a, b) else z) = (r1, r2) \<Longrightarrow> r1 = a \<or> z = (r1, r2)"
  by (auto split: if_splits)

lemma find_entries_found:
  "find_entries t m name name2 k (of_nat j) e1 e2 = (r1, r2) \<Longrightarrow>
     r1 = e1 \<or> (\<exists>i. j \<le> i \<and> i < j + k \<and> is_entry t m name (of_nat i) r1)"
proof (induction k arbitrary: j e1 e2)
  case 0
  then show ?case by simp
next
  case (Suc k)
  have idx: "(of_nat j + 1 :: 32 word) = of_nat (Suc j)" by simp
  let ?s = "symbol t m (of_nat j)"
  let ?e1 = "if mem_streq m (t_strtab t + st_name ?s) name then t_delta t + st_value ?s else e1"
  have lift: "r1 = e \<or> (\<exists>i. j \<le> i \<and> i < j + Suc k \<and> is_entry t m name (of_nat i) r1)"
    if "r1 = e \<or> (\<exists>i. Suc j \<le> i \<and> i < Suc j + k \<and> is_entry t m name (of_nat i) r1)" for e
    using that by auto
  show ?case
  proof (cases "st_shndx ?s = SHN_UNDEF \<or> ELF32_ST_BIND (st_info ?s) \<noteq> STB_GLOBAL")
    case True
    then have "find_entries t m name name2 k (of_nat (Suc j)) e1 e2 = (r1, r2)"
      using Suc.prems unfolding find_entries.simps Let_def idx by (simp only: if_True)
    from lift[OF Suc.IH[OF this]] show ?thesis .
  next
    case False
    let ?e2 = "if \<not> mem_streq m (t_strtab t + st_name ?s) name \<and>
          (case name2 of None \<Rightarrow> False | Some n2 \<Rightarrow> mem_streq m (t_strtab t + st_name ?s) n2)
        then t_delta t + st_value ?s else e2"
    have "find_entries t m name name2 (Suc k) (of_nat j) e1 e2 =
        (if ?e1 \<noteq> 0 \<and> (name2 = None \<or> ?e2 \<noteq> 0) then (?e1, ?e2)
         else find_entries t m name name2 k (of_nat (Suc j)) ?e1 ?e2)"
      using False unfolding find_entries.simps Let_def idx by (simp only: if_False)
    from if_pair_cases[OF trans[OF this[symmetric] Suc.prems]]
    have "r1 = ?e1 \<or> find_entries t m name name2 k (of_nat (Suc j)) ?e1 ?e2 = (r1, r2)" .
    then have "r1 = ?e1 \<or> (\<exists>i. Suc j \<le> i \<and> i < Suc j + k \<and> is_entry t m name (of_nat i) r1)"
      using Suc.IH by blast
    then have "r1 = ?e1 \<or> (\<exists>i. j \<le> i \<and> i < j + Suc k \<and> is_entry t m name (of_nat i) r1)" by (rule lift)
    moreover have "?e1 = e1 \<or> is_entry t m name (of_nat j) ?e1" using False by (auto simp: is_entry_def Let_def)
    moreover have "j \<le> j" "j < j + Suc k" by simp_all
    ultimately show ?thesis by (elim disjE) (blast, simp only: simp_thms, blast+)
  qed
qed

lemma all_slots_done:
  assumes "\<forall>s\<in>set (all_slots syms t d). entry_safe T m s"
    and "\<And>i j. \<lbrakk>i < length (patches (all_slots syms t d) m); j < i\<rbrakk> \<Longrightarrow>
          window (fst (patches (all_slots syms t d) m ! j)) 4 \<inter> window (fst (patches (all_slots syms t d) m ! i)) 4 = {}"
    and "t_load_base t = t_delta t" "relocate_all syms t d m = (Loader_OK, m')" "s \<in> set (all_slots syms t d)"
  shows "reloc_done t (resolve syms t m) m' (rela_at m (snd s))"
proof -
  note run = assms(4)[unfolded relocate_all_run]
  have fail: "\<forall>f. fst s m (rela_at m (snd s)) \<noteq> Fail f"
    using run_slots_no_fail[OF assms(1) all_slots_never_ok run assms(5)] by blast
  have val: "\<forall>p v. fst s m (rela_at m (snd s)) = Patch p v \<longrightarrow> rd32 m' p = v"
    using run_slots_values(2)[OF assms(1) all_slots_never_ok run assms(2)] patches_mem[OF assms(5)] by blast
  from all_slots_acts[OF assms(5)] show ?thesis
  proof
    assume "fst s = rela_action syms t"
    then show ?thesis using rela_action_done[of syms t m _ m'] fail val assms(3) by simp
  next
    assume "fst s = plt_action syms t"
    then show ?thesis using plt_action_done[of syms t m _ m'] fail val by simp
  qed
qed

lemma link_image_ok:
  assumes "link_image syms prog phdrs name name2 load_base vaddr_min m = (Loader_OK, (e1, e2), m2)"
    and "load_segments prog (load_base - vaddr_min) phdrs m = (True, m1)" "find_dynamic phdrs = (dv, dc)"
    and "d = parse_dyn m1 (load_base - vaddr_min + dv) (unat dc) dyn0"
    and "t = tables_of m1 load_base (load_base - vaddr_min) d"
  shows "relocate_all syms t d m1 = (Loader_OK, m2)" "e1 \<noteq> 0"
    "find_entries t m2 name name2 (unat (t_sym_count t) - 1) 1 0 0 = (e1, e2)"
proof -
  obtain r m' where rel: "relocate_all syms t d m1 = (r, m')" by fastforce
  obtain f1 f2 where ent: "find_entries t m' name name2 (unat (t_sym_count t) - 1) 1 0 0 = (f1, f2)" by fastforce
  have "(if dv = 0 then (Loader_INVALID_ELF, (0, 0), m1)
      else if dt_strtab d = 0 \<or> dt_symtab d = 0 then (Loader_INVALID_ELF, (0, 0), m1)
      else if r \<noteq> Loader_OK then (r, (0, 0), m')
      else if f1 = 0 then (Loader_NO_ENTRY, (0, 0), m') else (Loader_OK, (f1, f2), m')) = (Loader_OK, (e1, e2), m2)"
    using assms(1) unfolding link_image_def
    by (simp only: Let_def assms(2,3) prod.case assms(4)[symmetric] assms(5)[symmetric] rel ent not_True_eq_False if_False)
  then have "r = Loader_OK" "f1 \<noteq> 0" "f1 = e1" "f2 = e2" "m' = m2" by (auto split: if_splits)
  then show "relocate_all syms t d m1 = (Loader_OK, m2)" "e1 \<noteq> 0"
    "find_entries t m2 name name2 (unat (t_sym_count t) - 1) 1 0 0 = (e1, e2)" using rel ent by simp_all
qed


section \<open>Modules beside the host app\<close>

text \<open>The program headers of a file and the range of addresses of its segments.\<close>

definition segments_of :: "8 word list \<Rightarrow> elf_phdr list \<Rightarrow> 32 word \<Rightarrow> 32 word \<Rightarrow> bool" where
  "segments_of prog phdrs lo hi \<longleftrightarrow>
     (\<exists>hb. pread_exact prog 0 EHDR_SIZE = Some hb \<and>
        read_phdrs prog (ehdr_of hb) [0..<unat (e_phnum (ehdr_of hb))] = Some phdrs \<and> vaddr_range phdrs = (lo, hi))"

text \<open>The relocations of an image placed at mem patch words of the image.\<close>

definition relocs_inside ::
  "symtab \<Rightarrow> 8 word list \<Rightarrow> elf_phdr list \<Rightarrow> addr \<Rightarrow> 32 word \<Rightarrow> 32 word \<Rightarrow> memory \<Rightarrow> bool" where
  "relocs_inside syms prog phdrs mem lo hi m =
     (let (ok, m1) = load_segments prog (mem - lo) phdrs (zero_range m mem (unat (hi - lo)));
          (dv, dc) = find_dynamic phdrs;
          d = parse_dyn m1 (mem - lo + dv) (unat dc) dyn0
      in run_inside (window mem (unat (hi - lo))) (all_slots syms (tables_of m1 mem (mem - lo) d) d) m1)"

lemma link_image_inside:
  assumes "vaddr_range phdrs = (lo, hi)" "lo < hi" "\<forall>p\<in>set phdrs. is_load p \<longrightarrow> seg_fits p"
    and "relocs_inside syms prog phdrs mem lo hi m" "x \<notin> window mem (unat (hi - lo))"
    and "link_image syms prog phdrs name name2 mem lo (zero_range m mem (unat (hi - lo))) = (r, e, m')"
  shows "m' x = m x"
proof -
  let ?R = "window mem (unat (hi - lo))"
  let ?m0 = "zero_range m mem (unat (hi - lo))"
  obtain ok m1 where seg: "load_segments prog (mem - lo) phdrs ?m0 = (ok, m1)" by fastforce
  obtain dv dc where dyn: "find_dynamic phdrs = (dv, dc)" by fastforce
  define d where "d = parse_dyn m1 (mem - lo + dv) (unat dc) dyn0"
  define t where "t = tables_of m1 mem (mem - lo) d"
  obtain r2 m2 where rel: "relocate_all syms t d m1 = (r2, m2)" by fastforce
  have "?m0 x = m x" unfolding zero_range_def by (rule wr_bytes_other) (simp add: assms(5))
  moreover have "m1 x = ?m0 x"
    by (rule load_segments_inside[OF _ seg assms(5)]) (use segment_inside[OF assms(1,2)] assms(3) in blast)
  ultimately have m1: "m1 x = m x" by simp
  have "run_inside ?R (all_slots syms t d) m1"
    using assms(4) by (simp add: relocs_inside_def seg dyn Let_def d_def t_def)
  then have m2: "m2 x = m1 x"
    by (rule run_inside_other) (use rel assms(5) in \<open>simp_all add: relocate_all_run\<close>)
  have "m' = m1 \<or> m' = m2"
    using assms(6) unfolding link_image_def
    by (simp add: seg dyn Let_def d_def[symmetric] t_def[symmetric] rel split: if_splits prod.splits)
  then show ?thesis using m1 m2 by auto
qed

lemma load_image_inside:
  assumes "segments_of prog phdrs lo hi" "\<forall>p\<in>set phdrs. is_load p \<longrightarrow> seg_fits p"
    and "\<And>mem pool'. place_image pool_addr as_module (hi - lo) st pool = (Some mem, pool') \<Longrightarrow>
          relocs_inside syms prog phdrs mem lo hi m \<and> x \<notin> window mem (unat (hi - lo))"
    and "load_image pool_addr syms (Some prog) as_module name name2 st pool m = (r, img, pool', m')"
  shows "m' x = m x"
proof -
  obtain hb where hb: "pread_exact prog 0 EHDR_SIZE = Some hb"
      "read_phdrs prog (ehdr_of hb) [0..<unat (e_phnum (ehdr_of hb))] = Some phdrs" "vaddr_range phdrs = (lo, hi)"
    using assms(1) by (auto simp: segments_of_def)
  show ?thesis
  proof (cases "ehdr_valid (ehdr_of hb) \<and> lo < hi")
    case False
    then show ?thesis using assms(4) unfolding load_image_def by (auto simp: hb Let_def not_less split: if_splits)
  next
    case True
    then have valid: "ehdr_valid (ehdr_of hb)" "\<not> hi \<le> lo" by auto
    obtain om pool1 where place: "place_image pool_addr as_module (hi - lo) st pool = (om, pool1)" by fastforce
    show ?thesis
    proof (cases om)
      case None
      then show ?thesis using assms(4) unfolding load_image_def by (simp add: hb valid Let_def place)
    next
      case (Some mem)
      note out = assms(3)[OF place[unfolded Some]]
      let ?m0 = "zero_range m mem (unat (hi - lo))"
      obtain r1 e1 e2 m1 where link: "link_image syms prog phdrs name name2 mem lo ?m0 = (r1, (e1, e2), m1)"
        by (metis surj_pair)
      have "m' = m1"
        using assms(4) unfolding load_image_def
        by (simp add: hb valid Let_def place Some link split: if_splits)
      moreover have "m1 x = m x"
        by (rule link_image_inside[OF hb(3) _ assms(2) _ _ link]) (use True out in blast)+
      ultimately show ?thesis by simp
    qed
  qed
qed

lemma load_image_module_pool:
  "load_image pool_addr syms path True name name2 st pool m = (r, img, pool', m') \<Longrightarrow> pool' = pool"
  by (auto simp: load_image_def place_image_def free_mem_def Let_def split: option.splits if_splits prod.splits)

lemma loader_align_bounds:
  assumes "sz \<le> app_pool_size"
  shows "unat sz \<le> unat (loader_align sz)"
proof -
  have a: "loader_align sz = align_up sz (2 ^ 4)" by (simp add: loader_align_def align_up_def)
  have "unat sz + 2 ^ 4 < 2 ^ 32"
    using assms by (simp add: word_le_nat_alt app_pool_size_def JPP_APP_POOL_BYTES_def)
  then show ?thesis unfolding a by (intro align_up_bounds(1)) simp_all
qed

lemma window_offset: "\<lbrakk>(a :: addr) + of_nat k \<in> window (a + b) n; k < 2 ^ 32; unat b + n \<le> 2 ^ 32\<rbrakk> \<Longrightarrow> unat b \<le> k \<and> k < unat b + n"
proof -
  assume "(a :: addr) + of_nat k \<in> window (a + b) n" and k: "k < 2 ^ 32" and n: "unat b + n \<le> 2 ^ 32"
  then obtain i where i: "a + of_nat k = a + b + of_nat i" "i < n" by (auto simp: window_def)
  then have "(of_nat k :: addr) = of_nat (unat b + i)" by (simp add: add.assoc)
  then have "k = unat b + i"
    using k n i(2) of_nat_inverse[of k "of_nat k :: addr"] of_nat_inverse[of "unat b + i" "of_nat k :: addr"] by simp
  then show ?thesis using i(2) by simp
qed


section \<open>A small module\<close>

lemma wr_bytes_at:
  "length bs \<le> 2 ^ 32 \<Longrightarrow> wr_bytes m a bs x = (if unat (x - a) < length bs then bs ! unat (x - a) else m x)"
proof (induction bs arbitrary: m a)
  case (Cons b bs)
  show ?case
  proof (cases "x = a")
    case True
    have u: "unat (a - (a + 1)) = 2 ^ 32 - 1" by (simp add: unsigned_minus_1_eq_mask mask_eq_exp_minus_1)
    have "wr_bytes (m(a := b)) (a + 1) bs x = (m(a := b)) x"
      by (subst Cons.IH) (use Cons.prems u True in simp_all)
    then show ?thesis using True by simp
  next
    case False
    then have "unat (x - a) \<noteq> 0" by (simp add: unat_eq_zero)
    then obtain k where k: "unat (x - a) = Suc k" using not0_implies_Suc by blast
    have "unat (x - (a + 1)) = k"
    proof -
      have "unat (x - a - 1) = k" using k False by (subst unat_minus_one) simp_all
      then show ?thesis by (simp only: diff_diff_eq)
    qed
    then have "wr_bytes (m(a := b)) (a + 1) bs x = (if k < length bs then bs ! k else m x)"
      using False Cons.prems by (subst Cons.IH) simp_all
    then show ?thesis using k by simp
  qed
qed simp

text \<open>An image of one segment that imports f, relocates its first word by f + 4 and exports
  jpp_module_entry at offset 32; its file has two program headers.\<close>

definition demo_image :: "8 word list" where
  "demo_image =
     [170, 0, 0, 0, 0, 102, 0, 106, 112, 112, 95, 109, 111, 100, 117, 108, 101, 95, 101, 110, 116, 114,
     121, 0, 1, 0, 0, 0, 3, 0, 0, 0, 0, 0, 0, 0, 0, 0, 0, 0, 0, 0, 0, 0, 0, 0, 0, 0, 1, 0, 0, 0, 0, 0, 0,
     0, 0, 0, 0, 0, 16, 0, 0, 0, 3, 0, 0, 0, 32, 0, 0, 0, 4, 0, 0, 0, 18, 0, 1, 0, 0, 0, 0, 0, 1, 1, 0,
     0, 4, 0, 0, 0, 5, 0, 0, 0, 4, 0, 0, 0, 6, 0, 0, 0, 32, 0, 0, 0, 4, 0, 0, 0, 24, 0, 0, 0, 7, 0, 0, 0,
     80, 0, 0, 0, 8, 0, 0, 0, 12, 0, 0, 0]"

definition demo_file :: "8 word list" where
  "demo_file =
     [127, 69, 76, 70, 1, 1, 1, 0, 0, 0, 0, 0, 0, 0, 0, 0, 3, 0, 243, 0, 1, 0, 0, 0, 0, 0, 0, 0, 52, 0,
     0, 0, 0, 0, 0, 0, 0, 0, 0, 0, 52, 0, 32, 0, 2, 0, 0, 0, 0, 0, 0, 0, 1, 0, 0, 0, 116, 0, 0, 0, 0, 0,
     0, 0, 0, 0, 0, 0, 132, 0, 0, 0, 132, 0, 0, 0, 7, 0, 0, 0, 4, 0, 0, 0, 2, 0, 0, 0, 208, 0, 0, 0, 92,
     0, 0, 0, 0, 0, 0, 0, 40, 0, 0, 0, 40, 0, 0, 0, 4, 0, 0, 0, 4, 0, 0, 0] @ demo_image"

definition demo_phdrs :: "elf_phdr list" where
  "demo_phdrs =
     [\<lparr> p_type = 1, p_offset = 116, p_vaddr = 0, p_filesz = 132, p_memsz = 132 \<rparr>,
      \<lparr> p_type = 2, p_offset = 208, p_vaddr = 92, p_filesz = 40, p_memsz = 40 \<rparr>]"

definition demo_memory :: "memory \<Rightarrow> memory" where
  "demo_memory m = wr_bytes m 0x1020 demo_image"

definition demo_dyn :: dyn where
  "demo_dyn = \<lparr> dt_strtab = 4, dt_symtab = 32, dt_syment = 0, dt_hash = 24, dt_rela = 80, dt_relasz = 12,
     dt_relaent = 0, dt_jmprel = 0, dt_pltrelsz = 0 \<rparr>"

definition demo_tables :: tables where
  "demo_tables = \<lparr> t_load_base = 0x1020, t_delta = 0x1020, t_strtab = 0x1024, t_symtab = 0x1040, t_sym_ent = 16, t_sym_count = 3 \<rparr>"

lemma demo_image_length: "length demo_image = 132"
  by (simp add: demo_image_def)

lemma demo_at: "demo_memory m x = (if unat (x - 0x1020) < 132 then demo_image ! unat (x - 0x1020) else m x)"
  unfolding demo_memory_def by (subst wr_bytes_at) (simp_all add: demo_image_length)

lemmas demo_eval = rd32_def rd16_def demo_at demo_image_def

lemma demo_segments: "load_segments demo_file 0x1020 demo_phdrs m = (True, demo_memory m)"
proof -
  have "pread demo_file 116 132 = Some demo_image"
    by (simp add: pread_def demo_file_def demo_image_length)
  then show ?thesis
    by (simp add: demo_phdrs_def is_load_def PT_LOAD_def demo_image_length demo_memory_def Let_def)
qed

lemma demo_find: "find_dynamic demo_phdrs = (92, 5)"
  by (simp add: find_dynamic_def demo_phdrs_def PT_DYNAMIC_def DYN_SIZE_def)

lemma demo_words: "rd32 (demo_memory m) 0x103C = 3"
  "rd32 (demo_memory m) 0x1070 = 0" "rd32 (demo_memory m) 0x1074 = 257" "rd32 (demo_memory m) 0x1078 = 4"
  "rd32 (demo_memory m) 0x107C = 5" "rd32 (demo_memory m) 0x1080 = 4"
  "rd32 (demo_memory m) 0x1084 = 6" "rd32 (demo_memory m) 0x1088 = 32"
  "rd32 (demo_memory m) 0x108C = 4" "rd32 (demo_memory m) 0x1090 = 24"
  "rd32 (demo_memory m) 0x1094 = 7" "rd32 (demo_memory m) 0x1098 = 80"
  "rd32 (demo_memory m) 0x109C = 8" "rd32 (demo_memory m) 0x10A0 = 12"
  by (simp_all add: demo_eval push_bit_eq_mult)

lemma demo_dynamic: "parse_dyn (demo_memory m) 0x107C 5 dyn0 = demo_dyn"
proof -
  have five: "5 = Suc (Suc (Suc (Suc (Suc 0))))" by simp
  show ?thesis unfolding five
    by (simp add: demo_words DT_NULL_def DYN_SIZE_def dyn_entry_def DT_STRTAB_def DT_SYMTAB_def
        DT_SYMENT_def DT_HASH_def DT_RELA_def DT_RELASZ_def DT_RELAENT_def DT_JMPREL_def DT_PLTRELSZ_def dyn0_def demo_dyn_def)
qed

lemma demo_pointers: "tables_of (demo_memory m) 0x1020 0x1020 demo_dyn = demo_tables"
  by (simp add: tables_of_def demo_dyn_def demo_tables_def SYM_SIZE_def demo_words)

lemma demo_slots: "all_slots syms demo_tables demo_dyn = [(rela_action syms demo_tables, 0x1070)]"
  by (simp add: all_slots_def demo_dyn_def demo_tables_def rela_ent_def RELA_SIZE_def slots_at_def)


lemma demo_rela: "rela_at (demo_memory m) 0x1070 = \<lparr> r_offset = 0, r_info = 257, r_addend = 4 \<rparr>"
  by (simp add: rela_at_def demo_words)

lemma demo_import:
  "\<forall>x\<in>window 0x1024 128. m' x = demo_memory m x \<Longrightarrow> resolve [(''f'', 0x4000)] demo_tables m' 1 = Some 0x4000"
proof -
  assume same: "\<forall>x\<in>window 0x1024 128. m' x = demo_memory m x"
  have at: "m' (0x1024 + of_nat k) = demo_memory m (0x1024 + of_nat k)" if "k < 128" for k
    using same window_mem[OF that] by blast
  show ?thesis
    using at[of 1] at[of 2] at[of 44] at[of 45] at[of 46] at[of 47] at[of 58] at[of 59]
    by (simp add: resolve_def symbol_def sym_at_def demo_tables_def rd32_def rd16_def demo_at demo_image_def SHN_UNDEF_def Let_def of_char_def)
qed


lemma demo_action:
  assumes "frozen (window 0x1024 128) (demo_memory m) m'"
  shows "rela_action [(''f'', 0x4000)] demo_tables m' (rela_at (demo_memory m) 0x1070) = Patch 0x1020 0x4004"
proof -
  have "resolve [(''f'', 0x4000)] demo_tables m' 1 = Some 0x4000"
    by (rule demo_import[of _ m]) (use assms in \<open>simp add: frozen_def\<close>)
  moreover have "ELF32_R_SYM 257 = 1" "ELF32_R_TYPE 257 = 1" by (simp_all add: ELF32_R_SYM_def ELF32_R_TYPE_def drop_bit_eq_div)
  ultimately show ?thesis
    by (simp add: rela_action_def demo_rela demo_tables_def Let_def R_RISCV_RELATIVE_def R_RISCV_32_def)
qed

lemma demo_safe: "entry_safe (window 0x1024 128) (demo_memory m) (rela_action [(''f'', 0x4000)] demo_tables, 0x1070)"
proof -
  have self: "frozen (window 0x1024 128) (demo_memory m) (demo_memory m)" by (simp add: frozen_def)
  have "window (0x1024 + of_nat 76) 12 \<subseteq> window 0x1024 128" by (rule window_sub) simp
  moreover have "window (0x1020 :: addr) 4 \<inter> window 0x1024 128 = {}"
  proof -
    have "False" if x: "x \<in> window 0x1020 4" "x \<in> window (0x1020 + 4) 128" for x :: addr
    proof -
      from x(1) obtain k where k: "x = 0x1020 + of_nat k" "k < 4" by (auto simp: window_def)
      show False using window_offset[OF x(2)[unfolded k(1)]] k(2) by simp
    qed
    then show ?thesis by auto
  qed
  ultimately show ?thesis using demo_action[OF self] demo_action by (auto simp: entry_safe_def)
qed

lemma demo_patches: "patches [(rela_action [(''f'', 0x4000)] demo_tables, 0x1070)] (demo_memory m) = [(0x1020, 0x4004)]"
  using demo_action[of m "demo_memory m"] by (simp add: frozen_def)

lemma demo_relocate:
  "relocate_all [(''f'', 0x4000)] demo_tables demo_dyn (demo_memory m) = (Loader_OK, wr32 (demo_memory m) 0x1020 0x4004)"
  using demo_action[of m "demo_memory m"] by (simp add: relocate_all_run demo_slots frozen_def)

lemma demo_entry:
  "find_entries demo_tables (wr32 (demo_memory m) 0x1020 v) module_entry_name None (unat (3 :: 32 word) - 1) 1 0 0 = (0x1040, 0)"
proof -
  have two: "unat (3 :: 32 word) - 1 = Suc (Suc 0)" by simp
  show ?thesis
    unfolding two module_entry_name_def
    by (simp add: symbol_def sym_at_def demo_tables_def wr32_def demo_eval SHN_UNDEF_def STB_GLOBAL_def ELF32_ST_BIND_def
        drop_bit_eq_div of_char_def Let_def)
qed


lemma demo_links:
  "link_image [(''f'', 0x4000)] demo_file demo_phdrs module_entry_name None 0x1020 0 m =
     (Loader_OK, (0x1040, 0), wr32 (demo_memory m) 0x1020 0x4004)"
proof -
  have a: "(0x1020 :: addr) - 0 = 0x1020" "(0x1020 :: addr) + 92 = 0x107C" "unat (5 :: 32 word) = 5" by simp_all
  have d: "(92 :: 32 word) \<noteq> 0" "dt_strtab demo_dyn \<noteq> 0" "dt_symtab demo_dyn \<noteq> 0" "(0x1040 :: addr) \<noteq> 0"
    by (simp_all add: demo_dyn_def)
  have c: "t_sym_count demo_tables = 3" by (simp add: demo_tables_def)
  show ?thesis
    unfolding link_image_def Let_def a demo_segments prod.case demo_find demo_dynamic demo_pointers demo_relocate c demo_entry
    using d by simp
qed



definition demo_host :: loader where
  "demo_host = \<lparr> s_pool_base = 0x1000, s_pool_used = 0x20, s_active_module = None \<rparr>"

lemma demo_headers: "ehdr_valid (ehdr_of (take 52 demo_file))"
  "read_phdrs demo_file (ehdr_of (take 52 demo_file)) [0..<unat (e_phnum (ehdr_of (take 52 demo_file)))] = Some demo_phdrs"
  "pread_exact demo_file 0 EHDR_SIZE = Some (take 52 demo_file)"
proof -
  have h: "ehdr_of (take 52 demo_file) =
      \<lparr> e_ident = take 16 demo_file, e_type = 3, e_machine = 243, e_phoff = 52, e_phentsize = 32, e_phnum = 2 \<rparr>"
    by (simp add: ehdr_of_def demo_file_def le16_def le32_def)
  show "ehdr_valid (ehdr_of (take 52 demo_file))"
    unfolding h by (simp add: ehdr_valid_def demo_file_def EM_RISCV_def ET_DYN_def PHDR_SIZE_def)
  have p: "pread_exact demo_file 52 32 = Some (take 32 (drop 52 demo_file))"
    "pread_exact demo_file 84 32 = Some (take 32 (drop 84 demo_file))"
    by (simp_all add: pread_exact_def pread_def demo_file_def demo_image_length)
  have q: "phdr_of (take 32 (drop 52 demo_file)) = demo_phdrs ! 0" "phdr_of (take 32 (drop 84 demo_file)) = demo_phdrs ! 1"
    by (simp_all add: phdr_of_def demo_phdrs_def demo_file_def le32_def push_bit_eq_mult)
  have "[0..<unat (2 :: 16 word)] = [0, 1]" by (simp add: upt_rec)
  then show "read_phdrs demo_file (ehdr_of (take 52 demo_file)) [0..<unat (e_phnum (ehdr_of (take 52 demo_file)))] = Some demo_phdrs"
    unfolding h by (simp add: PHDR_SIZE_def p q) (simp add: demo_phdrs_def)
  show "pread_exact demo_file 0 EHDR_SIZE = Some (take 52 demo_file)"
    by (simp add: pread_exact_def pread_def demo_file_def demo_image_length EHDR_SIZE_def)
qed

lemma demo_range: "vaddr_range demo_phdrs = (0, 132)"
  by (simp add: vaddr_range_def demo_phdrs_def is_load_def PT_LOAD_def)

lemma demo_place: "place_image pool_addr True 132 demo_host pool = (Some 0x1020, pool)"
  by (simp add: place_image_def demo_host_def loader_align_def app_pool_size_def JPP_APP_POOL_BYTES_def)


lemma demo_inside: "relocs_inside [(''f'', 0x4000)] demo_file demo_phdrs 0x1020 0 132 m"
proof -
  have a: "(0x1020 :: addr) - 0 = 0x1020" "(0x1020 :: addr) + 92 = 0x107C" "unat (5 :: 32 word) = 5" by simp_all
  have "window 0x1020 4 \<subseteq> window (0x1020 :: addr) 132" using window_sub[of 0 4 132 "0x1020"] by simp
  moreover have "frozen (window 0x1024 128) (demo_memory m) (demo_memory m)" for m by (simp add: frozen_def)
  ultimately have "run_inside (window 0x1020 132) [(rela_action [(''f'', 0x4000)] demo_tables, 0x1070)] (demo_memory m)" for m
    using demo_action by simp
  then show ?thesis
    unfolding relocs_inside_def Let_def a demo_segments prod.case demo_find demo_dynamic demo_pointers demo_slots by simp
qed



end
