(* ===== verification/SerialMgr.thy ===== *)
theory SerialMgr
  imports Lrv BleMsg FileBrowser
begin

text \<open>
  src/main/jpp_serial_mgr.c: the serial management protocol, over which a host lists, moves,
  uploads and downloads files of the SD card once the user has allowed it. The USB port, the
  file system and the other services are the parameters usb and env, one function of the
  world per call; a FILE is a number. The receive task blocks while a dialog is open; that
  wait is a state of its own, and the actions of the user and the session timer are steps of
  the other tasks (one step at a time: a handler that does not wait is one step). The build
  is the production one, without CONFIG_JPP_LRV_PROVISIONING. Log output and the mutex that
  keeps log lines out of frames are left out.
\<close>

section \<open>Constants\<close>

definition SMP_SOF :: "byte list" where "SMP_SOF = [0x01, 0x4A, 0x50, 0x50]"
definition SMP_PROTO_VERSION :: byte where "SMP_PROTO_VERSION = 1"
definition SMP_CMD_SESSION_START :: byte where "SMP_CMD_SESSION_START = 0x00"
definition SMP_CMD_SESSION_END :: byte where "SMP_CMD_SESSION_END = 0x01"
definition SMP_CMD_GET_INFO :: byte where "SMP_CMD_GET_INFO = 0x02"
definition SMP_CMD_GET_LRV_DATA :: byte where "SMP_CMD_GET_LRV_DATA = 0x03"
definition SMP_CMD_SET_TIME :: byte where "SMP_CMD_SET_TIME = 0x04"
definition SMP_CMD_KEEPALIVE :: byte where "SMP_CMD_KEEPALIVE = 0x05"
definition SMP_CMD_FS_LIST_DIR :: byte where "SMP_CMD_FS_LIST_DIR = 0x10"
definition SMP_CMD_FS_MKDIR :: byte where "SMP_CMD_FS_MKDIR = 0x11"
definition SMP_CMD_FS_REMOVE :: byte where "SMP_CMD_FS_REMOVE = 0x12"
definition SMP_CMD_FS_RENAME :: byte where "SMP_CMD_FS_RENAME = 0x13"
definition SMP_CMD_FS_UPLOAD_BEGIN :: byte where "SMP_CMD_FS_UPLOAD_BEGIN = 0x14"
definition SMP_CMD_FS_UPLOAD_CHUNK :: byte where "SMP_CMD_FS_UPLOAD_CHUNK = 0x15"
definition SMP_CMD_FS_UPLOAD_END :: byte where "SMP_CMD_FS_UPLOAD_END = 0x16"
definition SMP_CMD_FS_DL_BEGIN :: byte where "SMP_CMD_FS_DL_BEGIN = 0x17"
definition SMP_CMD_FS_DL_CHUNK :: byte where "SMP_CMD_FS_DL_CHUNK = 0x18"
definition SMP_CMD_FS_DL_END :: byte where "SMP_CMD_FS_DL_END = 0x19"
definition SMP_CMD_APPLY_BACKUP :: byte where "SMP_CMD_APPLY_BACKUP = 0x1A"

definition SMP_ST_OK :: byte where "SMP_ST_OK = 0x00"
definition SMP_ST_ERR_DENIED :: byte where "SMP_ST_ERR_DENIED = 0x01"
definition SMP_ST_ERR_NOT_FOUND :: byte where "SMP_ST_ERR_NOT_FOUND = 0x02"
definition SMP_ST_ERR_IO :: byte where "SMP_ST_ERR_IO = 0x03"
definition SMP_ST_ERR_EXISTS :: byte where "SMP_ST_ERR_EXISTS = 0x04"
definition SMP_ST_ERR_INVALID :: byte where "SMP_ST_ERR_INVALID = 0x05"
definition SMP_ST_ERR_BUSY :: byte where "SMP_ST_ERR_BUSY = 0x06"
definition SMP_ST_ERR_NO_SESSION :: byte where "SMP_ST_ERR_NO_SESSION = 0x07"
definition SMP_ST_ERR_TRANSFER :: byte where "SMP_ST_ERR_TRANSFER = 0x08"
definition SMP_ST_ERR_OVERFLOW :: byte where "SMP_ST_ERR_OVERFLOW = 0x09"
definition SMP_ST_ERR_APP_RUNNING :: byte where "SMP_ST_ERR_APP_RUNNING = 0x0A"

definition SMP_SEQ_EVENT :: byte where "SMP_SEQ_EVENT = 0xFF"
definition SMP_EVT_SESSION_ENDED :: byte where "SMP_EVT_SESSION_ENDED = 0x01"
definition SMP_BACKUP_FILE_MAX :: nat where "SMP_BACKUP_FILE_MAX = 8192"
definition SMP_CHUNK_SIZE :: nat where "SMP_CHUNK_SIZE = 1024"
definition SMP_MAX_PAYLOAD_BYTES :: nat where "SMP_MAX_PAYLOAD_BYTES = 1280"
definition SMP_LIST_BUF_BYTES :: nat where "SMP_LIST_BUF_BYTES = 2048"
definition SMP_USERNAME_MAX :: nat where "SMP_USERNAME_MAX = 64"
definition SMP_LRV_RESP_BUF :: nat where "SMP_LRV_RESP_BUF = 512"
definition LRV_CHALLENGE_MAX :: nat where "LRV_CHALLENGE_MAX = 128"
definition JPPDOS_VERSION :: string where "JPPDOS_VERSION = ''1.2''"

section \<open>State\<close>

datatype smp_consent_state = CONSENT_IDLE | CONSENT_PENDING | CONSENT_BACKUP_PENDING

record smp_transfer =
  xf_fp :: "nat option"
  xf_file_size :: "32 word"
  xf_crc32 :: "32 word"
  xf_chunk_count :: "16 word"
  xf_next_chunk :: "16 word"
  xf_id :: byte
  xf_is_upload :: bool
  xf_active :: bool

text \<open>What the receive task does: it reads, or it waits in a handler for the answer of the user,
  in which it has the sequence number of the command (and the backup that it read).\<close>

datatype smp_rx = Rx_Reading | Rx_Wait_Session byte | Rx_Wait_Backup byte "byte list" | Rx_Restarted

record smp =
  sm_session_active :: bool
  sm_consent_state :: smp_consent_state
  sm_consent_allowed :: bool
  sm_consent_cursor :: int
  sm_consent_sem :: bool
  sm_backup_confirm_name :: string
  sm_timer :: bool
  sm_xfer :: smp_transfer
  sm_rtc :: "rtc_state option"
  sm_rx :: smp_rx

definition smp_boot :: smp where
  "smp_boot =
     \<lparr> sm_session_active = False, sm_consent_state = CONSENT_IDLE, sm_consent_allowed = False,
       sm_consent_cursor = 1, sm_consent_sem = False, sm_backup_confirm_name = [], sm_timer = False,
       sm_xfer = \<lparr> xf_fp = None, xf_file_size = 0, xf_crc32 = 0, xf_chunk_count = 0, xf_next_chunk = 0,
         xf_id = 0, xf_is_upload = False, xf_active = False \<rparr>,
       sm_rtc = None, sm_rx = Rx_Reading \<rparr>"

section \<open>The outside\<close>

text \<open>The values of errno the code looks at. en_fsize seeks to the end, asks for the position and
  goes back to the start; the position of en_fread moves with what it reads, and its second
  result is ferror.\<close>

datatype io_result = Io_OK | Io_ENOENT | Io_EEXIST | Io_OTHER

record 'w smp_env =
  en_app_running :: "'w \<Rightarrow> bool"
  en_username :: "'w \<Rightarrow> string option"
  en_tz :: "'w \<Rightarrow> int option"
  en_now_us :: "'w \<Rightarrow> int"
  en_mac :: "byte list"
  en_space :: "'w \<Rightarrow> (64 word \<times> 64 word) option"
  en_label :: "'w \<Rightarrow> string option"
  en_lrv :: "'w \<Rightarrow> lrv"
  en_sign :: "string \<Rightarrow> byte list \<Rightarrow> byte list option"
  en_rtc_write :: "byte list \<Rightarrow> 'w \<Rightarrow> bool \<times> 'w"
  en_alloc :: "'w \<Rightarrow> bool"
  en_is_backup :: "byte list \<Rightarrow> bool option"
  en_apply_backup :: "byte list \<Rightarrow> 'w \<Rightarrow> bool \<times> 'w"
  en_opendir :: "string \<Rightarrow> 'w \<Rightarrow> (string \<times> bool) list option \<times> 'w"
  en_stat :: "string \<Rightarrow> 'w \<Rightarrow> 32 word option \<times> 'w"
  en_mkdir :: "string \<Rightarrow> 'w \<Rightarrow> io_result \<times> 'w"
  en_remove :: "string \<Rightarrow> 'w \<Rightarrow> io_result \<times> 'w"
  en_rename :: "string \<Rightarrow> string \<Rightarrow> 'w \<Rightarrow> io_result \<times> 'w"
  en_fopen_wb :: "string \<Rightarrow> 'w \<Rightarrow> nat option \<times> 'w"
  en_fopen_rb :: "string \<Rightarrow> 'w \<Rightarrow> (io_result + nat) \<times> 'w"
  en_fsize :: "nat \<Rightarrow> 'w \<Rightarrow> nat option \<times> 'w"
  en_fseek :: "nat \<Rightarrow> 32 word \<Rightarrow> 'w \<Rightarrow> bool \<times> 'w"
  en_fread :: "nat \<Rightarrow> nat \<Rightarrow> 'w \<Rightarrow> byte list \<times> bool \<times> 'w"
  en_fwrite :: "nat \<Rightarrow> byte list \<Rightarrow> 'w \<Rightarrow> nat \<times> 'w"
  en_fclose :: "nat \<Rightarrow> 'w \<Rightarrow> 'w"

text \<open>A C text at the start of a buffer.\<close>

definition text_of :: "byte list \<Rightarrow> string" where
  "text_of bs = map (\<lambda>b. char_of (unat b)) (c_text bs)"

definition bytes_of :: "string \<Rightarrow> byte list" where
  "bytes_of s = map of_char s"

section \<open>Checksums\<close>

definition crc16_step :: "16 word \<Rightarrow> byte \<Rightarrow> 16 word" where
  "crc16_step crc b = crc16_bits 8 (crc XOR push_bit 8 (ucast b))"

definition crc16_buf :: "16 word \<Rightarrow> byte list \<Rightarrow> 16 word" where
  "crc16_buf crc data = foldl crc16_step crc data"

fun crc32_step_bits :: "nat \<Rightarrow> 32 word \<Rightarrow> 32 word" where
  "crc32_step_bits 0 crc = crc"
| "crc32_step_bits (Suc n) crc =
     crc32_step_bits n (if crc AND 1 \<noteq> 0 then drop_bit 1 crc XOR 0xEDB88320 else drop_bit 1 crc)"

definition crc32_update :: "32 word \<Rightarrow> byte list \<Rightarrow> 32 word" where
  "crc32_update crc data = foldl (\<lambda>crc b. crc32_step_bits 8 (crc XOR ucast b)) crc data"

section \<open>Frames\<close>

definition smp_frame :: "byte \<Rightarrow> byte \<Rightarrow> byte list \<Rightarrow> byte list" where
  "smp_frame seq status body =
     (let plen = 2 + of_nat (length body) :: 16 word;
          hdr = SMP_SOF @ wr_u16le plen @ [seq, status];
          crc = crc16_buf 0xFFFF (drop 4 hdr);
          crc = (if body \<noteq> [] then crc16_buf crc body else crc)
      in hdr @ body @ wr_u16le crc)"

section \<open>Session\<close>

text \<open>Closing the file of a running transfer.\<close>

definition drop_transfer :: "'w smp_env \<Rightarrow> smp \<Rightarrow> 'w \<Rightarrow> smp \<times> 'w" where
  "drop_transfer env s w =
     (let x = sm_xfer s;
          w = (if xf_active x \<and> xf_fp x \<noteq> None then en_fclose env (the (xf_fp x)) w else w);
          x = (if xf_active x \<and> xf_fp x \<noteq> None then x\<lparr> xf_fp := None \<rparr> else x)
      in (s\<lparr> sm_xfer := x\<lparr> xf_active := False \<rparr>, sm_session_active := False \<rparr>, w))"

text \<open>The timer has run out.\<close>

definition session_timeout_cb :: "'w smp_env \<Rightarrow> smp \<Rightarrow> 'w \<Rightarrow> smp \<times> 'w" where
  "session_timeout_cb env s w = drop_transfer env (s\<lparr> sm_timer := False \<rparr>) w"

definition reset_session_timer :: "smp \<Rightarrow> smp" where
  "reset_session_timer s = s\<lparr> sm_timer := True \<rparr>"

definition close_session :: "'w smp_env \<Rightarrow> smp \<Rightarrow> 'w \<Rightarrow> smp \<times> 'w" where
  "close_session env s w = drop_transfer env (s\<lparr> sm_timer := False \<rparr>) w"

section \<open>Paths\<close>

definition sd_prefix_ok :: "string \<Rightarrow> bool" where
  "sd_prefix_ok p \<longleftrightarrow> take 3 p = ''/sd'' \<and> (length p = 3 \<or> char_at p 3 = Some CHR ''/'')"

definition path_valid_sd :: "byte list \<Rightarrow> string option" where
  "path_valid_sd body =
     (if body = [] \<or> last body \<noteq> 0 then None
      else if \<not> sd_prefix_ok (text_of body) then None
      else Some (text_of body))"

text \<open>jpp_make_parent_dirs of main/jpp_file_util.c: every prefix before a slash, of the first 255
  characters.\<close>

definition make_parent_dirs :: "'w smp_env \<Rightarrow> string \<Rightarrow> 'w \<Rightarrow> 'w" where
  "make_parent_dirs env path w =
     (let tmp = take 255 path in
      fold (\<lambda>i w. if tmp ! i = CHR ''/'' then snd (en_mkdir env (take i tmp) w) else w) [1..<length tmp] w)"

text \<open>jpp_read_file_into of main/jpp_file_util.c.\<close>

datatype read_err = READ_ERR_OPEN | READ_ERR_SIZE

definition read_file_into :: "'w smp_env \<Rightarrow> string \<Rightarrow> nat \<Rightarrow> 'w \<Rightarrow> (read_err + byte list) \<times> 'w" where
  "read_file_into env path buf_len w =
     (case en_fopen_rb env path w of
        (Inl e, w) \<Rightarrow> (Inl READ_ERR_OPEN, w)
      | (Inr fp, w) \<Rightarrow>
          (case en_fsize env fp w of
             (None, w) \<Rightarrow> (Inl READ_ERR_SIZE, en_fclose env fp w)
           | (Some sz, w) \<Rightarrow>
               if sz \<ge> buf_len then (Inl READ_ERR_SIZE, en_fclose env fp w)
               else
                 (case en_fread env fp sz w of
                    (xs, err, w) \<Rightarrow> (Inr xs, en_fclose env fp w))))"

section \<open>Command handlers\<close>

text \<open>The answer of a handler, status and body; None when the handler waits for the user.\<close>

type_synonym reply = "byte \<times> byte list"

definition err :: "byte \<Rightarrow> reply" where
  "err st = (st, [])"

definition handle_session_start ::
  "'w smp_env \<Rightarrow> byte \<Rightarrow> byte list \<Rightarrow> smp \<Rightarrow> 'w \<Rightarrow> reply option \<times> smp" where
  "handle_session_start env seq body s w =
     (if sm_session_active s then (Some (err SMP_ST_ERR_BUSY), s)
      else if en_app_running env w then (Some (err SMP_ST_ERR_APP_RUNNING), s)
      else if length body < 1 \<or> body ! 0 \<noteq> SMP_PROTO_VERSION then (Some (err SMP_ST_ERR_INVALID), s)
      else (None, s\<lparr> sm_consent_cursor := 1, sm_consent_state := CONSENT_PENDING, sm_rx := Rx_Wait_Session seq \<rparr>))"

text \<open>After the dialog.\<close>

definition session_answered :: "smp \<Rightarrow> reply \<times> smp" where
  "session_answered s =
     (if \<not> sm_consent_allowed s then (err SMP_ST_ERR_DENIED, s)
      else ((SMP_ST_OK, [SMP_PROTO_VERSION]), reset_session_timer (s\<lparr> sm_session_active := True \<rparr>)))"

definition handle_session_end :: "'w smp_env \<Rightarrow> smp \<Rightarrow> 'w \<Rightarrow> reply \<times> smp \<times> 'w" where
  "handle_session_end env s w = (case close_session env s w of (s, w) \<Rightarrow> (err SMP_ST_OK, s, w))"

definition le64 :: "64 word \<Rightarrow> byte list" where
  "le64 v = map (\<lambda>i. ucast (drop_bit (8 * i) v)) [0..<8]"

definition colon_hex :: "byte list \<Rightarrow> string" where
  "colon_hex mac =
     upper_hex (mac ! 0) @ '':'' @ upper_hex (mac ! 1) @ '':'' @ upper_hex (mac ! 2) @ '':'' @
     upper_hex (mac ! 3) @ '':'' @ upper_hex (mac ! 4) @ '':'' @ upper_hex (mac ! 5)"

definition handle_get_info :: "'w smp_env \<Rightarrow> 'w \<Rightarrow> reply" where
  "handle_get_info env w =
     (let username = (case en_username env w of None \<Rightarrow> [] | Some u \<Rightarrow> if length u < SMP_USERNAME_MAX + 1 then u else []);
          hwid = colon_hex (en_mac env);
          (sd_total, sd_used, sd_free) =
            (case en_space env w of None \<Rightarrow> (0, 0, 0)
             | Some (t, f) \<Rightarrow> (t, if t \<ge> f then t - f else 0, f));
          label = (case en_label env w of None \<Rightarrow> [] | Some l \<Rightarrow> l)
      in (SMP_ST_OK,
          bytes_of JPPDOS_VERSION @ [0] @ bytes_of username @ [0] @ bytes_of hwid @ [0] @
          le64 sd_total @ le64 sd_used @ le64 sd_free @ bytes_of label @ [0]))"

text \<open>A failed signature leaves the zeros of its buffer.\<close>

definition handle_get_lrv_data :: "'w smp_env \<Rightarrow> smp \<Rightarrow> 'w \<Rightarrow> reply" where
  "handle_get_lrv_data env s w =
     (let l = en_lrv env w in
      if \<not> lrv_has_data l then err SMP_ST_ERR_NOT_FOUND
      else
        (case lrv_get_full_data l of
           (r, None) \<Rightarrow> err SMP_ST_ERR_IO
         | (r, Some d) \<Rightarrow>
             if r \<noteq> LRV_OK then err SMP_ST_ERR_IO
             else
               (let now = (case sm_rtc s of None \<Rightarrow> None
                           | Some rtc \<Rightarrow>
                               (case rtc_get_current (Some rtc) (en_now_us env w) (Some zero_datetime) of
                                  (st, dt) \<Rightarrow> if st = RTC_OK then dt else None));
                    challenge = fst (lrv_build_challenge (en_username env w) (en_tz env w) now LRV_CHALLENGE_MAX 0);
                    resp_sig = (case snd (lrv_sign_challenge (en_sign env) l (Some challenge)) of
                                  None \<Rightarrow> replicate 64 0 | Some sig \<Rightarrow> sig);
                    cert = take (LRV_CERT_MAX - 1) (c_text (ld_cert d)) @ [0];
                    ch = bytes_of challenge @ [0]
                in if length cert + 64 + 32 + length ch + 64 > SMP_LRV_RESP_BUF then err SMP_ST_ERR_OVERFLOW
                   else (SMP_ST_OK, cert @ ld_cert_sig d @ ld_device_pubkey d @ ch @ resp_sig))))"

definition handle_set_time :: "'w smp_env \<Rightarrow> byte list \<Rightarrow> smp \<Rightarrow> 'w \<Rightarrow> reply \<times> smp \<times> 'w" where
  "handle_set_time env body s w =
     (if length body \<noteq> 8 then (err SMP_ST_ERR_INVALID, s, w)
      else
        (let dt = \<lparr> year = uint (rd_u16le body), month = uint (body ! 2), day = uint (body ! 3), weekday = uint (body ! 4),
                   hour = uint (body ! 5), minute = uint (body ! 6), second = uint (body ! 7), subseconds = 0 \<rparr>
         in case sm_rtc s of
              None \<Rightarrow> (err SMP_ST_ERR_INVALID, s, w)
            | Some rtc \<Rightarrow>
                if \<not> rtc_datetime_valid (Some dt) then (err SMP_ST_ERR_INVALID, s, w)
                else
                  (let rtc = snd (rtc_set_time rtc (Some dt) (en_now_us env w)) in
                   if \<not> rs_hw_attached rtc then (err SMP_ST_OK, s\<lparr> sm_rtc := Some rtc \<rparr>, w)
                   else
                     (case en_rtc_write env (rtc_write_bytes dt) w of
                        (ok, w') \<Rightarrow>
                          (case rtc_hw_write rtc (Some dt) ok (en_now_us env w') of
                             (st, written, rtc) \<Rightarrow>
                               (err SMP_ST_OK, s\<lparr> sm_rtc := Some rtc \<rparr>, if written = [] then w else w'))))))"

definition handle_keepalive :: reply where
  "handle_keepalive = err SMP_ST_OK"

definition hidden :: "string \<Rightarrow> bool" where
  "hidden name = (char_at name 0 = Some CHR ''.'')"

text \<open>The size of a file or the number of entries of a directory, through a path buffer of 512
  characters.\<close>

definition entry_size :: "'w smp_env \<Rightarrow> string \<Rightarrow> string \<Rightarrow> bool \<Rightarrow> 'w \<Rightarrow> 32 word \<times> 'w" where
  "entry_size env path name is_dir w =
     (let child_path = take 511 (path @ ''/'' @ name) in
      if is_dir then
        (case en_opendir env child_path w of
           (None, w) \<Rightarrow> (0, w)
         | (Some es, w) \<Rightarrow> (of_nat (length (filter (\<lambda>(n, d). \<not> hidden n) es)), w))
      else
        (case en_stat env child_path w of (None, w) \<Rightarrow> (0, w) | (Some sz, w) \<Rightarrow> (sz, w)))"

text \<open>What the list buffer holds behind its count of two bytes.\<close>

fun list_loop :: "'w smp_env \<Rightarrow> string \<Rightarrow> (string \<times> bool) list \<Rightarrow> 16 word \<Rightarrow> byte list \<Rightarrow> 'w \<Rightarrow> 16 word \<times> byte list \<times> 'w" where
  "list_loop env path [] cnt buf w = (cnt, buf, w)"
| "list_loop env path ((name, is_dir) # es) cnt buf w =
     (if hidden name then list_loop env path es cnt buf w
      else if 2 + length buf + 5 + length name + 1 > SMP_LIST_BUF_BYTES then (cnt, buf, w)
      else
        (case entry_size env path name is_dir w of
           (n, w) \<Rightarrow>
             list_loop env path es (cnt + 1)
               (buf @ [if is_dir then 0x01 else 0x00] @ wr_u32le n @ bytes_of name @ [0]) w))"

definition handle_fs_list_dir :: "'w smp_env \<Rightarrow> byte list \<Rightarrow> 'w \<Rightarrow> reply \<times> 'w" where
  "handle_fs_list_dir env body w =
     (case path_valid_sd body of
        None \<Rightarrow> (err SMP_ST_ERR_INVALID, w)
      | Some path \<Rightarrow>
          (case en_opendir env path w of
             (None, w) \<Rightarrow> (err SMP_ST_ERR_NOT_FOUND, w)
           | (Some es, w) \<Rightarrow>
               (case list_loop env path es 0 [] w of
                  (cnt, buf, w) \<Rightarrow> ((SMP_ST_OK, wr_u16le cnt @ buf), w))))"

definition handle_fs_mkdir :: "'w smp_env \<Rightarrow> byte list \<Rightarrow> 'w \<Rightarrow> reply \<times> 'w" where
  "handle_fs_mkdir env body w =
     (case path_valid_sd body of
        None \<Rightarrow> (err SMP_ST_ERR_INVALID, w)
      | Some path \<Rightarrow>
          (case en_mkdir env path (make_parent_dirs env path w) of
             (r, w) \<Rightarrow>
               (err (if r = Io_OK then SMP_ST_OK else if r = Io_EEXIST then SMP_ST_ERR_EXISTS else SMP_ST_ERR_IO), w)))"

definition handle_fs_remove :: "'w smp_env \<Rightarrow> byte list \<Rightarrow> 'w \<Rightarrow> reply \<times> 'w" where
  "handle_fs_remove env body w =
     (case path_valid_sd body of
        None \<Rightarrow> (err SMP_ST_ERR_INVALID, w)
      | Some path \<Rightarrow>
          (case en_remove env path w of
             (r, w) \<Rightarrow>
               (err (if r = Io_OK then SMP_ST_OK else if r = Io_ENOENT then SMP_ST_ERR_NOT_FOUND else SMP_ST_ERR_IO), w)))"

definition handle_fs_rename :: "'w smp_env \<Rightarrow> byte list \<Rightarrow> 'w \<Rightarrow> reply \<times> 'w" where
  "handle_fs_rename env body w =
     (if length body < 4 then (err SMP_ST_ERR_INVALID, w)
      else
        (let src_len = length (c_text body) in
         if src_len \<ge> length body - 1 then (err SMP_ST_ERR_INVALID, w)
         else
           (let dst_area = drop (src_len + 1) body in
            if length (c_text dst_area) \<ge> length dst_area then (err SMP_ST_ERR_INVALID, w)
            else if \<not> sd_prefix_ok (text_of body) \<or> \<not> sd_prefix_ok (text_of dst_area) then (err SMP_ST_ERR_INVALID, w)
            else
              (case en_rename env (text_of body) (text_of dst_area) w of
                 (r, w) \<Rightarrow>
                   (err (if r = Io_OK then SMP_ST_OK else if r = Io_ENOENT then SMP_ST_ERR_NOT_FOUND
                         else if r = Io_EEXIST then SMP_ST_ERR_EXISTS else SMP_ST_ERR_IO), w)))))"

section \<open>Uploads\<close>

definition chunks_of :: "32 word \<Rightarrow> 16 word" where
  "chunks_of file_size = ucast ((file_size + of_nat SMP_CHUNK_SIZE - 1) div of_nat SMP_CHUNK_SIZE)"

definition handle_fs_upload_begin :: "'w smp_env \<Rightarrow> byte list \<Rightarrow> smp \<Rightarrow> 'w \<Rightarrow> reply \<times> smp \<times> 'w" where
  "handle_fs_upload_begin env body s w =
     (if xf_active (sm_xfer s) then (err SMP_ST_ERR_TRANSFER, s, w)
      else if length body < 5 then (err SMP_ST_ERR_INVALID, s, w)
      else
        (let file_size = rd_u32le body; area = drop 4 body; path = text_of area in
         if length (c_text area) \<ge> length area \<or> \<not> sd_prefix_ok path then (err SMP_ST_ERR_INVALID, s, w)
         else
           (case en_fopen_wb env path (make_parent_dirs env path w) of
              (None, w) \<Rightarrow> (err SMP_ST_ERR_IO, s, w)
            | (Some fp, w) \<Rightarrow>
                ((SMP_ST_OK, [0x00]),
                 s\<lparr> sm_xfer := \<lparr> xf_fp = Some fp, xf_file_size = file_size, xf_crc32 = NOT 0,
                     xf_chunk_count = chunks_of file_size, xf_next_chunk = 0, xf_id = 0x00, xf_is_upload = True,
                     xf_active = True \<rparr> \<rparr>, w))))"

text \<open>The end of a transfer: its file is closed.\<close>

definition end_transfer :: "'w smp_env \<Rightarrow> smp \<Rightarrow> 'w \<Rightarrow> smp \<times> 'w" where
  "end_transfer env s w =
     (s\<lparr> sm_xfer := (sm_xfer s)\<lparr> xf_fp := None, xf_active := False \<rparr> \<rparr>, en_fclose env (the (xf_fp (sm_xfer s))) w)"

definition handle_fs_upload_chunk :: "'w smp_env \<Rightarrow> byte list \<Rightarrow> smp \<Rightarrow> 'w \<Rightarrow> reply \<times> smp \<times> 'w" where
  "handle_fs_upload_chunk env body s w =
     (let x = sm_xfer s in
      if \<not> xf_active x \<or> \<not> xf_is_upload x then (err SMP_ST_ERR_TRANSFER, s, w)
      else if length body < 4 then (err SMP_ST_ERR_INVALID, s, w)
      else if body ! 0 \<noteq> xf_id x then (err SMP_ST_ERR_TRANSFER, s, w)
      else
        (let chunk_idx = rd_u16le (drop 1 body); resp = (SMP_ST_OK, [body ! 1, body ! 2]) in
         if chunk_idx \<noteq> xf_next_chunk x then
           (if xf_next_chunk x > 0 \<and> chunk_idx = xf_next_chunk x - 1 then (resp, s, w)
            else (case end_transfer env s w of (s, w) \<Rightarrow> (err SMP_ST_ERR_TRANSFER, s, w)))
         else
           (let data = drop 3 body in
            case en_fwrite env (the (xf_fp x)) data w of
              (n, w) \<Rightarrow>
                if n \<noteq> length data then (case end_transfer env s w of (s, w) \<Rightarrow> (err SMP_ST_ERR_IO, s, w))
                else
                  (resp, s\<lparr> sm_xfer := x\<lparr> xf_crc32 := crc32_update (xf_crc32 x) data, xf_next_chunk := xf_next_chunk x + 1 \<rparr> \<rparr>, w))))"

definition handle_fs_upload_end :: "'w smp_env \<Rightarrow> byte list \<Rightarrow> smp \<Rightarrow> 'w \<Rightarrow> reply \<times> smp \<times> 'w" where
  "handle_fs_upload_end env body s w =
     (let x = sm_xfer s in
      if \<not> xf_active x \<or> \<not> xf_is_upload x then (err SMP_ST_ERR_TRANSFER, s, w)
      else if length body < 5 then (err SMP_ST_ERR_INVALID, s, w)
      else if body ! 0 \<noteq> xf_id x then (err SMP_ST_ERR_TRANSFER, s, w)
      else
        (case end_transfer env s w of
           (s, w) \<Rightarrow>
             (err (if rd_u32le (drop 1 body) \<noteq> NOT (xf_crc32 x) then SMP_ST_ERR_INVALID else SMP_ST_OK), s, w)))"

section \<open>Downloads\<close>

text \<open>The checksum of the whole file; a file that never ends is read for ever.\<close>

partial_function (option) dl_crc :: "'w smp_env \<Rightarrow> nat \<Rightarrow> 32 word \<Rightarrow> 'w \<Rightarrow> (32 word \<times> 'w) option" where
  "dl_crc env fp crc w =
     (case en_fread env fp 256 w of
        (xs, e, w) \<Rightarrow> if length xs > 0 then dl_crc env fp (crc32_update crc xs) w else Some (crc, w))"

definition handle_fs_dl_begin :: "'w smp_env \<Rightarrow> byte list \<Rightarrow> smp \<Rightarrow> 'w \<Rightarrow> (reply \<times> smp \<times> 'w) option" where
  "handle_fs_dl_begin env body s w =
     (if xf_active (sm_xfer s) then Some (err SMP_ST_ERR_TRANSFER, s, w)
      else
        (case path_valid_sd body of
           None \<Rightarrow> Some (err SMP_ST_ERR_INVALID, s, w)
         | Some path \<Rightarrow>
             (case en_fopen_rb env path w of
                (Inl e, w) \<Rightarrow> Some (err (if e = Io_ENOENT then SMP_ST_ERR_NOT_FOUND else SMP_ST_ERR_IO), s, w)
              | (Inr fp, w) \<Rightarrow>
                  (case en_fsize env fp w of
                     (None, w) \<Rightarrow> Some (err SMP_ST_ERR_IO, s, en_fclose env fp w)
                   | (Some sz, w) \<Rightarrow>
                       (case dl_crc env fp (NOT 0) w of
                          None \<Rightarrow> None
                        | Some (crc, w) \<Rightarrow>
                            (let file_size = of_nat sz; final_crc = NOT crc; w = snd (en_fseek env fp 0 w)
                             in Some ((SMP_ST_OK, [0x00] @ wr_u32le file_size @ wr_u16le (chunks_of file_size) @ wr_u32le final_crc),
                                  s\<lparr> sm_xfer := \<lparr> xf_fp = Some fp, xf_file_size = file_size, xf_crc32 = final_crc,
                                      xf_chunk_count = chunks_of file_size, xf_next_chunk = 0, xf_id = 0x00,
                                      xf_is_upload = False, xf_active = True \<rparr> \<rparr>, w)))))))"

definition handle_fs_dl_chunk :: "'w smp_env \<Rightarrow> byte list \<Rightarrow> smp \<Rightarrow> 'w \<Rightarrow> reply \<times> 'w" where
  "handle_fs_dl_chunk env body s w =
     (let x = sm_xfer s in
      if \<not> xf_active x \<or> xf_is_upload x then (err SMP_ST_ERR_TRANSFER, w)
      else if length body < 3 then (err SMP_ST_ERR_INVALID, w)
      else if body ! 0 \<noteq> xf_id x then (err SMP_ST_ERR_TRANSFER, w)
      else
        (let chunk_idx = rd_u16le (drop 1 body) in
         if chunk_idx \<ge> xf_chunk_count x then (err SMP_ST_ERR_INVALID, w)
         else
           (case en_fseek env (the (xf_fp x)) (ucast chunk_idx * of_nat SMP_CHUNK_SIZE) w of
              (ok, w) \<Rightarrow>
                if \<not> ok then (err SMP_ST_ERR_IO, w)
                else
                  (case en_fread env (the (xf_fp x)) SMP_CHUNK_SIZE w of
                     (data, e, w) \<Rightarrow>
                       if length data = 0 \<and> e then (err SMP_ST_ERR_IO, w)
                       else ((SMP_ST_OK, take 3 body @ data), w)))))"

definition handle_fs_dl_end :: "'w smp_env \<Rightarrow> byte list \<Rightarrow> smp \<Rightarrow> 'w \<Rightarrow> reply \<times> smp \<times> 'w" where
  "handle_fs_dl_end env body s w =
     (let x = sm_xfer s in
      if \<not> xf_active x \<or> xf_is_upload x then (err SMP_ST_ERR_TRANSFER, s, w)
      else if length body < 1 \<or> body ! 0 \<noteq> xf_id x then (err SMP_ST_ERR_TRANSFER, s, w)
      else (case end_transfer env s w of (s, w) \<Rightarrow> (err SMP_ST_OK, s, w)))"

section \<open>Backup\<close>

definition handle_apply_backup ::
  "'w smp_env \<Rightarrow> byte \<Rightarrow> byte list \<Rightarrow> smp \<Rightarrow> 'w \<Rightarrow> reply option \<times> smp \<times> 'w" where
  "handle_apply_backup env seq body s w =
     (case path_valid_sd body of
        None \<Rightarrow> (Some (err SMP_ST_ERR_INVALID), s, w)
      | Some path \<Rightarrow>
          if \<not> en_alloc env w then (Some (err SMP_ST_ERR_IO), s, w)
          else
            (case read_file_into env path SMP_BACKUP_FILE_MAX w of
               (Inl READ_ERR_OPEN, w) \<Rightarrow> (Some (err SMP_ST_ERR_NOT_FOUND), s, w)
             | (Inl READ_ERR_SIZE, w) \<Rightarrow> (Some (err SMP_ST_ERR_OVERFLOW), s, w)
             | (Inr buf, w) \<Rightarrow>
                 (case en_is_backup env buf of
                    None \<Rightarrow> (Some (err SMP_ST_ERR_INVALID), s, w)
                  | Some ok \<Rightarrow>
                      if \<not> ok then (Some (err SMP_ST_ERR_INVALID), s, w)
                      else
                        (None,
                         s\<lparr> sm_backup_confirm_name := take 63 (rev (takeWhile (\<lambda>c. c \<noteq> CHR ''/'') (rev path))),
                            sm_consent_cursor := 0, sm_consent_state := CONSENT_BACKUP_PENDING,
                            sm_rx := Rx_Wait_Backup seq buf \<rparr>, w))))"

text \<open>After the dialog; a backup that was applied ends in a restart.\<close>

definition backup_answered :: "'w smp_env \<Rightarrow> byte list \<Rightarrow> smp \<Rightarrow> 'w \<Rightarrow> reply \<times> smp \<times> 'w" where
  "backup_answered env buf s w =
     (if \<not> sm_consent_allowed s then (err SMP_ST_ERR_DENIED, s, w)
      else
        (case en_apply_backup env buf w of
           (ok, w) \<Rightarrow>
             if \<not> ok then (err SMP_ST_ERR_IO, s, w)
             else (err SMP_ST_OK, s\<lparr> sm_rx := Rx_Restarted \<rparr>, w)))"

section \<open>Dispatch\<close>

text \<open>The bytes sent, the state and the world; None when a handler does not return.\<close>

definition dispatch_command ::
  "'w smp_env \<Rightarrow> byte list \<Rightarrow> smp \<Rightarrow> 'w \<Rightarrow> (byte list \<times> smp \<times> 'w) option" where
  "dispatch_command env payload s w =
     (if length payload < 3 then Some ([], s, w)
      else
        (let seq = payload ! 0; cmd = payload ! 1; body = drop 3 payload;
             send = (\<lambda>r. smp_frame seq (fst r) (snd r));
             send_opt = (\<lambda>r. case r of None \<Rightarrow> [] | Some r \<Rightarrow> send r);
             fin = (\<lambda>(r, s, w). Some (send r, s, w))
         in if \<not> sm_session_active s \<and> cmd \<noteq> SMP_CMD_SESSION_START
            then Some (send (err SMP_ST_ERR_NO_SESSION), s, w)
            else
              (let s = (if sm_session_active s then reset_session_timer s else s);
                   fs = (\<lambda>(r, w). Some (send r, s, w))
               in if cmd = SMP_CMD_SESSION_START then
                    (case handle_session_start env seq body s w of (r, s) \<Rightarrow> Some (send_opt r, s, w))
                  else if cmd = SMP_CMD_SESSION_END then fin (handle_session_end env s w)
                  else if cmd = SMP_CMD_GET_INFO then Some (send (handle_get_info env w), s, w)
                  else if cmd = SMP_CMD_GET_LRV_DATA then Some (send (handle_get_lrv_data env s w), s, w)
                  else if cmd = SMP_CMD_SET_TIME then fin (handle_set_time env body s w)
                  else if cmd = SMP_CMD_KEEPALIVE then Some (send handle_keepalive, s, w)
                  else if cmd = SMP_CMD_FS_LIST_DIR then fs (handle_fs_list_dir env body w)
                  else if cmd = SMP_CMD_FS_MKDIR then fs (handle_fs_mkdir env body w)
                  else if cmd = SMP_CMD_FS_REMOVE then fs (handle_fs_remove env body w)
                  else if cmd = SMP_CMD_FS_RENAME then fs (handle_fs_rename env body w)
                  else if cmd = SMP_CMD_FS_UPLOAD_BEGIN then fin (handle_fs_upload_begin env body s w)
                  else if cmd = SMP_CMD_FS_UPLOAD_CHUNK then fin (handle_fs_upload_chunk env body s w)
                  else if cmd = SMP_CMD_FS_UPLOAD_END then fin (handle_fs_upload_end env body s w)
                  else if cmd = SMP_CMD_FS_DL_BEGIN then
                    (case handle_fs_dl_begin env body s w of None \<Rightarrow> None | Some r \<Rightarrow> fin r)
                  else if cmd = SMP_CMD_FS_DL_CHUNK then fs (handle_fs_dl_chunk env body s w)
                  else if cmd = SMP_CMD_FS_DL_END then fin (handle_fs_dl_end env body s w)
                  else if cmd = SMP_CMD_APPLY_BACKUP then
                    (case handle_apply_backup env seq body s w of (r, s, w) \<Rightarrow> Some (send_opt r, s, w))
                  else Some (send (err SMP_ST_ERR_INVALID), s, w))))"

section \<open>The receive task\<close>

text \<open>usb_read waits for at most n bytes until a number of ticks has passed.\<close>

record 'w usb =
  usb_read :: "nat \<Rightarrow> 32 word \<Rightarrow> 'w \<Rightarrow> byte list \<times> 'w"
  usb_ticks :: "'w \<Rightarrow> 32 word \<times> 'w"
  usb_hz :: "32 word"

definition pdMS_TO_TICKS :: "'w usb \<Rightarrow> 32 word \<Rightarrow> 32 word" where
  "pdMS_TO_TICKS usb ms = ms * usb_hz usb div 1000"

definition portMAX_DELAY :: "32 word" where "portMAX_DELAY = 0xFFFFFFFF"

partial_function (option) read_exact_loop ::
  "'w usb \<Rightarrow> nat \<Rightarrow> 32 word \<Rightarrow> 32 word \<Rightarrow> byte list \<Rightarrow> 'w \<Rightarrow> (byte list \<times> 'w) option" where
  "read_exact_loop usb len ticks start got w =
     (if length got < len then
        (case usb_ticks usb w of
           (t, w) \<Rightarrow>
             (let elapsed = t - start in
              if elapsed \<ge> ticks then Some (got, w)
              else
                (case usb_read usb (len - length got) (ticks - elapsed) w of
                   (xs, w) \<Rightarrow> read_exact_loop usb len ticks start (got @ xs) w)))
      else Some (got, w))"

definition smp_read_exact :: "'w usb \<Rightarrow> nat \<Rightarrow> 32 word \<Rightarrow> 'w \<Rightarrow> (byte list \<times> 'w) option" where
  "smp_read_exact usb len ticks w =
     (case usb_ticks usb w of (start, w) \<Rightarrow> read_exact_loop usb len ticks start [] w)"

partial_function (option) scan_sof :: "'w usb \<Rightarrow> nat \<Rightarrow> 'w \<Rightarrow> 'w option" where
  "scan_sof usb sof_idx w =
     (if sof_idx < 4 then
        (case usb_read usb 1 portMAX_DELAY w of
           (xs, w) \<Rightarrow>
             if length xs \<noteq> 1 then scan_sof usb sof_idx w
             else if xs ! 0 = SMP_SOF ! sof_idx then scan_sof usb (sof_idx + 1) w
             else if xs ! 0 = SMP_SOF ! 0 then scan_sof usb 1 w
             else scan_sof usb 0 w)
      else Some w)"

text \<open>One turn of the task: the payload of a good frame, if one came.\<close>

definition rx_turn :: "'w usb \<Rightarrow> 'w \<Rightarrow> (byte list option \<times> 'w) option" where
  "rx_turn usb w =
     (case scan_sof usb 0 w of
        None \<Rightarrow> None
      | Some w \<Rightarrow>
          (case smp_read_exact usb 2 (pdMS_TO_TICKS usb 1000) w of
             None \<Rightarrow> None
           | Some (len_bytes, w) \<Rightarrow>
               if length len_bytes \<noteq> 2 then Some (None, w)
               else
                 (let plen = unat (rd_u16le len_bytes) in
                  if plen = 0 \<or> plen > SMP_MAX_PAYLOAD_BYTES then Some (None, w)
                  else
                    (case smp_read_exact usb plen (pdMS_TO_TICKS usb 10000) w of
                       None \<Rightarrow> None
                     | Some (payload, w) \<Rightarrow>
                         if length payload \<noteq> plen then Some (None, w)
                         else
                           (case smp_read_exact usb 2 (pdMS_TO_TICKS usb 1000) w of
                              None \<Rightarrow> None
                            | Some (crc_bytes, w) \<Rightarrow>
                                if length crc_bytes \<noteq> 2 then Some (None, w)
                                else if crc16_buf (crc16_buf 0xFFFF len_bytes) payload \<noteq> rd_u16le crc_bytes then Some (None, w)
                                else Some (Some payload, w))))))"

section \<open>The other tasks\<close>

datatype ui_action =
  UI_ACTION_NONE | UI_ACTION_UP | UI_ACTION_DOWN | UI_ACTION_LEFT | UI_ACTION_RIGHT | UI_ACTION_OK | UI_ACTION_BACK

definition send_event :: "byte \<Rightarrow> byte list \<Rightarrow> byte list" where
  "send_event event_type body = smp_frame SMP_SEQ_EVENT event_type body"

text \<open>The main loop: what the user does.\<close>

definition serial_mgr_handle_action :: "'w smp_env \<Rightarrow> ui_action \<Rightarrow> smp \<Rightarrow> 'w \<Rightarrow> byte list \<times> smp \<times> 'w" where
  "serial_mgr_handle_action env action s w =
     (if sm_consent_state s = CONSENT_PENDING \<or> sm_consent_state s = CONSENT_BACKUP_PENDING then
        (case action of
           UI_ACTION_LEFT \<Rightarrow> ([], s\<lparr> sm_consent_cursor := 0 \<rparr>, w)
         | UI_ACTION_RIGHT \<Rightarrow> ([], s\<lparr> sm_consent_cursor := 1 \<rparr>, w)
         | UI_ACTION_OK \<Rightarrow>
             ([], s\<lparr> sm_consent_allowed := (sm_consent_cursor s = 1), sm_consent_state := CONSENT_IDLE, sm_consent_sem := True \<rparr>, w)
         | _ \<Rightarrow> ([], s, w))
      else if sm_session_active s \<and> action = UI_ACTION_BACK then
        (case close_session env s w of (s, w) \<Rightarrow> (send_event SMP_EVT_SESSION_ENDED [], s, w))
      else ([], s, w))"

definition serial_mgr_needs_render :: "smp \<Rightarrow> bool" where
  "serial_mgr_needs_render s \<longleftrightarrow> sm_consent_state s \<noteq> CONSENT_IDLE \<or> sm_session_active s"

definition serial_mgr_session_active :: "smp \<Rightarrow> bool" where
  "serial_mgr_session_active s = sm_session_active s"

definition serial_mgr_set_rtc :: "rtc_state option \<Rightarrow> smp \<Rightarrow> smp" where
  "serial_mgr_set_rtc rtc s = s\<lparr> sm_rtc := rtc \<rparr>"

text \<open>The rows of text on the display, without the title bar.\<close>

definition serial_mgr_render :: "smp \<Rightarrow> (nat \<times> string) list" where
  "serial_mgr_render s =
     (if sm_consent_state s = CONSENT_PENDING then
        [(2, ''Allow PC access''), (3, ''to files and''), (4, ''device info?''),
         (6, ui_consent_selector_row (sm_consent_cursor s \<noteq> 0))]
      else if sm_consent_state s = CONSENT_BACKUP_PENDING then
        [(2, ''Apply backup?''), (3, sm_backup_confirm_name s), (4, ''This will restart''),
         (6, ui_consent_selector_row (sm_consent_cursor s \<noteq> 0))]
      else if sm_session_active s then [(2, ''Session active''), (5, ''Hold OK: end'')]
      else [])"

section \<open>Runs\<close>

text \<open>A payload comes in, the user acts, the session timer runs out, or the receive task goes on
  after a dialog; with the bytes sent to the host.\<close>

datatype smp_event = Ev_Payload "byte list" | Ev_Action ui_action | Ev_Timeout | Ev_Resume

inductive smp_step :: "'w smp_env \<Rightarrow> smp \<times> 'w \<Rightarrow> smp_event \<Rightarrow> byte list \<Rightarrow> smp \<times> 'w \<Rightarrow> bool" for env where
  step_payload: "\<lbrakk>sm_rx s = Rx_Reading; dispatch_command env p s w = Some (tx, s', w')\<rbrakk> \<Longrightarrow>
     smp_step env (s, w) (Ev_Payload p) tx (s', w')"
| step_action: "\<lbrakk>sm_rx s \<noteq> Rx_Restarted; serial_mgr_handle_action env a s w = (tx, s', w')\<rbrakk> \<Longrightarrow>
     smp_step env (s, w) (Ev_Action a) tx (s', w')"
| step_timeout: "\<lbrakk>sm_rx s \<noteq> Rx_Restarted; sm_timer s; session_timeout_cb env s w = (s', w')\<rbrakk> \<Longrightarrow>
     smp_step env (s, w) Ev_Timeout [] (s', w')"
| step_session: "\<lbrakk>sm_rx s = Rx_Wait_Session seq; sm_consent_sem s;
      session_answered (s\<lparr> sm_consent_sem := False, sm_rx := Rx_Reading \<rparr>) = (r, s')\<rbrakk> \<Longrightarrow>
     smp_step env (s, w) Ev_Resume (smp_frame seq (fst r) (snd r)) (s', w)"
| step_backup: "\<lbrakk>sm_rx s = Rx_Wait_Backup seq buf; sm_consent_sem s;
      backup_answered env buf (s\<lparr> sm_consent_sem := False, sm_rx := Rx_Reading \<rparr>) w = (r, s', w')\<rbrakk> \<Longrightarrow>
     smp_step env (s, w) Ev_Resume (smp_frame seq (fst r) (snd r)) (s', w')"

inductive smp_run :: "'w smp_env \<Rightarrow> smp \<times> 'w \<Rightarrow> smp_event list \<Rightarrow> smp \<times> 'w \<Rightarrow> bool" for env where
  run_nil: "smp_run env c [] c"
| run_step: "\<lbrakk>smp_run env c evs c1; smp_step env c1 e tx c2\<rbrakk> \<Longrightarrow> smp_run env c (evs @ [e]) c2"

inductive_cases smp_stepE: "smp_step env c e tx c'"

section \<open>Frames on the line\<close>

text \<open>The frame format of the protocol.\<close>

definition wire_frame :: "byte list \<Rightarrow> byte list" where
  "wire_frame payload =
     SMP_SOF @ wr_u16le (of_nat (length payload)) @ payload @
     wr_u16le (crc16_buf 0xFFFF (wr_u16le (of_nat (length payload)) @ payload))"

lemma crc16_buf_append: "crc16_buf crc (xs @ ys) = crc16_buf (crc16_buf crc xs) ys"
  by (simp add: crc16_buf_def)

lemma crc16_buf_Nil [simp]: "crc16_buf crc [] = crc"
  by (simp add: crc16_buf_def)

lemma smp_frame_wire: "length body \<le> 65533 \<Longrightarrow> smp_frame seq status body = wire_frame (seq # status # body)"
proof -
  assume "length body \<le> 65533"
  have len: "(2 + of_nat (length body) :: 16 word) = of_nat (length (seq # status # body))" by simp
  have hdr: "drop 4 (SMP_SOF @ xs) = xs" for xs by (simp add: SMP_SOF_def)
  show ?thesis
    unfolding smp_frame_def wire_frame_def Let_def len hdr
    by (cases "body = []") (simp_all add: crc16_buf_append[symmetric])
qed

text \<open>What is read up to and with the first preamble.\<close>

fun after_sof :: "byte list \<Rightarrow> byte list option" where
  "after_sof [] = None"
| "after_sof (b # bs) = (if take 4 (b # bs) = SMP_SOF then Some (drop 4 (b # bs)) else after_sof bs)"

fun scan_list :: "nat \<Rightarrow> byte list \<Rightarrow> byte list option" where
  "scan_list k xs =
     (if k \<ge> 4 then Some xs
      else case xs of [] \<Rightarrow> None
           | b # bs \<Rightarrow> scan_list (if b = SMP_SOF ! k then k + 1 else if b = SMP_SOF ! 0 then 1 else 0) bs)"

lemma scan_list_simps [simp]:
  "scan_list 4 xs = Some xs" "k < 4 \<Longrightarrow> scan_list k [] = None"
  "k < 4 \<Longrightarrow> scan_list k (b # bs) = scan_list (if b = SMP_SOF ! k then k + 1 else if b = SMP_SOF ! 0 then 1 else 0) bs"
  by simp_all

declare scan_list.simps [simp del]

lemma scan_list_after:
  assumes "k < 4"
  shows "scan_list k xs = after_sof (take k SMP_SOF @ xs)"
  using assms
proof (induction xs arbitrary: k)
  case Nil
  then have "k = 0 \<or> k = 1 \<or> k = 2 \<or> k = 3" by auto
  then show ?case by (auto simp: SMP_SOF_def)
next
  case (Cons b bs)
  have IH: "scan_list j bs = after_sof (take j SMP_SOF @ bs)" if "j < 4" for j using Cons.IH that .
  have k: "k = 0 \<or> k = 1 \<or> k = 2 \<or> k = 3" using Cons.prems by auto
  have IHs: "scan_list 0 bs = after_sof bs" "scan_list (Suc 0) bs = after_sof (0x01 # bs)"
    "scan_list (Suc (Suc 0)) bs = after_sof (0x01 # 0x4A # bs)" "scan_list 3 bs = after_sof (0x01 # 0x4A # 0x50 # bs)"
    using IH[of 0] IH[of "Suc 0"] IH[of "Suc (Suc 0)"] IH[of 3] by (simp_all add: SMP_SOF_def)
  show ?case
    using k
  proof (elim disjE)
    assume "k = 0" then show ?thesis using IHs by (auto simp: SMP_SOF_def)
  next
    assume "k = 1" then show ?thesis using IHs by (auto simp: SMP_SOF_def)
  next
    assume "k = 2" then show ?thesis using IHs by (auto simp: SMP_SOF_def)
  next
    assume "k = 3" then show ?thesis using IHs by (auto simp: SMP_SOF_def)
  qed
qed

lemma after_sof_found:
  assumes "\<forall>i<length junk. take 4 (drop i (junk @ SMP_SOF)) \<noteq> SMP_SOF"
  shows "after_sof (junk @ SMP_SOF @ rest) = Some rest"
  using assms
proof (induction junk)
  case Nil
  then show ?case by (simp add: SMP_SOF_def)
next
  case (Cons b junk)
  have "take 4 ((b # junk @ SMP_SOF) @ rest) = take 4 (b # junk @ SMP_SOF)"
    by (simp only: take_append) (simp add: SMP_SOF_def)
  then have "take 4 ((b # junk) @ SMP_SOF @ rest) = take 4 (b # junk @ SMP_SOF)" by simp
  moreover have "take 4 (b # junk @ SMP_SOF) \<noteq> SMP_SOF" using Cons.prems[rule_format, of 0] by simp
  moreover have "after_sof (junk @ SMP_SOF @ rest) = Some rest"
    by (rule Cons.IH) (use Cons.prems in \<open>auto dest: spec[of _ "Suc _"]\<close>)
  ultimately have "take 4 (b # junk @ SMP_SOF @ rest) \<noteq> SMP_SOF" "after_sof (junk @ SMP_SOF @ rest) = Some rest"
    by (metis append_Cons, metis)
  then show ?case by (simp only: append_Cons after_sof.simps simp_thms if_False)
qed

lemma after_sof_sound: "after_sof xs = Some r \<Longrightarrow> \<exists>junk. xs = junk @ SMP_SOF @ r"
proof (induction xs)
  case (Cons b bs)
  show ?case
  proof (cases "take 4 (b # bs) = SMP_SOF")
    case True
    then have "r = drop 4 (b # bs)" using Cons.prems by simp
    then have "b # bs = [] @ SMP_SOF @ r" using True append_take_drop_id[of 4 "b # bs"] by simp
    then show ?thesis by blast
  next
    case False
    then have "after_sof bs = Some r" using Cons.prems by simp
    then obtain junk where "bs = junk @ SMP_SOF @ r" using Cons.IH by blast
    then have "b # bs = (b # junk) @ SMP_SOF @ r" by simp
    then show ?thesis by blast
  qed
qed simp

text \<open>A line: reading takes bytes off it in order; while bytes are there, and before tick T + 100,
  it gives some, and the clock does not reach that tick meanwhile.\<close>

definition usb_line :: "'w usb \<Rightarrow> ('w \<Rightarrow> byte list) \<Rightarrow> ('w \<Rightarrow> nat) \<Rightarrow> nat \<Rightarrow> bool" where
  "usb_line usb line clock T \<longleftrightarrow>
     usb_hz usb = 100 \<and>
     (\<forall>w. fst (usb_ticks usb w) = of_nat (clock w) \<and> line (snd (usb_ticks usb w)) = line w \<and>
        clock (snd (usb_ticks usb w)) = clock w) \<and>
     (\<forall>w n t xs w'. usb_read usb n t w = (xs, w') \<longrightarrow> length xs \<le> n \<and> line w = xs @ line w') \<and>
     (\<forall>w n t xs w'. usb_read usb n t w = (xs, w') \<longrightarrow> 0 < n \<longrightarrow> 0 < t \<longrightarrow> line w \<noteq> [] \<longrightarrow> T \<le> clock w \<longrightarrow> clock w < T + 100 \<longrightarrow>
        xs \<noteq> [] \<and> clock w \<le> clock w' \<and> clock w' < T + 100)"

lemma usb_lineD:
  assumes "usb_line usb line clock T"
  shows "usb_hz usb = 100" "usb_ticks usb w = (tk, w1) \<Longrightarrow> tk = of_nat (clock w) \<and> line w1 = line w \<and> clock w1 = clock w"
    "usb_read usb n t w = (xs, w') \<Longrightarrow> length xs \<le> n \<and> line w = xs @ line w'"
    "\<lbrakk>usb_read usb n t w = (xs, w'); 0 < n; 0 < t; line w \<noteq> []; T \<le> clock w; clock w < T + 100\<rbrakk> \<Longrightarrow>
       xs \<noteq> [] \<and> clock w \<le> clock w' \<and> clock w' < T + 100"
proof -
  have u: "\<forall>w. fst (usb_ticks usb w) = of_nat (clock w) \<and> line (snd (usb_ticks usb w)) = line w \<and>
        clock (snd (usb_ticks usb w)) = clock w"
    using assms by (simp add: usb_line_def)
  show "usb_hz usb = 100" using assms by (simp add: usb_line_def)
  show "usb_ticks usb w = (tk, w1) \<Longrightarrow> tk = of_nat (clock w) \<and> line w1 = line w \<and> clock w1 = clock w"
    using u[rule_format, of w] by simp
  show "usb_read usb n t w = (xs, w') \<Longrightarrow> length xs \<le> n \<and> line w = xs @ line w'"
    using assms by (simp add: usb_line_def)
  show "\<lbrakk>usb_read usb n t w = (xs, w'); 0 < n; 0 < t; line w \<noteq> []; T \<le> clock w; clock w < T + 100\<rbrakk> \<Longrightarrow>
       xs \<noteq> [] \<and> clock w \<le> clock w' \<and> clock w' < T + 100"
    using assms unfolding usb_line_def by blast
qed

lemma read_exact_loop_all:
  assumes line: "usb_line usb line clock T" and "s \<ge> T" "100 \<le> unat ticks"
  shows "\<lbrakk>line w = xs @ rest; s \<le> clock w; clock w < T + 100\<rbrakk> \<Longrightarrow>
     \<exists>w'. read_exact_loop usb (length got + length xs) ticks (of_nat s) got w = Some (got @ xs, w') \<and>
       line w' = rest \<and> clock w \<le> clock w' \<and> clock w' < T + 100"
proof (induction "length xs" arbitrary: xs got w rule: less_induct)
  case less
  show ?case
  proof (cases "xs = []")
    case True
    then show ?thesis using less.prems by (subst read_exact_loop.simps) simp
  next
    case False
    obtain tk w1 where tk: "usb_ticks usb w = (tk, w1)" by fastforce
    note t = usb_lineD(2)[OF line tk]
    have "of_nat (clock w) - of_nat s = (of_nat (clock w - s) :: 32 word)" using less.prems(2) by (simp add: of_nat_diff)
    moreover have "clock w - s < 100" using less.prems(3) assms(2) by linarith
    ultimately have el: "unat (tk - of_nat s) < 100" using t by (simp add: unat_of_nat)
    then have early: "\<not> tk - of_nat s \<ge> ticks" "0 < ticks - (tk - of_nat s)"
      using assms(3) by (auto simp: word_le_nat_alt word_less_nat_alt unat_sub)
    let ?n = "length got + length xs - length got"
    obtain ys w2 where rd: "usb_read usb ?n (ticks - (tk - of_nat s)) w1 = (ys, w2)" by fastforce
    have n: "?n = length xs" by simp
    have y1: "length ys \<le> length xs" "xs @ rest = ys @ line w2"
      using usb_lineD(3)[OF line rd] t less.prems(1) by simp_all
    have y2: "ys \<noteq> []" "clock w \<le> clock w2" "clock w2 < T + 100"
      using usb_lineD(4)[OF line rd] t less.prems assms(2) False early(2) by simp_all
    define zs where "zs = drop (length ys) xs"
    have zs: "xs = ys @ zs" "line w2 = zs @ rest"
    proof -
      have "take (length ys) (xs @ rest) = ys" using y1(2) by simp
      then have "take (length ys) xs = ys" using y1(1) by simp
      then show x: "xs = ys @ zs" unfolding zs_def by (metis append_take_drop_id)
      show "line w2 = zs @ rest" using y1(2) unfolding x by simp
    qed
    have "length zs < length xs" using y2(1) zs(1) by simp
    from less.hyps[OF this zs(2), of "got @ ys"] y2 less.prems(2)
    obtain w' where w': "read_exact_loop usb (length (got @ ys) + length zs) ticks (of_nat s) (got @ ys) w2 = Some ((got @ ys) @ zs, w')"
      "line w' = rest" "clock w2 \<le> clock w'" "clock w' < T + 100" by auto
    have len: "length got + length xs = length (got @ ys) + length zs" using zs(1) by simp
    have "read_exact_loop usb (length got + length xs) ticks (of_nat s) got w =
        read_exact_loop usb (length got + length xs) ticks (of_nat s) (got @ ys) w2"
      by (subst read_exact_loop.simps) (use False tk early(1) rd in \<open>simp add: Let_def\<close>)
    then show ?thesis using w' y2 unfolding len by (intro exI[of _ w']) (simp add: zs(1))
  qed
qed

lemma read_exact_all:
  assumes line: "usb_line usb line clock T" and "100 \<le> unat ticks"
    and "line w = xs @ rest" "length xs = n" "T \<le> clock w" "clock w < T + 100"
  shows "\<exists>w'. smp_read_exact usb n ticks w = Some (xs, w') \<and> line w' = rest \<and> T \<le> clock w' \<and> clock w' < T + 100"
proof -
  obtain tk w1 where tk: "usb_ticks usb w = (tk, w1)" by fastforce
  note t = usb_lineD(2)[OF line tk]
  have "\<exists>w'. read_exact_loop usb (length ([] :: byte list) + length xs) ticks (of_nat (clock w)) [] w1 = Some ([] @ xs, w') \<and>
       line w' = rest \<and> clock w1 \<le> clock w' \<and> clock w' < T + 100"
    by (rule read_exact_loop_all[OF line assms(5,2)]) (use t assms in simp_all)
  then show ?thesis using tk t assms(4,5) by (auto simp: smp_read_exact_def)
qed

lemma scan_sof_list:
  assumes line: "usb_line usb line clock T"
  shows "\<lbrakk>k \<le> 4; scan_list k (line w) = Some r; T \<le> clock w; clock w < T + 100\<rbrakk> \<Longrightarrow>
     \<exists>w'. scan_sof usb k w = Some w' \<and> line w' = r \<and> T \<le> clock w' \<and> clock w' < T + 100"
proof (induction "length (line w)" arbitrary: k w rule: less_induct)
  case less
  show ?case
  proof (cases "k < 4")
    case False
    then have "k = 4" using less.prems(1) by simp
    then show ?thesis using less.prems by (subst scan_sof.simps) simp
  next
    case True
    then have ne: "line w \<noteq> []" using less.prems(2) by auto
    obtain xs w1 where rd: "usb_read usb 1 portMAX_DELAY w = (xs, w1)" by fastforce
    have x: "length xs \<le> 1" "line w = xs @ line w1" "xs \<noteq> []" "clock w \<le> clock w1" "clock w1 < T + 100"
      using usb_lineD(3)[OF line rd] usb_lineD(4)[OF line rd] ne less.prems(3,4) by (simp_all add: portMAX_DELAY_def)
    then obtain b where b: "xs = [b]" by (cases xs) auto
    let ?k = "if b = SMP_SOF ! k then k + 1 else if b = SMP_SOF ! 0 then 1 else 0"
    have sc: "scan_list ?k (line w1) = Some r" using less.prems(2) True x(2) b by simp
    have step: "scan_sof usb k w = scan_sof usb ?k w1"
      by (subst scan_sof.simps) (simp add: True rd b del: One_nat_def)
    show ?thesis unfolding step
      by (rule less.hyps) (use x b True sc less.prems in auto)
  qed
qed

lemma ticks_100: "usb_hz usb = 100 \<Longrightarrow> unat (pdMS_TO_TICKS usb 1000) = 100" "usb_hz usb = 100 \<Longrightarrow> unat (pdMS_TO_TICKS usb 10000) = 1000"
  by (simp_all add: pdMS_TO_TICKS_def)

lemma rx_turn_frame:
  assumes line: "usb_line usb line clock T" and w: "line w = junk @ wire_frame payload @ rest"
    and junk: "\<forall>i<length junk. take 4 (drop i (junk @ SMP_SOF)) \<noteq> SMP_SOF"
    and len: "0 < length payload" "length payload \<le> SMP_MAX_PAYLOAD_BYTES" and clk: "T \<le> clock w" "clock w < T + 100"
  shows "\<exists>w'. rx_turn usb w = Some (Some payload, w') \<and> line w' = rest"
proof -
  let ?n = "of_nat (length payload) :: 16 word"
  let ?crc = "crc16_buf 0xFFFF (wr_u16le ?n @ payload)"
  note hz = ticks_100[OF usb_lineD(1)[OF line]]
  have n: "unat ?n = length payload" using len(2) by (simp add: unat_of_nat SMP_MAX_PAYLOAD_BYTES_def)
  have "scan_list 0 (line w) = Some (wr_u16le ?n @ payload @ wr_u16le ?crc @ rest)"
    using after_sof_found[OF junk] by (simp add: scan_list_after w wire_frame_def)
  from scan_sof_list[OF line _ this clk] obtain w1 where w1: "scan_sof usb 0 w = Some w1"
    "line w1 = wr_u16le ?n @ payload @ wr_u16le ?crc @ rest" "T \<le> clock w1" "clock w1 < T + 100" by auto
  obtain w2 where w2: "smp_read_exact usb 2 (pdMS_TO_TICKS usb 1000) w1 = Some (wr_u16le ?n, w2)"
    "line w2 = payload @ wr_u16le ?crc @ rest" "T \<le> clock w2" "clock w2 < T + 100"
    using read_exact_all[OF line _ w1(2) _ w1(3,4), of "pdMS_TO_TICKS usb 1000" 2] hz by (auto simp: wr_u16le_def)
  obtain w3 where w3: "smp_read_exact usb (length payload) (pdMS_TO_TICKS usb 10000) w2 = Some (payload, w3)"
    "line w3 = wr_u16le ?crc @ rest" "T \<le> clock w3" "clock w3 < T + 100"
    using read_exact_all[OF line _ w2(2) _ w2(3,4), of "pdMS_TO_TICKS usb 10000" "length payload"] hz by auto
  obtain w4 where w4: "smp_read_exact usb 2 (pdMS_TO_TICKS usb 1000) w3 = Some (wr_u16le ?crc, w4)" "line w4 = rest"
    using read_exact_all[OF line _ w3(2) _ w3(3,4), of "pdMS_TO_TICKS usb 1000" 2] hz by (auto simp: wr_u16le_def)
  have two: "length (wr_u16le v) = 2" for v by (simp add: wr_u16le_def)
  have "rx_turn usb w = Some (Some payload, w4)"
    using len by (simp add: rx_turn_def w1(1) w2(1) w3(1) w4(1) two u16le.dec_enc n Let_def crc16_buf_append[symmetric])
  then show ?thesis using w4(2) by blast
qed

text \<open>Whatever the clock does, what is read is what was on the line.\<close>

definition reads_line :: "'w usb \<Rightarrow> ('w \<Rightarrow> byte list) \<Rightarrow> bool" where
  "reads_line usb line \<longleftrightarrow>
     (\<forall>w. line (snd (usb_ticks usb w)) = line w) \<and>
     (\<forall>w n t xs w'. usb_read usb n t w = (xs, w') \<longrightarrow> length xs \<le> n \<and> line w = xs @ line w')"

lemma usb_line_reads: "usb_line usb line clock T \<Longrightarrow> reads_line usb line"
  by (simp add: usb_line_def reads_line_def)

lemma read_exact_loop_line:
  assumes "read_exact_loop usb len ticks start got w = Some r" "reads_line usb line"
  shows "\<exists>xs. fst r = got @ xs \<and> line w = xs @ line (snd r)"
  using assms
proof (induction rule: read_exact_loop.raw_induct[rotated 1, consumes 1])
  case (1 f usb len ticks start got w r)
  obtain tk w1 where tk: "usb_ticks usb w = (tk, w1)" by fastforce
  have l1: "line w1 = line w" using 1(3) tk unfolding reads_line_def by (metis snd_conv)
  obtain ys w2 where rd: "usb_read usb (len - length got) (ticks - (tk - start)) w1 = (ys, w2)" by fastforce
  have l2: "line w1 = ys @ line w2" using 1(3) rd unfolding reads_line_def by blast
  show ?case
  proof (cases "length got < len \<and> \<not> tk - start \<ge> ticks")
    case True
    then have "f usb len ticks start (got @ ys) w2 = Some r" using 1(2) tk rd by (simp add: Let_def)
    from 1(1)[OF this 1(3)] show ?thesis using l1 l2 by auto
  next
    case False
    then have "fst r = got" "line (snd r) = line w"
      using 1(2) tk l1 by (auto simp: Let_def split: if_splits)
    then show ?thesis by simp
  qed
qed

lemma read_exact_line:
  assumes "smp_read_exact usb n ticks w = Some (xs, w')" "reads_line usb line"
  shows "line w = xs @ line w'"
proof -
  obtain tk w1 where tk: "usb_ticks usb w = (tk, w1)" by fastforce
  have l1: "line w1 = line w" using assms(2) tk unfolding reads_line_def by (metis snd_conv)
  have "read_exact_loop usb n ticks tk [] w1 = Some (xs, w')" using assms(1) tk by (simp add: smp_read_exact_def)
  from read_exact_loop_line[OF this assms(2)] l1 show ?thesis by simp
qed

lemma scan_sof_line:
  assumes "scan_sof usb k w = Some r" "reads_line usb line" "k \<le> 4"
  shows "scan_list k (line w) = Some (line r)"
  using assms
proof (induction rule: scan_sof.raw_induct[rotated 1, consumes 1])
  case (1 f usb k w r)
  show ?case
  proof (cases "k < 4")
    case False
    then have "k = 4" "r = w" using 1(2,4) by simp_all
    then show ?thesis by simp
  next
    case True
    obtain xs w1 where rd: "usb_read usb 1 portMAX_DELAY w = (xs, w1)" by fastforce
    have x: "length xs \<le> 1" "line w = xs @ line w1" using 1(3) rd unfolding reads_line_def by blast+
    show ?thesis
    proof (cases "length xs = 1")
      case False
      then have "xs = []" using x(1) by (cases xs) auto
      moreover have "f usb k w1 = Some r" using 1(2) True rd False by (simp del: One_nat_def)
      ultimately show ?thesis using 1(1)[OF _ 1(3,4)] x(2) by simp
    next
      case one: True
      then obtain b where b: "xs = [b]" by (cases xs) auto
      let ?k = "if b = SMP_SOF ! k then k + 1 else if b = SMP_SOF ! 0 then 1 else 0"
      have "f usb ?k w1 = Some r" using 1(2) True rd b by (simp del: One_nat_def split: if_splits)
      moreover have "?k \<le> 4" using True by simp
      ultimately have "scan_list ?k (line w1) = Some (line r)" using 1(1)[OF _ 1(3)] by blast
      then show ?thesis using True x(2) b by simp
    qed
  qed
qed

lemma wr_rd_u16le: "length bs = 2 \<Longrightarrow> wr_u16le (rd_u16le bs) = bs"
proof -
  assume "length bs = 2"
  then obtain a b where bs: "bs = [a, b]" by (auto simp: numeral_2_eq_2 length_Suc_conv)
  have "ucast (ucast a OR push_bit 8 (ucast b) :: 16 word) = a"
    by (rule bit_word_eqI) (simp add: bit_simps)
  moreover have "ucast (drop_bit 8 (ucast a OR push_bit 8 (ucast b) :: 16 word)) = b"
    by (rule bit_word_eqI) (auto simp: bit_simps dest: bit_imp_le_length)
  ultimately show ?thesis by (simp add: bs wr_u16le_def rd_u16le_def)
qed

lemma rx_turn_sound:
  assumes "reads_line usb line" "rx_turn usb w = Some (Some p, w')"
  shows "\<exists>junk. line w = junk @ wire_frame p @ line w'" "0 < length p \<and> length p \<le> SMP_MAX_PAYLOAD_BYTES"
proof -
  obtain w1 where w1: "scan_sof usb 0 w = Some w1"
    using assms(2) by (auto simp: rx_turn_def split: option.splits)
  obtain lb w2 where w2: "smp_read_exact usb 2 (pdMS_TO_TICKS usb 1000) w1 = Some (lb, w2)"
    using assms(2) w1 by (auto simp: rx_turn_def split: option.splits)
  have lb: "length lb = 2" using assms(2) w1 w2 by (auto simp: rx_turn_def split: if_splits)
  let ?n = "unat (rd_u16le lb)"
  have n: "0 < ?n" "?n \<le> SMP_MAX_PAYLOAD_BYTES" using assms(2) w1 w2 by (auto simp: rx_turn_def Let_def split: if_splits)
  obtain q w3 where w3: "smp_read_exact usb ?n (pdMS_TO_TICKS usb 10000) w2 = Some (q, w3)"
    using assms(2) w1 w2 by (auto simp: rx_turn_def Let_def split: if_splits option.splits)
  have q: "length q = ?n" using assms(2) w1 w2 w3 by (auto simp: rx_turn_def Let_def split: if_splits)
  obtain cb w4 where w4: "smp_read_exact usb 2 (pdMS_TO_TICKS usb 1000) w3 = Some (cb, w4)"
    using assms(2) w1 w2 w3 by (auto simp: rx_turn_def Let_def split: if_splits option.splits)
  have fin: "length cb = 2" "crc16_buf (crc16_buf 0xFFFF lb) q = rd_u16le cb" "p = q" "w' = w4"
    using assms(2) w1 w2 w3 w4 by (auto simp: rx_turn_def Let_def split: if_splits)
  obtain junk where "line w = junk @ SMP_SOF @ line w1"
    using after_sof_sound[of "line w" "line w1"] scan_sof_line[OF w1 assms(1)] by (auto simp: scan_list_after)
  then have l: "line w = junk @ SMP_SOF @ lb @ q @ cb @ line w4"
    using read_exact_line[OF w2 assms(1)] read_exact_line[OF w3 assms(1)] read_exact_line[OF w4 assms(1)] by simp
  have "wr_u16le (of_nat (length q)) = lb" "wr_u16le (crc16_buf 0xFFFF (lb @ q)) = cb"
    using wr_rd_u16le[OF lb] wr_rd_u16le[OF fin(1)] q fin(2) by (simp_all add: crc16_buf_append)
  then have "wire_frame p = SMP_SOF @ lb @ q @ cb" using fin(3) by (simp add: wire_frame_def)
  then show "\<exists>junk. line w = junk @ wire_frame p @ line w'" using l fin(4) by auto
  show "0 < length p \<and> length p \<le> SMP_MAX_PAYLOAD_BYTES" using n q fin(3) by simp
qed

section \<open>Consent\<close>

text \<open>Somewhere in the run the user pressed OK on Allow in the dialog of a session.\<close>

definition consented :: "'w smp_env \<Rightarrow> smp \<times> 'w \<Rightarrow> smp_event list \<Rightarrow> bool" where
  "consented env c evs \<longleftrightarrow>
     (\<exists>pre post s w. evs = pre @ Ev_Action UI_ACTION_OK # post \<and> smp_run env c pre (s, w) \<and>
        sm_consent_state s = CONSENT_PENDING \<and> sm_consent_cursor s = 1)"

lemma consented_snoc: "consented env c evs \<Longrightarrow> consented env c (evs @ [e])"
  unfolding consented_def by (metis append.assoc append_Cons)

definition no_session :: "smp \<Rightarrow> bool" where
  "no_session s \<longleftrightarrow> \<not> sm_session_active s \<and> \<not> xf_active (sm_xfer s) \<and> \<not> sm_consent_allowed s \<and>
     sm_consent_state s \<noteq> CONSENT_BACKUP_PENDING \<and> (sm_rx s = Rx_Reading \<or> (\<exists>q. sm_rx s = Rx_Wait_Session q))"

lemma no_session_dispatch:
  "\<lbrakk>no_session s; sm_rx s = Rx_Reading; dispatch_command env p s w = Some (tx, s', w')\<rbrakk> \<Longrightarrow> no_session s' \<and> w' = w"
  by (auto simp: no_session_def dispatch_command_def handle_session_start_def Let_def split: if_splits)

lemma no_session_action:
  "\<lbrakk>no_session s; serial_mgr_handle_action env a s w = (tx, s', w');
     \<not> (a = UI_ACTION_OK \<and> sm_consent_state s = CONSENT_PENDING \<and> sm_consent_cursor s = 1)\<rbrakk> \<Longrightarrow> no_session s' \<and> w' = w"
  by (auto simp: no_session_def serial_mgr_handle_action_def split: if_splits ui_action.splits)

inductive_cases step_pairE: "smp_step env (s, w) e tx (s', w')"

lemma no_session_step:
  assumes "no_session s" "smp_step env (s, w) e tx (s', w')"
    "\<not> (e = Ev_Action UI_ACTION_OK \<and> sm_consent_state s = CONSENT_PENDING \<and> sm_consent_cursor s = 1)"
  shows "no_session s' \<and> w' = w"
  using assms(2)
proof (rule step_pairE, goal_cases)
  case (1 p)
  show ?case by (rule no_session_dispatch[OF assms(1) 1(2,3)])
next
  case (2 a)
  show ?case by (rule no_session_action[OF assms(1) 2(3)]) (use assms(3) 2(1) in blast)
next
  case 3
  then show ?case using assms(1) by (auto simp: no_session_def session_timeout_cb_def drop_transfer_def Let_def)
next
  case (4 seq r)
  then show ?case using assms(1) by (auto simp: no_session_def session_answered_def)
next
  case (5 seq buf r)
  then show ?case using assms(1) by (auto simp: no_session_def)
qed

lemma run_unconsented:
  assumes "smp_run env c0 evs c" "no_session (fst c0)" "\<not> consented env c0 evs"
  shows "no_session (fst c) \<and> snd c = snd c0"
  using assms
proof (induction rule: smp_run.induct)
  case (run_nil c)
  then show ?case by simp
next
  case (run_step c evs c1 e tx c2)
  have nc: "\<not> consented env c evs" using run_step.prems(2) consented_snoc by blast
  have IH: "no_session (fst c1)" "snd c1 = snd c" using run_step.IH[OF run_step.prems(1) nc] by auto
  have "\<not> (e = Ev_Action UI_ACTION_OK \<and> sm_consent_state (fst c1) = CONSENT_PENDING \<and> sm_consent_cursor (fst c1) = 1)"
  proof
    assume a: "e = Ev_Action UI_ACTION_OK \<and> sm_consent_state (fst c1) = CONSENT_PENDING \<and> sm_consent_cursor (fst c1) = 1"
    have "consented env c (evs @ [e])"
      unfolding consented_def
      by (rule exI[of _ evs], rule exI[of _ "[]"], rule exI[of _ "fst c1"], rule exI[of _ "snd c1"])
        (use a run_step.hyps(1) in simp)
    then show False using run_step.prems(2) by blast
  qed
  then show ?case
    using no_session_step[OF IH(1), of env "snd c1" e tx "fst c2" "snd c2"] IH(2) run_step.hyps(2) by (metis prod.collapse)
qed

text \<open>C21: Nothing a host sends, whatever else happens, starts a session, opens a transfer or changes
  anything outside the protocol (files, clock, settings) until the user has pressed OK with
  the cursor on Allow in the dialog of a session.\<close>

theorem serial_needs_consent:
  assumes "smp_run env (serial_mgr_set_rtc rtc smp_boot, w0) evs (s, w)"
    and "\<not> consented env (serial_mgr_set_rtc rtc smp_boot, w0) evs"
  shows "w = w0 \<and> \<not> sm_session_active s \<and> \<not> xf_active (sm_xfer s)"
  using run_unconsented[OF assms(1) _ assms(2)]
  by (simp add: no_session_def serial_mgr_set_rtc_def smp_boot_def)

section \<open>Uploads\<close>

lemma crc32_step_bits_eq: "crc32_step_bits n crc = crc_bits n crc"
proof (induction n arbitrary: crc)
  case (Suc n)
  have "(if crc AND 1 \<noteq> 0 then drop_bit 1 crc XOR 0xEDB88320 else drop_bit 1 crc) =
      drop_bit 1 crc XOR (0xEDB88320 AND (- (crc AND 1)))"
    by (simp add: and_one_eq mod2_eq_if)
  then show ?case using Suc.IH by simp
qed simp

lemma crc32_update_buf: "NOT (crc32_update (NOT 0) xs) = crc32_buf xs"
proof -
  have ones: "(0xFFFFFFFF :: 32 word) = -1" by simp
  have "NOT (x :: 32 word) = x XOR 0xFFFFFFFF" for x
    unfolding ones by (rule bit_word_eqI) (auto simp: bit_simps)
  then show ?thesis by (simp add: crc32_update_def crc32_buf_def crc32_step_bits_eq)
qed

lemma crc32_update_append: "crc32_update crc (xs @ ys) = crc32_update (crc32_update crc xs) ys"
  by (simp add: crc32_update_def)

lemma frame_status: "smp_frame seq st body ! 7 = st"
  by (simp add: smp_frame_def SMP_SOF_def wr_u16le_def Let_def nth_append)

text \<open>The commands that are served, one after the other.\<close>

fun smp_serve :: "'w smp_env \<Rightarrow> byte list list \<Rightarrow> smp \<Rightarrow> 'w \<Rightarrow> (byte list list \<times> smp \<times> 'w) option" where
  "smp_serve env [] s w = Some ([], s, w)"
| "smp_serve env (p # ps) s w =
     (case dispatch_command env p s w of
        None \<Rightarrow> None
      | Some (tx, s, w) \<Rightarrow>
          (case smp_serve env ps s w of None \<Rightarrow> None | Some (txs, s, w) \<Rightarrow> Some (tx # txs, s, w)))"

definition command :: "byte \<Rightarrow> byte list \<Rightarrow> bool" where
  "command cmd p \<longleftrightarrow> 3 \<le> length p \<and> p ! 1 = cmd"

lemmas smp_cmds = SMP_CMD_SESSION_START_def SMP_CMD_SESSION_END_def SMP_CMD_GET_INFO_def SMP_CMD_GET_LRV_DATA_def
  SMP_CMD_SET_TIME_def SMP_CMD_KEEPALIVE_def SMP_CMD_FS_LIST_DIR_def SMP_CMD_FS_MKDIR_def SMP_CMD_FS_REMOVE_def
  SMP_CMD_FS_RENAME_def SMP_CMD_FS_UPLOAD_BEGIN_def SMP_CMD_FS_UPLOAD_CHUNK_def SMP_CMD_FS_UPLOAD_END_def
  SMP_CMD_FS_DL_BEGIN_def SMP_CMD_FS_DL_CHUNK_def SMP_CMD_FS_DL_END_def SMP_CMD_APPLY_BACKUP_def

lemma dispatch_upload:
  assumes "sm_session_active s"
  shows "command SMP_CMD_FS_UPLOAD_BEGIN p \<Longrightarrow> dispatch_command env p s w =
      (case handle_fs_upload_begin env (drop 3 p) (reset_session_timer s) w of
         (r, s, w) \<Rightarrow> Some (smp_frame (p ! 0) (fst r) (snd r), s, w))"
    "command SMP_CMD_FS_UPLOAD_CHUNK p \<Longrightarrow> dispatch_command env p s w =
      (case handle_fs_upload_chunk env (drop 3 p) (reset_session_timer s) w of
         (r, s, w) \<Rightarrow> Some (smp_frame (p ! 0) (fst r) (snd r), s, w))"
    "command SMP_CMD_FS_UPLOAD_END p \<Longrightarrow> dispatch_command env p s w =
      (case handle_fs_upload_end env (drop 3 p) (reset_session_timer s) w of
         (r, s, w) \<Rightarrow> Some (smp_frame (p ! 0) (fst r) (snd r), s, w))"
  using assms by (simp_all add: command_def dispatch_command_def smp_cmds Let_def split: prod.splits)

text \<open>What writing through fp appends to the file; cont gives its content.\<close>

definition writes_to :: "'w smp_env \<Rightarrow> nat \<Rightarrow> ('w \<Rightarrow> byte list) \<Rightarrow> bool" where
  "writes_to env fp cont \<longleftrightarrow>
     (\<forall>data w. fst (en_fwrite env fp data w) \<le> length data \<and>
        cont (snd (en_fwrite env fp data w)) = cont w @ take (fst (en_fwrite env fp data w)) data) \<and>
     (\<forall>w. cont (en_fclose env fp w) = cont w)"

text \<open>The state of an upload that has taken the chunks ds, numbered from 0, all of them sent in cs.\<close>

definition uploading :: "nat \<Rightarrow> ('w \<Rightarrow> byte list) \<Rightarrow> byte list list \<Rightarrow> byte list list \<Rightarrow> smp \<Rightarrow> 'w \<Rightarrow> bool" where
  "uploading fp cont cs ds s w \<longleftrightarrow>
     xf_active (sm_xfer s) \<and> xf_is_upload (sm_xfer s) \<and> xf_fp (sm_xfer s) = Some fp \<and> xf_id (sm_xfer s) = 0 \<and>
     xf_crc32 (sm_xfer s) = crc32_update (NOT 0) (cont w) \<and> cont w = concat ds \<and>
     xf_next_chunk (sm_xfer s) = of_nat (length ds) \<and>
     (\<forall>i<length ds. \<exists>c\<in>set cs. rd_u16le (drop 4 c) = of_nat i \<and> drop 6 c = ds ! i)"

lemma uploading_mono: "uploading fp cont cs ds s w \<Longrightarrow> set cs \<subseteq> set cs' \<Longrightarrow> uploading fp cont cs' ds s w"
  unfolding uploading_def by blast

lemma upload_chunk_step:
  assumes wr: "writes_to env fp cont" and up: "uploading fp cont cs ds s w" and c: "c \<in> set cs" and len: "3 \<le> length c"
    and h: "handle_fs_upload_chunk env (drop 3 c) s w = (r, s', w')"
  shows "\<not> xf_active (sm_xfer s') \<or> (\<exists>ds'. uploading fp cont cs ds' s' w')"
proof -
  let ?x = "sm_xfer s" and ?d = "drop 3 (drop 3 c)"
  obtain n w1 where fw: "en_fwrite env fp ?d w = (n, w1)" by fastforce
  have x: "xf_active ?x" "xf_is_upload ?x" "xf_fp ?x = Some fp" "xf_id ?x = 0" "xf_crc32 ?x = crc32_update (NOT 0) (cont w)"
    "cont w = concat ds" "xf_next_chunk ?x = of_nat (length ds)"
    "\<forall>i<length ds. \<exists>c\<in>set cs. rd_u16le (drop 4 c) = of_nat i \<and> drop 6 c = ds ! i"
    using up unfolding uploading_def by - (elim conjE; assumption)+
  consider "s' = s" "w' = w" | "\<not> xf_active (sm_xfer s')"
    | "rd_u16le (drop 1 (drop 3 c)) = xf_next_chunk ?x" "n = length ?d" "w' = w1"
      "s' = s\<lparr> sm_xfer := ?x\<lparr> xf_crc32 := crc32_update (xf_crc32 ?x) ?d, xf_next_chunk := xf_next_chunk ?x + 1 \<rparr> \<rparr>"
  proof -
    let ?idx = "rd_u16le (drop 1 (drop 3 c))" and ?b = "drop 3 c"
    have nx: "\<not> (\<not> xf_active ?x \<or> \<not> xf_is_upload ?x)" using x(1,2) by simp
    have "handle_fs_upload_chunk env ?b s w =
        (if length ?b < 4 then (err SMP_ST_ERR_INVALID, s, w)
         else if ?b ! 0 \<noteq> xf_id ?x then (err SMP_ST_ERR_TRANSFER, s, w)
         else if ?idx \<noteq> xf_next_chunk ?x then
           (if xf_next_chunk ?x > 0 \<and> ?idx = xf_next_chunk ?x - 1 then ((SMP_ST_OK, [?b ! 1, ?b ! 2]), s, w)
            else (err SMP_ST_ERR_TRANSFER, fst (end_transfer env s w), snd (end_transfer env s w)))
         else if n \<noteq> length ?d then (err SMP_ST_ERR_IO, fst (end_transfer env s w1), snd (end_transfer env s w1))
         else ((SMP_ST_OK, [?b ! 1, ?b ! 2]),
           s\<lparr> sm_xfer := ?x\<lparr> xf_crc32 := crc32_update (xf_crc32 ?x) ?d, xf_next_chunk := xf_next_chunk ?x + 1 \<rparr> \<rparr>, w1))"
      unfolding handle_fs_upload_chunk_def Let_def if_not_P[OF nx] x(3) option.sel fw prod.case by (simp only: split_def)
    moreover have "\<not> xf_active (sm_xfer (fst (end_transfer env s w0)))" for w0 by (simp add: end_transfer_def)
    ultimately show thesis using h that by (simp only: prod.inject split: if_splits)
  qed
  then show ?thesis
  proof cases
    case 1
    then show ?thesis using up by blast
  next
    case 2
    then show ?thesis by blast
  next
    case 3
    have "cont (snd (en_fwrite env fp ?d w)) = cont w @ take (fst (en_fwrite env fp ?d w)) ?d"
      using wr unfolding writes_to_def by blast
    then have cont: "cont w1 = cont w @ ?d" unfolding fw using 3(2) by simp
    have idx: "rd_u16le (drop 4 c) = of_nat (length ds)" using 3(1) x(7) by (simp add: add.commute)
    have d6: "?d = drop 6 c" by simp
    have "\<exists>c\<in>set cs. rd_u16le (drop 4 c) = of_nat i \<and> drop 6 c = (ds @ [drop 6 c0]) ! i"
      if "i < length (ds @ [drop 6 c0])" "c0 = c" for i c0
      using that x(8) c idx by (cases "i < length ds") (auto simp: nth_append not_less le_less_Suc_eq)
    then have all: "\<forall>i<length (ds @ [drop 6 c]). \<exists>c'\<in>set cs. rd_u16le (drop 4 c') = of_nat i \<and> drop 6 c' = (ds @ [drop 6 c]) ! i"
      by blast
    have "uploading fp cont cs (ds @ [drop 6 c]) s' w'"
      unfolding uploading_def using x(1-7) cont all
      by (simp add: 3(3,4) crc32_update_append d6)
    then show ?thesis by blast
  qed
qed

lemma upload_inactive_chunk:
  "\<not> xf_active (sm_xfer s) \<Longrightarrow> handle_fs_upload_chunk env b s w = (err SMP_ST_ERR_TRANSFER, s, w)"
  by (simp add: handle_fs_upload_chunk_def)

lemma upload_serve:
  assumes wr: "writes_to env fp cont" and cs: "\<forall>c\<in>set ps. command SMP_CMD_FS_UPLOAD_CHUNK c" "set ps \<subseteq> set cs"
    and st: "sm_session_active s" "\<not> xf_active (sm_xfer s) \<or> (\<exists>ds. uploading fp cont cs ds s w)"
    and serve: "smp_serve env ps s w = Some (txs, s', w')"
  shows "sm_session_active s' \<and> (\<not> xf_active (sm_xfer s') \<or> (\<exists>ds. uploading fp cont cs ds s' w'))"
  using cs st serve
proof (induction ps arbitrary: s w txs)
  case Nil
  then show ?case by simp
next
  case (Cons p ps)
  let ?s = "reset_session_timer s"
  have p: "command SMP_CMD_FS_UPLOAD_CHUNK p" "p \<in> set cs" "3 \<le> length p" using Cons.prems(1,2) by (auto simp: command_def)
  obtain r s1 w1 where h: "handle_fs_upload_chunk env (drop 3 p) ?s w = (r, s1, w1)" by (metis prod_cases3)
  obtain txs2 where rest: "smp_serve env ps s1 w1 = Some (txs2, s', w')"
    using Cons.prems(5) by (auto simp: dispatch_upload(2)[OF Cons.prems(3) p(1)] h split: option.splits)
  have act: "sm_session_active s1"
    using h Cons.prems(3) by (auto simp: handle_fs_upload_chunk_def end_transfer_def reset_session_timer_def Let_def split: if_splits prod.splits)
  have "\<not> xf_active (sm_xfer s1) \<or> (\<exists>ds. uploading fp cont cs ds s1 w1)"
    using Cons.prems(4)
  proof
    assume "\<not> xf_active (sm_xfer s)"
    then have "\<not> xf_active (sm_xfer ?s)" by (simp add: reset_session_timer_def)
    then show ?thesis using upload_inactive_chunk[of ?s env "drop 3 p" w] unfolding h by auto
  next
    assume "\<exists>ds. uploading fp cont cs ds s w"
    then obtain ds where "uploading fp cont cs ds ?s w" by (auto simp: uploading_def reset_session_timer_def)
    from upload_chunk_step[OF wr this p(2,3) h] show ?thesis .
  qed
  then show ?case using Cons.IH[OF _ _ act _ rest] Cons.prems(1,2) by simp
qed

lemma upload_begin_state:
  assumes "sm_session_active s" "command SMP_CMD_FS_UPLOAD_BEGIN p0" "dispatch_command env p0 s w = Some (tx0, s1, w1)"
    "tx0 ! 7 = SMP_ST_OK" "xf_fp (sm_xfer s1) = Some fp" "cont w1 = []"
  shows "sm_session_active s1" "uploading fp cont cs [] s1 w1"
proof -
  obtain r where h: "handle_fs_upload_begin env (drop 3 p0) (reset_session_timer s) w = (r, s1, w1)"
      "tx0 = smp_frame (p0 ! 0) (fst r) (snd r)"
    using assms(3) by (auto simp: dispatch_upload(1)[OF assms(1,2)] split: prod.splits)
  then have "fst r = SMP_ST_OK" using assms(4) frame_status by metis
  then have "sm_session_active s1 \<and> xf_active (sm_xfer s1) \<and> xf_is_upload (sm_xfer s1) \<and> xf_id (sm_xfer s1) = 0 \<and>
      xf_crc32 (sm_xfer s1) = NOT 0 \<and> xf_next_chunk (sm_xfer s1) = 0"
    using h(1) assms(1)
    by (auto simp: handle_fs_upload_begin_def err_def SMP_ST_OK_def SMP_ST_ERR_TRANSFER_def SMP_ST_ERR_INVALID_def SMP_ST_ERR_IO_def
        reset_session_timer_def Let_def split: if_splits option.splits prod.splits)
  then show "sm_session_active s1" "uploading fp cont cs [] s1 w1"
    using assms(5,6) by (simp_all add: uploading_def crc32_update_def)
qed

lemma upload_end_ok:
  assumes "sm_session_active s" "command SMP_CMD_FS_UPLOAD_END p" "dispatch_command env p s w = Some (tx, s', w')"
    "tx ! 7 = SMP_ST_OK" "xf_active (sm_xfer s) \<Longrightarrow> uploading fp cont cs ds s w" "writes_to env fp cont"
  shows "uploading fp cont cs ds s w" "\<not> xf_active (sm_xfer s')" "cont w' = cont w" "rd_u32le (drop 4 p) = crc32_buf (cont w)"
proof -
  let ?s = "reset_session_timer s"
  obtain r where h: "handle_fs_upload_end env (drop 3 p) ?s w = (r, s', w')" "tx = smp_frame (p ! 0) (fst r) (snd r)"
    using assms(3) by (auto simp: dispatch_upload(3)[OF assms(1,2)] split: prod.splits)
  then have ok: "fst r = SMP_ST_OK" using assms(4) frame_status by metis
  have sm: "sm_xfer ?s = sm_xfer s" by (simp add: reset_session_timer_def)
  have act: "xf_active (sm_xfer s)"
    using h(1) ok by (auto simp: handle_fs_upload_end_def err_def sm SMP_ST_OK_def SMP_ST_ERR_TRANSFER_def Let_def split: if_splits)
  then show up: "uploading fp cont cs ds s w" by (rule assms(5))
  have x: "xf_fp (sm_xfer s) = Some fp" "xf_crc32 (sm_xfer s) = crc32_update (NOT 0) (cont w)"
    using up unfolding uploading_def by blast+
  have e: "rd_u32le (drop 1 (drop 3 p)) = NOT (xf_crc32 (sm_xfer s))" "s' = fst (end_transfer env ?s w)" "w' = en_fclose env fp w"
    using h(1) ok x(1)
    by (auto simp: handle_fs_upload_end_def err_def sm end_transfer_def SMP_ST_OK_def SMP_ST_ERR_TRANSFER_def SMP_ST_ERR_INVALID_def
        Let_def split: if_splits)
  show "\<not> xf_active (sm_xfer s')" by (simp add: e(2) end_transfer_def)
  show "cont w' = cont w" using assms(6) e(3) by (simp add: writes_to_def)
  show "rd_u32le (drop 4 p) = crc32_buf (cont w)" using e(1) x(2) crc32_update_buf[of "cont w"] by simp
qed


text \<open>What a host sends that repeats a chunk until its answer has come.\<close>

definition chunk_payload :: "byte \<Rightarrow> nat \<Rightarrow> byte list \<Rightarrow> byte list" where
  "chunk_payload q i d = [q, SMP_CMD_FS_UPLOAD_CHUNK, 0, 0] @ wr_u16le (of_nat i) @ d"

fun upload_cmds :: "nat \<Rightarrow> (byte list \<times> byte list) list \<Rightarrow> byte list list" where
  "upload_cmds k [] = []"
| "upload_cmds k ((qs, d) # ds) = map (\<lambda>q. chunk_payload q k d) qs @ upload_cmds (Suc k) ds"

definition end_payload :: "byte \<Rightarrow> 32 word \<Rightarrow> byte list" where
  "end_payload q crc = [q, SMP_CMD_FS_UPLOAD_END, 0, 0] @ wr_u32le crc"

definition chunk_body :: "16 word \<Rightarrow> byte list \<Rightarrow> byte list" where
  "chunk_body v d = 0 # ucast v # ucast (drop_bit 8 v) # d"

lemma chunk_payload_parts:
  "command SMP_CMD_FS_UPLOAD_CHUNK (chunk_payload q i d)" "chunk_payload q i d ! 0 = q"
  "drop 3 (chunk_payload q i d) = chunk_body (of_nat i) d"
  by (simp_all add: chunk_payload_def chunk_body_def command_def wr_u16le_def)

lemma chunk_body_parts [simp]:
  "length (chunk_body v d) = 3 + length d" "chunk_body v d ! 0 = 0" "drop 3 (chunk_body v d) = d"
  "rd_u16le (drop (Suc 0) (chunk_body v d)) = v"
  using rd_u16le_append[of v d] by (simp_all add: chunk_body_def wr_u16le_def)

lemma upload_chunk_new:
  assumes up: "uploading fp cont cs ds s w" and d: "d \<noteq> []" and full: "\<And>data w. fst (en_fwrite env fp data w) = length data"
  shows "handle_fs_upload_chunk env (chunk_body (of_nat (length ds)) d) s w =
     ((SMP_ST_OK, [chunk_body (of_nat (length ds)) d ! 1, chunk_body (of_nat (length ds)) d ! 2]),
      s\<lparr> sm_xfer := (sm_xfer s)\<lparr> xf_crc32 := crc32_update (xf_crc32 (sm_xfer s)) d, xf_next_chunk := xf_next_chunk (sm_xfer s) + 1 \<rparr> \<rparr>,
      snd (en_fwrite env fp d w))"
proof -
  obtain n w1 where fw: "en_fwrite env fp d w = (n, w1)" by fastforce
  then have "n = length d" using full[of d w] by simp
  moreover have "\<not> 3 + length d < 4" using d by (cases d) simp_all
  ultimately show ?thesis
    using up fw unfolding handle_fs_upload_chunk_def Let_def by (simp add: uploading_def)
qed

lemma upload_chunk_again:
  assumes "uploading fp cont cs ds s w" "d \<noteq> []" "length ds = Suc i" "length ds < 65536"
  shows "handle_fs_upload_chunk env (chunk_body (of_nat i) d) s w =
     ((SMP_ST_OK, [chunk_body (of_nat i) d ! 1, chunk_body (of_nat i) d ! 2]), s, w)"
proof -
  have nx: "xf_next_chunk (sm_xfer s) = of_nat (Suc i)" using assms(1,3) by (simp add: uploading_def)
  have "unat (of_nat (Suc i) :: 16 word) = Suc i" using assms(3,4) by (intro of_nat_inverse[OF refl]) simp
  then have "(0 :: 16 word) < of_nat (Suc i)" by (simp only: word_less_nat_alt) simp
  moreover have "(of_nat i :: 16 word) = of_nat (Suc i) - 1" by simp
  moreover have "(of_nat i :: 16 word) \<noteq> of_nat (Suc i)" by simp
  moreover have "\<not> 3 + length d < 4" using assms(2) by (cases d) simp_all
  ultimately show ?thesis
    using assms(1) unfolding handle_fs_upload_chunk_def Let_def nx by (simp add: uploading_def del: of_nat_Suc)
qed

text \<open>The uploading state and nothing else about where its chunks came from.\<close>

lemma uploading_next:
  assumes "uploading fp cont cs0 ds s w" "writes_to env fp cont" "\<And>data w. fst (en_fwrite env fp data w) = length data"
    and "chunk_payload q (length ds) d \<in> set cs" "set cs0 \<subseteq> set cs"
  shows "uploading fp cont cs (ds @ [d])
     (s\<lparr> sm_xfer := (sm_xfer s)\<lparr> xf_crc32 := crc32_update (xf_crc32 (sm_xfer s)) d, xf_next_chunk := xf_next_chunk (sm_xfer s) + 1 \<rparr> \<rparr>)
     (snd (en_fwrite env fp d w))"
proof -
  have cont: "cont (snd (en_fwrite env fp d w)) = cont w @ d" using assms(2,3) by (simp add: writes_to_def)
  have x: "xf_active (sm_xfer s)" "xf_is_upload (sm_xfer s)" "xf_fp (sm_xfer s) = Some fp" "xf_id (sm_xfer s) = 0"
    "xf_crc32 (sm_xfer s) = crc32_update (NOT 0) (cont w)" "cont w = concat ds" "xf_next_chunk (sm_xfer s) = of_nat (length ds)"
    "\<forall>i<length ds. \<exists>c\<in>set cs. rd_u16le (drop 4 c) = of_nat i \<and> drop 6 c = ds ! i"
    using uploading_mono[OF assms(1,5)] unfolding uploading_def by - (elim conjE; assumption)+
  have "rd_u16le (drop 4 (chunk_payload q (length ds) d)) = of_nat (length ds)" "drop 6 (chunk_payload q (length ds) d) = d"
    using rd_u16le_append[of "of_nat (length ds)" d] by (simp_all add: chunk_payload_def wr_u16le_def)
  then have "\<exists>c\<in>set cs. rd_u16le (drop 4 c) = of_nat i \<and> drop 6 c = (ds @ [d]) ! i" if "i < length (ds @ [d])" for i
    using that x(8) assms(4) by (cases "i < length ds") (auto simp: nth_append not_less le_less_Suc_eq)
  then show ?thesis
    unfolding uploading_def using x(1-7) cont by (simp add: crc32_update_append)
qed

lemma serve_append:
  "smp_serve env (ps @ qs) s w =
     (case smp_serve env ps s w of
        None \<Rightarrow> None
      | Some (t1, s, w) \<Rightarrow> (case smp_serve env qs s w of None \<Rightarrow> None | Some (t2, s, w) \<Rightarrow> Some (t1 @ t2, s, w)))"
  by (induction ps arbitrary: s w) (auto split: option.splits prod.splits)

definition served :: "'w smp_env \<Rightarrow> byte list list \<Rightarrow> smp \<Rightarrow> 'w \<Rightarrow> smp \<Rightarrow> 'w \<Rightarrow> bool" where
  "served env ps s w s' w' \<longleftrightarrow> (\<exists>txs. smp_serve env ps s w = Some (txs, s', w') \<and> (\<forall>t\<in>set txs. t ! 7 = SMP_ST_OK))"

lemma served_Nil: "served env [] s w s w"
  by (simp add: served_def)

lemma served_Cons:
  assumes "dispatch_command env p s w = Some (tx, s1, w1)" "tx ! 7 = SMP_ST_OK" "served env ps s1 w1 s2 w2"
  shows "served env (p # ps) s w s2 w2"
  using assms by (auto simp: served_def)

lemma served_append: "\<lbrakk>served env ps s w s1 w1; served env qs s1 w1 s2 w2\<rbrakk> \<Longrightarrow> served env (ps @ qs) s w s2 w2"
  by (fastforce simp: served_def serve_append)

lemma uploading_timer: "uploading fp cont cs ds (reset_session_timer s) w = uploading fp cont cs ds s w"
  "sm_session_active (reset_session_timer s) = sm_session_active s"
  by (simp_all add: uploading_def reset_session_timer_def)

lemma upload_repeats:
  assumes "uploading fp cont cs (ds @ [d]) s w" "sm_session_active s" "d \<noteq> []" "length ds + 1 < 65536"
  shows "\<exists>s'. served env (map (\<lambda>q. chunk_payload q (length ds) d) qs) s w s' w \<and> sm_session_active s' \<and>
    uploading fp cont cs (ds @ [d]) s' w"
  using assms(1,2)
proof (induction qs arbitrary: s)
  case Nil
  then show ?case using served_Nil by fastforce
next
  case (Cons q qs)
  let ?s = "reset_session_timer s" and ?p = "chunk_payload q (length ds) d"
  have up: "uploading fp cont cs (ds @ [d]) ?s w" "sm_session_active ?s" using Cons.prems by (simp_all add: uploading_timer)
  have "handle_fs_upload_chunk env (drop 3 ?p) ?s w =
      ((SMP_ST_OK, [chunk_body (of_nat (length ds)) d ! 1, chunk_body (of_nat (length ds)) d ! 2]), ?s, w)"
    unfolding chunk_payload_parts(3) by (rule upload_chunk_again[OF up(1) assms(3)]) (use assms(4) in simp_all)
  then have disp: "dispatch_command env ?p s w =
      Some (smp_frame q SMP_ST_OK [chunk_body (of_nat (length ds)) d ! 1, chunk_body (of_nat (length ds)) d ! 2], ?s, w)"
    by (simp add: dispatch_upload(2)[OF Cons.prems(2) chunk_payload_parts(1)] chunk_payload_parts(2))
  from Cons.IH[OF up] obtain s' where "served env (map (\<lambda>q. chunk_payload q (length ds) d) qs) ?s w s' w"
    "sm_session_active s'" "uploading fp cont cs (ds @ [d]) s' w" by blast
  then show ?case using served_Cons[OF disp frame_status] by auto
qed

lemma upload_chunk_served:
  assumes wr: "writes_to env fp cont" "\<And>data w. fst (en_fwrite env fp data w) = length data"
    and up: "uploading fp cont cs0 ds s w" "sm_session_active s" and d: "d \<noteq> []" "qs \<noteq> []" "length ds + 1 < 65536"
    and cs: "set cs0 \<subseteq> set cs" "set (map (\<lambda>q. chunk_payload q (length ds) d) qs) \<subseteq> set cs"
  shows "\<exists>s' w'. served env (map (\<lambda>q. chunk_payload q (length ds) d) qs) s w s' w' \<and> sm_session_active s' \<and>
    uploading fp cont cs (ds @ [d]) s' w'"
proof -
  obtain q qs' where qs: "qs = q # qs'" using d(2) by (cases qs) auto
  let ?s = "reset_session_timer s" and ?p = "chunk_payload q (length ds) d"
  have up': "uploading fp cont cs0 ds ?s w" "sm_session_active ?s" using up by (simp_all add: uploading_timer)
  define s1 where "s1 = ?s\<lparr> sm_xfer := (sm_xfer ?s)\<lparr> xf_crc32 := crc32_update (xf_crc32 (sm_xfer ?s)) d,
      xf_next_chunk := xf_next_chunk (sm_xfer ?s) + 1 \<rparr> \<rparr>"
  define w1 where "w1 = snd (en_fwrite env fp d w)"
  have h: "handle_fs_upload_chunk env (drop 3 ?p) ?s w =
      ((SMP_ST_OK, [chunk_body (of_nat (length ds)) d ! 1, chunk_body (of_nat (length ds)) d ! 2]), s1, w1)"
    unfolding chunk_payload_parts(3) s1_def w1_def by (rule upload_chunk_new[OF up'(1) d(1) wr(2)])
  have disp: "dispatch_command env ?p s w =
      Some (smp_frame q SMP_ST_OK [chunk_body (of_nat (length ds)) d ! 1, chunk_body (of_nat (length ds)) d ! 2], s1, w1)"
    by (simp add: dispatch_upload(2)[OF up(2) chunk_payload_parts(1)] chunk_payload_parts(2) h)
  have "uploading fp cont cs (ds @ [d]) s1 w1"
    unfolding s1_def w1_def by (rule uploading_next[OF up'(1) wr]) (use cs qs in auto)
  moreover have "sm_session_active s1" using up'(2) by (simp add: s1_def)
  note upload_repeats[OF calculation this d(1,3), of env qs']
  then obtain s' where "served env (map (\<lambda>q. chunk_payload q (length ds) d) qs') s1 w1 s' w1"
    "sm_session_active s'" "uploading fp cont cs (ds @ [d]) s' w1"
    by blast
  then show ?thesis unfolding qs using served_Cons[OF disp frame_status] by simp blast
qed

lemma upload_all_served:
  assumes wr: "writes_to env fp cont" "\<And>data w. fst (en_fwrite env fp data w) = length data"
  shows "\<lbrakk>uploading fp cont cs done' s w; sm_session_active s; \<forall>(qs, d)\<in>set ds. qs \<noteq> [] \<and> d \<noteq> [];
      length done' + length ds < 65536; set (upload_cmds (length done') ds) \<subseteq> set cs\<rbrakk> \<Longrightarrow>
    \<exists>s' w'. served env (upload_cmds (length done') ds) s w s' w' \<and> sm_session_active s' \<and>
      uploading fp cont cs (done' @ map snd ds) s' w'"
proof (induction ds arbitrary: done' s w)
  case Nil
  then show ?case using served_Nil by fastforce
next
  case (Cons x ds)
  obtain qs d where x: "x = (qs, d)" by (cases x)
  have "\<exists>s' w'. served env (map (\<lambda>q. chunk_payload q (length done') d) qs) s w s' w' \<and> sm_session_active s' \<and>
      uploading fp cont cs (done' @ [d]) s' w'"
    by (rule upload_chunk_served[OF wr Cons.prems(1,2)]) (use Cons.prems(3-5) x in auto)
  then obtain s1 w1 where 1: "served env (map (\<lambda>q. chunk_payload q (length done') d) qs) s w s1 w1"
    "sm_session_active s1" "uploading fp cont cs (done' @ [d]) s1 w1" by blast
  have "\<exists>s' w'. served env (upload_cmds (length (done' @ [d])) ds) s1 w1 s' w' \<and> sm_session_active s' \<and>
      uploading fp cont cs ((done' @ [d]) @ map snd ds) s' w'"
    by (rule Cons.IH[OF 1(3,2)]) (use Cons.prems(3-5) x in auto)
  then show ?case using served_append[OF 1(1)] by (simp add: x) blast
qed

text \<open>C23: A host that sends its data chunk by chunk, repeating a chunk as often as it likes, and ends
  with the CRC-32 of the data, gets OK for every command, and the file holds exactly the data
  (up to 65535 chunks, with writes that succeed).\<close>

theorem serial_upload_stores:
  assumes "sm_session_active s" "command SMP_CMD_FS_UPLOAD_BEGIN p0" "dispatch_command env p0 s w = Some (tx0, s1, w1)"
    and "tx0 ! 7 = SMP_ST_OK" "xf_fp (sm_xfer s1) = Some fp" "writes_to env fp cont" "cont w1 = []"
    and "\<And>data w. fst (en_fwrite env fp data w) = length data"
    and "\<forall>(qs, d)\<in>set ds. qs \<noteq> [] \<and> d \<noteq> []" "length ds < 65536"
  shows "\<exists>s2 w2. served env (upload_cmds 0 ds @ [end_payload q (crc32_buf (concat (map snd ds)))]) s1 w1 s2 w2 \<and>
    cont w2 = concat (map snd ds) \<and> \<not> xf_active (sm_xfer s2)"
proof -
  note b = upload_begin_state[where cont = cont, OF assms(1-5,7)]
  have "\<exists>s' w'. served env (upload_cmds (length ([] :: byte list list)) ds) s1 w1 s' w' \<and> sm_session_active s' \<and>
      uploading fp cont (upload_cmds 0 ds) ([] @ map snd ds) s' w'"
    by (rule upload_all_served[OF assms(6,8) b(2) b(1) assms(9)]) (use assms(10) in simp_all)
  then obtain s' w' where sv: "served env (upload_cmds 0 ds) s1 w1 s' w'" "sm_session_active s'"
    "uploading fp cont (upload_cmds 0 ds) (map snd ds) s' w'" by auto
  let ?s = "reset_session_timer s'" and ?p = "end_payload q (crc32_buf (concat (map snd ds)))"
  have x: "xf_active (sm_xfer ?s)" "xf_is_upload (sm_xfer ?s)" "xf_fp (sm_xfer ?s) = Some fp" "xf_id (sm_xfer ?s) = 0"
    "xf_crc32 (sm_xfer ?s) = crc32_update (NOT 0) (concat (map snd ds))" "cont w' = concat (map snd ds)"
    using sv(3) by (auto simp: uploading_def reset_session_timer_def)
  have p: "command SMP_CMD_FS_UPLOAD_END ?p" "drop 3 ?p = 0 # wr_u32le (crc32_buf (concat (map snd ds)))"
    "length (wr_u32le (crc32_buf (concat (map snd ds)))) = 4"
    by (simp_all add: end_payload_def command_def wr_u32le_def)
  have "handle_fs_upload_end env (drop 3 ?p) ?s w' = (err SMP_ST_OK, fst (end_transfer env ?s w'), en_fclose env fp w')"
    using x u32le.dec_enc[of "crc32_buf (concat (map snd ds))"] p(3)
      crc32_update_buf[of "concat (map snd ds)"]
    unfolding handle_fs_upload_end_def p(2) by (simp add: end_transfer_def)
  then have disp: "dispatch_command env ?p s' w' =
      Some (smp_frame (?p ! 0) SMP_ST_OK [], fst (end_transfer env ?s w'), en_fclose env fp w')"
    by (simp add: dispatch_upload(3)[OF sv(2) p(1)] err_def)
  have "served env (upload_cmds 0 ds @ [?p]) s1 w1 (fst (end_transfer env ?s w')) (en_fclose env fp w')"
    by (rule served_append[OF sv(1) served_Cons[OF disp frame_status served_Nil]])
  moreover have "cont (en_fclose env fp w') = concat (map snd ds)" using assms(6) x(6) by (simp add: writes_to_def)
  moreover have "\<not> xf_active (sm_xfer (fst (end_transfer env ?s w')))" by (simp add: end_transfer_def)
  ultimately show ?thesis by blast
qed

section \<open>Downloads\<close>

lemma ucast_unat: "(of_nat (unat x) :: 'b::len word) = ucast (x :: 'a::len word)"
  by (rule bit_word_eqI) (simp add: bit_simps)


text \<open>The file behind fp is data, read at a position that seeking sets.\<close>

definition reads_from :: "'w smp_env \<Rightarrow> nat \<Rightarrow> byte list \<Rightarrow> ('w \<Rightarrow> nat) \<Rightarrow> bool" where
  "reads_from env fp data pos \<longleftrightarrow>
     (\<forall>off w. fst (en_fseek env fp off w) \<and> pos (snd (en_fseek env fp off w)) = unat off) \<and>
     (\<forall>n w. \<exists>w'. en_fread env fp n w = (take n (drop (pos w) data), False, w') \<and>
        pos w' = pos w + length (take n (drop (pos w) data)))"

lemma dl_crc_all:
  assumes "reads_from env fp data pos"
  shows "\<exists>w'. dl_crc env fp crc w = Some (crc32_update crc (drop (pos w) data), w')"
proof (induction "length data - pos w" arbitrary: crc w rule: less_induct)
  case less
  obtain w1 where rd: "en_fread env fp 256 w = (take 256 (drop (pos w) data), False, w1)"
    and pos: "pos w1 = pos w + length (take 256 (drop (pos w) data))"
    using assms unfolding reads_from_def by blast
  show ?case
  proof (cases "pos w < length data")
    case False
    then show ?thesis by (subst dl_crc.simps) (simp add: rd crc32_update_def)
  next
    case True
    then have "length data - pos w1 < length data - pos w" using pos by simp
    from less.hyps[OF this, of "crc32_update crc (take 256 (drop (pos w) data))"] obtain w' where
      "dl_crc env fp (crc32_update crc (take 256 (drop (pos w) data))) w1 =
         Some (crc32_update (crc32_update crc (take 256 (drop (pos w) data))) (drop (pos w1) data), w')" by blast
    moreover have "take 256 (drop (pos w) data) @ drop (pos w1) data = drop (pos w) data"
    proof -
      have "drop (pos w1) data = drop 256 (drop (pos w) data)" using pos by (simp add: add.commute min_def)
      then show ?thesis by (simp only: append_take_drop_id)
    qed
    ultimately show ?thesis
      using True by (subst dl_crc.simps) (auto simp: rd crc32_update_append[symmetric])
  qed
qed

lemma dispatch_download:
  assumes "sm_session_active s"
  shows "command SMP_CMD_FS_DL_BEGIN p \<Longrightarrow> dispatch_command env p s w =
      (case handle_fs_dl_begin env (drop 3 p) (reset_session_timer s) w of
         None \<Rightarrow> None | Some (r, s, w) \<Rightarrow> Some (smp_frame (p ! 0) (fst r) (snd r), s, w))"
    "command SMP_CMD_FS_DL_CHUNK p \<Longrightarrow> dispatch_command env p s w =
      (case handle_fs_dl_chunk env (drop 3 p) (reset_session_timer s) w of
         (r, w) \<Rightarrow> Some (smp_frame (p ! 0) (fst r) (snd r), reset_session_timer s, w))"
  using assms by (simp_all add: command_def dispatch_command_def smp_cmds Let_def split: prod.splits option.splits)

definition dl_payload :: "byte \<Rightarrow> nat \<Rightarrow> byte list" where
  "dl_payload q i = [q, SMP_CMD_FS_DL_CHUNK, 0, 0] @ wr_u16le (of_nat i)"

definition dl_answer :: "byte \<Rightarrow> nat \<Rightarrow> byte list \<Rightarrow> byte list" where
  "dl_answer q i data = smp_frame q SMP_ST_OK ([0] @ wr_u16le (of_nat i) @ take SMP_CHUNK_SIZE (drop (i * SMP_CHUNK_SIZE) data))"

definition downloading :: "nat \<Rightarrow> nat \<Rightarrow> smp \<Rightarrow> bool" where
  "downloading fp n s \<longleftrightarrow>
     sm_session_active s \<and> xf_active (sm_xfer s) \<and> \<not> xf_is_upload (sm_xfer s) \<and> xf_fp (sm_xfer s) = Some fp \<and>
     xf_id (sm_xfer s) = 0 \<and> xf_chunk_count (sm_xfer s) = of_nat n"

lemma dl_chunk_answer:
  assumes rd: "reads_from env fp data pos" and dl: "downloading fp n s" and i: "i < n" "n < 65536"
  shows "\<exists>w'. dispatch_command env (dl_payload q i) s w = Some (dl_answer q i data, reset_session_timer s, w')"
proof -
  let ?p = "dl_payload q i" and ?s = "reset_session_timer s"
  have p: "command SMP_CMD_FS_DL_CHUNK ?p" "?p ! 0 = q" "drop 3 ?p = 0 # wr_u16le (of_nat i)"
    "rd_u16le (drop 1 (drop 3 ?p)) = of_nat i" "length (drop 3 ?p) = 3" "drop 3 ?p ! 0 = 0"
    using u16le.dec_enc[of "of_nat i"] by (simp_all add: dl_payload_def command_def wr_u16le_def)
  have x: "xf_active (sm_xfer ?s)" "\<not> xf_is_upload (sm_xfer ?s)" "xf_fp (sm_xfer ?s) = Some fp" "xf_id (sm_xfer ?s) = 0"
    "xf_chunk_count (sm_xfer ?s) = of_nat n" "sm_session_active s"
    using dl by (simp_all add: downloading_def reset_session_timer_def)
  have un: "unat (of_nat i :: 16 word) = i" "unat (of_nat n :: 16 word) = n"
    by (rule of_nat_inverse[OF refl]; use i in simp)+
  have lt: "\<not> (of_nat i :: 16 word) \<ge> of_nat n" using i(1) by (simp add: word_le_nat_alt un)
  have "(ucast (of_nat i :: 16 word) :: 32 word) = of_nat (unat (of_nat i :: 16 word))" by (rule ucast_unat[symmetric])
  then have "(ucast (of_nat i :: 16 word) * of_nat SMP_CHUNK_SIZE :: 32 word) = of_nat (i * SMP_CHUNK_SIZE)" unfolding un by simp
  moreover have "unat (of_nat (i * SMP_CHUNK_SIZE) :: 32 word) = i * SMP_CHUNK_SIZE"
    by (rule of_nat_inverse[OF refl]) (use i in \<open>simp add: SMP_CHUNK_SIZE_def\<close>)
  ultimately have off: "unat (ucast (of_nat i :: 16 word) * of_nat SMP_CHUNK_SIZE :: 32 word) = i * SMP_CHUNK_SIZE" by (simp only:)
  obtain w1 where sk: "en_fseek env fp (ucast (of_nat i :: 16 word) * of_nat SMP_CHUNK_SIZE) w = (True, w1)" "pos w1 = i * SMP_CHUNK_SIZE"
  proof -
    let ?r = "en_fseek env fp (ucast (of_nat i :: 16 word) * of_nat SMP_CHUNK_SIZE) w"
    have "fst ?r \<and> pos (snd ?r) = i * SMP_CHUNK_SIZE" using rd unfolding reads_from_def off[symmetric] by blast
    then show thesis using that[of "snd ?r"] by (metis prod.collapse)
  qed
  obtain w2 where rd2: "en_fread env fp SMP_CHUNK_SIZE w1 = (take SMP_CHUNK_SIZE (drop (i * SMP_CHUNK_SIZE) data), False, w2)"
    using rd unfolding reads_from_def sk(2)[symmetric] by blast
  have "handle_fs_dl_chunk env (drop 3 ?p) ?s w =
      ((SMP_ST_OK, take 3 (drop 3 ?p) @ take SMP_CHUNK_SIZE (drop (i * SMP_CHUNK_SIZE) data)), w2)"
    unfolding handle_fs_dl_chunk_def Let_def using x lt p(4-6) by (simp add: sk(1) rd2)
  moreover have "take 3 (drop 3 ?p) = [0] @ wr_u16le (of_nat i)" unfolding p(3) by (simp add: wr_u16le_def)
  ultimately show ?thesis by (simp add: dispatch_download(2)[OF x(6) p(1)] p(2) dl_answer_def)
qed

lemma downloading_timer: "downloading fp n s \<Longrightarrow> downloading fp n (reset_session_timer s)"
  by (simp add: downloading_def reset_session_timer_def)

lemma dl_serve:
  assumes "reads_from env fp data pos" "n < 65536"
  shows "\<lbrakk>downloading fp n s; \<forall>i\<in>set is. i < n\<rbrakk> \<Longrightarrow>
    \<exists>s' w'. smp_serve env (map (\<lambda>i. dl_payload (q i) i) is) s w = Some (map (\<lambda>i. dl_answer (q i) i data) is, s', w')"
proof (induction "is" arbitrary: s w)
  case (Cons i "is")
  then obtain w1 where "dispatch_command env (dl_payload (q i) i) s w = Some (dl_answer (q i) i data, reset_session_timer s, w1)"
    using dl_chunk_answer[OF assms(1) Cons.prems(1) _ assms(2), of i "q i" w] by auto
  moreover obtain s' w' where "smp_serve env (map (\<lambda>i. dl_payload (q i) i) is) (reset_session_timer s) w1 =
      Some (map (\<lambda>i. dl_answer (q i) i data) is, s', w')"
    using Cons.IH[OF downloading_timer[OF Cons.prems(1)]] Cons.prems(2) by fastforce
  ultimately show ?case by simp
qed simp

lemma chunks_concat:
  assumes "0 < c" "length xs \<le> n * c"
  shows "concat (map (\<lambda>i. take c (drop (i * c) xs)) [0..<n]) = xs"
  using assms(2)
proof (induction n arbitrary: xs)
  case (Suc n)
  have "concat (map (\<lambda>i. take c (drop (i * c) (drop c xs))) [0..<n]) = drop c xs"
    by (rule Suc.IH) (use Suc.prems in simp)
  moreover have "map (\<lambda>i. take c (drop (i * c) xs)) [0..<Suc n] =
      take c xs # map (\<lambda>i. take c (drop (i * c) (drop c xs))) [0..<n]"
    by (simp add: upt_conv_Cons map_Suc_upt[symmetric] comp_def add.commute del: upt_Suc)
  ultimately show ?case by simp
qed simp

lemma chunks_of_count:
  assumes "len \<le> 65535 * SMP_CHUNK_SIZE"
  shows "chunks_of (of_nat len) = of_nat ((len + 1023) div 1024)"
proof -
  have l: "len + 1024 < 2 ^ 32" using assms by (simp add: SMP_CHUNK_SIZE_def)
  have "(of_nat len + of_nat SMP_CHUNK_SIZE - 1 :: 32 word) = of_nat (len + 1023)" by (simp add: SMP_CHUNK_SIZE_def)
  moreover have "unat (of_nat (len + 1023) :: 32 word) = len + 1023" by (rule of_nat_inverse[OF refl]) (use l in simp)
  ultimately have "unat ((of_nat len + of_nat SMP_CHUNK_SIZE - 1 :: 32 word) div of_nat SMP_CHUNK_SIZE) = (len + 1023) div 1024"
    by (simp only: unat_div) (simp add: SMP_CHUNK_SIZE_def)
  then have "ucast ((of_nat len + of_nat SMP_CHUNK_SIZE - 1 :: 32 word) div of_nat SMP_CHUNK_SIZE) = (of_nat ((len + 1023) div 1024) :: 16 word)"
    by (metis ucast_unat)
  then show ?thesis by (simp add: chunks_of_def)
qed

text \<open>A download gives the file back: DL_BEGIN answers with its size, its number of chunks and its
  CRC-32, and the chunks, asked for one after the other, are the pieces of the file, which
  together are the file (below 64 MB, with reads that succeed).\<close>

theorem serial_download_returns:
  assumes "sm_session_active s" "\<not> xf_active (sm_xfer s)" "command SMP_CMD_FS_DL_BEGIN p0" "path_valid_sd (drop 3 p0) = Some path"
    and "en_fopen_rb env path w = (Inr fp, w1)" "en_fsize env fp w1 = (Some (length data), w2)" "pos w2 = 0"
    and "reads_from env fp data pos" "length data \<le> 65535 * SMP_CHUNK_SIZE"
  defines "n \<equiv> (length data + 1023) div 1024"
  shows "\<exists>s3 w3. dispatch_command env p0 s w =
      Some (smp_frame (p0 ! 0) SMP_ST_OK ([0] @ wr_u32le (of_nat (length data)) @ wr_u16le (of_nat n) @ wr_u32le (crc32_buf data)), s3, w3) \<and>
    (\<exists>s4 w4. smp_serve env (map (\<lambda>i. dl_payload (q i) i) [0..<n]) s3 w3 = Some (map (\<lambda>i. dl_answer (q i) i data) [0..<n], s4, w4)) \<and>
    concat (map (\<lambda>i. take SMP_CHUNK_SIZE (drop (i * SMP_CHUNK_SIZE) data)) [0..<n]) = data"
proof -
  let ?s = "reset_session_timer s"
  have n: "n < 65536" using assms(9) unfolding n_def SMP_CHUNK_SIZE_def by simp
  have cc: "chunks_of (of_nat (length data)) = of_nat n" unfolding n_def by (rule chunks_of_count[OF assms(9)])
  obtain w3 where crc: "dl_crc env fp (NOT 0) w2 = Some (crc32_update (NOT 0) data, w3)"
    using dl_crc_all[OF assms(8), of "NOT 0" w2] assms(7) by auto
  define s3 where "s3 = ?s\<lparr> sm_xfer := \<lparr> xf_fp = Some fp, xf_file_size = of_nat (length data), xf_crc32 = NOT (crc32_update (NOT 0) data),
      xf_chunk_count = of_nat n, xf_next_chunk = 0, xf_id = 0, xf_is_upload = False, xf_active = True \<rparr> \<rparr>"
  define w4 where "w4 = snd (en_fseek env fp 0 w3)"
  have na: "\<not> xf_active (sm_xfer ?s)" using assms(2) by (simp add: reset_session_timer_def)
  have "handle_fs_dl_begin env (drop 3 p0) ?s w =
      Some ((SMP_ST_OK, [0] @ wr_u32le (of_nat (length data)) @ wr_u16le (of_nat n) @ wr_u32le (NOT (crc32_update (NOT 0) data))), s3, w4)"
    unfolding handle_fs_dl_begin_def using na
    by (simp only: assms(4,5,6) option.case prod.case sum.case crc Let_def cc s3_def w4_def if_False)
  then have "dispatch_command env p0 s w =
      Some (smp_frame (p0 ! 0) SMP_ST_OK ([0] @ wr_u32le (of_nat (length data)) @ wr_u16le (of_nat n) @ wr_u32le (crc32_buf data)), s3, w4)"
    unfolding crc32_update_buf by (simp add: dispatch_download(1)[OF assms(1,3)])
  moreover have "downloading fp n s3" using assms(1) by (simp add: downloading_def s3_def reset_session_timer_def)
  then have "\<exists>s4 w5. smp_serve env (map (\<lambda>i. dl_payload (q i) i) [0..<n]) s3 w4 = Some (map (\<lambda>i. dl_answer (q i) i data) [0..<n], s4, w5)"
    by (rule dl_serve[OF assms(8) n]) simp
  moreover have "length data \<le> n * SMP_CHUNK_SIZE"
  proof -
    have "length data + 1023 = n * 1024 + (length data + 1023) mod 1024" unfolding n_def by (rule div_mult_mod_eq[symmetric])
    moreover have "(length data + 1023) mod 1024 < 1024" by simp
    ultimately show ?thesis unfolding SMP_CHUNK_SIZE_def by linarith
  qed
  then have "concat (map (\<lambda>i. take SMP_CHUNK_SIZE (drop (i * SMP_CHUNK_SIZE) data)) [0..<n]) = data"
    by (intro chunks_concat) (simp_all add: SMP_CHUNK_SIZE_def)
  ultimately show ?thesis by blast
qed

section \<open>Paths\<close>

text \<open>The card itself or a path below it.\<close>

definition below_sd :: "string \<Rightarrow> bool" where
  "below_sd p \<longleftrightarrow> p = ''/sd'' \<or> take 4 p = ''/sd/''"

lemma sd_prefix_below: "sd_prefix_ok p \<Longrightarrow> below_sd p"
proof -
  assume p: "sd_prefix_ok p"
  show "below_sd p"
  proof (cases "length p = 3")
    case True
    then show ?thesis using p by (auto simp: sd_prefix_ok_def below_sd_def)
  next
    case False
    then have "3 < length p" "p ! 3 = CHR ''/''" using p by (auto simp: sd_prefix_ok_def char_at_def split: if_splits)
    then have "take (Suc 3) p = take 3 p @ [CHR ''/'']" by (simp only: take_Suc_conv_app_nth)
    then show ?thesis using p by (simp add: sd_prefix_ok_def below_sd_def)
  qed
qed

text \<open>The same device with a file system that refuses every path outside /sd.\<close>

definition confined :: "'w smp_env \<Rightarrow> 'w smp_env" where
  "confined env = env
     \<lparr> en_opendir := (\<lambda>p w. if below_sd p then en_opendir env p w else (None, w)),
       en_stat := (\<lambda>p w. if below_sd p then en_stat env p w else (None, w)),
       en_mkdir := (\<lambda>p w. if below_sd p then en_mkdir env p w else (Io_OTHER, w)),
       en_remove := (\<lambda>p w. if below_sd p then en_remove env p w else (Io_OTHER, w)),
       en_rename := (\<lambda>p q w. if below_sd p \<and> below_sd q then en_rename env p q w else (Io_OTHER, w)),
       en_fopen_wb := (\<lambda>p w. if below_sd p then en_fopen_wb env p w else (None, w)),
       en_fopen_rb := (\<lambda>p w. if below_sd p then en_fopen_rb env p w else (Inl Io_OTHER, w)) \<rparr>"

lemma confined_simps [simp]:
  "sd_prefix_ok p \<Longrightarrow> en_opendir (confined env) p = en_opendir env p"
  "sd_prefix_ok p \<Longrightarrow> en_stat (confined env) p = en_stat env p"
  "sd_prefix_ok p \<Longrightarrow> en_mkdir (confined env) p = en_mkdir env p"
  "sd_prefix_ok p \<Longrightarrow> en_remove (confined env) p = en_remove env p"
  "sd_prefix_ok p \<Longrightarrow> sd_prefix_ok q \<Longrightarrow> en_rename (confined env) p q = en_rename env p q"
  "sd_prefix_ok p \<Longrightarrow> en_fopen_wb (confined env) p = en_fopen_wb env p"
  "sd_prefix_ok p \<Longrightarrow> en_fopen_rb (confined env) p = en_fopen_rb env p"
  "en_app_running (confined env) = en_app_running env" "en_username (confined env) = en_username env"
  "en_tz (confined env) = en_tz env" "en_now_us (confined env) = en_now_us env" "en_mac (confined env) = en_mac env"
  "en_space (confined env) = en_space env" "en_label (confined env) = en_label env" "en_lrv (confined env) = en_lrv env"
  "en_sign (confined env) = en_sign env" "en_rtc_write (confined env) = en_rtc_write env" "en_alloc (confined env) = en_alloc env"
  "en_is_backup (confined env) = en_is_backup env" "en_apply_backup (confined env) = en_apply_backup env"
  "en_fsize (confined env) = en_fsize env" "en_fseek (confined env) = en_fseek env" "en_fread (confined env) = en_fread env"
  "en_fwrite (confined env) = en_fwrite env" "en_fclose (confined env) = en_fclose env"
  by (simp_all add: confined_def fun_eq_iff sd_prefix_below)

lemmas confined_fixed = confined_simps(8-25)

lemma sd_prefix_take:
  assumes "sd_prefix_ok p" "n < length p" "p ! n = CHR ''/''" "0 < n"
  shows "sd_prefix_ok (take n p)"
proof -
  have p: "take 3 p = ''/sd''" "length p = 3 \<or> char_at p 3 = Some CHR ''/''" using assms(1) by (auto simp: sd_prefix_ok_def)
  have "3 \<le> n"
  proof (rule ccontr)
    assume "\<not> 3 \<le> n"
    then have "p ! n = take 3 p ! n" by simp
    then have "p ! n = ''/sd'' ! n" using p(1) by simp
    moreover have "n = 1 \<or> n = 2" using \<open>\<not> 3 \<le> n\<close> assms(4) by auto
    ultimately show False using assms(3) by auto
  qed
  moreover have "take 3 (take n p) = ''/sd''" using p(1) \<open>3 \<le> n\<close> by (simp add: min_def)
  ultimately show ?thesis
    using p(2) assms(2) by (auto simp: sd_prefix_ok_def char_at_def split: if_splits)
qed

lemma sd_prefix_take_min: "\<lbrakk>sd_prefix_ok p; 3 < n\<rbrakk> \<Longrightarrow> sd_prefix_ok (take n p)"
  by (auto simp: sd_prefix_ok_def char_at_def min_def split: if_splits)

lemma make_parent_dirs_confined:
  assumes "sd_prefix_ok path"
  shows "make_parent_dirs (confined env) path w = make_parent_dirs env path w"
proof -
  let ?t = "take 255 path"
  have t: "sd_prefix_ok ?t" by (rule sd_prefix_take_min[OF assms]) simp
  show ?thesis
    unfolding make_parent_dirs_def Let_def
    by (rule fold_cong) (use sd_prefix_take[OF t] in \<open>auto simp: fun_eq_iff\<close>)
qed

lemma path_valid_prefix: "path_valid_sd body = Some path \<Longrightarrow> sd_prefix_ok path"
  by (auto simp: path_valid_sd_def split: if_splits)

lemma sd_prefix_append: "sd_prefix_ok p \<Longrightarrow> sd_prefix_ok (p @ CHR ''/'' # q)"
  by (auto simp: sd_prefix_ok_def char_at_def nth_append split: if_splits)

lemma entry_size_confined: "sd_prefix_ok path \<Longrightarrow> entry_size (confined env) path name d w = entry_size env path name d w"
  by (simp add: entry_size_def sd_prefix_take_min sd_prefix_append Let_def del: take_append)

lemma list_loop_confined: "sd_prefix_ok path \<Longrightarrow> list_loop (confined env) path es c buf w = list_loop env path es c buf w"
  by (induction es arbitrary: c buf w) (auto simp: entry_size_confined split: prod.splits)

lemma dl_crc_some:
  assumes "dl_crc env1 fp crc w = Some r" "en_fread env2 = en_fread env1"
  shows "dl_crc env2 fp crc w = Some r"
  using assms
proof (induction rule: dl_crc.raw_induct[rotated 1, consumes 1])
  case (1 self env1 fp crc w r)
  then show ?case by (subst dl_crc.simps) (auto split: prod.splits if_splits)
qed

lemma dl_crc_confined: "dl_crc (confined env) fp crc w = dl_crc env fp crc w"
proof (cases "dl_crc env fp crc w")
  case None
  then show ?thesis using dl_crc_some[of "confined env" fp crc w _ env] by (cases "dl_crc (confined env) fp crc w") auto
next
  case (Some r)
  then show ?thesis using dl_crc_some[of env fp crc w r "confined env"] by simp
qed

lemma drop_transfer_confined: "drop_transfer (confined env) = drop_transfer env" "end_transfer (confined env) = end_transfer env"
  unfolding drop_transfer_def end_transfer_def confined_fixed by (rule refl)+

lemmas confined_handlers =
  handle_session_start_def handle_session_end_def close_session_def handle_get_info_def handle_get_lrv_data_def handle_set_time_def
  handle_fs_upload_chunk_def handle_fs_upload_end_def handle_fs_dl_chunk_def handle_fs_dl_end_def drop_transfer_confined

lemma handlers_confined:
  "handle_session_start (confined env) = handle_session_start env" "handle_session_end (confined env) = handle_session_end env"
  "handle_get_info (confined env) = handle_get_info env" "handle_get_lrv_data (confined env) = handle_get_lrv_data env"
  "handle_set_time (confined env) = handle_set_time env"
  "handle_fs_upload_chunk (confined env) = handle_fs_upload_chunk env" "handle_fs_upload_end (confined env) = handle_fs_upload_end env"
  "handle_fs_dl_chunk (confined env) = handle_fs_dl_chunk env" "handle_fs_dl_end (confined env) = handle_fs_dl_end env"
  unfolding confined_handlers confined_fixed by (rule refl)+

lemma read_file_into_confined: "sd_prefix_ok path \<Longrightarrow> read_file_into (confined env) path n w = read_file_into env path n w"
  unfolding read_file_into_def confined_fixed by simp

lemma path_handlers_confined:
  "handle_fs_list_dir (confined env) body w = handle_fs_list_dir env body w"
  "handle_fs_mkdir (confined env) body w = handle_fs_mkdir env body w"
  "handle_fs_remove (confined env) body w = handle_fs_remove env body w"
  "handle_fs_dl_begin (confined env) body s w = handle_fs_dl_begin env body s w"
  "handle_apply_backup (confined env) q body s w = handle_apply_backup env q body s w"
proof -
  have "handle_fs_list_dir (confined env) body w = handle_fs_list_dir env body w \<and>
      handle_fs_mkdir (confined env) body w = handle_fs_mkdir env body w \<and>
      handle_fs_remove (confined env) body w = handle_fs_remove env body w \<and>
      handle_fs_dl_begin (confined env) body s w = handle_fs_dl_begin env body s w \<and>
      handle_apply_backup (confined env) q body s w = handle_apply_backup env q body s w"
  proof (cases "path_valid_sd body")
    case None
    show ?thesis
      unfolding handle_fs_list_dir_def handle_fs_mkdir_def handle_fs_remove_def handle_fs_dl_begin_def handle_apply_backup_def None
      by simp
  next
    case (Some path)
    note ok = path_valid_prefix[OF Some]
    show ?thesis
      unfolding handle_fs_list_dir_def handle_fs_mkdir_def handle_fs_remove_def handle_fs_dl_begin_def handle_apply_backup_def
        Some option.case confined_fixed confined_simps(1-4,7)[OF ok] list_loop_confined[OF ok] make_parent_dirs_confined[OF ok]
        read_file_into_confined[OF ok] dl_crc_confined
      by (intro conjI refl)
  qed
  then show
    "handle_fs_list_dir (confined env) body w = handle_fs_list_dir env body w"
    "handle_fs_mkdir (confined env) body w = handle_fs_mkdir env body w"
    "handle_fs_remove (confined env) body w = handle_fs_remove env body w"
    "handle_fs_dl_begin (confined env) body s w = handle_fs_dl_begin env body s w"
    "handle_apply_backup (confined env) q body s w = handle_apply_backup env q body s w" by blast+
qed

lemma rename_confined: "handle_fs_rename (confined env) body w = handle_fs_rename env body w"
  by (simp add: handle_fs_rename_def Let_def)

lemma upload_begin_confined: "handle_fs_upload_begin (confined env) body s w = handle_fs_upload_begin env body s w"
  by (simp add: handle_fs_upload_begin_def Let_def make_parent_dirs_confined)


section \<open>Frames and examples\<close>

text \<open>C24: A frame that arrives on the line in time, after any bytes without a preamble and in any
  division into reads, is taken as exactly its payload, the bytes behind it staying on the line; and
  whatever the line does, a payload that is taken was on it, in a complete frame with its
  length and its checksum. The frames the device sends have the same format.\<close>

theorem serial_frame_received:
  assumes "usb_line usb line clock T" "line w = junk @ wire_frame payload @ rest"
    and "\<forall>i<length junk. take 4 (drop i (junk @ SMP_SOF)) \<noteq> SMP_SOF"
    and "0 < length payload" "length payload \<le> SMP_MAX_PAYLOAD_BYTES" "T \<le> clock w" "clock w < T + 100"
  shows "(\<exists>w'. rx_turn usb w = Some (Some payload, w') \<and> line w' = rest) \<and>
    (\<forall>v p v'. rx_turn usb v = Some (Some p, v') \<longrightarrow>
       (\<exists>before. line v = before @ wire_frame p @ line v') \<and> 0 < length p \<and> length p \<le> SMP_MAX_PAYLOAD_BYTES) \<and>
    (\<forall>seq status body. length body \<le> 65533 \<longrightarrow> smp_frame seq status body = wire_frame (seq # status # body))"
  using rx_turn_frame[OF assms] rx_turn_sound[OF usb_line_reads[OF assms(1)]] smp_frame_wire by blast

text \<open>A line that gives what is asked for at once, and a device with one file, whose content and
  position are the world.\<close>

definition smp_demo_usb :: "byte list usb" where
  "smp_demo_usb = \<lparr> usb_read = (\<lambda>n t w. (take n w, drop n w)), usb_ticks = (\<lambda>w. (0, w)), usb_hz = 100 \<rparr>"

lemma smp_demo_usb_line: "usb_line smp_demo_usb (\<lambda>w. w) (\<lambda>w. 0) 0"
  by (auto simp: usb_line_def smp_demo_usb_def)

lemma serial_frame_received_witness:
  "rx_turn smp_demo_usb ([0x01, 0x4A, 0x01] @ wire_frame [7, 0x05, 0] @ [9]) = Some (Some [7, 0x05, 0], [9])"
proof -
  let ?w = "[0x01, 0x4A, 0x01] @ wire_frame [7, 0x05, 0] @ [9]"
  have "\<forall>i<length [0x01, 0x4A, 0x01 :: byte]. take 4 (drop i ([0x01, 0x4A, 0x01] @ SMP_SOF)) \<noteq> SMP_SOF"
    by (auto simp: SMP_SOF_def less_Suc_eq)
  then have "\<exists>w'. rx_turn smp_demo_usb ?w = Some (Some [7, 0x05, 0], w') \<and> w' = [9]"
    by (intro conjunct1[OF serial_frame_received[OF smp_demo_usb_line refl]]) (simp_all add: SMP_MAX_PAYLOAD_BYTES_def)
  then show ?thesis by simp
qed

type_synonym smp_demo_world = "byte list \<times> nat"

definition smp_demo_env :: "smp_demo_world smp_env" where
  "smp_demo_env = \<lparr> en_app_running = (\<lambda>w. False), en_username = (\<lambda>w. None), en_tz = (\<lambda>w. None), en_now_us = (\<lambda>w. 0),
     en_mac = replicate 6 0, en_space = (\<lambda>w. None), en_label = (\<lambda>w. None),
     en_lrv = (\<lambda>w. \<lparr> lv_eeprom = \<lparr> ee_present = False, ee_size_bytes = 0 \<rparr>, lv_data = zero_data, lv_data_ok = False \<rparr>),
     en_sign = (\<lambda>c k. None), en_rtc_write = (\<lambda>xs w. (True, w)), en_alloc = (\<lambda>w. True), en_is_backup = (\<lambda>xs. None),
     en_apply_backup = (\<lambda>xs w. (False, w)), en_opendir = (\<lambda>p w. (None, w)), en_stat = (\<lambda>p w. (None, w)),
     en_mkdir = (\<lambda>p w. (Io_EEXIST, w)), en_remove = (\<lambda>p w. (Io_ENOENT, w)), en_rename = (\<lambda>p q w. (Io_ENOENT, w)),
     en_fopen_wb = (\<lambda>p w. (Some 1, ([], 0))), en_fopen_rb = (\<lambda>p w. (Inr 1, (fst w, 0))),
     en_fsize = (\<lambda>fp w. (Some (length (fst w)), (fst w, 0))),
     en_fseek = (\<lambda>fp off w. (True, (fst w, unat off))),
     en_fread = (\<lambda>fp n w. (take n (drop (snd w) (fst w)), False, (fst w, snd w + length (take n (drop (snd w) (fst w)))))),
     en_fwrite = (\<lambda>fp xs w. (length xs, (fst w @ xs, 0))), en_fclose = (\<lambda>fp w. w) \<rparr>"

definition smp_demo_session :: smp where
  "smp_demo_session = smp_boot\<lparr> sm_session_active := True, sm_timer := True \<rparr>"

text \<open>UPLOAD_BEGIN and DL_BEGIN of /sd/a.\<close>

definition smp_demo_upload :: "byte list" where
  "smp_demo_upload = [1, SMP_CMD_FS_UPLOAD_BEGIN, 0, 5, 0, 0, 0, 0x2F, 0x73, 0x64, 0x2F, 0x61, 0]"

definition smp_demo_download :: "byte list" where
  "smp_demo_download = [1, SMP_CMD_FS_DL_BEGIN, 0, 0x2F, 0x73, 0x64, 0x2F, 0x61, 0]"

lemma smp_demo_path: "text_of [0x2F, 0x73, 0x64, 0x2F, 0x61, 0] = ''/sd/a''" "c_text [0x2F, 0x73, 0x64, 0x2F, 0x61, 0] = [0x2F, 0x73, 0x64, 0x2F, 0x61]"
  "sd_prefix_ok ''/sd/a''"
  by (simp_all add: text_of_def c_text_def char_of_def sd_prefix_ok_def char_at_def bit_Suc_0_iff)

definition smp_demo_uploading :: smp where
  "smp_demo_uploading = smp_demo_session\<lparr> sm_xfer := \<lparr> xf_fp = Some 1, xf_file_size = 5, xf_crc32 = NOT 0, xf_chunk_count = 1,
     xf_next_chunk = 0, xf_id = 0, xf_is_upload = True, xf_active = True \<rparr> \<rparr>"

lemma smp_demo_begin:
  "dispatch_command smp_demo_env smp_demo_upload smp_demo_session w = Some (smp_frame 1 SMP_ST_OK [0], smp_demo_uploading, ([], 0))"
proof -
  have c: "command SMP_CMD_FS_UPLOAD_BEGIN smp_demo_upload" "smp_demo_upload ! 0 = 1" "sm_session_active smp_demo_session"
    by (simp_all add: smp_demo_upload_def command_def smp_demo_session_def)
  have sz: "rd_u32le [5, 0, 0, 0, 0x2F, 0x73, 0x64, 0x2F, 0x61, 0] = 5" "chunks_of 5 = 1"
    by (simp_all add: rd_u32le_def chunks_of_def SMP_CHUNK_SIZE_def)
  have mk: "en_fopen_wb smp_demo_env p v = (Some 1, ([], 0))" for p v by (simp add: smp_demo_env_def)
  have "handle_fs_upload_begin smp_demo_env (drop 3 smp_demo_upload) (reset_session_timer smp_demo_session) w =
      ((SMP_ST_OK, [0]), smp_demo_uploading, ([], 0))"
    by (simp add: handle_fs_upload_begin_def smp_demo_upload_def smp_demo_path sz mk Let_def)
      (simp add: smp_demo_session_def smp_boot_def smp_demo_uploading_def reset_session_timer_def)
  then show ?thesis by (simp add: dispatch_upload(1)[OF c(3,1)] c(2))
qed

lemma smp_demo_writes: "writes_to smp_demo_env 1 fst" "fst (en_fwrite smp_demo_env 1 xs w) = length xs"
  by (simp_all add: writes_to_def smp_demo_env_def)

text \<open>Two chunks, the first sent twice.\<close>

lemma serial_upload_stores_witness:
  "\<exists>s2 w2. served smp_demo_env (upload_cmds 0 [([2, 3], [10, 11]), ([4], [12])] @ [end_payload 5 (crc32_buf [10, 11, 12])])
      smp_demo_uploading ([], 0) s2 w2 \<and> fst w2 = [10, 11, 12]"
proof -
  have "\<exists>s2 w2. served smp_demo_env (upload_cmds 0 [([2, 3], [10, 11]), ([4], [12])] @
        [end_payload 5 (crc32_buf (concat (map snd [([2, 3 :: byte], [10, 11]), ([4], [12])])))])
      smp_demo_uploading ([], 0) s2 w2 \<and> fst w2 = concat (map snd [([2, 3 :: byte], [10, 11]), ([4], [12])]) \<and> \<not> xf_active (sm_xfer s2)"
    by (rule serial_upload_stores[OF _ _ smp_demo_begin frame_status _ smp_demo_writes(1) _ smp_demo_writes(2)])
      (simp_all add: smp_demo_session_def smp_demo_uploading_def command_def smp_demo_upload_def)
  then show ?thesis by auto
qed


definition smp_demo_card :: "smp_demo_world smp_env" where
  "smp_demo_card = smp_demo_env\<lparr>
     en_fsize := (\<lambda>fp w. (Some 2, (fst w, 0))),
     en_fread := (\<lambda>fp n w. (take n (drop (snd w) [7, 8]), False, (fst w, snd w + length (take n (drop (snd w) [7 :: byte, 8]))))) \<rparr>"

lemma serial_download_returns_witness:
  "\<exists>s3 w3 s4 w4. dispatch_command smp_demo_card smp_demo_download smp_demo_session ([7, 8], 0) =
     Some (smp_frame 1 SMP_ST_OK ([0] @ wr_u32le 2 @ wr_u16le 1 @ wr_u32le (crc32_buf [7, 8])), s3, w3) \<and>
     smp_serve smp_demo_card [dl_payload 2 0] s3 w3 = Some ([dl_answer 2 0 [7, 8]], s4, w4)"
proof -
  have r: "reads_from smp_demo_card 1 [7, 8] snd"
    by (simp add: reads_from_def smp_demo_card_def smp_demo_env_def)
  have p: "path_valid_sd (drop 3 smp_demo_download) = Some ''/sd/a''" "smp_demo_download ! 0 = 1"
    "command SMP_CMD_FS_DL_BEGIN smp_demo_download"
    by (simp_all add: path_valid_sd_def smp_demo_download_def smp_demo_path command_def)
  have op: "en_fopen_rb smp_demo_card ''/sd/a'' ([7, 8], 0) = (Inr 1, ([7, 8], 0))"
    "en_fsize smp_demo_card 1 ([7, 8], 0) = (Some (length [7, 8 :: byte]), ([7, 8], 0))"
    by (simp_all add: smp_demo_card_def smp_demo_env_def)
  have a: "sm_session_active smp_demo_session" "\<not> xf_active (sm_xfer smp_demo_session)" by (simp_all add: smp_demo_session_def smp_boot_def)
  have len: "length [7, 8 :: byte] \<le> 65535 * SMP_CHUNK_SIZE" by (simp add: SMP_CHUNK_SIZE_def)
  from serial_download_returns[OF a p(3,1) op _ r len, of "\<lambda>_. 2"] have
    "\<exists>s3 w3. dispatch_command smp_demo_card smp_demo_download smp_demo_session ([7, 8], 0) =
       Some (smp_frame 1 SMP_ST_OK ([0] @ wr_u32le 2 @ wr_u16le 1 @ wr_u32le (crc32_buf [7, 8])), s3, w3) \<and>
       (\<exists>s4 w4. smp_serve smp_demo_card [dl_payload 2 0] s3 w3 = Some ([dl_answer 2 0 [7, 8]], s4, w4))"
    by (simp add: p(2) del: smp_serve.simps) blast
  then show ?thesis by blast
qed

text \<open>A command without a session, and a request for one that nobody answers.\<close>

lemma serial_needs_consent_witness:
  "\<exists>s. smp_run smp_demo_env (serial_mgr_set_rtc None smp_boot, ([1], 0))
     [Ev_Payload (chunk_payload 1 0 [7]), Ev_Payload [2, SMP_CMD_SESSION_START, 0, 1]] (s, ([1], 0)) \<and>
     sm_consent_state s = CONSENT_PENDING \<and> \<not> sm_session_active s"
proof -
  let ?s0 = "serial_mgr_set_rtc None smp_boot"
  let ?s1 = "?s0\<lparr> sm_consent_cursor := 1, sm_consent_state := CONSENT_PENDING, sm_rx := Rx_Wait_Session 2 \<rparr>"
  let ?evs = "[Ev_Payload (chunk_payload 1 0 [7]), Ev_Payload [2, SMP_CMD_SESSION_START, 0, 1]]"
  have d1: "dispatch_command smp_demo_env (chunk_payload 1 0 [7]) ?s0 ([1], 0) = Some (smp_frame 1 SMP_ST_ERR_NO_SESSION [], ?s0, ([1], 0))"
    by (simp add: dispatch_command_def chunk_payload_def wr_u16le_def smp_cmds serial_mgr_set_rtc_def smp_boot_def err_def Let_def)
  have d2: "dispatch_command smp_demo_env [2, SMP_CMD_SESSION_START, 0, 1] ?s0 ([1], 0) = Some ([], ?s1, ([1], 0))"
    by (simp add: dispatch_command_def smp_cmds serial_mgr_set_rtc_def smp_boot_def handle_session_start_def smp_demo_env_def SMP_PROTO_VERSION_def Let_def)
  have r: "sm_rx ?s0 = Rx_Reading" by (simp add: serial_mgr_set_rtc_def smp_boot_def)
  have "smp_run smp_demo_env (?s0, ([1], 0)) (([] @ [Ev_Payload (chunk_payload 1 0 [7])]) @ [Ev_Payload [2, SMP_CMD_SESSION_START, 0, 1]]) (?s1, ([1], 0))"
    by (rule run_step[OF run_step[OF run_nil step_payload[OF r d1]] step_payload[OF r d2]])
  then have run: "smp_run smp_demo_env (?s0, ([1], 0)) ?evs (?s1, ([1], 0))" by simp
  have "\<not> consented smp_demo_env (?s0, ([1], 0)) ?evs"
  proof
    assume "consented smp_demo_env (?s0, ([1], 0)) ?evs"
    then have "Ev_Action UI_ACTION_OK \<in> set ?evs" unfolding consented_def by (metis in_set_conv_decomp)
    then show False by simp
  qed
  from serial_needs_consent[OF run this] have "\<not> sm_session_active ?s1" by blast
  then show ?thesis using run by (intro exI[of _ ?s1]) (simp add: serial_mgr_set_rtc_def)
qed

end
