(* ===== verification/Sdk.thy ===== *)
theory Sdk
  imports VM Broker CText
begin

text \<open>
  src/jpp_sdk_bridge.c, first part: the context of a running app, binding, the
  frame, the canvas and the key queue, lazy capability consent, and the file
  operations (scoped, shared and by handle).

  The services an app is bound to (context->services and services_v2) are one
  record sv of functions, an argument of every call: what the firmware does
  behind them is outside the bridge. A service run under a broker lock is an
  exclusive operation of theory Broker over the world; a prompt also changes the
  screen and the key queue of the context, which are a record of their own
  (sdk_ui). A NULL pointer is None. The array granted_cap_ptrs holds pointers:
  one into the caller's list or one to a slot of pending_cap_strs.

  A call answers its status, the out parameter or result, the context and the
  environment (the broker's locks and the world).
\<close>

section \<open>Statuses, bounds and types\<close>

datatype sdk_status =
    SDK_OK | SDK_INVALID_ARGUMENT | SDK_INVALID_STATE | SDK_ACCESS_DENIED | SDK_TEXT_TRUNCATED
  | SDK_BROKER_ERROR | SDK_HANDLE_LIMIT | SDK_INVALID_HANDLE | SDK_BLE_CONN_LIMIT
  | SDK_INVALID_BLE_CONN | SDK_NO_DATA

datatype open_mode = OPEN_READ | OPEN_WRITE | OPEN_OTHER

datatype sdk_key =
    KEY_NONE | KEY_UP | KEY_DOWN | KEY_LEFT | KEY_RIGHT | KEY_OK | KEY_OK_LONG
  | KEY_OK_HOLD | KEY_OK_DOUBLE

definition SDK_PENDING_CAP_MAX :: nat where "SDK_PENDING_CAP_MAX = 16"
definition SDK_FRAME_LINE_CAPACITY :: nat where "SDK_FRAME_LINE_CAPACITY = 7"
definition SDK_FRAME_TEXT_MAX :: nat where "SDK_FRAME_TEXT_MAX = 64"
definition SDK_APP_ID_MAX :: nat where "SDK_APP_ID_MAX = 64"
definition SDK_PATH_MAX :: nat where "SDK_PATH_MAX = 160"
definition SDK_HANDLE_CAPACITY :: nat where "SDK_HANDLE_CAPACITY = 4"
definition SDK_HANDLE_INVALID :: nat where "SDK_HANDLE_INVALID = 255"
definition SDK_CANVAS_ROW_BYTES :: nat where "SDK_CANVAS_ROW_BYTES = 16"
definition SDK_CANVAS_ROWS :: nat where "SDK_CANVAS_ROWS = 48"
definition SDK_CANVAS_ROWS_FULL :: nat where "SDK_CANVAS_ROWS_FULL = 64"
definition SDK_BLE_CONN_CAPACITY :: nat where "SDK_BLE_CONN_CAPACITY = 2"
definition SDK_BLE_CONN_INVALID :: nat where "SDK_BLE_CONN_INVALID = 255"
definition SDK_BLE_ADDR_LEN :: nat where "SDK_BLE_ADDR_LEN = 18"
definition SDK_BLE_AD_PAYLOAD_MAX :: nat where "SDK_BLE_AD_PAYLOAD_MAX = 31"
definition SDK_ESPNOW_DATA_MAX :: nat where "SDK_ESPNOW_DATA_MAX = 250"
definition SDK_ORIGIN_MAX :: nat where "SDK_ORIGIN_MAX = 270"
definition SDK_HTTPS_BODY_MAX :: nat where "SDK_HTTPS_BODY_MAX = 2048"
definition SDK_IPC_PAYLOAD_MAX :: nat where "SDK_IPC_PAYLOAD_MAX = 512"
definition SDK_KV_KEY_MAX :: nat where "SDK_KV_KEY_MAX = 64"
definition SDK_KV_VALUE_MAX :: nat where "SDK_KV_VALUE_MAX = 256"

record sdk_handle_entry =
  he_path :: string
  he_mode :: open_mode
  he_active :: bool

record sdk_ble_conn_entry =
  bce_address :: string
  bce_active :: bool

record ble_scan_result =
  bsr_address :: string
  bsr_name :: string
  bsr_rssi :: "8 word"
  bsr_ad_data :: "8 word list"

text \<open>The screen and the key queue; None is a queue that could not be created.\<close>

record sdk_ui =
  ui_frame_lines :: "string list"
  ui_frame_line_count :: nat
  ui_frame_title_rule :: bool
  ui_canvas_fullscreen :: bool
  ui_canvas :: "8 word list list"
  ui_key_queue :: "sdk_key list option"

datatype cap_ptr = Ptr_Caller cstr | Ptr_Pending nat

record sdk_context =
  sc_app_id :: string
  sc_granted :: "cap_ptr list"
  sc_ui :: sdk_ui
  sc_handles :: "sdk_handle_entry list"
  sc_ble_conns :: "sdk_ble_conn_entry list"
  sc_ble_host_registered :: bool
  sc_close_requested :: bool
  sc_bound :: bool
  sc_wakelock_held :: bool
  sc_dummy_mode :: bool
  sc_pending_strs :: "string list"
  sc_pending_tiers :: "int list"
  sc_pending_count :: nat
  sc_ok_claim :: "8 word"

record 'w sdk_env =
  se_locks :: lock_set
  se_world :: 'w

type_synonym 'w sdk_prompt = "sdk_ui \<Rightarrow> 'w \<Rightarrow> bool \<times> sdk_ui \<times> 'w"

type_synonym sdk_bytes = "8 word list"

text \<open>The services added after v1.\<close>

record 'w sdk_services_v2 =
  s2_net_connect :: "(string \<Rightarrow> 16 word \<Rightarrow> 32 word \<Rightarrow> ('w \<times> int) exclusive_operation) option"
  s2_https_request :: "(string \<Rightarrow> string \<Rightarrow> cstr \<Rightarrow> 'w exclusive_operation) option"
  s2_origin_prompt :: "(string \<Rightarrow> 'w sdk_prompt) option"

text \<open>An operation with an out parameter runs over the world and the parameter.\<close>

record 'w sdk_services =
  sv_locks :: bool
  sv_device_status :: "'w exclusive_operation option"
  sv_read_file :: "(string \<Rightarrow> 'w exclusive_operation) option"
  sv_write_file :: "(string \<Rightarrow> string \<Rightarrow> 'w exclusive_operation) option"
  sv_list_files :: "(string \<Rightarrow> 'w exclusive_operation) option"
  sv_path_prompt :: "(string \<Rightarrow> open_mode \<Rightarrow> 'w sdk_prompt) option"
  sv_log_writer :: "(string \<Rightarrow> string \<Rightarrow> 'w \<Rightarrow> 'w) option"
  sv_rtc_reader :: "'w exclusive_operation option"
  sv_ble_scan :: "(32 word \<Rightarrow> nat \<Rightarrow> ('w \<times> ble_scan_result list) exclusive_operation) option"
  sv_ble_advertise_start :: "(sdk_bytes \<Rightarrow> 'w exclusive_operation) option"
  sv_ble_advertise_stop :: "'w exclusive_operation option"
  sv_ble_connect :: "(string \<Rightarrow> 'w exclusive_operation) option"
  sv_ble_read_char :: "(string \<Rightarrow> string \<Rightarrow> string \<Rightarrow> 'w exclusive_operation) option"
  sv_ble_write_char :: "(string \<Rightarrow> string \<Rightarrow> string \<Rightarrow> string \<Rightarrow> 'w exclusive_operation) option"
  sv_ble_disconnect :: "(string \<Rightarrow> 'w exclusive_operation) option"
  sv_ble_service_register :: "(string \<Rightarrow> 'w exclusive_operation) option"
  sv_ble_service_unregister :: "'w exclusive_operation option"
  sv_ble_host_set_value :: "(sdk_bytes \<Rightarrow> 'w \<Rightarrow> 'w) option"
  sv_ble_host_wait_write :: "(nat \<Rightarrow> 32 word \<Rightarrow> 'w \<Rightarrow> bool \<times> sdk_bytes \<times> 'w) option"
  sv_ble_host_clear :: "('w \<Rightarrow> 'w) option"
  sv_ble_set_connectable :: "(bool \<Rightarrow> 'w \<Rightarrow> 'w) option"
  sv_espnow_send :: "(sdk_bytes \<Rightarrow> sdk_bytes \<Rightarrow> 'w exclusive_operation) option"
  sv_espnow_recv :: "(nat \<Rightarrow> 32 word \<Rightarrow> ('w \<times> sdk_bytes \<times> sdk_bytes) exclusive_operation) option"
  sv_http_request :: "(string \<Rightarrow> string \<Rightarrow> cstr \<Rightarrow> 'w exclusive_operation) option"
  sv_net_bind :: "(16 word \<Rightarrow> 'w exclusive_operation) option"
  sv_net_accept :: "32 word \<Rightarrow> ('w \<times> int) exclusive_operation"
  sv_net_recv :: "int \<Rightarrow> nat \<Rightarrow> 32 word \<Rightarrow> ('w \<times> sdk_bytes) exclusive_operation"
  sv_net_send :: "int \<Rightarrow> sdk_bytes \<Rightarrow> 'w exclusive_operation"
  sv_net_close :: "int \<Rightarrow> 'w exclusive_operation"
  sv_net_close_all :: "('w \<Rightarrow> 'w) option"
  sv_delete_file :: "(string \<Rightarrow> 'w exclusive_operation) option"
  sv_module_load :: "(string \<Rightarrow> 'w \<Rightarrow> bool \<times> nat option \<times> 'w) option"
  sv_module_run :: "(nat \<Rightarrow> nat option \<Rightarrow> sdk_context \<Rightarrow> 'w \<Rightarrow> sdk_context \<times> 'w) option"
  sv_module_unload :: "(nat \<Rightarrow> 'w \<Rightarrow> 'w) option"
  sv_kv_read :: "(string \<Rightarrow> string \<Rightarrow> nat \<Rightarrow> ('w \<times> string) exclusive_operation) option"
  sv_kv_write :: "(string \<Rightarrow> string \<Rightarrow> string \<Rightarrow> 'w exclusive_operation) option"
  sv_kv_delete :: "(string \<Rightarrow> string \<Rightarrow> 'w exclusive_operation) option"
  sv_dir_list :: "(string \<Rightarrow> nat \<Rightarrow> 'w \<Rightarrow> string \<times> 'w) option"
  sv_consent_prompt :: "(string \<Rightarrow> int \<Rightarrow> 'w sdk_prompt) option"
  sv_v2 :: "'w sdk_services_v2"

section \<open>Text and paths\<close>

definition sdk_text_present :: "cstr \<Rightarrow> bool" where
  "sdk_text_present txt = (case txt of None \<Rightarrow> False | Some t \<Rightarrow> char_at t 0 \<noteq> None)"

definition strip_slashes :: "string \<Rightarrow> string" where
  "strip_slashes p = dropWhile (\<lambda>c. c = CHR ''/'') p"

definition sdk_relative_path_is_valid :: "cstr \<Rightarrow> bool" where
  "sdk_relative_path_is_valid path =
     (case path of
        None \<Rightarrow> False
      | Some p \<Rightarrow>
          if \<not> sdk_text_present path then False
          else if strip_slashes p = [] then False
          else \<not> str_has_parent_segment path)"

definition sdk_full_path_is_valid :: "cstr \<Rightarrow> bool" where
  "sdk_full_path_is_valid path =
     (case path of
        None \<Rightarrow> False
      | Some p \<Rightarrow>
          if p = [] then False
          else if take 4 p \<noteq> ''/sd/'' then False
          else if char_at p 4 = None then False
          else \<not> str_has_parent_segment path)"

text \<open>The status and the text left in the buffer (None: the buffer is not
  written).\<close>

definition sdk_copy_text :: "nat \<Rightarrow> cstr \<Rightarrow> sdk_status \<times> cstr" where
  "sdk_copy_text dest_size src =
     (case src of
        None \<Rightarrow> (SDK_INVALID_ARGUMENT, None)
      | Some s \<Rightarrow>
          if dest_size = 0 then (SDK_INVALID_ARGUMENT, None)
          else if length s \<ge> dest_size then (SDK_TEXT_TRUNCATED, Some (take (dest_size - 1) s))
          else (SDK_OK, Some s))"

definition sdk_app_id_is_valid :: "cstr \<Rightarrow> bool" where
  "sdk_app_id_is_valid app_id =
     (if \<not> str_name_valid app_id \<or> str_eq app_id (Some ''settings'') then False else True)"

definition sdk_ensure_bound :: "sdk_context option \<Rightarrow> sdk_status" where
  "sdk_ensure_bound context =
     (case context of
        None \<Rightarrow> SDK_INVALID_ARGUMENT
      | Some ctx \<Rightarrow> if sc_bound ctx then SDK_OK else SDK_INVALID_STATE)"

text \<open>The start of every call: the status of jpp_sdk_ensure_bound is returned
  unless it is OK.\<close>

definition sdk_bound_do ::
  "sdk_context option \<Rightarrow> 'r \<Rightarrow> 'w sdk_env \<Rightarrow>
   (sdk_context \<Rightarrow> sdk_status \<times> 'r \<times> sdk_context \<times> 'w sdk_env) \<Rightarrow>
   sdk_status \<times> 'r \<times> sdk_context option \<times> 'w sdk_env" where
  "sdk_bound_do context r e k =
     (if sdk_ensure_bound context \<noteq> SDK_OK then (sdk_ensure_bound context, r, context, e)
      else case k (the context) of (st, r, ctx, e) \<Rightarrow> (st, r, Some ctx, e))"

definition sdk_build_app_path :: "sdk_context \<Rightarrow> string \<Rightarrow> cstr \<Rightarrow> nat \<Rightarrow> sdk_status + string" where
  "sdk_build_app_path ctx root relative_path out_path_size =
     (if out_path_size = 0 \<or> \<not> sdk_relative_path_is_valid relative_path then Inl SDK_INVALID_ARGUMENT
      else
        let rel = strip_slashes (the relative_path);
            root_length = length root;
            app_id_length = length (sc_app_id ctx);
            relative_length = length rel
        in if root_length + 1 + app_id_length + 1 + relative_length + 1 > out_path_size
           then Inl SDK_TEXT_TRUNCATED
           else Inr (root @ ''/'' @ sc_app_id ctx @ ''/'' @ rel))"

definition sdk_build_scoped_path :: "sdk_context \<Rightarrow> cstr \<Rightarrow> nat \<Rightarrow> sdk_status + string" where
  "sdk_build_scoped_path ctx relative_path n = sdk_build_app_path ctx ''/sd/apps'' relative_path n"

definition sdk_build_shared_path :: "sdk_context \<Rightarrow> cstr \<Rightarrow> nat \<Rightarrow> sdk_status + string" where
  "sdk_build_shared_path ctx relative_path n = sdk_build_app_path ctx ''/sd/shared'' relative_path n"

section \<open>The context\<close>

definition blank_handle :: sdk_handle_entry where
  "blank_handle = \<lparr> he_path = [], he_mode = OPEN_READ, he_active = False \<rparr>"

definition blank_ble_conn :: sdk_ble_conn_entry where
  "blank_ble_conn = \<lparr> bce_address = [], bce_active = False \<rparr>"

definition blank_canvas :: "8 word list list" where
  "blank_canvas = replicate SDK_CANVAS_ROWS_FULL (replicate SDK_CANVAS_ROW_BYTES 0)"

text \<open>jpp_sdk_context_init: everything zero and a new key queue; the argument says
  whether xQueueCreate had the memory for it.\<close>

definition sdk_context_init :: "bool \<Rightarrow> sdk_context" where
  "sdk_context_init queue_made =
     \<lparr> sc_app_id = [], sc_granted = [],
       sc_ui = \<lparr> ui_frame_lines = replicate SDK_FRAME_LINE_CAPACITY [], ui_frame_line_count = 0,
                 ui_frame_title_rule = False, ui_canvas_fullscreen = False, ui_canvas = blank_canvas,
                 ui_key_queue = (if queue_made then Some [] else None) \<rparr>,
       sc_handles = replicate SDK_HANDLE_CAPACITY blank_handle,
       sc_ble_conns = replicate SDK_BLE_CONN_CAPACITY blank_ble_conn,
       sc_ble_host_registered = False, sc_close_requested = False, sc_bound = False,
       sc_wakelock_held = False, sc_dummy_mode = False,
       sc_pending_strs = replicate SDK_PENDING_CAP_MAX [],
       sc_pending_tiers = replicate SDK_PENDING_CAP_MAX 0,
       sc_pending_count = 0, sc_ok_claim = 0 \<rparr>"

text \<open>The part of the two bind functions after their argument checks.\<close>

definition sdk_bind_app :: "bool \<Rightarrow> string \<Rightarrow> broker_caller \<Rightarrow> sdk_status \<times> sdk_context" where
  "sdk_bind_app queue_made app_id caller =
     (let ctx = sdk_context_init queue_made;
          (st, t) = sdk_copy_text SDK_APP_ID_MAX (Some app_id);
          ctx = ctx\<lparr> sc_app_id := the t \<rparr>
      in if st \<noteq> SDK_OK then (SDK_TEXT_TRUNCATED, ctx)
         else (SDK_OK,
               ctx\<lparr> sc_granted := map Ptr_Caller (take SDK_PENDING_CAP_MAX (bc_capabilities caller)),
                    sc_bound := True \<rparr>))"

definition sdk_bind ::
  "bool \<Rightarrow> vm_context option \<Rightarrow> cstr \<Rightarrow> cstr \<Rightarrow> broker_caller option \<Rightarrow> 'w sdk_services option \<Rightarrow>
   sdk_context option \<Rightarrow> sdk_status \<times> sdk_context option" where
  "sdk_bind queue_made vm_context task_name app_id caller services context =
     (if context = None \<or> vm_context = None \<or> caller = None \<or> Option.is_none services
      then (SDK_INVALID_ARGUMENT, context)
      else if \<not> vm_task_can_touch_python_objects vm_context task_name
      then (SDK_ACCESS_DENIED, context)
      else if \<not> sdk_app_id_is_valid app_id then (SDK_INVALID_ARGUMENT, context)
      else (let (st, ctx) = sdk_bind_app queue_made (the app_id) (the caller) in (st, Some ctx)))"

definition sdk_bind_native ::
  "bool \<Rightarrow> cstr \<Rightarrow> broker_caller option \<Rightarrow> 'w sdk_services option \<Rightarrow>
   sdk_context option \<Rightarrow> sdk_status \<times> sdk_context option" where
  "sdk_bind_native queue_made app_id caller services context =
     (if context = None \<or> caller = None \<or> Option.is_none services then (SDK_INVALID_ARGUMENT, context)
      else if \<not> sdk_app_id_is_valid app_id then (SDK_INVALID_ARGUMENT, context)
      else (let (st, ctx) = sdk_bind_app queue_made (the app_id) (the caller) in (st, Some ctx)))"

section \<open>Frame, canvas and keys\<close>

definition pad_lines :: "string list \<Rightarrow> string list" where
  "pad_lines ls = ls @ replicate (SDK_FRAME_LINE_CAPACITY - length ls) []"

text \<open>The body of jpp_sdk_set_frame on a bound context: lines are the first
  line_count lines of the array.\<close>

definition sdk_put_frame :: "cstr list \<Rightarrow> sdk_ui \<Rightarrow> sdk_status \<times> sdk_ui" where
  "sdk_put_frame lines ui =
     (let copies = map (\<lambda>l. sdk_copy_text SDK_FRAME_TEXT_MAX (Some (case l of None \<Rightarrow> [] | Some t \<Rightarrow> t)))
                     (take SDK_FRAME_LINE_CAPACITY lines);
          ui = ui\<lparr> ui_frame_title_rule := False, ui_canvas_fullscreen := False,
                   ui_canvas := blank_canvas,
                   ui_frame_lines := pad_lines (map (\<lambda>c. the (snd c)) copies),
                   ui_frame_line_count := min (length lines) SDK_FRAME_LINE_CAPACITY \<rparr>
      in (if list_ex (\<lambda>c. fst c = SDK_TEXT_TRUNCATED) copies \<or> length lines > SDK_FRAME_LINE_CAPACITY
          then SDK_TEXT_TRUNCATED else SDK_OK, ui))"

definition sdk_set_frame ::
  "sdk_context option \<Rightarrow> cstr list option \<Rightarrow> nat \<Rightarrow> sdk_status \<times> sdk_context option" where
  "sdk_set_frame context lines line_count =
     (if sdk_ensure_bound context \<noteq> SDK_OK \<or> (line_count > 0 \<and> lines = None)
      then (SDK_INVALID_ARGUMENT, context)
      else
        let ctx = the context;
            ls = (case lines of None \<Rightarrow> [] | Some l \<Rightarrow> take line_count l);
            (st, ui) = sdk_put_frame ls (sc_ui ctx)
        in (st, Some (ctx\<lparr> sc_ui := ui \<rparr>)))"

definition sdk_canvas_row_limit :: "sdk_context \<Rightarrow> nat" where
  "sdk_canvas_row_limit ctx =
     (if ui_canvas_fullscreen (sc_ui ctx) then SDK_CANVAS_ROWS_FULL else SDK_CANVAS_ROWS)"

definition sdk_canvas_write ::
  "sdk_context option \<Rightarrow> nat \<Rightarrow> sdk_bytes option \<Rightarrow> sdk_status \<times> sdk_context option" where
  "sdk_canvas_write context row pixels =
     (if sdk_ensure_bound context \<noteq> SDK_OK then (sdk_ensure_bound context, context)
      else
        let ctx = the context
        in if pixels = None \<or> row \<ge> sdk_canvas_row_limit ctx then (SDK_INVALID_ARGUMENT, context)
           else (SDK_OK,
             Some (ctx\<lparr> sc_ui := (sc_ui ctx)\<lparr> ui_canvas :=
               (ui_canvas (sc_ui ctx))[row := take SDK_CANVAS_ROW_BYTES (the pixels)] \<rparr> \<rparr>)))"

definition sdk_canvas_clear :: "sdk_context option \<Rightarrow> sdk_status \<times> sdk_context option" where
  "sdk_canvas_clear context =
     (if sdk_ensure_bound context \<noteq> SDK_OK then (sdk_ensure_bound context, context)
      else let ctx = the context
           in (SDK_OK, Some (ctx\<lparr> sc_ui := (sc_ui ctx)\<lparr> ui_canvas := blank_canvas \<rparr> \<rparr>)))"

definition sdk_canvas_draw_pixel ::
  "sdk_context option \<Rightarrow> nat \<Rightarrow> nat \<Rightarrow> bool \<Rightarrow> sdk_status \<times> sdk_context option" where
  "sdk_canvas_draw_pixel context x y on =
     (if sdk_ensure_bound context \<noteq> SDK_OK then (sdk_ensure_bound context, context)
      else
        let ctx = the context
        in if x \<ge> 128 \<or> y \<ge> sdk_canvas_row_limit ctx then (SDK_INVALID_ARGUMENT, context)
           else
             let canvas = ui_canvas (sc_ui ctx);
                 byte = canvas ! y ! (x div 8);
                 pbit = drop_bit (x mod 8) (0x80 :: 8 word);
                 byte = (if on then or byte pbit else and byte (not pbit))
             in (SDK_OK,
                 Some (ctx\<lparr> sc_ui := (sc_ui ctx)\<lparr> ui_canvas :=
                   canvas[y := (canvas ! y)[x div 8 := byte]] \<rparr> \<rparr>)))"

text \<open>The body of jpp_sdk_canvas_fullscreen on the screen of a bound context.\<close>

definition put_fullscreen :: "bool \<Rightarrow> sdk_ui \<Rightarrow> sdk_ui" where
  "put_fullscreen on ui =
     (if ui_canvas_fullscreen ui = on then ui
      else
        let ui = ui\<lparr> ui_canvas_fullscreen := on, ui_canvas := blank_canvas \<rparr>
        in if on then ui\<lparr> ui_frame_lines := replicate SDK_FRAME_LINE_CAPACITY [],
                          ui_frame_line_count := 0, ui_frame_title_rule := False \<rparr>
           else ui)"

definition sdk_canvas_fullscreen :: "sdk_context option \<Rightarrow> bool \<Rightarrow> sdk_status \<times> sdk_context option" where
  "sdk_canvas_fullscreen context on =
     (if sdk_ensure_bound context \<noteq> SDK_OK then (sdk_ensure_bound context, context)
      else let ctx = the context in (SDK_OK, Some (ctx\<lparr> sc_ui := put_fullscreen on (sc_ui ctx) \<rparr>)))"

text \<open>xQueueReceive: the oldest event, or, when the queue is empty, the event that
  arrives before the time is up (None: none does, and the event stays KEY_NONE).\<close>

definition queue_receive :: "sdk_key list \<Rightarrow> sdk_key option \<Rightarrow> sdk_key \<times> sdk_key list" where
  "queue_receive q arrival =
     (case q of
        ev # rest \<Rightarrow> (ev, rest)
      | [] \<Rightarrow> (case arrival of None \<Rightarrow> (KEY_NONE, []) | Some ev \<Rightarrow> (ev, [])))"

definition sdk_poll_key ::
  "sdk_context option \<Rightarrow> sdk_key option \<Rightarrow> sdk_status \<times> sdk_key option \<times> sdk_context option" where
  "sdk_poll_key context out_event =
     (if sdk_ensure_bound context \<noteq> SDK_OK then (sdk_ensure_bound context, out_event, context)
      else if out_event = None then (SDK_INVALID_ARGUMENT, out_event, context)
      else
        let ctx = the context
        in case ui_key_queue (sc_ui ctx) of
             None \<Rightarrow> (SDK_INVALID_STATE, Some KEY_NONE, context)
           | Some q \<Rightarrow>
               (let (ev, q) = queue_receive q None
                in (SDK_OK, Some ev, Some (ctx\<lparr> sc_ui := (sc_ui ctx)\<lparr> ui_key_queue := Some q \<rparr> \<rparr>))))"

text \<open>The time-out is in the arrival: with timeout_ms = 0 the call waits until an
  event arrives, so the arrival is never None then.\<close>

definition sdk_wait_key ::
  "sdk_context option \<Rightarrow> sdk_key option \<Rightarrow> sdk_key option \<Rightarrow>
   sdk_status \<times> sdk_key option \<times> sdk_context option" where
  "sdk_wait_key context arrival out_event =
     (if sdk_ensure_bound context \<noteq> SDK_OK then (sdk_ensure_bound context, out_event, context)
      else if out_event = None then (SDK_INVALID_ARGUMENT, out_event, context)
      else
        let ctx = the context
        in case ui_key_queue (sc_ui ctx) of
             None \<Rightarrow> (SDK_INVALID_STATE, Some KEY_NONE, context)
           | Some q \<Rightarrow>
               (let (ev, q) = queue_receive q arrival
                in (SDK_OK, Some ev, Some (ctx\<lparr> sc_ui := (sc_ui ctx)\<lparr> ui_key_queue := Some q \<rparr> \<rparr>))))"

definition SDK_KEY_QUEUE_LENGTH :: nat where "SDK_KEY_QUEUE_LENGTH = 8"

definition sdk_push_key :: "sdk_context option \<Rightarrow> sdk_key \<Rightarrow> sdk_context option" where
  "sdk_push_key context event =
     (case context of
        None \<Rightarrow> None
      | Some ctx \<Rightarrow>
          (case ui_key_queue (sc_ui ctx) of
             None \<Rightarrow> context
           | Some q \<Rightarrow>
               if length q < SDK_KEY_QUEUE_LENGTH
               then Some (ctx\<lparr> sc_ui := (sc_ui ctx)\<lparr> ui_key_queue := Some (q @ [event]) \<rparr> \<rparr>)
               else context))"

definition sdk_claim_ok :: "sdk_context option \<Rightarrow> 8 word \<Rightarrow> sdk_status \<times> sdk_context option" where
  "sdk_claim_ok context claim =
     (if sdk_ensure_bound context \<noteq> SDK_OK then (sdk_ensure_bound context, context)
      else if and claim (not (or 1 2)) \<noteq> 0 then (SDK_INVALID_ARGUMENT, context)
      else (SDK_OK, Some ((the context)\<lparr> sc_ok_claim := claim \<rparr>)))"

definition sdk_claim_center :: "sdk_context option \<Rightarrow> 8 word \<Rightarrow> sdk_status \<times> sdk_context option" where
  "sdk_claim_center context claim = sdk_claim_ok context claim"

definition sdk_request_close :: "sdk_context option \<Rightarrow> sdk_status \<times> sdk_context option" where
  "sdk_request_close context =
     (if sdk_ensure_bound context \<noteq> SDK_OK then (sdk_ensure_bound context, context)
      else (SDK_OK, Some ((the context)\<lparr> sc_close_requested := True \<rparr>)))"

definition sdk_wakelock_acquire :: "sdk_context option \<Rightarrow> sdk_status \<times> sdk_context option" where
  "sdk_wakelock_acquire context =
     (if sdk_ensure_bound context \<noteq> SDK_OK then (sdk_ensure_bound context, context)
      else (SDK_OK, Some ((the context)\<lparr> sc_wakelock_held := True \<rparr>)))"

definition sdk_wakelock_release :: "sdk_context option \<Rightarrow> sdk_status \<times> sdk_context option" where
  "sdk_wakelock_release context =
     (if sdk_ensure_bound context \<noteq> SDK_OK then (sdk_ensure_bound context, context)
      else (SDK_OK, Some ((the context)\<lparr> sc_wakelock_held := False \<rparr>)))"

definition sdk_is_dummy_mode :: "sdk_context option \<Rightarrow> bool" where
  "sdk_is_dummy_mode context = (case context of None \<Rightarrow> False | Some ctx \<Rightarrow> sc_dummy_mode ctx)"

definition sdk_status_name :: "sdk_status \<Rightarrow> string" where
  "sdk_status_name st =
     (case st of
        SDK_OK \<Rightarrow> ''OK'' | SDK_INVALID_ARGUMENT \<Rightarrow> ''INVALID_ARGUMENT''
      | SDK_INVALID_STATE \<Rightarrow> ''INVALID_STATE'' | SDK_ACCESS_DENIED \<Rightarrow> ''ACCESS_DENIED''
      | SDK_TEXT_TRUNCATED \<Rightarrow> ''TEXT_TRUNCATED'' | SDK_BROKER_ERROR \<Rightarrow> ''BROKER_ERROR''
      | SDK_HANDLE_LIMIT \<Rightarrow> ''HANDLE_LIMIT'' | SDK_INVALID_HANDLE \<Rightarrow> ''INVALID_HANDLE''
      | SDK_BLE_CONN_LIMIT \<Rightarrow> ''BLE_CONN_LIMIT'' | SDK_INVALID_BLE_CONN \<Rightarrow> ''INVALID_BLE_CONN''
      | SDK_NO_DATA \<Rightarrow> ''NO_DATA'')"

section \<open>Capabilities\<close>

text \<open>The string a granted pointer points to, and the caller as the broker sees
  it.\<close>

definition cap_text :: "sdk_context \<Rightarrow> cap_ptr \<Rightarrow> cstr" where
  "cap_text ctx p =
     (case p of Ptr_Caller s \<Rightarrow> s | Ptr_Pending i \<Rightarrow> Some (sc_pending_strs ctx ! i))"

definition sdk_caller :: "sdk_context \<Rightarrow> broker_caller" where
  "sdk_caller ctx = \<lparr> bc_capabilities = map (cap_text ctx) (sc_granted ctx) \<rparr>"

text \<open>The array caps as the list of its first count strings, with their tiers.\<close>

definition sdk_set_pending_caps ::
  "(string \<times> int) list \<Rightarrow> sdk_context option \<Rightarrow> sdk_context option" where
  "sdk_set_pending_caps caps context =
     (case context of
        None \<Rightarrow> None
      | Some ctx \<Rightarrow>
          if caps = [] then context
          else
            let n = min (length caps) SDK_PENDING_CAP_MAX
            in Some (ctx\<lparr>
                 sc_pending_strs := map (\<lambda>c. take 31 (fst c)) (take n caps) @ drop n (sc_pending_strs ctx),
                 sc_pending_tiers := map snd (take n caps) @ drop n (sc_pending_tiers ctx),
                 sc_pending_count := n \<rparr>))"

text \<open>The index of the pending slot that holds the capability.\<close>

definition find_pending :: "sdk_context \<Rightarrow> string \<Rightarrow> nat option" where
  "find_pending ctx cap = find (\<lambda>i. sc_pending_strs ctx ! i = cap) [0..<sc_pending_count ctx]"

definition run_prompt :: "'w sdk_prompt \<Rightarrow> sdk_context \<Rightarrow> 'w sdk_env \<Rightarrow> bool \<times> sdk_context \<times> 'w sdk_env" where
  "run_prompt p ctx e =
     (case p (sc_ui ctx) (se_world e) of
        (b, ui, w) \<Rightarrow> (b, ctx\<lparr> sc_ui := ui \<rparr>, e\<lparr> se_world := w \<rparr>))"

definition sdk_ensure_cap ::
  "'w sdk_services \<Rightarrow> sdk_context \<Rightarrow> string \<Rightarrow> 'w sdk_env \<Rightarrow> sdk_status \<times> sdk_context \<times> 'w sdk_env" where
  "sdk_ensure_cap sv ctx cap e =
     (if broker_caller_has_capability (Some (sdk_caller ctx)) (Some cap) then (SDK_OK, ctx, e)
      else
        (case find_pending ctx cap of
           None \<Rightarrow> (SDK_ACCESS_DENIED, ctx, e)
         | Some i \<Rightarrow>
             (let (granted, ctx, e) =
                (case sv_consent_prompt sv of
                   None \<Rightarrow> (False, ctx, e)
                 | Some prompt \<Rightarrow> run_prompt (prompt cap (sc_pending_tiers ctx ! i)) ctx e)
              in if granted then
                   (let n = length (sc_granted ctx)
                    in if n < SDK_PENDING_CAP_MAX
                       then (SDK_OK, ctx\<lparr> sc_granted := sc_granted ctx @ [Ptr_Pending i] \<rparr>, e)
                       else (SDK_ACCESS_DENIED, ctx, e))
                 else (SDK_ACCESS_DENIED, ctx, e))))"

definition sdk_request_cap ::
  "'w sdk_services \<Rightarrow> sdk_context option \<Rightarrow> cstr \<Rightarrow> 'w sdk_env \<Rightarrow>
   sdk_status \<times> unit \<times> sdk_context option \<times> 'w sdk_env" where
  "sdk_request_cap sv context cap e =
     sdk_bound_do context () e (\<lambda>ctx.
       if cap = None \<or> char_at (the cap) 0 = None then (SDK_INVALID_ARGUMENT, (), ctx, e)
       else (case sdk_ensure_cap sv ctx (the cap) e of (st, ctx, e) \<Rightarrow> (st, (), ctx, e)))"

text \<open>The result of a refused capability.\<close>

definition access_denied :: "broker_result option \<Rightarrow> broker_result option" where
  "access_denied result = snd (broker_error_result result (Some ''ACCESS_DENIED''))"

section \<open>Broker runs\<close>

text \<open>A broker run on the environment; with an out parameter, and without. The last
  line of most calls: a broker status other than OK is BROKER_ERROR.\<close>

definition run_exclusive_out ::
  "string \<Rightarrow> ('w \<times> 'o) exclusive_operation \<Rightarrow> broker_result \<Rightarrow> 'o \<Rightarrow> 'w sdk_env \<Rightarrow>
   broker_status \<times> broker_result \<times> 'o \<times> 'w sdk_env" where
  "run_exclusive_out resource op result out e =
     (case broker_run_exclusive (Some (se_locks e)) (Some resource) (Some op) (Some result) (se_world e, out) of
        (st, r, ls, (w, out)) \<Rightarrow> (st, the r, out, \<lparr> se_locks = the ls, se_world = w \<rparr>))"

definition run_exclusive ::
  "string \<Rightarrow> 'w exclusive_operation \<Rightarrow> broker_result \<Rightarrow> 'w sdk_env \<Rightarrow>
   broker_status \<times> broker_result \<times> 'w sdk_env" where
  "run_exclusive resource op result e =
     (case broker_run_exclusive (Some (se_locks e)) (Some resource) (Some op) (Some result) (se_world e) of
        (st, r, ls, w) \<Rightarrow> (st, the r, \<lparr> se_locks = the ls, se_world = w \<rparr>))"

definition of_broker :: "broker_status \<Rightarrow> sdk_status" where
  "of_broker st = (if st = BROKER_OK then SDK_OK else SDK_BROKER_ERROR)"

definition finish_run ::
  "string \<Rightarrow> 'w exclusive_operation \<Rightarrow> broker_result \<Rightarrow> sdk_context \<Rightarrow> 'w sdk_env \<Rightarrow>
   sdk_status \<times> broker_result option \<times> sdk_context \<times> 'w sdk_env" where
  "finish_run resource op result ctx e =
     (case run_exclusive resource op result e of (st, r, e) \<Rightarrow> (of_broker st, Some r, ctx, e))"

text \<open>The capability check of an operation with a result; no capability is no
  check.\<close>

definition ensure_cap_opt ::
  "'w sdk_services \<Rightarrow> sdk_context \<Rightarrow> cstr \<Rightarrow> 'w sdk_env \<Rightarrow> sdk_status \<times> sdk_context \<times> 'w sdk_env" where
  "ensure_cap_opt sv ctx capability e =
     (case capability of None \<Rightarrow> (SDK_OK, ctx, e) | Some cap \<Rightarrow> sdk_ensure_cap sv ctx cap e)"

text \<open>From the capability check on, what all operations with a result and no other
  out parameter do.\<close>

definition gated_run ::
  "'w sdk_services \<Rightarrow> cstr \<Rightarrow> string \<Rightarrow> 'w exclusive_operation \<Rightarrow> broker_result \<Rightarrow> sdk_context \<Rightarrow>
   'w sdk_env \<Rightarrow> sdk_status \<times> broker_result option \<times> sdk_context \<times> 'w sdk_env" where
  "gated_run sv capability resource op result ctx e =
     (case ensure_cap_opt sv ctx capability e of
        (cap_st, ctx, e) \<Rightarrow>
          if cap_st \<noteq> SDK_OK then (cap_st, access_denied (Some result), ctx, e)
          else finish_run resource op result ctx e)"

definition sdk_device_status ::
  "'w sdk_services \<Rightarrow> sdk_context option \<Rightarrow> broker_result option \<Rightarrow> 'w sdk_env \<Rightarrow>
   sdk_status \<times> broker_result option \<times> sdk_context option \<times> 'w sdk_env" where
  "sdk_device_status sv context result e =
     sdk_bound_do context result e (\<lambda>ctx.
       case result of
         None \<Rightarrow> (SDK_INVALID_ARGUMENT, result, ctx, e)
       | Some r \<Rightarrow>
           (case (sv_locks sv, sv_device_status sv) of
              (True, Some op) \<Rightarrow> finish_run ''device'' op r ctx e
            | _ \<Rightarrow> (SDK_INVALID_STATE, result, ctx, e)))"

definition sdk_get_time ::
  "'w sdk_services \<Rightarrow> sdk_context option \<Rightarrow> broker_result option \<Rightarrow> 'w sdk_env \<Rightarrow>
   sdk_status \<times> broker_result option \<times> sdk_context option \<times> 'w sdk_env" where
  "sdk_get_time sv context result e =
     sdk_bound_do context result e (\<lambda>ctx.
       case result of
         None \<Rightarrow> (SDK_INVALID_ARGUMENT, result, ctx, e)
       | Some r \<Rightarrow>
           (case (sv_locks sv, sv_rtc_reader sv) of
              (True, Some op) \<Rightarrow> finish_run ''device'' op r ctx e
            | _ \<Rightarrow> (SDK_INVALID_STATE, result, ctx, e)))"

definition sdk_log ::
  "'w sdk_services \<Rightarrow> sdk_context option \<Rightarrow> cstr \<Rightarrow> 'w sdk_env \<Rightarrow>
   sdk_status \<times> unit \<times> sdk_context option \<times> 'w sdk_env" where
  "sdk_log sv context event_name e =
     sdk_bound_do context () e (\<lambda>ctx.
       if \<not> sdk_text_present event_name then (SDK_INVALID_ARGUMENT, (), ctx, e)
       else (SDK_OK, (), ctx,
             (case sv_log_writer sv of
                None \<Rightarrow> e
              | Some wr \<Rightarrow> e\<lparr> se_world := wr (sc_app_id ctx) (the event_name) (se_world e) \<rparr>)))"

section \<open>Files\<close>

definition sdk_do_read ::
  "'w sdk_services \<Rightarrow> sdk_context \<Rightarrow> string \<Rightarrow> cstr \<Rightarrow> broker_result option \<Rightarrow> 'w sdk_env \<Rightarrow>
   sdk_status \<times> broker_result option \<times> sdk_context \<times> 'w sdk_env" where
  "sdk_do_read sv ctx logical_path capability result e =
     (case result of
        None \<Rightarrow> (SDK_INVALID_ARGUMENT, result, ctx, e)
      | Some r \<Rightarrow>
          (case (sv_locks sv, sv_read_file sv) of
             (True, Some reader) \<Rightarrow> gated_run sv capability ''storage'' (reader logical_path) r ctx e
           | _ \<Rightarrow> (SDK_INVALID_STATE, result, ctx, e)))"

definition sdk_do_write ::
  "'w sdk_services \<Rightarrow> sdk_context \<Rightarrow> string \<Rightarrow> cstr \<Rightarrow> cstr \<Rightarrow> broker_result option \<Rightarrow> 'w sdk_env \<Rightarrow>
   sdk_status \<times> broker_result option \<times> sdk_context \<times> 'w sdk_env" where
  "sdk_do_write sv ctx logical_path content capability result e =
     (case (result, content) of
        (Some r, Some t) \<Rightarrow>
          (case (sv_locks sv, sv_write_file sv) of
             (True, Some writer) \<Rightarrow> gated_run sv capability ''storage'' (writer logical_path t) r ctx e
           | _ \<Rightarrow> (SDK_INVALID_STATE, result, ctx, e))
      | _ \<Rightarrow> (SDK_INVALID_ARGUMENT, result, ctx, e))"

definition sdk_do_list ::
  "'w sdk_services \<Rightarrow> sdk_context \<Rightarrow> string \<Rightarrow> cstr \<Rightarrow> broker_result option \<Rightarrow> 'w sdk_env \<Rightarrow>
   sdk_status \<times> broker_result option \<times> sdk_context \<times> 'w sdk_env" where
  "sdk_do_list sv ctx logical_path capability result e =
     (case result of
        None \<Rightarrow> (SDK_INVALID_ARGUMENT, result, ctx, e)
      | Some r \<Rightarrow>
          (case (sv_locks sv, sv_list_files sv) of
             (True, Some lister) \<Rightarrow> gated_run sv capability ''storage'' (lister logical_path) r ctx e
           | _ \<Rightarrow> (SDK_INVALID_STATE, result, ctx, e)))"

definition sdk_file_read ::
  "'w sdk_services \<Rightarrow> sdk_context option \<Rightarrow> cstr \<Rightarrow> broker_result option \<Rightarrow> 'w sdk_env \<Rightarrow>
   sdk_status \<times> broker_result option \<times> sdk_context option \<times> 'w sdk_env" where
  "sdk_file_read sv context relative_path result e =
     sdk_bound_do context result e (\<lambda>ctx.
       case sdk_build_scoped_path ctx relative_path SDK_PATH_MAX of
         Inl st \<Rightarrow> (st, result, ctx, e)
       | Inr path \<Rightarrow> sdk_do_read sv ctx path None result e)"

definition sdk_file_write ::
  "'w sdk_services \<Rightarrow> sdk_context option \<Rightarrow> cstr \<Rightarrow> cstr \<Rightarrow> broker_result option \<Rightarrow> 'w sdk_env \<Rightarrow>
   sdk_status \<times> broker_result option \<times> sdk_context option \<times> 'w sdk_env" where
  "sdk_file_write sv context relative_path content result e =
     sdk_bound_do context result e (\<lambda>ctx.
       case sdk_build_scoped_path ctx relative_path SDK_PATH_MAX of
         Inl st \<Rightarrow> (st, result, ctx, e)
       | Inr path \<Rightarrow> sdk_do_write sv ctx path content None result e)"

definition dir_or_dot :: "cstr \<Rightarrow> cstr" where
  "dir_or_dot d = (if d = None \<or> char_at (the d) 0 = None then Some ''.'' else d)"

definition sdk_file_list ::
  "'w sdk_services \<Rightarrow> sdk_context option \<Rightarrow> cstr \<Rightarrow> broker_result option \<Rightarrow> 'w sdk_env \<Rightarrow>
   sdk_status \<times> broker_result option \<times> sdk_context option \<times> 'w sdk_env" where
  "sdk_file_list sv context relative_dir result e =
     sdk_bound_do context result e (\<lambda>ctx.
       case sdk_build_scoped_path ctx (dir_or_dot relative_dir) SDK_PATH_MAX of
         Inl st \<Rightarrow> (st, result, ctx, e)
       | Inr path \<Rightarrow> sdk_do_list sv ctx path None result e)"

definition sdk_shared_read ::
  "'w sdk_services \<Rightarrow> sdk_context option \<Rightarrow> cstr \<Rightarrow> broker_result option \<Rightarrow> 'w sdk_env \<Rightarrow>
   sdk_status \<times> broker_result option \<times> sdk_context option \<times> 'w sdk_env" where
  "sdk_shared_read sv context relative_path result e =
     sdk_bound_do context result e (\<lambda>ctx.
       case sdk_build_shared_path ctx relative_path SDK_PATH_MAX of
         Inl st \<Rightarrow> (st, result, ctx, e)
       | Inr path \<Rightarrow> sdk_do_read sv ctx path None result e)"

definition sdk_shared_write ::
  "'w sdk_services \<Rightarrow> sdk_context option \<Rightarrow> cstr \<Rightarrow> cstr \<Rightarrow> broker_result option \<Rightarrow> 'w sdk_env \<Rightarrow>
   sdk_status \<times> broker_result option \<times> sdk_context option \<times> 'w sdk_env" where
  "sdk_shared_write sv context relative_path content result e =
     sdk_bound_do context result e (\<lambda>ctx.
       case sdk_build_shared_path ctx relative_path SDK_PATH_MAX of
         Inl st \<Rightarrow> (st, result, ctx, e)
       | Inr path \<Rightarrow> sdk_do_write sv ctx path content None result e)"

definition sdk_shared_list ::
  "'w sdk_services \<Rightarrow> sdk_context option \<Rightarrow> cstr \<Rightarrow> broker_result option \<Rightarrow> 'w sdk_env \<Rightarrow>
   sdk_status \<times> broker_result option \<times> sdk_context option \<times> 'w sdk_env" where
  "sdk_shared_list sv context relative_dir result e =
     sdk_bound_do context result e (\<lambda>ctx.
       case sdk_build_shared_path ctx (dir_or_dot relative_dir) SDK_PATH_MAX of
         Inl st \<Rightarrow> (st, result, ctx, e)
       | Inr path \<Rightarrow> sdk_do_list sv ctx path None result e)"

section \<open>File handles\<close>

definition sdk_find_free_handle :: "sdk_context \<Rightarrow> nat" where
  "sdk_find_free_handle ctx =
     (case find (\<lambda>i. \<not> he_active (sc_handles ctx ! i)) [0..<SDK_HANDLE_CAPACITY] of
        Some i \<Rightarrow> i | None \<Rightarrow> SDK_HANDLE_INVALID)"

definition sdk_resolve_handle :: "sdk_context \<Rightarrow> nat \<Rightarrow> sdk_handle_entry option" where
  "sdk_resolve_handle ctx handle =
     (if handle \<ge> SDK_HANDLE_CAPACITY then None
      else if \<not> he_active (sc_handles ctx ! handle) then None
      else Some (sc_handles ctx ! handle))"

definition sdk_file_open ::
  "'w sdk_services \<Rightarrow> sdk_context option \<Rightarrow> cstr \<Rightarrow> open_mode \<Rightarrow> nat option \<Rightarrow> 'w sdk_env \<Rightarrow>
   sdk_status \<times> nat option \<times> sdk_context option \<times> 'w sdk_env" where
  "sdk_file_open sv context path mode out_handle e =
     sdk_bound_do context out_handle e (\<lambda>ctx.
       if out_handle = None then (SDK_INVALID_ARGUMENT, out_handle, ctx, e)
       else if \<not> sdk_full_path_is_valid path then (SDK_INVALID_ARGUMENT, out_handle, ctx, e)
       else if mode \<noteq> OPEN_READ \<and> mode \<noteq> OPEN_WRITE then (SDK_INVALID_ARGUMENT, out_handle, ctx, e)
       else
         (case sv_path_prompt sv of
            None \<Rightarrow> (SDK_INVALID_STATE, out_handle, ctx, e)
          | Some prompt \<Rightarrow>
              (case sdk_ensure_cap sv ctx ''files.full'' e of
                 (cap_st, ctx, e) \<Rightarrow>
                   if cap_st \<noteq> SDK_OK then (cap_st, out_handle, ctx, e)
                   else
                     let slot = sdk_find_free_handle ctx
                     in if slot = SDK_HANDLE_INVALID then (SDK_HANDLE_LIMIT, out_handle, ctx, e)
                        else
                          (case run_prompt (prompt (the path) mode) ctx e of
                             (allowed, ctx, e) \<Rightarrow>
                               if \<not> allowed then (SDK_ACCESS_DENIED, out_handle, ctx, e)
                               else
                                 (SDK_OK, Some slot,
                                  ctx\<lparr> sc_handles := (sc_handles ctx)[slot :=
                                    \<lparr> he_path = the (snd (sdk_copy_text SDK_PATH_MAX path)),
                                      he_mode = mode, he_active = True \<rparr>] \<rparr>, e)))))"

definition sdk_handle_read ::
  "'w sdk_services \<Rightarrow> sdk_context option \<Rightarrow> nat \<Rightarrow> broker_result option \<Rightarrow> 'w sdk_env \<Rightarrow>
   sdk_status \<times> broker_result option \<times> sdk_context option \<times> 'w sdk_env" where
  "sdk_handle_read sv context handle result e =
     sdk_bound_do context result e (\<lambda>ctx.
       case sdk_resolve_handle ctx handle of
         None \<Rightarrow> (SDK_INVALID_HANDLE, result, ctx, e)
       | Some entry \<Rightarrow>
           if he_mode entry \<noteq> OPEN_READ then (SDK_ACCESS_DENIED, result, ctx, e)
           else sdk_do_read sv ctx (he_path entry) (Some ''files.full'') result e)"

definition sdk_handle_write ::
  "'w sdk_services \<Rightarrow> sdk_context option \<Rightarrow> nat \<Rightarrow> cstr \<Rightarrow> broker_result option \<Rightarrow> 'w sdk_env \<Rightarrow>
   sdk_status \<times> broker_result option \<times> sdk_context option \<times> 'w sdk_env" where
  "sdk_handle_write sv context handle content result e =
     sdk_bound_do context result e (\<lambda>ctx.
       case sdk_resolve_handle ctx handle of
         None \<Rightarrow> (SDK_INVALID_HANDLE, result, ctx, e)
       | Some entry \<Rightarrow>
           if he_mode entry \<noteq> OPEN_WRITE then (SDK_ACCESS_DENIED, result, ctx, e)
           else sdk_do_write sv ctx (he_path entry) content (Some ''files.full'') result e)"

definition sdk_handle_list ::
  "'w sdk_services \<Rightarrow> sdk_context option \<Rightarrow> nat \<Rightarrow> broker_result option \<Rightarrow> 'w sdk_env \<Rightarrow>
   sdk_status \<times> broker_result option \<times> sdk_context option \<times> 'w sdk_env" where
  "sdk_handle_list sv context handle result e =
     sdk_bound_do context result e (\<lambda>ctx.
       case sdk_resolve_handle ctx handle of
         None \<Rightarrow> (SDK_INVALID_HANDLE, result, ctx, e)
       | Some entry \<Rightarrow>
           if he_mode entry \<noteq> OPEN_READ then (SDK_ACCESS_DENIED, result, ctx, e)
           else sdk_do_list sv ctx (he_path entry) (Some ''files.full'') result e)"

definition sdk_handle_close :: "sdk_context option \<Rightarrow> nat \<Rightarrow> sdk_status \<times> sdk_context option" where
  "sdk_handle_close context handle =
     (if sdk_ensure_bound context \<noteq> SDK_OK then (sdk_ensure_bound context, context)
      else
        let ctx = the context
        in case sdk_resolve_handle ctx handle of
             None \<Rightarrow> (SDK_INVALID_HANDLE, context)
           | Some _ \<Rightarrow> (SDK_OK, Some (ctx\<lparr> sc_handles := (sc_handles ctx)[handle := blank_handle] \<rparr>)))"

definition sdk_background_register ::
  "'w sdk_services \<Rightarrow> sdk_context option \<Rightarrow> broker_result option \<Rightarrow> 'w sdk_env \<Rightarrow>
   sdk_status \<times> broker_result option \<times> sdk_context option \<times> 'w sdk_env" where
  "sdk_background_register sv context result e =
     sdk_bound_do context result e (\<lambda>ctx.
       if result = None then (SDK_INVALID_ARGUMENT, result, ctx, e)
       else
         (case sdk_ensure_cap sv ctx ''background.register'' e of
            (st, ctx, e) \<Rightarrow>
              if st \<noteq> SDK_OK then (st, access_denied result, ctx, e)
              else (case broker_ok_result result of
                      (bs, r) \<Rightarrow> (if bs \<noteq> BROKER_OK then SDK_BROKER_ERROR else SDK_OK, r, ctx, e))))"

end
