(* ===== verification/SdkNet.thy ===== *)
theory SdkNet
  imports Sdk
begin

text \<open>
  src/jpp_sdk_bridge.c, second part: the calls of the bridge that reach radios,
  networks, messages of other apps, code modules, the key-value store, the
  buzzer and the LED. A pointer to an out parameter is an option: None is NULL,
  Some v points to v. A local result that the code does not initialise holds
  what the argument junk says. The functions of the socket table other than
  net_bind are called without a NULL check, so they are total here.
\<close>

section \<open>Runs with an out parameter\<close>

definition gated_run_out ::
  "'w sdk_services \<Rightarrow> string \<Rightarrow> string \<Rightarrow> ('w \<times> 'o) exclusive_operation \<Rightarrow> broker_result \<Rightarrow> 'o \<Rightarrow>
   sdk_context \<Rightarrow> 'w sdk_env \<Rightarrow>
   sdk_status \<times> (broker_result option \<times> 'o) \<times> sdk_context \<times> 'w sdk_env" where
  "gated_run_out sv cap resource op result out ctx e =
     (case sdk_ensure_cap sv ctx cap e of
        (cap_st, ctx, e) \<Rightarrow>
          if cap_st \<noteq> SDK_OK then (cap_st, (access_denied (Some result), out), ctx, e)
          else (case run_exclusive_out resource op result out e of
                  (st, r, out, e) \<Rightarrow> (of_broker st, (Some r, out), ctx, e)))"

section \<open>BLE\<close>

definition sdk_find_free_ble_conn :: "sdk_context \<Rightarrow> nat" where
  "sdk_find_free_ble_conn ctx =
     (case find (\<lambda>i. \<not> bce_active (sc_ble_conns ctx ! i)) [0..<SDK_BLE_CONN_CAPACITY] of
        Some i \<Rightarrow> i | None \<Rightarrow> SDK_BLE_CONN_INVALID)"

definition sdk_resolve_ble_conn :: "sdk_context \<Rightarrow> nat \<Rightarrow> sdk_ble_conn_entry option" where
  "sdk_resolve_ble_conn ctx conn =
     (if conn \<ge> SDK_BLE_CONN_CAPACITY then None
      else if \<not> bce_active (sc_ble_conns ctx ! conn) then None
      else Some (sc_ble_conns ctx ! conn))"

text \<open>results and out_count are one list, found (None: out_count is NULL); the flag
  says that the array results is given.\<close>

definition sdk_ble_scan ::
  "'w sdk_services \<Rightarrow> sdk_context option \<Rightarrow> 32 word \<Rightarrow> bool \<Rightarrow> nat \<Rightarrow> ble_scan_result list option \<Rightarrow>
   broker_result option \<Rightarrow> 'w sdk_env \<Rightarrow>
   sdk_status \<times> (broker_result option \<times> ble_scan_result list option) \<times> sdk_context option \<times> 'w sdk_env" where
  "sdk_ble_scan sv context duration_ms results_given max_results found result e =
     sdk_bound_do context (result, found) e (\<lambda>ctx.
       case (result, found) of
         (Some r, Some f) \<Rightarrow>
           if max_results > 0 \<and> \<not> results_given then (SDK_INVALID_ARGUMENT, (result, found), ctx, e)
           else
             (case (sv_locks sv, sv_ble_scan sv) of
                (True, Some scan) \<Rightarrow>
                  (case gated_run_out sv ''ble.scan'' ''ble_radio'' (scan duration_ms max_results) r f ctx e of
                     (st, (r, f), ctx, e) \<Rightarrow> (st, (r, Some f), ctx, e))
              | _ \<Rightarrow> (SDK_INVALID_STATE, (result, found), ctx, e))
       | _ \<Rightarrow> (SDK_INVALID_ARGUMENT, (result, found), ctx, e))"

definition sdk_ble_advertise_start ::
  "'w sdk_services \<Rightarrow> sdk_context option \<Rightarrow> sdk_bytes option \<Rightarrow> nat \<Rightarrow> broker_result option \<Rightarrow> 'w sdk_env \<Rightarrow>
   sdk_status \<times> broker_result option \<times> sdk_context option \<times> 'w sdk_env" where
  "sdk_ble_advertise_start sv context payload payload_len result e =
     sdk_bound_do context result e (\<lambda>ctx.
       case result of
         None \<Rightarrow> (SDK_INVALID_ARGUMENT, result, ctx, e)
       | Some r \<Rightarrow>
           if payload_len > 0 \<and> payload = None then (SDK_INVALID_ARGUMENT, result, ctx, e)
           else if payload_len > SDK_BLE_AD_PAYLOAD_MAX then (SDK_INVALID_ARGUMENT, result, ctx, e)
           else
             (case (sv_locks sv, sv_ble_advertise_start sv) of
                (True, Some start) \<Rightarrow>
                  gated_run sv (Some ''ble.advertise'') ''ble_radio''
                    (start (case payload of None \<Rightarrow> [] | Some p \<Rightarrow> take payload_len p)) r ctx e
              | _ \<Rightarrow> (SDK_INVALID_STATE, result, ctx, e)))"

definition sdk_ble_advertise_stop ::
  "'w sdk_services \<Rightarrow> sdk_context option \<Rightarrow> broker_result option \<Rightarrow> 'w sdk_env \<Rightarrow>
   sdk_status \<times> broker_result option \<times> sdk_context option \<times> 'w sdk_env" where
  "sdk_ble_advertise_stop sv context result e =
     sdk_bound_do context result e (\<lambda>ctx.
       case result of
         None \<Rightarrow> (SDK_INVALID_ARGUMENT, result, ctx, e)
       | Some r \<Rightarrow>
           (case (sv_locks sv, sv_ble_advertise_stop sv) of
              (True, Some stop) \<Rightarrow> gated_run sv (Some ''ble.advertise'') ''ble_radio'' stop r ctx e
            | _ \<Rightarrow> (SDK_INVALID_STATE, result, ctx, e)))"

definition sdk_ble_connect ::
  "broker_result \<Rightarrow> 'w sdk_services \<Rightarrow> sdk_context option \<Rightarrow> cstr \<Rightarrow> nat option \<Rightarrow> 'w sdk_env \<Rightarrow>
   sdk_status \<times> nat option \<times> sdk_context option \<times> 'w sdk_env" where
  "sdk_ble_connect junk sv context address out_conn e =
     sdk_bound_do context out_conn e (\<lambda>ctx.
       if address = None \<or> char_at (the address) 0 = None \<or> out_conn = None
       then (SDK_INVALID_ARGUMENT, out_conn, ctx, e)
       else
         (case (sv_locks sv, sv_ble_connect sv) of
            (True, Some connect) \<Rightarrow>
              (case sdk_ensure_cap sv ctx ''ble.connect'' e of
                 (cap_st, ctx, e) \<Rightarrow>
                   if cap_st \<noteq> SDK_OK then (cap_st, out_conn, ctx, e)
                   else
                     let slot = sdk_find_free_ble_conn ctx
                     in if slot = SDK_BLE_CONN_INVALID then (SDK_BLE_CONN_LIMIT, out_conn, ctx, e)
                        else
                          (case run_exclusive ''ble_client'' (connect (the address)) junk e of
                             (bs, r, e) \<Rightarrow>
                               if bs \<noteq> BROKER_OK \<or> \<not> br_ok r then (SDK_BROKER_ERROR, out_conn, ctx, e)
                               else
                                 (SDK_OK, Some slot,
                                  ctx\<lparr> sc_ble_conns := (sc_ble_conns ctx)[slot :=
                                    \<lparr> bce_address = the (snd (sdk_copy_text SDK_BLE_ADDR_LEN address)),
                                      bce_active = True \<rparr>] \<rparr>, e)))
          | _ \<Rightarrow> (SDK_INVALID_STATE, out_conn, ctx, e)))"

definition sdk_ble_read_char ::
  "'w sdk_services \<Rightarrow> sdk_context option \<Rightarrow> nat \<Rightarrow> cstr \<Rightarrow> cstr \<Rightarrow> broker_result option \<Rightarrow> 'w sdk_env \<Rightarrow>
   sdk_status \<times> broker_result option \<times> sdk_context option \<times> 'w sdk_env" where
  "sdk_ble_read_char sv context conn svc_uuid char_uuid result e =
     sdk_bound_do context result e (\<lambda>ctx.
       case (result, svc_uuid, char_uuid) of
         (Some r, Some su, Some cu) \<Rightarrow>
           (case sdk_resolve_ble_conn ctx conn of
              None \<Rightarrow> (SDK_INVALID_BLE_CONN, result, ctx, e)
            | Some entry \<Rightarrow>
                (case (sv_locks sv, sv_ble_read_char sv) of
                   (True, Some read_char) \<Rightarrow>
                     gated_run sv (Some ''ble.connect'') ''ble_client''
                       (read_char (bce_address entry) su cu) r ctx e
                 | _ \<Rightarrow> (SDK_INVALID_STATE, result, ctx, e)))
       | _ \<Rightarrow> (SDK_INVALID_ARGUMENT, result, ctx, e))"

definition sdk_ble_write_char ::
  "'w sdk_services \<Rightarrow> sdk_context option \<Rightarrow> nat \<Rightarrow> cstr \<Rightarrow> cstr \<Rightarrow> cstr \<Rightarrow> broker_result option \<Rightarrow> 'w sdk_env \<Rightarrow>
   sdk_status \<times> broker_result option \<times> sdk_context option \<times> 'w sdk_env" where
  "sdk_ble_write_char sv context conn svc_uuid char_uuid content result e =
     sdk_bound_do context result e (\<lambda>ctx.
       case (result, svc_uuid, char_uuid, content) of
         (Some r, Some su, Some cu, Some t) \<Rightarrow>
           (case sdk_resolve_ble_conn ctx conn of
              None \<Rightarrow> (SDK_INVALID_BLE_CONN, result, ctx, e)
            | Some entry \<Rightarrow>
                (case (sv_locks sv, sv_ble_write_char sv) of
                   (True, Some write_char) \<Rightarrow>
                     gated_run sv (Some ''ble.connect'') ''ble_client''
                       (write_char (bce_address entry) su cu t) r ctx e
                 | _ \<Rightarrow> (SDK_INVALID_STATE, result, ctx, e)))
       | _ \<Rightarrow> (SDK_INVALID_ARGUMENT, result, ctx, e))"

definition sdk_ble_disconnect ::
  "broker_result \<Rightarrow> 'w sdk_services \<Rightarrow> sdk_context option \<Rightarrow> nat \<Rightarrow> 'w sdk_env \<Rightarrow>
   sdk_status \<times> unit \<times> sdk_context option \<times> 'w sdk_env" where
  "sdk_ble_disconnect junk sv context conn e =
     sdk_bound_do context () e (\<lambda>ctx.
       case sdk_resolve_ble_conn ctx conn of
         None \<Rightarrow> (SDK_INVALID_BLE_CONN, (), ctx, e)
       | Some entry \<Rightarrow>
           (case (sv_locks sv, sv_ble_disconnect sv) of
              (True, Some disconnect) \<Rightarrow>
                (case sdk_ensure_cap sv ctx ''ble.connect'' e of
                   (cap_st, ctx, e) \<Rightarrow>
                     if cap_st \<noteq> SDK_OK then (cap_st, (), ctx, e)
                     else
                       (case run_exclusive ''ble_client'' (disconnect (bce_address entry)) junk e of
                          (bs, r, e) \<Rightarrow>
                            (of_broker bs, (),
                             ctx\<lparr> sc_ble_conns := (sc_ble_conns ctx)[conn := blank_ble_conn] \<rparr>, e)))
            | _ \<Rightarrow> (SDK_INVALID_STATE, (), ctx, e)))"

definition sdk_ble_service_register ::
  "'w sdk_services \<Rightarrow> sdk_context option \<Rightarrow> cstr \<Rightarrow> broker_result option \<Rightarrow> 'w sdk_env \<Rightarrow>
   sdk_status \<times> broker_result option \<times> sdk_context option \<times> 'w sdk_env" where
  "sdk_ble_service_register sv context svc_uuid result e =
     sdk_bound_do context result e (\<lambda>ctx.
       if result = None \<or> svc_uuid = None \<or> char_at (the svc_uuid) 0 = None
       then (SDK_INVALID_ARGUMENT, result, ctx, e)
       else
         (case (sv_locks sv, sv_ble_service_register sv) of
            (True, Some register) \<Rightarrow>
              if sc_ble_host_registered ctx then (SDK_ACCESS_DENIED, result, ctx, e)
              else
                (case sdk_ensure_cap sv ctx ''ble.host'' e of
                   (cap_st, ctx, e) \<Rightarrow>
                     if cap_st \<noteq> SDK_OK then (cap_st, access_denied result, ctx, e)
                     else
                       (case run_exclusive ''ble_host'' (register (the svc_uuid)) (the result) e of
                          (bs, r, e) \<Rightarrow>
                            (of_broker bs, Some r,
                             (if bs = BROKER_OK \<and> br_ok r then ctx\<lparr> sc_ble_host_registered := True \<rparr>
                              else ctx), e)))
          | _ \<Rightarrow> (SDK_INVALID_STATE, result, ctx, e)))"

definition sdk_ble_service_unregister ::
  "'w sdk_services \<Rightarrow> sdk_context option \<Rightarrow> broker_result option \<Rightarrow> 'w sdk_env \<Rightarrow>
   sdk_status \<times> broker_result option \<times> sdk_context option \<times> 'w sdk_env" where
  "sdk_ble_service_unregister sv context result e =
     sdk_bound_do context result e (\<lambda>ctx.
       if result = None then (SDK_INVALID_ARGUMENT, result, ctx, e)
       else
         (case (sv_locks sv, sv_ble_service_unregister sv) of
            (True, Some unregister) \<Rightarrow>
              if \<not> sc_ble_host_registered ctx then (SDK_INVALID_STATE, result, ctx, e)
              else
                (case sdk_ensure_cap sv ctx ''ble.host'' e of
                   (cap_st, ctx, e) \<Rightarrow>
                     if cap_st \<noteq> SDK_OK then (cap_st, access_denied result, ctx, e)
                     else
                       (case run_exclusive ''ble_host'' unregister (the result) e of
                          (bs, r, e) \<Rightarrow>
                            (of_broker bs, Some r,
                             (if bs = BROKER_OK then ctx\<lparr> sc_ble_host_registered := False \<rparr>
                              else ctx), e)))
          | _ \<Rightarrow> (SDK_INVALID_STATE, result, ctx, e)))"

text \<open>The calls of the host characteristics take no lock.\<close>

definition sdk_ble_host_set_value ::
  "'w sdk_services \<Rightarrow> sdk_context option \<Rightarrow> sdk_bytes option \<Rightarrow> nat \<Rightarrow> broker_result option \<Rightarrow> 'w sdk_env \<Rightarrow>
   sdk_status \<times> broker_result option \<times> sdk_context option \<times> 'w sdk_env" where
  "sdk_ble_host_set_value sv context data len result e =
     sdk_bound_do context result e (\<lambda>ctx.
       if result = None \<or> (data = None \<and> len > 0) then (SDK_INVALID_ARGUMENT, result, ctx, e)
       else
         (case sv_ble_host_set_value sv of
            None \<Rightarrow> (SDK_INVALID_STATE, result, ctx, e)
          | Some set_value \<Rightarrow>
              (case sdk_ensure_cap sv ctx ''ble.host'' e of
                 (cap_st, ctx, e) \<Rightarrow>
                   if cap_st \<noteq> SDK_OK then (cap_st, access_denied result, ctx, e)
                   else
                     (SDK_OK, snd (broker_ok_result result), ctx,
                      e\<lparr> se_world := set_value (case data of None \<Rightarrow> [] | Some d \<Rightarrow> take len d) (se_world e) \<rparr>))))"

text \<open>The buffer and its length are one byte list: len_inout gives the room, and the
  callback leaves the bytes it wrote (None: buf, len_inout or out_received is
  NULL).\<close>

definition sdk_ble_host_wait_write ::
  "'w sdk_services \<Rightarrow> sdk_context option \<Rightarrow> nat \<Rightarrow> (bool \<times> sdk_bytes) option \<Rightarrow> 32 word \<Rightarrow>
   broker_result option \<Rightarrow> 'w sdk_env \<Rightarrow>
   sdk_status \<times> (broker_result option \<times> (bool \<times> sdk_bytes) option) \<times> sdk_context option \<times> 'w sdk_env" where
  "sdk_ble_host_wait_write sv context room out timeout_ms result e =
     sdk_bound_do context (result, out) e (\<lambda>ctx.
       if result = None \<or> out = None then (SDK_INVALID_ARGUMENT, (result, out), ctx, e)
       else
         (case sv_ble_host_wait_write sv of
            None \<Rightarrow> (SDK_INVALID_STATE, (result, out), ctx, e)
          | Some wait_write \<Rightarrow>
              (case sdk_ensure_cap sv ctx ''ble.host'' e of
                 (cap_st, ctx, e) \<Rightarrow>
                   if cap_st \<noteq> SDK_OK then (cap_st, (access_denied result, out), ctx, e)
                   else
                     (case wait_write room timeout_ms (se_world e) of
                        (received, bs, w) \<Rightarrow>
                          (SDK_OK, (snd (broker_ok_result result), Some (received, bs)), ctx,
                           e\<lparr> se_world := w \<rparr>)))))"

definition sdk_ble_host_clear ::
  "'w sdk_services \<Rightarrow> sdk_context option \<Rightarrow> broker_result option \<Rightarrow> 'w sdk_env \<Rightarrow>
   sdk_status \<times> broker_result option \<times> sdk_context option \<times> 'w sdk_env" where
  "sdk_ble_host_clear sv context result e =
     sdk_bound_do context result e (\<lambda>ctx.
       if result = None then (SDK_INVALID_ARGUMENT, result, ctx, e)
       else
         (case sv_ble_host_clear sv of
            None \<Rightarrow> (SDK_INVALID_STATE, result, ctx, e)
          | Some clear \<Rightarrow>
              (case sdk_ensure_cap sv ctx ''ble.host'' e of
                 (cap_st, ctx, e) \<Rightarrow>
                   if cap_st \<noteq> SDK_OK then (cap_st, access_denied result, ctx, e)
                   else (SDK_OK, snd (broker_ok_result result), ctx,
                         e\<lparr> se_world := clear (se_world e) \<rparr>))))"

definition sdk_ble_set_connectable ::
  "'w sdk_services \<Rightarrow> sdk_context option \<Rightarrow> bool \<Rightarrow> broker_result option \<Rightarrow> 'w sdk_env \<Rightarrow>
   sdk_status \<times> broker_result option \<times> sdk_context option \<times> 'w sdk_env" where
  "sdk_ble_set_connectable sv context connectable result e =
     sdk_bound_do context result e (\<lambda>ctx.
       if result = None then (SDK_INVALID_ARGUMENT, result, ctx, e)
       else
         (case sv_ble_set_connectable sv of
            None \<Rightarrow> (SDK_INVALID_STATE, result, ctx, e)
          | Some set_connectable \<Rightarrow>
              (case sdk_ensure_cap sv ctx ''ble.advertise'' e of
                 (cap_st, ctx, e) \<Rightarrow>
                   if cap_st \<noteq> SDK_OK then (cap_st, access_denied result, ctx, e)
                   else (SDK_OK, snd (broker_ok_result result), ctx,
                         e\<lparr> se_world := set_connectable connectable (se_world e) \<rparr>))))"

section \<open>ESP-NOW and HTTP\<close>

definition sdk_espnow_send ::
  "'w sdk_services \<Rightarrow> sdk_context option \<Rightarrow> sdk_bytes option \<Rightarrow> sdk_bytes option \<Rightarrow> nat \<Rightarrow>
   broker_result option \<Rightarrow> 'w sdk_env \<Rightarrow>
   sdk_status \<times> broker_result option \<times> sdk_context option \<times> 'w sdk_env" where
  "sdk_espnow_send sv context peer_mac data data_len result e =
     sdk_bound_do context result e (\<lambda>ctx.
       if result = None \<or> peer_mac = None \<or> (data = None \<and> data_len > 0) \<or> data_len > SDK_ESPNOW_DATA_MAX
       then (SDK_INVALID_ARGUMENT, result, ctx, e)
       else
         (case (sv_locks sv, sv_espnow_send sv) of
            (True, Some send) \<Rightarrow>
              gated_run sv (Some ''esp_now'') ''espnow_radio''
                (send (the peer_mac) (case data of None \<Rightarrow> [] | Some d \<Rightarrow> take data_len d)) (the result) ctx e
          | _ \<Rightarrow> (SDK_INVALID_STATE, result, ctx, e)))"

text \<open>out: the sender's address and the data with its length (None: one of the three
  pointers is NULL).\<close>

definition sdk_espnow_recv ::
  "'w sdk_services \<Rightarrow> sdk_context option \<Rightarrow> (sdk_bytes \<times> sdk_bytes) option \<Rightarrow> nat \<Rightarrow> 32 word \<Rightarrow>
   broker_result option \<Rightarrow> 'w sdk_env \<Rightarrow>
   sdk_status \<times> (broker_result option \<times> (sdk_bytes \<times> sdk_bytes) option) \<times> sdk_context option \<times> 'w sdk_env" where
  "sdk_espnow_recv sv context out max_len timeout_ms result e =
     sdk_bound_do context (result, out) e (\<lambda>ctx.
       if result = None \<or> out = None \<or> max_len = 0 then (SDK_INVALID_ARGUMENT, (result, out), ctx, e)
       else
         (case (sv_locks sv, sv_espnow_recv sv) of
            (True, Some recv) \<Rightarrow>
              (case sdk_ensure_cap sv ctx ''esp_now'' e of
                 (cap_st, ctx, e) \<Rightarrow>
                   if cap_st \<noteq> SDK_OK then (cap_st, (access_denied result, out), ctx, e)
                   else
                     (case run_exclusive_out ''espnow_radio'' (recv max_len timeout_ms)
                             (the result) (the out) e of
                        (bs, r, got, e) \<Rightarrow>
                          (if bs \<noteq> BROKER_OK then SDK_BROKER_ERROR
                           else if \<not> br_ok r \<and> str_eq (br_code r) (Some ''NO_DATA'') then SDK_NO_DATA
                           else if br_ok r then SDK_OK else SDK_BROKER_ERROR,
                           (Some r, Some got), ctx, e)))
          | _ \<Rightarrow> (SDK_INVALID_STATE, (result, out), ctx, e)))"

definition http_method_ok :: "cstr \<Rightarrow> bool" where
  "http_method_ok meth =
     (meth \<noteq> None \<and> \<not> (\<not> str_eq meth (Some ''GET'') \<and> \<not> str_eq meth (Some ''POST'')))"

definition sdk_http_request ::
  "'w sdk_services \<Rightarrow> sdk_context option \<Rightarrow> cstr \<Rightarrow> cstr \<Rightarrow> cstr \<Rightarrow> broker_result option \<Rightarrow> 'w sdk_env \<Rightarrow>
   sdk_status \<times> broker_result option \<times> sdk_context option \<times> 'w sdk_env" where
  "sdk_http_request sv context meth url body result e =
     sdk_bound_do context result e (\<lambda>ctx.
       if result = None \<or> url = None \<or> char_at (the url) 0 = None then (SDK_INVALID_ARGUMENT, result, ctx, e)
       else if \<not> http_method_ok meth then (SDK_INVALID_ARGUMENT, result, ctx, e)
       else
         (case (sv_locks sv, sv_http_request sv) of
            (True, Some request) \<Rightarrow>
              gated_run sv (Some ''http.request'') ''http'' (request (the meth) (the url) body) (the result) ctx e
          | _ \<Rightarrow> (SDK_INVALID_STATE, result, ctx, e)))"

definition lower_ascii :: "char \<Rightarrow> char" where
  "lower_ascii c = (if ord c \<ge> ord (CHR ''A'') \<and> ord c \<le> ord (CHR ''Z'') then char_of (ord c + 32) else c)"

definition host_char :: "char \<Rightarrow> bool" where
  "host_char c =
     ((ord c \<ge> ord (CHR ''a'') \<and> ord c \<le> ord (CHR ''z'')) \<or> (ord c \<ge> ord (CHR ''A'') \<and> ord c \<le> ord (CHR ''Z'')) \<or>
      (ord c \<ge> ord (CHR ''0'') \<and> ord c \<le> ord (CHR ''9'')) \<or> c = CHR ''-'' \<or> c = CHR ''.'')"

text \<open>The host loop: the host before the first colon, None at a character that is not
  allowed.\<close>

fun host_loop :: "string \<Rightarrow> string option" where
  "host_loop [] = Some []"
| "host_loop (c # cs) =
     (if c = CHR '':'' then Some []
      else if \<not> host_char c then None
      else map_option (\<lambda>h. c # h) (host_loop cs))"

text \<open>The port loop from a port on; the port stays below 655360, so the 32-bit
  unsigned arithmetic of the code does not wrap.\<close>

fun port_loop :: "nat \<Rightarrow> string \<Rightarrow> nat option" where
  "port_loop port [] = Some port"
| "port_loop port (c # cs) =
     (if ord c < ord (CHR ''0'') \<or> ord c > ord (CHR ''9'') then None
      else
        let port = port * 10 + (ord c - ord (CHR ''0''))
        in if port > 65535 then None else port_loop port cs)"

definition url_authority :: "string \<Rightarrow> string" where
  "url_authority url = takeWhile (\<lambda>c. c \<noteq> CHR ''/'' \<and> c \<noteq> CHR ''?'' \<and> c \<noteq> CHR ''#'') (drop 8 url)"

text \<open>443 when there is no colon.\<close>

definition authority_port :: "string \<Rightarrow> nat option" where
  "authority_port port_part =
     (case port_part of
        [] \<Rightarrow> Some 443
      | _ # digits \<Rightarrow>
          if digits = [] then None
          else (case port_loop 0 digits of
                  None \<Rightarrow> None | Some port \<Rightarrow> if port = 0 then None else Some port))"

definition sdk_https_origin :: "cstr \<Rightarrow> nat \<Rightarrow> sdk_status + string" where
  "sdk_https_origin url out_len =
     (if url = None \<or> out_len < 8 + 2 then Inl SDK_INVALID_ARGUMENT
      else
        let u = the url
        in if map lower_ascii (take 8 u) \<noteq> ''https://'' then Inl SDK_INVALID_ARGUMENT
           else
             let auth = url_authority u
             in if auth = [] then Inl SDK_INVALID_ARGUMENT
                else
                  (case host_loop auth of
                     None \<Rightarrow> Inl SDK_INVALID_ARGUMENT
                   | Some host \<Rightarrow>
                       if host = [] then Inl SDK_INVALID_ARGUMENT
                       else
                         (case authority_port (drop (length host) auth) of
                            None \<Rightarrow> Inl SDK_INVALID_ARGUMENT
                          | Some port \<Rightarrow>
                              if 8 + length host + (if port = 443 then 0 else 6) + 1 > out_len
                              then Inl SDK_TEXT_TRUNCATED
                              else Inr (''https://'' @ map lower_ascii host @
                                     (if port \<noteq> 443 then CHR '':'' # dec port else [])))))"

definition sdk_https_request ::
  "'w sdk_services \<Rightarrow> sdk_context option \<Rightarrow> cstr \<Rightarrow> cstr \<Rightarrow> cstr \<Rightarrow> broker_result option \<Rightarrow> 'w sdk_env \<Rightarrow>
   sdk_status \<times> broker_result option \<times> sdk_context option \<times> 'w sdk_env" where
  "sdk_https_request sv context meth url body result e =
     sdk_bound_do context result e (\<lambda>ctx.
       if result = None \<or> url = None \<or> char_at (the url) 0 = None then (SDK_INVALID_ARGUMENT, result, ctx, e)
       else if \<not> http_method_ok meth then (SDK_INVALID_ARGUMENT, result, ctx, e)
       else if body \<noteq> None \<and> length (the body) > SDK_HTTPS_BODY_MAX then (SDK_INVALID_ARGUMENT, result, ctx, e)
       else
         (case (sv_locks sv, s2_https_request (sv_v2 sv), s2_origin_prompt (sv_v2 sv)) of
            (True, Some request, Some prompt) \<Rightarrow>
              (case sdk_https_origin url SDK_ORIGIN_MAX of
                 Inl st \<Rightarrow> (st, snd (broker_error_result result (Some ''BAD_URL'')), ctx, e)
               | Inr origin \<Rightarrow>
                   (case sdk_ensure_cap sv ctx ''https.request'' e of
                      (cap_st, ctx, e) \<Rightarrow>
                        if cap_st \<noteq> SDK_OK then (cap_st, access_denied result, ctx, e)
                        else
                          (case run_prompt (prompt origin) ctx e of
                             (allowed, ctx, e) \<Rightarrow>
                               if \<not> allowed then (SDK_ACCESS_DENIED, access_denied result, ctx, e)
                               else finish_run ''http'' (request (the meth) (the url) body) (the result) ctx e)))
          | _ \<Rightarrow> (SDK_INVALID_STATE, result, ctx, e)))"

section \<open>TCP sockets\<close>

text \<open>jpp_sdk_net_ensure_ready after its jpp_sdk_ensure_bound, which every caller's
  sdk_bound_do is.\<close>

definition sdk_net_ensure_ready :: "'w sdk_services \<Rightarrow> broker_result option \<Rightarrow> sdk_status" where
  "sdk_net_ensure_ready sv result =
     (if result = None then SDK_INVALID_ARGUMENT
      else if \<not> sv_locks sv \<or> Option.is_none (sv_net_bind sv) then SDK_INVALID_STATE
      else SDK_OK)"

definition sdk_net_ensure ::
  "'w sdk_services \<Rightarrow> sdk_context \<Rightarrow> broker_result option \<Rightarrow> string \<Rightarrow> 'w sdk_env \<Rightarrow>
   sdk_status \<times> broker_result option \<times> sdk_context \<times> 'w sdk_env" where
  "sdk_net_ensure sv ctx result cap e =
     (if sdk_net_ensure_ready sv result \<noteq> SDK_OK then (sdk_net_ensure_ready sv result, result, ctx, e)
      else (case sdk_ensure_cap sv ctx cap e of
              (cap_st, ctx, e) \<Rightarrow>
                if cap_st \<noteq> SDK_OK then (cap_st, access_denied result, ctx, e)
                else (SDK_OK, result, ctx, e)))"

definition sdk_net_ensure_any ::
  "'w sdk_services \<Rightarrow> sdk_context \<Rightarrow> broker_result option \<Rightarrow> sdk_status \<times> broker_result option" where
  "sdk_net_ensure_any sv ctx result =
     (if sdk_net_ensure_ready sv result \<noteq> SDK_OK then (sdk_net_ensure_ready sv result, result)
      else if broker_caller_has_capability (Some (sdk_caller ctx)) (Some ''network.bind'') \<or>
              broker_caller_has_capability (Some (sdk_caller ctx)) (Some ''network.connect'')
      then (SDK_OK, result)
      else (SDK_ACCESS_DENIED, access_denied result))"

definition sdk_net_run ::
  "'w exclusive_operation \<Rightarrow> broker_result \<Rightarrow> sdk_context \<Rightarrow> 'w sdk_env \<Rightarrow>
   sdk_status \<times> broker_result option \<times> sdk_context \<times> 'w sdk_env" where
  "sdk_net_run op result ctx e = finish_run ''network'' op result ctx e"

definition sdk_net_run_out ::
  "('w \<times> 'o) exclusive_operation \<Rightarrow> broker_result \<Rightarrow> 'o \<Rightarrow> sdk_context \<Rightarrow> 'w sdk_env \<Rightarrow>
   sdk_status \<times> (broker_result option \<times> 'o) \<times> sdk_context \<times> 'w sdk_env" where
  "sdk_net_run_out op result out ctx e =
     (case run_exclusive_out ''network'' op result out e of
        (st, r, out, e) \<Rightarrow> (of_broker st, (Some r, out), ctx, e))"

definition sdk_net_bind ::
  "'w sdk_services \<Rightarrow> sdk_context option \<Rightarrow> 16 word \<Rightarrow> broker_result option \<Rightarrow> 'w sdk_env \<Rightarrow>
   sdk_status \<times> broker_result option \<times> sdk_context option \<times> 'w sdk_env" where
  "sdk_net_bind sv context port result e =
     sdk_bound_do context result e (\<lambda>ctx.
       case sdk_net_ensure sv ctx result ''network.bind'' e of
         (st, result, ctx, e) \<Rightarrow>
           if st \<noteq> SDK_OK then (st, result, ctx, e)
           else if port = 0 then (SDK_INVALID_ARGUMENT, result, ctx, e)
           else sdk_net_run (the (sv_net_bind sv) port) (the result) ctx e)"

definition sdk_net_accept ::
  "'w sdk_services \<Rightarrow> sdk_context option \<Rightarrow> 32 word \<Rightarrow> int option \<Rightarrow> broker_result option \<Rightarrow> 'w sdk_env \<Rightarrow>
   sdk_status \<times> (broker_result option \<times> int option) \<times> sdk_context option \<times> 'w sdk_env" where
  "sdk_net_accept sv context timeout_ms out_sock result e =
     sdk_bound_do context (result, out_sock) e (\<lambda>ctx.
       case sdk_net_ensure sv ctx result ''network.bind'' e of
         (st, result, ctx, e) \<Rightarrow>
           if st \<noteq> SDK_OK then (st, (result, out_sock), ctx, e)
           else if out_sock = None then (SDK_INVALID_ARGUMENT, (result, out_sock), ctx, e)
           else
             (case sdk_net_run_out (sv_net_accept sv timeout_ms) (the result) (- 1) ctx e of
                (st, (r, sock), ctx, e) \<Rightarrow> (st, (r, Some sock), ctx, e)))"

definition sdk_net_connect ::
  "'w sdk_services \<Rightarrow> sdk_context option \<Rightarrow> cstr \<Rightarrow> 16 word \<Rightarrow> 32 word \<Rightarrow> int option \<Rightarrow>
   broker_result option \<Rightarrow> 'w sdk_env \<Rightarrow>
   sdk_status \<times> (broker_result option \<times> int option) \<times> sdk_context option \<times> 'w sdk_env" where
  "sdk_net_connect sv context host port timeout_ms out_sock result e =
     sdk_bound_do context (result, out_sock) e (\<lambda>ctx.
       case sdk_net_ensure sv ctx result ''network.connect'' e of
         (st, result, ctx, e) \<Rightarrow>
           if st \<noteq> SDK_OK then (st, (result, out_sock), ctx, e)
           else if host = None \<or> char_at (the host) 0 = None \<or> port = 0 \<or> out_sock = None
           then (SDK_INVALID_ARGUMENT, (result, out_sock), ctx, e)
           else
             (case s2_net_connect (sv_v2 sv) of
                None \<Rightarrow> (SDK_INVALID_STATE, (result, out_sock), ctx, e)
              | Some connect \<Rightarrow>
                  (case sdk_net_run_out (connect (the host) port timeout_ms) (the result) (- 1) ctx e of
                     (st, (r, sock), ctx, e) \<Rightarrow> (st, (r, Some sock), ctx, e))))"

text \<open>out: the received bytes, of which there are *out_len (None: buf or out_len is
  NULL).\<close>

definition sdk_net_recv ::
  "'w sdk_services \<Rightarrow> sdk_context option \<Rightarrow> int \<Rightarrow> nat \<Rightarrow> sdk_bytes option \<Rightarrow> 32 word \<Rightarrow>
   broker_result option \<Rightarrow> 'w sdk_env \<Rightarrow>
   sdk_status \<times> (broker_result option \<times> sdk_bytes option) \<times> sdk_context option \<times> 'w sdk_env" where
  "sdk_net_recv sv context sock buf_len out timeout_ms result e =
     sdk_bound_do context (result, out) e (\<lambda>ctx.
       case sdk_net_ensure_any sv ctx result of
         (st, result) \<Rightarrow>
           if st \<noteq> SDK_OK then (st, (result, out), ctx, e)
           else if out = None \<or> buf_len = 0 then (SDK_INVALID_ARGUMENT, (result, out), ctx, e)
           else
             (case sdk_net_run_out (sv_net_recv sv sock buf_len timeout_ms) (the result) [] ctx e of
                (st, (r, got), ctx, e) \<Rightarrow> (st, (r, Some got), ctx, e)))"

definition sdk_net_send ::
  "'w sdk_services \<Rightarrow> sdk_context option \<Rightarrow> int \<Rightarrow> sdk_bytes option \<Rightarrow> nat \<Rightarrow> broker_result option \<Rightarrow> 'w sdk_env \<Rightarrow>
   sdk_status \<times> broker_result option \<times> sdk_context option \<times> 'w sdk_env" where
  "sdk_net_send sv context sock data len result e =
     sdk_bound_do context result e (\<lambda>ctx.
       case sdk_net_ensure_any sv ctx result of
         (st, result) \<Rightarrow>
           if st \<noteq> SDK_OK then (st, result, ctx, e)
           else if data = None \<or> len = 0 then (SDK_INVALID_ARGUMENT, result, ctx, e)
           else sdk_net_run (sv_net_send sv sock (take len (the data))) (the result) ctx e)"

definition sdk_net_close ::
  "'w sdk_services \<Rightarrow> sdk_context option \<Rightarrow> int \<Rightarrow> broker_result option \<Rightarrow> 'w sdk_env \<Rightarrow>
   sdk_status \<times> broker_result option \<times> sdk_context option \<times> 'w sdk_env" where
  "sdk_net_close sv context sock result e =
     sdk_bound_do context result e (\<lambda>ctx.
       case sdk_net_ensure_any sv ctx result of
         (st, result) \<Rightarrow>
           if st \<noteq> SDK_OK then (st, result, ctx, e)
           else sdk_net_run (sv_net_close sv sock) (the result) ctx e)"

definition sdk_net_close_all :: "'w sdk_services \<Rightarrow> sdk_context option \<Rightarrow> 'w sdk_env \<Rightarrow> 'w sdk_env" where
  "sdk_net_close_all sv context e =
     (case (context, sv_net_close_all sv) of
        (Some _, Some close_all) \<Rightarrow> e\<lparr> se_world := close_all (se_world e) \<rparr>
      | _ \<Rightarrow> e)"

section \<open>Code modules\<close>

text \<open>out_module points to a pointer; the module handle is a number, None is NULL.\<close>

definition sdk_module_load ::
  "'w sdk_services \<Rightarrow> sdk_context option \<Rightarrow> cstr \<Rightarrow> nat option option \<Rightarrow> 'w sdk_env \<Rightarrow>
   sdk_status \<times> nat option option \<times> sdk_context option \<times> 'w sdk_env" where
  "sdk_module_load sv context relative_path out_module e =
     sdk_bound_do context out_module e (\<lambda>ctx.
       if out_module = None then (SDK_INVALID_ARGUMENT, out_module, ctx, e)
       else
         (case sv_module_load sv of
            None \<Rightarrow> (SDK_INVALID_STATE, Some None, ctx, e)
          | Some load \<Rightarrow>
              (case sdk_build_scoped_path ctx relative_path SDK_PATH_MAX of
                 Inl st \<Rightarrow> (st, Some None, ctx, e)
               | Inr path \<Rightarrow>
                   (case load path (se_world e) of
                      (loaded, m, w) \<Rightarrow>
                        (if loaded then SDK_OK else SDK_BROKER_ERROR, Some m, ctx, e\<lparr> se_world := w \<rparr>)))))"

definition sdk_module_run ::
  "'w sdk_services \<Rightarrow> sdk_context option \<Rightarrow> nat option \<Rightarrow> nat option \<Rightarrow> 'w sdk_env \<Rightarrow>
   sdk_status \<times> unit \<times> sdk_context option \<times> 'w sdk_env" where
  "sdk_module_run sv context module api e =
     sdk_bound_do context () e (\<lambda>ctx.
       if module = None then (SDK_INVALID_ARGUMENT, (), ctx, e)
       else
         (case sv_module_run sv of
            None \<Rightarrow> (SDK_INVALID_STATE, (), ctx, e)
          | Some run \<Rightarrow>
              (case run (the module) api ctx (se_world e) of
                 (ctx, w) \<Rightarrow> (SDK_OK, (), ctx, e\<lparr> se_world := w \<rparr>))))"

definition sdk_module_unload ::
  "'w sdk_services \<Rightarrow> sdk_context option \<Rightarrow> nat option \<Rightarrow> 'w sdk_env \<Rightarrow>
   sdk_status \<times> unit \<times> sdk_context option \<times> 'w sdk_env" where
  "sdk_module_unload sv context module e =
     sdk_bound_do context () e (\<lambda>ctx.
       if module = None then (SDK_INVALID_ARGUMENT, (), ctx, e)
       else
         (case sv_module_unload sv of
            None \<Rightarrow> (SDK_INVALID_STATE, (), ctx, e)
          | Some unload \<Rightarrow> (SDK_OK, (), ctx, e\<lparr> se_world := unload (the module) (se_world e) \<rparr>)))"

section \<open>Messages between apps\<close>

definition sdk_app_id_segment_is_safe :: "cstr \<Rightarrow> bool" where
  "sdk_app_id_segment_is_safe app =
     (case app of
        None \<Rightarrow> False
      | Some i \<Rightarrow>
          if i = [] then False
          else list_all (\<lambda>c. \<not> (c = CHR ''/'' \<or> c = CHR ''.'' \<or> c = char_of (92 :: nat))) i)"

text \<open>The text snprintf leaves in a buffer of JPP_SDK_PATH_MAX bytes.\<close>

definition path_buf :: "string \<Rightarrow> string" where
  "path_buf t = take (SDK_PATH_MAX - 1) t"

text \<open>tick is what xTaskGetTickCount answers.\<close>

definition sdk_ipc_send ::
  "32 word \<Rightarrow> 'w sdk_services \<Rightarrow> sdk_context option \<Rightarrow> cstr \<Rightarrow> cstr \<Rightarrow> broker_result option \<Rightarrow> 'w sdk_env \<Rightarrow>
   sdk_status \<times> broker_result option \<times> sdk_context option \<times> 'w sdk_env" where
  "sdk_ipc_send tick sv context recipient payload result e =
     sdk_bound_do context result e (\<lambda>ctx.
       if result = None \<or> payload = None then (SDK_INVALID_ARGUMENT, result, ctx, e)
       else if \<not> sdk_app_id_segment_is_safe recipient then (SDK_INVALID_ARGUMENT, result, ctx, e)
       else if length (the payload) \<ge> SDK_IPC_PAYLOAD_MAX then (SDK_INVALID_ARGUMENT, result, ctx, e)
       else
         (case (sv_locks sv, sv_write_file sv) of
            (True, Some writer) \<Rightarrow>
              if 16 + length (the recipient) + length (sc_app_id ctx) + 20 > SDK_PATH_MAX
              then (SDK_INVALID_ARGUMENT, result, ctx, e)
              else
                let path = path_buf (''/sd/ipc/'' @ the recipient @ ''/'' @ sc_app_id ctx @ ''/msg_'' @
                                     dec (unat tick) @ ''.json'')
                in finish_run ''storage'' (writer path (the payload)) (the result) ctx e
          | _ \<Rightarrow> (SDK_INVALID_STATE, result, ctx, e)))"

text \<open>A listing of the mailbox: the field entry_0 of the result, None when there is
  no message.\<close>

definition first_entry :: "broker_status \<Rightarrow> broker_result \<Rightarrow> string option" where
  "first_entry bs r =
     (if bs \<noteq> BROKER_OK \<or> \<not> br_ok r then None
      else (case broker_result_get (Some r) (Some ''entry_0'') of
              None \<Rightarrow> None | Some n \<Rightarrow> if char_at n 0 = None then None else Some n))"

definition no_messages :: "broker_result option \<Rightarrow> broker_result option" where
  "no_messages result = snd (broker_error_result result (Some ''NO_MESSAGES''))"

text \<open>The part of jpp_sdk_ipc_recv that reads, hands over and deletes the message at
  msg_path.\<close>

definition ipc_take ::
  "broker_result \<Rightarrow> (string \<Rightarrow> 'w exclusive_operation) \<Rightarrow> (string \<Rightarrow> 'w exclusive_operation) \<Rightarrow>
   string \<Rightarrow> string \<Rightarrow> nat \<Rightarrow> broker_result option \<Rightarrow> string option \<Rightarrow> 'w sdk_env \<Rightarrow>
   sdk_status \<times> (broker_result option \<times> string option) \<times> 'w sdk_env" where
  "ipc_take junk reader deleter msg_path sender buf_len result out e =
     (case run_exclusive ''storage'' (reader msg_path) junk e of
        (bs, r, e) \<Rightarrow>
          if bs \<noteq> BROKER_OK \<or> \<not> br_ok r
          then (SDK_BROKER_ERROR, (snd (broker_error_result result (Some ''READ_FAILED'')), out), e)
          else
            let t = (case broker_result_get (Some r) (Some ''text'') of None \<Rightarrow> [] | Some t \<Rightarrow> t);
                out = snd (sdk_copy_text buf_len (Some t))
            in (case run_exclusive ''storage'' (deleter msg_path) junk e of
                  (_, _, e) \<Rightarrow>
                    (case broker_ok_result result of
                       (bs, result) \<Rightarrow>
                         if bs \<noteq> BROKER_OK then (SDK_BROKER_ERROR, (result, out), e)
                         else (SDK_OK, (snd (broker_result_put result (Some ''sender'') (Some sender)), out), e))))"

text \<open>out is the payload buffer of payload_buf_len bytes (None: NULL).\<close>

definition sdk_ipc_recv ::
  "broker_result \<Rightarrow> 'w sdk_services \<Rightarrow> sdk_context option \<Rightarrow> string option \<Rightarrow> nat \<Rightarrow>
   broker_result option \<Rightarrow> 'w sdk_env \<Rightarrow>
   sdk_status \<times> (broker_result option \<times> string option) \<times> sdk_context option \<times> 'w sdk_env" where
  "sdk_ipc_recv junk sv context out payload_buf_len result e =
     sdk_bound_do context (result, out) e (\<lambda>ctx.
       if out = None \<or> result = None \<or> payload_buf_len = 0
       then (SDK_INVALID_ARGUMENT, (result, out), ctx, e)
       else
         (case (sv_locks sv, sv_list_files sv, sv_read_file sv, sv_delete_file sv) of
            (True, Some lister, Some reader, Some deleter) \<Rightarrow>
              (case run_exclusive ''storage'' (lister (path_buf (''/sd/ipc/'' @ sc_app_id ctx))) junk e of
                 (bs, list_result, e) \<Rightarrow>
                   (case first_entry bs list_result of
                      None \<Rightarrow> (SDK_NO_DATA, (no_messages result, out), ctx, e)
                    | Some sender \<Rightarrow>
                        (case run_exclusive ''storage''
                                (lister (path_buf (''/sd/ipc/'' @ sc_app_id ctx @ ''/'' @ sender))) list_result e of
                           (bs, list_result, e) \<Rightarrow>
                             (case first_entry bs list_result of
                                None \<Rightarrow> (SDK_NO_DATA, (no_messages result, out), ctx, e)
                              | Some msg \<Rightarrow>
                                  (case ipc_take junk reader deleter
                                          (path_buf (''/sd/ipc/'' @ sc_app_id ctx @ ''/'' @ sender @ ''/'' @ msg))
                                          sender payload_buf_len result out e of
                                     (st, r, e) \<Rightarrow> (st, r, ctx, e))))))
          | _ \<Rightarrow> (SDK_INVALID_STATE, (result, out), ctx, e)))"

section \<open>Key-value store\<close>

definition sdk_kv_get ::
  "broker_result \<Rightarrow> 'w sdk_services \<Rightarrow> sdk_context option \<Rightarrow> cstr \<Rightarrow> string option \<Rightarrow> nat \<Rightarrow> 'w sdk_env \<Rightarrow>
   sdk_status \<times> string option \<times> sdk_context option \<times> 'w sdk_env" where
  "sdk_kv_get junk sv context key out_value value_buf_len e =
     sdk_bound_do context out_value e (\<lambda>ctx.
       if key = None \<or> char_at (the key) 0 = None \<or> out_value = None \<or> value_buf_len = 0
       then (SDK_INVALID_ARGUMENT, out_value, ctx, e)
       else if length (the key) \<ge> SDK_KV_KEY_MAX then (SDK_INVALID_ARGUMENT, out_value, ctx, e)
       else
         (case (sv_locks sv, sv_kv_read sv) of
            (True, Some kv_read) \<Rightarrow>
              (case run_exclusive_out ''storage'' (kv_read (sc_app_id ctx) (the key) value_buf_len)
                      junk (the out_value) e of
                 (bs, r, v, e) \<Rightarrow>
                   if bs \<noteq> BROKER_OK then (SDK_BROKER_ERROR, Some v, ctx, e)
                   else if \<not> br_ok r then (SDK_BROKER_ERROR, Some [], ctx, e)
                   else (SDK_OK, Some v, ctx, e))
          | _ \<Rightarrow> (SDK_INVALID_STATE, out_value, ctx, e)))"

definition sdk_kv_set ::
  "broker_result \<Rightarrow> 'w sdk_services \<Rightarrow> sdk_context option \<Rightarrow> cstr \<Rightarrow> cstr \<Rightarrow> 'w sdk_env \<Rightarrow>
   sdk_status \<times> unit \<times> sdk_context option \<times> 'w sdk_env" where
  "sdk_kv_set junk sv context key val e =
     sdk_bound_do context () e (\<lambda>ctx.
       if key = None \<or> char_at (the key) 0 = None \<or> val = None then (SDK_INVALID_ARGUMENT, (), ctx, e)
       else if length (the key) \<ge> SDK_KV_KEY_MAX \<or> length (the val) \<ge> SDK_KV_VALUE_MAX
       then (SDK_INVALID_ARGUMENT, (), ctx, e)
       else
         (case (sv_locks sv, sv_kv_write sv) of
            (True, Some kv_write) \<Rightarrow>
              (case run_exclusive ''storage'' (kv_write (sc_app_id ctx) (the key) (the val)) junk e of
                 (bs, _, e) \<Rightarrow> (of_broker bs, (), ctx, e))
          | _ \<Rightarrow> (SDK_INVALID_STATE, (), ctx, e)))"

definition sdk_kv_delete ::
  "broker_result \<Rightarrow> 'w sdk_services \<Rightarrow> sdk_context option \<Rightarrow> cstr \<Rightarrow> 'w sdk_env \<Rightarrow>
   sdk_status \<times> unit \<times> sdk_context option \<times> 'w sdk_env" where
  "sdk_kv_delete junk sv context key e =
     sdk_bound_do context () e (\<lambda>ctx.
       if key = None \<or> char_at (the key) 0 = None then (SDK_INVALID_ARGUMENT, (), ctx, e)
       else
         (case (sv_locks sv, sv_kv_delete sv) of
            (True, Some kv_delete) \<Rightarrow>
              (case run_exclusive ''storage'' (kv_delete (sc_app_id ctx) (the key)) junk e of
                 (bs, _, e) \<Rightarrow> (of_broker bs, (), ctx, e))
          | _ \<Rightarrow> (SDK_INVALID_STATE, (), ctx, e)))"

section \<open>Buzzer and LED\<close>

text \<open>The buzzer and LED cores are arguments: a function on the world that says
  whether it answered OK.\<close>

definition sdk_device_call ::
  "('w \<Rightarrow> bool \<times> 'w) \<Rightarrow> sdk_context option \<Rightarrow> 'w sdk_env \<Rightarrow>
   sdk_status \<times> unit \<times> sdk_context option \<times> 'w sdk_env" where
  "sdk_device_call f context e =
     sdk_bound_do context () e (\<lambda>ctx.
       case f (se_world e) of
         (ok, w) \<Rightarrow> (if ok then SDK_OK else SDK_INVALID_STATE, (), ctx, e\<lparr> se_world := w \<rparr>))"

definition sdk_buzzer_play ::
  "(nat \<Rightarrow> 'w \<Rightarrow> bool \<times> 'w) \<Rightarrow> sdk_context option \<Rightarrow> nat \<Rightarrow> 'w sdk_env \<Rightarrow>
   sdk_status \<times> unit \<times> sdk_context option \<times> 'w sdk_env" where
  "sdk_buzzer_play buzzer_play context sound e = sdk_device_call (buzzer_play sound) context e"

definition sdk_buzzer_tone ::
  "(32 word \<Rightarrow> 32 word \<Rightarrow> 'w \<Rightarrow> bool \<times> 'w) \<Rightarrow> sdk_context option \<Rightarrow> 32 word \<Rightarrow> 32 word \<Rightarrow> 'w sdk_env \<Rightarrow>
   sdk_status \<times> unit \<times> sdk_context option \<times> 'w sdk_env" where
  "sdk_buzzer_tone buzzer_tone context freq_hz duration_ms e =
     sdk_device_call (buzzer_tone freq_hz duration_ms) context e"

definition sdk_buzzer_play_sequence ::
  "('n list option \<Rightarrow> nat \<Rightarrow> 'w \<Rightarrow> bool \<times> 'w) \<Rightarrow> sdk_context option \<Rightarrow> 'n list option \<Rightarrow> nat \<Rightarrow> 'w sdk_env \<Rightarrow>
   sdk_status \<times> unit \<times> sdk_context option \<times> 'w sdk_env" where
  "sdk_buzzer_play_sequence play_sequence context notes n e =
     (if sdk_ensure_bound context = SDK_OK \<and> Option.is_none notes \<and> n > 0
      then (SDK_INVALID_ARGUMENT, (), context, e)
      else sdk_device_call (play_sequence notes n) context e)"

definition sdk_buzzer_play_sequence_async ::
  "('n list option \<Rightarrow> nat \<Rightarrow> 'w \<Rightarrow> bool \<times> 'w) \<Rightarrow> sdk_context option \<Rightarrow> 'n list option \<Rightarrow> nat \<Rightarrow> 'w sdk_env \<Rightarrow>
   sdk_status \<times> unit \<times> sdk_context option \<times> 'w sdk_env" where
  "sdk_buzzer_play_sequence_async play_sequence_async context notes n e =
     (if sdk_ensure_bound context = SDK_OK \<and> Option.is_none notes \<and> n > 0
      then (SDK_INVALID_ARGUMENT, (), context, e)
      else sdk_device_call (play_sequence_async notes n) context e)"

definition sdk_buzzer_stop ::
  "('w \<Rightarrow> 'w) \<Rightarrow> sdk_context option \<Rightarrow> 'w sdk_env \<Rightarrow>
   sdk_status \<times> unit \<times> sdk_context option \<times> 'w sdk_env" where
  "sdk_buzzer_stop buzzer_stop context e = sdk_device_call (\<lambda>w. (True, buzzer_stop w)) context e"

definition sdk_led_set_color ::
  "(8 word \<Rightarrow> 8 word \<Rightarrow> 8 word \<Rightarrow> 'w \<Rightarrow> bool \<times> 'w) \<Rightarrow> sdk_context option \<Rightarrow> 8 word \<Rightarrow> 8 word \<Rightarrow> 8 word \<Rightarrow>
   'w sdk_env \<Rightarrow> sdk_status \<times> unit \<times> sdk_context option \<times> 'w sdk_env" where
  "sdk_led_set_color led_set_color context r g b e = sdk_device_call (led_set_color r g b) context e"

definition sdk_led_off ::
  "('w \<Rightarrow> bool \<times> 'w) \<Rightarrow> sdk_context option \<Rightarrow> 'w sdk_env \<Rightarrow>
   sdk_status \<times> unit \<times> sdk_context option \<times> 'w sdk_env" where
  "sdk_led_off led_off context e = sdk_device_call led_off context e"

section \<open>Lemmas: origins\<close>

lemma host_loop_Some:
  "host_loop auth = Some h \<Longrightarrow> h = takeWhile (\<lambda>c. c \<noteq> CHR '':'') auth \<and> list_all host_char h"
  by (induction auth arbitrary: h) (auto split: if_splits)

lemma port_loop_value:
  "port_loop p ds = Some q \<Longrightarrow> q = foldl (\<lambda>v c. v * 10 + (ord c - 48)) p ds"
proof (induction ds arbitrary: p)
  case (Cons c cs)
  then show ?case by (auto simp: Let_def ord_def split: if_splits)
qed simp

lemma lower_host_no_colon: "host_char c \<Longrightarrow> lower_ascii c \<noteq> CHR '':''"
proof
  assume h: "host_char c" and l: "lower_ascii c = CHR '':''"
  have n: "ord (CHR '':'') = 58" by (simp add: ord_def)
  show False
  proof (cases "ord (CHR ''A'') \<le> ord c \<and> ord c \<le> ord (CHR ''Z'')")
    case True
    then have "ord (lower_ascii c) = ord c + 32" "65 \<le> ord c" by (simp_all add: lower_ascii_def ord_def)
    with l n show False by simp
  next
    case False
    then have "c = CHR '':''" using l by (simp add: lower_ascii_def split: if_splits)
    with h show False by (simp add: host_char_def ord_def)
  qed
qed

text \<open>The server a URL names, read off the text: the authority up to the first slash,
  question mark or hash, its host up to a colon, and the number after it.\<close>

definition url_host :: "string \<Rightarrow> string" where
  "url_host u = takeWhile (\<lambda>c. c \<noteq> CHR '':'') (url_authority u)"

definition url_port :: "string \<Rightarrow> nat" where
  "url_port u =
     (case dropWhile (\<lambda>c. c \<noteq> CHR '':'') (url_authority u) of [] \<Rightarrow> 443 | _ # ds \<Rightarrow> dec_value ds)"

lemma list_all_not_in: "list_all P xs \<Longrightarrow> \<not> P c \<Longrightarrow> c \<notin> set xs"
  by (auto simp: list_all_iff)

lemma origin_chars: "\<not> host_char (CHR ''@'')" "\<not> is_dec_digit (CHR ''@'')"
  by (simp_all add: host_char_def is_dec_digit_def ord_def)

lemma port_loop_digits: "port_loop p ds = Some q \<Longrightarrow> p \<le> 65535 \<Longrightarrow> list_all is_dec_digit ds \<and> q \<le> 65535"
proof (induction ds arbitrary: p)
  case (Cons c cs)
  have d: "ord (CHR ''0'') = 48" "ord (CHR ''9'') = 57" by (simp_all add: ord_def)
  from Cons.prems(1) have r: "48 \<le> ord c" "ord c \<le> 57" "p * 10 + (ord c - 48) \<le> 65535"
    "port_loop (p * 10 + (ord c - 48)) cs = Some q"
    by (simp_all add: Let_def d split: if_split_asm)
  from Cons.IH[OF r(4,3)] r(1,2) show ?case by (simp add: is_dec_digit_def)
qed simp

lemma authority_port_value:
  assumes "authority_port (drop (length h) auth) = Some port" "h = takeWhile (\<lambda>c. c \<noteq> CHR '':'') auth"
  shows "port = (case dropWhile (\<lambda>c. c \<noteq> CHR '':'') auth of [] \<Rightarrow> 443 | _ # ds \<Rightarrow> dec_value ds) \<and>
         0 < port \<and> port \<le> 65535 \<and>
         list_all is_dec_digit (tl (dropWhile (\<lambda>c. c \<noteq> CHR '':'') auth))"
proof -
  let ?r = "dropWhile (\<lambda>c. c \<noteq> CHR '':'') auth"
  have r: "drop (length h) auth = ?r"
    using assms(2) by (simp add: dropWhile_eq_drop)
  show ?thesis
  proof (cases ?r)
    case Nil
    with assms(1) r have "port = 443" by (simp add: authority_port_def)
    with Nil show ?thesis by (simp del: dropWhile_eq_Nil_conv)
  next
    case (Cons c ds)
    then have l: "port_loop 0 ds = Some port" "0 < port"
      using assms(1) r by (auto simp: authority_port_def split: if_split_asm option.split_asm)
    from port_loop_value[OF l(1)] port_loop_digits[OF l(1)] l(2) Cons
    show ?thesis by (simp add: dec_value_def)
  qed
qed

lemma https_origin_shape:
  assumes "sdk_https_origin (Some u) n = Inr orig"
  shows "orig = ''https://'' @ map lower_ascii (url_host u) @
           (if url_port u = 443 then [] else CHR '':'' # dec (url_port u))"
    and "list_all host_char (url_host u)" and "url_host u \<noteq> []"
    and "0 < url_port u" and "url_port u \<le> 65535"
    and "list_all is_dec_digit (tl (dropWhile (\<lambda>c. c \<noteq> CHR '':'') (url_authority u)))"
    and "8 + length (url_host u) + (if url_port u = 443 then 0 else 6) + 1 \<le> n"
proof -
  obtain host where h: "host_loop (url_authority u) = Some host" and ne: "host \<noteq> []"
    using assms by (auto simp: sdk_https_origin_def Let_def split: if_splits option.splits)
  note hh = host_loop_Some[OF h]
  then have host: "host = url_host u" by (simp add: url_host_def)
  obtain port where p: "authority_port (drop (length host) (url_authority u)) = Some port"
    and o: "orig = ''https://'' @ map lower_ascii host @ (if port \<noteq> 443 then CHR '':'' # dec port else [])"
    and fit: "8 + length host + (if port = 443 then 0 else 6) + 1 \<le> n"
    using assms h by (auto simp: sdk_https_origin_def Let_def split: if_splits option.splits)
  note pv = authority_port_value[OF p conjunct1[OF hh]]
  then have port: "port = url_port u" by (simp add: url_port_def)
  show "orig = ''https://'' @ map lower_ascii (url_host u) @
           (if url_port u = 443 then [] else CHR '':'' # dec (url_port u))"
    using o by (simp add: host port)
  show "list_all host_char (url_host u)" using conjunct2[OF hh] unfolding host .
  show "url_host u \<noteq> []" using ne unfolding host .
  have q: "0 < port" "port \<le> 65535"
    "list_all is_dec_digit (tl (dropWhile (\<lambda>c. c \<noteq> CHR '':'') (url_authority u)))"
    using pv by blast+
  from q(1,2) show "0 < url_port u" "url_port u \<le> 65535" unfolding port .
  show "list_all is_dec_digit (tl (dropWhile (\<lambda>c. c \<noteq> CHR '':'') (url_authority u)))" by (rule q(3))
  show "8 + length (url_host u) + (if url_port u = 443 then 0 else 6) + 1 \<le> n" using fit unfolding host port .
qed

lemma lower_host_colon: "list_all host_char h \<Longrightarrow> CHR '':'' \<notin> set (map lower_ascii h)"
  using lower_host_no_colon by (auto simp: list_all_iff dest: sym)

lemma split_at_sep:
  assumes "d \<notin> set a" "d \<notin> set b" "a @ x = b @ y" "x = [] \<or> hd x = d" "y = [] \<or> hd y = d"
  shows "a = b \<and> x = y"
proof -
  have t: "takeWhile (\<lambda>c. c \<noteq> d) (a @ x) = a" "takeWhile (\<lambda>c. c \<noteq> d) (b @ y) = b"
    using assms(1,2,4,5) by (cases x; cases y; auto simp: takeWhile_append2 takeWhile_tail)+
  then have "a = b" using assms(3) by metis
  with assms(3) show ?thesis by simp
qed

text \<open>The unit of consent of https.request is exact: the origin shown names the host
  and the port of the URL's authority and nothing else, there is no user
  information in front of the host, and two accepted URLs have the same origin
  exactly when they name the same host, upper and lower case letters being the
  same, and the same port, an explicit 443 being the default.\<close>

text \<open>C8: two accepted URLs raise the same consent question exactly when they name the same server.\<close>

theorem https_origin_same_server:
  assumes "sdk_https_origin (Some u) n = Inr orig" "sdk_https_origin (Some v) m = Inr orig'"
  shows "CHR ''@'' \<notin> set (url_authority u) \<and>
         (orig = orig' \<longleftrightarrow> map lower_ascii (url_host u) = map lower_ascii (url_host v) \<and> url_port u = url_port v)"
proof
  note su = https_origin_shape[OF assms(1)] and sv = https_origin_shape[OF assms(2)]
  have "CHR ''@'' \<notin> set (url_host u)"
    by (rule list_all_not_in[OF su(2) origin_chars(1)])
  moreover have "url_authority u = url_host u @ dropWhile (\<lambda>c. c \<noteq> CHR '':'') (url_authority u)"
    by (simp add: url_host_def)
  moreover have "CHR ''@'' \<notin> set (dropWhile (\<lambda>c. c \<noteq> CHR '':'') (url_authority u))"
    using list_all_not_in[OF su(6) origin_chars(2)]
      hd_dropWhile[of "\<lambda>c. c \<noteq> CHR '':''" "url_authority u"]
    by (cases "dropWhile (\<lambda>c. c \<noteq> CHR '':'') (url_authority u)") (simp_all del: dropWhile_eq_Nil_conv)
  ultimately show "CHR ''@'' \<notin> set (url_authority u)" by (metis UnE set_append)
  let ?p = "\<lambda>w. if url_port w = 443 then [] else CHR '':'' # dec (url_port w)"
  show "orig = orig' \<longleftrightarrow> map lower_ascii (url_host u) = map lower_ascii (url_host v) \<and> url_port u = url_port v"
  proof
    assume "orig = orig'"
    then have e: "map lower_ascii (url_host u) @ ?p u = map lower_ascii (url_host v) @ ?p v"
      using su(1) sv(1) by simp
    have "map lower_ascii (url_host u) = map lower_ascii (url_host v) \<and> ?p u = ?p v"
      by (rule split_at_sep[OF lower_host_colon[OF su(2)] lower_host_colon[OF sv(2)] e]) simp_all
    moreover from this have "url_port u = url_port v"
      by (metis dec_value_dec list.distinct(1) list.inject)
    ultimately show "map lower_ascii (url_host u) = map lower_ascii (url_host v) \<and> url_port u = url_port v"
      by simp
  qed (simp add: su(1) sv(1))
qed

lemma origin_demo_scheme:
  "map lower_ascii (take 8 ''HTTPS://Api.Example:0443/x'') = ''https://''"
  "map lower_ascii (take 8 ''https://api.example?q'') = ''https://''"
  "map lower_ascii ''Api.Example'' = ''api.example''" "map lower_ascii ''api.example'' = ''api.example''"
  by code_simp+

lemma origin_demo_authority:
  "url_authority ''HTTPS://Api.Example:0443/x'' = ''Api.Example:0443''"
  "url_authority ''https://api.example?q'' = ''api.example''"
  "host_loop ''Api.Example:0443'' = Some ''Api.Example''" "host_loop ''api.example'' = Some ''api.example''"
  "authority_port '':0443'' = Some 443" "authority_port [] = Some 443"
  by (simp_all add: url_authority_def host_char_def authority_port_def ord_def)

lemma origin_demo:
  "sdk_https_origin (Some ''HTTPS://Api.Example:0443/x'') 270 = Inr ''https://api.example''"
  "sdk_https_origin (Some ''https://api.example?q'') 270 = Inr ''https://api.example''"
  unfolding sdk_https_origin_def Let_def option.sel origin_demo_scheme origin_demo_authority
  by (simp_all add: origin_demo_authority origin_demo_scheme del: list.map)

theorem https_origin_same_server_witness:
  "CHR ''@'' \<notin> set (url_authority ''HTTPS://Api.Example:0443/x'') \<and>
   (''https://api.example'' = ''https://api.example'' \<longleftrightarrow>
    map lower_ascii (url_host ''HTTPS://Api.Example:0443/x'') = map lower_ascii (url_host ''https://api.example?q'') \<and>
    url_port ''HTTPS://Api.Example:0443/x'' = url_port ''https://api.example?q'')"
  by (rule https_origin_same_server[OF origin_demo])

end
