(* ===== verification/SdkSession.thy ===== *)
theory SdkSession
  imports SdkNet
begin

text \<open>
  Sessions of an app: any sequence of calls of the bridge, each chosen by the app
  from the answers of the calls before (an app is a function from the answers so
  far to its next call). Shown here: what an app can reach. Two sets of services
  that differ only where the app's capabilities, its own directories, the paths
  and the origins the user approves do not lead give the same session.

  The modal helpers, jpp_sdk_module_run and the calls of the buzzer and the LED
  are not calls of a session; a module run is app code and makes calls of its
  own.
\<close>

section \<open>Calls and answers\<close>

type_synonym res = "broker_result option"

datatype file_call =
    Call_RequestCap cstr | Call_DeviceStatus res | Call_GetTime res | Call_Log cstr
  | Call_FileRead cstr res | Call_FileWrite cstr cstr res | Call_FileList cstr res
  | Call_SharedRead cstr res | Call_SharedWrite cstr cstr res | Call_SharedList cstr res
  | Call_FileOpen cstr open_mode "nat option" | Call_HandleRead nat res
  | Call_HandleWrite nat cstr res | Call_HandleList nat res | Call_HandleClose nat
  | Call_BackgroundRegister res

datatype ble_call =
    Call_BleScan "32 word" bool nat "ble_scan_result list option" res
  | Call_BleAdvertiseStart "sdk_bytes option" nat res | Call_BleAdvertiseStop res
  | Call_BleConnect broker_result cstr "nat option" | Call_BleReadChar nat cstr cstr res
  | Call_BleWriteChar nat cstr cstr cstr res | Call_BleDisconnect broker_result nat
  | Call_BleServiceRegister cstr res | Call_BleServiceUnregister res
  | Call_BleHostSetValue "sdk_bytes option" nat res
  | Call_BleHostWaitWrite nat "(bool \<times> sdk_bytes) option" "32 word" res
  | Call_BleHostClear res | Call_BleSetConnectable bool res

datatype net_call =
    Call_EspnowSend "sdk_bytes option" "sdk_bytes option" nat res
  | Call_EspnowRecv "(sdk_bytes \<times> sdk_bytes) option" nat "32 word" res
  | Call_Http cstr cstr cstr res | Call_Https cstr cstr cstr res | Call_NetBind "16 word" res
  | Call_NetAccept "32 word" "int option" res
  | Call_NetConnect cstr "16 word" "32 word" "int option" res
  | Call_NetRecv int nat "sdk_bytes option" "32 word" res
  | Call_NetSend int "sdk_bytes option" nat res | Call_NetClose int res

datatype app_call =
    Call_ModuleLoad cstr "nat option option" | Call_ModuleUnload "nat option"
  | Call_IpcSend "32 word" cstr cstr res | Call_IpcRecv broker_result "string option" nat res
  | Call_KvGet broker_result cstr "string option" nat | Call_KvSet broker_result cstr cstr
  | Call_KvDelete broker_result cstr

datatype screen_call =
    Call_SetFrame "cstr list option" nat | Call_CanvasWrite nat "sdk_bytes option"
  | Call_CanvasClear | Call_DrawPixel nat nat bool | Call_Fullscreen bool
  | Call_PollKey "sdk_key option" | Call_WaitKey "sdk_key option" "sdk_key option"
  | Call_ClaimOk "8 word" | Call_RequestClose | Call_WakelockAcquire | Call_WakelockRelease

datatype sdk_call =
    On_File file_call | On_Ble ble_call | On_Net net_call | On_App app_call | On_Screen screen_call

datatype sdk_out =
    Out_None | Out_Result res | Out_Nat "nat option" | Out_Text "string option"
  | Out_Scan res "ble_scan_result list option" | Out_Wait res "(bool \<times> sdk_bytes) option"
  | Out_Peer res "(sdk_bytes \<times> sdk_bytes) option" | Out_Sock res "int option"
  | Out_Bytes res "sdk_bytes option" | Out_Module "nat option option"
  | Out_Message res "string option" | Out_Key "sdk_key option"

type_synonym sdk_answer = "sdk_status \<times> sdk_out"
type_synonym 'w sdk_state = "sdk_context option \<times> 'w sdk_env"

definition answer ::
  "('r \<Rightarrow> sdk_out) \<Rightarrow> sdk_status \<times> 'r \<times> sdk_context option \<times> 'w sdk_env \<Rightarrow> sdk_answer \<times> 'w sdk_state" where
  "answer f x = (case x of (st, r, c, e) \<Rightarrow> ((st, f r), (c, e)))"

definition answer2 :: "'w sdk_env \<Rightarrow> sdk_status \<times> sdk_context option \<Rightarrow> sdk_answer \<times> 'w sdk_state" where
  "answer2 e x = (case x of (st, c) \<Rightarrow> ((st, Out_None), (c, e)))"

definition answer_key ::
  "'w sdk_env \<Rightarrow> sdk_status \<times> sdk_key option \<times> sdk_context option \<Rightarrow> sdk_answer \<times> 'w sdk_state" where
  "answer_key e x = (case x of (st, k, c) \<Rightarrow> ((st, Out_Key k), (c, e)))"

definition file_step ::
  "'w sdk_services \<Rightarrow> file_call \<Rightarrow> sdk_context option \<Rightarrow> 'w sdk_env \<Rightarrow> sdk_answer \<times> 'w sdk_state" where
  "file_step sv call c e =
     (case call of
        Call_RequestCap cap \<Rightarrow> answer (\<lambda>_. Out_None) (sdk_request_cap sv c cap e)
      | Call_DeviceStatus r \<Rightarrow> answer Out_Result (sdk_device_status sv c r e)
      | Call_GetTime r \<Rightarrow> answer Out_Result (sdk_get_time sv c r e)
      | Call_Log ev \<Rightarrow> answer (\<lambda>_. Out_None) (sdk_log sv c ev e)
      | Call_FileRead p r \<Rightarrow> answer Out_Result (sdk_file_read sv c p r e)
      | Call_FileWrite p t r \<Rightarrow> answer Out_Result (sdk_file_write sv c p t r e)
      | Call_FileList p r \<Rightarrow> answer Out_Result (sdk_file_list sv c p r e)
      | Call_SharedRead p r \<Rightarrow> answer Out_Result (sdk_shared_read sv c p r e)
      | Call_SharedWrite p t r \<Rightarrow> answer Out_Result (sdk_shared_write sv c p t r e)
      | Call_SharedList p r \<Rightarrow> answer Out_Result (sdk_shared_list sv c p r e)
      | Call_FileOpen p m h \<Rightarrow> answer Out_Nat (sdk_file_open sv c p m h e)
      | Call_HandleRead h r \<Rightarrow> answer Out_Result (sdk_handle_read sv c h r e)
      | Call_HandleWrite h t r \<Rightarrow> answer Out_Result (sdk_handle_write sv c h t r e)
      | Call_HandleList h r \<Rightarrow> answer Out_Result (sdk_handle_list sv c h r e)
      | Call_HandleClose h \<Rightarrow> answer2 e (sdk_handle_close c h)
      | Call_BackgroundRegister r \<Rightarrow> answer Out_Result (sdk_background_register sv c r e))"

definition ble_step ::
  "'w sdk_services \<Rightarrow> ble_call \<Rightarrow> sdk_context option \<Rightarrow> 'w sdk_env \<Rightarrow> sdk_answer \<times> 'w sdk_state" where
  "ble_step sv call c e =
     (case call of
        Call_BleScan d g m f r \<Rightarrow> answer (\<lambda>(r, f). Out_Scan r f) (sdk_ble_scan sv c d g m f r e)
      | Call_BleAdvertiseStart p n r \<Rightarrow> answer Out_Result (sdk_ble_advertise_start sv c p n r e)
      | Call_BleAdvertiseStop r \<Rightarrow> answer Out_Result (sdk_ble_advertise_stop sv c r e)
      | Call_BleConnect j a out \<Rightarrow> answer Out_Nat (sdk_ble_connect j sv c a out e)
      | Call_BleReadChar k su cu r \<Rightarrow> answer Out_Result (sdk_ble_read_char sv c k su cu r e)
      | Call_BleWriteChar k su cu t r \<Rightarrow> answer Out_Result (sdk_ble_write_char sv c k su cu t r e)
      | Call_BleDisconnect j k \<Rightarrow> answer (\<lambda>_. Out_None) (sdk_ble_disconnect j sv c k e)
      | Call_BleServiceRegister u r \<Rightarrow> answer Out_Result (sdk_ble_service_register sv c u r e)
      | Call_BleServiceUnregister r \<Rightarrow> answer Out_Result (sdk_ble_service_unregister sv c r e)
      | Call_BleHostSetValue d n r \<Rightarrow> answer Out_Result (sdk_ble_host_set_value sv c d n r e)
      | Call_BleHostWaitWrite n out t r \<Rightarrow>
          answer (\<lambda>(r, out). Out_Wait r out) (sdk_ble_host_wait_write sv c n out t r e)
      | Call_BleHostClear r \<Rightarrow> answer Out_Result (sdk_ble_host_clear sv c r e)
      | Call_BleSetConnectable b r \<Rightarrow> answer Out_Result (sdk_ble_set_connectable sv c b r e))"

definition net_step ::
  "'w sdk_services \<Rightarrow> net_call \<Rightarrow> sdk_context option \<Rightarrow> 'w sdk_env \<Rightarrow> sdk_answer \<times> 'w sdk_state" where
  "net_step sv call c e =
     (case call of
        Call_EspnowSend p d n r \<Rightarrow> answer Out_Result (sdk_espnow_send sv c p d n r e)
      | Call_EspnowRecv out n t r \<Rightarrow> answer (\<lambda>(r, out). Out_Peer r out) (sdk_espnow_recv sv c out n t r e)
      | Call_Http m u b r \<Rightarrow> answer Out_Result (sdk_http_request sv c m u b r e)
      | Call_Https m u b r \<Rightarrow> answer Out_Result (sdk_https_request sv c m u b r e)
      | Call_NetBind p r \<Rightarrow> answer Out_Result (sdk_net_bind sv c p r e)
      | Call_NetAccept t out r \<Rightarrow> answer (\<lambda>(r, out). Out_Sock r out) (sdk_net_accept sv c t out r e)
      | Call_NetConnect h p t out r \<Rightarrow> answer (\<lambda>(r, out). Out_Sock r out) (sdk_net_connect sv c h p t out r e)
      | Call_NetRecv k n out t r \<Rightarrow> answer (\<lambda>(r, out). Out_Bytes r out) (sdk_net_recv sv c k n out t r e)
      | Call_NetSend k d n r \<Rightarrow> answer Out_Result (sdk_net_send sv c k d n r e)
      | Call_NetClose k r \<Rightarrow> answer Out_Result (sdk_net_close sv c k r e))"

definition app_step ::
  "'w sdk_services \<Rightarrow> app_call \<Rightarrow> sdk_context option \<Rightarrow> 'w sdk_env \<Rightarrow> sdk_answer \<times> 'w sdk_state" where
  "app_step sv call c e =
     (case call of
        Call_ModuleLoad p out \<Rightarrow> answer Out_Module (sdk_module_load sv c p out e)
      | Call_ModuleUnload m \<Rightarrow> answer (\<lambda>_. Out_None) (sdk_module_unload sv c m e)
      | Call_IpcSend t u p r \<Rightarrow> answer Out_Result (sdk_ipc_send t sv c u p r e)
      | Call_IpcRecv j out n r \<Rightarrow> answer (\<lambda>(r, out). Out_Message r out) (sdk_ipc_recv j sv c out n r e)
      | Call_KvGet j k out n \<Rightarrow> answer Out_Text (sdk_kv_get j sv c k out n e)
      | Call_KvSet j k v \<Rightarrow> answer (\<lambda>_. Out_None) (sdk_kv_set j sv c k v e)
      | Call_KvDelete j k \<Rightarrow> answer (\<lambda>_. Out_None) (sdk_kv_delete j sv c k e))"

definition screen_step ::
  "screen_call \<Rightarrow> sdk_context option \<Rightarrow> 'w sdk_env \<Rightarrow> sdk_answer \<times> 'w sdk_state" where
  "screen_step call c e =
     (case call of
        Call_SetFrame ls n \<Rightarrow> answer2 e (sdk_set_frame c ls n)
      | Call_CanvasWrite y p \<Rightarrow> answer2 e (sdk_canvas_write c y p)
      | Call_CanvasClear \<Rightarrow> answer2 e (sdk_canvas_clear c)
      | Call_DrawPixel x y b \<Rightarrow> answer2 e (sdk_canvas_draw_pixel c x y b)
      | Call_Fullscreen b \<Rightarrow> answer2 e (sdk_canvas_fullscreen c b)
      | Call_PollKey out \<Rightarrow> answer_key e (sdk_poll_key c out)
      | Call_WaitKey a out \<Rightarrow> answer_key e (sdk_wait_key c a out)
      | Call_ClaimOk m \<Rightarrow> answer2 e (sdk_claim_ok c m)
      | Call_RequestClose \<Rightarrow> answer2 e (sdk_request_close c)
      | Call_WakelockAcquire \<Rightarrow> answer2 e (sdk_wakelock_acquire c)
      | Call_WakelockRelease \<Rightarrow> answer2 e (sdk_wakelock_release c))"

definition sdk_step :: "'w sdk_services \<Rightarrow> sdk_call \<Rightarrow> 'w sdk_state \<Rightarrow> sdk_answer \<times> 'w sdk_state" where
  "sdk_step sv call s =
     (let (c, e) = s
      in case call of
        On_File k \<Rightarrow> file_step sv k c e
      | On_Ble k \<Rightarrow> ble_step sv k c e
      | On_Net k \<Rightarrow> net_step sv k c e
      | On_App k \<Rightarrow> app_step sv k c e
      | On_Screen k \<Rightarrow> screen_step k c e)"

text \<open>An app makes n calls.\<close>

type_synonym sdk_app = "sdk_answer list \<Rightarrow> sdk_call"

fun sdk_session ::
  "'w sdk_services \<Rightarrow> sdk_app \<Rightarrow> nat \<Rightarrow> sdk_answer list \<Rightarrow> 'w sdk_state \<Rightarrow> sdk_answer list \<times> 'w sdk_state" where
  "sdk_session sv app 0 h s = (h, s)"
| "sdk_session sv app (Suc n) h s =
     (case sdk_step sv (app h) s of (a, s) \<Rightarrow> sdk_session sv app n (h @ [a]) s)"

section \<open>What an app can reach\<close>

definition may_consent :: "'w sdk_services \<Rightarrow> string \<Rightarrow> bool" where
  "may_consent sv cap =
     (case sv_consent_prompt sv of None \<Rightarrow> False | Some p \<Rightarrow> \<exists>tier ui w. fst (p cap tier ui w))"

definition approves :: "'w sdk_services \<Rightarrow> open_mode \<Rightarrow> string \<Rightarrow> bool" where
  "approves sv mode path =
     (case sv_path_prompt sv of None \<Rightarrow> False | Some p \<Rightarrow> \<exists>ui w. fst (p path mode ui w))"

definition approves_origin :: "'w sdk_services \<Rightarrow> string \<Rightarrow> bool" where
  "approves_origin sv orig =
     (case s2_origin_prompt (sv_v2 sv) of None \<Rightarrow> False | Some p \<Rightarrow> \<exists>ui w. fst (p orig ui w))"

text \<open>A path in the app's own directory or its shared directory, without a parent
  segment below it; its mailbox; the messages it may leave in others' mailboxes;
  and a path of a handle: the first 159 characters of one the user approved.\<close>

definition app_path :: "string \<Rightarrow> string \<Rightarrow> bool" where
  "app_path app p =
     (\<exists>root\<in>{''/sd/apps'', ''/sd/shared''}. \<exists>rel.
        p = root @ ''/'' @ app @ ''/'' @ rel \<and> ''..'' \<notin> set (split_on (CHR ''/'') rel))"

definition mailbox_path :: "string \<Rightarrow> string \<Rightarrow> bool" where
  "mailbox_path app p = (take (8 + length app) p = ''/sd/ipc/'' @ app)"

definition outbox_path :: "string \<Rightarrow> string \<Rightarrow> bool" where
  "outbox_path app p =
     (\<exists>u t. p = ''/sd/ipc/'' @ u @ ''/'' @ app @ ''/msg_'' @ t @ ''.json'' \<and>
            sdk_app_id_segment_is_safe (Some u) \<and> list_all is_dec_digit t)"

definition opened_path :: "'w sdk_services \<Rightarrow> open_mode \<Rightarrow> string \<Rightarrow> bool" where
  "opened_path sv mode p =
     (\<exists>q. sdk_full_path_is_valid (Some q) \<and> approves sv mode q \<and> p = take 159 q)"

text \<open>Two optional services of which an argument in P is treated alike.\<close>

definition alike :: "('a \<Rightarrow> bool) \<Rightarrow> ('a \<Rightarrow> 'b) option \<Rightarrow> ('a \<Rightarrow> 'b) option \<Rightarrow> bool" where
  "alike P = rel_option (\<lambda>f g. \<forall>x. P x \<longrightarrow> f x = g x)"

definition alike_if :: "bool \<Rightarrow> 'a option \<Rightarrow> 'a option \<Rightarrow> bool" where
  "alike_if b = rel_option (\<lambda>f g. b \<longrightarrow> f = g)"

text \<open>The services look the same to an app that may come to hold the capabilities A.
  The prompts, the log, the clock and the device status are the same.\<close>

definition same_reach :: "string set \<Rightarrow> string \<Rightarrow> 'w sdk_services \<Rightarrow> 'w sdk_services \<Rightarrow> bool" where
  "same_reach A app sv sv' =
     (sv_locks sv = sv_locks sv' \<and> sv_consent_prompt sv = sv_consent_prompt sv' \<and>
      sv_path_prompt sv = sv_path_prompt sv' \<and>
      s2_origin_prompt (sv_v2 sv) = s2_origin_prompt (sv_v2 sv') \<and>
      sv_device_status sv = sv_device_status sv' \<and> sv_rtc_reader sv = sv_rtc_reader sv' \<and>
      rel_option (\<lambda>f g. f app = g app) (sv_log_writer sv) (sv_log_writer sv') \<and>
      alike (\<lambda>p. app_path app p \<or> mailbox_path app p \<or> (''files.full'' \<in> A \<and> opened_path sv OPEN_READ p))
        (sv_read_file sv) (sv_read_file sv') \<and>
      alike (\<lambda>p. app_path app p \<or> mailbox_path app p \<or> (''files.full'' \<in> A \<and> opened_path sv OPEN_READ p))
        (sv_list_files sv) (sv_list_files sv') \<and>
      alike (\<lambda>p. app_path app p \<or> outbox_path app p \<or> (''files.full'' \<in> A \<and> opened_path sv OPEN_WRITE p))
        (sv_write_file sv) (sv_write_file sv') \<and>
      alike (mailbox_path app) (sv_delete_file sv) (sv_delete_file sv') \<and>
      alike (app_path app) (sv_module_load sv) (sv_module_load sv') \<and>
      sv_module_unload sv = sv_module_unload sv' \<and>
      alike (\<lambda>a. a = app) (sv_kv_read sv) (sv_kv_read sv') \<and>
      alike (\<lambda>a. a = app) (sv_kv_write sv) (sv_kv_write sv') \<and>
      alike (\<lambda>a. a = app) (sv_kv_delete sv) (sv_kv_delete sv') \<and>
      alike_if (''ble.scan'' \<in> A) (sv_ble_scan sv) (sv_ble_scan sv') \<and>
      alike_if (''ble.advertise'' \<in> A) (sv_ble_advertise_start sv) (sv_ble_advertise_start sv') \<and>
      alike_if (''ble.advertise'' \<in> A) (sv_ble_advertise_stop sv) (sv_ble_advertise_stop sv') \<and>
      alike_if (''ble.advertise'' \<in> A) (sv_ble_set_connectable sv) (sv_ble_set_connectable sv') \<and>
      alike_if (''ble.connect'' \<in> A) (sv_ble_connect sv) (sv_ble_connect sv') \<and>
      alike_if (''ble.connect'' \<in> A) (sv_ble_read_char sv) (sv_ble_read_char sv') \<and>
      alike_if (''ble.connect'' \<in> A) (sv_ble_write_char sv) (sv_ble_write_char sv') \<and>
      alike_if (''ble.connect'' \<in> A) (sv_ble_disconnect sv) (sv_ble_disconnect sv') \<and>
      alike_if (''ble.host'' \<in> A) (sv_ble_service_register sv) (sv_ble_service_register sv') \<and>
      alike_if (''ble.host'' \<in> A) (sv_ble_service_unregister sv) (sv_ble_service_unregister sv') \<and>
      alike_if (''ble.host'' \<in> A) (sv_ble_host_set_value sv) (sv_ble_host_set_value sv') \<and>
      alike_if (''ble.host'' \<in> A) (sv_ble_host_wait_write sv) (sv_ble_host_wait_write sv') \<and>
      alike_if (''ble.host'' \<in> A) (sv_ble_host_clear sv) (sv_ble_host_clear sv') \<and>
      alike_if (''esp_now'' \<in> A) (sv_espnow_send sv) (sv_espnow_send sv') \<and>
      alike_if (''esp_now'' \<in> A) (sv_espnow_recv sv) (sv_espnow_recv sv') \<and>
      alike_if (''http.request'' \<in> A) (sv_http_request sv) (sv_http_request sv') \<and>
      rel_option (\<lambda>f g. \<forall>m u b. ''https.request'' \<in> A \<longrightarrow>
          (\<forall>orig. sdk_https_origin (Some u) SDK_ORIGIN_MAX = Inr orig \<longrightarrow> approves_origin sv orig \<longrightarrow>
             f m u b = g m u b))
        (s2_https_request (sv_v2 sv)) (s2_https_request (sv_v2 sv')) \<and>
      alike_if (''network.bind'' \<in> A) (sv_net_bind sv) (sv_net_bind sv') \<and>
      (''network.bind'' \<in> A \<longrightarrow> sv_net_accept sv = sv_net_accept sv') \<and>
      alike_if (''network.connect'' \<in> A) (s2_net_connect (sv_v2 sv)) (s2_net_connect (sv_v2 sv')) \<and>
      (''network.bind'' \<in> A \<or> ''network.connect'' \<in> A \<longrightarrow>
         sv_net_recv sv = sv_net_recv sv' \<and> sv_net_send sv = sv_net_send sv' \<and>
         sv_net_close sv = sv_net_close sv'))"

text \<open>The app holds capabilities of A only, the user would consent to declared
  capabilities of A only, and its open handles are on paths the user approved.\<close>

definition sdk_confined :: "'w sdk_services \<Rightarrow> string set \<Rightarrow> string \<Rightarrow> sdk_context \<Rightarrow> bool" where
  "sdk_confined sv A app ctx =
     (sc_app_id ctx = app \<and> length app < 64 \<and>
      (\<forall>c. Some c \<in> set (bc_capabilities (sdk_caller ctx)) \<longrightarrow> c \<in> A) \<and>
      (\<forall>i < sc_pending_count ctx. may_consent sv (sc_pending_strs ctx ! i) \<longrightarrow> sc_pending_strs ctx ! i \<in> A) \<and>
      length (sc_handles ctx) = SDK_HANDLE_CAPACITY \<and>
      (\<forall>h\<in>set (sc_handles ctx). he_active h \<longrightarrow> opened_path sv (he_mode h) (he_path h)))"

section \<open>Lemmas: capabilities\<close>

named_theorems same_intro \<open>outcomes that are the same and leave the app confined\<close>

lemma cap_text_upd [simp]:
  "cap_text (ctx\<lparr> sc_ui := ui \<rparr>) = cap_text ctx" "cap_text (ctx\<lparr> sc_granted := g \<rparr>) = cap_text ctx"
  "cap_text (ctx\<lparr> sc_handles := h \<rparr>) = cap_text ctx" "cap_text (ctx\<lparr> sc_ble_conns := x1 \<rparr>) = cap_text ctx"
  "cap_text (ctx\<lparr> sc_ble_host_registered := x2 \<rparr>) = cap_text ctx"
  "cap_text (ctx\<lparr> sc_close_requested := x2 \<rparr>) = cap_text ctx"
  "cap_text (ctx\<lparr> sc_wakelock_held := x2 \<rparr>) = cap_text ctx"
  "cap_text (ctx\<lparr> sc_ok_claim := x3 \<rparr>) = cap_text ctx"
  by (rule ext, simp add: cap_text_def split: cap_ptr.split)+

lemma confined_ui [simp]: "sdk_confined sv A app (ctx\<lparr> sc_ui := ui \<rparr>) = sdk_confined sv A app ctx"
  by (simp add: sdk_confined_def sdk_caller_def)

lemma confined_more [simp]:
  "sdk_confined sv A app (ctx\<lparr> sc_ble_conns := x1 \<rparr>) = sdk_confined sv A app ctx"
  "sdk_confined sv A app (ctx\<lparr> sc_ble_host_registered := x2 \<rparr>) = sdk_confined sv A app ctx"
  "sdk_confined sv A app (ctx\<lparr> sc_close_requested := x2 \<rparr>) = sdk_confined sv A app ctx"
  "sdk_confined sv A app (ctx\<lparr> sc_wakelock_held := x2 \<rparr>) = sdk_confined sv A app ctx"
  "sdk_confined sv A app (ctx\<lparr> sc_ok_claim := x3 \<rparr>) = sdk_confined sv A app ctx"
  by (simp_all add: sdk_confined_def sdk_caller_def)

lemma find_pending_some:
  "find_pending ctx cap = Some i \<Longrightarrow> i < sc_pending_count ctx \<and> sc_pending_strs ctx ! i = cap"
  by (auto simp: find_pending_def find_Some_iff)

lemma has_capability_iff:
  "broker_caller_has_capability (Some c) (Some cap) \<longleftrightarrow> Some cap \<in> set (bc_capabilities c)"
  by (auto simp: broker_caller_has_capability_def list_ex_iff str_eq_def split: option.splits)

lemma confined_has_capability:
  "sdk_confined sv A app ctx \<Longrightarrow> broker_caller_has_capability (Some (sdk_caller ctx)) (Some cap) \<Longrightarrow> cap \<in> A"
  by (simp add: sdk_confined_def has_capability_iff)

lemma confined_grant:
  assumes "sdk_confined sv A app ctx" "i < sc_pending_count ctx" "may_consent sv (sc_pending_strs ctx ! i)"
  shows "sdk_confined sv A app (ctx\<lparr> sc_granted := sc_granted ctx @ [Ptr_Pending i] \<rparr>)"
proof -
  have "sc_pending_strs ctx ! i \<in> A" using assms by (simp add: sdk_confined_def)
  moreover have "cap_text ctx (Ptr_Pending i) = Some (sc_pending_strs ctx ! i)" by (simp add: cap_text_def)
  ultimately show ?thesis using assms(1) by (auto simp: sdk_confined_def sdk_caller_def)
qed

lemma run_prompt_ui:
  "run_prompt p ctx e = (b, ctx', e') \<Longrightarrow> (\<exists>ui. ctx' = ctx\<lparr> sc_ui := ui \<rparr>) \<and> (b \<longrightarrow> (\<exists>ui w. fst (p ui w)))"
  by (auto simp: run_prompt_def split: prod.splits) (metis fst_conv)+

text \<open>A capability check that succeeds is of a capability in A; it changes the screen
  and the granted capabilities only.\<close>

lemma ensure_cap_confined:
  assumes c: "sdk_confined sv A app ctx" and r: "sdk_ensure_cap sv ctx cap e = (st, ctx', e')"
  shows "sdk_confined sv A app ctx' \<and> (st = SDK_OK \<longrightarrow> cap \<in> A) \<and>
         (\<exists>ui g. ctx' = ctx\<lparr> sc_ui := ui, sc_granted := g \<rparr>)"
proof (cases "broker_caller_has_capability (Some (sdk_caller ctx)) (Some cap)")
  case True
  have "ctx = ctx\<lparr> sc_ui := sc_ui ctx, sc_granted := sc_granted ctx \<rparr>" by simp
  moreover have "ctx' = ctx" using True r by (simp add: sdk_ensure_cap_def)
  ultimately show ?thesis using c confined_has_capability[OF c True] by metis
next
  case no: False
  show ?thesis
  proof (cases "find_pending ctx cap")
    case None
    with no r have "ctx' = ctx" "st = SDK_ACCESS_DENIED" by (simp_all add: sdk_ensure_cap_def)
    moreover have "ctx = ctx\<lparr> sc_ui := sc_ui ctx, sc_granted := sc_granted ctx \<rparr>" by simp
    ultimately show ?thesis using c by (metis sdk_status.distinct(5))
  next
    case (Some i)
    note i = find_pending_some[OF Some]
    obtain b ctx1 e1 where p: "(case sv_consent_prompt sv of None \<Rightarrow> (False, ctx, e)
        | Some prompt \<Rightarrow> run_prompt (prompt cap (sc_pending_tiers ctx ! i)) ctx e) = (b, ctx1, e1)"
      by (metis prod_cases3)
    have um: "(\<exists>ui. ctx1 = ctx\<lparr> sc_ui := ui \<rparr>) \<and> (b \<longrightarrow> may_consent sv cap)"
    proof (cases "sv_consent_prompt sv")
      case None
      with p show ?thesis by (auto intro: exI[of _ "sc_ui ctx"])
    next
      case (Some q)
      with p have "run_prompt (q cap (sc_pending_tiers ctx ! i)) ctx e = (b, ctx1, e1)" by simp
      from run_prompt_ui[OF this] Some show ?thesis by (auto simp: may_consent_def)
    qed
    then have u: "\<exists>ui. ctx1 = ctx\<lparr> sc_ui := ui \<rparr>" and m: "b \<longrightarrow> may_consent sv cap" by blast+
    obtain ui where ctx1: "ctx1 = ctx\<lparr> sc_ui := ui \<rparr>" using u by blast
    have c1: "sdk_confined sv A app ctx1" using c ctx1 by simp
    have r': "(st, ctx', e') =
        (if b then (if length (sc_granted ctx1) < SDK_PENDING_CAP_MAX
           then (SDK_OK, ctx1\<lparr> sc_granted := sc_granted ctx1 @ [Ptr_Pending i] \<rparr>, e1)
           else (SDK_ACCESS_DENIED, ctx1, e1)) else (SDK_ACCESS_DENIED, ctx1, e1))"
      using r no Some p by (auto simp: sdk_ensure_cap_def Let_def split: if_splits)
    show ?thesis
    proof (cases "b \<and> length (sc_granted ctx1) < SDK_PENDING_CAP_MAX")
      case True
      then have e: "st = SDK_OK" "ctx' = ctx1\<lparr> sc_granted := sc_granted ctx1 @ [Ptr_Pending i] \<rparr>"
        using r' by simp_all
      have mi: "may_consent sv (sc_pending_strs ctx1 ! i)" "i < sc_pending_count ctx1"
        using i m True ctx1 by simp_all
      have "cap \<in> A" using c i m True by (auto simp: sdk_confined_def)
      then show ?thesis using confined_grant[OF c1 mi(2,1)] e ctx1 by auto
    next
      case False
      then have e: "st = SDK_ACCESS_DENIED" "ctx' = ctx1" using r' by (auto split: if_splits)
      have "\<exists>ui g. ctx' = ctx\<lparr> sc_ui := ui, sc_granted := g \<rparr>"
        by (rule exI[of _ ui], rule exI[of _ "sc_granted ctx"]) (simp add: e(2) ctx1)
      then show ?thesis using c1 e by simp
    qed
  qed
qed

section \<open>Lemmas: the same outcome\<close>

text \<open>Two outcomes of a call on a bound context are the same and leave the app
  confined.\<close>

definition same_outcome ::
  "'w sdk_services \<Rightarrow> string set \<Rightarrow> string \<Rightarrow> 's \<times> 'r \<times> sdk_context \<times> 'w sdk_env \<Rightarrow>
   's \<times> 'r \<times> sdk_context \<times> 'w sdk_env \<Rightarrow> bool" where
  "same_outcome sv A app x y = (x = y \<and> sdk_confined sv A app (fst (snd (snd x))))"

definition same_result ::
  "'w sdk_services \<Rightarrow> string set \<Rightarrow> string \<Rightarrow> sdk_answer \<times> 'w sdk_state \<Rightarrow> sdk_answer \<times> 'w sdk_state \<Rightarrow> bool" where
  "same_result sv A app x y =
     (x = y \<and> (\<exists>ctx. fst (snd x) = Some ctx \<and> sdk_confined sv A app ctx))"

lemma same_triv [same_intro]:
  "sdk_confined sv A app ctx \<Longrightarrow> same_outcome sv A app (st, r, ctx, e) (st, r, ctx, e)"
  by (simp add: same_outcome_def)

lemma same_if [same_intro]:
  "(b \<Longrightarrow> same_outcome sv A app x y) \<Longrightarrow> (\<not> b \<Longrightarrow> same_outcome sv A app x' y') \<Longrightarrow>
     same_outcome sv A app (if b then x else x') (if b then y else y')"
  by simp

lemma same_bound:
  assumes "sdk_confined sv A app ctx" "same_outcome sv A app (k ctx) (k' ctx)"
  shows "same_result sv A app (answer f (sdk_bound_do (Some ctx) r e k)) (answer f (sdk_bound_do (Some ctx) r e k'))"
  using assms by (auto simp: same_result_def answer_def same_outcome_def sdk_bound_do_def split: prod.splits)

text \<open>What follows a capability check is only compared where the check succeeded.\<close>

lemma same_ensure:
  assumes c: "sdk_confined sv A app ctx" and p: "sv_consent_prompt sv = sv_consent_prompt sv'"
    and ok: "\<forall>ctx' e'. sdk_confined sv A app ctx' \<longrightarrow> cap \<in> A \<longrightarrow>
        (\<exists>ui g. ctx' = ctx\<lparr> sc_ui := ui, sc_granted := g \<rparr>) \<longrightarrow>
        same_outcome sv A app (k SDK_OK ctx' e') (k' SDK_OK ctx' e')"
    and no: "\<forall>st ctx' e'. st \<noteq> SDK_OK \<longrightarrow> sdk_confined sv A app ctx' \<longrightarrow>
        same_outcome sv A app (k st ctx' e') (k' st ctx' e')"
  shows "same_outcome sv A app
           (case sdk_ensure_cap sv ctx cap e of (st, ctx, e) \<Rightarrow> k st ctx e)
           (case sdk_ensure_cap sv' ctx cap e of (st, ctx, e) \<Rightarrow> k' st ctx e)"
proof -
  have eq: "sdk_ensure_cap sv' ctx cap e = sdk_ensure_cap sv ctx cap e"
    unfolding sdk_ensure_cap_def p ..
  obtain st ctx' e' where r: "sdk_ensure_cap sv ctx cap e = (st, ctx', e')"
    by (metis prod_cases3)
  note f = ensure_cap_confined[OF c r]
  show ?thesis
  proof (cases "st = SDK_OK")
    case True
    with f ok show ?thesis by (simp add: eq r)
  next
    case False
    with f no show ?thesis by (simp add: eq r)
  qed
qed

lemma same_finish [same_intro]:
  "sdk_confined sv A app ctx \<Longrightarrow> op = op' \<Longrightarrow>
     same_outcome sv A app (finish_run res op r ctx e) (finish_run res op' r ctx e)"
  by (auto simp: same_outcome_def finish_run_def split: prod.splits)

lemma same_gated:
  assumes "sdk_confined sv A app ctx" "sv_consent_prompt sv = sv_consent_prompt sv'"
    and "cap \<in> A \<Longrightarrow> op = op'"
  shows "same_outcome sv A app (gated_run sv (Some cap) res op r ctx e) (gated_run sv' (Some cap) res op' r ctx e)"
  unfolding gated_run_def ensure_cap_opt_def option.case
  by (rule same_ensure[OF assms(1,2)]) (use assms(3) in \<open>auto intro: same_intro\<close>)

lemma same_gated_none:
  assumes "sdk_confined sv A app ctx" "op = op'"
  shows "same_outcome sv A app (gated_run sv None res op r ctx e) (gated_run sv' None res op' r ctx e)"
  using assms by (simp add: gated_run_def ensure_cap_opt_def same_finish)

lemma same_gated_out:
  assumes "sdk_confined sv A app ctx" "sv_consent_prompt sv = sv_consent_prompt sv'"
    and "cap \<in> A \<Longrightarrow> op = op'"
  shows "same_outcome sv A app (gated_run_out sv cap res op r out ctx e) (gated_run_out sv' cap res op' r out ctx e)"
  unfolding gated_run_out_def
  by (rule same_ensure[OF assms(1,2)])
    (use assms(3) in \<open>auto simp: same_outcome_def split: prod.splits\<close>)

lemma same_map:
  assumes "same_outcome sv A app x y"
  shows "same_outcome sv A app (case x of (st, r, ctx, e) \<Rightarrow> (st, f r, ctx, e)) (case y of (st, r, ctx, e) \<Rightarrow> (st, f r, ctx, e))"
  using assms by (auto simp: same_outcome_def split: prod.splits)

text \<open>The services are NULL for both or for none.\<close>

lemma same_service:
  assumes "rel_option Q f g" "sdk_confined sv A app ctx"
    and "\<And>f' g'. Q f' g' \<Longrightarrow> same_outcome sv A app (k f') (k' g')"
  shows "same_outcome sv A app
    (case lk of True \<Rightarrow> (case f of None \<Rightarrow> (st, r, ctx, e) | Some x \<Rightarrow> k x) | False \<Rightarrow> (st, r, ctx, e))
    (case lk of True \<Rightarrow> (case g of None \<Rightarrow> (st, r, ctx, e) | Some x \<Rightarrow> k' x) | False \<Rightarrow> (st, r, ctx, e))"
  using assms by (cases f; cases g; cases lk) (auto intro: same_triv)

lemma same_callback:
  assumes "rel_option Q f g" "same_outcome sv A app d d"
    and "\<And>f' g'. Q f' g' \<Longrightarrow> same_outcome sv A app (k f') (k' g')"
  shows "same_outcome sv A app
    (case f of None \<Rightarrow> d | Some x \<Rightarrow> k x) (case g of None \<Rightarrow> d | Some x \<Rightarrow> k' x)"
  using assms by (cases f; cases g) auto

lemma same_opt:
  assumes "same_outcome sv A app d d'" "\<And>x. y = Some x \<Longrightarrow> same_outcome sv A app (k x) (k' x)"
  shows "same_outcome sv A app (case y of None \<Rightarrow> d | Some x \<Rightarrow> k x) (case y of None \<Rightarrow> d' | Some x \<Rightarrow> k' x)"
  using assms by (cases y) auto

lemma same_sum:
  assumes "\<And>x. y = Inl x \<Longrightarrow> same_outcome sv A app (d x) (d' x)"
    "\<And>x. y = Inr x \<Longrightarrow> same_outcome sv A app (k x) (k' x)"
  shows "same_outcome sv A app (case y of Inl x \<Rightarrow> d x | Inr x \<Rightarrow> k x) (case y of Inl x \<Rightarrow> d' x | Inr x \<Rightarrow> k' x)"
  using assms by (cases y) auto

section \<open>Lemmas: files\<close>

lemma same_reach_prompts:
  assumes "same_reach A app sv sv'"
  shows "sv_locks sv' = sv_locks sv" "sv_consent_prompt sv = sv_consent_prompt sv'"
    "sv_path_prompt sv' = sv_path_prompt sv" "s2_origin_prompt (sv_v2 sv') = s2_origin_prompt (sv_v2 sv)"
    "sv_device_status sv' = sv_device_status sv" "sv_rtc_reader sv' = sv_rtc_reader sv"
    "sv_module_unload sv' = sv_module_unload sv"
  using assms by (simp_all add: same_reach_def)

lemma build_app_path_ok:
  assumes "sdk_build_app_path ctx root rel n = Inr p" "root \<in> {''/sd/apps'', ''/sd/shared''}"
  shows "app_path (sc_app_id ctx) p"
proof -
  obtain r where r: "rel = Some r" "p = root @ ''/'' @ sc_app_id ctx @ ''/'' @ strip_slashes r"
    "\<not> str_has_parent_segment rel"
    using assms(1)
    by (auto simp: sdk_build_app_path_def sdk_relative_path_is_valid_def Let_def split: if_splits option.splits)
  have "''..'' \<notin> set (split_on (CHR ''/'') (strip_slashes r))"
  proof -
    have "''..'' \<in> set (split_on (CHR ''/'') (dropWhile (\<lambda>c. c = CHR ''/'') q)) \<Longrightarrow>
          ''..'' \<in> set (split_on (CHR ''/'') q)" for q
      by (induction q) auto
    then show ?thesis using r(1,3) by (auto simp: str_has_parent_segment_split strip_slashes_def)
  qed
  with r(2) assms(2) show ?thesis by (auto simp: app_path_def)
qed

lemma scoped_path_ok: "sdk_build_scoped_path ctx rel n = Inr p \<Longrightarrow> app_path (sc_app_id ctx) p"
  by (rule build_app_path_ok[where root = "''/sd/apps''"]) (simp_all add: sdk_build_scoped_path_def)

lemma shared_path_ok: "sdk_build_shared_path ctx rel n = Inr p \<Longrightarrow> app_path (sc_app_id ctx) p"
  by (rule build_app_path_ok[where root = "''/sd/shared''"]) (simp_all add: sdk_build_shared_path_def)

lemma same_storage:
  assumes "same_reach A app sv sv'" "sdk_confined sv A app ctx"
    and "cap = None \<and> op = op' \<or> cap = Some ''files.full'' \<and> (''files.full'' \<in> A \<longrightarrow> op = op')"
  shows "same_outcome sv A app (gated_run sv cap ''storage'' op r ctx e) (gated_run sv' cap ''storage'' op' r ctx e)"
  using assms(3) same_gated[OF assms(2) same_reach_prompts(2)[OF assms(1)]] same_gated_none[OF assms(2)]
  by (elim disjE conjE) simp_all

lemma same_do_read:
  assumes s: "same_reach A app sv sv'" and c: "sdk_confined sv A app ctx"
    and p: "app_path app path \<and> cap = None \<or> cap = Some ''files.full'' \<and> opened_path sv OPEN_READ path"
  shows "same_outcome sv A app (sdk_do_read sv ctx path cap r e) (sdk_do_read sv' ctx path cap r e)"
  unfolding sdk_do_read_def same_reach_prompts(1)[OF s] prod.case
proof (rule same_opt[OF same_triv[OF c]], rule same_service[OF _ c])
  show "rel_option (\<lambda>f g. \<forall>p. app_path app p \<or> mailbox_path app p \<or> (''files.full'' \<in> A \<and> opened_path sv OPEN_READ p) \<longrightarrow> f p = g p)
        (sv_read_file sv) (sv_read_file sv')"
    using s by (simp add: same_reach_def alike_def)
qed (rule same_storage[OF s c], use p in auto)

lemma same_do_list:
  assumes s: "same_reach A app sv sv'" and c: "sdk_confined sv A app ctx"
    and p: "app_path app path \<and> cap = None \<or> cap = Some ''files.full'' \<and> opened_path sv OPEN_READ path"
  shows "same_outcome sv A app (sdk_do_list sv ctx path cap r e) (sdk_do_list sv' ctx path cap r e)"
  unfolding sdk_do_list_def same_reach_prompts(1)[OF s] prod.case
proof (rule same_opt[OF same_triv[OF c]], rule same_service[OF _ c])
  show "rel_option (\<lambda>f g. \<forall>p. app_path app p \<or> mailbox_path app p \<or> (''files.full'' \<in> A \<and> opened_path sv OPEN_READ p) \<longrightarrow> f p = g p)
        (sv_list_files sv) (sv_list_files sv')"
    using s by (simp add: same_reach_def alike_def)
qed (rule same_storage[OF s c], use p in auto)

lemma same_do_write:
  assumes s: "same_reach A app sv sv'" and c: "sdk_confined sv A app ctx"
    and p: "app_path app path \<and> cap = None \<or> cap = Some ''files.full'' \<and> opened_path sv OPEN_WRITE path"
  shows "same_outcome sv A app (sdk_do_write sv ctx path t cap r e) (sdk_do_write sv' ctx path t cap r e)"
proof (cases "r = None \<or> t = None")
  case True
  then show ?thesis using c by (auto simp: sdk_do_write_def same_triv split: option.split)
next
  case False
  then obtain r' t' where rt: "r = Some r'" "t = Some t'" by auto
  show ?thesis unfolding rt sdk_do_write_def same_reach_prompts(1)[OF s] prod.case option.case
  proof (rule same_service[OF _ c])
    show "rel_option (\<lambda>f g. \<forall>p. app_path app p \<or> outbox_path app p \<or> (''files.full'' \<in> A \<and> opened_path sv OPEN_WRITE p) \<longrightarrow> f p = g p)
          (sv_write_file sv) (sv_write_file sv')"
      using s by (simp add: same_reach_def alike_def)
  qed (rule same_storage[OF s c], use p in auto)
qed

text \<open>The sandboxed file calls.\<close>

lemma same_paths:
  assumes "sdk_confined sv A app ctx" "\<And>p. q = Inr p \<Longrightarrow> app_path app p"
    and "\<And>p. app_path app p \<Longrightarrow> same_outcome sv A app (k p) (k' p)"
  shows "same_outcome sv A app
    (case q of Inl st \<Rightarrow> (st, r, ctx, e) | Inr p \<Rightarrow> k p) (case q of Inl st \<Rightarrow> (st, r, ctx, e) | Inr p \<Rightarrow> k' p)"
  using assms by (cases q) (auto intro: same_triv)

lemma confined_app: "sdk_confined sv A app ctx \<Longrightarrow> sc_app_id ctx = app"
  by (simp add: sdk_confined_def)

lemma same_file_calls:
  assumes s: "same_reach A app sv sv'" and c: "sdk_confined sv A app ctx"
  shows "same_result sv A app (answer f (sdk_file_read sv (Some ctx) p r e)) (answer f (sdk_file_read sv' (Some ctx) p r e))"
    and "same_result sv A app (answer f (sdk_file_write sv (Some ctx) p t r e)) (answer f (sdk_file_write sv' (Some ctx) p t r e))"
    and "same_result sv A app (answer f (sdk_file_list sv (Some ctx) p r e)) (answer f (sdk_file_list sv' (Some ctx) p r e))"
    and "same_result sv A app (answer f (sdk_shared_read sv (Some ctx) p r e)) (answer f (sdk_shared_read sv' (Some ctx) p r e))"
    and "same_result sv A app (answer f (sdk_shared_write sv (Some ctx) p t r e)) (answer f (sdk_shared_write sv' (Some ctx) p t r e))"
    and "same_result sv A app (answer f (sdk_shared_list sv (Some ctx) p r e)) (answer f (sdk_shared_list sv' (Some ctx) p r e))"
  unfolding sdk_file_read_def sdk_file_write_def sdk_file_list_def sdk_shared_read_def sdk_shared_write_def sdk_shared_list_def
  by (rule same_bound[OF c], rule same_paths[OF c],
      (drule scoped_path_ok shared_path_ok, simp add: confined_app[OF c]),
      (rule same_do_read[OF s c] same_do_write[OF s c] same_do_list[OF s c], simp))+

section \<open>Lemmas: gated services\<close>

lemma same_reach_gated:
  assumes "same_reach A app sv sv'"
  shows "rel_option (\<lambda>f g. ''ble.scan'' \<in> A \<longrightarrow> f = g) (sv_ble_scan sv) (sv_ble_scan sv')"
    "rel_option (\<lambda>f g. ''ble.advertise'' \<in> A \<longrightarrow> f = g) (sv_ble_advertise_start sv) (sv_ble_advertise_start sv')"
    "rel_option (\<lambda>f g. ''ble.advertise'' \<in> A \<longrightarrow> f = g) (sv_ble_advertise_stop sv) (sv_ble_advertise_stop sv')"
    "rel_option (\<lambda>f g. ''ble.advertise'' \<in> A \<longrightarrow> f = g) (sv_ble_set_connectable sv) (sv_ble_set_connectable sv')"
    "rel_option (\<lambda>f g. ''ble.connect'' \<in> A \<longrightarrow> f = g) (sv_ble_connect sv) (sv_ble_connect sv')"
    "rel_option (\<lambda>f g. ''ble.connect'' \<in> A \<longrightarrow> f = g) (sv_ble_read_char sv) (sv_ble_read_char sv')"
    "rel_option (\<lambda>f g. ''ble.connect'' \<in> A \<longrightarrow> f = g) (sv_ble_write_char sv) (sv_ble_write_char sv')"
    "rel_option (\<lambda>f g. ''ble.connect'' \<in> A \<longrightarrow> f = g) (sv_ble_disconnect sv) (sv_ble_disconnect sv')"
    "rel_option (\<lambda>f g. ''ble.host'' \<in> A \<longrightarrow> f = g) (sv_ble_service_register sv) (sv_ble_service_register sv')"
    "rel_option (\<lambda>f g. ''ble.host'' \<in> A \<longrightarrow> f = g) (sv_ble_service_unregister sv) (sv_ble_service_unregister sv')"
    "rel_option (\<lambda>f g. ''ble.host'' \<in> A \<longrightarrow> f = g) (sv_ble_host_set_value sv) (sv_ble_host_set_value sv')"
    "rel_option (\<lambda>f g. ''ble.host'' \<in> A \<longrightarrow> f = g) (sv_ble_host_wait_write sv) (sv_ble_host_wait_write sv')"
    "rel_option (\<lambda>f g. ''ble.host'' \<in> A \<longrightarrow> f = g) (sv_ble_host_clear sv) (sv_ble_host_clear sv')"
    "rel_option (\<lambda>f g. ''esp_now'' \<in> A \<longrightarrow> f = g) (sv_espnow_send sv) (sv_espnow_send sv')"
    "rel_option (\<lambda>f g. ''esp_now'' \<in> A \<longrightarrow> f = g) (sv_espnow_recv sv) (sv_espnow_recv sv')"
    "rel_option (\<lambda>f g. ''http.request'' \<in> A \<longrightarrow> f = g) (sv_http_request sv) (sv_http_request sv')"
    "rel_option (\<lambda>f g. ''network.bind'' \<in> A \<longrightarrow> f = g) (sv_net_bind sv) (sv_net_bind sv')"
    "rel_option (\<lambda>f g. ''network.connect'' \<in> A \<longrightarrow> f = g) (s2_net_connect (sv_v2 sv)) (s2_net_connect (sv_v2 sv'))"
  using assms unfolding same_reach_def alike_if_def by blast+

text \<open>The rest of a call behind a capability check, written out in the call.\<close>

lemma same_checked:
  assumes s: "same_reach A app sv sv'" and c: "sdk_confined sv A app ctx"
    and no: "\<And>st ctx e. sdk_confined sv A app ctx \<Longrightarrow> same_outcome sv A app (d st ctx e) (d st ctx e)"
    and ok: "\<And>ctx' e. sdk_confined sv A app ctx' \<Longrightarrow> cap \<in> A \<Longrightarrow> same_outcome sv A app (k ctx' e) (k' ctx' e)"
  shows "same_outcome sv A app
    (case sdk_ensure_cap sv ctx cap e of (st, ctx, e) \<Rightarrow> if st \<noteq> SDK_OK then d st ctx e else k ctx e)
    (case sdk_ensure_cap sv' ctx cap e of (st, ctx, e) \<Rightarrow> if st \<noteq> SDK_OK then d st ctx e else k' ctx e)"
  by (rule same_ensure[OF c same_reach_prompts(2)[OF s]]) (auto intro: no ok)

lemma same_same: "sdk_confined sv A app (fst (snd (snd x))) \<Longrightarrow> same_outcome sv A app x x"
  by (simp add: same_outcome_def)

lemma same_ble_calls:
  assumes s: "same_reach A app sv sv'" and c: "sdk_confined sv A app ctx"
  shows "same_result sv A app (answer f (sdk_ble_advertise_start sv (Some ctx) p n r e)) (answer f (sdk_ble_advertise_start sv' (Some ctx) p n r e))"
    and "same_result sv A app (answer f (sdk_ble_advertise_stop sv (Some ctx) r e)) (answer f (sdk_ble_advertise_stop sv' (Some ctx) r e))"
    and "same_result sv A app (answer f (sdk_ble_read_char sv (Some ctx) k su cu r e)) (answer f (sdk_ble_read_char sv' (Some ctx) k su cu r e))"
    and "same_result sv A app (answer f (sdk_ble_write_char sv (Some ctx) k su cu t r e)) (answer f (sdk_ble_write_char sv' (Some ctx) k su cu t r e))"
  unfolding sdk_ble_advertise_start_def sdk_ble_advertise_stop_def sdk_ble_read_char_def sdk_ble_write_char_def
    same_reach_prompts(1)[OF s] prod.case
  by (rule same_bound[OF c],
      (rule same_opt same_if same_triv[OF c] same_service[OF same_reach_gated(2)[OF s] c]
        same_service[OF same_reach_gated(3)[OF s] c] same_service[OF same_reach_gated(6)[OF s] c]
        same_service[OF same_reach_gated(7)[OF s] c]
        same_gated[OF c same_reach_prompts(2)[OF s]] | simp)+)+

lemma same_fst: "same_outcome sv A app x y \<Longrightarrow> x = y"
  by (simp add: same_outcome_def)

lemma same_run_split:
  assumes "op = op'" "\<And>bs r e. same_outcome sv A app (k bs r e) (k' bs r e)"
  shows "same_outcome sv A app (case run_exclusive res op r e of (bs, r, e) \<Rightarrow> k bs r e)
                               (case run_exclusive res op' r e of (bs, r, e) \<Rightarrow> k' bs r e)"
  using assms by (auto split: prod.split)

lemma same_run_out_split:
  assumes "op = op'" "\<And>bs r out e. same_outcome sv A app (k bs r out e) (k' bs r out e)"
  shows "same_outcome sv A app (case run_exclusive_out res op r out e of (bs, r, out, e) \<Rightarrow> k bs r out e)
                               (case run_exclusive_out res op' r out e of (bs, r, out, e) \<Rightarrow> k' bs r out e)"
  using assms by (auto split: prod.split)

lemma same_let: "same_outcome sv A app (k x) (k' x) \<Longrightarrow> same_outcome sv A app (let y = x in k y) (let y = x in k' y)"
  by simp

lemma same_case3:
  assumes "x = y" "\<And>a b c. same_outcome sv A app (k a b c) (k' a b c)"
  shows "same_outcome sv A app (case x of (a, b, c) \<Rightarrow> k a b c) (case y of (a, b, c) \<Rightarrow> k' a b c)"
  using assms by (auto split: prod.split)

lemma same_ble_link_calls:
  assumes s: "same_reach A app sv sv'" and c: "sdk_confined sv A app ctx"
  shows "same_result sv A app (answer f (sdk_ble_connect j sv (Some ctx) a out e)) (answer f (sdk_ble_connect j sv' (Some ctx) a out e))"
    and "same_result sv A app (answer fu (sdk_ble_disconnect j sv (Some ctx) k e)) (answer fu (sdk_ble_disconnect j sv' (Some ctx) k e))"
    and "same_result sv A app (answer fr (sdk_ble_service_register sv (Some ctx) u r e)) (answer fr (sdk_ble_service_register sv' (Some ctx) u r e))"
    and "same_result sv A app (answer fr (sdk_ble_service_unregister sv (Some ctx) r e)) (answer fr (sdk_ble_service_unregister sv' (Some ctx) r e))"
  unfolding sdk_ble_connect_def sdk_ble_disconnect_def sdk_ble_service_register_def sdk_ble_service_unregister_def
    same_reach_prompts(1)[OF s] prod.case
  by (rule same_bound[OF c],
      (rule same_opt same_if same_triv[OF c] same_triv same_let same_service[OF same_reach_gated(5)[OF s] c]
        same_service[OF same_reach_gated(8)[OF s] c] same_service[OF same_reach_gated(9)[OF s] c]
        same_service[OF same_reach_gated(10)[OF s] c] same_checked[OF s c] same_run_split
        same_same | simp)+)+

lemma same_ble_host_calls:
  assumes s: "same_reach A app sv sv'" and c: "sdk_confined sv A app ctx"
  shows "same_result sv A app (answer f (sdk_ble_host_set_value sv (Some ctx) d n r e)) (answer f (sdk_ble_host_set_value sv' (Some ctx) d n r e))"
    and "same_result sv A app (answer g (sdk_ble_host_wait_write sv (Some ctx) n out t r e)) (answer g (sdk_ble_host_wait_write sv' (Some ctx) n out t r e))"
    and "same_result sv A app (answer f (sdk_ble_host_clear sv (Some ctx) r e)) (answer f (sdk_ble_host_clear sv' (Some ctx) r e))"
    and "same_result sv A app (answer f (sdk_ble_set_connectable sv (Some ctx) b r e)) (answer f (sdk_ble_set_connectable sv' (Some ctx) b r e))"
  unfolding sdk_ble_host_set_value_def sdk_ble_host_wait_write_def sdk_ble_host_clear_def sdk_ble_set_connectable_def
  by (rule same_bound[OF c],
      (rule same_if same_triv[OF c] same_triv same_callback[OF same_reach_gated(11)[OF s]]
        same_callback[OF same_reach_gated(12)[OF s]] same_callback[OF same_reach_gated(13)[OF s]]
        same_callback[OF same_reach_gated(4)[OF s]] same_checked[OF s c] same_case3 | simp)+)+

lemma same_gated_out_map:
  assumes "sdk_confined sv A app ctx" "sv_consent_prompt sv = sv_consent_prompt sv'" "cap \<in> A \<longrightarrow> op = op'"
  shows "same_outcome sv A app
      (case gated_run_out sv cap res op r0 x ctx e of (st, (r, y), ctx, e) \<Rightarrow> (st, (r, h y), ctx, e))
      (case gated_run_out sv' cap res op' r0 x ctx e of (st, (r, y), ctx, e) \<Rightarrow> (st, (r, h y), ctx, e))"
  using same_gated_out[OF assms(1,2), where op = op and op' = op' and cap = cap and res = res and r = r0 and out = x and e = e] assms(3)
  by (auto simp: same_outcome_def split: prod.splits)

lemma same_ble_scan:
  assumes s: "same_reach A app sv sv'" and c: "sdk_confined sv A app ctx"
  shows "same_result sv A app (answer g (sdk_ble_scan sv (Some ctx) d b m o1 r e)) (answer g (sdk_ble_scan sv' (Some ctx) d b m o1 r e))"
  unfolding sdk_ble_scan_def same_reach_prompts(1)[OF s] prod.case
  by (rule same_bound[OF c],
      (rule same_opt same_if same_triv[OF c] same_service[OF same_reach_gated(1)[OF s] c]
        same_gated_out_map[OF c same_reach_prompts(2)[OF s]] | simp)+)

section \<open>Lemmas: radio, network, messages and values\<close>

lemma same_radio_calls:
  assumes s: "same_reach A app sv sv'" and c: "sdk_confined sv A app ctx"
  shows "same_result sv A app (answer f (sdk_espnow_send sv (Some ctx) p d n r e)) (answer f (sdk_espnow_send sv' (Some ctx) p d n r e))"
    and "same_result sv A app (answer g (sdk_espnow_recv sv (Some ctx) out n t r e)) (answer g (sdk_espnow_recv sv' (Some ctx) out n t r e))"
    and "same_result sv A app (answer f (sdk_http_request sv (Some ctx) m u b r e)) (answer f (sdk_http_request sv' (Some ctx) m u b r e))"
  unfolding sdk_espnow_send_def sdk_espnow_recv_def sdk_http_request_def same_reach_prompts(1)[OF s] prod.case
  by (rule same_bound[OF c],
      (rule same_if same_triv[OF c] same_triv same_service[OF same_reach_gated(14)[OF s] c]
        same_service[OF same_reach_gated(15)[OF s] c] same_service[OF same_reach_gated(16)[OF s] c]
        same_gated[OF c same_reach_prompts(2)[OF s]] same_checked[OF s c] same_run_out_split | simp)+)+

lemma same_prompt:
  assumes c: "sdk_confined sv A app ctx"
    and k: "\<And>b ctx' e'. sdk_confined sv A app ctx' \<Longrightarrow> (b \<Longrightarrow> \<exists>ui w. fst (p ui w)) \<Longrightarrow>
        (\<exists>ui. ctx' = ctx\<lparr> sc_ui := ui \<rparr>) \<Longrightarrow> same_outcome sv A app (k b ctx' e') (k' b ctx' e')"
  shows "same_outcome sv A app (case run_prompt p ctx e of (b, ctx, e) \<Rightarrow> k b ctx e)
                               (case run_prompt p ctx e of (b, ctx, e) \<Rightarrow> k' b ctx e)"
proof -
  obtain b ctx' e' where r: "run_prompt p ctx e = (b, ctx', e')" by (metis prod_cases3)
  note u = run_prompt_ui[OF r]
  have "sdk_confined sv A app ctx'" using c u by auto
  then have "same_outcome sv A app (k b ctx' e') (k' b ctx' e')" by (rule k) (use u in auto)
  then show ?thesis by (simp add: r)
qed

lemma same_https:
  assumes s: "same_reach A app sv sv'" and c: "sdk_confined sv A app ctx"
  shows "same_result sv A app (answer f (sdk_https_request sv (Some ctx) m u b r e)) (answer f (sdk_https_request sv' (Some ctx) m u b r e))"
proof -
  let ?Q = "\<lambda>f g. \<forall>m u b. ''https.request'' \<in> A \<longrightarrow>
          (\<forall>orig. sdk_https_origin (Some u) SDK_ORIGIN_MAX = Inr orig \<longrightarrow> approves_origin sv orig \<longrightarrow> f m u b = g m u b)"
  have q: "rel_option ?Q (s2_https_request (sv_v2 sv)) (s2_https_request (sv_v2 sv'))"
    using s unfolding same_reach_def by blast
  have step: "same_outcome sv A app
      (case sdk_ensure_cap sv ctx ''https.request'' e of (cap_st, ctx, e) \<Rightarrow>
         if cap_st \<noteq> SDK_OK then (cap_st, access_denied r, ctx, e)
         else (case run_prompt (pr orig) ctx e of (allowed, ctx, e) \<Rightarrow>
                 if \<not> allowed then (SDK_ACCESS_DENIED, access_denied r, ctx, e)
                 else finish_run ''http'' (f' (the m) (the u) b) (the r) ctx e))
      (case sdk_ensure_cap sv' ctx ''https.request'' e of (cap_st, ctx, e) \<Rightarrow>
         if cap_st \<noteq> SDK_OK then (cap_st, access_denied r, ctx, e)
         else (case run_prompt (pr orig) ctx e of (allowed, ctx, e) \<Rightarrow>
                 if \<not> allowed then (SDK_ACCESS_DENIED, access_denied r, ctx, e)
                 else finish_run ''http'' (g' (the m) (the u) b) (the r) ctx e))"
    if "?Q f' g'" "sdk_https_origin u SDK_ORIGIN_MAX = Inr orig" "s2_origin_prompt (sv_v2 sv) = Some pr" "u \<noteq> None"
    for f' g' pr orig
  proof (rule same_checked[OF s c])
    fix ctx' e' assume c': "sdk_confined sv A app ctx'" "''https.request'' \<in> A"
    show "same_outcome sv A app
        (case run_prompt (pr orig) ctx' e' of (allowed, ctx, e) \<Rightarrow>
           if \<not> allowed then (SDK_ACCESS_DENIED, access_denied r, ctx, e)
           else finish_run ''http'' (f' (the m) (the u) b) (the r) ctx e)
        (case run_prompt (pr orig) ctx' e' of (allowed, ctx, e) \<Rightarrow>
           if \<not> allowed then (SDK_ACCESS_DENIED, access_denied r, ctx, e)
           else finish_run ''http'' (g' (the m) (the u) b) (the r) ctx e)"
    proof (rule same_prompt[OF c'(1)], rule same_if)
      fix b' ctx2 e2 assume b': "b' \<Longrightarrow> \<exists>ui w. fst (pr orig ui w)" "\<not> \<not> b'" and c2: "sdk_confined sv A app ctx2"
      have "approves_origin sv orig" using b' that(3) by (simp add: approves_origin_def)
      then have "f' (the m) (the u) b = g' (the m) (the u) b" using that(1,2,4) c'(2) by auto
      with c2 show "same_outcome sv A app (finish_run ''http'' (f' (the m) (the u) b) (the r) ctx2 e2)
          (finish_run ''http'' (g' (the m) (the u) b) (the r) ctx2 e2)"
        by (rule same_finish)
    qed (rule same_triv)
  qed (rule same_triv)
  show ?thesis
    unfolding sdk_https_request_def same_reach_prompts(1,4)[OF s] prod.case
    by (rule same_bound[OF c], (rule same_if, rule same_triv[OF c])+, rule same_service[OF q c],
        rule same_opt[OF same_triv[OF c]], rule same_sum[OF same_triv[OF c]], rule step) simp_all
qed

lemma same_net_ready: "same_reach A app sv sv' \<Longrightarrow> sdk_net_ensure_ready sv' r = sdk_net_ensure_ready sv r"
  using same_reach_gated(17)[of A app sv sv'] same_reach_prompts(1)[of A app sv sv']
  by (cases "sv_net_bind sv"; cases "sv_net_bind sv'") (auto simp: sdk_net_ensure_ready_def)

lemma net_ensure_ok:
  "sdk_net_ensure_ready sv r = SDK_OK \<Longrightarrow> sv_net_bind sv \<noteq> None"
  by (cases "sv_net_bind sv") (auto simp: sdk_net_ensure_ready_def split: if_splits)

text \<open>A socket call behind sdk_net_ensure.\<close>

lemma same_net_ensure:
  assumes s: "same_reach A app sv sv'" and c: "sdk_confined sv A app ctx"
    and no: "\<And>st r ctx e. sdk_confined sv A app ctx \<Longrightarrow> same_outcome sv A app (d st r ctx e) (d st r ctx e)"
    and ok: "\<And>ctx' e. sdk_confined sv A app ctx' \<Longrightarrow> cap \<in> A \<Longrightarrow> sv_net_bind sv \<noteq> None \<Longrightarrow>
              same_outcome sv A app (k r ctx' e) (k' r ctx' e)"
  shows "same_outcome sv A app
    (case sdk_net_ensure sv ctx r cap e of (st, r, ctx, e) \<Rightarrow> if st \<noteq> SDK_OK then d st r ctx e else k r ctx e)
    (case sdk_net_ensure sv' ctx r cap e of (st, r, ctx, e) \<Rightarrow> if st \<noteq> SDK_OK then d st r ctx e else k' r ctx e)"
proof (cases "sdk_net_ensure_ready sv r = SDK_OK")
  case False
  then show ?thesis using no c by (simp add: sdk_net_ensure_def same_net_ready[OF s])
next
  case True
  obtain st ctx' e' where q: "sdk_ensure_cap sv ctx cap e = (st, ctx', e')" by (metis prod_cases3)
  have q': "sdk_ensure_cap sv' ctx cap e = (st, ctx', e')"
    using q unfolding sdk_ensure_cap_def same_reach_prompts(2)[OF s] .
  note f = ensure_cap_confined[OF c q]
  show ?thesis using True q q' f no ok net_ensure_ok[OF True]
    by (simp add: sdk_net_ensure_def same_net_ready[OF s])
qed

lemma same_net_ensure_any:
  assumes s: "same_reach A app sv sv'" and c: "sdk_confined sv A app ctx"
    and no: "\<And>st r. same_outcome sv A app (d st r) (d st r)"
    and ok: "''network.bind'' \<in> A \<or> ''network.connect'' \<in> A \<Longrightarrow> same_outcome sv A app (k r) (k' r)"
  shows "same_outcome sv A app
    (case sdk_net_ensure_any sv ctx r of (st, r) \<Rightarrow> if st \<noteq> SDK_OK then d st r else k r)
    (case sdk_net_ensure_any sv' ctx r of (st, r) \<Rightarrow> if st \<noteq> SDK_OK then d st r else k' r)"
  using no ok confined_has_capability[OF c]
  by (auto simp: sdk_net_ensure_any_def same_net_ready[OF s])

lemma same_net_run_out:
  assumes "sdk_confined sv A app ctx" "op = op'"
  shows "same_outcome sv A app
     (case sdk_net_run_out op r x ctx e of (st, (r, y), ctx, e) \<Rightarrow> (st, (r, h y), ctx, e))
     (case sdk_net_run_out op' r x ctx e of (st, (r, y), ctx, e) \<Rightarrow> (st, (r, h y), ctx, e))"
  using assms by (auto simp: same_outcome_def sdk_net_run_out_def split: prod.splits)

lemma same_sockets:
  assumes "same_reach A app sv sv'"
  shows "''network.bind'' \<in> A \<Longrightarrow> sv_net_accept sv' = sv_net_accept sv"
    and "''network.bind'' \<in> A \<Longrightarrow> sv_net_bind sv \<noteq> None \<Longrightarrow> the (sv_net_bind sv') = the (sv_net_bind sv)"
    and "''network.bind'' \<in> A \<or> ''network.connect'' \<in> A \<Longrightarrow> sv_net_recv sv' = sv_net_recv sv"
    and "''network.bind'' \<in> A \<or> ''network.connect'' \<in> A \<Longrightarrow> sv_net_send sv' = sv_net_send sv"
    and "''network.bind'' \<in> A \<or> ''network.connect'' \<in> A \<Longrightarrow> sv_net_close sv' = sv_net_close sv"
proof -
  have a: "(''network.bind'' \<in> A \<longrightarrow> sv_net_accept sv = sv_net_accept sv')"
    "(''network.bind'' \<in> A \<or> ''network.connect'' \<in> A \<longrightarrow>
         sv_net_recv sv = sv_net_recv sv' \<and> sv_net_send sv = sv_net_send sv' \<and> sv_net_close sv = sv_net_close sv')"
    using assms unfolding same_reach_def by blast+
  then show "''network.bind'' \<in> A \<Longrightarrow> sv_net_accept sv' = sv_net_accept sv"
    "''network.bind'' \<in> A \<or> ''network.connect'' \<in> A \<Longrightarrow> sv_net_recv sv' = sv_net_recv sv"
    "''network.bind'' \<in> A \<or> ''network.connect'' \<in> A \<Longrightarrow> sv_net_send sv' = sv_net_send sv"
    "''network.bind'' \<in> A \<or> ''network.connect'' \<in> A \<Longrightarrow> sv_net_close sv' = sv_net_close sv"
    by simp_all
  show "''network.bind'' \<in> A \<Longrightarrow> sv_net_bind sv \<noteq> None \<Longrightarrow> the (sv_net_bind sv') = the (sv_net_bind sv)"
    using same_reach_gated(17)[OF assms] by (cases "sv_net_bind sv"; cases "sv_net_bind sv'") auto
qed

lemma same_net_calls:
  assumes s: "same_reach A app sv sv'" and c: "sdk_confined sv A app ctx"
  shows "same_result sv A app (answer f (sdk_net_bind sv (Some ctx) p r e)) (answer f (sdk_net_bind sv' (Some ctx) p r e))"
    and "same_result sv A app (answer g (sdk_net_accept sv (Some ctx) t o1 r e)) (answer g (sdk_net_accept sv' (Some ctx) t o1 r e))"
    and "same_result sv A app (answer g (sdk_net_connect sv (Some ctx) h p t o1 r e)) (answer g (sdk_net_connect sv' (Some ctx) h p t o1 r e))"
    and "same_result sv A app (answer k (sdk_net_recv sv (Some ctx) i n o2 t r e)) (answer k (sdk_net_recv sv' (Some ctx) i n o2 t r e))"
    and "same_result sv A app (answer f (sdk_net_send sv (Some ctx) i o2 n r e)) (answer f (sdk_net_send sv' (Some ctx) i o2 n r e))"
    and "same_result sv A app (answer f (sdk_net_close sv (Some ctx) i r e)) (answer f (sdk_net_close sv' (Some ctx) i r e))"
  unfolding sdk_net_bind_def sdk_net_accept_def sdk_net_connect_def sdk_net_recv_def sdk_net_send_def
    sdk_net_close_def sdk_net_run_def
  by (rule same_bound[OF c],
      (rule same_net_ensure[OF s c] same_net_ensure_any[OF s c] same_if same_triv[OF c] same_triv same_finish
        same_net_run_out same_callback[OF same_reach_gated(18)[OF s]] c
        | simp add: same_sockets[OF s])+)+

lemma same_reach_files:
  assumes "same_reach A app sv sv'"
  shows "rel_option (\<lambda>f g. \<forall>p. mailbox_path app p \<longrightarrow> f p = g p) (sv_read_file sv) (sv_read_file sv')"
    "rel_option (\<lambda>f g. \<forall>p. mailbox_path app p \<longrightarrow> f p = g p) (sv_list_files sv) (sv_list_files sv')"
    "rel_option (\<lambda>f g. \<forall>p. mailbox_path app p \<longrightarrow> f p = g p) (sv_delete_file sv) (sv_delete_file sv')"
    "rel_option (\<lambda>f g. \<forall>p. outbox_path app p \<longrightarrow> f p = g p) (sv_write_file sv) (sv_write_file sv')"
    "rel_option (\<lambda>f g. \<forall>p. app_path app p \<longrightarrow> f p = g p) (sv_module_load sv) (sv_module_load sv')"
    "rel_option (\<lambda>f g. f app = g app) (sv_kv_read sv) (sv_kv_read sv')"
    "rel_option (\<lambda>f g. f app = g app) (sv_kv_write sv) (sv_kv_write sv')"
    "rel_option (\<lambda>f g. f app = g app) (sv_kv_delete sv) (sv_kv_delete sv')"
    "rel_option (\<lambda>f g. f app = g app) (sv_log_writer sv) (sv_log_writer sv')"
proof -
  have a:
    "alike (\<lambda>p. app_path app p \<or> mailbox_path app p \<or> (''files.full'' \<in> A \<and> opened_path sv OPEN_READ p))
        (sv_read_file sv) (sv_read_file sv')"
    "alike (\<lambda>p. app_path app p \<or> mailbox_path app p \<or> (''files.full'' \<in> A \<and> opened_path sv OPEN_READ p))
        (sv_list_files sv) (sv_list_files sv')"
    "alike (\<lambda>p. app_path app p \<or> outbox_path app p \<or> (''files.full'' \<in> A \<and> opened_path sv OPEN_WRITE p))
        (sv_write_file sv) (sv_write_file sv')"
    "alike (mailbox_path app) (sv_delete_file sv) (sv_delete_file sv')"
    "alike (app_path app) (sv_module_load sv) (sv_module_load sv')"
    "alike (\<lambda>a. a = app) (sv_kv_read sv) (sv_kv_read sv')"
    "alike (\<lambda>a. a = app) (sv_kv_write sv) (sv_kv_write sv')"
    "alike (\<lambda>a. a = app) (sv_kv_delete sv) (sv_kv_delete sv')"
    and l: "rel_option (\<lambda>f g. f app = g app) (sv_log_writer sv) (sv_log_writer sv')"
    using assms unfolding same_reach_def by blast+
  have m: "alike P f g \<Longrightarrow> (\<And>f' g'. \<forall>x. P x \<longrightarrow> f' x = g' x \<Longrightarrow> Q f' g') \<Longrightarrow> rel_option Q f g" for P Q f g
    unfolding alike_def by (erule option.rel_mono_strong) auto
  show "rel_option (\<lambda>f g. \<forall>p. mailbox_path app p \<longrightarrow> f p = g p) (sv_read_file sv) (sv_read_file sv')"
    by (rule m[OF a(1)]) simp
  show "rel_option (\<lambda>f g. \<forall>p. mailbox_path app p \<longrightarrow> f p = g p) (sv_list_files sv) (sv_list_files sv')"
    by (rule m[OF a(2)]) simp
  show "rel_option (\<lambda>f g. \<forall>p. mailbox_path app p \<longrightarrow> f p = g p) (sv_delete_file sv) (sv_delete_file sv')"
    by (rule m[OF a(4)])
  show "rel_option (\<lambda>f g. \<forall>p. outbox_path app p \<longrightarrow> f p = g p) (sv_write_file sv) (sv_write_file sv')"
    by (rule m[OF a(3)]) simp
  show "rel_option (\<lambda>f g. \<forall>p. app_path app p \<longrightarrow> f p = g p) (sv_module_load sv) (sv_module_load sv')"
    by (rule m[OF a(5)])
  show "rel_option (\<lambda>f g. f app = g app) (sv_kv_read sv) (sv_kv_read sv')" by (rule m[OF a(6)]) simp
  show "rel_option (\<lambda>f g. f app = g app) (sv_kv_write sv) (sv_kv_write sv')" by (rule m[OF a(7)]) simp
  show "rel_option (\<lambda>f g. f app = g app) (sv_kv_delete sv) (sv_kv_delete sv')" by (rule m[OF a(8)]) simp
  show "rel_option (\<lambda>f g. f app = g app) (sv_log_writer sv) (sv_log_writer sv')" by (rule l)
qed

lemma same_app_calls:
  assumes s: "same_reach A app sv sv'" and c: "sdk_confined sv A app ctx"
  shows "same_result sv A app (answer f (sdk_kv_get j sv (Some ctx) k o1 n e)) (answer f (sdk_kv_get j sv' (Some ctx) k o1 n e))"
    and "same_result sv A app (answer g (sdk_kv_set j sv (Some ctx) k v e)) (answer g (sdk_kv_set j sv' (Some ctx) k v e))"
    and "same_result sv A app (answer g (sdk_kv_delete j sv (Some ctx) k e)) (answer g (sdk_kv_delete j sv' (Some ctx) k e))"
    and "same_result sv A app (answer g (sdk_module_unload sv (Some ctx) m e)) (answer g (sdk_module_unload sv' (Some ctx) m e))"
  unfolding sdk_kv_get_def sdk_kv_set_def sdk_kv_delete_def sdk_module_unload_def
    same_reach_prompts(1,7)[OF s] prod.case
  by (rule same_bound[OF c],
      (rule same_if same_opt same_triv[OF c] same_run_split same_run_out_split
        same_service[OF same_reach_files(6)[OF s] c] same_service[OF same_reach_files(7)[OF s] c]
        same_service[OF same_reach_files(8)[OF s] c] | simp add: confined_app[OF c])+)+

lemma same_module_load:
  assumes s: "same_reach A app sv sv'" and c: "sdk_confined sv A app ctx"
  shows "same_result sv A app (answer f (sdk_module_load sv (Some ctx) p o1 e)) (answer f (sdk_module_load sv' (Some ctx) p o1 e))"
  unfolding sdk_module_load_def
proof (rule same_bound[OF c], rule same_if[OF same_triv[OF c]],
    rule same_callback[OF same_reach_files(5)[OF s] same_triv[OF c]], rule same_paths[OF c])
  fix q assume "sdk_build_scoped_path ctx p SDK_PATH_MAX = Inr q"
  then show "app_path app q" using scoped_path_ok confined_app[OF c] by blast
qed (auto intro: same_triv c split: prod.split)

text \<open>Messages.\<close>

lemma confined_length: "sdk_confined sv A app ctx \<Longrightarrow> length (sc_app_id ctx) < 64"
  by (simp add: sdk_confined_def)

lemma take_front: "n = length a \<Longrightarrow> take n (a @ b) = a"
  by simp

lemma mailbox_path_buf:
  assumes "length app < 64"
  shows "mailbox_path app (path_buf (''/sd/ipc/'' @ app @ rest))"
proof -
  have "path_buf (''/sd/ipc/'' @ app @ rest) = (''/sd/ipc/'' @ app) @ take (151 - length app) rest"
    using assms by (simp add: path_buf_def SDK_PATH_MAX_def)
  then show ?thesis unfolding mailbox_path_def by (simp only:) (rule take_front, simp)
qed

lemma dec_length: "n < 10 ^ Suc k \<Longrightarrow> length (dec n) \<le> Suc k"
proof (induction k arbitrary: n)
  case (Suc k)
  show ?case
  proof (cases "n < 10")
    case False
    have "n div 10 < 10 ^ Suc k" using Suc.prems by (simp add: less_mult_imp_div_less mult.commute)
    then show ?thesis using Suc.IH[of "n div 10"] False by (subst dec.simps) simp
  qed (subst dec.simps, simp)
qed (subst dec.simps, simp)

lemma outbox_path_buf:
  assumes "sdk_app_id_segment_is_safe (Some u)" "16 + length u + length app + 20 \<le> 160"
  shows "outbox_path app (path_buf (''/sd/ipc/'' @ u @ ''/'' @ app @ ''/msg_'' @ dec (unat (t :: 32 word)) @ ''.json''))"
proof -
  have "unat t < 10 ^ Suc 9" using unsigned_less[of t, where ?'a = nat] by simp
  then have "length (dec (unat t)) \<le> 10" using dec_length[of "unat t" 9] by simp
  then have "path_buf (''/sd/ipc/'' @ u @ ''/'' @ app @ ''/msg_'' @ dec (unat t) @ ''.json'') =
      ''/sd/ipc/'' @ u @ ''/'' @ app @ ''/msg_'' @ dec (unat t) @ ''.json''"
    unfolding path_buf_def SDK_PATH_MAX_def using assms(2) by (intro take_all) simp
  then show ?thesis using assms(1) dec_digits by (auto simp: outbox_path_def)
qed

lemma same_ipc_send:
  assumes s: "same_reach A app sv sv'" and c: "sdk_confined sv A app ctx"
  shows "same_result sv A app (answer f (sdk_ipc_send t sv (Some ctx) u p r e)) (answer f (sdk_ipc_send t sv' (Some ctx) u p r e))"
  unfolding sdk_ipc_send_def same_reach_prompts(1)[OF s] prod.case Let_def
proof (rule same_bound[OF c], (rule same_if, rule same_triv[OF c])+,
    rule same_service[OF same_reach_files(4)[OF s] c], rule same_if, rule same_triv[OF c])
  fix f' g' :: "string \<Rightarrow> string \<Rightarrow> 'a exclusive_operation"
  assume h: "\<forall>p. outbox_path app p \<longrightarrow> f' p = g' p" "\<not> \<not> sdk_app_id_segment_is_safe u"
    "\<not> SDK_PATH_MAX < 16 + length (the u) + length (sc_app_id ctx) + 20"
  then obtain u' where u: "u = Some u'" by (cases u) (auto simp: sdk_app_id_segment_is_safe_def)
  show "same_outcome sv A app
     (finish_run ''storage'' (f' (path_buf (''/sd/ipc/'' @ the u @ ''/'' @ sc_app_id ctx @ ''/msg_'' @ dec (unat t) @ ''.json'')) (the p)) (the r) ctx e)
     (finish_run ''storage'' (g' (path_buf (''/sd/ipc/'' @ the u @ ''/'' @ sc_app_id ctx @ ''/msg_'' @ dec (unat t) @ ''.json'')) (the p)) (the r) ctx e)"
    using h u outbox_path_buf[of u' app t] by (intro same_finish[OF c]) (simp add: confined_app[OF c] SDK_PATH_MAX_def)
qed

lemma ipc_take_same:
  "reader p = reader' p \<Longrightarrow> deleter p = deleter' p \<Longrightarrow>
     ipc_take j reader deleter p sender n r out e = ipc_take j reader' deleter' p sender n r out e"
  unfolding ipc_take_def by (erule ssubst, erule ssubst, rule refl)

lemma same_ipc_recv:
  assumes s: "same_reach A app sv sv'" and c: "sdk_confined sv A app ctx"
  shows "same_result sv A app (answer f (sdk_ipc_recv j sv (Some ctx) o1 n r e)) (answer f (sdk_ipc_recv j sv' (Some ctx) o1 n r e))"
proof -
  have m: "mailbox_path app (path_buf (''/sd/ipc/'' @ app @ rest))" for rest
    using mailbox_path_buf confined_length[OF c] by (simp add: confined_app[OF c])
  have m0: "mailbox_path app (path_buf (''/sd/ipc/'' @ app))" using m[of "[]"] by simp
  show ?thesis
    unfolding sdk_ipc_recv_def same_reach_prompts(1)[OF s] prod.case
  proof (rule same_bound[OF c], rule same_if[OF same_triv[OF c]],
      rule same_service[OF same_reach_files(2)[OF s] c],
      rule same_callback[OF same_reach_files(1)[OF s] same_triv[OF c]],
      rule same_callback[OF same_reach_files(3)[OF s] same_triv[OF c]],
      unfold confined_app[OF c])
    fix lf lg rf rg df dg :: "string \<Rightarrow> 'a exclusive_operation"
    assume h: "\<forall>p. mailbox_path app p \<longrightarrow> lf p = lg p" "\<forall>p. mailbox_path app p \<longrightarrow> rf p = rg p"
      "\<forall>p. mailbox_path app p \<longrightarrow> df p = dg p"
    have l0: "lf (path_buf (''/sd/ipc/'' @ app)) = lg (path_buf (''/sd/ipc/'' @ app))"
      "lf (path_buf (''/sd/ipc/'' @ app @ x)) = lg (path_buf (''/sd/ipc/'' @ app @ x))" for x
      using h(1) m m0 by blast+
    have t: "ipc_take j rf df (path_buf (''/sd/ipc/'' @ app @ x)) q n r o1 e' =
        ipc_take j rg dg (path_buf (''/sd/ipc/'' @ app @ x)) q n r o1 e'" for x q e'
      by (rule ipc_take_same) (use h(2,3) m in blast)+
    show "same_outcome sv A app
       (case run_exclusive ''storage'' (lf (path_buf (''/sd/ipc/'' @ app))) j e of
          (bs, list_result, e) \<Rightarrow>
            (case first_entry bs list_result of None \<Rightarrow> (SDK_NO_DATA, (no_messages r, o1), ctx, e)
             | Some sender \<Rightarrow>
                 (case run_exclusive ''storage'' (lf (path_buf (''/sd/ipc/'' @ app @ ''/'' @ sender))) list_result e of
                    (bs, list_result, e) \<Rightarrow>
                      (case first_entry bs list_result of None \<Rightarrow> (SDK_NO_DATA, (no_messages r, o1), ctx, e)
                       | Some msg \<Rightarrow>
                           (case ipc_take j rf df (path_buf (''/sd/ipc/'' @ app @ ''/'' @ sender @ ''/'' @ msg))
                                   sender n r o1 e of (st, r, e) \<Rightarrow> (st, r, ctx, e))))))
       (case run_exclusive ''storage'' (lg (path_buf (''/sd/ipc/'' @ app))) j e of
          (bs, list_result, e) \<Rightarrow>
            (case first_entry bs list_result of None \<Rightarrow> (SDK_NO_DATA, (no_messages r, o1), ctx, e)
             | Some sender \<Rightarrow>
                 (case run_exclusive ''storage'' (lg (path_buf (''/sd/ipc/'' @ app @ ''/'' @ sender))) list_result e of
                    (bs, list_result, e) \<Rightarrow>
                      (case first_entry bs list_result of None \<Rightarrow> (SDK_NO_DATA, (no_messages r, o1), ctx, e)
                       | Some msg \<Rightarrow>
                           (case ipc_take j rg dg (path_buf (''/sd/ipc/'' @ app @ ''/'' @ sender @ ''/'' @ msg))
                                   sender n r o1 e of (st, r, e) \<Rightarrow> (st, r, ctx, e))))))"
      unfolding l0 t using c by (auto simp: same_outcome_def split: prod.split option.split)
  qed
qed

section \<open>Lemmas: handles and the rest\<close>

lemma confined_handles:
  assumes "sdk_confined sv A app ctx" "he_active h \<longrightarrow> opened_path sv (he_mode h) (he_path h)"
  shows "sdk_confined sv A app (ctx\<lparr> sc_handles := (sc_handles ctx)[i := h] \<rparr>)"
proof -
  have "set ((sc_handles ctx)[i := h]) \<subseteq> insert h (set (sc_handles ctx))" by (rule set_update_subset_insert)
  with assms show ?thesis by (auto simp: sdk_confined_def sdk_caller_def)
qed

lemma opened_copy:
  assumes "sdk_full_path_is_valid p" "approves sv m (the p)"
  shows "opened_path sv m (the (snd (sdk_copy_text SDK_PATH_MAX p)))"
proof -
  obtain q where q: "p = Some q" using assms(1) by (cases p) (simp_all add: sdk_full_path_is_valid_def)
  have "the (snd (sdk_copy_text SDK_PATH_MAX p)) = take 159 q"
    by (simp add: q sdk_copy_text_def SDK_PATH_MAX_def)
  with assms q show ?thesis by (auto simp: opened_path_def)
qed

lemma same_file_open:
  assumes s: "same_reach A app sv sv'" and c: "sdk_confined sv A app ctx"
  shows "same_result sv A app (answer f (sdk_file_open sv (Some ctx) p m o1 e)) (answer f (sdk_file_open sv' (Some ctx) p m o1 e))"
  unfolding sdk_file_open_def same_reach_prompts(3)[OF s] Let_def
proof (rule same_bound[OF c], (rule same_if, rule same_triv[OF c])+, rule same_opt[OF same_triv[OF c]],
    rule same_checked[OF s c], erule same_triv, rule same_if, erule same_triv, erule same_prompt, rule same_if, erule same_triv)
  fix prompt ctx1 e1 b ctx2 and e2 :: "'a sdk_env"
  assume h: "\<not> \<not> sdk_full_path_is_valid p" "sv_path_prompt sv = Some prompt" "sdk_confined sv A app ctx2"
    "b \<Longrightarrow> \<exists>ui w. fst (prompt (the p) m ui w)" "\<not> \<not> b"
  have "approves sv m (the p)" using h(2,4,5) by (simp add: approves_def)
  then have "opened_path sv m (the (snd (sdk_copy_text SDK_PATH_MAX p)))" using opened_copy h(1) by blast
  then show "same_outcome sv A app
      (SDK_OK, Some (sdk_find_free_handle ctx1), ctx2\<lparr> sc_handles := (sc_handles ctx2)[sdk_find_free_handle ctx1 :=
          \<lparr> he_path = the (snd (sdk_copy_text SDK_PATH_MAX p)), he_mode = m, he_active = True \<rparr>] \<rparr>, e2)
      (SDK_OK, Some (sdk_find_free_handle ctx1), ctx2\<lparr> sc_handles := (sc_handles ctx2)[sdk_find_free_handle ctx1 :=
          \<lparr> he_path = the (snd (sdk_copy_text SDK_PATH_MAX p)), he_mode = m, he_active = True \<rparr>] \<rparr>, e2)"
    using confined_handles[OF h(3)] by (intro same_triv) simp
qed

lemma resolve_opened:
  assumes "sdk_confined sv A app ctx" "sdk_resolve_handle ctx h = Some en"
  shows "opened_path sv (he_mode en) (he_path en)"
proof -
  have "h < length (sc_handles ctx)" "en = sc_handles ctx ! h" "he_active en"
    using assms by (auto simp: sdk_confined_def sdk_resolve_handle_def split: if_splits)
  then show ?thesis using assms(1) by (auto simp: sdk_confined_def)
qed

lemma same_handle_calls:
  assumes s: "same_reach A app sv sv'" and c: "sdk_confined sv A app ctx"
  shows "same_result sv A app (answer f (sdk_handle_read sv (Some ctx) h r e)) (answer f (sdk_handle_read sv' (Some ctx) h r e))"
    and "same_result sv A app (answer f (sdk_handle_write sv (Some ctx) h t r e)) (answer f (sdk_handle_write sv' (Some ctx) h t r e))"
    and "same_result sv A app (answer f (sdk_handle_list sv (Some ctx) h r e)) (answer f (sdk_handle_list sv' (Some ctx) h r e))"
  unfolding sdk_handle_read_def sdk_handle_write_def sdk_handle_list_def
  by (rule same_bound[OF c], rule same_opt[OF same_triv[OF c]], rule same_if[OF same_triv[OF c]],
      frule resolve_opened[OF c],
      (rule same_do_read[OF s c] same_do_write[OF s c] same_do_list[OF s c], simp))+

lemma same_device_calls:
  assumes s: "same_reach A app sv sv'" and c: "sdk_confined sv A app ctx"
  shows "same_result sv A app (answer f (sdk_device_status sv (Some ctx) r e)) (answer f (sdk_device_status sv' (Some ctx) r e))"
    and "same_result sv A app (answer f (sdk_get_time sv (Some ctx) r e)) (answer f (sdk_get_time sv' (Some ctx) r e))"
    and "same_result sv A app (answer f (sdk_background_register sv (Some ctx) r e)) (answer f (sdk_background_register sv' (Some ctx) r e))"
    and "same_result sv A app (answer g (sdk_request_cap sv (Some ctx) cap e)) (answer g (sdk_request_cap sv' (Some ctx) cap e))"
    and "same_result sv A app (answer g (sdk_log sv (Some ctx) ev e)) (answer g (sdk_log sv' (Some ctx) ev e))"
proof -
  show "same_result sv A app (answer f (sdk_device_status sv (Some ctx) r e)) (answer f (sdk_device_status sv' (Some ctx) r e))"
    "same_result sv A app (answer f (sdk_get_time sv (Some ctx) r e)) (answer f (sdk_get_time sv' (Some ctx) r e))"
    unfolding sdk_device_status_def sdk_get_time_def same_reach_prompts(1,5,6)[OF s] prod.case
    using c by (auto intro!: same_bound[OF c] same_triv same_finish split: option.split bool.split)
  show "same_result sv A app (answer f (sdk_background_register sv (Some ctx) r e)) (answer f (sdk_background_register sv' (Some ctx) r e))"
    unfolding sdk_background_register_def
    by (rule same_bound[OF c], rule same_if[OF same_triv[OF c]], rule same_checked[OF s c], erule same_triv)
      (auto simp: same_outcome_def split: prod.split)
  have eq: "sdk_ensure_cap sv' ctx x e = sdk_ensure_cap sv ctx x e" for x
    unfolding sdk_ensure_cap_def same_reach_prompts(2)[OF s] ..
  show "same_result sv A app (answer g (sdk_request_cap sv (Some ctx) cap e)) (answer g (sdk_request_cap sv' (Some ctx) cap e))"
    unfolding sdk_request_cap_def eq
    by (rule same_bound[OF c], rule same_if[OF same_triv[OF c]])
      (auto simp: same_outcome_def eq dest: ensure_cap_confined[OF c] split: prod.split)
  show "same_result sv A app (answer g (sdk_log sv (Some ctx) ev e)) (answer g (sdk_log sv' (Some ctx) ev e))"
    unfolding sdk_log_def
  proof (rule same_bound[OF c], rule same_if[OF same_triv[OF c]])
    show "same_outcome sv A app
        (SDK_OK, (), ctx, case sv_log_writer sv of None \<Rightarrow> e
           | Some wr \<Rightarrow> e\<lparr> se_world := wr (sc_app_id ctx) (the ev) (se_world e) \<rparr>)
        (SDK_OK, (), ctx, case sv_log_writer sv' of None \<Rightarrow> e
           | Some wr \<Rightarrow> e\<lparr> se_world := wr (sc_app_id ctx) (the ev) (se_world e) \<rparr>)"
      using same_reach_files(9)[OF s] c
      by (cases "sv_log_writer sv"; cases "sv_log_writer sv'") (auto simp: same_outcome_def confined_app[OF c])
  qed
qed

lemma same_answer2:
  assumes "fst (snd (answer2 e x)) = Some ctx" "sdk_confined sv A app ctx"
  shows "same_result sv A app (answer2 e x) (answer2 e x)"
  using assms by (simp add: same_result_def)

lemma same_handle_close:
  assumes c: "sdk_confined sv A app ctx"
  shows "same_result sv A app (answer2 e (sdk_handle_close (Some ctx) h)) (answer2 e (sdk_handle_close (Some ctx) h))"
  using c confined_handles[OF c, of blank_handle h]
  by (auto simp: same_result_def answer2_def sdk_handle_close_def blank_handle_def Let_def split: option.split)

lemma screen_step_confined:
  assumes c: "sdk_confined sv A app ctx"
  shows "\<exists>ctx'. fst (snd (screen_step k (Some ctx) e)) = Some ctx' \<and> sdk_confined sv A app ctx'"
proof (cases k)
  case (Call_SetFrame ls n)
  then show ?thesis using c
    by (auto simp: screen_step_def answer2_def sdk_set_frame_def Let_def split: prod.split)
next
  case (Call_PollKey out)
  then show ?thesis using c
    by (auto simp: screen_step_def answer_key_def sdk_poll_key_def Let_def split: prod.split option.split)
next
  case (Call_WaitKey a out)
  then show ?thesis using c
    by (auto simp: screen_step_def answer_key_def sdk_wait_key_def Let_def split: prod.split option.split)
qed (use c in \<open>simp_all add: screen_step_def answer2_def sdk_canvas_write_def sdk_canvas_clear_def
      sdk_canvas_draw_pixel_def sdk_canvas_fullscreen_def sdk_claim_ok_def sdk_request_close_def
      sdk_wakelock_acquire_def sdk_wakelock_release_def Let_def\<close>)

lemma same_step:
  assumes s: "same_reach A app sv sv'" and c: "sdk_confined sv A app ctx"
  shows "same_result sv A app (sdk_step sv call (Some ctx, e)) (sdk_step sv' call (Some ctx, e))"
proof (cases call)
  case (On_File k)
  then show ?thesis
    by (cases k) (simp_all add: sdk_step_def file_step_def same_device_calls[OF s c] same_file_calls[OF s c]
        same_file_open[OF s c] same_handle_calls[OF s c] same_handle_close[OF c])
next
  case (On_Ble k)
  then show ?thesis
    by (cases k) (simp_all add: sdk_step_def ble_step_def same_ble_scan[OF s c] same_ble_calls[OF s c]
        same_ble_link_calls[OF s c] same_ble_host_calls[OF s c])
next
  case (On_Net k)
  then show ?thesis
    by (cases k) (simp_all add: sdk_step_def net_step_def same_radio_calls[OF s c] same_https[OF s c] same_net_calls[OF s c])
next
  case (On_App k)
  then show ?thesis
    by (cases k) (simp_all add: sdk_step_def app_step_def same_app_calls[OF s c] same_module_load[OF s c]
        same_ipc_send[OF s c] same_ipc_recv[OF s c])
next
  case (On_Screen k)
  then show ?thesis using screen_step_confined[OF c, of k e] by (simp add: sdk_step_def same_result_def)
qed

lemma session_same:
  assumes "same_reach A app sv sv'" "sdk_confined sv A app ctx"
  shows "sdk_session sv prog n h (Some ctx, e) = sdk_session sv' prog n h (Some ctx, e)"
  using assms(2)
proof (induction n arbitrary: h ctx e)
  case (Suc n)
  obtain a c' e' where st: "sdk_step sv (prog h) (Some ctx, e) = (a, (c', e'))" by (metis prod_cases3)
  have "same_result sv A app (sdk_step sv (prog h) (Some ctx, e)) (sdk_step sv' (prog h) (Some ctx, e))"
    by (rule same_step[OF assms(1) Suc.prems])
  then obtain ctx' where c': "c' = Some ctx'" "sdk_confined sv A app ctx'"
    and st': "sdk_step sv' (prog h) (Some ctx, e) = (a, (c', e'))"
    using st by (auto simp: same_result_def)
  show ?case using Suc.IH[OF c'(2)] by (simp add: st st' c'(1))
qed simp

lemma bind_confined:
  assumes b: "sdk_bind_native qm (Some app) (Some caller) svs c0 = (SDK_OK, Some ctx0)"
    and p: "sdk_set_pending_caps caps (Some ctx0) = Some ctx"
    and g: "\<forall>c. Some c \<in> set (bc_capabilities caller) \<longrightarrow> c \<in> A"
    and m: "\<forall>(c, t)\<in>set caps. may_consent sv (take 31 c) \<longrightarrow> take 31 c \<in> A"
  shows "sdk_confined sv A app ctx"
proof -
  have ctx0: "sdk_bind_app qm app caller = (SDK_OK, ctx0)"
    using b by (auto simp: sdk_bind_native_def split: if_splits prod.splits)
  have ctx: "sc_app_id ctx0 = app" "length app < 64" "sc_handles ctx0 = replicate SDK_HANDLE_CAPACITY blank_handle"
    "sc_granted ctx0 = map Ptr_Caller (take SDK_PENDING_CAP_MAX (bc_capabilities caller))" "sc_pending_count ctx0 = 0"
    using ctx0 by (auto simp: sdk_bind_app_def sdk_copy_text_def sdk_context_init_def SDK_APP_ID_MAX_def Let_def split: if_splits)
  have "set (bc_capabilities (sdk_caller ctx)) \<subseteq> set (take SDK_PENDING_CAP_MAX (bc_capabilities caller))"
    using p ctx(4) by (auto simp: sdk_set_pending_caps_def sdk_caller_def cap_text_def Let_def split: if_splits)
  then have caps: "set (bc_capabilities (sdk_caller ctx)) \<subseteq> set (bc_capabilities caller)"
    using set_take_subset by (rule order_trans)
  have pend: "may_consent sv (sc_pending_strs ctx ! i) \<longrightarrow> sc_pending_strs ctx ! i \<in> A" if "i < sc_pending_count ctx" for i
  proof (cases "caps = []")
    case True
    then show ?thesis using p that ctx(5) by (simp add: sdk_set_pending_caps_def)
  next
    case False
    then have i: "i < length caps" "i < SDK_PENDING_CAP_MAX" "sc_pending_strs ctx ! i = take 31 (fst (caps ! i))"
      using p that by (auto simp: sdk_set_pending_caps_def Let_def nth_append)
    have "caps ! i \<in> set caps" using i(1) by simp
    then have "case caps ! i of (c, t) \<Rightarrow> may_consent sv (take 31 c) \<longrightarrow> take 31 c \<in> A" by (rule bspec[OF m])
    then show ?thesis unfolding i(3) by (simp add: case_prod_beta)
  qed
  have h: "sc_handles ctx = sc_handles ctx0" "sc_app_id ctx = sc_app_id ctx0"
    using p by (auto simp: sdk_set_pending_caps_def Let_def split: if_splits)
  have hs: "h \<in> set (sc_handles ctx) \<Longrightarrow> \<not> he_active h" for h
    unfolding h ctx(3) by (auto simp: blank_handle_def)
  show ?thesis
    unfolding sdk_confined_def
  proof (intro conjI allI ballI impI)
    show "sc_app_id ctx = app" using h(2) ctx(1) by simp
    show "length (sc_handles ctx) = SDK_HANDLE_CAPACITY" unfolding h(1) ctx(3) by simp
    fix c assume "Some c \<in> set (bc_capabilities (sdk_caller ctx))"
    then show "c \<in> A" using caps g by blast
  qed (use ctx(2) pend hs in blast)+
qed

section \<open>Property\<close>


text \<open>A firmware with no service but those given: a prompt that consents to ble.scan
  only, and an HTTP request that writes its argument into the world.\<close>

definition sdk_demo :: "bool \<Rightarrow> bool sdk_services" where
  "sdk_demo b =
     \<lparr> sv_locks = True, sv_device_status = None, sv_read_file = None, sv_write_file = None,
       sv_list_files = None, sv_path_prompt = None, sv_log_writer = None, sv_rtc_reader = None,
       sv_ble_scan = None, sv_ble_advertise_start = None, sv_ble_advertise_stop = None,
       sv_ble_connect = None, sv_ble_read_char = None, sv_ble_write_char = None, sv_ble_disconnect = None,
       sv_ble_service_register = None, sv_ble_service_unregister = None, sv_ble_host_set_value = None,
       sv_ble_host_wait_write = None, sv_ble_host_clear = None, sv_ble_set_connectable = None,
       sv_espnow_send = None, sv_espnow_recv = None,
       sv_http_request = Some (\<lambda>_ _ _ ls r w. (BROKER_OK, r, ls, b)),
       sv_net_bind = None, sv_net_accept = (\<lambda>_ ls r w. (BROKER_OK, r, ls, w)),
       sv_net_recv = (\<lambda>_ _ _ ls r w. (BROKER_OK, r, ls, w)),
       sv_net_send = (\<lambda>_ _ ls r w. (BROKER_OK, r, ls, w)),
       sv_net_close = (\<lambda>_ ls r w. (BROKER_OK, r, ls, w)), sv_net_close_all = None,
       sv_delete_file = None, sv_module_load = None, sv_module_run = None, sv_module_unload = None,
       sv_kv_read = None, sv_kv_write = None, sv_kv_delete = None, sv_dir_list = None,
       sv_consent_prompt = Some (\<lambda>cap _ ui w. (cap = ''ble.scan'', ui, w)),
       sv_v2 = \<lparr> s2_net_connect = None, s2_https_request = None, s2_origin_prompt = None \<rparr> \<rparr>"

definition sdk_demo_ctx :: sdk_context where
  "sdk_demo_ctx = snd (sdk_bind_app True ''notes'' \<lparr> bc_capabilities = [] \<rparr>)"

definition sdk_demo_env :: "bool sdk_env" where
  "sdk_demo_env = \<lparr> se_locks = [], se_world = False \<rparr>"

lemma sdk_demo_bind:
  "sdk_bind_native True (Some ''notes'') (Some \<lparr> bc_capabilities = [] \<rparr>) (Some (sdk_demo True)) (Some sdk_demo_ctx) =
     (SDK_OK, Some sdk_demo_ctx)"
proof -
  have "sdk_app_id_is_valid (Some ''notes'')" by (simp add: sdk_app_id_is_valid_def str_name_valid_def name_char_def ord_def)
  then show ?thesis
    by (simp add: sdk_bind_native_def sdk_demo_ctx_def sdk_bind_app_def sdk_copy_text_def SDK_APP_ID_MAX_def Let_def)
qed

lemma sdk_demo_reach: "same_reach {''ble.scan''} app (sdk_demo True) (sdk_demo False)"
  by (simp add: same_reach_def sdk_demo_def alike_def alike_if_def)


lemma sdk_run_busy:
  assumes "broker_find_lock (se_locks e) res = Some i" "le_locked (se_locks e ! i)"
  shows "\<exists>r'. run_exclusive res op r e = (BROKER_OK, r', e)"
  using assms
  by (simp add: run_exclusive_def broker_run_exclusive_def error_with_resource_def broker_error_result_def
      broker_result_put_def BROKER_RESULT_FIELD_CAPACITY_def)

text \<open>The storage is in use by another task: OK, and the world keeps its value.\<close>

definition busy_env :: "bool sdk_env" where
  "busy_env = \<lparr> se_locks = [\<lparr> le_resource = ''storage'', le_locked = True \<rparr>], se_world = False \<rparr>"

definition kv_junk :: broker_result where
  "kv_junk = \<lparr> br_ok = False, br_code = None, br_fields = [] \<rparr>"

definition kv_demo :: "bool sdk_services" where
  "kv_demo = (sdk_demo True)\<lparr> sv_kv_write := Some (\<lambda>_ _ _ ls r w. (BROKER_OK, r, ls, True)) \<rparr>"


end
