(* ===== verification/SdkUi.thy ===== *)
theory SdkUi
  imports Sdk FileBrowser
begin

text \<open>
  src/jpp_sdk_bridge.c, the modal screens of the SDK that need no keyboard: text
  wrapping, dialog, confirm and list. A modal is a function of the events xQueueReceive delivers to it, in order; it
  returns the screens it showed, one per wait, and how it ended. The queue itself
  (a field of the context) is outside: a queue that could not be created delivers
  nothing, and the modal waits for ever. An answer holds the events that are left.
\<close>

section \<open>Events and endings\<close>

datatype sdk_ui_result = UI_OK | UI_BACK

definition SDK_LIST_ITEM_MAX :: nat where "SDK_LIST_ITEM_MAX = 16"
definition SDK_DISPLAY_COLS :: nat where "SDK_DISPLAY_COLS = 21"

fun sdk_ui_next_key :: "sdk_key list \<Rightarrow> (sdk_key \<times> sdk_key list) option" where
  "sdk_ui_next_key [] = None"
| "sdk_ui_next_key (k # ks) = (if k = KEY_NONE then sdk_ui_next_key ks else Some (k, ks))"

lemma next_key_shorter [termination_simp]:
  "sdk_ui_next_key ks = Some (k, rest) \<Longrightarrow> length rest < length ks"
  by (induction ks) (auto split: if_splits)

text \<open>Waiting: the events are used up. Overrun: the code writes past an array.\<close>

datatype 'r modal = Waiting | Overrun | Answered 'r "sdk_key list"

text \<open>The loop all modals have: draw, wait for a key, act on it. A step gives the new
  state, or the answer; None is a write past an array.\<close>

fun modal_loop ::
  "('s \<Rightarrow> sdk_ui \<Rightarrow> sdk_ui) \<Rightarrow> (sdk_key \<Rightarrow> 's \<Rightarrow> ('s + 'r) option) \<Rightarrow> 's \<Rightarrow> sdk_ui \<Rightarrow>
   sdk_key list \<Rightarrow> sdk_ui list \<times> 'r modal" where
  "modal_loop draw step s ui evs =
     (let ui = draw s ui
      in case sdk_ui_next_key evs of
           None \<Rightarrow> ([ui], Waiting)
         | Some (k, evs) \<Rightarrow>
             (case step k s of
                None \<Rightarrow> ([ui], Overrun)
              | Some (Inr r) \<Rightarrow> ([ui], Answered r evs)
              | Some (Inl s) \<Rightarrow>
                  (let (screens, m) = modal_loop draw step s ui evs in (ui # screens, m))))"

declare modal_loop.simps [simp del]

definition sdk_modal_done :: "bool \<Rightarrow> sdk_ui \<Rightarrow> sdk_ui" where
  "sdk_modal_done was_fullscreen ui =
     (if was_fullscreen \<and> \<not> ui_canvas_fullscreen ui then put_fullscreen True ui else ui)"

text \<open>A call of a modal answers its status, what it writes through its out pointers
  (None: nothing), and the context.\<close>

type_synonym 'r modal_call = "sdk_ui list \<times> (sdk_status \<times> 'r option \<times> sdk_context option) modal"

definition refused :: "sdk_status \<Rightarrow> sdk_context option \<Rightarrow> sdk_key list \<Rightarrow> 'r modal_call" where
  "refused st context evs = ([], Answered (st, None, context) evs)"

definition end_modal :: "sdk_context \<Rightarrow> sdk_ui list \<times> 'r modal \<Rightarrow> 'r modal_call" where
  "end_modal ctx m =
     (case m of
        (screens, Waiting) \<Rightarrow> (screens, Waiting)
      | (screens, Overrun) \<Rightarrow> (screens, Overrun)
      | (screens, Answered r evs) \<Rightarrow>
          (screens, Answered (SDK_OK, Some r,
             Some (ctx\<lparr> sc_ui := sdk_modal_done (ui_canvas_fullscreen (sc_ui ctx)) (last screens) \<rparr>)) evs))"

section \<open>Wrapping\<close>

text \<open>The loop of jpp_sdk_wrap_text on the text from i on: full are the rows before the
  current one, cur the current row, whose length is col. The rows written and the
  number returned.\<close>

function wrap_loop :: "nat \<Rightarrow> string list \<Rightarrow> string \<Rightarrow> string \<Rightarrow> string list \<times> nat" where
  "wrap_loop max_lines full cur [] =
     (full @ [cur], if cur \<noteq> [] \<or> full \<noteq> [] then length full + 1 else 0)"
| "wrap_loop max_lines full cur (c # s) =
     (if c = CHR '' '' then wrap_loop max_lines full cur s
      else
        let word = takeWhile (\<lambda>x. x \<noteq> CHR '' '') (c # s);
            rest = dropWhile (\<lambda>x. x \<noteq> CHR '' '') (c # s);
            need = (if cur \<noteq> [] then 1 else 0) + length word
        in if cur \<noteq> [] \<and> length cur + need > SDK_DISPLAY_COLS then
             (if length full + 1 \<ge> max_lines then (full @ [cur], length full + 1 + 1)
              else wrap_loop max_lines (full @ [cur]) (take SDK_DISPLAY_COLS word) rest)
           else
             let cur = (if cur \<noteq> [] then cur @ '' '' else cur)
             in wrap_loop max_lines full (cur @ take (SDK_DISPLAY_COLS - length cur) word) rest)"
  by pat_completeness auto
termination
  by (relation "measure (\<lambda>(_, _, _, s). length s)")
     (auto simp: length_dropWhile_le le_imp_less_Suc)

definition sdk_wrap_text :: "cstr \<Rightarrow> nat \<Rightarrow> string list \<times> nat" where
  "sdk_wrap_text txt max_lines =
     (case txt of
        None \<Rightarrow> ([], 0)
      | Some t \<Rightarrow> if max_lines = 0 then ([], 0) else wrap_loop max_lines [] [] t)"

section \<open>Dialog, confirm and list\<close>

text \<open>A row of a local array of JPP_SDK_FRAME_TEXT_MAX characters.\<close>

definition row_text :: "string \<Rightarrow> string" where
  "row_text t = take (SDK_FRAME_TEXT_MAX - 1) t"

text \<open>The rows of the title and the signature line.\<close>

definition title_rows :: "cstr \<Rightarrow> string list" where
  "title_rows title = (if sdk_text_present title then [row_text (the title), []] else [])"

definition show_rows :: "cstr \<Rightarrow> string list \<Rightarrow> sdk_ui \<Rightarrow> sdk_ui" where
  "show_rows title rows ui =
     (snd (sdk_put_frame (map Some rows) ui))\<lparr> ui_frame_title_rule := sdk_text_present title \<rparr>"

definition dialog_step :: "sdk_key \<Rightarrow> unit \<Rightarrow> (unit + sdk_ui_result) option" where
  "dialog_step key s =
     (if key = KEY_OK then Some (Inr UI_OK)
      else if key = KEY_OK_LONG then Some (Inr UI_BACK) else Some (Inl s))"

text \<open>The flag says that out_result is not NULL.\<close>

definition sdk_dialog ::
  "sdk_context option \<Rightarrow> cstr \<Rightarrow> cstr \<Rightarrow> bool \<Rightarrow> sdk_key list \<Rightarrow> sdk_ui_result modal_call" where
  "sdk_dialog context title txt out_result evs =
     (if sdk_ensure_bound context \<noteq> SDK_OK then refused (sdk_ensure_bound context) context evs
      else if \<not> out_result then refused SDK_INVALID_ARGUMENT context evs
      else
        let head = title_rows title;
            (body, used) = sdk_wrap_text txt (SDK_FRAME_LINE_CAPACITY - length head);
            n = length head + used
        in if n > SDK_FRAME_LINE_CAPACITY then ([], Overrun)
           else
             let ui = show_rows title (take n (head @ body)) (sc_ui (the context))
             in end_modal (the context) (modal_loop (\<lambda>_ ui. ui) dialog_step () ui evs))"

definition confirm_rows :: "cstr \<Rightarrow> cstr list \<Rightarrow> bool \<Rightarrow> string list" where
  "confirm_rows title body_lines allow =
     (let head = title_rows title;
          max_body = SDK_FRAME_LINE_CAPACITY - length head - 1
      in head @ map (\<lambda>l. row_text (case l of None \<Rightarrow> [] | Some t \<Rightarrow> t)) (take max_body body_lines) @
         [row_text (ui_consent_selector_row allow)])"

definition confirm_step :: "sdk_key \<Rightarrow> bool \<Rightarrow> (bool + bool) option" where
  "confirm_step key allow =
     (case key of
        KEY_LEFT \<Rightarrow> Some (Inl False)
      | KEY_RIGHT \<Rightarrow> Some (Inl True)
      | KEY_OK \<Rightarrow> Some (Inr allow)
      | KEY_OK_LONG \<Rightarrow> Some (Inr False)
      | _ \<Rightarrow> Some (Inl allow))"

text \<open>The array body_lines is the list of its first body_count pointers (None: NULL).\<close>

definition sdk_confirm ::
  "sdk_context option \<Rightarrow> cstr \<Rightarrow> cstr list option \<Rightarrow> nat \<Rightarrow> bool \<Rightarrow> bool \<Rightarrow> sdk_key list \<Rightarrow> bool modal_call" where
  "sdk_confirm context title body_lines body_count default_allow out_allow evs =
     (if sdk_ensure_bound context \<noteq> SDK_OK then refused (sdk_ensure_bound context) context evs
      else if \<not> out_allow \<or> (body_count > 0 \<and> body_lines = None) then refused SDK_INVALID_ARGUMENT context evs
      else
        let body = (case body_lines of None \<Rightarrow> [] | Some b \<Rightarrow> take body_count b)
        in end_modal (the context)
             (modal_loop (\<lambda>allow. show_rows title (confirm_rows title body allow)) confirm_step
                default_allow (sc_ui (the context)) evs))"

record list_state =
  ls_checked :: "bool list"
  ls_cursor :: nat
  ls_top :: nat

definition list_row :: "string list \<Rightarrow> bool \<Rightarrow> list_state \<Rightarrow> nat \<Rightarrow> string" where
  "list_row items multiselect s idx =
     (let sel = (if idx = ls_cursor s then ''>'' else '' '')
      in if multiselect \<and> idx = length items then row_text (sel @ ''<Done>'')
         else if multiselect
         then row_text (sel @ ''['' @ (if ls_checked s ! idx then ''x'' else '' '') @ '']'' @ items ! idx)
         else row_text (sel @ items ! idx))"

definition list_total :: "string list \<Rightarrow> bool \<Rightarrow> nat" where
  "list_total items multiselect = length items + (if multiselect then 1 else 0)"

definition list_visible :: "cstr \<Rightarrow> nat" where
  "list_visible title = SDK_FRAME_LINE_CAPACITY - (if sdk_text_present title then 2 else 0)"

definition list_rows :: "cstr \<Rightarrow> string list \<Rightarrow> bool \<Rightarrow> list_state \<Rightarrow> string list" where
  "list_rows title items multiselect s =
     title_rows title @
     map (\<lambda>v. list_row items multiselect s (ls_top s + v))
       (takeWhile (\<lambda>v. ls_top s + v < list_total items multiselect) [0..<list_visible title])"

text \<open>The clamp of top at the head of the loop; the loop starts from it.\<close>

definition list_clamp :: "cstr \<Rightarrow> string list \<Rightarrow> bool \<Rightarrow> list_state \<Rightarrow> list_state" where
  "list_clamp title items multiselect s =
     s\<lparr> ls_top := ui_scroll_clamp (ls_cursor s) (list_total items multiselect) (list_visible title) (ls_top s) \<rparr>"

definition list_step ::
  "cstr \<Rightarrow> string list \<Rightarrow> bool \<Rightarrow> nat \<Rightarrow> sdk_key \<Rightarrow> list_state \<Rightarrow> (list_state + nat list \<times> sdk_ui_result) option" where
  "list_step title items multiselect out_capacity key s =
     (let n = list_total items multiselect; again = (\<lambda>s. Some (Inl (list_clamp title items multiselect s)))
      in case key of
           KEY_UP \<Rightarrow> again (s\<lparr> ls_cursor := (if ls_cursor s = 0 then n - 1 else ls_cursor s - 1) \<rparr>)
         | KEY_DOWN \<Rightarrow> again (s\<lparr> ls_cursor := (ls_cursor s + 1) mod n \<rparr>)
         | KEY_OK \<Rightarrow>
             (if \<not> multiselect then Some (Inr ([ls_cursor s], UI_OK))
              else if ls_cursor s = length items
              then Some (Inr (take out_capacity (filter (\<lambda>i. ls_checked s ! i) [0..<length items]), UI_OK))
              else again (s\<lparr> ls_checked := (ls_checked s)[ls_cursor s := \<not> ls_checked s ! ls_cursor s] \<rparr>))
         | KEY_OK_LONG \<Rightarrow> Some (Inr ([], UI_BACK))
         | _ \<Rightarrow> again s)"

text \<open>The answer holds the indices written, which are out_count many. The flag says that
  the out pointers are given; the items are not NULL.\<close>

definition sdk_list ::
  "sdk_context option \<Rightarrow> cstr \<Rightarrow> string list option \<Rightarrow> bool \<Rightarrow> nat \<Rightarrow> bool \<Rightarrow> sdk_key list \<Rightarrow>
   (nat list \<times> sdk_ui_result) modal_call" where
  "sdk_list context title items multiselect out_capacity outs evs =
     (if sdk_ensure_bound context \<noteq> SDK_OK then refused (sdk_ensure_bound context) context evs
      else
        (case items of
           None \<Rightarrow> refused SDK_INVALID_ARGUMENT context evs
         | Some its \<Rightarrow>
             if its = [] \<or> length its > SDK_LIST_ITEM_MAX \<or> out_capacity = 0 \<or> \<not> outs
             then refused SDK_INVALID_ARGUMENT context evs
             else
               let s = \<lparr> ls_checked = replicate SDK_LIST_ITEM_MAX False, ls_cursor = 0, ls_top = 0 \<rparr>
               in end_modal (the context)
                    (modal_loop (\<lambda>s. show_rows title (list_rows title its multiselect s))
                       (list_step title its multiselect out_capacity)
                       (list_clamp title its multiselect s) (sc_ui (the context)) evs)))"

lemma modal_loop_rest [termination_simp]:
  "modal_loop draw step s ui evs = (screens, Answered r rest) \<Longrightarrow> length rest < length evs"
proof (induction draw step s ui evs arbitrary: screens rule: modal_loop.induct)
  case (1 draw step s ui evs)
  from 1(2) obtain k ks where k: "sdk_ui_next_key evs = Some (k, ks)"
    by (subst (asm) modal_loop.simps) (auto simp: Let_def split: option.splits)
  show ?case
  proof (cases "\<exists>t. step k s = Some (Inl t)")
    case True
    then obtain t where t: "step k s = Some (Inl t)" by blast
    then obtain scr where "modal_loop draw step t (draw s ui) ks = (scr, Answered r rest)"
      using 1(2) k by (subst (asm) modal_loop.simps) (auto simp: Let_def split: prod.splits)
    from 1(1)[OF refl k refl t refl this] next_key_shorter[OF k] show ?thesis by simp
  next
    case False
    then show ?thesis using 1(2) k next_key_shorter[OF k]
      by (subst (asm) modal_loop.simps) (auto simp: Let_def split: option.splits sum.splits prod.splits)
  qed
qed

section \<open>The contract of a modal\<close>

text \<open>What the modals rely on: an invariant of the state that every step keeps, under
  which no step writes past an array. What they get: the loop shows only screens of
  such states, and an answer is the step's on the state of the last screen.\<close>

locale modal_contract =
  fixes draw :: "'s \<Rightarrow> sdk_ui \<Rightarrow> sdk_ui"
    and step :: "sdk_key \<Rightarrow> 's \<Rightarrow> ('s + 'r) option"
    and inv :: "'s \<Rightarrow> bool"
  assumes inside: "inv s \<Longrightarrow> step k s \<noteq> None"
    and keep: "inv s \<Longrightarrow> step k s = Some (Inl t) \<Longrightarrow> inv t"
begin

definition ends_well :: "sdk_ui list \<Rightarrow> 'r modal \<Rightarrow> sdk_key list \<Rightarrow> bool" where
  "ends_well screens m evs \<longleftrightarrow>
     screens \<noteq> [] \<and> m \<noteq> Overrun \<and> (\<forall>x\<in>set screens. \<exists>t u. inv t \<and> x = draw t u) \<and>
     (\<forall>r rest. m = Answered r rest \<longrightarrow>
        (\<exists>t u used k. inv t \<and> last screens = draw t u \<and> step k t = Some (Inr r) \<and>
           evs = used @ k # rest))"

lemma next_key_split: "sdk_ui_next_key evs = Some (k, rest) \<Longrightarrow> \<exists>used. evs = used @ k # rest"
proof (induction evs)
  case (Cons a evs)
  then show ?case
    by (cases "a = KEY_NONE") (auto intro: exI[of _ "[]"] exI[of _ "a # _"] simp: Cons_eq_append_conv)
qed simp

lemma modal_ends: "inv s \<Longrightarrow> modal_loop draw step s ui evs = (screens, m) \<Longrightarrow> ends_well screens m evs"
proof (induction evs arbitrary: s ui screens m rule: length_induct)
  case (1 evs)
  let ?ui = "draw s ui"
  show ?case
  proof (cases "sdk_ui_next_key evs")
    case None
    with 1(3) have "screens = [?ui]" "m = Waiting"
      by (subst (asm) modal_loop.simps, simp add: Let_def)+
    with 1(2) show ?thesis by (auto simp: ends_well_def)
  next
    case (Some kr)
    obtain k ks where k: "sdk_ui_next_key evs = Some (k, ks)" using Some by (cases kr) simp
    obtain used where used: "evs = used @ k # ks" using next_key_split[OF k] by blast
    obtain x where x: "step k s = Some x" using inside[OF 1(2), of k] by blast
    show ?thesis
    proof (cases x)
      case (Inr r)
      with 1(3) k x have "screens = [?ui]" "m = Answered r ks"
        by (subst (asm) modal_loop.simps, simp add: Let_def)+
      with 1(2) x Inr used show ?thesis by (auto simp: ends_well_def)
    next
      case (Inl t)
      obtain scr n where l: "modal_loop draw step t ?ui ks = (scr, n)" by fastforce
      with 1(3) k x Inl have sm: "screens = ?ui # scr" "m = n"
        by (subst (asm) modal_loop.simps, simp add: Let_def)+
      have e: "ends_well scr n ks"
        using 1(1) next_key_shorter[OF k] keep[OF 1(2)] x Inl l by blast
      have "\<exists>used'. evs = used' @ j # rest" if "ks = u @ j # rest" for u j rest
        using used that by (metis append_Cons append_assoc)
      with e sm 1(2) show ?thesis by (fastforce simp: ends_well_def)
    qed
  qed
qed

lemma modal_inside: "inv s \<Longrightarrow> modal_loop draw step s ui evs = (screens, m) \<Longrightarrow> m \<noteq> Overrun"
  using modal_ends by (simp add: ends_well_def)

lemma modal_answer:
  assumes "inv s" "modal_loop draw step s ui evs = (screens, Answered r rest)"
  obtains t u used k where "\<forall>x\<in>set screens. \<exists>t u. inv t \<and> x = draw t u" "inv t"
    "last screens = draw t u" "step k t = Some (Inr r)" "evs = used @ k # rest"
  using modal_ends[OF assms] by (auto simp: ends_well_def)

end

section \<open>Rows on the screen\<close>

definition rows_on :: "sdk_ui \<Rightarrow> string list" where
  "rows_on ui = take (ui_frame_line_count ui) (ui_frame_lines ui)"

lemma copy_row: "length t < 64 \<Longrightarrow> sdk_copy_text SDK_FRAME_TEXT_MAX (Some t) = (SDK_OK, Some t)"
  by (simp add: sdk_copy_text_def SDK_FRAME_TEXT_MAX_def)

lemma rows_on_show_rows:
  assumes "length rows \<le> 7" "\<forall>r\<in>set rows. length r < 64"
  shows "rows_on (show_rows title rows ui) = rows"
proof -
  have "map (\<lambda>x. the (snd (sdk_copy_text SDK_FRAME_TEXT_MAX (Some x)))) rows = rows"
    using assms(2) copy_row by (intro map_idI) simp
  then show ?thesis using assms(1)
    by (simp add: rows_on_def show_rows_def sdk_put_frame_def Let_def pad_lines_def SDK_FRAME_LINE_CAPACITY_def comp_def)
qed

lemma show_rows_windowed [simp]: "\<not> ui_canvas_fullscreen (show_rows title rows ui)"
  by (simp add: show_rows_def sdk_put_frame_def Let_def)

lemma modal_done_fullscreen:
  "\<not> ui_canvas_fullscreen ui \<Longrightarrow> ui_canvas_fullscreen (sdk_modal_done f ui) = f"
  by (simp add: sdk_modal_done_def put_fullscreen_def Let_def)

lemma row_text_short [simp]: "length (row_text t) < 64"
  by (simp add: row_text_def SDK_FRAME_TEXT_MAX_def)

lemma title_rows_short: "r \<in> set (title_rows title) \<Longrightarrow> length r < 64"
  by (auto simp: title_rows_def split: if_splits)

lemma title_rows_length: "length (title_rows title) = (if sdk_text_present title then 2 else 0)"
  by (simp add: title_rows_def)

lemma end_modal_answered:
  "end_modal ctx (screens, m) = (scr, Answered (st, out, c) rest) \<Longrightarrow>
     \<exists>r. m = Answered r rest \<and> scr = screens \<and> st = SDK_OK \<and> out = Some r \<and>
       c = Some (ctx\<lparr> sc_ui := sdk_modal_done (ui_canvas_fullscreen (sc_ui ctx)) (last screens) \<rparr>)"
  by (cases m) (auto simp: end_modal_def)

section \<open>Confirm\<close>

interpretation confirm: modal_contract
  "\<lambda>allow. show_rows title (confirm_rows title body allow)" confirm_step "\<lambda>_. True"
  for title body
  by unfold_locales (auto simp: confirm_step_def split: sdk_key.splits)

lemma confirm_rows_ok:
  "rows_on (show_rows title (confirm_rows title body allow) ui) = confirm_rows title body allow"
  by (rule rows_on_show_rows)
     (auto simp: confirm_rows_def Let_def title_rows_length SDK_FRAME_LINE_CAPACITY_def dest: title_rows_short)

lemma confirm_answer:
  assumes "sdk_confirm context title (Some body) body_count def_allow True evs = (screens, Answered (SDK_OK, out, c) rest)"
  shows "\<exists>allow used key ctx. out = Some allow \<and> evs = used @ key # rest \<and> context = Some ctx \<and>
     (\<forall>scr\<in>set screens. butlast (rows_on scr) = title_rows title @
        map (\<lambda>l. row_text (case l of None \<Rightarrow> [] | Some t \<Rightarrow> t))
          (take (if sdk_text_present title then 4 else 6) (take body_count body))) \<and>
     (allow \<longleftrightarrow> key = KEY_OK \<and> last (rows_on (last screens)) = '' Deny       >Allow'') \<and>
     (\<exists>ctx'. c = Some ctx' \<and> ui_canvas_fullscreen (sc_ui ctx') = ui_canvas_fullscreen (sc_ui ctx))"
proof -
  let ?body = "take body_count body"
  obtain ctx where ctx: "context = Some ctx" "sc_bound ctx"
    using assms by (auto simp: sdk_confirm_def refused_def sdk_ensure_bound_def split: if_splits option.splits)
  obtain scr m where l: "modal_loop (\<lambda>allow. show_rows title (confirm_rows title ?body allow)) confirm_step
      def_allow (sc_ui ctx) evs = (scr, m)" by fastforce
  have "end_modal ctx (scr, m) = (screens, Answered (SDK_OK, out, c) rest)"
    using assms ctx l by (simp add: sdk_confirm_def sdk_ensure_bound_def)
  from end_modal_answered[OF this] obtain allow where a: "m = Answered allow rest" "scr = screens" "out = Some allow"
    "c = Some (ctx\<lparr> sc_ui := sdk_modal_done (ui_canvas_fullscreen (sc_ui ctx)) (last screens) \<rparr>)" by blast
  obtain t u used k where
    e: "\<forall>x\<in>set screens. \<exists>t u. True \<and> x = show_rows title (confirm_rows title ?body t) u"
       "last screens = show_rows title (confirm_rows title ?body t) u" "confirm_step k t = Some (Inr allow)"
       "evs = used @ k # rest"
    by (rule confirm.modal_answer[OF TrueI l[unfolded a(1,2)]])
  have "allow \<longleftrightarrow> k = KEY_OK \<and> t" using e(3) by (auto simp: confirm_step_def split: sdk_key.splits)
  moreover have "last (confirm_rows title ?body t) = '' Deny       >Allow'' \<longleftrightarrow> t"
    by (simp add: confirm_rows_def Let_def ui_consent_selector_row_def row_text_def SDK_FRAME_TEXT_MAX_def)
  moreover have "butlast (confirm_rows title ?body b) = title_rows title @
        map (\<lambda>l. row_text (case l of None \<Rightarrow> [] | Some t \<Rightarrow> t)) (take (if sdk_text_present title then 4 else 6) ?body)" for b
    by (simp add: confirm_rows_def Let_def butlast_append title_rows_length SDK_FRAME_LINE_CAPACITY_def)
  ultimately have p: "(allow \<longleftrightarrow> k = KEY_OK \<and> last (rows_on (last screens)) = '' Deny       >Allow'')"
      "\<forall>scr\<in>set screens. butlast (rows_on scr) = title_rows title @
        map (\<lambda>l. row_text (case l of None \<Rightarrow> [] | Some t \<Rightarrow> t)) (take (if sdk_text_present title then 4 else 6) ?body)"
    using e(1,2) confirm_rows_ok by metis+
  have "ui_canvas_fullscreen (sdk_modal_done (ui_canvas_fullscreen (sc_ui ctx)) (last screens)) =
      ui_canvas_fullscreen (sc_ui ctx)"
    by (rule modal_done_fullscreen) (simp only: e(2) show_rows_windowed not_False_eq_True)
  then have "\<exists>ctx'. c = Some ctx' \<and> ui_canvas_fullscreen (sc_ui ctx') = ui_canvas_fullscreen (sc_ui ctx)"
    unfolding a(4) by simp
  with p a(3) e(4) ctx(1) show ?thesis by blast
qed

text \<open>C9: What is allowed was on the screen. Every screen of a confirmation shows the title,
  the body lines that fit and the selector row; it is answered with allow exactly
  when OK is pressed while the last of these screens marks Allow, and the
  application gets its screen mode back.\<close>

theorem confirm_shows:
  assumes "sdk_confirm context title (Some body) body_count def_allow True evs = (screens, Answered (SDK_OK, out, c) rest)"
  shows "\<exists>allow used key ctx. out = Some allow \<and> evs = used @ key # rest \<and> context = Some ctx \<and>
     (\<forall>scr\<in>set screens. butlast (rows_on scr) = title_rows title @
        map (\<lambda>l. row_text (case l of None \<Rightarrow> [] | Some t \<Rightarrow> t))
          (take (if sdk_text_present title then 4 else 6) (take body_count body))) \<and>
     (allow \<longleftrightarrow> key = KEY_OK \<and> last (rows_on (last screens)) = '' Deny       >Allow'') \<and>
     (\<exists>ctx'. c = Some ctx' \<and> ui_canvas_fullscreen (sc_ui ctx') = ui_canvas_fullscreen (sc_ui ctx))"
  by (rule confirm_answer[OF assms])

section \<open>List\<close>

definition list_inv :: "cstr \<Rightarrow> string list \<Rightarrow> bool \<Rightarrow> list_state \<Rightarrow> bool" where
  "list_inv title items multiselect s \<longleftrightarrow>
     items \<noteq> [] \<and> length items \<le> length (ls_checked s) \<and> ls_cursor s < list_total items multiselect \<and>
     ls_top s \<le> ls_cursor s \<and> ls_cursor s < ls_top s + list_visible title"

lemma list_visible_bounds: "5 \<le> list_visible title" "list_visible title + length (title_rows title) = 7"
  by (simp_all add: list_visible_def title_rows_length SDK_FRAME_LINE_CAPACITY_def)

lemma list_clamp_inv:
  assumes "items \<noteq> []" "length items \<le> length (ls_checked s)" "ls_cursor s < list_total items multiselect"
  shows "list_inv title items multiselect (list_clamp title items multiselect s)"
  using assms list_visible_bounds(1)[of title]
  by (auto simp: list_inv_def list_clamp_def ui_scroll_clamp_def Let_def)

interpretation list_modal: modal_contract
  "\<lambda>s. show_rows title (list_rows title items multiselect s)"
  "list_step title items multiselect out_capacity" "list_inv title items multiselect"
  for title items multiselect out_capacity
proof
  fix s t k
  assume i: "list_inv title items multiselect s"
  then have n: "0 < list_total items multiselect" by (simp add: list_inv_def list_total_def)
  show "list_step title items multiselect out_capacity k s \<noteq> None"
    by (simp add: list_step_def Let_def split: sdk_key.split)
  assume "list_step title items multiselect out_capacity k s = Some (Inl t)"
  then obtain s' where "t = list_clamp title items multiselect s'"
    "length (ls_checked s') = length (ls_checked s)" "ls_cursor s' < list_total items multiselect"
    using i n by (auto simp: list_step_def Let_def list_inv_def split: sdk_key.splits if_splits)
  then show "list_inv title items multiselect t"
    using i list_clamp_inv by (simp add: list_inv_def)
qed

lemma mem_takeWhile_upt:
  assumes "\<And>w. w \<le> v \<Longrightarrow> P w" "v < n"
  shows "v \<in> set (takeWhile P [0..<n])"
proof -
  have "[0..<n] = [0..<Suc v] @ [Suc v..<n]"
    using assms(2) upt_add_eq_append[of 0 "Suc v" "n - Suc v"] by simp
  moreover have "takeWhile P ([0..<Suc v] @ [Suc v..<n]) = [0..<Suc v] @ takeWhile P [Suc v..<n]"
    using assms(1) by (intro takeWhile_append2) (auto simp: le_less)
  ultimately show ?thesis by simp
qed

lemma list_cursor_shown:
  assumes "list_inv title items multiselect s"
  shows "list_row items multiselect s (ls_cursor s) \<in> set (list_rows title items multiselect s)"
proof -
  let ?v = "ls_cursor s - ls_top s"
  have "?v \<in> set (takeWhile (\<lambda>v. ls_top s + v < list_total items multiselect) [0..<list_visible title])"
    using assms by (intro mem_takeWhile_upt) (auto simp: list_inv_def)
  moreover have "ls_top s + ?v = ls_cursor s" using assms by (simp add: list_inv_def)
  ultimately show ?thesis unfolding list_rows_def by (force simp: image_iff)
qed

lemma list_rows_ok:
  "rows_on (show_rows title (list_rows title items multiselect s) ui) = list_rows title items multiselect s"
proof (rule rows_on_show_rows)
  have "length (takeWhile P [0..<list_visible title]) \<le> list_visible title" for P
    using length_takeWhile_le[of P "[0..<list_visible title]"] by simp
  then show "length (list_rows title items multiselect s) \<le> 7"
    using list_visible_bounds(2)[of title] unfolding list_rows_def length_append length_map
    by (metis add.commute nat_add_left_cancel_le)
  show "\<forall>r\<in>set (list_rows title items multiselect s). length r < 64"
    by (auto simp: list_rows_def list_row_def Let_def dest: title_rows_short)
qed

text \<open>C1: A list answers with items of the list: the indices are in range, in order and
  without repetition, and at most as many as there is room for. On a single choice
  it is the one whose row the last screen marks; several are confirmed on the row
  Done; BACK answers with none. It never leaves its arrays.\<close>

theorem list_picks:
  assumes "sdk_list context title (Some items) multiselect out_capacity True evs =
     (screens, Answered (SDK_OK, Some (picked, r), c) rest)"
  shows "set picked \<subseteq> {..<length items} \<and> sorted_wrt (<) picked \<and> length picked \<le> out_capacity \<and>
     (r = UI_BACK \<longrightarrow> picked = []) \<and>
     (r = UI_OK \<longrightarrow>
        (if multiselect then ''><Done>'' \<in> set (rows_on (last screens))
         else \<exists>i<length items. picked = [i] \<and> row_text (CHR ''>'' # items ! i) \<in> set (rows_on (last screens))))"
proof -
  let ?s = "list_clamp title items multiselect
      \<lparr> ls_checked = replicate SDK_LIST_ITEM_MAX False, ls_cursor = 0, ls_top = 0 \<rparr>"
  obtain ctx where ctx: "context = Some ctx" "sc_bound ctx"
    using assms by (auto simp: sdk_list_def refused_def sdk_ensure_bound_def split: if_splits option.splits)
  have it: "items \<noteq> []" "length items \<le> SDK_LIST_ITEM_MAX" "0 < out_capacity"
    using assms ctx by (auto simp: sdk_list_def refused_def sdk_ensure_bound_def split: if_splits)
  obtain scr m where l: "modal_loop (\<lambda>s. show_rows title (list_rows title items multiselect s))
      (list_step title items multiselect out_capacity) ?s (sc_ui ctx) evs = (scr, m)" by fastforce
  have "end_modal ctx (scr, m) = (screens, Answered (SDK_OK, Some (picked, r), c) rest)"
    using assms ctx l it by (simp add: sdk_list_def sdk_ensure_bound_def)
  from end_modal_answered[OF this] have a: "m = Answered (picked, r) rest" "scr = screens" by auto
  have "list_inv title items multiselect ?s"
    using it by (intro list_clamp_inv) (simp_all add: list_total_def)
  from list_modal.modal_answer[OF this l[unfolded a]] obtain t u k where
    t: "list_inv title items multiselect t" "last screens = show_rows title (list_rows title items multiselect t) u"
       "list_step title items multiselect out_capacity k t = Some (Inr (picked, r))" by metis
  have shown: "list_row items multiselect t (ls_cursor t) \<in> set (rows_on (last screens))"
    unfolding t(2) list_rows_ok by (rule list_cursor_shown[OF t(1)])
  consider (gone) "k = KEY_OK_LONG" "picked = []" "r = UI_BACK"
    | (one) "\<not> multiselect" "picked = [ls_cursor t]" "r = UI_OK"
    | (many) "multiselect" "ls_cursor t = length items" "r = UI_OK"
        "picked = take out_capacity (filter (\<lambda>i. ls_checked t ! i) [0..<length items])"
    using t(3) by (auto simp: list_step_def Let_def split: sdk_key.splits if_splits)
  then show ?thesis
  proof cases
    case one
    then show ?thesis using shown t(1) it(3) by (auto simp: list_inv_def list_total_def list_row_def)
  next
    case many
    have "sorted_wrt (<) (filter (\<lambda>i. ls_checked t ! i) [0..<length items])"
      by (rule sorted_wrt_filter) simp
    then have "sorted_wrt (<) picked" unfolding many(4) by (rule sorted_wrt_take)
    moreover have "set picked \<subseteq> {..<length items}" unfolding many(4) by (auto dest: in_set_takeD)
    moreover have "''><Done>'' \<in> set (rows_on (last screens))"
      using shown many(1,2) by (simp add: list_row_def row_text_def SDK_FRAME_TEXT_MAX_def)
    ultimately show ?thesis using many by simp
  qed simp
qed

section \<open>Wrapping\<close>

definition words_of :: "string \<Rightarrow> string list" where
  "words_of t = filter (\<lambda>w. w \<noteq> []) (split_on (CHR '' '') t)"

lemma words_of_Nil [simp]: "words_of [] = []"
  by (simp add: words_of_def)

lemma words_of_append: "words_of (a @ CHR '' '' # b) = words_of a @ words_of b"
  by (simp add: words_of_def split_on_append_sep)

lemma words_of_space [simp]: "words_of (CHR '' '' # b) = words_of b"
  using words_of_append[of "[]" b] by simp

lemma words_of_word: "w \<noteq> [] \<Longrightarrow> CHR '' '' \<notin> set w \<Longrightarrow> words_of w = [w]"
  by (simp add: words_of_def split_on_single)

lemma no_sep_takeWhile: "d \<notin> set (takeWhile (\<lambda>x. x \<noteq> d) xs)"
  by (induction xs) auto

lemma words_of_head:
  assumes "c \<noteq> CHR '' ''"
  shows "words_of (c # s) = takeWhile (\<lambda>x. x \<noteq> CHR '' '') (c # s) # words_of (dropWhile (\<lambda>x. x \<noteq> CHR '' '') (c # s))"
proof -
  let ?w = "takeWhile (\<lambda>x. x \<noteq> CHR '' '') (c # s)" and ?r = "dropWhile (\<lambda>x. x \<noteq> CHR '' '') (c # s)"
  have w1: "?w \<noteq> []" using assms by simp
  have w2: "CHR '' '' \<notin> set ?w" by (rule no_sep_takeWhile)
  note w = w1 w2
  have e: "c # s = ?w @ ?r" by simp
  show ?thesis
  proof (cases ?r)
    case Nil
    then show ?thesis using e words_of_word[OF w] by (metis append_Nil2 words_of_Nil)
  next
    case (Cons d r)
    then have "d = CHR '' ''" using hd_dropWhile[of "\<lambda>x. x \<noteq> CHR '' ''" "c # s"] by (metis list.distinct(1) list.sel(1))
    then show ?thesis using e Cons words_of_append[of ?w r] words_of_word[OF w]
      by (metis append_Cons append_Nil words_of_space)
  qed
qed

lemma wrap_loop_word:
  fixes c s
  defines "w \<equiv> takeWhile (\<lambda>x. x \<noteq> CHR '' '') (c # s)" and "r \<equiv> dropWhile (\<lambda>x. x \<noteq> CHR '' '') (c # s)"
  assumes "c \<noteq> CHR '' ''"
  shows "wrap_loop m full cur (c # s) =
     (if cur \<noteq> [] \<and> length cur + length w > 20 then
        (if length full + 1 \<ge> m then (full @ [cur], length full + 2)
         else wrap_loop m (full @ [cur]) (take 21 w) r)
      else wrap_loop m full (if cur \<noteq> [] then cur @ '' '' @ w else take 21 w) r)"
  using assms(3) unfolding w_def r_def
  by (subst wrap_loop.simps) (simp add: Let_def SDK_DISPLAY_COLS_def del: takeWhile.simps dropWhile.simps)

definition wrapped :: "nat \<Rightarrow> string list \<Rightarrow> string list \<Rightarrow> nat \<Rightarrow> bool" where
  "wrapped m ws rows n \<longleftrightarrow>
     length rows \<le> m \<and> (\<forall>r\<in>set rows. length r \<le> 21) \<and>
     (\<exists>rest. concat (map words_of rows) @ rest = ws \<and>
        (if rest = [] then n = (if rows = [[]] then 0 else length rows) else length rows = m \<and> n = m + 1))"

lemma wrap_loop_words:
  "wrap_loop m full cur s = (rows, n) \<Longrightarrow> length full < m \<Longrightarrow> \<forall>r\<in>set full. length r \<le> 21 \<Longrightarrow>
     length cur \<le> 21 \<Longrightarrow> full \<noteq> [] \<longrightarrow> cur \<noteq> [] \<Longrightarrow>
     wrapped m (concat (map words_of (full @ [cur])) @ map (take 21) (words_of s)) rows n"
proof (induction s arbitrary: full cur rows n rule: length_induct)
  case (1 s)
  show ?case
  proof (cases s)
    case Nil
    with 1(2-6) show ?thesis by (auto simp: wrapped_def)
  next
    case (Cons c t)
    show ?thesis
    proof (cases "c = CHR '' ''")
      case True
      then show ?thesis using 1 Cons by simp
    next
      case False
      define w where "w = takeWhile (\<lambda>x. x \<noteq> CHR '' '') (c # t)"
      define r where "r = dropWhile (\<lambda>x. x \<noteq> CHR '' '') (c # t)"
      have w: "w \<noteq> []" "CHR '' '' \<notin> set w"
        using False no_sep_takeWhile unfolding w_def by simp_all
      have r: "length r < length s"
        using False Cons unfolding r_def by (simp add: length_dropWhile_le le_imp_less_Suc)
      have ws: "words_of s = w # words_of r"
        unfolding Cons w_def r_def by (rule words_of_head[OF False])
      have cut: "words_of (take 21 w) = [take 21 w]"
        using w by (intro words_of_word) (auto dest: in_set_takeD)
      note eq = wrap_loop_word[OF False, of m full cur t, folded w_def r_def Cons]
      show ?thesis
      proof (cases "cur \<noteq> [] \<and> length cur + length w > 20")
        case full: True
        show ?thesis
        proof (cases "length full + 1 \<ge> m")
          case True
          then have "rows = full @ [cur]" "n = length full + 2" "length full + 1 = m"
            using 1(2,3) eq full by simp_all
          then show ?thesis using 1(4,5) ws unfolding wrapped_def
            by (intro conjI exI[of _ "map (take 21) (words_of s)"]) auto
        next
          case room: False
          then have "wrap_loop m (full @ [cur]) (take 21 w) r = (rows, n)" using 1(2) eq full by simp
          then have "wrapped m (concat (map words_of ((full @ [cur]) @ [take 21 w])) @ map (take 21) (words_of r)) rows n"
            using 1(1) r room 1(4,5) w(1) by (intro 1(1)[rule_format, OF r]) auto
          then show ?thesis using ws cut by simp
        qed
      next
        case fits: False
        let ?new = "if cur \<noteq> [] then cur @ '' '' @ w else take 21 w"
        have "wrap_loop m full ?new r = (rows, n)" using 1(2) eq fits by simp
        then have "wrapped m (concat (map words_of (full @ [?new])) @ map (take 21) (words_of r)) rows n"
          using 1(3-6) fits w(1) by (intro 1(1)[rule_format, OF r]) auto
        moreover have "words_of ?new = words_of cur @ [take 21 w]"
          using fits cut words_of_append[of cur w] words_of_word[OF w] by auto
        ultimately show ?thesis using ws by simp
      qed
    qed
  qed
qed

lemma wrap_text_wrapped:
  "0 < m \<Longrightarrow> sdk_wrap_text (Some t) m = (rows, n) \<Longrightarrow> wrapped m (map (take 21) (words_of t)) rows n"
  using wrap_loop_words[of m "[]" "[]" t rows n] by (simp add: sdk_wrap_text_def)

interpretation dialog: modal_contract "\<lambda>_ ui. ui" dialog_step "\<lambda>_. True"
  by unfold_locales (auto simp: dialog_step_def)

lemma dialog_screens:
  "modal_loop (\<lambda>_ ui. ui) dialog_step () ui evs = (screens, m) \<Longrightarrow> set screens = {ui}"
proof (induction evs arbitrary: screens m rule: length_induct)
  case (1 evs)
  show ?case
  proof (cases "sdk_ui_next_key evs")
    case None
    with 1(2) show ?thesis by (subst (asm) modal_loop.simps) (auto simp: Let_def)
  next
    case (Some kr)
    obtain k ks where k: "sdk_ui_next_key evs = Some (k, ks)" using Some by (cases kr) simp
    obtain scr n where l: "modal_loop (\<lambda>_ ui. ui) dialog_step () ui ks = (scr, n)" by fastforce
    have i: "set scr = {ui}" by (rule 1(1)[rule_format, OF next_key_shorter[OF k] l])
    have "screens = [ui] \<or> screens = ui # scr"
      using modal_loop.simps[of "\<lambda>_ ui. ui" dialog_step "()" ui evs] 1(2) k l
      by (simp add: dialog_step_def split: if_splits)
    then show ?thesis
    proof
      assume "screens = ui # scr"
      then show ?thesis using i by (simp only: list.set insert_absorb2)
    qed (simp only: list.set)
  qed
qed

lemma dialog_screen_rows:
  assumes "sc_bound ctx" "sdk_dialog (Some ctx) title (Some t) True evs = (screens, m)"
    and "sdk_wrap_text (Some t) (SDK_FRAME_LINE_CAPACITY - length (title_rows title)) = (rows, n)"
    and "\<not> length (title_rows title) + n > 7" "\<forall>r\<in>set rows. length r \<le> 21"
  shows "m \<noteq> Overrun \<and> screens \<noteq> [] \<and> (\<forall>x\<in>set screens. rows_on x = title_rows title @ take n rows)"
proof -
  let ?lines = "take (length (title_rows title) + n) (title_rows title @ rows)"
  let ?ui = "show_rows title ?lines (sc_ui ctx)"
  obtain scr k where l: "modal_loop (\<lambda>_ ui. ui) dialog_step () ?ui evs = (scr, k)" by fastforce
  have d: "end_modal ctx (scr, k) = (screens, m)"
    using assms l by (simp add: sdk_dialog_def sdk_ensure_bound_def Let_def SDK_FRAME_LINE_CAPACITY_def)
  have m: "m \<noteq> Overrun" "screens = scr"
    using d dialog.modal_inside[OF TrueI l] by (auto simp: end_modal_def split: modal.splits)
  have "rows_on ?ui = ?lines"
  proof (rule rows_on_show_rows)
    show "length ?lines \<le> 7" using assms(4) by simp
    show "\<forall>r\<in>set ?lines. length r < 64"
      using assms(5) by (fastforce dest: in_set_takeD title_rows_short)
  qed
  moreover have "screens \<noteq> []" using dialog_screens[OF l] m(2) by auto
  ultimately show ?thesis using dialog_screens[OF l] m by simp
qed


section \<open>Runs\<close>

definition ui_demo :: sdk_context where
  "ui_demo = (sdk_context_init True)\<lparr> sc_bound := True \<rparr>"

lemma ui_demo_bound [simp]: "sc_bound ui_demo"
  by (simp add: ui_demo_def)

lemma confirm_run:
  "\<exists>screens c. sdk_confirm (Some ui_demo) (Some ''T'') (Some [Some ''x'']) 1 False True [KEY_RIGHT, KEY_OK] =
     (screens, Answered (SDK_OK, Some True, c) [])"
  by (simp add: sdk_confirm_def sdk_ensure_bound_def modal_loop.simps confirm_step_def end_modal_def Let_def)

theorem confirm_shows_witness:
  "\<exists>screens c. sdk_confirm (Some ui_demo) (Some ''T'') (Some [Some ''x'']) 1 False True [KEY_RIGHT, KEY_OK] =
       (screens, Answered (SDK_OK, Some True, c) []) \<and>
     last (rows_on (last screens)) = '' Deny       >Allow''"
proof -
  obtain screens c where r: "sdk_confirm (Some ui_demo) (Some ''T'') (Some [Some ''x'']) 1 False True
     [KEY_RIGHT, KEY_OK] = (screens, Answered (SDK_OK, Some True, c) [])" using confirm_run by blast
  from confirm_shows[OF r] have "last (rows_on (last screens)) = '' Deny       >Allow''" by blast
  with r show ?thesis by blast
qed

lemma list_run:
  "\<exists>screens c. sdk_list (Some ui_demo) None (Some [''a'', ''b'']) False 4 True [KEY_DOWN, KEY_OK] =
     (screens, Answered (SDK_OK, Some ([1], UI_OK), c) [])"
  by (simp add: sdk_list_def sdk_ensure_bound_def modal_loop.simps list_step_def list_clamp_def list_total_def
      SDK_LIST_ITEM_MAX_def end_modal_def Let_def)

theorem list_picks_witness:
  "\<exists>screens c. sdk_list (Some ui_demo) None (Some [''a'', ''b'']) False 4 True [KEY_DOWN, KEY_OK] =
       (screens, Answered (SDK_OK, Some ([1], UI_OK), c) []) \<and>
     ''>b'' \<in> set (rows_on (last screens))"
proof -
  obtain screens c where r: "sdk_list (Some ui_demo) None (Some [''a'', ''b'']) False 4 True [KEY_DOWN, KEY_OK] =
     (screens, Answered (SDK_OK, Some ([1], UI_OK), c) [])" using list_run by blast
  from list_picks[OF r] have "row_text ''>b'' \<in> set (rows_on (last screens))" by simp
  with r show ?thesis by (auto simp: row_text_def SDK_FRAME_TEXT_MAX_def)
qed

text \<open>Six words of twenty characters do not fit below a title: the dialog overruns.\<close>

definition long_text :: string where
  "long_text = concat (replicate 6 (replicate 20 (CHR ''x'') @ '' ''))"

lemma dialog_overruns: "sdk_dialog (Some ui_demo) (Some ''T'') (Some long_text) True [KEY_OK] = ([], Overrun)"
proof -
  have "fst (sdk_wrap_text (Some long_text) 5) = replicate 5 (replicate 20 (CHR ''x''))"
    "snd (sdk_wrap_text (Some long_text) 5) = 6" by code_simp+
  then have "sdk_wrap_text (Some long_text) 5 = (replicate 5 (replicate 20 (CHR ''x'')), 6)"
    by (simp only: prod_eq_iff fst_conv snd_conv)
  then show ?thesis
    by (simp add: sdk_dialog_def sdk_ensure_bound_def title_rows_def sdk_text_present_def
        SDK_FRAME_LINE_CAPACITY_def Let_def del: replicate.simps)
qed


end
