(* ===== verification/SdkInput.thy ===== *)
theory SdkInput
  imports SdkUi Kbd
begin

text \<open>
  src/jpp_sdk_bridge.c, the prompts for a value: keyboard entry, the date and time
  picker, input, and the file picker. As in SdkUi a prompt is a function of the
  events delivered to it; the picker hands them to the keyboard and takes back what
  that left.
\<close>

datatype sdk_input_type = INPUT_TEXT | INPUT_NUMBER | INPUT_DATE | INPUT_TIME

definition SDK_DT_FIELDS :: nat where "SDK_DT_FIELDS = 3"
definition SDK_DT_FOCUS_COUNT :: nat where "SDK_DT_FOCUS_COUNT = 7"

section \<open>Keyboard entry\<close>

definition key_code :: "sdk_key \<Rightarrow> int" where
  "key_code k =
     (case k of
        KEY_NONE \<Rightarrow> 0 | KEY_UP \<Rightarrow> 1 | KEY_DOWN \<Rightarrow> 2 | KEY_LEFT \<Rightarrow> 3 | KEY_RIGHT \<Rightarrow> 4
      | KEY_OK \<Rightarrow> 5 | KEY_OK_LONG \<Rightarrow> 6 | KEY_OK_HOLD \<Rightarrow> 7 | KEY_OK_DOUBLE \<Rightarrow> 8)"

definition kbd_type :: "sdk_input_type \<Rightarrow> kbd_input_type" where
  "kbd_type type =
     (case type of
        INPUT_TEXT \<Rightarrow> KBD_TYPE_TEXT | INPUT_NUMBER \<Rightarrow> KBD_TYPE_NUMBER
      | INPUT_DATE \<Rightarrow> KBD_TYPE_DATE | INPUT_TIME \<Rightarrow> KBD_TYPE_TIME)"

text \<open>The keyboard is rendered into the first 48 rows of the canvas.\<close>

definition keyboard_draw ::
  "string \<Rightarrow> cstr \<Rightarrow> kbd_key list list \<Rightarrow> kbd_cursor \<Rightarrow> sdk_ui \<Rightarrow> sdk_ui" where
  "keyboard_draw title_str placeholder rows cursor ui =
     (let ui = snd (sdk_put_frame [Some title_str] ui);
          is_ghost = (kc_value cursor = [] \<and> sdk_text_present placeholder);
          field = (if is_ghost then placeholder else Some (kc_value cursor))
      in ui\<lparr> ui_canvas := kbd_render rows field is_ghost cursor @ drop KBD_PX_ROWS (ui_canvas ui) \<rparr>)"

definition keyboard_step ::
  "kbd_key list list \<Rightarrow> nat \<Rightarrow> nat \<Rightarrow> sdk_key \<Rightarrow> kbd_cursor \<Rightarrow> (kbd_cursor + string \<times> sdk_ui_result) option" where
  "keyboard_step rows cap value_buf_len key cursor =
     (case kbd_step rows (key_code key) cap cursor of
        None \<Rightarrow> None
      | Some (KBD_RESULT_CONTINUE, c) \<Rightarrow> Some (Inl c)
      | Some (KBD_RESULT_DONE, c) \<Rightarrow>
          Some (Inr (take (if length (kc_value c) \<ge> value_buf_len then value_buf_len - 1
                           else length (kc_value c)) (kc_value c), UI_OK))
      | Some (KBD_RESULT_CANCEL, c) \<Rightarrow> Some (Inr ([], UI_BACK)))"

definition sdk_keyboard_entry ::
  "cstr \<Rightarrow> cstr \<Rightarrow> sdk_input_type \<Rightarrow> cstr \<Rightarrow> nat \<Rightarrow> sdk_ui \<Rightarrow> sdk_key list \<Rightarrow>
   sdk_ui list \<times> (string \<times> sdk_ui_result) modal" where
  "sdk_keyboard_entry title placeholder type prefill value_buf_len ui evs =
     (let rows = kbd_layout (kbd_type type);
          cap = (if value_buf_len - 1 > KBD_VALUE_MAX then KBD_VALUE_MAX else value_buf_len - 1);
          title_str = (if sdk_text_present title then the title else ''Enter value'')
      in modal_loop (keyboard_draw title_str placeholder rows) (keyboard_step rows cap value_buf_len)
           (kbd_cursor_init prefill) ui evs)"

section \<open>Date and time picker\<close>

text \<open>The three values v[0], v[1], v[2] are a list.\<close>

definition sdk_dt_days_in_month :: "int \<Rightarrow> int \<Rightarrow> int" where
  "sdk_dt_days_in_month yr mon =
     (if mon < 1 \<or> mon > 12 then 31
      else if mon = 2 then
        (if (yr mod 4 = 0 \<and> yr mod 100 \<noteq> 0) \<or> yr mod 400 = 0 then 29 else 28)
      else [31, 28, 31, 30, 31, 30, 31, 31, 30, 31, 30, 31] ! nat (mon - 1))"

text \<open>The digits at the head of the text as a C int, and the rest.\<close>

fun dt_number :: "32 word \<Rightarrow> string \<Rightarrow> 32 word \<times> string" where
  "dt_number v [] = (v, [])"
| "dt_number v (c # s) =
     (if is_dec_digit c then dt_number (v * 10 + of_nat (ord c - 48)) s else (v, c # s))"

lemma dt_number_shorter [termination_simp]:
  "dt_number v s = (w, rest) \<Longrightarrow> length rest \<le> length s"
  by (induction v s rule: dt_number.induct) (auto split: if_splits)

text \<open>The numbers written to out; their count is what the code returns.\<close>

fun sdk_dt_parse_nums :: "nat \<Rightarrow> string \<Rightarrow> int list" where
  "sdk_dt_parse_nums m [] = []"
| "sdk_dt_parse_nums m (c # s) =
     (if m = 0 then []
      else if is_dec_digit c then
        (case dt_number (of_nat (ord c - 48)) s of
           (v, rest) \<Rightarrow> sint v # sdk_dt_parse_nums (m - 1) rest)
      else sdk_dt_parse_nums m s)"

definition clamp_to :: "int \<Rightarrow> int \<Rightarrow> int \<Rightarrow> int" where
  "clamp_to lo hi x = (let x = (if x < lo then lo else x) in if x > hi then hi else x)"

definition sdk_dt_clamp :: "bool \<Rightarrow> int list \<Rightarrow> int list" where
  "sdk_dt_clamp is_date v =
     (if is_date then
        let yr = clamp_to 1970 2099 (v ! 0); mon = clamp_to 1 12 (v ! 1)
        in [yr, mon, clamp_to 1 (sdk_dt_days_in_month yr mon) (v ! 2)]
      else [clamp_to 0 23 (v ! 0), clamp_to 0 59 (v ! 1), clamp_to 0 59 (v ! 2)])"

text \<open>printf's %0<w>d of a number that is not negative, as all values are after the
  clamp.\<close>

definition padded :: "nat \<Rightarrow> int \<Rightarrow> string" where
  "padded w n = replicate (w - length (dec (nat n))) (CHR ''0'') @ dec (nat n)"

definition sdk_dt_format :: "bool \<Rightarrow> int list \<Rightarrow> nat \<Rightarrow> string" where
  "sdk_dt_format is_date v out_len =
     take (out_len - 1)
       (if is_date then padded 4 (v ! 0) @ ''-'' @ padded 2 (v ! 1) @ ''-'' @ padded 2 (v ! 2)
        else padded 2 (v ! 0) @ '':'' @ padded 2 (v ! 1) @ '':'' @ padded 2 (v ! 2))"

definition sdk_dt_step_field :: "bool \<Rightarrow> int list \<Rightarrow> nat \<Rightarrow> int \<Rightarrow> int list" where
  "sdk_dt_step_field is_date v f delta =
     (let (lo, hi) =
        (if is_date then
           (if f = 0 then (1970, 2099) else if f = 1 then (1, 12)
            else (1, sdk_dt_days_in_month (v ! 0) (v ! 1)))
         else (0, if f = 0 then 23 else 59));
          range_len = hi - lo + 1
      in sdk_dt_clamp is_date
           (v[f := lo + (((v ! f - lo + delta) smod range_len) + range_len) smod range_len]))"

definition dt_box :: "bool \<Rightarrow> nat \<Rightarrow> pixbuf \<Rightarrow> pixbuf" where
  "dt_box is_date focus canvas =
     (if focus < SDK_DT_FIELDS then
        let base_x = (128 - (if is_date then 10 else 8) * 6) div 2;
            fx0 = base_x + [0, if is_date then 5 else 3, if is_date then 8 else 6] ! focus * 6;
            fx1 = fx0 + [if is_date then 4 else 2, 2, 2] ! focus * 6 - 2;
            canvas = kbd_frame_rect canvas (fx0 - 1) (12 - 2) (fx1 + 1) (12 + 9);
            cx = (fx0 + fx1) div 2 - 2
        in kbd_glyph (kbd_glyph canvas cx (12 - 11) (CHR ''^'') False) cx (12 + 13) (CHR ''v'') False
      else canvas)"

definition dt_button :: "nat \<Rightarrow> pixbuf \<Rightarrow> nat \<times> string \<Rightarrow> pixbuf" where
  "dt_button focus canvas button =
     (case button of (b, label) \<Rightarrow>
        let x0 = int b * 32 + 1; x1 = x0 + 32 - 3; y0 = 34; y1 = 45;
            sel = (focus = SDK_DT_FIELDS + b);
            label_px = int (length label) * 6 - 1;
            tx = x0 + (x1 - x0 - label_px) div 2;
            canvas = (if sel then kbd_fill_rect canvas x0 y0 x1 y1 True else kbd_frame_rect canvas x0 y0 x1 y1)
        in kbd_text canvas tx (y0 + 2) label x1 sel)"

definition dt_draw :: "bool \<Rightarrow> string \<Rightarrow> int list \<Rightarrow> nat \<Rightarrow> sdk_ui \<Rightarrow> sdk_ui" where
  "dt_draw is_date title_str v focus ui =
     (let ui = (snd (sdk_put_frame [Some title_str] ui))\<lparr> ui_frame_title_rule := True \<rparr>;
          value_chars = (if is_date then 10 else 8);
          base_x = (128 - value_chars * 6) div 2;
          canvas = kbd_text blank_canvas base_x 12 (sdk_dt_format is_date v 16) 128 False;
          canvas = kbd_glyph canvas (base_x - 11) 12 (CHR ''<'') False;
          canvas = kbd_glyph canvas (base_x + value_chars * 6 + 1) 12 (CHR ''>'') False
      in ui\<lparr> ui_canvas :=
           foldl (dt_button focus) (dt_box is_date focus canvas)
             [(0, ''123''), (1, ''now''), (2, ''X''), (3, ''OK'')] \<rparr>)"

text \<open>What a key does: values and focus go on, the picker answers, the keyboard is
  called, or the clock is read.\<close>

datatype dt_outcome = Dt_Go "int list" nat | Dt_Answer "string \<times> sdk_ui_result" | Dt_Keyboard | Dt_Now

definition dt_key :: "bool \<Rightarrow> nat \<Rightarrow> int list \<Rightarrow> nat \<Rightarrow> sdk_key \<Rightarrow> dt_outcome" where
  "dt_key is_date value_buf_len v focus key =
     (case key of
        KEY_LEFT \<Rightarrow> Dt_Go v (if focus = 0 then SDK_DT_FOCUS_COUNT - 1 else focus - 1)
      | KEY_RIGHT \<Rightarrow> Dt_Go v ((focus + 1) mod SDK_DT_FOCUS_COUNT)
      | KEY_UP \<Rightarrow> Dt_Go (if focus < SDK_DT_FIELDS then sdk_dt_step_field is_date v focus 1 else v) focus
      | KEY_DOWN \<Rightarrow> Dt_Go (if focus < SDK_DT_FIELDS then sdk_dt_step_field is_date v focus (-1) else v) focus
      | KEY_OK \<Rightarrow>
          (if focus < SDK_DT_FIELDS \<or> focus = 6 then Dt_Answer (sdk_dt_format is_date v value_buf_len, UI_OK)
           else if focus = 5 then Dt_Answer ([], UI_BACK)
           else if focus = 3 then Dt_Keyboard
           else if focus = 4 then Dt_Now
           else Dt_Go v focus)
      | KEY_OK_LONG \<Rightarrow> Dt_Answer ([], UI_BACK)
      | _ \<Rightarrow> Dt_Go v focus)"

text \<open>What was typed over the values.\<close>

definition dt_typed :: "bool \<Rightarrow> int list \<Rightarrow> string \<times> sdk_ui_result \<Rightarrow> int list" where
  "dt_typed is_date v answer =
     (case answer of (typed, r) \<Rightarrow>
        if r = UI_OK then
          let nums = sdk_dt_parse_nums SDK_DT_FIELDS typed
          in sdk_dt_clamp is_date (nums @ drop (length nums) v)
        else v)"

text \<open>junk is the local result before the reader fills it.\<close>

definition dt_now :: "broker_result \<Rightarrow> 'w sdk_services \<Rightarrow> bool \<Rightarrow> int list \<Rightarrow> 'w sdk_env \<Rightarrow> int list \<times> 'w sdk_env" where
  "dt_now junk sv is_date v e =
     (case (sv_rtc_reader sv, sv_locks sv) of
        (Some reader, True) \<Rightarrow>
          (case run_exclusive ''device'' reader junk e of
             (bs, r, e) \<Rightarrow>
               if bs = BROKER_OK \<and> br_ok r then
                 (case broker_result_get (Some r) (Some ''text'') of
                    None \<Rightarrow> (v, e)
                  | Some t \<Rightarrow>
                      let nums = sdk_dt_parse_nums 5 t;
                          v = (if is_date \<and> length nums \<ge> 3 then [nums ! 0, nums ! 1, nums ! 2]
                               else if \<not> is_date \<and> length nums \<ge> 5 then [nums ! 3, nums ! 4, 0] else v)
                      in (sdk_dt_clamp is_date v, e))
               else (v, e))
      | _ \<Rightarrow> (v, e))"

text \<open>The loop of the picker; the keyboard takes the events it needs.\<close>

function dt_loop ::
  "broker_result \<Rightarrow> 'w sdk_services \<Rightarrow> bool \<Rightarrow> string \<Rightarrow> nat \<Rightarrow> int list \<Rightarrow> nat \<Rightarrow> sdk_ui \<Rightarrow>
   'w sdk_env \<Rightarrow> sdk_key list \<Rightarrow> sdk_ui list \<times> (string \<times> sdk_ui_result) modal \<times> 'w sdk_env" where
  "dt_loop junk sv is_date title_str buf_len v focus ui e evs =
     (let ui = dt_draw is_date title_str v focus ui
      in case sdk_ui_next_key evs of
           None \<Rightarrow> ([ui], Waiting, e)
         | Some (key, evs) \<Rightarrow>
             (case dt_key is_date buf_len v focus key of
                Dt_Answer r \<Rightarrow> ([ui], Answered r evs, e)
              | Dt_Go v focus \<Rightarrow>
                  (let (screens, m, e) = dt_loop junk sv is_date title_str buf_len v focus ui e evs
                   in (ui # screens, m, e))
              | Dt_Now \<Rightarrow>
                  (let (v, e) = dt_now junk sv is_date v e;
                       (screens, m, e) = dt_loop junk sv is_date title_str buf_len v focus ui e evs
                   in (ui # screens, m, e))
              | Dt_Keyboard \<Rightarrow>
                  (case sdk_keyboard_entry (Some title_str) None (if is_date then INPUT_DATE else INPUT_TIME)
                          (Some (sdk_dt_format is_date v 16)) 32 ui evs of
                     (shown, Waiting) \<Rightarrow> (ui # shown, Waiting, e)
                   | (shown, Overrun) \<Rightarrow> (ui # shown, Overrun, e)
                   | (shown, Answered a rest) \<Rightarrow>
                       (let (screens, m, e) =
                          dt_loop junk sv is_date title_str buf_len (dt_typed is_date v a) focus
                            (last shown) e rest
                        in (ui # shown @ screens, m, e)))))"
  by pat_completeness auto
termination
  by (relation "measure (\<lambda>(_, _, _, _, _, _, _, _, _, evs). length evs)")
     (auto simp: sdk_keyboard_entry_def Let_def dest!: next_key_shorter dest: sym[THEN modal_loop_rest])

declare dt_loop.simps [simp del]

definition sdk_datetime_picker ::
  "broker_result \<Rightarrow> 'w sdk_services \<Rightarrow> cstr \<Rightarrow> bool \<Rightarrow> nat \<Rightarrow> sdk_ui \<Rightarrow> 'w sdk_env \<Rightarrow> sdk_key list \<Rightarrow>
   sdk_ui list \<times> (string \<times> sdk_ui_result) modal \<times> 'w sdk_env" where
  "sdk_datetime_picker junk sv title is_date value_buf_len ui e evs =
     (let v = sdk_dt_clamp is_date (if is_date then [2026, 1, 1] else [0, 0, 0]);
          title_str = (if sdk_text_present title then the title
                       else if is_date then ''Set date'' else ''Set time'')
      in dt_loop junk sv is_date title_str value_buf_len v 0 ui e evs)"

text \<open>The answer is the text left in out_value and out_result; the flag says that both
  pointers are given.\<close>

definition sdk_input ::
  "broker_result \<Rightarrow> 'w sdk_services \<Rightarrow> sdk_context option \<Rightarrow> cstr \<Rightarrow> cstr \<Rightarrow> sdk_input_type \<Rightarrow> bool \<Rightarrow> nat \<Rightarrow>
   'w sdk_env \<Rightarrow> sdk_key list \<Rightarrow> (string \<times> sdk_ui_result) modal_call \<times> 'w sdk_env" where
  "sdk_input junk sv context title placeholder type outs value_buf_len e evs =
     (if sdk_ensure_bound context \<noteq> SDK_OK then (refused (sdk_ensure_bound context) context evs, e)
      else if \<not> outs \<or> value_buf_len = 0 then (refused SDK_INVALID_ARGUMENT context evs, e)
      else
        let ctx = the context; ui = sc_ui ctx
        in if type = INPUT_DATE \<or> type = INPUT_TIME then
             (case sdk_datetime_picker junk sv title (type = INPUT_DATE) value_buf_len ui e evs of
                (screens, m, e) \<Rightarrow> (end_modal ctx (screens, m), e))
           else
             (end_modal ctx (sdk_keyboard_entry title placeholder type None value_buf_len ui evs), e))"

section \<open>File picker\<close>

text \<open>The entries in the text of the listing service: one per line, directories with a
  slash at the end.\<close>

definition fp_entry :: "string \<Rightarrow> fb_entry" where
  "fp_entry line = (take (FB_NAME_MAX - 1) line, last line = CHR ''/'')"

definition fp_entries :: "nat \<Rightarrow> string \<Rightarrow> fb_entry list" where
  "fp_entries max_entries txt =
     map fp_entry (take max_entries (filter (\<lambda>l. l \<noteq> []) (split_on LF txt)))"

definition fp_list_dir :: "(string \<Rightarrow> nat \<Rightarrow> 'w \<Rightarrow> string \<times> 'w) \<Rightarrow> 'w sdk_env list_dir" where
  "fp_list_dir dir_list e abs_dir =
     (case dir_list abs_dir 2048 (se_world e) of
        (txt, w) \<Rightarrow> (fp_entries FB_ENTRY_MAX txt, e\<lparr> se_world := w \<rparr>))"

definition fp_render :: "sdk_ui \<Rightarrow> string list \<Rightarrow> sdk_ui" where
  "fp_render ui rows = snd (sdk_put_frame (map Some (''Select a file:'' # take FB_VISIBLE rows)) ui)"

definition fp_key :: "sdk_key \<Rightarrow> fb_key" where
  "fp_key key =
     (case key of
        KEY_UP \<Rightarrow> FB_KEY_UP | KEY_DOWN \<Rightarrow> FB_KEY_DOWN | KEY_OK \<Rightarrow> FB_KEY_OK
      | KEY_OK_LONG \<Rightarrow> FB_KEY_BACK | _ \<Rightarrow> FB_KEY_NONE)"

text \<open>Here the events are what the waits of the browser deliver: KEY_NONE is a wait
  whose time is up. Every wait takes one, so the screens count those used.\<close>

definition sdk_file_pick ::
  "'w sdk_services \<Rightarrow> sdk_context option \<Rightarrow> bool \<Rightarrow> nat \<Rightarrow> 'w sdk_env \<Rightarrow> sdk_key list \<Rightarrow>
   (string \<times> sdk_ui_result) modal_call \<times> 'w sdk_env" where
  "sdk_file_pick sv context outs out_path_len e evs =
     (if sdk_ensure_bound context \<noteq> SDK_OK then (refused (sdk_ensure_bound context) context evs, e)
      else if \<not> outs \<or> out_path_len = 0 then (refused SDK_INVALID_ARGUMENT context evs, e)
      else
        (case sv_dir_list sv of
           None \<Rightarrow> (refused SDK_INVALID_STATE context evs, e)
         | Some dir_list \<Rightarrow>
             (case sdk_ensure_cap sv (the context) ''files.full'' e of
                (cap_st, ctx, e) \<Rightarrow>
                  if cap_st \<noteq> SDK_OK then (refused cap_st (Some ctx) evs, e)
                  else
                    (case file_browser_run (fp_list_dir dir_list) (Some ''/sd'') out_path_len e (map fp_key evs) of
                       None \<Rightarrow> (([], Answered (SDK_OK, Some ([], UI_BACK), Some ctx) evs), e)
                     | Some (frames, out, e) \<Rightarrow>
                         let screens = map (fp_render (sc_ui ctx)) frames; rest = drop (length frames) evs
                         in (end_modal ctx (screens,
                               case out of
                                 Fb_Continue s \<Rightarrow> Waiting
                               | Fb_Selected p \<Rightarrow> Answered (p, UI_OK) rest
                               | Fb_Cancelled \<Rightarrow> Answered ([], UI_BACK) rest), e)))))"

section \<open>Keyboard and date picker\<close>

definition keyboard_cap :: "nat \<Rightarrow> nat" where
  "keyboard_cap n = (if n - 1 > KBD_VALUE_MAX then KBD_VALUE_MAX else n - 1)"

lemma keyboard_cap_le: "keyboard_cap n \<le> 64"
  by (simp add: keyboard_cap_def KBD_VALUE_MAX_def)

interpretation keyboard: modal_contract
  "keyboard_draw title placeholder (kbd_layout type)"
  "keyboard_step (kbd_layout type) (keyboard_cap n) n"
  "\<lambda>c. focus_ok (kbd_layout type) c \<and> length (kc_value c) \<le> 64"
  for title placeholder type n
proof
  fix k s t
  assume i: "focus_ok (kbd_layout type) s \<and> length (kc_value s) \<le> 64"
  obtain r c where s: "kbd_step (kbd_layout type) (key_code k) (keyboard_cap n) s = Some (r, c)"
    "focus_ok (kbd_layout type) c" "length (kc_value c) \<le> 64"
    using step_keeps[OF layout_rows_ok _ keyboard_cap_le _ keyboard_cap_le, of type s "key_code k" n] i by blast
  then show "keyboard_step (kbd_layout type) (keyboard_cap n) n k s \<noteq> None"
    by (simp add: keyboard_step_def split: kbd_result.split)
  assume "keyboard_step (kbd_layout type) (keyboard_cap n) n k s = Some (Inl t)"
  with s show "focus_ok (kbd_layout type) t \<and> length (kc_value t) \<le> 64"
    by (simp add: keyboard_step_def split: kbd_result.splits)
qed

lemma cursor_init_ok:
  "focus_ok (kbd_layout type) (kbd_cursor_init prefill) \<and> length (kc_value (kbd_cursor_init prefill)) \<le> 64"
  by (cases type) (simp_all add: focus_ok_def kbd_cursor_init_def kbd_layout_def kbd_digits_row_def
      KBD_VALUE_MAX_def split: option.split)

lemma keyboard_answers:
  assumes "sdk_keyboard_entry title placeholder type prefill n ui evs = (screens, m)"
  shows "m \<noteq> Overrun"
    and "0 < n \<Longrightarrow> m = Answered (t, r) rest \<Longrightarrow> length t < n \<and> (r = UI_BACK \<longrightarrow> t = [])"
proof -
  let ?ts = "if sdk_text_present title then the title else ''Enter value''"
  have l: "modal_loop (keyboard_draw ?ts placeholder (kbd_layout (kbd_type type)))
      (keyboard_step (kbd_layout (kbd_type type)) (keyboard_cap n) n) (kbd_cursor_init prefill) ui evs = (screens, m)"
    using assms by (simp add: sdk_keyboard_entry_def keyboard_cap_def Let_def)
  show "m \<noteq> Overrun" by (rule keyboard.modal_inside[OF cursor_init_ok l])
  assume n: "0 < n" and m: "m = Answered (t, r) rest"
  obtain c k where "keyboard_step (kbd_layout (kbd_type type)) (keyboard_cap n) n k c = Some (Inr (t, r))"
    by (rule keyboard.modal_answer[OF cursor_init_ok l[unfolded m]])
  then show "length t < n \<and> (r = UI_BACK \<longrightarrow> t = [])"
    using n by (auto simp: keyboard_step_def split: option.splits prod.splits kbd_result.splits if_splits)
qed

text \<open>The values the picker may hold: a day of the calendar from 1970 to 2099, or a time
  of day.\<close>

definition dt_ok :: "bool \<Rightarrow> int list \<Rightarrow> bool" where
  "dt_ok is_date v \<longleftrightarrow>
     length v = 3 \<and>
     (if is_date then
        1970 \<le> v ! 0 \<and> v ! 0 \<le> 2099 \<and> 1 \<le> v ! 1 \<and> v ! 1 \<le> 12 \<and>
        1 \<le> v ! 2 \<and> v ! 2 \<le> sdk_dt_days_in_month (v ! 0) (v ! 1)
      else 0 \<le> v ! 0 \<and> v ! 0 \<le> 23 \<and> 0 \<le> v ! 1 \<and> v ! 1 \<le> 59 \<and> 0 \<le> v ! 2 \<and> v ! 2 \<le> 59)"

lemma days_in_month_bounds: "28 \<le> sdk_dt_days_in_month y m" "sdk_dt_days_in_month y m \<le> 31"
proof -
  have "\<forall>d\<in>set [31, 28, 31, 30, 31, 30, 31, 31, 30, 31, 30, 31 :: int]. 28 \<le> d \<and> d \<le> 31" by simp
  moreover have "[31, 28, 31, 30, 31, 30, 31, 31, 30, 31, 30, 31 :: int] ! nat (m - 1) \<in>
      set [31, 28, 31, 30, 31, 30, 31, 31, 30, 31, 30, 31]" if "1 \<le> m" "m \<le> 12"
    using that by (intro nth_mem) simp
  ultimately show "28 \<le> sdk_dt_days_in_month y m" "sdk_dt_days_in_month y m \<le> 31"
    by (auto simp: sdk_dt_days_in_month_def)
qed

lemma clamp_to_bounds: "lo \<le> hi \<Longrightarrow> lo \<le> clamp_to lo hi x \<and> clamp_to lo hi x \<le> hi"
  by (simp add: clamp_to_def Let_def)

lemma clamp_to_id: "lo \<le> x \<Longrightarrow> x \<le> hi \<Longrightarrow> clamp_to lo hi x = x"
  by (simp add: clamp_to_def Let_def)

lemma clamp_ok: "dt_ok is_date (sdk_dt_clamp is_date v)"
proof -
  have "1 \<le> sdk_dt_days_in_month y m" for y m using days_in_month_bounds(1)[of y m] by simp
  then show ?thesis using clamp_to_bounds by (simp add: dt_ok_def sdk_dt_clamp_def Let_def)
qed

lemma clamp_id: "dt_ok is_date v \<Longrightarrow> sdk_dt_clamp is_date v = v"
  by (cases v rule: list.exhaust; simp add: dt_ok_def)
     (auto simp: sdk_dt_clamp_def Let_def clamp_to_id length_Suc_conv numeral_2_eq_2 split: if_splits)


lemma length_three: "length v = 3 \<Longrightarrow> v = [v ! 0, v ! 1, v ! 2]"
  by (auto simp: length_Suc_conv numeral_3_eq_3 numeral_2_eq_2)

lemma dt_key_answer:
  "dt_key is_date n v f k = Dt_Answer (t, r) \<Longrightarrow>
     (r = UI_OK \<longrightarrow> t = sdk_dt_format is_date v n) \<and> (r = UI_BACK \<longrightarrow> t = [])"
  by (auto simp: dt_key_def split: sdk_key.splits if_splits)

lemma dt_key_ok: "dt_ok is_date v \<Longrightarrow> dt_key is_date n v f k = Dt_Go v' f' \<Longrightarrow> dt_ok is_date v'"
  by (auto simp: dt_key_def sdk_dt_step_field_def clamp_ok split: sdk_key.splits if_splits prod.splits)

lemma dt_now_ok: "dt_ok is_date v \<Longrightarrow> dt_now junk sv is_date v e = (v', e') \<Longrightarrow> dt_ok is_date v'"
  by (auto simp: dt_now_def Let_def clamp_ok split: option.splits bool.splits prod.splits if_splits)

lemma dt_typed_ok: "dt_ok is_date v \<Longrightarrow> dt_ok is_date (dt_typed is_date v a)"
  by (cases a) (simp add: dt_typed_def Let_def clamp_ok)

definition dt_answer_ok :: "bool \<Rightarrow> nat \<Rightarrow> (string \<times> sdk_ui_result) modal \<Rightarrow> bool" where
  "dt_answer_ok is_date n m \<longleftrightarrow>
     m \<noteq> Overrun \<and>
     (\<forall>t r rest. m = Answered (t, r) rest \<longrightarrow>
        (r = UI_BACK \<longrightarrow> t = []) \<and> (r = UI_OK \<longrightarrow> (\<exists>v. dt_ok is_date v \<and> t = sdk_dt_format is_date v n)))"

lemma dt_loop_ok:
  "dt_ok is_date v \<Longrightarrow> dt_loop junk sv is_date ts n v f ui e evs = (screens, m, e') \<Longrightarrow> dt_answer_ok is_date n m"
proof (induction evs arbitrary: v f ui e screens m e' rule: length_induct)
  case (1 evs)
  let ?ui = "dt_draw is_date ts v f ui"
  note eq = dt_loop.simps[of junk sv is_date ts n v f ui e evs, unfolded Let_def]
  show ?case
  proof (cases "sdk_ui_next_key evs")
    case None
    with 1(3) eq show ?thesis by (simp add: dt_answer_ok_def)
  next
    case (Some kr)
    obtain k ks where k: "sdk_ui_next_key evs = Some (k, ks)" using Some by (cases kr) simp
    note len = next_key_shorter[OF k]
    show ?thesis
    proof (cases "dt_key is_date n v f k")
      case (Dt_Go v' f')
      obtain s2 m2 e2 where l: "dt_loop junk sv is_date ts n v' f' ?ui e ks = (s2, m2, e2)" by (metis prod_cases3)
      have "m = m2" using 1(3) eq k Dt_Go l by simp
      with 1(1)[rule_format, OF len dt_key_ok[OF 1(2) Dt_Go] l] show ?thesis by simp
    next
      case (Dt_Answer r)
      then have "m = Answered r ks" using 1(3) eq k by simp
      then show ?thesis using dt_key_answer[of is_date n v f k "fst r" "snd r"] Dt_Answer 1(2)
        by (auto simp: dt_answer_ok_def)
    next
      case Dt_Now
      obtain v' e1 where w: "dt_now junk sv is_date v e = (v', e1)" by fastforce
      obtain s2 m2 e2 where l: "dt_loop junk sv is_date ts n v' f ?ui e1 ks = (s2, m2, e2)" by (metis prod_cases3)
      have "m = m2" using 1(3) eq k Dt_Now w l by simp
      with 1(1)[rule_format, OF len dt_now_ok[OF 1(2) w] l] show ?thesis by simp
    next
      case Dt_Keyboard
      obtain shown a where b: "sdk_keyboard_entry (Some ts) None (if is_date then INPUT_DATE else INPUT_TIME)
          (Some (sdk_dt_format is_date v 16)) 32 ?ui ks = (shown, a)" by fastforce
      show ?thesis
      proof (cases a)
        case Waiting
        then show ?thesis using 1(3) eq k Dt_Keyboard b by (simp add: dt_answer_ok_def)
      next
        case Overrun
        then show ?thesis using keyboard_answers(1)[OF b] by simp
      next
        case (Answered p rest)
        obtain s2 m2 e2 where l: "dt_loop junk sv is_date ts n (dt_typed is_date v p) f (last shown) e rest = (s2, m2, e2)"
          by (metis prod_cases3)
        have "m = m2" using 1(3) eq k Dt_Keyboard b Answered l by simp
        moreover have "length rest < length evs"
          using len modal_loop_rest[OF b[unfolded Answered sdk_keyboard_entry_def Let_def]] by simp
        ultimately show ?thesis using 1(1)[rule_format, OF _ dt_typed_ok[OF 1(2)] l] by simp
      qed
    qed
  qed
qed

lemma input_answer:
  assumes "sdk_input junk sv context title placeholder type True n e evs = ((screens, m), e')"
  shows "m \<noteq> Overrun \<and>
     (\<forall>t r c rest. m = Answered (SDK_OK, Some (t, r), c) rest \<longrightarrow>
        length t < n \<and> (r = UI_BACK \<longrightarrow> t = []) \<and>
        (r = UI_OK \<and> (type = INPUT_DATE \<or> type = INPUT_TIME) \<longrightarrow>
           (\<exists>v. dt_ok (type = INPUT_DATE) v \<and> t = sdk_dt_format (type = INPUT_DATE) v n)))"
proof (cases "sdk_ensure_bound context = SDK_OK \<and> n \<noteq> 0")
  case False
  then show ?thesis using assms by (auto simp: sdk_input_def refused_def split: if_splits)
next
  case True
  show ?thesis
  proof (cases "type = INPUT_DATE \<or> type = INPUT_TIME")
    case dt: True
    let ?d = "type = INPUT_DATE"
    obtain scr m1 e1 where p: "sdk_datetime_picker junk sv title ?d n (sc_ui (the context)) e evs = (scr, m1, e1)"
      by (metis prod_cases3)
    have em: "end_modal (the context) (scr, m1) = (screens, m)"
      using assms True dt p by (simp add: sdk_input_def Let_def split: prod.splits)
    have ok: "dt_answer_ok ?d n m1"
      using p unfolding sdk_datetime_picker_def Let_def by (rule dt_loop_ok[OF clamp_ok])
    show ?thesis
    proof (intro conjI allI impI)
      show "m \<noteq> Overrun" using em ok by (auto simp: end_modal_def dt_answer_ok_def split: modal.splits)
      fix t r c rest assume m: "m = Answered (SDK_OK, Some (t, r), c) rest"
      have m1: "m1 = Answered (t, r) rest" using end_modal_answered[OF em[unfolded m]] by auto
      have o: "r = UI_BACK \<longrightarrow> t = []" "r = UI_OK \<longrightarrow> (\<exists>v. dt_ok ?d v \<and> t = sdk_dt_format ?d v n)"
        using ok m1 unfolding dt_answer_ok_def by blast+
      show "r = UI_BACK \<Longrightarrow> t = []" using o by simp
      show "length t < n" using o True by (cases r) (auto simp: sdk_dt_format_def)
      show "\<exists>v. dt_ok ?d v \<and> t = sdk_dt_format ?d v n" if "r = UI_OK \<and> (type = INPUT_DATE \<or> type = INPUT_TIME)"
        using o that by blast
    qed
  next
    case False
    obtain scr m1 where p: "sdk_keyboard_entry title placeholder type None n (sc_ui (the context)) evs = (scr, m1)"
      by fastforce
    have em: "end_modal (the context) (scr, m1) = (screens, m)"
      using assms True False p by (simp add: sdk_input_def Let_def)
    then have "m \<noteq> Overrun" using keyboard_answers(1)[OF p] by (auto simp: end_modal_def split: modal.splits)
    moreover have "length t < n \<and> (r = UI_BACK \<longrightarrow> t = [])" if "m = Answered (SDK_OK, Some (t, r), c) rest" for t r c rest
    proof -
      have "m1 = Answered (t, r) rest" using end_modal_answered[OF em[unfolded that]] by auto
      then show ?thesis using keyboard_answers(2)[OF p] True by blast
    qed
    ultimately show ?thesis using False by blast
  qed
qed

text \<open>C12: A prompt for a value stays inside its arrays and answers with a well-formed value.
  Whatever keys arrive, whatever is typed or read from the clock, the text fits
  the caller's buffer; a confirmed date is the text of a day of the calendar
  between 1970 and 2099 and a confirmed time that of a time of day, cut to the
  buffer; a dismissed prompt answers with the empty text.\<close>

theorem input_valid:
  assumes "sdk_input junk sv context title placeholder type True n e evs = ((screens, m), e')"
  shows "m \<noteq> Overrun \<and>
     (\<forall>t r c rest. m = Answered (SDK_OK, Some (t, r), c) rest \<longrightarrow>
        length t < n \<and> (r = UI_BACK \<longrightarrow> t = []) \<and>
        (r = UI_OK \<and> type = INPUT_DATE \<longrightarrow>
           (\<exists>y mon d. 1970 \<le> y \<and> y \<le> 2099 \<and> 1 \<le> mon \<and> mon \<le> 12 \<and> 1 \<le> d \<and> d \<le> sdk_dt_days_in_month y mon \<and>
              t = take (n - 1) (padded 4 y @ ''-'' @ padded 2 mon @ ''-'' @ padded 2 d))) \<and>
        (r = UI_OK \<and> type = INPUT_TIME \<longrightarrow>
           (\<exists>h mi s. 0 \<le> h \<and> h \<le> 23 \<and> 0 \<le> mi \<and> mi \<le> 59 \<and> 0 \<le> s \<and> s \<le> 59 \<and>
              t = take (n - 1) (padded 2 h @ '':'' @ padded 2 mi @ '':'' @ padded 2 s))))"
proof (intro conjI allI impI)
  note ans = input_answer[OF assms]
  show "m \<noteq> Overrun" using ans by blast
  fix t r c rest assume m: "m = Answered (SDK_OK, Some (t, r), c) rest"
  show "length t < n" "r = UI_BACK \<Longrightarrow> t = []" using ans m by blast+
  show "\<exists>y mon d. 1970 \<le> y \<and> y \<le> 2099 \<and> 1 \<le> mon \<and> mon \<le> 12 \<and> 1 \<le> d \<and> d \<le> sdk_dt_days_in_month y mon \<and>
      t = take (n - 1) (padded 4 y @ ''-'' @ padded 2 mon @ ''-'' @ padded 2 d)"
    if r: "r = UI_OK \<and> type = INPUT_DATE"
  proof -
    obtain v where "dt_ok True v" "t = sdk_dt_format True v n" using ans m r by auto
    then show ?thesis by (auto simp: dt_ok_def sdk_dt_format_def)
  qed
  show "\<exists>h mi s. 0 \<le> h \<and> h \<le> 23 \<and> 0 \<le> mi \<and> mi \<le> 59 \<and> 0 \<le> s \<and> s \<le> 59 \<and>
      t = take (n - 1) (padded 2 h @ '':'' @ padded 2 mi @ '':'' @ padded 2 s)"
    if r: "r = UI_OK \<and> type = INPUT_TIME"
  proof -
    obtain v where "dt_ok False v" "t = sdk_dt_format False v n" using ans m r by auto
    then show ?thesis by (auto simp: dt_ok_def sdk_dt_format_def)
  qed
qed

section \<open>Every date can be entered\<close>

text \<open>From values v and focus f the events evs lead to the ending m, on any screen.\<close>

definition dt_leads ::
  "broker_result \<Rightarrow> 'w sdk_services \<Rightarrow> bool \<Rightarrow> string \<Rightarrow> nat \<Rightarrow> 'w sdk_env \<Rightarrow> int list \<Rightarrow> nat \<Rightarrow>
   sdk_key list \<Rightarrow> (string \<times> sdk_ui_result) modal \<Rightarrow> bool" where
  "dt_leads junk sv is_date ts n e v f evs m \<longleftrightarrow>
     (\<forall>ui. \<exists>screens. dt_loop junk sv is_date ts n v f ui e evs = (screens, m, e))"

lemma leads_step:
  assumes "dt_leads junk sv is_date ts n e v' f' evs m" "dt_key is_date n v f k = Dt_Go v' f'" "k \<noteq> KEY_NONE"
  shows "dt_leads junk sv is_date ts n e v f (k # evs) m"
  unfolding dt_leads_def
proof
  fix ui
  obtain s2 where "dt_loop junk sv is_date ts n v' f' (dt_draw is_date ts v f ui) e evs = (s2, m, e)"
    using assms(1) unfolding dt_leads_def by blast
  then show "\<exists>screens. dt_loop junk sv is_date ts n v f ui e (k # evs) = (screens, m, e)"
    using assms(2,3) by (subst dt_loop.simps) simp
qed

lemma leads_ok: "f < 3 \<Longrightarrow> dt_leads junk sv is_date ts n e v f [KEY_OK] (Answered (sdk_dt_format is_date v n, UI_OK) [])"
  unfolding dt_leads_def by (subst dt_loop.simps) (simp add: dt_key_def SDK_DT_FIELDS_def)

definition dt_up :: "bool \<Rightarrow> nat \<Rightarrow> int list \<Rightarrow> int list" where
  "dt_up is_date f v = sdk_dt_step_field is_date v f 1"

lemma leads_up:
  assumes "f < 3" "dt_leads junk sv is_date ts n e ((dt_up is_date f ^^ k) v) f evs m"
  shows "dt_leads junk sv is_date ts n e v f (replicate k KEY_UP @ evs) m"
  using assms(2)
proof (induction k arbitrary: v)
  case (Suc k)
  have "dt_leads junk sv is_date ts n e (dt_up is_date f v) f (replicate k KEY_UP @ evs) m"
    using Suc.IH Suc.prems by (simp add: funpow_swap1)
  moreover have "dt_key is_date n v f KEY_UP = Dt_Go (dt_up is_date f v) f"
    using assms(1) by (simp add: dt_key_def dt_up_def SDK_DT_FIELDS_def)
  ultimately show ?case using leads_step by fastforce
qed simp

lemma leads_right:
  assumes "f < 2" "dt_leads junk sv is_date ts n e v (f + 1) evs m"
  shows "dt_leads junk sv is_date ts n e v f (KEY_RIGHT # evs) m"
  using assms by (intro leads_step[OF assms(2)]) (simp_all add: dt_key_def SDK_DT_FOCUS_COUNT_def)

text \<open>The bounds of a field, and the values a step up reaches.\<close>

definition field_bounds :: "bool \<Rightarrow> nat \<Rightarrow> int list \<Rightarrow> int \<times> int" where
  "field_bounds is_date f v =
     (if is_date then
        (if f = 0 then (1970, 2099) else if f = 1 then (1, 12) else (1, sdk_dt_days_in_month (v ! 0) (v ! 1)))
      else (0, if f = 0 then 23 else 59))"

lemma smod_nonneg: "0 \<le> a \<Longrightarrow> 0 < r \<Longrightarrow> a smod r = a mod (r :: int)"
  by (cases "a = 0") (simp_all add: smod_int_alt_def sgn_if)

lemma smod_wrap: "0 \<le> a \<Longrightarrow> 0 < r \<Longrightarrow> (a smod r + r) smod r = a mod (r :: int)"
  using smod_nonneg[of "a mod r + r" r] pos_mod_sign[of r a] by (simp add: smod_nonneg)

lemma field_in_bounds:
  assumes "dt_ok is_date v" "f < 3" "field_bounds is_date f v = (lo, hi)"
  shows "lo \<le> v ! f \<and> v ! f \<le> hi"
proof -
  have "f = 0 \<or> f = 1 \<or> f = 2" using assms(2) by auto
  then show ?thesis using assms by (elim disjE) (auto simp: dt_ok_def field_bounds_def split: if_splits)
qed

lemma update_ok:
  assumes "dt_ok is_date v" "f < 3" "field_bounds is_date f v = (lo, hi)" "lo \<le> x" "x \<le> hi"
    and "is_date \<and> f < 2 \<longrightarrow> v ! 2 = 1"
  shows "dt_ok is_date (v[f := x])"
proof -
  have "1 \<le> sdk_dt_days_in_month y m" for y m using days_in_month_bounds(1)[of y m] by simp
  moreover have "f = 0 \<or> f = 1 \<or> f = 2" using assms(2) by auto
  ultimately show ?thesis using assms
    by (elim disjE) (auto simp: dt_ok_def field_bounds_def split: if_splits)
qed

lemma dt_up_value:
  assumes "dt_ok is_date v" "f < 3" "field_bounds is_date f v = (lo, hi)" "is_date \<and> f < 2 \<longrightarrow> v ! 2 = 1"
  shows "dt_up is_date f v = v[f := lo + (v ! f - lo + 1) mod (hi - lo + 1)]"
proof -
  let ?x = "lo + (v ! f - lo + 1) mod (hi - lo + 1)"
  have b: "lo \<le> v ! f" "v ! f \<le> hi" using field_in_bounds[OF assms(1-3)] by auto
  have x: "lo \<le> ?x" "?x \<le> hi"
    using b pos_mod_bound[of "hi - lo + 1" "v ! f - lo + 1"] pos_mod_sign[of "hi - lo + 1" "v ! f - lo + 1"] by auto
  have "dt_up is_date f v = sdk_dt_clamp is_date (v[f := ?x])"
    using assms(3) b smod_wrap[of "v ! f - lo + 1" "hi - lo + 1"]
    by (auto simp: dt_up_def sdk_dt_step_field_def field_bounds_def Let_def split: if_splits)
  then show ?thesis using clamp_id[OF update_ok[OF assms(1-3) x assms(4)]] by simp
qed

lemma field_bounds_update: "field_bounds is_date f (v[f := x]) = field_bounds is_date f v" if "f < 3"
  using that by (auto simp: field_bounds_def less_Suc_eq numeral_3_eq_3)

lemma dt_ups_value:
  assumes "dt_ok is_date v" "f < 3" "field_bounds is_date f v = (lo, hi)" "is_date \<and> f < 2 \<longrightarrow> v ! 2 = 1"
  shows "(dt_up is_date f ^^ k) v = v[f := lo + (v ! f - lo + int k) mod (hi - lo + 1)]"
proof (induction k)
  case 0
  have b: "lo \<le> v ! f" "v ! f \<le> hi" using field_in_bounds[OF assms(1-3)] by auto
  then show ?case by (simp add: mod_pos_pos_trivial)
next
  case (Suc k)
  let ?x = "lo + (v ! f - lo + int k) mod (hi - lo + 1)"
  have b: "lo \<le> v ! f" "v ! f \<le> hi" using field_in_bounds[OF assms(1-3)] by auto
  have x: "lo \<le> ?x" "?x \<le> hi"
    using b pos_mod_bound[of "hi - lo + 1" "v ! f - lo + int k"] pos_mod_sign[of "hi - lo + 1" "v ! f - lo + int k"] by auto
  have l: "f < length v" using assms(1,2) by (simp add: dt_ok_def)
  have "(dt_up is_date f ^^ Suc k) v = dt_up is_date f (v[f := ?x])" using Suc by simp
  also have "\<dots> = v[f := lo + (?x - lo + 1) mod (hi - lo + 1)]"
    using dt_up_value[OF update_ok[OF assms(1-3) x assms(4)] assms(2), unfolded field_bounds_update[OF assms(2)], OF assms(3)] assms(4) l
    by auto
  also have "(?x - lo + 1) mod (hi - lo + 1) = (v ! f - lo + int (Suc k)) mod (hi - lo + 1)"
    by (simp add: mod_simps algebra_simps)
  finally show ?case .
qed

lemma field_reachable:
  assumes "dt_ok is_date v" "f < 3" "field_bounds is_date f v = (lo, hi)" "is_date \<and> f < 2 \<longrightarrow> v ! 2 = 1"
    and "lo \<le> x" "x \<le> hi"
  shows "\<exists>k. (dt_up is_date f ^^ k) v = v[f := x]"
proof -
  let ?r = "hi - lo + 1" and ?k = "nat ((x - v ! f) mod (hi - lo + 1))"
  have r: "0 < ?r" using assms(5,6) by simp
  have "(v ! f - lo + int ?k) mod ?r = (x - lo) mod ?r" using r by (simp add: mod_simps)
  also have "\<dots> = x - lo" using assms(5,6) by (simp add: mod_pos_pos_trivial)
  finally show ?thesis using dt_ups_value[OF assms(1-4), of ?k] by (intro exI[of _ ?k]) simp
qed

lemma picker_leads:
  assumes t: "dt_ok is_date t" and v: "dt_ok is_date v" and one: "is_date \<longrightarrow> v ! 2 = 1"
  shows "\<exists>evs. set evs \<subseteq> {KEY_UP, KEY_RIGHT, KEY_OK} \<and>
     dt_leads junk sv is_date ts n e v 0 evs (Answered (sdk_dt_format is_date t n, UI_OK) [])"
proof -
  obtain a b c where t3: "t = [a, b, c]" using t length_three unfolding dt_ok_def by metis
  obtain p q r where v3: "v = [p, q, r]" using v length_three unfolding dt_ok_def by metis
  have *: "\<exists>k. (dt_up is_date f ^^ k) w = w[f := t ! f]"
    if "dt_ok is_date w" "f < 3" "is_date \<and> f < 2 \<longrightarrow> w ! 2 = 1"
      "field_bounds is_date f w = field_bounds is_date f t" for f w
  proof -
    obtain lo hi where b: "field_bounds is_date f t = (lo, hi)" by fastforce
    show ?thesis using field_reachable[OF that(1,2) _ that(3)] that(4) b field_in_bounds[OF t that(2) b] by simp
  qed
  have fb: "field_bounds is_date f w = field_bounds is_date f t" if "f < 2" for f w
    using that by (auto simp: field_bounds_def)
  have up: "dt_ok is_date (w[f := t ! f])"
    if "dt_ok is_date w" "f < 3" "is_date \<and> f < 2 \<longrightarrow> w ! 2 = 1"
      "field_bounds is_date f w = field_bounds is_date f t" for f w
  proof -
    obtain lo hi where b: "field_bounds is_date f t = (lo, hi)" by fastforce
    show ?thesis using update_ok[OF that(1,2) _ _ _ that(3)] that(4) b field_in_bounds[OF t that(2) b] by simp
  qed
  let ?v1 = "v[0 := a]" and ?v2 = "v[0 := a, 1 := b]"
  have ta: "t ! 0 = a" "t ! 1 = b" by (simp_all add: t3)
  have one1: "is_date \<longrightarrow> ?v1 ! 2 = 1" using one by simp
  have v1: "dt_ok is_date ?v1" using up[OF v, of 0] fb[of 0 v] one unfolding ta by simp
  have v2: "dt_ok is_date ?v2" using up[OF v1, of 1] fb[of 1 ?v1] one1 unfolding ta by simp
  obtain i where i: "(dt_up is_date 0 ^^ i) v = ?v1" using *[OF v, of 0] fb[of 0 v] one unfolding ta by auto
  obtain j where j: "(dt_up is_date 1 ^^ j) ?v1 = ?v2" using *[OF v1, of 1] fb[of 1 ?v1] one1 unfolding ta by auto
  have "?v2[2 := t ! 2] = t" "field_bounds is_date 2 ?v2 = field_bounds is_date 2 t"
    unfolding t3 v3 by (simp_all add: field_bounds_def numeral_2_eq_2)
  then obtain k where k: "(dt_up is_date 2 ^^ k) ?v2 = t" using *[OF v2, of 2] by auto
  let ?m = "Answered (sdk_dt_format is_date t n, UI_OK) []"
  have "dt_leads junk sv is_date ts n e ((dt_up is_date 2 ^^ k) ?v2) 2 [KEY_OK] ?m"
    unfolding k by (rule leads_ok) simp
  from leads_up[OF _ this] have "dt_leads junk sv is_date ts n e ?v2 (1 + 1) (replicate k KEY_UP @ [KEY_OK]) ?m"
    by (simp add: numeral_2_eq_2)
  from leads_right[OF _ this] have "dt_leads junk sv is_date ts n e ((dt_up is_date 1 ^^ j) ?v1) 1
      (KEY_RIGHT # replicate k KEY_UP @ [KEY_OK]) ?m" unfolding j by simp
  from leads_up[OF _ this] have "dt_leads junk sv is_date ts n e ?v1 (0 + 1)
      (replicate j KEY_UP @ KEY_RIGHT # replicate k KEY_UP @ [KEY_OK]) ?m" by simp
  from leads_right[OF _ this] have "dt_leads junk sv is_date ts n e ((dt_up is_date 0 ^^ i) v) 0
      (KEY_RIGHT # replicate j KEY_UP @ KEY_RIGHT # replicate k KEY_UP @ [KEY_OK]) ?m" unfolding i by simp
  from leads_up[OF _ this] have "dt_leads junk sv is_date ts n e v 0
     (replicate i KEY_UP @ KEY_RIGHT # replicate j KEY_UP @ KEY_RIGHT # replicate k KEY_UP @ [KEY_OK]) ?m" by simp
  then show ?thesis by (intro exI conjI) auto
qed

text \<open>C13: Every day of the calendar between 1970 and 2099, and every time of day, can be
  entered with three keys: some presses of UP, RIGHT and OK make the prompt answer
  with its text.\<close>

theorem input_enters_any:
  assumes "sc_bound ctx" "type = INPUT_DATE \<or> type = INPUT_TIME" "dt_ok (type = INPUT_DATE) v" "0 < n"
  shows "\<exists>evs screens c. set evs \<subseteq> {KEY_UP, KEY_RIGHT, KEY_OK} \<and>
     sdk_input junk sv (Some ctx) title placeholder type True n e evs =
       ((screens, Answered (SDK_OK, Some (sdk_dt_format (type = INPUT_DATE) v n, UI_OK), c) []), e)"
proof -
  let ?d = "type = INPUT_DATE"
  let ?v = "sdk_dt_clamp ?d (if ?d then [2026, 1, 1] else [0, 0, 0])"
  let ?ts = "if sdk_text_present title then the title else if ?d then ''Set date'' else ''Set time''"
  have "?d \<longrightarrow> ?v ! 2 = 1"
    by (simp add: sdk_dt_clamp_def clamp_to_def Let_def sdk_dt_days_in_month_def)
  from picker_leads[OF assms(3) clamp_ok this] obtain evs where evs: "set evs \<subseteq> {KEY_UP, KEY_RIGHT, KEY_OK}"
    "dt_leads junk sv ?d ?ts n e ?v 0 evs (Answered (sdk_dt_format ?d v n, UI_OK) [])" by blast
  then obtain screens where "dt_loop junk sv ?d ?ts n ?v 0 (sc_ui ctx) e evs =
     (screens, Answered (sdk_dt_format ?d v n, UI_OK) [], e)" unfolding dt_leads_def by blast
  then have "\<exists>c. sdk_input junk sv (Some ctx) title placeholder type True n e evs =
     ((screens, Answered (SDK_OK, Some (sdk_dt_format ?d v n, UI_OK), c) []), e)"
    using assms(1,2,4)
    by (simp add: sdk_input_def sdk_ensure_bound_def sdk_datetime_picker_def end_modal_def Let_def)
  with evs(1) show ?thesis by blast
qed

section \<open>Runs\<close>

theorem input_valid_witness:
  "\<forall>junk (sv :: unit sdk_services) e. \<exists>screens m e'.
     sdk_input junk sv (Some ui_demo) None None INPUT_TIME True 6 e [KEY_UP, KEY_OK] = ((screens, m), e') \<and> m \<noteq> Overrun"
proof (intro allI)
  fix junk and sv :: "unit sdk_services" and e
  obtain screens m e' where r: "sdk_input junk sv (Some ui_demo) None None INPUT_TIME True 6 e [KEY_UP, KEY_OK] =
     ((screens, m), e')" by (metis prod_cases3 surj_pair)
  with input_valid[OF r] show "\<exists>screens m e'.
     sdk_input junk sv (Some ui_demo) None None INPUT_TIME True 6 e [KEY_UP, KEY_OK] = ((screens, m), e') \<and> m \<noteq> Overrun"
    by blast
qed

lemma leap_day_ok: "dt_ok True [2024, 2, 29]"
  by (simp add: dt_ok_def sdk_dt_days_in_month_def)

lemma leap_day_text: "sdk_dt_format True [2024, 2, 29] 11 = ''2024-02-29''"
  by code_simp

theorem input_enters_any_witness:
  "\<forall>junk (sv :: unit sdk_services) e. \<exists>evs screens c.
     sdk_input junk sv (Some ui_demo) None None INPUT_DATE True 11 e evs =
       ((screens, Answered (SDK_OK, Some (''2024-02-29'', UI_OK), c) []), e)"
  using input_enters_any[OF ui_demo_bound, of INPUT_DATE "[2024, 2, 29]" 11] leap_day_ok leap_day_text
  by fastforce

section \<open>File picker\<close>

lemma ensure_cap_held:
  assumes "sdk_ensure_cap sv ctx cap e = (SDK_OK, ctx', e')"
  shows "Some cap \<in> set (bc_capabilities (sdk_caller ctx'))"
proof (cases "broker_caller_has_capability (Some (sdk_caller ctx)) (Some cap)")
  case True
  with assms have "ctx' = ctx" by (simp add: sdk_ensure_cap_def)
  with True show ?thesis
    by (auto simp: broker_caller_has_capability_def list_ex_iff str_eq_def split: option.splits)
next
  case False
  with assms obtain i p ui w where i: "find_pending ctx cap = Some i"
    and p: "ctx' = ctx\<lparr> sc_ui := ui, sc_granted := sc_granted ctx @ [Ptr_Pending i] \<rparr>"
    by (auto simp: sdk_ensure_cap_def run_prompt_def Let_def split: option.splits prod.splits if_splits)
  have "sc_pending_strs ctx ! i = cap" using i by (auto simp: find_pending_def find_Some_iff)
  then show ?thesis by (simp add: p sdk_caller_def cap_text_def)
qed

text \<open>The file picker answers with a path below the card's root that fits the buffer, and
  only to an application that has files.full by then; dismissed, with none.\<close>

theorem file_pick_confined:
  assumes "sdk_file_pick sv context True n e evs = ((screens, Answered (SDK_OK, Some (p, r), c) rest), e')"
  shows "(\<exists>ctx. c = Some ctx \<and> Some ''files.full'' \<in> set (bc_capabilities (sdk_caller ctx))) \<and>
     (r = UI_OK \<longrightarrow> (\<exists>q. p = take (n - 1) (''/sd/'' @ q))) \<and> (r = UI_BACK \<longrightarrow> p = [])"
proof -
  have n: "sdk_ensure_bound context = SDK_OK" "n \<noteq> 0"
    using assms by (auto simp: sdk_file_pick_def refused_def split: if_splits)
  obtain dl where dl: "sv_dir_list sv = Some dl"
    using assms n by (auto simp: sdk_file_pick_def refused_def split: option.splits)
  obtain st ctx e1 where cap: "sdk_ensure_cap sv (the context) ''files.full'' e = (st, ctx, e1)" by (metis prod_cases3)
  have st: "st = SDK_OK" using assms n dl cap by (auto simp: sdk_file_pick_def refused_def split: if_splits)
  obtain s w' where i: "fb_init (fp_list_dir dl) ''/sd'' e1 = (s, w')" by fastforce
  have s: "fb_inv s" "fb_root s = ''/sd''"
    using fb_load_inv[OF _ _ i[unfolded fb_init_def]] by (simp_all add: below_root_def FB_PATH_MAX_def)
  obtain frames out e2 where l: "fb_loop (fp_list_dir dl) n s w' (map fp_key evs) = (frames, out, e2)" by (metis prod_cases3)
  have b: "file_browser_run (fp_list_dir dl) (Some ''/sd'') n e1 (map fp_key evs) = Some (frames, out, e2)"
    using n i l by (simp add: file_browser_run_def)
  let ?m = "case out of Fb_Continue s \<Rightarrow> Waiting
      | Fb_Selected p \<Rightarrow> Answered (p, UI_OK) (drop (length frames) evs)
      | Fb_Cancelled \<Rightarrow> Answered ([], UI_BACK) (drop (length frames) evs)"
  have em: "end_modal ctx (map (fp_render (sc_ui ctx)) frames, ?m) = (screens, Answered (SDK_OK, Some (p, r), c) rest)"
    using assms n dl cap st b by (simp add: sdk_file_pick_def Let_def)
  from end_modal_answered[OF this] have a: "?m = Answered (p, r) rest"
    "\<exists>ui. c = Some (ctx\<lparr> sc_ui := ui \<rparr>)" by auto
  have "sdk_caller (ctx\<lparr> sc_ui := ui \<rparr>) = sdk_caller ctx" for ui
    by (simp add: sdk_caller_def cap_text_def cong: cap_ptr.case_cong)
  then have "\<exists>c'. c = Some c' \<and> Some ''files.full'' \<in> set (bc_capabilities (sdk_caller c'))"
    using a(2) ensure_cap_held[OF cap[unfolded st]] by auto
  moreover have "\<exists>q. p = take (n - 1) (''/sd/'' @ q)" if "r = UI_OK"
    using a(1) that fb_loop_below[OF s(1) l] s(2) by (cases out) auto
  moreover have "p = []" if "r = UI_BACK" using a(1) that by (cases out) auto
  ultimately show ?thesis by blast
qed

end
