(* ===== verification/Consent.thy ===== *)
theory Consent
  imports SdkUi SdkNet
begin

text \<open>
  The consent of the user: main/jpp_app_dispatch.c, the part behind the prompts of the
  SDK bridge (capabilities and web origins, with what is remembered of the answers), and
  the path prompt of main/jpp_native_services.c. The files below /data/grants are a map
  from paths to contents; the flag can_write says whether fopen can create or extend a
  file. The flag headless is s_bg_run_active. A prompt takes the key events delivered to
  it, as the modals it shows do.
\<close>

section \<open>Capabilities\<close>

type_synonym grant_files = "string \<rightharpoonup> string"

definition cap_tier :: "string \<Rightarrow> int" where
  "cap_tier cap =
     (if cap = ''http.request'' \<or> cap = ''https.request'' \<or> cap = ''ble.scan'' \<or> cap = ''ble.advertise'' \<or>
         cap = ''background.register'' \<or> cap = ''esp_now'' then 1 else 2)"

definition cap_description :: "string \<Rightarrow> string" where
  "cap_description cap =
     (if cap = ''http.request'' then ''make requests over the network''
      else if cap = ''https.request'' then ''make secure (HTTPS) web requests''
      else if cap = ''ble.scan'' then ''scan for nearby Bluetooth devices''
      else if cap = ''ble.advertise'' then ''broadcast over Bluetooth''
      else if cap = ''background.register'' then ''run scheduled tasks in the background''
      else if cap = ''esp_now'' then ''send and receive ESP-NOW messages''
      else if cap = ''files.full'' then ''open any file on the SD card''
      else if cap = ''network.bind'' then ''open network servers and sockets''
      else if cap = ''network.connect'' then ''open outbound network connections''
      else if cap = ''ble.connect'' then ''connect to Bluetooth devices''
      else if cap = ''ble.host'' then ''host a Bluetooth service''
      else ''use an extra device feature'')"

definition TIER1_CAPS :: "string list" where
  "TIER1_CAPS =
     [''http.request'', ''https.request'', ''ble.scan'', ''ble.advertise'', ''background.register'', ''esp_now'']"

definition grants_path :: "string \<Rightarrow> string" where
  "grants_path app_id = take 95 (''/data/grants/'' @ app_id @ ''.json'')"

text \<open>strstr, as far as it says whether the needle is there.\<close>

fun contains :: "string \<Rightarrow> string \<Rightarrow> bool" where
  "contains needle [] = (needle = [])"
| "contains needle (c # s) = (take (length needle) (c # s) = needle \<or> contains needle s)"

definition quoted :: "string \<Rightarrow> string" where
  "quoted cap = CHR 0x22 # cap @ [CHR 0x22]"

definition grant_is_persisted :: "grant_files \<Rightarrow> string \<Rightarrow> string \<Rightarrow> bool" where
  "grant_is_persisted fs app_id cap =
     (case fs (grants_path app_id) of
        None \<Rightarrow> False
      | Some content \<Rightarrow> contains (take 63 (quoted cap)) (cstr_of (take 255 content)))"

text \<open>The loop that prints the array, from its first or a later element on.\<close>

fun print_grants :: "bool \<Rightarrow> string list \<Rightarrow> string" where
  "print_grants is_first [] = []"
| "print_grants is_first (c # cs) = (if is_first then [] else '','') @ quoted c @ print_grants False cs"

definition grant_persist :: "bool \<Rightarrow> grant_files \<Rightarrow> string \<Rightarrow> string \<Rightarrow> grant_files" where
  "grant_persist can_write fs app_id cap =
     (let granted = filter (\<lambda>c. grant_is_persisted fs app_id c \<or> cap = c) TIER1_CAPS
      in if \<not> can_write then fs
         else fs(grants_path app_id \<mapsto> ''['' @ print_grants True granted @ '']''))"

text \<open>What a confirmation with out_allow initialised to false leaves in it.\<close>

definition allowed_by :: "bool modal_call \<Rightarrow> sdk_ui list \<times> (bool \<times> sdk_context option) modal" where
  "allowed_by m =
     (case m of
        (screens, Waiting) \<Rightarrow> (screens, Waiting)
      | (screens, Overrun) \<Rightarrow> (screens, Overrun)
      | (screens, Answered (st, out, c) rest) \<Rightarrow>
          (screens, Answered (case out of None \<Rightarrow> False | Some b \<Rightarrow> b, c) rest))"

definition prompt_permission ::
  "sdk_context option \<Rightarrow> string \<Rightarrow> int \<Rightarrow> sdk_key list \<Rightarrow> sdk_ui list \<times> (bool \<times> sdk_context option) modal" where
  "prompt_permission sdk_ctx cap tier evs =
     (if sdk_ctx = None then ([], Answered (False, sdk_ctx) evs)
      else
        let (desc, desc_count) = sdk_wrap_text (Some (cap_description cap)) 2;
            tier_note = (if tier = 1 then ''(saved if allowed)'' else ''(asked each time)'');
            body = ''This app wants to:'' # take desc_count desc @ [tier_note]
        in if desc_count > 2 then ([], Overrun)
           else allowed_by (sdk_confirm sdk_ctx (Some ''Permission'') (Some (map Some body)) (length body) False True evs))"

text \<open>The granted capabilities and the pending ones with their tiers.\<close>

fun consent_loop ::
  "grant_files \<Rightarrow> string \<Rightarrow> string list \<Rightarrow> (string \<times> int) list \<Rightarrow> string list \<Rightarrow>
   string list \<times> (string \<times> int) list" where
  "consent_loop fs app_id granted pending [] = (granted, pending)"
| "consent_loop fs app_id granted pending (cap # caps) =
     (let tier = cap_tier cap
      in if tier = 1 \<and> grant_is_persisted fs app_id cap
         then consent_loop fs app_id (granted @ [cap]) pending caps
         else if length pending < SDK_PENDING_CAP_MAX
         then consent_loop fs app_id granted (pending @ [(cap, tier)]) caps
         else consent_loop fs app_id granted pending caps)"

definition apply_consent ::
  "grant_files \<Rightarrow> string \<Rightarrow> string list \<Rightarrow> string list \<times> (string \<times> int) list" where
  "apply_consent fs app_id declared = consent_loop fs app_id [] [] declared"

definition app_consent_prompt ::
  "bool \<Rightarrow> bool \<Rightarrow> grant_files \<Rightarrow> sdk_context option \<Rightarrow> string \<Rightarrow> int \<Rightarrow> sdk_key list \<Rightarrow>
   (sdk_ui list \<times> (bool \<times> sdk_context option) modal) \<times> grant_files" where
  "app_consent_prompt headless can_write fs sdk_ctx cap tier evs =
     (if sdk_ctx = None \<or> headless then (([], Answered (False, sdk_ctx) evs), fs)
      else
        let m = prompt_permission sdk_ctx cap tier evs
        in (m, case snd m of
                 Answered (granted, _) _ \<Rightarrow>
                   if granted \<and> tier = 1 then grant_persist can_write fs (sc_app_id (the sdk_ctx)) cap else fs
               | _ \<Rightarrow> fs))"

section \<open>Origins\<close>

definition ORIGIN_GRANTS_MAX_BYTES :: nat where "ORIGIN_GRANTS_MAX_BYTES = 1024"

definition origin_grants_path :: "string \<Rightarrow> string" where
  "origin_grants_path app_id = take 95 (''/data/grants/'' @ app_id @ ''.origins'')"

text \<open>fgets: at most room characters, up to and with the first line feed; and the rest.\<close>

fun c_fgets :: "nat \<Rightarrow> string \<Rightarrow> string \<times> string" where
  "c_fgets 0 s = ([], s)"
| "c_fgets (Suc room) [] = ([], [])"
| "c_fgets (Suc room) (c # s) =
     (if c = LF then ([c], s) else (case c_fgets room s of (line, rest) \<Rightarrow> (c # line, rest)))"

lemma c_fgets_rest: "c_fgets room s = (line, rest) \<Longrightarrow> length line + length rest = length s"
  by (induction room s arbitrary: line rest rule: c_fgets.induct) (auto split: if_splits prod.splits)

lemma c_fgets_shorter:
  "c_fgets (Suc room) (c # s) = (line, rest) \<Longrightarrow> length rest < Suc (length s)"
  using c_fgets_rest[of "Suc room" "c # s" line rest] by (auto split: if_splits prod.splits)

definition strip_line_end :: "string \<Rightarrow> string" where
  "strip_line_end line = rev (dropWhile (\<lambda>c. c = LF \<or> c = CR) (rev (cstr_of line)))"

function origin_scan :: "string \<Rightarrow> string \<Rightarrow> bool" where
  "origin_scan orig [] = False"
| "origin_scan orig (c # s) =
     (case c_fgets (Suc SDK_ORIGIN_MAX) (c # s) of
        (line, rest) \<Rightarrow> if strip_line_end line = orig then True else origin_scan orig rest)"
  by pat_completeness auto
termination
  by (relation "measure (\<lambda>(_, s). length s)")
     (auto simp del: c_fgets.simps dest!: c_fgets_shorter[OF sym])

definition origin_is_persisted :: "grant_files \<Rightarrow> string \<Rightarrow> string \<Rightarrow> bool" where
  "origin_is_persisted fs app_id orig =
     (case fs (origin_grants_path app_id) of None \<Rightarrow> False | Some content \<Rightarrow> origin_scan orig content)"

definition origin_persist :: "bool \<Rightarrow> grant_files \<Rightarrow> string \<Rightarrow> string \<Rightarrow> grant_files" where
  "origin_persist can_write fs app_id orig =
     (if origin_is_persisted fs app_id orig then fs
      else
        let path = origin_grants_path app_id
        in if (case fs path of None \<Rightarrow> False
               | Some content \<Rightarrow> length content + length orig + 1 > ORIGIN_GRANTS_MAX_BYTES) then fs
           else if \<not> can_write then fs
           else fs(path \<mapsto> (case fs path of None \<Rightarrow> [] | Some content \<Rightarrow> content) @ orig @ [LF]))"

text \<open>The loop that cuts a text into rows of 21 characters, at most rows many.\<close>

fun chunk_rows :: "nat \<Rightarrow> string \<Rightarrow> string list" where
  "chunk_rows 0 s = []"
| "chunk_rows (Suc n) s = (if s = [] then [] else take 21 s # chunk_rows n (drop 21 s))"

definition prompt_origin ::
  "sdk_context option \<Rightarrow> string \<Rightarrow> sdk_key list \<Rightarrow> sdk_ui list \<times> (bool \<times> sdk_context option) modal" where
  "prompt_origin sdk_ctx orig evs =
     (let shown = (if take 8 orig = ''https://'' then drop 8 orig else orig);
          body = ''Connect securely to:'' # chunk_rows 3 shown
      in allowed_by (sdk_confirm sdk_ctx (Some ''Web request'') (Some (map Some body)) (length body) False True evs))"

definition app_origin_prompt ::
  "bool \<Rightarrow> bool \<Rightarrow> grant_files \<Rightarrow> sdk_context option \<Rightarrow> cstr \<Rightarrow> sdk_key list \<Rightarrow>
   (sdk_ui list \<times> (bool \<times> sdk_context option) modal) \<times> grant_files" where
  "app_origin_prompt headless can_write fs sdk_ctx orig evs =
     (if sdk_ctx = None \<or> orig = None \<or> char_at (the orig) 0 = None
      then (([], Answered (False, sdk_ctx) evs), fs)
      else if origin_is_persisted fs (sc_app_id (the sdk_ctx)) (the orig)
      then (([], Answered (True, sdk_ctx) evs), fs)
      else if headless then (([], Answered (False, sdk_ctx) evs), fs)
      else
        let m = prompt_origin sdk_ctx (the orig) evs
        in (m, case snd m of
                 Answered (granted, _) _ \<Rightarrow>
                   if granted then origin_persist can_write fs (sc_app_id (the sdk_ctx)) (the orig) else fs
               | _ \<Rightarrow> fs))"

section \<open>Paths\<close>

definition sd_path_prompt ::
  "sdk_context option \<Rightarrow> string \<Rightarrow> open_mode \<Rightarrow> sdk_key list \<Rightarrow> sdk_ui list \<times> (bool \<times> sdk_context option) modal" where
  "sd_path_prompt sdk_ctx path mode evs =
     (if sdk_ctx = None then ([], Answered (False, sdk_ctx) evs)
      else
        let body = take 23 (''Allow '' @ (if mode = OPEN_WRITE then ''write'' else ''read'') @ '' access:'') #
                   chunk_rows 3 path
        in allowed_by (sdk_confirm sdk_ctx (Some ''File access'') (Some (map Some body)) (length body) False True evs))"

section \<open>What the user saw\<close>

lemma end_modal_ok: "end_modal ctx m = (scr, Answered (st, out, c) rest) \<Longrightarrow> st = SDK_OK"
  using end_modal_answered[of ctx "fst m" "snd m" scr st out c rest] by auto

lemma confirm_ok:
  "sdk_confirm context title body n d outp evs = (screens, Answered (st, Some b, c) rest) \<Longrightarrow> st = SDK_OK"
  by (auto simp: sdk_confirm_def refused_def Let_def dest!: end_modal_ok split: if_splits)

lemma confirm_allowed:
  assumes "allowed_by (sdk_confirm (Some ctx) (Some title) (Some (map Some body)) (length body) False True evs) =
     (screens, Answered (True, c) rest)"
    and "title \<noteq> []" "length body \<le> 4" "\<forall>r\<in>set (title # body). length r < 64"
  shows "(\<exists>used. evs = used @ KEY_OK # rest) \<and> (\<forall>scr\<in>set screens. butlast (rows_on scr) = title # [] # body) \<and>
     last (rows_on (last screens)) = '' Deny       >Allow''"
proof -
  obtain st where r: "sdk_confirm (Some ctx) (Some title) (Some (map Some body)) (length body) False True evs =
      (screens, Answered (st, Some True, c) rest)"
    using assms(1) by (auto simp: allowed_by_def split: prod.splits modal.splits option.splits)
  note r = r[unfolded confirm_ok[OF r]]
  have row: "row_text x = x" if "x \<in> set (title # body)" for x
    using assms(4) that by (auto simp: row_text_def SDK_FRAME_TEXT_MAX_def less_eq_Suc_le)
  have "sdk_text_present (Some title)" using assms(2) by (cases title) (simp_all add: sdk_text_present_def)
  moreover from this have "title_rows (Some title) = [title, []]" using row by (simp add: title_rows_def)
  moreover have "map (\<lambda>l. row_text (case l of None \<Rightarrow> [] | Some t \<Rightarrow> t)) (map Some body) = body"
    using row by (simp add: comp_def map_idI)
  ultimately show ?thesis using confirm_answer[OF r] assms(3) by auto
qed

section \<open>Capabilities\<close>

lemma description_known:
  "cap_description cap \<in> set [''make requests over the network'', ''make secure (HTTPS) web requests'',
     ''scan for nearby Bluetooth devices'', ''broadcast over Bluetooth'', ''run scheduled tasks in the background'',
     ''send and receive ESP-NOW messages'', ''open any file on the SD card'', ''open network servers and sockets'',
     ''open outbound network connections'', ''connect to Bluetooth devices'', ''host a Bluetooth service'',
     ''use an extra device feature'']"
  by (simp add: cap_description_def)

definition fits_two :: "string \<Rightarrow> bool" where
  "fits_two t \<longleftrightarrow>
     (case sdk_wrap_text (Some t) 2 of (rows, n) \<Rightarrow> n = 2 \<and> length rows = 2 \<and> join_with (CHR '' '') rows = t)"

lemma descriptions_fit:
  "list_all fits_two [''make requests over the network'', ''make secure (HTTPS) web requests'',
     ''scan for nearby Bluetooth devices'', ''broadcast over Bluetooth'', ''run scheduled tasks in the background'',
     ''send and receive ESP-NOW messages'', ''open any file on the SD card'', ''open network servers and sockets'',
     ''open outbound network connections'', ''connect to Bluetooth devices'', ''host a Bluetooth service'',
     ''use an extra device feature'']"
  by code_simp

lemma description_fits: "fits_two (cap_description cap)"
  using descriptions_fit description_known[of cap] unfolding list_all_iff by (rule bspec)

text \<open>C2: A capability is granted only by the user, who has seen what for. When the consent
  prompt grants one, the app is not running headless, the last key was OK on a
  screen that marks Allow, and every screen showed the whole description of the
  capability and whether the answer is remembered; the remembered grants change
  exactly for a capability of the first tier.\<close>

theorem consent_given:
  assumes "app_consent_prompt headless can_write fs (Some ctx) cap tier evs = ((screens, Answered (True, c) rest), fs')"
  shows "\<not> headless \<and> (\<exists>used. evs = used @ KEY_OK # rest) \<and>
     last (rows_on (last screens)) = '' Deny       >Allow'' \<and>
     (\<exists>row1 row2. row1 @ '' '' @ row2 = cap_description cap \<and>
        (\<forall>scr\<in>set screens. butlast (rows_on scr) =
           [''Permission'', [], ''This app wants to:'', row1, row2,
            if tier = 1 then ''(saved if allowed)'' else ''(asked each time)''])) \<and>
     fs' = (if tier = 1 then grant_persist can_write fs (sc_app_id ctx) cap else fs)"
proof -
  obtain row1 row2 where w: "sdk_wrap_text (Some (cap_description cap)) 2 = ([row1, row2], 2)"
      "row1 @ '' '' @ row2 = cap_description cap"
    using description_fits[of cap] by (auto simp: fits_two_def length_Suc_conv numeral_2_eq_2 split: prod.splits)
  have len: "length row1 < 64" "length row2 < 64"
    using wrap_text_wrapped[OF _ w(1)] by (auto simp: wrapped_def)
  let ?note = "if tier = 1 then ''(saved if allowed)'' else ''(asked each time)''"
  let ?body = "[''This app wants to:'', row1, row2, ?note]"
  have h: "\<not> headless" using assms by (auto simp: app_consent_prompt_def)
  have m: "prompt_permission (Some ctx) cap tier evs = (screens, Answered (True, c) rest)"
    using assms h by (simp add: app_consent_prompt_def Let_def)
  then have "allowed_by (sdk_confirm (Some ctx) (Some ''Permission'') (Some (map Some ?body)) (length ?body) False True evs) =
      (screens, Answered (True, c) rest)"
    by (simp add: prompt_permission_def w(1))
  then have "(\<exists>used. evs = used @ KEY_OK # rest) \<and> (\<forall>scr\<in>set screens. butlast (rows_on scr) = ''Permission'' # [] # ?body) \<and>
     last (rows_on (last screens)) = '' Deny       >Allow''"
    by (rule confirm_allowed) (use len in simp_all)
  moreover have "fs' = (if tier = 1 then grant_persist can_write fs (sc_app_id ctx) cap else fs)"
    using assms h m by (auto simp: app_consent_prompt_def Let_def)
  ultimately show ?thesis using h w(2) by blast
qed

section \<open>Remembered grants\<close>

lemma contains_iff: "contains n s \<longleftrightarrow> (\<exists>a b. s = a @ n @ b)"
proof (induction s)
  case (Cons c s)
  show ?case
  proof
    assume "contains n (c # s)"
    then consider "take (length n) (c # s) = n" | "contains n s" by auto
    then show "\<exists>a b. c # s = a @ n @ b"
    proof cases
      case 1
      then have "c # s = [] @ n @ drop (length n) (c # s)" by (metis append_Nil append_take_drop_id)
      then show ?thesis by blast
    next
      case 2
      then show ?thesis using Cons by (metis append_Cons)
    qed
  next
    assume "\<exists>a b. c # s = a @ n @ b"
    then obtain a b where e: "c # s = a @ n @ b" by blast
    show "contains n (c # s)"
    proof (cases a)
      case Nil
      then have "take (length n) (c # s) = n" using e by simp
      then show ?thesis by simp
    next
      case (Cons d a')
      then show ?thesis using e Cons.IH by auto
    qed
  qed
qed auto

lemma quoted_in_iff:
  assumes "CHR 0x22 \<notin> set c"
  shows "contains (quoted c) s \<longleftrightarrow> (\<exists>xs ys. split_on (CHR 0x22) s = xs @ c # ys \<and> xs \<noteq> [] \<and> ys \<noteq> [])"
proof
  assume "contains (quoted c) s"
  then obtain a b where "s = a @ CHR 0x22 # (c @ CHR 0x22 # b)" by (auto simp: contains_iff quoted_def)
  then have "split_on (CHR 0x22) s = split_on (CHR 0x22) a @ c # split_on (CHR 0x22) b"
    using split_on_single[OF assms] by (simp only: split_on_append_sep append_Cons append_Nil)
  then show "\<exists>xs ys. split_on (CHR 0x22) s = xs @ c # ys \<and> xs \<noteq> [] \<and> ys \<noteq> []"
    by (intro exI[of _ "split_on (CHR 0x22) a"] exI[of _ "split_on (CHR 0x22) b"] conjI split_on_nonempty)
next
  assume "\<exists>xs ys. split_on (CHR 0x22) s = xs @ c # ys \<and> xs \<noteq> [] \<and> ys \<noteq> []"
  then obtain xs ys where e: "split_on (CHR 0x22) s = xs @ c # ys" "xs \<noteq> []" "ys \<noteq> []" by blast
  have "s = join_with (CHR 0x22) (xs @ c # ys)" using join_split[of "CHR 0x22" s] e(1) by simp
  also have "\<dots> = join_with (CHR 0x22) xs @ quoted c @ join_with (CHR 0x22) ys"
    using join_with_append[OF e(2), of "c # ys" "CHR 0x22"] join_with_Cons[OF e(3), of "CHR 0x22" c]
    by (simp add: quoted_def)
  finally show "contains (quoted c) s" unfolding contains_iff by blast
qed

text \<open>The quoted parts of the printed array: the capabilities and the commas between them.\<close>

lemma split_print_grants:
  assumes "\<forall>c\<in>set cs. CHR 0x22 \<notin> set c"
  shows "\<exists>segs. split_on (CHR 0x22) (print_grants is_first cs @ '']'') =
     (if cs = [] then ['']''] else (if is_first then [] else '','') # segs @ ['']'']) \<and>
     set segs \<subseteq> set cs \<union> {'',''} \<and> set cs \<subseteq> set segs"
  using assms
proof (induction cs arbitrary: is_first)
  case (Cons c cs)
  obtain segs where s: "split_on (CHR 0x22) (print_grants False cs @ '']'') =
     (if cs = [] then ['']''] else '','' # segs @ ['']''])" "set segs \<subseteq> set cs \<union> {'',''}" "set cs \<subseteq> set segs"
    using Cons.IH[of False] Cons.prems unfolding if_False list.set ball_simps by blast
  let ?q = "if is_first then [] else '','' :: string"
  have "print_grants is_first (c # cs) @ '']'' = ?q @ CHR 0x22 # (c @ CHR 0x22 # (print_grants False cs @ '']''))"
    by (simp add: quoted_def)
  moreover have "split_on (CHR 0x22) ?q = [?q]" by simp
  moreover have c: "split_on (CHR 0x22) c = [c]" using split_on_single[of "CHR 0x22" c] Cons.prems by simp
  ultimately have "split_on (CHR 0x22) (print_grants is_first (c # cs) @ '']'') =
      ?q # c # split_on (CHR 0x22) (print_grants False cs @ '']'')"
    using c by (simp only: split_on_append_sep append_Cons append_Nil)
  then show ?case using s by (intro exI[of _ "if cs = [] then [c] else c # '','' # segs"]) auto
qed (simp, rule exI[of _ "[]"], simp)

lemma inner_element: "(\<exists>xs ys. a # segs @ [b] = xs @ c # ys \<and> xs \<noteq> [] \<and> ys \<noteq> []) \<longleftrightarrow> c \<in> set segs"
proof
  assume "c \<in> set segs"
  then obtain us vs where "segs = us @ c # vs" by (meson split_list)
  then have "a # segs @ [b] = (a # us) @ c # (vs @ [b])" by simp
  then show "\<exists>xs ys. a # segs @ [b] = xs @ c # ys \<and> xs \<noteq> [] \<and> ys \<noteq> []" by blast
next
  assume "\<exists>xs ys. a # segs @ [b] = xs @ c # ys \<and> xs \<noteq> [] \<and> ys \<noteq> []"
  then obtain xs ys where e: "a # segs @ [b] = xs @ c # ys" "xs \<noteq> []" "ys \<noteq> []" by blast
  obtain x us where x: "xs = x # us" using e(2) by (cases xs) auto
  obtain vs y where y: "ys = vs @ [y]" using e(3) by (cases ys rule: rev_cases) auto
  have "segs @ [b] = (us @ c # vs) @ [y]" using e(1) x y by simp
  then show "c \<in> set segs" by (simp only: append1_eq_conv) auto
qed

lemma tier1_caps:
  assumes "c \<in> set TIER1_CAPS"
  shows "CHR 0x22 \<notin> set c" "NUL \<notin> set c" "c \<noteq> '',''" "length c \<le> 19"
  using assms by (auto simp: TIER1_CAPS_def NUL_def)

lemma cap_tier_iff: "cap_tier c = 1 \<longleftrightarrow> c \<in> set TIER1_CAPS"
  by (simp add: cap_tier_def TIER1_CAPS_def)

lemma printed_contains:
  assumes "set cs \<subseteq> set TIER1_CAPS" "c \<in> set TIER1_CAPS"
  shows "contains (quoted c) (''['' @ print_grants True cs @ '']'') \<longleftrightarrow> c \<in> set cs"
proof -
  obtain segs where s: "split_on (CHR 0x22) (print_grants True cs @ '']'') = (if cs = [] then ['']''] else [] # segs @ ['']''])"
      "set segs \<subseteq> set cs \<union> {'',''}" "set cs \<subseteq> set segs"
    using split_print_grants[of cs True] assms(1) tier1_caps(1) unfolding if_True by blast
  have e: "split_on (CHR 0x22) (''['' @ print_grants True cs @ '']'') = (if cs = [] then [''[]''] else ''['' # segs @ ['']''])"
    using s(1) by auto
  have "contains (quoted c) (''['' @ print_grants True cs @ '']'') \<longleftrightarrow> cs \<noteq> [] \<and> c \<in> set segs"
  proof (cases "cs = []")
    case True
    show ?thesis unfolding quoted_in_iff[OF tier1_caps(1)[OF assms(2)]] e if_P[OF True] using True
      by (simp add: Cons_eq_append_conv)
  next
    case False
    show ?thesis unfolding quoted_in_iff[OF tier1_caps(1)[OF assms(2)]] e if_not_P[OF False] inner_element using False by simp
  qed
  then show ?thesis using s(2,3) tier1_caps(3)[OF assms(2)] by auto
qed

lemma printed_length: "length (print_grants b cs) \<le> sum_list (map (\<lambda>c. length c + 3) cs)"
  by (induction b cs rule: print_grants.induct) (auto simp: quoted_def)

lemma printed_nul: "set cs \<subseteq> set TIER1_CAPS \<Longrightarrow> NUL \<notin> set (print_grants b cs)"
proof (induction b cs rule: print_grants.induct)
  case (2 b c cs)
  then show ?case using tier1_caps(2)[of c] by (simp add: quoted_def) (simp add: NUL_def)
qed simp

lemma persisted_after:
  assumes "c \<in> set TIER1_CAPS" "d \<in> set TIER1_CAPS"
  shows "grant_is_persisted (grant_persist True fs app c) app d \<longleftrightarrow> d = c \<or> grant_is_persisted fs app d"
proof -
  let ?cs = "filter (\<lambda>d. grant_is_persisted fs app d \<or> c = d) TIER1_CAPS"
  let ?t = "''['' @ print_grants True ?cs @ '']''"
  have "sum_list (map (\<lambda>c. length c + 3) ?cs) \<le> sum_list (map (\<lambda>c. length c + 3) TIER1_CAPS)"
    by (rule sum_list_filter_le_nat)
  also have "\<dots> = 90" by (simp add: TIER1_CAPS_def)
  finally have "length ?t \<le> 255" using printed_length[of True ?cs] by simp
  moreover have "NUL \<notin> set ?t" using printed_nul[of ?cs True] by (auto simp: NUL_def)
  then have "\<forall>x\<in>set ?t. x \<noteq> NUL" by blast
  ultimately have t: "cstr_of (take 255 ?t) = ?t" unfolding cstr_of_def by (simp only: take_all takeWhile_eq_all_conv)
  have f: "grant_persist True fs app c (grants_path app) = Some ?t"
    by (simp add: grant_persist_def Let_def)
  have "take 63 (quoted d) = quoted d" using tier1_caps(4)[OF assms(2)] by (simp add: quoted_def)
  then have "grant_is_persisted (grant_persist True fs app c) app d \<longleftrightarrow> contains (quoted d) ?t"
    unfolding grant_is_persisted_def[of "grant_persist True fs app c"] f option.case t by (simp only:)
  then show ?thesis using printed_contains[of ?cs d] assms(2) by auto
qed

lemma grants_path_inj:
  assumes "length app \<le> 77" "length app' \<le> 77" "grants_path app = grants_path app'"
  shows "app = app'"
  using assms by (simp add: grants_path_def)

lemma consent_loop_granted:
  "fst (consent_loop fs app g p caps) =
     g @ filter (\<lambda>d. d \<in> set TIER1_CAPS \<and> grant_is_persisted fs app d) caps"
  by (induction fs app g p caps rule: consent_loop.induct) (simp_all add: Let_def cap_tier_iff)

lemma consent_loop_cong:
  "(\<And>d. grant_is_persisted fs app d = grant_is_persisted fs' app d) \<Longrightarrow>
     consent_loop fs app g p caps = consent_loop fs' app g p caps"
  by (induction caps arbitrary: g p) (simp_all add: Let_def)

text \<open>C4: A grant of the first tier is remembered, and nothing else. At the next launch the
  application starts with the capabilities it declares that were granted before or
  just now; no other application starts with more or less.\<close>

theorem grant_remembered:
  assumes "c \<in> set TIER1_CAPS" "length app \<le> 77"
  shows "set (fst (apply_consent (grant_persist True fs app c) app declared)) =
       set (fst (apply_consent fs app declared)) \<union> (set declared \<inter> {c}) \<and>
     (\<forall>app'. app' \<noteq> app \<and> length app' \<le> 77 \<longrightarrow>
        apply_consent (grant_persist can_write fs app c) app' declared = apply_consent fs app' declared)"
proof (intro conjI allI impI)
  show "set (fst (apply_consent (grant_persist True fs app c) app declared)) =
       set (fst (apply_consent fs app declared)) \<union> (set declared \<inter> {c})"
    using assms(1) persisted_after[OF assms(1)] by (auto simp: apply_consent_def consent_loop_granted)
  fix app' assume a: "app' \<noteq> app \<and> length app' \<le> 77"
  then have "grants_path app' \<noteq> grants_path app" using grants_path_inj assms(2) by blast
  then have "grant_is_persisted (grant_persist can_write fs app c) app' d = grant_is_persisted fs app' d" for d
    by (simp add: grant_is_persisted_def grant_persist_def Let_def)
  then show "apply_consent (grant_persist can_write fs app c) app' declared = apply_consent fs app' declared"
    unfolding apply_consent_def by (rule consent_loop_cong)
qed

section \<open>Remembered origins\<close>

text \<open>The texts that are stored line by line: those of the origins the SDK bridge makes
  (lemma origin_storable below) are such texts.\<close>

definition storable :: "string \<Rightarrow> bool" where
  "storable orig \<longleftrightarrow> orig \<noteq> [] \<and> length orig < SDK_ORIGIN_MAX \<and> NUL \<notin> set orig \<and> LF \<notin> set orig \<and> CR \<notin> set orig"

lemma host_char_code: "host_char c \<Longrightarrow> 32 < ord (lower_ascii c)"
proof -
  assume "host_char c"
  then have "45 \<le> ord c" by (auto simp: host_char_def ord_def)
  then show ?thesis by (auto simp: lower_ascii_def ord_def)
qed

lemma consent_dec_length: "n < 10 ^ Suc k \<Longrightarrow> length (dec n) \<le> Suc k"
proof (induction k arbitrary: n)
  case (Suc k)
  then show ?case by (subst dec.simps) (simp add: less_mult_imp_div_less)
qed (simp add: dec.simps)

lemma origin_storable:
  assumes "sdk_https_origin (Some u) SDK_ORIGIN_MAX = Inr orig"
  shows "storable orig"
proof -
  note sh = https_origin_shape[OF assms]
  note len = sh(7)
  have "length (dec (url_port u)) \<le> Suc 4" using sh(5) by (intro consent_dec_length) simp
  then have "length orig < SDK_ORIGIN_MAX" using len sh(1) by (simp split: if_splits)
  moreover have "32 < ord c" if "c \<in> set orig" for c
  proof -
    have "c \<in> set ''https://'' \<or> (\<exists>h\<in>set (url_host u). c = lower_ascii h) \<or> c = CHR '':'' \<or> c \<in> set (dec (url_port u))"
      using that sh(1) by (auto split: if_splits)
    then show ?thesis
    proof (elim disjE bexE)
      fix h assume "h \<in> set (url_host u)" "c = lower_ascii h"
      then show ?thesis using sh(2) host_char_code by (auto simp: list_all_iff)
    next
      assume "c \<in> set (dec (url_port u))"
      then show ?thesis using dec_digits[of "url_port u"] by (auto simp: list_all_iff is_dec_digit_def)
    qed (auto simp: ord_def)
  qed
  moreover have "\<not> 32 < ord NUL" "\<not> 32 < ord LF" "\<not> 32 < ord CR"
    by (simp_all add: NUL_def LF_def CR_def ord_def)
  ultimately have "NUL \<notin> set orig" "LF \<notin> set orig" "CR \<notin> set orig" "length orig < SDK_ORIGIN_MAX"
    by blast+
  then show ?thesis using sh(1) by (simp add: storable_def)
qed

text \<open>The file of an application holds these origins.\<close>

definition holds_origins :: "grant_files \<Rightarrow> string \<Rightarrow> string list \<Rightarrow> bool" where
  "holds_origins fs app origs \<longleftrightarrow>
     (\<forall>orig\<in>set origs. storable orig) \<and>
     (case fs (origin_grants_path app) of
        None \<Rightarrow> origs = []
      | Some content \<Rightarrow> content = concat (map (\<lambda>orig. orig @ [LF]) origs))"

lemma fgets_line: "LF \<notin> set l \<Longrightarrow> length l < n \<Longrightarrow> c_fgets n (l @ LF # rest) = (l @ [LF], rest)"
proof (induction l arbitrary: n)
  case Nil
  then show ?case by (cases n) simp_all
next
  case (Cons c l)
  then obtain m where "n = Suc m" by (cases n) auto
  with Cons show ?case by auto
qed

lemma strip_line: "storable l \<Longrightarrow> strip_line_end (l @ [LF]) = l"
proof -
  assume s: "storable l"
  have "LF \<noteq> NUL" by (simp add: LF_def NUL_def)
  with s have "\<forall>x\<in>set (l @ [LF]). x \<noteq> NUL" unfolding storable_def by auto
  then have c: "cstr_of (l @ [LF]) = l @ [LF]" unfolding cstr_of_def by (simp only: takeWhile_eq_all_conv)
  obtain x xs where r: "rev l = x # xs" using s by (cases "rev l") (auto simp: storable_def)
  then have "x \<in> set l" by (metis list.set_intros(1) set_rev)
  then have "\<not> (x = LF \<or> x = CR)" using s unfolding storable_def by blast
  then have "dropWhile (\<lambda>c. c = LF \<or> c = CR) (LF # rev l) = rev l" unfolding r by simp
  then show ?thesis unfolding strip_line_end_def c by simp
qed

lemma scan_iff:
  "\<forall>l\<in>set ls. storable l \<Longrightarrow> origin_scan orig (concat (map (\<lambda>l. l @ [LF]) ls)) \<longleftrightarrow> orig \<in> set ls"
proof (induction ls)
  case (Cons l ls)
  let ?rest = "concat (map (\<lambda>l. l @ [LF]) ls)"
  have l: "storable l" using Cons.prems by simp
  obtain c s where cs: "l @ LF # ?rest = c # s" by (cases "l @ LF # ?rest") auto
  have f: "c_fgets (Suc SDK_ORIGIN_MAX) (l @ LF # ?rest) = (l @ [LF], ?rest)"
    using l by (intro fgets_line) (auto simp: storable_def)
  have "origin_scan orig (l @ LF # ?rest) = (if l = orig then True else origin_scan orig ?rest)"
    using f strip_line[OF l] unfolding cs by (simp del: c_fgets.simps)
  then show ?case using Cons by auto
qed simp

lemma persisted_iff: "holds_origins fs app origs \<Longrightarrow> origin_is_persisted fs app orig \<longleftrightarrow> orig \<in> set origs"
  using scan_iff[of origs orig] by (auto simp: holds_origins_def origin_is_persisted_def split: option.splits)

lemma persist_holds:
  assumes "holds_origins fs app origs" "storable orig"
  shows "\<exists>origs'. holds_origins (origin_persist can_write fs app orig) app origs' \<and>
     (origs' = origs \<or> origs' = origs @ [orig])"
proof (cases "origin_persist can_write fs app orig = fs")
  case True
  then show ?thesis using assms(1) by auto
next
  case False
  then have "origin_persist can_write fs app orig =
      fs(origin_grants_path app \<mapsto> (case fs (origin_grants_path app) of None \<Rightarrow> [] | Some content \<Rightarrow> content) @ orig @ [LF])"
    by (simp add: origin_persist_def Let_def split: if_splits)
  then have "holds_origins (origin_persist can_write fs app orig) app (origs @ [orig])"
    using assms by (auto simp: holds_origins_def split: option.splits)
  then show ?thesis by blast
qed

lemma chunk_rows_props:
  "length (chunk_rows n s) \<le> n \<and> concat (chunk_rows n s) = take (n * 21) s \<and> (\<forall>r\<in>set (chunk_rows n s). length r \<le> 21)"
proof (induction n s rule: chunk_rows.induct)
  case (2 n s)
  have "take (Suc n * 21) s = take 21 s @ take (n * 21) (drop 21 s)"
    using take_add[of 21 "n * 21" s] by (simp add: add.commute)
  then show ?case using 2 by auto
qed simp

lemma origin_prompt_passed:
  assumes "holds_origins fs (sc_app_id ctx) origs" "storable orig"
    and "app_origin_prompt headless can_write fs (Some ctx) (Some orig) evs = ((screens, Answered (passed, c) rest), fs')"
  shows "(passed \<and> orig \<notin> set origs \<longrightarrow>
        \<not> headless \<and> (\<exists>used. evs = used @ KEY_OK # rest) \<and>
        last (rows_on (last screens)) = '' Deny       >Allow'' \<and>
        (\<forall>scr\<in>set screens. \<exists>rows. butlast (rows_on scr) = [''Web request'', [], ''Connect securely to:''] @ rows \<and>
           concat rows = take 63 (if take 8 orig = ''https://'' then drop 8 orig else orig))) \<and>
     (\<exists>origs'. holds_origins fs' (sc_app_id ctx) origs' \<and>
        (origs' = origs \<or> passed \<and> origs' = origs @ [orig]))"
proof (cases "orig \<in> set origs \<or> headless")
  case True
  then have "fs' = fs \<and> (passed \<longleftrightarrow> orig \<in> set origs)"
    using assms(2,3) persisted_iff[OF assms(1), of orig]
    by (cases orig) (auto simp: app_origin_prompt_def storable_def)
  then show ?thesis using assms(1) by auto
next
  case False
  let ?shown = "if take 8 orig = ''https://'' then drop 8 orig else orig"
  let ?body = "''Connect securely to:'' # chunk_rows 3 ?shown"
  have m: "prompt_origin (Some ctx) orig evs = (screens, Answered (passed, c) rest)"
    "fs' = (if passed then origin_persist can_write fs (sc_app_id ctx) orig else fs)"
    using assms(2,3) persisted_iff[OF assms(1), of orig] False
    by (cases orig; auto simp: app_origin_prompt_def storable_def Let_def)+
  have "passed \<longrightarrow> (\<exists>used. evs = used @ KEY_OK # rest) \<and>
      (\<forall>scr\<in>set screens. butlast (rows_on scr) = ''Web request'' # [] # ?body) \<and>
      last (rows_on (last screens)) = '' Deny       >Allow''"
  proof
    assume passed
    then have "allowed_by (sdk_confirm (Some ctx) (Some ''Web request'') (Some (map Some ?body)) (length ?body) False True evs) =
        (screens, Answered (True, c) rest)"
      using m(1) by (simp add: prompt_origin_def Let_def)
    then show "(\<exists>used. evs = used @ KEY_OK # rest) \<and>
      (\<forall>scr\<in>set screens. butlast (rows_on scr) = ''Web request'' # [] # ?body) \<and>
      last (rows_on (last screens)) = '' Deny       >Allow''"
      by (rule confirm_allowed) (use chunk_rows_props[of 3 ?shown] in fastforce)+
  qed
  moreover have "concat (chunk_rows 3 ?shown) = take 63 ?shown" using chunk_rows_props[of 3 ?shown] by simp
  moreover have "\<exists>origs'. holds_origins fs' (sc_app_id ctx) origs' \<and> (origs' = origs \<or> passed \<and> origs' = origs @ [orig])"
    using persist_holds[OF assms(1,2), of can_write] assms(1) m(2) by (cases passed) auto
  ultimately show ?thesis using False by auto
qed

text \<open>C3: A web origin is used only with the user's consent. When the origin prompt lets a
  request pass, its origin was allowed before, or the application is not running
  headless and the last key was OK on a screen that marks Allow, every screen having
  shown the first 63 characters of host and port. Whatever the answer, no origin is
  forgotten and none is remembered but the one just allowed.\<close>

theorem origin_allowed:
  assumes "sdk_https_origin (Some u) SDK_ORIGIN_MAX = Inr orig" "holds_origins fs (sc_app_id ctx) origs"
    and "app_origin_prompt headless can_write fs (Some ctx) (Some orig) evs = ((screens, Answered (passed, c) rest), fs')"
  shows "(passed \<and> orig \<notin> set origs \<longrightarrow>
        \<not> headless \<and> (\<exists>used. evs = used @ KEY_OK # rest) \<and>
        last (rows_on (last screens)) = '' Deny       >Allow'' \<and>
        (\<forall>scr\<in>set screens. \<exists>rows. butlast (rows_on scr) = [''Web request'', [], ''Connect securely to:''] @ rows \<and>
           concat rows = take 63 (drop 8 orig))) \<and>
     (\<exists>origs'. holds_origins fs' (sc_app_id ctx) origs' \<and>
        (origs' = origs \<or> passed \<and> origs' = origs @ [orig]))"
proof -
  have "take 8 orig = ''https://''" using https_origin_shape(1)[OF assms(1)] by simp
  then show ?thesis using origin_prompt_passed[OF assms(2) origin_storable[OF assms(1)] assms(3)] by simp
qed

section \<open>Runs\<close>

lemma consent_run:
  "\<exists>screens c fs'. app_consent_prompt False True Map.empty (Some ui_demo) ''ble.scan'' 1 [KEY_RIGHT, KEY_OK] =
     ((screens, Answered (True, c) []), fs')"
proof -
  have w: "sdk_wrap_text (Some (cap_description ''ble.scan'')) 2 = ([''scan for nearby'', ''Bluetooth devices''], 2)"
    by code_simp
  show ?thesis
    by (simp add: app_consent_prompt_def prompt_permission_def w allowed_by_def sdk_confirm_def sdk_ensure_bound_def
        modal_loop.simps confirm_step_def end_modal_def Let_def)
qed

theorem consent_given_witness:
  "\<exists>screens c fs'. app_consent_prompt False True Map.empty (Some ui_demo) ''ble.scan'' 1 [KEY_RIGHT, KEY_OK] =
       ((screens, Answered (True, c) []), fs') \<and>
     last (rows_on (last screens)) = '' Deny       >Allow''"
proof -
  obtain screens c fs' where r: "app_consent_prompt False True Map.empty (Some ui_demo) ''ble.scan'' 1 [KEY_RIGHT, KEY_OK] =
     ((screens, Answered (True, c) []), fs')" using consent_run by blast
  with consent_given[OF r] show ?thesis by blast
qed

theorem grant_remembered_witness:
  "set (fst (apply_consent (grant_persist True Map.empty ''notes'' ''ble.scan'') ''notes'' [''ble.scan'', ''files.full''])) =
     {''ble.scan''}"
  using grant_remembered[of "''ble.scan''" "''notes''" Map.empty "[''ble.scan'', ''files.full'']"]
  by (simp add: TIER1_CAPS_def apply_consent_def grant_is_persisted_def cap_tier_def SDK_PENDING_CAP_MAX_def)

lemma origin_run:
  "\<exists>screens c fs'. app_origin_prompt False True Map.empty (Some ui_demo) (Some ''https://api.example'') [KEY_RIGHT, KEY_OK] =
     ((screens, Answered (True, c) []), fs')"
  by (simp add: app_origin_prompt_def origin_is_persisted_def prompt_origin_def allowed_by_def sdk_confirm_def
      sdk_ensure_bound_def modal_loop.simps confirm_step_def end_modal_def Let_def)

theorem origin_allowed_witness:
  "\<exists>screens c fs'. app_origin_prompt False True Map.empty (Some ui_demo) (Some ''https://api.example'') [KEY_RIGHT, KEY_OK] =
       ((screens, Answered (True, c) []), fs') \<and>
     last (rows_on (last screens)) = '' Deny       >Allow''"
proof -
  obtain screens c fs' where r: "app_origin_prompt False True Map.empty (Some ui_demo) (Some ''https://api.example'')
     [KEY_RIGHT, KEY_OK] = ((screens, Answered (True, c) []), fs')" using origin_run by blast
  have "holds_origins Map.empty (sc_app_id ui_demo) []" by (simp add: holds_origins_def)
  from origin_allowed[OF origin_demo(2)[folded SDK_ORIGIN_MAX_def] this r] r show ?thesis by auto
qed

end
