(* ===== verification/Games.thy ===== *)
theory Games
  imports Base
begin

text \<open>
  What the games of src/apps/games rely on of their hub (include/games_api.h, the function
  table games_api_t): the random numbers. rng bound w is the next random number below
  bound, with the state of the generator after it.
\<close>

type_synonym 'w rng = "nat \<Rightarrow> 'w \<Rightarrow> nat \<times> 'w"

text \<open>uniform random in [0, bound), as the table documents.\<close>

definition rng_ok :: "'w rng \<Rightarrow> bool" where
  "rng_ok rng \<longleftrightarrow> (\<forall>n w. 0 < n \<longrightarrow> fst (rng n w) < n)"

lemma rng_okD: "rng_ok rng \<Longrightarrow> rng n w = (k, w') \<Longrightarrow> 0 < n \<Longrightarrow> k < n"
  by (metis fst_conv rng_ok_def)

end
