(* ===== verification/G2048.thy ===== *)
theory G2048
  imports Games
begin

text \<open>
  src/apps/games/src/mod/g2048.c: the board of the 2048 game, its moves, its records and
  one turn of a session. Exponents, score and the stored records are naturals (the
  property on the tile sum bounds them). The keys, the answers of the
  dialogs and the random numbers come from the hub of the games app (theory Games). Sound and
  drawing are left out.
\<close>

section \<open>Board\<close>

record g2048 =
  cell :: "nat list list"
  score :: nat
  max_exp :: nat
  won_shown :: bool
  game_over :: bool

definition cell_at :: "nat list list \<Rightarrow> nat \<times> nat \<Rightarrow> nat" where
  "cell_at b rc = b ! fst rc ! snd rc"

definition set_cell :: "nat list list \<Rightarrow> nat \<times> nat \<Rightarrow> nat \<Rightarrow> nat list list" where
  "set_cell b rc v = b[fst rc := (b ! fst rc)[snd rc := v]]"

definition all_cells :: "(nat \<times> nat) list" where
  "all_cells = List.product [0..<4] [0..<4]"

definition free_cells :: "nat list list \<Rightarrow> (nat \<times> nat) list" where
  "free_cells b = filter (\<lambda>rc. cell_at b rc = 0) all_cells"

definition spawn_tile :: "'w rng \<Rightarrow> g2048 \<Rightarrow> 'w \<Rightarrow> g2048 \<times> 'w" where
  "spawn_tile rng g w =
     (let free = free_cells (cell g)
      in if length free = 0 then (g, w)
         else
           let (k, w) = rng (length free) w;
               (four, w) = rng 10 w
           in (g\<lparr> cell := set_cell (cell g) (free ! k) (if four = 0 then 2 else 1) \<rparr>, w))"

definition any_moves :: "nat list list \<Rightarrow> bool" where
  "any_moves b \<longleftrightarrow>
     list_ex (\<lambda>(r, c).
       cell_at b (r, c) = 0 \<or>
       (c + 1 < 4 \<and> cell_at b (r, c) = cell_at b (r, c + 1)) \<or>
       (r + 1 < 4 \<and> cell_at b (r, c) = cell_at b (r + 1, c))) all_cells"

section \<open>Sliding\<close>

text \<open>One line of four. out holds the tiles placed so far (its length is pos in the
  code, the zeros behind it are added at the end).\<close>

fun slide_loop ::
  "nat list \<Rightarrow> nat \<Rightarrow> nat list \<Rightarrow> bool \<Rightarrow> bool \<Rightarrow> nat \<Rightarrow> nat \<Rightarrow> nat list \<times> bool \<times> nat \<times> nat" where
  "slide_loop [] i out merged_here moved sc mx =
     (out @ replicate (4 - length out) 0, moved, sc, mx)"
| "slide_loop (x # xs) i out merged_here moved sc mx =
     (if x = 0 then slide_loop xs (i + 1) out merged_here moved sc mx
      else if length out > 0 \<and> \<not> merged_here \<and> last out = x then
        (let v = last out + 1
         in slide_loop xs (i + 1) (butlast out @ [v]) True True (sc + 2 ^ v)
              (if v > mx then v else mx))
      else slide_loop xs (i + 1) (out @ [x]) False (moved \<or> i \<noteq> length out) sc mx)"

definition slide_line :: "nat list \<Rightarrow> nat \<Rightarrow> nat \<Rightarrow> nat list \<times> bool \<times> nat \<times> nat" where
  "slide_line line sc mx = slide_loop line 0 [] False False sc mx"

datatype dir = Dir_Left | Dir_Right | Dir_Up | Dir_Down

text \<open>The cell that is place j of line i in a direction.\<close>

fun line_pos :: "dir \<Rightarrow> nat \<Rightarrow> nat \<Rightarrow> nat \<times> nat" where
  "line_pos Dir_Left i j = (i, j)"
| "line_pos Dir_Right i j = (i, 4 - 1 - j)"
| "line_pos Dir_Up i j = (j, i)"
| "line_pos Dir_Down i j = (4 - 1 - j, i)"

definition get_line :: "dir \<Rightarrow> nat \<Rightarrow> nat list list \<Rightarrow> nat list" where
  "get_line d i b = map (\<lambda>j. cell_at b (line_pos d i j)) [0..<4]"

definition put_line :: "dir \<Rightarrow> nat \<Rightarrow> nat list \<Rightarrow> nat list list \<Rightarrow> nat list list" where
  "put_line d i line b = foldl (\<lambda>b j. set_cell b (line_pos d i j) (line ! j)) b [0..<4]"

definition slide_one :: "dir \<Rightarrow> g2048 \<times> bool \<Rightarrow> nat \<Rightarrow> g2048 \<times> bool" where
  "slide_one d gm i =
     (let (g, moved) = gm;
          (line, m, sc, mx) = slide_line (get_line d i (cell g)) (score g) (max_exp g)
      in (g\<lparr> cell := put_line d i line (cell g), score := sc, max_exp := mx \<rparr>, moved \<or> m))"

definition slide :: "dir \<Rightarrow> g2048 \<Rightarrow> g2048 \<times> bool" where
  "slide d g = foldl (slide_one d) (g, False) [0..<4]"

section \<open>Session\<close>

record g2048_kv =
  kv_hs :: nat
  kv_tile :: nat

definition save_records :: "g2048 \<Rightarrow> g2048_kv \<Rightarrow> g2048_kv" where
  "save_records g kv =
     (let kv = (if score g > kv_hs kv then kv\<lparr> kv_hs := score g \<rparr> else kv)
      in if 2 ^ max_exp g > kv_tile kv then kv\<lparr> kv_tile := 2 ^ max_exp g \<rparr> else kv)"

definition blank_game :: g2048 where
  "blank_game = \<lparr> cell = replicate 4 (replicate 4 0), score = 0, max_exp = 0,
     won_shown = False, game_over = False \<rparr>"

definition reset_game :: "'w rng \<Rightarrow> 'w \<Rightarrow> g2048 \<times> 'w" where
  "reset_game rng w = (let (g, w) = spawn_tile rng blank_game w in spawn_tile rng g w)"

datatype g2048_key = K_Slide dir | K_Long | K_Other

text \<open>One round of the loop: the key, the entry chosen if the pause menu opens (0 resume,
  1 restart, 2 quit), and whether the win dialog is left with Back.\<close>

datatype 'w turn = Turn_Go g2048 g2048_kv 'w | Turn_Quit g2048 g2048_kv

definition play_turn ::
  "'w rng \<Rightarrow> g2048_key \<Rightarrow> nat \<Rightarrow> bool \<Rightarrow> g2048 \<Rightarrow> g2048_kv \<Rightarrow> 'w \<Rightarrow> 'w turn" where
  "play_turn rng key action back_out g kv w =
     (case key of
        K_Other \<Rightarrow> Turn_Go g kv w
      | K_Long \<Rightarrow>
          if action = 1 then (let (g, w) = reset_game rng w in Turn_Go g kv w)
          else if action = 2 then Turn_Quit g (save_records g kv)
          else Turn_Go g kv w
      | K_Slide d \<Rightarrow>
          let (g1, moved) = slide d g
          in if \<not> moved then Turn_Go g1 kv w
             else
               let (g2, w) = spawn_tile rng g1 w;
                   kv = save_records g2 kv;
                   won = max_exp g2 \<ge> 11 \<and> max_exp g < 11 \<and> \<not> won_shown g2;
                   g3 = (if won then g2\<lparr> won_shown := True \<rparr> else g2)
               in if won \<and> back_out then Turn_Quit g3 kv
                  else Turn_Go (if \<not> any_moves (cell g3) then g3\<lparr> game_over := True \<rparr> else g3) kv w)"

text \<open>A session over the inputs of its rounds; it ends when the game is over, with the
  records saved once more, or on quitting.\<close>

fun play_session ::
  "'w rng \<Rightarrow> (g2048_key \<times> nat \<times> bool) list \<Rightarrow> g2048 \<Rightarrow> g2048_kv \<Rightarrow> 'w \<Rightarrow> 'w turn" where
  "play_session rng ins g kv w =
     (if game_over g then Turn_Quit g (save_records g kv)
      else
        (case ins of
           [] \<Rightarrow> Turn_Go g kv w
         | (key, action, back_out) # ins \<Rightarrow>
             (case play_turn rng key action back_out g kv w of
                Turn_Go g kv w \<Rightarrow> play_session rng ins g kv w
              | Turn_Quit g kv \<Rightarrow> Turn_Quit g kv)))"

declare play_session.simps [simp del]

section \<open>One line\<close>

text \<open>The reference: take the zeros out, merge equal neighbours from the front, each tile
  at most once, and fill up with zeros.\<close>

fun merge_tiles :: "nat list \<Rightarrow> nat list" where
  "merge_tiles (a # b # xs) = (if a = b then (a + 1) # merge_tiles xs else a # merge_tiles (b # xs))"
| "merge_tiles xs = xs"

fun merge_gain :: "nat list \<Rightarrow> nat" where
  "merge_gain (a # b # xs) = (if a = b then 2 ^ (a + 1) + merge_gain xs else merge_gain (b # xs))"
| "merge_gain xs = 0"

definition ref_line :: "nat list \<Rightarrow> nat list" where
  "ref_line line = (let m = merge_tiles (filter (\<lambda>x. x \<noteq> 0) line) in m @ replicate (4 - length m) 0)"

definition tile_value :: "nat \<Rightarrow> nat" where
  "tile_value e = (if e = 0 then 0 else 2 ^ e)"

definition line_sum :: "nat list \<Rightarrow> nat" where
  "line_sum xs = sum_list (map tile_value xs)"

text \<open>The loop with a merged or empty end of out, and with a mergeable last tile.\<close>

lemma slide_loop_merge:
  "fst (slide_loop xs i out True mv sc mx) =
     (let m = out @ merge_tiles (filter (\<lambda>x. x \<noteq> 0) xs) in m @ replicate (4 - length m) 0)"
  "fst (slide_loop xs i [] False mv sc mx) =
     (let m = merge_tiles (filter (\<lambda>x. x \<noteq> 0) xs) in m @ replicate (4 - length m) 0)"
  "fst (slide_loop xs i (out @ [a]) False mv sc mx) =
     (let m = out @ merge_tiles (a # filter (\<lambda>x. x \<noteq> 0) xs) in m @ replicate (4 - length m) 0)"
proof (induction xs arbitrary: i out a mv sc mx)
  case Nil
  { case 1 then show ?case by (simp add: Let_def) }
  { case 2 then show ?case by (simp add: Let_def) }
  { case 3 then show ?case by (simp add: Let_def) }
next
  case (Cons x xs)
  { case 1 then show ?case using Cons(1)[of "i + 1" out] Cons(3)[of "i + 1" out x] by (simp add: Let_def) }
  { case 2 then show ?case using Cons(2)[of "i + 1"] Cons(3)[of "i + 1" "[]" x] by (simp add: Let_def) }
  { case 3 then show ?case
      using Cons(1)[of "i + 1" "out @ [Suc x]"] Cons(3)[of "i + 1" "out @ [a]" x] Cons(3)[of "i + 1" out a]
      by (simp add: Let_def) }
qed

lemma slide_loop_gain:
  "fst (snd (snd (slide_loop xs i out True mv sc mx))) = sc + merge_gain (filter (\<lambda>x. x \<noteq> 0) xs)"
  "fst (snd (snd (slide_loop xs i [] False mv sc mx))) = sc + merge_gain (filter (\<lambda>x. x \<noteq> 0) xs)"
  "fst (snd (snd (slide_loop xs i (out @ [a]) False mv sc mx))) =
     sc + merge_gain (a # filter (\<lambda>x. x \<noteq> 0) xs)"
proof (induction xs arbitrary: i out a mv sc mx)
  case Nil
  { case 1 then show ?case by simp }
  { case 2 then show ?case by simp }
  { case 3 then show ?case by simp }
next
  case (Cons x xs)
  { case 1 then show ?case using Cons(1)[of "i + 1" out] Cons(3)[of "i + 1" out x] by simp }
  { case 2 then show ?case using Cons(2)[of "i + 1"] Cons(3)[of "i + 1" "[]" x] by simp }
  { case 3 then show ?case
      using Cons(1)[of "i + 1" "out @ [Suc x]"] Cons(3)[of "i + 1" "out @ [a]" x] Cons(3)[of "i + 1" out a]
      by simp }
qed

lemma slide_line_ref: "fst (slide_line line sc mx) = ref_line line"
  using slide_loop_merge(2)[of line 0 False sc mx] by (simp add: slide_line_def ref_line_def)

lemma slide_line_gain:
  "fst (snd (snd (slide_line line sc mx))) = sc + merge_gain (filter (\<lambda>x. x \<noteq> 0) line)"
  using slide_loop_gain(2)[of line 0 False sc mx] by (simp add: slide_line_def)

lemma list4: "length xs = 4 \<longleftrightarrow> (\<exists>a b c d. xs = [a, b, c, d])"
  by (auto simp: length_Suc_conv numeral_eq_Suc)

lemma slide_line_moved:
  "length line = 4 \<Longrightarrow> fst (snd (slide_line line sc mx)) \<longleftrightarrow> ref_line line \<noteq> line"
proof -
  assume "length line = 4"
  then obtain a b c d where l: "line = [a, b, c, d]" by (auto simp: list4)
  show ?thesis
    by (cases "a = 0"; cases "b = 0"; cases "c = 0"; cases "d = 0")
       (simp_all add: l slide_line_def ref_line_def numeral_eq_Suc)
qed

lemma merge_tiles_sum: "0 \<notin> set xs \<Longrightarrow> line_sum (merge_tiles xs) = line_sum xs"
  by (induction xs rule: merge_tiles.induct) (auto simp: line_sum_def tile_value_def)

lemma merge_tiles_length: "length (merge_tiles xs) \<le> length xs"
  by (induction xs rule: merge_tiles.induct) auto

lemma line_sum_filter: "line_sum (filter (\<lambda>x. x \<noteq> 0) xs) = line_sum xs"
  by (induction xs) (auto simp: line_sum_def tile_value_def)

lemma line_sum_zeros: "line_sum (xs @ replicate n 0) = line_sum xs"
  by (simp add: line_sum_def tile_value_def sum_list_replicate)

lemma ref_line_sum: "line_sum (ref_line line) = line_sum line"
  using merge_tiles_sum[of "filter (\<lambda>x. x \<noteq> 0) line"] line_sum_filter[of line]
  by (simp add: ref_line_def Let_def line_sum_zeros)

lemma ref_line_length: "length line = 4 \<Longrightarrow> length (ref_line line) = 4"
  using merge_tiles_length[of "filter (\<lambda>x. x \<noteq> 0) line"] length_filter_le[of "\<lambda>x. x \<noteq> 0" line]
  by (simp add: ref_line_def Let_def)

text \<open>A line is stuck both ways exactly when it mixes no zeros with tiles and has no
  equal neighbours.\<close>

definition mixed :: "nat list \<Rightarrow> bool" where
  "mixed l \<longleftrightarrow> 0 \<in> set l \<and> (\<exists>x\<in>set l. x \<noteq> 0)"

definition pair_eq :: "nat list \<Rightarrow> bool" where
  "pair_eq l \<longleftrightarrow> (\<exists>j<3. l ! j \<noteq> 0 \<and> l ! j = l ! Suc j)"

lemma ref_line_fixed:
  "ref_line [a, b, c, d] = [a, b, c, d] \<longleftrightarrow>
     (a = 0 \<longrightarrow> b = 0) \<and> (b = 0 \<longrightarrow> c = 0) \<and> (c = 0 \<longrightarrow> d = 0) \<and>
     (a \<noteq> 0 \<longrightarrow> a \<noteq> b) \<and> (b \<noteq> 0 \<longrightarrow> b \<noteq> c) \<and> (c \<noteq> 0 \<longrightarrow> c \<noteq> d)"
  by (cases "a = 0"; cases "b = 0"; cases "c = 0"; cases "d = 0")
     (simp_all add: ref_line_def numeral_eq_Suc)

lemma line_moves_iff:
  assumes "length l = 4"
  shows "ref_line l \<noteq> l \<or> ref_line (rev l) \<noteq> rev l \<longleftrightarrow> mixed l \<or> pair_eq l"
proof -
  obtain a b c d where l: "l = [a, b, c, d]" using assms by (auto simp: list4)
  have p: "pair_eq [a, b, c, d] \<longleftrightarrow> (a \<noteq> 0 \<and> a = b) \<or> (b \<noteq> 0 \<and> b = c) \<or> (c \<noteq> 0 \<and> c = d)"
    by (simp add: pair_eq_def numeral_eq_Suc Ex_less_Suc) blast
  have m: "mixed [a, b, c, d] \<longleftrightarrow>
      (a = 0 \<or> b = 0 \<or> c = 0 \<or> d = 0) \<and> (a \<noteq> 0 \<or> b \<noteq> 0 \<or> c \<noteq> 0 \<or> d \<noteq> 0)"
    by (auto simp: mixed_def)
  have r: "rev [a, b, c, d] = [d, c, b, a]" by simp
  show ?thesis
    unfolding l r p m ref_line_fixed by (cases "a = 0"; cases "b = 0"; cases "c = 0"; cases "d = 0") auto
qed

section \<open>The board\<close>

definition board_ok :: "nat list list \<Rightarrow> bool" where
  "board_ok b \<longleftrightarrow> length b = 4 \<and> (\<forall>r<4. length (b ! r) = 4)"

definition in_board :: "nat \<times> nat \<Rightarrow> bool" where
  "in_board p \<longleftrightarrow> fst p < 4 \<and> snd p < 4"

lemma set_cell_ok: "board_ok b \<Longrightarrow> board_ok (set_cell b p v)"
proof -
  assume b: "board_ok b"
  have "length (b[fst p := (b ! fst p)[snd p := v]] ! r) = 4" if "r < 4" for r
    using b that by (cases "r = fst p") (simp_all add: board_ok_def)
  then show ?thesis using b by (simp add: board_ok_def set_cell_def)
qed

lemma cell_at_set_cell:
  "board_ok b \<Longrightarrow> in_board p \<Longrightarrow> in_board q \<Longrightarrow>
     cell_at (set_cell b p v) q = (if q = p then v else cell_at b q)"
  by (cases p; cases q) (auto simp: board_ok_def in_board_def set_cell_def cell_at_def nth_list_update)

lemma line_pos_in_board [simp]: "i < 4 \<Longrightarrow> j < 4 \<Longrightarrow> in_board (line_pos d i j)"
  by (cases d) (simp_all add: in_board_def)

lemma line_pos_eq [simp]:
  "i < 4 \<Longrightarrow> j < 4 \<Longrightarrow> i' < 4 \<Longrightarrow> j' < 4 \<Longrightarrow>
     line_pos d i j = line_pos d i' j' \<longleftrightarrow> i = i' \<and> j = j'"
  by (cases d) auto

lemma upt4: "[0..<4] = [0, 1, 2, 3]"
  by (simp add: numeral_eq_Suc)

lemma put_line_ok: "board_ok b \<Longrightarrow> board_ok (put_line d i line b)"
  by (simp add: put_line_def upt4 set_cell_ok)

lemma get_put_line:
  assumes "board_ok b" "length line = 4" "i < 4" "k < 4"
  shows "get_line d i (put_line d k line b) = (if i = k then line else get_line d i b)"
proof -
  have c: "cell_at (put_line d k line b) (line_pos d i j) =
      (if i = k then line ! j else cell_at b (line_pos d i j))" if "j < 4" for j
    using that assms less_Suc_eq
    by (auto simp: put_line_def upt4 cell_at_set_cell set_cell_ok numeral_eq_Suc less_Suc_eq)
  show ?thesis
    using assms(2) c by (auto intro!: nth_equalityI simp: get_line_def)
qed

lemma get_line_length [simp]: "length (get_line d i b) = 4"
  by (simp add: get_line_def)

lemma slide_prefix:
  assumes "board_ok (cell g)" "n \<le> 4"
  shows "case foldl (slide_one d) (g, False) [0..<n] of (g', moved) \<Rightarrow>
     board_ok (cell g') \<and> won_shown g' = won_shown g \<and> game_over g' = game_over g \<and>
     (\<forall>i<4. get_line d i (cell g') =
        (if i < n then ref_line (get_line d i (cell g)) else get_line d i (cell g))) \<and>
     moved = (\<exists>i<n. ref_line (get_line d i (cell g)) \<noteq> get_line d i (cell g)) \<and>
     score g' = score g + (\<Sum>i<n. merge_gain (filter (\<lambda>x. x \<noteq> 0) (get_line d i (cell g))))"
  using assms(2)
proof (induction n)
  case 0
  then show ?case using assms(1) by simp
next
  case (Suc n)
  obtain g1 m1 where p: "foldl (slide_one d) (g, False) [0..<n] = (g1, m1)" by fastforce
  have ih: "board_ok (cell g1)" "won_shown g1 = won_shown g" "game_over g1 = game_over g"
    "\<forall>i<4. get_line d i (cell g1) =
       (if i < n then ref_line (get_line d i (cell g)) else get_line d i (cell g))"
    "m1 = (\<exists>i<n. ref_line (get_line d i (cell g)) \<noteq> get_line d i (cell g))"
    "score g1 = score g + (\<Sum>i<n. merge_gain (filter (\<lambda>x. x \<noteq> 0) (get_line d i (cell g))))"
    using Suc p by simp_all
  let ?l = "get_line d n (cell g)"
  have n: "n < 4" and l: "get_line d n (cell g1) = ?l" using Suc.prems ih(4) by simp_all
  obtain line m sc mx where sl: "slide_line ?l (score g1) (max_exp g1) = (line, m, sc, mx)"
    by (cases "slide_line ?l (score g1) (max_exp g1)") auto
  have r: "line = ref_line ?l" "m = (ref_line ?l \<noteq> ?l)"
    "sc = score g1 + merge_gain (filter (\<lambda>x. x \<noteq> 0) ?l)"
    using slide_line_ref[of ?l "score g1" "max_exp g1"] slide_line_moved[of ?l "score g1" "max_exp g1"]
      slide_line_gain[of ?l "score g1" "max_exp g1"] sl by simp_all
  have "length line = 4" using r(1) ref_line_length by simp
  note gp = get_put_line[OF ih(1) this _ n, of _ d]
  have "foldl (slide_one d) (g, False) [0..<Suc n] =
      (g1\<lparr> cell := put_line d n line (cell g1), score := sc, max_exp := mx \<rparr>, m1 \<or> m)"
    using p sl l by (simp add: slide_one_def)
  moreover have "\<forall>i<4. get_line d i (put_line d n line (cell g1)) =
      (if i < Suc n then ref_line (get_line d i (cell g)) else get_line d i (cell g))"
    using gp ih(4) r(1) by (simp add: less_Suc_eq)
  moreover have "(m1 \<or> m) = (\<exists>i<Suc n. ref_line (get_line d i (cell g)) \<noteq> get_line d i (cell g))"
    using ih(5) r(2) by (auto simp: less_Suc_eq)
  ultimately show ?case using ih r(3) put_line_ok by simp
qed

lemma slide_lines:
  assumes "board_ok (cell g)" "slide d g = (g', moved)"
  shows "board_ok (cell g')" "won_shown g' = won_shown g" "game_over g' = game_over g"
    "i < 4 \<Longrightarrow> get_line d i (cell g') = ref_line (get_line d i (cell g))"
    "moved \<longleftrightarrow> (\<exists>i<4. ref_line (get_line d i (cell g)) \<noteq> get_line d i (cell g))"
    "score g' = score g + (\<Sum>i<4. merge_gain (filter (\<lambda>x. x \<noteq> 0) (get_line d i (cell g))))"
  using slide_prefix[OF assms(1), of 4 d] assms(2) by (simp_all add: slide_def)

text \<open>A board is determined by its lines.\<close>

lemma cell_from_line: "j < 4 \<Longrightarrow> cell_at b (line_pos d i j) = get_line d i b ! j"
  by (simp add: get_line_def)

lemma in_board_line: "in_board p \<Longrightarrow> \<exists>i<4. \<exists>j<4. p = line_pos d i j"
proof -
  assume p: "in_board p"
  obtain r c where rc: "p = (r, c)" by (cases p)
  then have "r < 4" "c < 4" using p by (simp_all add: in_board_def)
  then show ?thesis
  proof (cases d)
    case Dir_Right
    then show ?thesis using \<open>r < 4\<close> \<open>c < 4\<close> rc by (intro exI[of _ r] exI[of _ "3 - c"] conjI) auto
  next
    case Dir_Down
    then show ?thesis using \<open>r < 4\<close> \<open>c < 4\<close> rc by (intro exI[of _ c] exI[of _ "3 - r"] conjI) auto
  qed (use rc in auto)
qed

lemma board_eq:
  assumes "board_ok a" "board_ok b" "\<forall>i<4. get_line d i a = get_line d i b"
  shows "a = b"
proof -
  have c: "cell_at a p = cell_at b p" if "in_board p" for p
    using in_board_line[OF that, of d] assms(3) cell_from_line by metis
  show ?thesis
  proof (rule nth_equalityI)
    show "length a = length b" using assms by (simp add: board_ok_def)
    fix r assume "r < length a"
    then have r: "r < 4" using assms by (simp add: board_ok_def)
    show "a ! r = b ! r"
    proof (rule nth_equalityI)
      show "length (a ! r) = length (b ! r)" using assms r by (simp add: board_ok_def)
      fix j assume "j < length (a ! r)"
      then have "j < 4" using assms r by (simp add: board_ok_def)
      then show "a ! r ! j = b ! r ! j" using c[of "(r, j)"] r by (simp add: in_board_def cell_at_def)
    qed
  qed
qed

lemma slide_moved_iff:
  assumes "board_ok (cell g)" "slide d g = (g', moved)"
  shows "moved \<longleftrightarrow> cell g' \<noteq> cell g"
  using slide_lines[OF assms] board_eq[OF slide_lines(1)[OF assms] assms(1), of d] by metis

section \<open>When the game is stuck\<close>

lemma all_cells_set: "set all_cells = {p. in_board p}"
  by (auto simp: all_cells_def in_board_def)

lemma ex_cells:
  fixes H :: "nat \<Rightarrow> nat \<Rightarrow> bool"
  shows "(\<exists>r<4. \<exists>c<4. Z (r, c) = (0 :: nat) \<or> (c < 3 \<and> H r c) \<or> (r < 3 \<and> V r c)) \<longleftrightarrow>
     (\<exists>r<4. \<exists>c<4. Z (r, c) = 0) \<or> (\<exists>r<4. \<exists>c<3. Z (r, c) \<noteq> 0 \<and> H r c) \<or>
     (\<exists>c<4. \<exists>r<(3 :: nat). Z (r, c) \<noteq> 0 \<and> V r c)"
proof
  assume "\<exists>r<4. \<exists>c<4. Z (r, c) = 0 \<or> (c < 3 \<and> H r c) \<or> (r < 3 \<and> V r c)"
  then obtain r c where "r < 4" "c < 4" "Z (r, c) = 0 \<or> (c < 3 \<and> H r c) \<or> (r < 3 \<and> V r c)"
    by blast
  then show "(\<exists>r<4. \<exists>c<4. Z (r, c) = 0) \<or> (\<exists>r<4. \<exists>c<3. Z (r, c) \<noteq> 0 \<and> H r c) \<or>
      (\<exists>c<4. \<exists>r<3. Z (r, c) \<noteq> 0 \<and> V r c)"
    by (cases "Z (r, c) = 0") blast+
next
  assume "(\<exists>r<4. \<exists>c<4. Z (r, c) = 0) \<or> (\<exists>r<4. \<exists>c<3. Z (r, c) \<noteq> 0 \<and> H r c) \<or>
      (\<exists>c<4. \<exists>r<3. Z (r, c) \<noteq> 0 \<and> V r c)"
  then obtain r c where "r < 4 \<and> c < 4 \<and> Z (r, c) = 0 \<or> r < 4 \<and> c < 3 \<and> H r c \<or> c < 4 \<and> r < 3 \<and> V r c"
    by blast
  then have "r < 4 \<and> c < 4 \<and> (Z (r, c) = 0 \<or> (c < 3 \<and> H r c) \<or> (r < 3 \<and> V r c))"
    by auto
  then show "\<exists>r<4. \<exists>c<4. Z (r, c) = 0 \<or> (c < 3 \<and> H r c) \<or> (r < 3 \<and> V r c)"
    by blast
qed

lemma any_moves_cases:
  "any_moves b \<longleftrightarrow>
     (\<exists>p. in_board p \<and> cell_at b p = 0) \<or>
     (\<exists>i<4. pair_eq (get_line Dir_Left i b)) \<or> (\<exists>i<4. pair_eq (get_line Dir_Up i b))"
proof -
  have row: "pair_eq (get_line Dir_Left i b) \<longleftrightarrow>
      (\<exists>j<3. cell_at b (i, j) \<noteq> 0 \<and> cell_at b (i, j) = cell_at b (i, j + 1))" for i
    by (auto simp: pair_eq_def get_line_def)
  have col: "pair_eq (get_line Dir_Up i b) \<longleftrightarrow>
      (\<exists>j<3. cell_at b (j, i) \<noteq> 0 \<and> cell_at b (j, i) = cell_at b (j + 1, i))" for i
    by (auto simp: pair_eq_def get_line_def)
  have "any_moves b \<longleftrightarrow>
      (\<exists>r<4. \<exists>c<4. cell_at b (r, c) = 0 \<or> (c < 3 \<and> cell_at b (r, c) = cell_at b (r, c + 1)) \<or>
         (r < 3 \<and> cell_at b (r, c) = cell_at b (r + 1, c)))"
    by (auto simp: any_moves_def list_ex_iff all_cells_set in_board_def)
  also have "\<dots> \<longleftrightarrow> (\<exists>r<4. \<exists>c<4. cell_at b (r, c) = 0) \<or>
      (\<exists>r<4. \<exists>c<3. cell_at b (r, c) \<noteq> 0 \<and> cell_at b (r, c) = cell_at b (r, c + 1)) \<or>
      (\<exists>c<4. \<exists>r<3. cell_at b (r, c) \<noteq> 0 \<and> cell_at b (r, c) = cell_at b (r + 1, c))"
    by (rule ex_cells)
  finally show ?thesis unfolding row col by (auto simp: in_board_def)
qed

lemma get_line_rev:
  "get_line Dir_Right i b = rev (get_line Dir_Left i b)" "get_line Dir_Down i b = rev (get_line Dir_Up i b)"
  by (simp_all add: get_line_def upt4)

lemma set_get_line: "set (get_line d i b) = (\<lambda>j. cell_at b (line_pos d i j)) ` {..<4}"
  by (auto simp: get_line_def atLeast0LessThan)

lemma some_line_mixed:
  assumes "in_board p" "cell_at b p = 0" "in_board q" "cell_at b q \<noteq> 0"
  shows "(\<exists>i<4. mixed (get_line Dir_Left i b)) \<or> (\<exists>i<4. mixed (get_line Dir_Up i b))"
proof (rule disjCI)
  assume no: "\<not> (\<exists>i<4. mixed (get_line Dir_Up i b))"
  obtain r c r' c' where pq: "p = (r, c)" "q = (r', c')" by (cases p; cases q)
  then have b: "r < 4" "c < 4" "r' < 4" "c' < 4" using assms by (simp_all add: in_board_def)
  have "0 \<in> set (get_line Dir_Up c b)" using assms(2) pq b by (force simp: set_get_line)
  then have "\<forall>x\<in>set (get_line Dir_Up c b). x = 0" using no b(2) by (auto simp: mixed_def)
  then have "cell_at b (r', c) = 0" using b by (simp add: set_get_line)
  then have "0 \<in> set (get_line Dir_Left r' b)" using b by (force simp: set_get_line)
  moreover have "cell_at b q \<in> set (get_line Dir_Left r' b)" using pq b by (force simp: set_get_line)
  ultimately show "\<exists>i<4. mixed (get_line Dir_Left i b)" using assms(4) b(3) by (auto simp: mixed_def)
qed

lemma stuck_iff:
  assumes b: "board_ok (cell g)" and t: "in_board p" "cell_at (cell g) p \<noteq> 0"
  shows "any_moves (cell g) \<longleftrightarrow> (\<exists>d. snd (slide d g))"
proof -
  let ?b = "cell g"
  have m: "snd (slide d g) \<longleftrightarrow> (\<exists>i<4. ref_line (get_line d i ?b) \<noteq> get_line d i ?b)" for d
    using slide_lines(5)[OF b, of d] by (cases "slide d g") simp
  have lr: "snd (slide Dir_Left g) \<or> snd (slide Dir_Right g) \<longleftrightarrow>
      (\<exists>i<4. mixed (get_line Dir_Left i ?b) \<or> pair_eq (get_line Dir_Left i ?b))"
    unfolding m get_line_rev using line_moves_iff[of "get_line Dir_Left _ ?b"] by auto
  have ud: "snd (slide Dir_Up g) \<or> snd (slide Dir_Down g) \<longleftrightarrow>
      (\<exists>i<4. mixed (get_line Dir_Up i ?b) \<or> pair_eq (get_line Dir_Up i ?b))"
    unfolding m get_line_rev using line_moves_iff[of "get_line Dir_Up _ ?b"] by auto
  have "(\<exists>d. snd (slide d g)) \<longleftrightarrow> (snd (slide Dir_Left g) \<or> snd (slide Dir_Right g)) \<or>
      (snd (slide Dir_Up g) \<or> snd (slide Dir_Down g))"
    by (metis dir.exhaust)
  also have "\<dots> \<longleftrightarrow> any_moves ?b"
  proof
    assume "(snd (slide Dir_Left g) \<or> snd (slide Dir_Right g)) \<or> (snd (slide Dir_Up g) \<or> snd (slide Dir_Down g))"
    moreover have "\<exists>q. in_board q \<and> cell_at ?b q = 0" if "mixed (get_line d i ?b)" "i < 4" for d i
    proof -
      have "0 \<in> (\<lambda>j. cell_at ?b (line_pos d i j)) ` {..<4}"
        using that(1) by (simp only: mixed_def set_get_line)
      then obtain j where "j < 4" "cell_at ?b (line_pos d i j) = 0" by (auto elim!: imageE)
      then show ?thesis using line_pos_in_board[OF that(2)] by blast
    qed
    ultimately show "any_moves ?b" unfolding lr ud any_moves_cases by blast
  next
    assume "any_moves ?b"
    then show "(snd (slide Dir_Left g) \<or> snd (slide Dir_Right g)) \<or> (snd (slide Dir_Up g) \<or> snd (slide Dir_Down g))"
      unfolding lr ud any_moves_cases using some_line_mixed[OF _ _ t] by blast
  qed
  finally show ?thesis by blast
qed

section \<open>Sums over the board\<close>

definition board_total :: "(nat \<Rightarrow> nat) \<Rightarrow> nat list list \<Rightarrow> nat" where
  "board_total f b = (\<Sum>p\<in>set all_cells. f (cell_at b p))"

lemma board_total_lines: "board_total f b = (\<Sum>i<4. sum_list (map f (get_line d i b)))"
proof -
  have all: "set all_cells = (\<lambda>(i, j). line_pos d i j) ` ({..<4} \<times> {..<4})"
  proof -
    have "p \<in> set all_cells \<longleftrightarrow> p \<in> (\<lambda>(i, j). line_pos d i j) ` ({..<4} \<times> {..<4})" for p
      using in_board_line[of p d] by (auto simp: all_cells_set)
    then show ?thesis by blast
  qed
  have inj: "inj_on (\<lambda>(i, j). line_pos d i j) ({..<4} \<times> {..<4})"
    by (auto simp: inj_on_def)
  have "board_total f b = (\<Sum>(i, j)\<in>{..<4} \<times> {..<4}. f (cell_at b (line_pos d i j)))"
    unfolding board_total_def all by (subst sum.reindex[OF inj]) (simp add: case_prod_beta)
  also have "\<dots> = (\<Sum>i<4. \<Sum>j<4. f (cell_at b (line_pos d i j)))"
    by (rule sum.cartesian_product[symmetric])
  also have "\<dots> = (\<Sum>i<4. sum_list (map f (get_line d i b)))"
    by (simp add: get_line_def upt4 numeral_eq_Suc)
  finally show ?thesis .
qed

lemma board_total_set:
  assumes "board_ok b" "in_board p" "cell_at b p = 0" "f 0 = 0"
  shows "board_total f (set_cell b p v) = board_total f b + f v"
proof -
  have p: "p \<in> set all_cells" using assms(2) by (simp add: all_cells_set)
  have c: "cell_at (set_cell b p v) q = (if q = p then v else cell_at b q)" if "q \<in> set all_cells" for q
    using that cell_at_set_cell[OF assms(1,2)] by (simp add: all_cells_set)
  have "board_total f (set_cell b p v) = (\<Sum>q\<in>set all_cells. f (if q = p then v else cell_at b q))"
    unfolding board_total_def by (rule sum.cong) (simp_all add: c)
  also have "\<dots> = f v + (\<Sum>q\<in>set all_cells - {p}. f (cell_at b q))"
    using p by (subst sum.remove[of _ p]) (auto intro!: sum.cong)
  also have "(\<Sum>q\<in>set all_cells - {p}. f (cell_at b q)) = board_total f b"
    unfolding board_total_def using p assms(3,4) by (subst (2) sum.remove[of _ p]) auto
  finally show ?thesis by simp
qed

text \<open>The score a tile is worth when it was merged from twos.\<close>

definition tile_score :: "nat \<Rightarrow> nat" where
  "tile_score e = (if e = 0 then 0 else (e - 1) * 2 ^ e)"

lemma merge_tiles_score:
  "0 \<notin> set xs \<Longrightarrow>
     sum_list (map tile_score (merge_tiles xs)) = sum_list (map tile_score xs) + merge_gain xs"
proof (induction xs rule: merge_tiles.induct)
  case (1 a b xs)
  show ?case
  proof (cases "a = b")
    case True
    obtain e where "a = Suc e" using 1 by (cases a) auto
    then have "tile_score (a + 1) = 2 * tile_score a + 2 ^ (a + 1)"
      by (simp add: tile_score_def algebra_simps)
    then show ?thesis using 1 True by simp
  next
    case False
    then show ?thesis using 1 by simp
  qed
qed simp_all

lemma ref_line_score:
  "sum_list (map tile_score (ref_line line)) =
     sum_list (map tile_score line) + merge_gain (filter (\<lambda>x. x \<noteq> 0) line)"
proof -
  have "sum_list (map tile_score (filter (\<lambda>x. x \<noteq> 0) line)) = sum_list (map tile_score line)"
    by (induction line) (auto simp: tile_score_def)
  then show ?thesis
    using merge_tiles_score[of "filter (\<lambda>x. x \<noteq> 0) line"]
    by (simp add: ref_line_def Let_def tile_score_def[of 0] sum_list_replicate)
qed

lemma slide_totals:
  assumes "board_ok (cell g)" "slide d g = (g', moved)"
  shows "board_total tile_value (cell g') = board_total tile_value (cell g)"
    "board_total tile_score (cell g') + score g = board_total tile_score (cell g) + score g'"
proof -
  note l = slide_lines[OF assms]
  show "board_total tile_value (cell g') = board_total tile_value (cell g)"
    using l(4) ref_line_sum by (simp add: board_total_lines[of _ _ d] line_sum_def)
  have "board_total tile_score (cell g') =
      (\<Sum>i<4. sum_list (map tile_score (get_line d i (cell g))) +
        merge_gain (filter (\<lambda>x. x \<noteq> 0) (get_line d i (cell g))))"
    using l(4) ref_line_score by (simp add: board_total_lines[of _ _ d])
  then show "board_total tile_score (cell g') + score g = board_total tile_score (cell g) + score g'"
    using l(6) by (simp add: board_total_lines[of _ "cell g" d] sum.distrib)
qed

section \<open>Sessions\<close>

text \<open>n tiles spawned since the start, k of them fours.\<close>

definition game_inv :: "nat \<Rightarrow> g2048 \<Rightarrow> bool" where
  "game_inv n g \<longleftrightarrow>
     board_ok (cell g) \<and>
     (\<exists>k\<le>n. board_total tile_value (cell g) = 2 * n + 2 * k \<and>
        score g + 4 * k = board_total tile_score (cell g))"

lemma spawn_inv:
  assumes "rng_ok rng" "game_inv n g" "spawn_tile rng g w = (g', w')"
  shows "(cell g' = cell g \<and> game_inv n g') \<or> game_inv (Suc n) g'"
proof (cases "free_cells (cell g) = []")
  case True
  then show ?thesis using assms(2,3) by (simp add: spawn_tile_def Let_def)
next
  case False
  let ?free = "free_cells (cell g)"
  obtain k w1 where k: "rng (length ?free) w = (k, w1)" by fastforce
  obtain f w2 where f: "rng 10 w1 = (f, w2)" by fastforce
  define v :: nat where "v = (if f = 0 then 2 else 1)"
  have g': "g' = g\<lparr> cell := set_cell (cell g) (?free ! k) v \<rparr>"
    using assms(3) False k f by (simp add: spawn_tile_def Let_def v_def)
  have "k < length ?free" using assms(1) k False by (metis fst_conv length_greater_0_conv rng_ok_def)
  then have "?free ! k \<in> set ?free" by simp
  then have p: "in_board (?free ! k)" "cell_at (cell g) (?free ! k) = 0"
    using all_cells_set by (auto simp: free_cells_def)
  have b: "board_ok (cell g)" using assms(2) by (simp add: game_inv_def)
  have t: "board_total h (set_cell (cell g) (?free ! k) v) = board_total h (cell g) + h v"
    if "h 0 = 0" for h using board_total_set[of "cell g" "?free ! k" h v] b p that by simp
  obtain m where m: "m \<le> n" "board_total tile_value (cell g) = 2 * n + 2 * m"
    "score g + 4 * m = board_total tile_score (cell g)" using assms(2) by (auto simp: game_inv_def)
  have "game_inv (Suc n) g'"
  proof (cases "f = 0")
    case True
    then show ?thesis using g' m t b set_cell_ok
      by (auto simp: game_inv_def v_def tile_value_def tile_score_def intro!: exI[of _ "Suc m"])
  next
    case False
    then show ?thesis using g' m t b set_cell_ok
      by (auto simp: game_inv_def v_def tile_value_def tile_score_def intro!: exI[of _ m])
  qed
  then show ?thesis by simp
qed

lemma spawn_inv_le:
  "rng_ok rng \<Longrightarrow> game_inv n g \<Longrightarrow> spawn_tile rng g w = (g', w') \<Longrightarrow> \<exists>m\<le>Suc n. game_inv m g'"
proof -
  assume a: "rng_ok rng" "game_inv n g" "spawn_tile rng g w = (g', w')"
  from spawn_inv[OF a] consider "game_inv n g'" | "game_inv (Suc n) g'" by blast
  then show ?thesis by cases (auto intro: exI[of _ n])
qed

lemma reset_inv:
  assumes "rng_ok rng" "reset_game rng w = (g, w')"
  shows "\<exists>m\<le>2. game_inv m g"
proof -
  obtain g1 w1 where 1: "spawn_tile rng blank_game w = (g1, w1)" by fastforce
  then have 2: "spawn_tile rng g1 w1 = (g, w')" using assms(2) by (simp add: reset_game_def)
  have "board_total h (cell blank_game) = 0" if "h 0 = 0" for h
    unfolding board_total_def
    by (rule sum.neutral) (auto simp: all_cells_set blank_game_def cell_at_def in_board_def that)
  moreover have "board_ok (cell blank_game)" by (simp add: board_ok_def blank_game_def)
  ultimately have "game_inv 0 blank_game"
    by (simp add: game_inv_def tile_value_def tile_score_def blank_game_def)
  then obtain m where m: "m \<le> Suc 0" "game_inv m g1" using spawn_inv_le[OF assms(1) _ 1] by blast
  then obtain k where "k \<le> Suc m" "game_inv k g" using spawn_inv_le[OF assms(1) m(2) 2] by blast
  then show ?thesis using m(1) by (intro exI[of _ k]) simp
qed

lemma game_inv_fields [simp]:
  "game_inv n (g\<lparr> won_shown := x \<rparr>) = game_inv n g" "game_inv n (g\<lparr> game_over := x \<rparr>) = game_inv n g"
  by (simp_all add: game_inv_def)

lemma slide_inv:
  assumes "game_inv n g" "slide d g = (g', moved)"
  shows "game_inv n g'"
proof -
  have b: "board_ok (cell g)" using assms(1) by (simp add: game_inv_def)
  obtain k where k: "k \<le> n" "board_total tile_value (cell g) = 2 * n + 2 * k"
    "score g + 4 * k = board_total tile_score (cell g)" using assms(1) by (auto simp: game_inv_def)
  then show ?thesis
    using slide_totals[OF b assms(2)] slide_lines(1)[OF b assms(2)]
    by (auto simp: game_inv_def intro!: exI[of _ k])
qed

fun turn_game :: "'w turn \<Rightarrow> g2048" where
  "turn_game (Turn_Go g kv w) = g"
| "turn_game (Turn_Quit g kv) = g"

lemma turn_bound:
  assumes "rng_ok rng" "game_inv n g" "2 \<le> n + j"
  shows "\<exists>m\<le>n + j + 1. game_inv m (turn_game (play_turn rng key action back_out g kv w))"
proof (cases key)
  case (K_Slide d)
  obtain g1 moved where s: "slide d g = (g1, moved)" by fastforce
  obtain g2 w2 where sp: "spawn_tile rng g1 w = (g2, w2)" by fastforce
  have i1: "game_inv n g1" using slide_inv[OF assms(2) s] .
  obtain m where "m \<le> Suc n" "game_inv m g2" using spawn_inv_le[OF assms(1) i1 sp] by blast
  then show ?thesis using i1 K_Slide s sp
    by (cases moved) (auto simp: play_turn_def Let_def intro: exI[of _ n] exI[of _ m])
next
  case K_Long
  obtain g1 w1 where r: "reset_game rng w = (g1, w1)" by fastforce
  obtain m where "m \<le> 2" "game_inv m g1" using reset_inv[OF assms(1) r] by blast
  then show ?thesis using K_Long assms r
    by (auto simp: play_turn_def intro: exI[of _ n] exI[of _ m])
next
  case K_Other
  then show ?thesis using assms by (auto simp: play_turn_def intro: exI[of _ n])
qed

lemma session_inv:
  "rng_ok rng \<Longrightarrow> game_inv n g \<Longrightarrow> 2 \<le> n + j \<Longrightarrow>
     \<exists>m\<le>n + j + length ins. game_inv m (turn_game (play_session rng ins g kv w))"
proof (induction ins arbitrary: n j g kv w)
  case Nil
  then show ?case by (subst play_session.simps) (auto intro: exI[of _ n])
next
  case (Cons i ins)
  obtain key action back_out where i: "i = (key, action, back_out)" by (cases i)
  show ?case
  proof (cases "game_over g")
    case True
    then show ?thesis using Cons.prems by (subst play_session.simps) (auto intro: exI[of _ n])
  next
    case False
    let ?t = "play_turn rng key action back_out g kv w"
    obtain m where m: "m \<le> n + j + 1" "game_inv m (turn_game ?t)"
      using turn_bound[OF Cons.prems, of key action back_out kv w] by blast
    show ?thesis
    proof (cases ?t)
      case (Turn_Go g' kv' w')
      have "2 \<le> m + (n + j + 1 - m)" using Cons.prems(3) m(1) by simp
      from Cons.IH[OF Cons.prems(1) _ this, of g' kv' w'] m Turn_Go
      show ?thesis using False i by (subst play_session.simps) simp
    next
      case (Turn_Quit g' kv')
      then show ?thesis using False i m by (subst play_session.simps) (auto intro: exI[of _ m])
    qed
  qed
qed

section \<open>Properties\<close>

text \<open>C38: a slide is the reference slide: in its direction every line becomes its tiles with the
  zeros taken out and equal neighbours merged once from the front, the score grows by
  the merged tiles, and it reports a move exactly when the board changed.\<close>

theorem slide_is_reference:
  assumes "board_ok (cell g)" "slide d g = (g', moved)"
  shows "(\<forall>i<4. get_line d i (cell g') =
        (let m = merge_tiles (filter (\<lambda>x. x \<noteq> 0) (get_line d i (cell g)))
         in m @ replicate (4 - length m) 0)) \<and>
     score g' = score g + (\<Sum>i<4. merge_gain (filter (\<lambda>x. x \<noteq> 0) (get_line d i (cell g)))) \<and>
     (moved \<longleftrightarrow> cell g' \<noteq> cell g)"
  using slide_lines(4,6)[OF assms] slide_moved_iff[OF assms] by (simp add: ref_line_def)

lemma example_slide:
  "slide Dir_Left (blank_game\<lparr> cell := [[1, 0, 1, 1], [0, 0, 0, 0], [2, 2, 2, 2], [3, 0, 0, 0]] \<rparr>) =
     (blank_game\<lparr> cell := [[2, 1, 0, 0], [0, 0, 0, 0], [3, 3, 0, 0], [3, 0, 0, 0]],
        score := 20, max_exp := 3 \<rparr>, True)"
  by code_simp

lemma example_board: "board_ok [[1, 0, 1, 1], [0, 0, 0, 0], [2, 2, 2, 2], [3, 0, 0, 0]]"
  by (simp add: board_ok_def numeral_eq_Suc All_less_Suc)

theorem slide_is_reference_witness:
  "merge_gain [1, 1, 1] + (merge_gain [2, 2, 2, 2] + merge_gain [3]) = 20"
  using slide_is_reference[OF _ example_slide] example_board
  by (simp add: get_line_def upt4 cell_at_def numeral_eq_Suc blank_game_def)

text \<open>the check for the end of the game is exact: on a board with a tile, some move is
  reported possible exactly when sliding in some direction changes the board.\<close>

theorem game_over_exact:
  assumes "board_ok (cell g)" "r < 4" "c < 4" "cell g ! r ! c \<noteq> 0"
  shows "any_moves (cell g) \<longleftrightarrow> (\<exists>d. cell (fst (slide d g)) \<noteq> cell g)"
proof -
  have "in_board (r, c)" "cell_at (cell g) (r, c) \<noteq> 0"
    using assms by (simp_all add: in_board_def cell_at_def)
  from stuck_iff[OF assms(1) this] show ?thesis
    using slide_moved_iff[OF assms(1)] by (metis prod.collapse)
qed

theorem game_over_exact_witness:
  "\<exists>d. cell (fst (slide d (blank_game\<lparr> cell := [[1, 0, 1, 1], [0, 0, 0, 0], [2, 2, 2, 2], [3, 0, 0, 0]] \<rparr>))) \<noteq>
     [[1, 0, 1, 1], [0, 0, 0, 0], [2, 2, 2, 2], [3, 0, 0, 0]]"
  using game_over_exact[of "blank_game\<lparr> cell := [[1, 0, 1, 1], [0, 0, 0, 0], [2, 2, 2, 2], [3, 0, 0, 0]] \<rparr>" 0 0]
    example_board by (simp add: any_moves_def all_cells_def cell_at_def upt4)

text \<open>the books of a session balance: after any rounds (moves, restarts, quitting) the
  board is well formed, its tiles sum up to the spawned twos and fours, and the score
  is exactly what its tiles are worth merged from twos, less four for every spawned
  four; so no tile exceeds four times the number of spawns.\<close>

theorem session_balance:
  assumes "\<forall>n w. 0 < n \<longrightarrow> fst (rng n w) < n"
    and "reset_game rng w = (g, w')"
  shows "\<exists>n k. n \<le> 2 + length ins \<and> k \<le> n \<and>
     (let e = turn_game (play_session rng ins g kv w') in
        board_ok (cell e) \<and>
        board_total tile_value (cell e) = 2 * n + 2 * k \<and>
        score e + 4 * k = board_total tile_score (cell e))"
proof -
  have r: "rng_ok rng" using assms(1) by (simp add: rng_ok_def)
  obtain m where m: "m \<le> 2" "game_inv m g" using reset_inv[OF r assms(2)] by blast
  have "2 \<le> m + (2 - m)" by simp
  from session_inv[OF r m(2) this, of ins kv w'] obtain n where
    "n \<le> 2 + length ins" "game_inv n (turn_game (play_session rng ins g kv w'))" using m(1) by auto
  then show ?thesis by (auto simp: game_inv_def Let_def)
qed

theorem session_balance_witness:
  "\<exists>n k. n \<le> 3 \<and> k \<le> n \<and>
     board_total tile_value (cell (turn_game (play_session (\<lambda>n w. (0, w)) [(K_Slide Dir_Down, 0, False)]
       (fst (reset_game (\<lambda>n w. (0, w)) ())) \<lparr> kv_hs = 0, kv_tile = 0 \<rparr> ()))) = 2 * n + 2 * k"
proof -
  let ?rng = "\<lambda>n w :: unit. (0 :: nat, w)"
  obtain n k where "n \<le> 2 + length [(K_Slide Dir_Down, 0 :: nat, False)]" "k \<le> n"
    "board_total tile_value (cell (turn_game (play_session ?rng [(K_Slide Dir_Down, 0, False)]
       (fst (reset_game ?rng ())) \<lparr> kv_hs = 0, kv_tile = 0 \<rparr> ()))) = 2 * n + 2 * k"
    using session_balance[of ?rng "()" "fst (reset_game ?rng ())" "()" "[(K_Slide Dir_Down, 0, False)]"
        "\<lparr> kv_hs = 0, kv_tile = 0 \<rparr>"]
    by (auto simp: Let_def prod_eq_iff)
  then show ?thesis by (intro exI[of _ n] exI[of _ k]) simp
qed

end
