(* ===== verification/Tetris.thy ===== *)
theory Tetris
  imports Games "HOL-Library.While_Combinator"
begin

unbundle bit_operations_syntax

text \<open>
  src/apps/games/src/mod/tetris.c: the board, the seven-piece bag, collision, locking and
  line clearing, the keys and the falling clock of a session. A row is a 16-bit word
  whose bit c is column c, the piece masks are those of the code. Drawing and sound are
  left out. The hard drop is a loop whose end depends on the piece, so it is a
  while_option; clearing restarts at the row it removed.
\<close>

section \<open>Pieces and collision\<close>

definition BW :: nat where "BW = 10"
definition BH :: nat where "BH = 20"
definition TICK_MS :: nat where "TICK_MS = 33"

definition k_pieces :: "16 word list list" where
  "k_pieces =
     [[0x0F00, 0x2222, 0x00F0, 0x4444],
      [0x8E00, 0x6440, 0x0E20, 0x44C0],
      [0x2E00, 0x4460, 0x0E80, 0xC440],
      [0x6600, 0x6600, 0x6600, 0x6600],
      [0x6C00, 0x4620, 0x06C0, 0x8C40],
      [0x4E00, 0x4640, 0x0E40, 0x4C40],
      [0xC600, 0x2640, 0x0C60, 0x4C80]]"

record tetris =
  t_board :: "16 word list"
  t_type :: nat
  t_rot :: nat
  t_x :: int
  t_y :: int
  t_next_type :: nat
  t_bag :: "nat list"
  t_bag_pos :: nat
  t_score :: nat
  t_lines :: nat
  t_level :: nat
  t_game_over :: bool
  t_rotated :: bool

text \<open>The rows and columns of a mask that are set, in the order of the code's loops.\<close>

definition piece_cells :: "nat \<Rightarrow> nat \<Rightarrow> (nat \<times> nat) list" where
  "piece_cells type rot =
     filter (\<lambda>(r, c). (k_pieces ! type ! rot) AND drop_bit (r * 4 + c) 0x8000 \<noteq> 0)
       (List.product [0..<4] [0..<4])"

definition collides :: "16 word list \<Rightarrow> nat \<Rightarrow> nat \<Rightarrow> int \<Rightarrow> int \<Rightarrow> bool" where
  "collides b type rot x y \<longleftrightarrow>
     list_ex (\<lambda>(r, c).
       let bx = x + int c; yy = y + int r
       in bx < 0 \<or> bx \<ge> int BW \<or> yy \<ge> int BH \<or> (yy \<ge> 0 \<and> bit (b ! nat yy) (nat bx)))
       (piece_cells type rot)"

section \<open>The bag\<close>

definition swap :: "nat list \<Rightarrow> nat \<Rightarrow> nat \<Rightarrow> nat list" where
  "swap xs i j = xs[i := xs ! j, j := xs ! i]"

fun shuffle :: "'w rng \<Rightarrow> nat \<Rightarrow> nat list \<Rightarrow> 'w \<Rightarrow> nat list \<times> 'w" where
  "shuffle rng 0 bag w = (bag, w)"
| "shuffle rng (Suc i) bag w =
     (let (j, w) = rng (Suc i + 1) w in shuffle rng i (swap bag (Suc i) j) w)"

definition bag_next :: "'w rng \<Rightarrow> tetris \<Rightarrow> 'w \<Rightarrow> nat \<times> tetris \<times> 'w" where
  "bag_next rng g w =
     (let (g, w) =
        (if t_bag_pos g \<ge> 7 then
           (let (bag, w) = shuffle rng 6 [0..<7] w in (g\<lparr> t_bag := bag, t_bag_pos := 0 \<rparr>, w))
         else (g, w))
      in (t_bag g ! t_bag_pos g, g\<lparr> t_bag_pos := t_bag_pos g + 1 \<rparr>, w))"

definition spawn :: "'w rng \<Rightarrow> tetris \<Rightarrow> 'w \<Rightarrow> tetris \<times> 'w" where
  "spawn rng g w =
     (let g = g\<lparr> t_type := t_next_type g \<rparr>;
          (n, g, w) = bag_next rng g w;
          g = g\<lparr> t_next_type := n, t_rot := 0, t_x := 3, t_y := - 1 \<rparr>
      in (if collides (t_board g) (t_type g) (t_rot g) (t_x g) (t_y g)
          then g\<lparr> t_game_over := True \<rparr> else g, w))"

section \<open>Locking\<close>

definition place_cell :: "int \<Rightarrow> int \<Rightarrow> 16 word list \<Rightarrow> nat \<times> nat \<Rightarrow> 16 word list" where
  "place_cell x y b rc =
     (let yy = y + int (fst rc)
      in if yy \<ge> 0 \<and> yy < int BH
         then b[nat yy := b ! nat yy OR push_bit (nat (x + int (snd rc))) 1] else b)"

definition place_piece :: "16 word list \<Rightarrow> nat \<Rightarrow> nat \<Rightarrow> int \<Rightarrow> int \<Rightarrow> 16 word list" where
  "place_piece b type rot x y = foldl (place_cell x y) b (piece_cells type rot)"

definition FULL_ROW :: "16 word" where
  "FULL_ROW = push_bit BW 1 - 1"

text \<open>The rows above a removed row move down by one.\<close>

definition shift_down :: "16 word list \<Rightarrow> nat \<Rightarrow> 16 word list" where
  "shift_down b row = (foldl (\<lambda>b r. b[r := b ! (r - 1)]) b (rev [1..<row + 1]))[0 := 0]"

text \<open>The loop from row n - 1 down; the row is looked at again after a removal.\<close>

function clear_loop :: "16 word list \<Rightarrow> nat \<Rightarrow> nat \<Rightarrow> 16 word list \<times> nat" where
  "clear_loop b 0 cleared = (b, cleared)"
| "clear_loop b (Suc row) cleared =
     (if row < length b \<and> b ! row = FULL_ROW then clear_loop (shift_down b row) (Suc row) (cleared + 1)
      else clear_loop b row cleared)"
  by pat_completeness auto

lemma FULL_ROW_eq: "FULL_ROW = mask 10"
  by (simp add: FULL_ROW_def BW_def mask_eq_exp_minus_1)

lemma FULL_ROW_nonzero: "FULL_ROW \<noteq> 0"
  by (simp add: FULL_ROW_def BW_def)

lemma shift_fold:
  "row < length b \<Longrightarrow>
     foldl (\<lambda>b r. b[r := b ! (r - 1)]) b (rev [1..<row + 1]) = hd b # take row b @ drop (row + 1) b"
proof (induction row arbitrary: b)
  case 0
  then show ?case by (cases b) simp_all
next
  case (Suc row)
  let ?b = "b[Suc row := b ! row]"
  have "foldl (\<lambda>b r. b[r := b ! (r - 1)]) b (rev [1..<Suc row + 1]) =
      foldl (\<lambda>b r. b[r := b ! (r - 1)]) ?b (rev [1..<row + 1])" by simp
  also have "\<dots> = hd ?b # take row ?b @ drop (row + 1) ?b"
    using Suc.prems by (intro Suc.IH) simp
  also have "\<dots> = hd b # take (Suc row) b @ drop (Suc row + 1) b"
  proof -
    have "hd ?b = hd b" using Suc.prems by (cases b) simp_all
    moreover have "drop (row + 1) ?b = b ! row # drop (Suc row + 1) b"
      using Suc.prems by (subst Cons_nth_drop_Suc[symmetric]) simp_all
    moreover have "take row ?b @ [b ! row] = take (Suc row) b"
      using Suc.prems by (simp add: take_Suc_conv_app_nth)
    ultimately show ?thesis by simp
  qed
  finally show ?case .
qed

lemma shift_down_eq: "row < length b \<Longrightarrow> shift_down b row = 0 # take row b @ drop (row + 1) b"
  using shift_fold[of row b] by (simp add: shift_down_def)

termination clear_loop
proof (relation "measure (\<lambda>(b, n, _). length (filter (\<lambda>r. r = FULL_ROW) (take n b)) + n)", goal_cases)
  case (2 b row cleared)
  then have r: "row < length b" "b ! row = FULL_ROW" by simp_all
  have "take (Suc row) (shift_down b row) = 0 # take row b" using r by (simp add: shift_down_eq)
  moreover have "take (Suc row) b = take row b @ [FULL_ROW]"
    using r by (simp add: take_Suc_conv_app_nth)
  ultimately show ?case using FULL_ROW_nonzero by simp
next
  case (3 b row cleared)
  have "length (filter (\<lambda>r. r = FULL_ROW) (take row b)) \<le> length (filter (\<lambda>r. r = FULL_ROW) (take (Suc row) b))"
    by (cases "row < length b") (simp_all add: take_Suc_conv_app_nth)
  then show ?case by simp
qed simp

declare clear_loop.simps [simp del]

definition k_points :: "nat list" where
  "k_points = [0, 40, 100, 300, 1200]"

definition score_lines :: "nat \<Rightarrow> tetris \<Rightarrow> tetris" where
  "score_lines cleared g =
     (if cleared > 0 then
        let g = g\<lparr> t_score := t_score g + k_points ! cleared * (t_level g + 1),
                   t_lines := t_lines g + cleared \<rparr>;
            new_level = t_lines g div 10
        in if new_level > t_level g then g\<lparr> t_level := new_level \<rparr> else g
      else g)"

definition lock_piece :: "'w rng \<Rightarrow> tetris \<Rightarrow> 'w \<Rightarrow> tetris \<times> 'w" where
  "lock_piece rng g w =
     (let (b, cleared) =
        clear_loop (place_piece (t_board g) (t_type g) (t_rot g) (t_x g) (t_y g)) BH 0
      in spawn rng (score_lines cleared (g\<lparr> t_board := b \<rparr>)) w)"

section \<open>Input\<close>

definition hits :: "tetris \<Rightarrow> nat \<Rightarrow> int \<Rightarrow> int \<Rightarrow> bool" where
  "hits g rot dx dy \<longleftrightarrow> collides (t_board g) (t_type g) rot (t_x g + dx) (t_y g + dy)"

definition try_move :: "int \<Rightarrow> tetris \<Rightarrow> tetris" where
  "try_move dx g = (if \<not> hits g (t_rot g) dx 0 then g\<lparr> t_x := t_x g + dx \<rparr> else g)"

definition try_rotate :: "tetris \<Rightarrow> tetris" where
  "try_rotate g =
     (let rot = (t_rot g + 1) mod 4
      in case find (\<lambda>k. \<not> hits g rot k 0) [0, - 1, 1] of
           None \<Rightarrow> g
         | Some k \<Rightarrow> g\<lparr> t_rot := rot, t_x := t_x g + k \<rparr>)"

definition soft_drop :: "'w rng \<Rightarrow> tetris \<Rightarrow> 'w \<Rightarrow> tetris \<times> 'w" where
  "soft_drop rng g w =
     (if \<not> hits g (t_rot g) 0 1 then (g\<lparr> t_y := t_y g + 1, t_score := t_score g + 1 \<rparr>, w)
      else lock_piece rng g w)"

text \<open>None is a drop that does not end.\<close>

definition drop_loop :: "tetris \<Rightarrow> tetris option" where
  "drop_loop g =
     while_option (\<lambda>g. \<not> hits g (t_rot g) 0 1)
       (\<lambda>g. g\<lparr> t_y := t_y g + 1, t_score := t_score g + 2 \<rparr>) g"

definition hard_drop :: "'w rng \<Rightarrow> tetris \<Rightarrow> 'w \<Rightarrow> (tetris \<times> 'w) option" where
  "hard_drop rng g w = map_option (\<lambda>g. lock_piece rng g w) (drop_loop g)"

datatype t_key = T_Up | T_Down | T_Left | T_Right | T_Ok | T_Ok_Long | T_Other

text \<open>The answer says what the pause menu chose: 0 resume, 1 restart, 2 quit.\<close>

definition handle_key ::
  "'w rng \<Rightarrow> t_key \<Rightarrow> nat \<Rightarrow> tetris \<Rightarrow> 'w \<Rightarrow> (nat \<times> tetris \<times> 'w) option" where
  "handle_key rng key choice g w =
     (if key = T_Ok_Long then Some (choice, g, w)
      else
        map_option (Pair 0)
          (if t_rotated g then
             (case key of
                T_Up \<Rightarrow> Some (try_move 1 g, w)
              | T_Down \<Rightarrow> Some (try_move (- 1) g, w)
              | T_Left \<Rightarrow> hard_drop rng g w
              | T_Right \<Rightarrow> Some (soft_drop rng g w)
              | T_Ok \<Rightarrow> Some (try_rotate g, w)
              | _ \<Rightarrow> Some (g, w))
           else
             (case key of
                T_Left \<Rightarrow> Some (try_move (- 1) g, w)
              | T_Right \<Rightarrow> Some (try_move 1 g, w)
              | T_Up \<Rightarrow> hard_drop rng g w
              | T_Down \<Rightarrow> Some (soft_drop rng g w)
              | T_Ok \<Rightarrow> Some (try_rotate g, w)
              | _ \<Rightarrow> Some (g, w))))"

section \<open>Session\<close>

text \<open>The bag is empty at a reset (its position is behind the end).\<close>

definition t_reset_game :: "'w rng \<Rightarrow> bool \<Rightarrow> 'w \<Rightarrow> tetris \<times> 'w" where
  "t_reset_game rng rotated w =
     (let g = \<lparr> t_board = replicate BH 0, t_type = 0, t_rot = 0, t_x = 0, t_y = 0, t_next_type = 0,
               t_bag = replicate 7 0, t_bag_pos = 7, t_score = 0, t_lines = 0, t_level = 0,
               t_game_over = False, t_rotated = rotated \<rparr>;
          (n, g, w) = bag_next rng g w
      in spawn rng (g\<lparr> t_next_type := n \<rparr>) w)"

definition fall_interval :: "nat \<Rightarrow> nat" where
  "fall_interval level =
     (let interval = (if 800 > 70 * level then 800 - 70 * level else 120)
      in if interval < 120 then 120 else interval)"

definition t_tick :: "'w rng \<Rightarrow> tetris \<Rightarrow> nat \<Rightarrow> 'w \<Rightarrow> tetris \<times> nat \<times> 'w" where
  "t_tick rng g fall_acc w =
     (let fall_acc = fall_acc + TICK_MS
      in if fall_acc \<ge> fall_interval (t_level g) then
           (if \<not> hits g (t_rot g) 0 1 then (g\<lparr> t_y := t_y g + 1 \<rparr>, 0, w)
            else (let (g, w) = lock_piece rng g w in (g, 0, w)))
         else (g, fall_acc, w))"

text \<open>The record in the store is updated when the player quits from the pause menu and when
  the game is over.\<close>

definition t_save_score :: "tetris \<Rightarrow> nat \<Rightarrow> nat" where
  "t_save_score g best = (if t_score g > best then t_score g else best)"

text \<open>The events of a session: a key with the choice made if it opens the pause menu, and
  the end of a tick. The session ends when the game is over or on quitting; None is a
  session that hangs.\<close>

datatype t_event = Ev_Key t_key nat | Ev_Tick

fun t_session ::
  "'w rng \<Rightarrow> t_event list \<Rightarrow> tetris \<Rightarrow> nat \<Rightarrow> nat \<Rightarrow> 'w \<Rightarrow> (tetris \<times> nat \<times> 'w) option" where
  "t_session rng [] g fall_acc best w =
     Some (g, (if t_game_over g then t_save_score g best else best), w)"
| "t_session rng (ev # evs) g fall_acc best w =
     (if t_game_over g then Some (g, t_save_score g best, w)
      else
        case ev of
          Ev_Tick \<Rightarrow>
            (let (g, fall_acc, w) = t_tick rng g fall_acc w in t_session rng evs g fall_acc best w)
        | Ev_Key key choice \<Rightarrow>
            (case handle_key rng key choice g w of
               None \<Rightarrow> None
             | Some (action, g, w) \<Rightarrow>
                 if action = 1 then
                   (let (g, w) = t_reset_game rng (t_rotated g) w in t_session rng evs g 0 best w)
                 else if action = 2 then Some (g, t_save_score g best, w)
                 else t_session rng evs g fall_acc best w))"

section \<open>Clearing lines\<close>

lemma clear_loop_spec:
  "n \<le> length b \<Longrightarrow>
     clear_loop b n k =
       (let m = filter (\<lambda>r. r \<noteq> FULL_ROW) (take n b)
        in (replicate (n - length m) 0 @ m @ drop n b, k + (n - length m)))"
proof (induction b n k rule: clear_loop.induct)
  case (1 b k)
  then show ?case by (simp add: clear_loop.simps)
next
  case (2 b row k)
  then have row: "row < length b" by simp
  have le: "length (filter (\<lambda>r. r \<noteq> FULL_ROW) (take row b)) \<le> row"
    using length_filter_le[of "\<lambda>r. r \<noteq> FULL_ROW" "take row b"] by simp
  have t: "take (Suc row) b = take row b @ [b ! row]" using row by (simp add: take_Suc_conv_app_nth)
  show ?case
  proof (cases "b ! row = FULL_ROW")
    case True
    let ?m = "filter (\<lambda>r. r \<noteq> FULL_ROW) (take row b)"
    have s: "shift_down b row = 0 # take row b @ drop (Suc row) b" using row by (simp add: shift_down_eq)
    have "clear_loop b (Suc row) k = clear_loop (shift_down b row) (Suc row) (k + 1)"
      using row True by (simp add: clear_loop.simps)
    also have "\<dots> = (replicate (row - length ?m) 0 @ (0 # ?m) @ drop (Suc row) b, k + 1 + (row - length ?m))"
      using 2(1)[OF _ _] row True FULL_ROW_nonzero by (simp add: s Let_def)
    also have "\<dots> = (replicate (Suc row - length ?m) 0 @ ?m @ drop (Suc row) b, k + (Suc row - length ?m))"
      using le by (simp add: Suc_diff_le replicate_append_same[symmetric])
    finally show ?thesis by (simp add: Let_def t True)
  next
    case False
    then show ?thesis
      using 2(2) row le t by (simp add: clear_loop.simps Let_def Cons_nth_drop_Suc)
  qed
qed

section \<open>Pieces on the board\<close>

lemma piece_table:
  "list_all (\<lambda>t. list_all (\<lambda>r. length (piece_cells t r) = 4) [0..<4]) [0..<7]"
  by code_simp

lemma piece_cells_length: "t < 7 \<Longrightarrow> rot < 4 \<Longrightarrow> length (piece_cells t rot) = 4"
  using piece_table by (simp only: list_all_iff set_upt) auto

lemma piece_cells_range: "(r, c) \<in> set (piece_cells t rot) \<Longrightarrow> r < 4 \<and> c < 4"
  by (auto simp: piece_cells_def)

lemma not_collides:
  "\<not> collides b t rot x y \<Longrightarrow> (r, c) \<in> set (piece_cells t rot) \<Longrightarrow>
     0 \<le> x + int c \<and> x + int c < 10 \<and> y + int r < 20 \<and>
     (0 \<le> y + int r \<longrightarrow> \<not> bit (b ! nat (y + int r)) (nat (x + int c)))"
  by (fastforce simp: collides_def list_ex_iff Let_def BW_def BH_def)

definition rows_ok :: "16 word list \<Rightarrow> bool" where
  "rows_ok b \<longleftrightarrow> length b = 20 \<and> (\<forall>row\<in>set b. \<forall>n\<ge>10. \<not> bit row n)"

lemma place_fold:
  "length b = 20 \<Longrightarrow> \<forall>(r, c)\<in>set cs. 0 \<le> x + int c \<and> x + int c < 10 \<Longrightarrow> i < 20 \<Longrightarrow>
     length (foldl (place_cell x y) b cs) = 20 \<and>
     (bit (foldl (place_cell x y) b cs ! i) n \<longleftrightarrow>
        bit (b ! i) n \<or> (\<exists>(r, c)\<in>set cs. int i = y + int r \<and> int n = x + int c))"
proof (induction cs arbitrary: b)
  case (Cons rc cs)
  obtain r c where rc: "rc = (r, c)" by (cases rc)
  have x: "0 \<le> x + int c" "x + int c < 10" using Cons.prems(2) rc by auto
  have len: "length (place_cell x y b rc) = 20" using Cons.prems(1) by (simp add: place_cell_def Let_def)
  have "bit (place_cell x y b rc ! i) n \<longleftrightarrow> bit (b ! i) n \<or> (int i = y + int r \<and> int n = x + int c)"
  proof (cases "int i = y + int r")
    case True
    then have "nat (y + int r) = i" "y + int r \<ge> 0" "y + int r < 20" using Cons.prems(3) by auto
    then show ?thesis using Cons.prems(1,3) x rc
      by (auto simp: place_cell_def Let_def BH_def bit_simps)
  next
    case False
    then have "\<not> (0 \<le> y + int r \<and> nat (y + int r) = i)" by auto
    then have "place_cell x y b rc ! i = b ! i"
      using rc by (auto simp: place_cell_def Let_def nth_list_update)
    then show ?thesis using False by simp
  qed
  then show ?case using Cons.IH[OF len] Cons.prems(2,3) rc by auto
qed simp

lemma place_piece_spec:
  assumes "rows_ok b" "\<not> collides b t rot x y" "i < 20"
  shows "length (place_piece b t rot x y) = 20"
    "bit (place_piece b t rot x y ! i) n \<longleftrightarrow>
       bit (b ! i) n \<or> (\<exists>(r, c)\<in>set (piece_cells t rot). int i = y + int r \<and> int n = x + int c)"
proof -
  have "\<forall>(r, c)\<in>set (piece_cells t rot). 0 \<le> x + int c \<and> x + int c < 10"
    using not_collides[OF assms(2)] by blast
  from place_fold[OF _ this assms(3), of b y n] assms(1)
  show "length (place_piece b t rot x y) = 20"
    "bit (place_piece b t rot x y ! i) n \<longleftrightarrow>
       bit (b ! i) n \<or> (\<exists>(r, c)\<in>set (piece_cells t rot). int i = y + int r \<and> int n = x + int c)"
    by (simp_all add: place_piece_def rows_ok_def)
qed

lemma place_piece_rows_ok:
  assumes "rows_ok b" "\<not> collides b t rot x y"
  shows "rows_ok (place_piece b t rot x y)"
proof -
  have len: "length (place_piece b t rot x y) = 20" using place_piece_spec(1)[OF assms, of 0] by simp
  have "\<not> bit (place_piece b t rot x y ! i) n" if "i < 20" "10 \<le> n" for i n
  proof -
    have "\<not> bit (b ! i) n" using assms(1) that by (auto simp: rows_ok_def)
    moreover have "\<not> (\<exists>(r, c)\<in>set (piece_cells t rot). int i = y + int r \<and> int n = x + int c)"
      using not_collides[OF assms(2)] that(2) by fastforce
    ultimately show ?thesis using place_piece_spec(2)[OF assms that(1)] by blast
  qed
  then show ?thesis using len by (auto simp: rows_ok_def in_set_conv_nth)
qed

text \<open>A piece completes at most four rows, so the points table is never read past its end.\<close>

lemma full_rows_le:
  assumes "rows_ok b" "\<not> collides b t rot x y" "FULL_ROW \<notin> set b"
  shows "length (filter (\<lambda>r. r = FULL_ROW) (place_piece b t rot x y)) \<le> 4"
proof -
  let ?p = "place_piece b t rot x y"
  have len: "length ?p = 20" using place_piece_spec(1)[OF assms(1,2), of 0] by simp
  have "{i. i < length ?p \<and> ?p ! i = FULL_ROW} \<subseteq> (\<lambda>r. nat (y + int r)) ` {..<4}"
  proof
    fix i assume "i \<in> {i. i < length ?p \<and> ?p ! i = FULL_ROW}"
    then have i: "i < 20" "?p ! i = FULL_ROW" using len by simp_all
    have "b ! i \<in> set b" using assms(1) i(1) by (simp add: rows_ok_def)
    then have "b ! i \<noteq> ?p ! i" using assms(3) i(2) by auto
    then obtain n where "bit (b ! i) n \<noteq> bit (?p ! i) n" by (metis bit_eq_iff)
    then obtain r c where "(r, c) \<in> set (piece_cells t rot)" "int i = y + int r"
      using place_piece_spec(2)[OF assms(1,2) i(1)] by blast
    then show "i \<in> (\<lambda>r. nat (y + int r)) ` {..<4}"
      using piece_cells_range by (intro image_eqI[of _ _ r]) auto
  qed
  then have "card {i. i < length ?p \<and> ?p ! i = FULL_ROW} \<le> card ((\<lambda>r. nat (y + int r)) ` {..<4 :: nat})"
    by (intro card_mono) simp_all
  also have "\<dots> \<le> 4" using card_image_le[of "{..<4 :: nat}"] by simp
  finally show ?thesis by (simp add: length_filter_conv_card)
qed

lemma filter_counts: "length xs - length (filter (\<lambda>r. r \<noteq> F) xs) = length (filter (\<lambda>r. r = F) xs)"
  using sum_length_filter_compl[of "\<lambda>r. r = F" xs] by simp

section \<open>The invariant of a session\<close>

definition bag_ok :: "tetris \<Rightarrow> bool" where
  "bag_ok g \<longleftrightarrow>
     length (t_bag g) = 7 \<and> t_bag_pos g \<le> 7 \<and> (t_bag_pos g < 7 \<longrightarrow> mset (t_bag g) = mset [0..<7])"

definition board_inv :: "tetris \<Rightarrow> bool" where
  "board_inv g \<longleftrightarrow> rows_ok (t_board g) \<and> FULL_ROW \<notin> set (t_board g)"

definition t_inv :: "tetris \<Rightarrow> bool" where
  "t_inv g \<longleftrightarrow>
     board_inv g \<and> bag_ok g \<and> t_type g < 7 \<and> t_next_type g < 7 \<and> t_rot g < 4 \<and>
     (t_game_over g \<or> \<not> collides (t_board g) (t_type g) (t_rot g) (t_x g) (t_y g))"

lemma shuffle_mset:
  "rng_ok rng \<Longrightarrow> i < length bag \<Longrightarrow> shuffle rng i bag w = (bag', w') \<Longrightarrow>
     mset bag' = mset bag \<and> length bag' = length bag"
proof (induction rng i bag w arbitrary: bag' rule: shuffle.induct)
  case (2 rng i bag w)
  obtain j w1 where j: "rng (Suc i + 1) w = (j, w1)" by fastforce
  have "j < length bag" using rng_okD[OF 2(2) j] 2(3) by simp
  then have m: "mset (swap bag (Suc i) j) = mset bag" "length (swap bag (Suc i) j) = length bag"
    using mset_swap[of j bag "Suc i"] 2(3) by (simp_all add: swap_def)
  have "shuffle rng i (swap bag (Suc i) j) w1 = (bag', w')" using 2(4) j by simp
  with 2(1)[OF j[symmetric] refl 2(2)] show ?case using m 2(3) by simp
qed simp

lemma bag_next_ok:
  assumes "rng_ok rng" "bag_ok g" "bag_next rng g w = (n, g', w')"
  shows "n < 7 \<and> bag_ok g' \<and> g' = g\<lparr> t_bag := t_bag g', t_bag_pos := t_bag_pos g' \<rparr>"
proof -
  have el: "b ! i < 7" if "mset b = mset [0..<7]" "i < 7" for b :: "nat list" and i
  proof -
    have "set b = {0..<7}" "length b = 7" using that(1) by (metis atLeast_upt mset_eq_setD set_upt, metis length_upt mset_eq_length diff_zero)
    then have "b ! i \<in> {0..<7}" using that(2) nth_mem[of i b] by metis
    then show ?thesis by simp
  qed
  show ?thesis
  proof (cases "t_bag_pos g \<ge> 7")
    case True
    obtain bag w1 where s: "shuffle rng 6 [0..<7] w = (bag, w1)" by fastforce
    then have m: "mset bag = mset [0..<7]" "length bag = 7"
      using shuffle_mset[OF assms(1) _ s] by simp_all
    have "n = bag ! 0" "g' = g\<lparr> t_bag := bag, t_bag_pos := 1 \<rparr>"
      using assms(3) True s by (auto simp: bag_next_def Let_def)
    then show ?thesis using el[OF m(1), of 0] m by (simp add: bag_ok_def)
  next
    case False
    then have "n = t_bag g ! t_bag_pos g" "g' = g\<lparr> t_bag_pos := t_bag_pos g + 1 \<rparr>"
      using assms(3) by (auto simp: bag_next_def)
    then show ?thesis using el[of "t_bag g" "t_bag_pos g"] assms(2) False by (auto simp: bag_ok_def)
  qed
qed

lemma spawn_t_inv:
  assumes "rng_ok rng" "board_inv g" "bag_ok g" "t_next_type g < 7" "spawn rng g w = (g', w')"
  shows "t_inv g' \<and> t_board g' = t_board g \<and> t_score g' = t_score g"
proof -
  obtain n h w1 where b: "bag_next rng (g\<lparr> t_type := t_next_type g \<rparr>) w = (n, h, w1)"
    by (cases "bag_next rng (g\<lparr> t_type := t_next_type g \<rparr>) w") auto
  have "bag_ok (g\<lparr> t_type := t_next_type g \<rparr>)" using assms(3) by (simp add: bag_ok_def)
  from bag_next_ok[OF assms(1) this b]
  obtain bg bp where h: "n < 7" "bag_ok h"
    "h = g\<lparr> t_type := t_next_type g, t_bag := bg, t_bag_pos := bp \<rparr>" by metis
  let ?h = "h\<lparr> t_next_type := n, t_rot := 0, t_x := 3, t_y := - 1 \<rparr>"
  have g': "g' = (if collides (t_board ?h) (t_type ?h) 0 3 (- 1) then ?h\<lparr> t_game_over := True \<rparr> else ?h)"
    using assms(5) b by (simp add: spawn_def Let_def split: if_splits)
  show ?thesis using h assms(2,4) unfolding g' h(3) by (simp add: t_inv_def board_inv_def bag_ok_def)
qed

lemma score_lines_fields:
  "t_board (score_lines k g) = t_board g" "t_bag (score_lines k g) = t_bag g"
  "t_bag_pos (score_lines k g) = t_bag_pos g" "t_next_type (score_lines k g) = t_next_type g"
  "t_score (score_lines k g) = t_score g + (if k > 0 then k_points ! k * (t_level g + 1) else 0)"
  by (simp_all add: score_lines_def Let_def)

lemma lock_spec:
  assumes "rng_ok rng" "t_inv g" "\<not> t_game_over g" "lock_piece rng g w = (g', w')"
    and "p = place_piece (t_board g) (t_type g) (t_rot g) (t_x g) (t_y g)"
    and "k = length (filter (\<lambda>r. r = FULL_ROW) p)"
  shows "t_inv g' \<and> k \<le> 4 \<and> t_board g' = replicate k 0 @ filter (\<lambda>r. r \<noteq> FULL_ROW) p \<and>
     t_score g' = t_score g + k_points ! k * (t_level g + 1)"
proof -
  have g: "rows_ok (t_board g)" "FULL_ROW \<notin> set (t_board g)" "bag_ok g" "t_next_type g < 7"
    "\<not> collides (t_board g) (t_type g) (t_rot g) (t_x g) (t_y g)"
    using assms(2,3) by (auto simp: t_inv_def board_inv_def)
  have p: "rows_ok p" using place_piece_rows_ok[OF g(1,5)] by (simp add: assms(5))
  then have len: "length p = 20" by (simp add: rows_ok_def)
  let ?b = "replicate k 0 @ filter (\<lambda>r. r \<noteq> FULL_ROW) p"
  have cl: "clear_loop p BH 0 = (?b, k)"
    using clear_loop_spec[of BH p 0] filter_counts[of p FULL_ROW] len
    by (simp add: BH_def Let_def assms(6))
  have lb: "length ?b = 20" using filter_counts[of p FULL_ROW] len length_filter_le[of "\<lambda>r. r \<noteq> FULL_ROW" p]
    by (simp add: assms(6)[symmetric])
  have "FULL_ROW \<notin> set ?b" using FULL_ROW_nonzero by auto
  moreover have "rows_ok ?b" using p lb by (auto simp: rows_ok_def)
  ultimately have inv: "board_inv (score_lines k (g\<lparr> t_board := ?b \<rparr>))"
    "bag_ok (score_lines k (g\<lparr> t_board := ?b \<rparr>))" "t_next_type (score_lines k (g\<lparr> t_board := ?b \<rparr>)) < 7"
    using g by (simp_all add: board_inv_def bag_ok_def score_lines_fields)
  have "spawn rng (score_lines k (g\<lparr> t_board := ?b \<rparr>)) w = (g', w')"
    using assms(4) cl by (simp add: lock_piece_def assms(5)[symmetric])
  from spawn_t_inv[OF assms(1) inv this]
  have s: "t_inv g'" "t_board g' = ?b"
    "t_score g' = t_score g + (if k > 0 then k_points ! k * (t_level g + 1) else 0)"
    by (simp_all add: score_lines_fields)
  have k: "k \<le> 4" using full_rows_le[OF g(1,5,2)] by (simp only: assms(5,6))
  have "k_points ! 0 = 0" by (simp add: k_points_def)
  then show ?thesis using s k by (cases "k = 0") simp_all
qed

lemma lock_inv:
  "rng_ok rng \<Longrightarrow> t_inv g \<Longrightarrow> \<not> t_game_over g \<Longrightarrow> lock_piece rng g w = (g', w') \<Longrightarrow> t_inv g'"
proof -
  assume a: "rng_ok rng" "t_inv g" "\<not> t_game_over g" "lock_piece rng g w = (g', w')"
  show ?thesis using lock_spec[OF a refl refl] by (rule conjunct1)
qed

lemma moved_inv:
  "t_inv g \<Longrightarrow> \<not> hits g r dx dy \<Longrightarrow> r < 4 \<Longrightarrow>
     t_inv (g\<lparr> t_rot := r, t_x := t_x g + dx, t_y := t_y g + dy, t_score := sc \<rparr>)"
  by (simp add: t_inv_def hits_def board_inv_def bag_ok_def)

text \<open>The hard drop ends: a piece that can fall has room below.\<close>

definition falling :: "tetris \<Rightarrow> bool" where
  "falling g \<longleftrightarrow> t_inv g \<and> \<not> t_game_over g"

lemma fall_step:
  assumes "falling g" "\<not> hits g (t_rot g) 0 1"
  shows "falling (g\<lparr> t_y := t_y g + 1, t_score := sc \<rparr>)" "t_y g < 20"
proof -
  show "falling (g\<lparr> t_y := t_y g + 1, t_score := sc \<rparr>)"
    using assms by (simp add: falling_def t_inv_def hits_def board_inv_def bag_ok_def)
  have "piece_cells (t_type g) (t_rot g) \<noteq> []"
    using assms(1) piece_cells_length[of "t_type g" "t_rot g"] by (auto simp: falling_def t_inv_def)
  then obtain r c where "(r, c) \<in> set (piece_cells (t_type g) (t_rot g))" by (cases "piece_cells (t_type g) (t_rot g)") auto
  then show "t_y g < 20" using not_collides[of _ _ _ _ "t_y g + 1"] assms(2) by (fastforce simp: hits_def)
qed

lemma drop_loop_ends:
  assumes "falling g"
  shows "\<exists>g'. drop_loop g = Some g' \<and> falling g' \<and> hits g' (t_rot g') 0 1"
proof -
  have "\<exists>g'. drop_loop g = Some g'"
    unfolding drop_loop_def
    by (rule measure_while_option_Some[where P = falling and f = "\<lambda>g. nat (20 - t_y g)"])
       (use fall_step assms in auto)
  then obtain g' where g': "drop_loop g = Some g'" by blast
  have "falling g'"
    by (rule while_option_rule[where P = falling, OF _ g'[unfolded drop_loop_def] assms])
       (use fall_step in auto)
  moreover have "hits g' (t_rot g') 0 1" using while_option_stop[OF g'[unfolded drop_loop_def]] by simp
  ultimately show ?thesis using g' by blast
qed

lemma soft_drop_inv:
  "rng_ok rng \<Longrightarrow> falling g \<Longrightarrow> soft_drop rng g w = (g', w') \<Longrightarrow> t_inv g'"
  using fall_step(1)[of g "t_score g + 1"] lock_inv[of rng g w g' w']
  by (auto simp: soft_drop_def falling_def split: if_splits)

lemma hard_drop_inv:
  assumes "rng_ok rng" "falling g"
  shows "\<exists>g' w'. hard_drop rng g w = Some (g', w') \<and> t_inv g'"
proof -
  obtain h where h: "drop_loop g = Some h" "falling h" using drop_loop_ends[OF assms(2)] by blast
  obtain g' w' where l: "lock_piece rng h w = (g', w')" by fastforce
  then have "t_inv g'" using lock_inv[OF assms(1) _ _ l] h(2) by (simp add: falling_def)
  then show ?thesis using h(1) l by (simp add: hard_drop_def)
qed

lemma try_move_inv: "t_inv g \<Longrightarrow> t_inv (try_move dx g)"
  by (simp add: try_move_def t_inv_def hits_def board_inv_def bag_ok_def)

lemma try_rotate_inv: "t_inv g \<Longrightarrow> t_inv (try_rotate g)"
proof -
  assume i: "t_inv g"
  show ?thesis
  proof (cases "find (\<lambda>k. \<not> hits g ((t_rot g + 1) mod 4) k 0) [0, - 1, 1]")
    case None
    then show ?thesis using i by (simp add: try_rotate_def Let_def)
  next
    case (Some k)
    then have "\<not> hits g ((t_rot g + 1) mod 4) k 0" by (simp only: find_Some_iff) blast
    then show ?thesis using i Some
      by (simp add: try_rotate_def Let_def t_inv_def hits_def board_inv_def bag_ok_def)
  qed
qed

lemma handle_key_inv:
  assumes "rng_ok rng" "falling g"
  shows "\<exists>a g' w'. handle_key rng key choice g w = Some (a, g', w') \<and> t_inv g'"
proof -
  have i: "t_inv g" using assms(2) by (simp add: falling_def)
  obtain gs ws where s: "soft_drop rng g w = (gs, ws)" by fastforce
  obtain gh wh where h: "hard_drop rng g w = Some (gh, wh)" "t_inv gh" using hard_drop_inv[OF assms] by blast
  note facts = i s h soft_drop_inv[OF assms s] try_move_inv[OF i] try_rotate_inv[OF i]
  show ?thesis
    by (cases key; cases "t_rotated g") (simp_all add: handle_key_def facts)
qed

lemma tick_inv:
  assumes "rng_ok rng" "falling g" "t_tick rng g acc w = (g', acc', w')"
  shows "t_inv g'"
proof -
  obtain gl wl where l: "lock_piece rng g w = (gl, wl)" by fastforce
  have "t_inv gl" using lock_inv[OF assms(1) _ _ l] assms(2) by (simp add: falling_def)
  then show ?thesis
    using assms(2,3) l fall_step(1)[OF assms(2), of "t_score g"]
    by (auto simp: t_tick_def Let_def falling_def split: if_splits)
qed

lemma reset_t_inv:
  assumes "rng_ok rng" "t_reset_game rng rotated w = (g, w')"
  shows "t_inv g"
proof -
  let ?g = "\<lparr> t_board = replicate BH 0, t_type = 0, t_rot = 0, t_x = 0, t_y = 0, t_next_type = 0,
     t_bag = replicate 7 0, t_bag_pos = 7, t_score = 0, t_lines = 0, t_level = 0,
     t_game_over = False, t_rotated = rotated \<rparr>"
  obtain n h w1 where b: "bag_next rng ?g w = (n, h, w1)" by (cases "bag_next rng ?g w") auto
  have "bag_ok ?g" by (simp add: bag_ok_def)
  from bag_next_ok[OF assms(1) this b] obtain bg bp where
    h: "n < 7" "bag_ok h" "h = ?g\<lparr> t_bag := bg, t_bag_pos := bp \<rparr>" by metis
  have "board_inv (h\<lparr> t_next_type := n \<rparr>)" "bag_ok (h\<lparr> t_next_type := n \<rparr>)"
    using h(2) FULL_ROW_nonzero by (simp_all add: h(3) board_inv_def rows_ok_def BH_def bag_ok_def)
  moreover have "spawn rng (h\<lparr> t_next_type := n \<rparr>) w1 = (g, w')"
    using assms(2) b by (simp add: t_reset_game_def)
  ultimately show ?thesis using spawn_t_inv[OF assms(1), of "h\<lparr> t_next_type := n \<rparr>"] h(1) by simp
qed

lemma session_t_inv:
  "rng_ok rng \<Longrightarrow> t_inv g \<Longrightarrow> \<exists>g' best' w'. t_session rng evs g acc best w = Some (g', best', w') \<and> t_inv g'"
proof (induction evs arbitrary: g acc w)
  case (Cons ev evs)
  show ?case
  proof (cases "t_game_over g")
    case True
    then show ?thesis using Cons.prems by simp
  next
    case False
    then have f: "falling g" using Cons.prems by (simp add: falling_def)
    show ?thesis
    proof (cases ev)
      case Ev_Tick
      obtain h acc' w1 where t: "t_tick rng g acc w = (h, acc', w1)" by (cases "t_tick rng g acc w") auto
      show ?thesis
        using Cons.IH[OF Cons.prems(1) tick_inv[OF Cons.prems(1) f t], of acc' w1] False Ev_Tick t by simp
    next
      case (Ev_Key key choice)
      obtain a h w1 where k: "handle_key rng key choice g w = Some (a, h, w1)" "t_inv h"
        using handle_key_inv[OF Cons.prems(1) f] by blast
      obtain r w2 where r: "t_reset_game rng (t_rotated h) w1 = (r, w2)" by fastforce
      show ?thesis
        using Cons.IH[OF Cons.prems(1) reset_t_inv[OF Cons.prems(1) r], of 0 w2]
          Cons.IH[OF Cons.prems(1) k(2), of acc w1] False Ev_Key k r by auto
    qed
  qed
qed simp

section \<open>Properties\<close>


lemma example_tetris:
  "rng_ok (\<lambda>n w. (0, w))" "t_inv (fst (t_reset_game (\<lambda>n w. (0, w)) True ()))"
  "\<not> t_game_over (fst (t_reset_game (\<lambda>n w. (0, w)) True ()))"
proof -
  show r: "rng_ok (\<lambda>n w. (0, w))" by (simp add: rng_ok_def)
  show "t_inv (fst (t_reset_game (\<lambda>n w. (0, w)) True ()))"
    by (rule reset_t_inv[OF r]) (rule prod.collapse[symmetric])
  show "\<not> t_game_over (fst (t_reset_game (\<lambda>n w. (0, w)) True ()))" by code_simp
qed


text \<open>a session never hangs (every hard drop ends) and never breaks the board: after any
  events the board has twenty rows of ten columns and no full row, every bag is a
  permutation of the seven pieces, and while the game is on the falling piece lies
  inside the walls on free cells.\<close>

theorem tetris_session_safe:
  assumes "\<forall>n w. 0 < n \<longrightarrow> fst (rng n w) < n"
  shows "\<exists>g best' w'.
     t_session rng evs (fst (t_reset_game rng rotated w)) 0 best (snd (t_reset_game rng rotated w)) =
       Some (g, best', w') \<and>
     length (t_board g) = BH \<and> FULL_ROW \<notin> set (t_board g) \<and>
     (\<forall>row\<in>set (t_board g). \<forall>n\<ge>BW. \<not> bit row n) \<and>
     (t_bag_pos g < 7 \<longrightarrow> mset (t_bag g) = mset [0..<7]) \<and>
     (t_game_over g \<or> \<not> collides (t_board g) (t_type g) (t_rot g) (t_x g) (t_y g))"
proof -
  have r: "rng_ok rng" using assms by (simp add: rng_ok_def)
  have "t_inv (fst (t_reset_game rng rotated w))"
    by (rule reset_t_inv[OF r]) (rule prod.collapse[symmetric])
  from session_t_inv[OF r this, of evs 0 best "snd (t_reset_game rng rotated w)"]
  show ?thesis
    by (auto simp: t_inv_def board_inv_def rows_ok_def bag_ok_def BH_def BW_def)
qed

theorem tetris_session_safe_witness:
  "\<exists>g best' w'. t_session (\<lambda>n w. (0 :: nat, w)) [Ev_Key T_Left 0, Ev_Tick]
       (fst (t_reset_game (\<lambda>n w. (0, w)) True ())) 0 0 () = Some (g, best', w') \<and> length (t_board g) = BH"
  using tetris_session_safe[of "\<lambda>n w. (0, w)" "[Ev_Key T_Left 0, Ev_Tick]" True "()" 0] by auto

end
