(* ===== verification/Connect4.thy ===== *)
theory Connect4
  imports Games
begin

text \<open>
  src/apps/games/src/mod/connect4.c: the rules of Connect-4 and the two ends of a match
  over a radio link. The host owns the board and answers every move with a state packet.
  The board is the list of its six rows from the top. What the hub delivers (keys,
  packets, time-outs) is the event list of a side, what a side sends is part of its
  result. Drawing and sound are left out.
\<close>

section \<open>Rules\<close>

definition COLS :: nat where "COLS = 7"
definition ROWS :: nat where "ROWS = 6"

definition MOVE_MAGIC :: nat where "MOVE_MAGIC = 67"
definition STATE_MAGIC :: nat where "STATE_MAGIC = 99"
definition MOVE_BYE :: nat where "MOVE_BYE = 255"
definition TURN_HOST :: nat where "TURN_HOST = 0"
definition TURN_CLIENT :: nat where "TURN_CLIENT = 1"
definition WIN_NONE :: nat where "WIN_NONE = 0"
definition WIN_HOST :: nat where "WIN_HOST = 1"
definition WIN_CLIENT :: nat where "WIN_CLIENT = 2"
definition WIN_DRAW :: nat where "WIN_DRAW = 3"
definition END_NONE :: nat where "END_NONE = 0"
definition END_QUIT :: nat where "END_QUIT = 1"
definition END_ANTICHEAT :: nat where "END_ANTICHEAT = 2"
definition END_TIMEOUT :: nat where "END_TIMEOUT = 3"
definition AC_THRESHOLD :: nat where "AC_THRESHOLD = 3"

lemmas c4_consts = COLS_def ROWS_def TURN_HOST_def TURN_CLIENT_def WIN_NONE_def WIN_HOST_def
  WIN_CLIENT_def WIN_DRAW_def END_NONE_def END_QUIT_def END_ANTICHEAT_def END_TIMEOUT_def

record c4_board =
  c4_cell :: "nat list list"
  c4_turn :: nat
  c4_winner :: nat

definition column_height :: "nat list list \<Rightarrow> nat \<Rightarrow> nat" where
  "column_height cells col = length (filter (\<lambda>r. cells ! r ! col \<noteq> 0) [0..<ROWS])"

definition drop_disc :: "nat list list \<Rightarrow> nat \<Rightarrow> nat \<Rightarrow> (nat \<times> nat list list) option" where
  "drop_disc cells col player =
     (if col \<ge> COLS \<or> column_height cells col \<ge> ROWS then None
      else
        let row = ROWS - 1 - column_height cells col
        in Some (row, cells[row := (cells ! row)[col := player]]))"

definition on_board :: "int \<times> int \<Rightarrow> bool" where
  "on_board p \<longleftrightarrow> fst p \<ge> 0 \<and> fst p < int ROWS \<and> snd p \<ge> 0 \<and> snd p < int COLS"

definition has_disc :: "nat list list \<Rightarrow> nat \<Rightarrow> int \<times> int \<Rightarrow> bool" where
  "has_disc cells player p \<longleftrightarrow> on_board p \<and> cells ! nat (fst p) ! nat (snd p) = player"

text \<open>The place k steps from (row, col) in a direction.\<close>

definition step_to :: "int \<times> int \<Rightarrow> int \<times> int \<Rightarrow> int \<Rightarrow> int \<times> int" where
  "step_to p d k = (fst p + fst d * k, snd p + snd d * k)"

definition dirs :: "(int \<times> int) list" where
  "dirs = [(0, 1), (1, 0), (1, 1), (1, - 1)]"

text \<open>The while loop from a disc outwards; after seven steps it is off the board
  (steps_leave), so looking at seven places is looking at all.\<close>

definition run_length :: "nat list list \<Rightarrow> nat \<Rightarrow> int \<times> int \<Rightarrow> int \<times> int \<Rightarrow> int \<Rightarrow> nat" where
  "run_length cells player p d s =
     length (takeWhile (\<lambda>k. has_disc cells player (step_to p d (s * int k))) [1..<8])"

definition wins_at :: "nat list list \<Rightarrow> nat \<Rightarrow> nat \<Rightarrow> nat \<Rightarrow> bool" where
  "wins_at cells row col player \<longleftrightarrow>
     list_ex (\<lambda>d. 1 + run_length cells player (int row, int col) d (- 1)
                    + run_length cells player (int row, int col) d 1 \<ge> 4) dirs"

definition board_full :: "nat list list \<Rightarrow> bool" where
  "board_full cells \<longleftrightarrow> list_all (\<lambda>c. \<not> column_height cells c < ROWS) [0..<COLS]"

definition apply_move :: "nat \<Rightarrow> nat \<Rightarrow> c4_board \<Rightarrow> c4_board" where
  "apply_move col player b =
     (case drop_disc (c4_cell b) col player of
        None \<Rightarrow> b
      | Some (row, cells) \<Rightarrow>
          let b = b\<lparr> c4_cell := cells \<rparr>
          in if wins_at cells row col player
             then b\<lparr> c4_winner := (if player = 1 then WIN_HOST else WIN_CLIENT) \<rparr>
             else if board_full cells then b\<lparr> c4_winner := WIN_DRAW \<rparr>
             else b\<lparr> c4_turn := (if c4_turn b = TURN_HOST then TURN_CLIENT else TURN_HOST) \<rparr>)"

section \<open>Packets\<close>

definition state_packet :: "c4_board \<Rightarrow> nat \<Rightarrow> nat list" where
  "state_packet b end_reason =
     STATE_MAGIC # concat (c4_cell b) @ [c4_turn b, c4_winner b, end_reason]"

definition move_packet :: "nat \<Rightarrow> nat \<Rightarrow> nat list" where
  "move_packet seq col = [MOVE_MAGIC, seq mod 256, col]"

text \<open>What the client takes from a packet, with the end reason; None is no state packet.\<close>

fun rows_of :: "nat \<Rightarrow> nat list \<Rightarrow> nat list list" where
  "rows_of 0 xs = []"
| "rows_of (Suc n) xs = take COLS xs # rows_of n (drop COLS xs)"

definition read_state :: "nat list \<Rightarrow> (c4_board \<times> nat) option" where
  "read_state rx =
     (if length rx \<ge> 1 + ROWS * COLS + 3 \<and> rx ! 0 = STATE_MAGIC then
        Some (\<lparr> c4_cell = rows_of ROWS (take (ROWS * COLS) (drop 1 rx)),
                c4_turn = rx ! (1 + ROWS * COLS), c4_winner = rx ! (2 + ROWS * COLS) \<rparr>,
              rx ! (3 + ROWS * COLS))
      else None)"

section \<open>Host\<close>

datatype c4_key = Key_Left | Key_Right | Key_Ok | Key_Ok_Long | Key_None

record c4_host =
  h_board :: c4_board
  h_cursor :: nat
  h_violations :: nat
  h_last_seq :: nat
  h_have_seq :: bool

definition empty_cells :: "nat list list" where
  "empty_cells = replicate ROWS (replicate COLS 0)"

definition host_start :: "nat \<Rightarrow> c4_host" where
  "host_start turn =
     \<lparr> h_board = \<lparr> c4_cell = empty_cells, c4_turn = turn, c4_winner = WIN_NONE \<rparr>,
       h_cursor = 3, h_violations = 0, h_last_seq = 0, h_have_seq = False \<rparr>"

text \<open>One round of the loop: it goes on, or returns an end reason; and the packets sent.\<close>

datatype 'h c4_round = Round_Go 'h "nat list list" | Round_End nat 'h "nat list list"

definition move_cursor :: "c4_key \<Rightarrow> nat \<Rightarrow> nat" where
  "move_cursor key cur =
     (case key of
        Key_Left \<Rightarrow> if cur > 0 then cur - 1 else cur
      | Key_Right \<Rightarrow> if cur < COLS - 1 then cur + 1 else cur
      | _ \<Rightarrow> cur)"

definition host_key :: "c4_host \<Rightarrow> c4_key \<Rightarrow> c4_host c4_round" where
  "host_key h key =
     (let b = h_board h in
      case key of
        Key_Ok \<Rightarrow>
          if column_height (c4_cell b) (h_cursor h) < ROWS then
            let b = apply_move (h_cursor h) 1 b
            in Round_Go (h\<lparr> h_board := b \<rparr>) [state_packet b END_NONE]
          else Round_Go h []
      | Key_Ok_Long \<Rightarrow> Round_End END_QUIT h [state_packet b END_QUIT]
      | _ \<Rightarrow> Round_Go (h\<lparr> h_cursor := move_cursor key (h_cursor h) \<rparr>) [])"

definition host_packet :: "c4_host \<Rightarrow> nat list \<Rightarrow> c4_host c4_round" where
  "host_packet h rx =
     (let b = h_board h in
      if length rx < 3 \<or> rx ! 0 \<noteq> MOVE_MAGIC then Round_Go h []
      else if h_have_seq h \<and> rx ! 1 = h_last_seq h then Round_Go h []
      else if rx ! 2 = MOVE_BYE then Round_End END_QUIT h []
      else if rx ! 2 \<ge> COLS \<or> column_height (c4_cell b) (rx ! 2) \<ge> ROWS then
        let h = h\<lparr> h_violations := h_violations h + 1 \<rparr>
        in if h_violations h \<ge> AC_THRESHOLD
           then Round_End END_ANTICHEAT h [state_packet b END_ANTICHEAT]
           else Round_Go h [state_packet b END_NONE]
      else
        let b = apply_move (rx ! 2) 2 b
        in Round_Go (h\<lparr> h_have_seq := True, h_last_seq := rx ! 1, h_board := b \<rparr>)
             [state_packet b END_NONE])"

text \<open>A round reads the key when it is the host's turn, and a packet otherwise; when none
  comes, a held OK key ends the match.\<close>

record c4_event =
  ev_key :: c4_key
  ev_packet :: "nat list option"

definition host_round :: "c4_host \<Rightarrow> c4_event \<Rightarrow> c4_host c4_round" where
  "host_round h ev =
     (let b = h_board h in
      if c4_winner b \<noteq> WIN_NONE then Round_End END_NONE h [state_packet b END_NONE]
      else if c4_turn b = TURN_HOST then host_key h (ev_key ev)
      else
        (case ev_packet ev of
           None \<Rightarrow>
             if ev_key ev = Key_Ok_Long then Round_End END_QUIT h [state_packet b END_QUIT]
             else Round_Go h []
         | Some rx \<Rightarrow> host_packet h rx))"

text \<open>The result is the end reason, if the loop has ended, and what was sent.\<close>

fun play_host :: "c4_host \<Rightarrow> c4_event list \<Rightarrow> nat option \<times> c4_host \<times> nat list list" where
  "play_host h [] = (None, h, [])"
| "play_host h (ev # evs) =
     (case host_round h ev of
        Round_End reason h' sent \<Rightarrow> (Some reason, h', sent)
      | Round_Go h' sent \<Rightarrow>
          (let (reason, h'', sent') = play_host h' evs in (reason, h'', sent @ sent')))"

definition host_match :: "nat \<Rightarrow> c4_event list \<Rightarrow> nat option \<times> c4_host \<times> nat list list" where
  "host_match turn evs =
     (let (reason, h, sent) = play_host (host_start turn) evs
      in (reason, h, state_packet (h_board (host_start turn)) END_NONE # sent))"

section \<open>Client\<close>

record c4_client =
  cl_board :: c4_board
  cl_cursor :: nat
  cl_seq :: nat
  cl_stale :: nat

definition client_start :: c4_client where
  "client_start =
     \<lparr> cl_board = \<lparr> c4_cell = empty_cells, c4_turn = 0, c4_winner = 0 \<rparr>, cl_cursor = 3,
       cl_seq = 0, cl_stale = 0 \<rparr>"

definition take_state :: "c4_client \<Rightarrow> c4_board \<times> nat \<Rightarrow> nat list list \<Rightarrow> c4_client c4_round" where
  "take_state cl st sent =
     (let (b, reason) = st; cl = cl\<lparr> cl_board := b \<rparr>
      in if reason \<noteq> END_NONE then Round_End reason cl sent else Round_Go cl sent)"

definition client_bye :: "c4_client \<Rightarrow> c4_client c4_round" where
  "client_bye cl =
     (let cl = cl\<lparr> cl_seq := cl_seq cl + 1 \<rparr>
      in Round_End END_QUIT cl [move_packet (cl_seq cl) MOVE_BYE])"

text \<open>On the client's turn a round reads a key; after a move it polls at most twenty
  times for the answer (polls, None where nothing comes).\<close>

fun poll_state :: "nat list option list \<Rightarrow> (c4_board \<times> nat) option" where
  "poll_state [] = None"
| "poll_state (None # ps) = poll_state ps"
| "poll_state (Some rx # ps) =
     (case read_state rx of None \<Rightarrow> poll_state ps | Some st \<Rightarrow> Some st)"

definition client_turn :: "c4_client \<Rightarrow> c4_key \<Rightarrow> nat list option list \<Rightarrow> c4_client c4_round" where
  "client_turn cl key polls =
     (case key of
        Key_Ok \<Rightarrow>
          if column_height (c4_cell (cl_board cl)) (cl_cursor cl) < ROWS then
            let cl = cl\<lparr> cl_seq := cl_seq cl + 1 \<rparr>; sent = [move_packet (cl_seq cl) (cl_cursor cl)]
            in (case poll_state (take 20 polls) of
                  None \<Rightarrow> Round_Go cl sent
                | Some st \<Rightarrow> take_state cl st sent)
          else Round_Go cl []
      | Key_Ok_Long \<Rightarrow> client_bye cl
      | _ \<Rightarrow> Round_Go (cl\<lparr> cl_cursor := move_cursor key (cl_cursor cl) \<rparr>) [])"

definition client_wait :: "c4_client \<Rightarrow> c4_key \<Rightarrow> nat list option \<Rightarrow> c4_client c4_round" where
  "client_wait cl key rx =
     (case (case rx of None \<Rightarrow> None | Some p \<Rightarrow> read_state p) of
        Some (b, reason) \<Rightarrow>
          if reason \<noteq> END_NONE then Round_End reason (cl\<lparr> cl_board := b \<rparr>) []
          else if key = Key_Ok_Long then client_bye (cl\<lparr> cl_board := b, cl_stale := 0 \<rparr>)
          else Round_Go (cl\<lparr> cl_board := b, cl_stale := 0 \<rparr>) []
      | None \<Rightarrow>
          let cl = cl\<lparr> cl_stale := cl_stale cl + 1 \<rparr>
          in if cl_stale cl > 60 then Round_End END_TIMEOUT cl []
             else if key = Key_Ok_Long then client_bye cl
             else Round_Go cl [])"

definition client_round :: "c4_client \<Rightarrow> c4_key \<Rightarrow> nat list option list \<Rightarrow> c4_client c4_round" where
  "client_round cl key polls =
     (let b = cl_board cl in
      if c4_winner b \<noteq> WIN_NONE then Round_End END_NONE cl []
      else if c4_turn b = TURN_CLIENT then client_turn cl key polls
      else client_wait cl key (case polls of [] \<Rightarrow> None | p # _ \<Rightarrow> p))"

text \<open>The client's loop, over what each round's key and polls give.\<close>

fun play_client :: "c4_client \<Rightarrow> (c4_key \<times> nat list option list) list \<Rightarrow> nat option \<times> c4_client \<times> nat list list" where
  "play_client cl [] = (None, cl, [])"
| "play_client cl (ev # evs) =
     (case client_round cl (fst ev) (snd ev) of
        Round_End reason cl' sent \<Rightarrow> (Some reason, cl', sent)
      | Round_Go cl' sent \<Rightarrow>
          (let (reason, cl'', sent') = play_client cl' evs in (reason, cl'', sent @ sent')))"

section \<open>Specification: lines of four on a well-formed board\<close>

text \<open>Four discs of a player in line from p on, and a line of four anywhere.\<close>

definition line4 :: "nat list list \<Rightarrow> nat \<Rightarrow> int \<times> int \<Rightarrow> int \<times> int \<Rightarrow> bool" where
  "line4 cells player p d \<longleftrightarrow>
     list_all (\<lambda>k. has_disc cells player (step_to p d (int k))) [0..<4]"

definition four :: "nat list list \<Rightarrow> nat \<Rightarrow> bool" where
  "four cells player \<longleftrightarrow>
     list_ex (\<lambda>r. list_ex (\<lambda>c. list_ex (line4 cells player (int r, int c)) dirs) [0..<COLS]) [0..<ROWS]"

definition shape_ok :: "nat list list \<Rightarrow> bool" where
  "shape_ok cells \<longleftrightarrow> length cells = ROWS \<and> list_all (\<lambda>row. length row = COLS) cells"

definition values_ok :: "nat list list \<Rightarrow> bool" where
  "values_ok cells \<longleftrightarrow> list_all (list_all (\<lambda>v. v \<le> 2)) cells"

text \<open>No disc floats: below a disc there is a disc.\<close>

definition gravity :: "nat list list \<Rightarrow> bool" where
  "gravity cells \<longleftrightarrow>
     list_all (\<lambda>r. list_all (\<lambda>c. cells ! r ! c \<noteq> 0 \<longrightarrow> cells ! Suc r ! c \<noteq> 0) [0..<COLS]) [0..<ROWS - 1]"

definition discs :: "nat list list \<Rightarrow> nat \<Rightarrow> nat" where
  "discs cells player = sum_list (map (\<lambda>row. count_list row player) cells)"

text \<open>The winner is what the board says, and while the match goes on the discs have been
  placed in turns.\<close>

definition winner_ok :: "c4_board \<Rightarrow> bool" where
  "winner_ok b \<longleftrightarrow>
     (four (c4_cell b) 1 \<longleftrightarrow> c4_winner b = WIN_HOST) \<and>
     (four (c4_cell b) 2 \<longleftrightarrow> c4_winner b = WIN_CLIENT) \<and>
     (board_full (c4_cell b) \<and> \<not> four (c4_cell b) 1 \<and> \<not> four (c4_cell b) 2
        \<longleftrightarrow> c4_winner b = WIN_DRAW) \<and>
     c4_winner b \<le> 3"

definition turns_ok :: "nat \<Rightarrow> c4_board \<Rightarrow> bool" where
  "turns_ok start b \<longleftrightarrow>
     c4_turn b \<le> 1 \<and>
     (c4_winner b = WIN_NONE \<longrightarrow>
        discs (c4_cell b) 1 + (if start = TURN_CLIENT \<and> c4_turn b = TURN_HOST then 1 else 0)
        = discs (c4_cell b) 2 + (if start = TURN_HOST \<and> c4_turn b = TURN_CLIENT then 1 else 0))"

definition match_ok :: "nat \<Rightarrow> c4_board \<Rightarrow> bool" where
  "match_ok start b \<longleftrightarrow>
     shape_ok (c4_cell b) \<and> values_ok (c4_cell b) \<and> gravity (c4_cell b) \<and> winner_ok b \<and>
     turns_ok start b"

section \<open>Dropping a disc\<close>

lemma shape_rows: "shape_ok cells \<Longrightarrow> length cells = 6"
  by (simp add: shape_ok_def ROWS_def)

lemma shape_cols: "shape_ok cells \<Longrightarrow> r < 6 \<Longrightarrow> length (cells ! r) = 7"
  by (simp add: shape_ok_def ROWS_def COLS_def list_all_length)

lemma gravityD: "gravity cells \<Longrightarrow> r < 5 \<Longrightarrow> c < 7 \<Longrightarrow> cells ! r ! c \<noteq> 0 \<Longrightarrow> cells ! Suc r ! c \<noteq> 0"
  by (simp add: gravity_def list_all_length ROWS_def COLS_def)

lemma gravity_le:
  assumes "gravity cells" "c < 7" "cells ! r ! c \<noteq> 0" "r \<le> r'" "r' < 6"
  shows "cells ! r' ! c \<noteq> 0"
  using assms(4,5)
proof (induction r' rule: dec_induct)
  case base show ?case by (rule assms(3))
next
  case (step n)
  then show ?case using gravityD[OF assms(1) _ assms(2), of n] by simp
qed

lemma filter_upward:
  assumes "\<And>r. r < n \<Longrightarrow> P r \<longleftrightarrow> r \<ge> m" "m \<le> n"
  shows "length (filter P [0..<n]) = n - m"
proof -
  have "filter P [0..<n] = filter (\<lambda>r. r \<ge> m) [0..<n]"
    by (rule filter_cong) (simp_all add: assms(1))
  also have "\<dots> = [m..<n]"
  proof -
    have "[0..<n] = [0..<m] @ [m..<n]" using assms(2) upt_add_eq_append[of 0 m "n - m"] by simp
    then show ?thesis by (simp add: filter_empty_conv)
  qed
  finally show ?thesis by simp
qed

text \<open>The empty places of a column are the ones above its discs.\<close>

lemma column_split:
  assumes "gravity cells" "c < 7"
  obtains m where "m \<le> 6" "\<And>r. r < 6 \<Longrightarrow> cells ! r ! c \<noteq> 0 \<longleftrightarrow> m \<le> r"
proof -
  let ?m = "LEAST m. m \<ge> 6 \<or> cells ! m ! c \<noteq> 0"
  have le: "?m \<le> 6" by (rule Least_le) simp
  have "cells ! r ! c \<noteq> 0 \<longleftrightarrow> ?m \<le> r" if r: "r < 6" for r
  proof
    show "?m \<le> r" if "cells ! r ! c \<noteq> 0" by (rule Least_le) (simp add: that)
    assume m: "?m \<le> r"
    have "?m \<ge> 6 \<or> cells ! ?m ! c \<noteq> 0" by (rule LeastI[of _ 6]) simp
    then have "cells ! ?m ! c \<noteq> 0" using m r by linarith
    from gravity_le[OF assms this m r] show "cells ! r ! c \<noteq> 0" .
  qed
  with le show ?thesis by (rule that)
qed

lemma column_height_is:
  assumes "gravity cells" "c < 7" "r < 6"
  shows "cells ! r ! c \<noteq> 0 \<longleftrightarrow> 6 - column_height cells c \<le> r"
proof -
  obtain m where m: "m \<le> 6" "\<And>r. r < 6 \<Longrightarrow> cells ! r ! c \<noteq> 0 \<longleftrightarrow> m \<le> r"
    using column_split[OF assms(1,2)] by metis
  have "column_height cells c = 6 - m"
    unfolding column_height_def ROWS_def by (rule filter_upward[OF m(2) m(1)])
  then show ?thesis using m assms(3) by auto
qed

text \<open>A legal drop: the place is empty, everything below it is taken.\<close>

lemma drop_disc_place:
  assumes "gravity cells" "drop_disc cells col player = Some (row, cells')"
  shows "col < 7" "row < 6" "cells ! row ! col = 0" "cells' = cells[row := (cells ! row)[col := player]]"
    "\<And>r. row < r \<Longrightarrow> r < 6 \<Longrightarrow> cells ! r ! col \<noteq> 0"
proof -
  have c: "col < 7" and h: "column_height cells col < 6"
    and row: "row = 5 - column_height cells col"
    and eq: "cells' = cells[row := (cells ! row)[col := player]]"
    using assms(2) by (auto simp: drop_disc_def COLS_def ROWS_def Let_def split: if_splits)
  show "col < 7" "cells' = cells[row := (cells ! row)[col := player]]" by (fact c eq)+
  show r6: "row < 6" using row by simp
  show "cells ! row ! col = 0" using column_height_is[OF assms(1) c r6] row h by auto
  show "cells ! r ! col \<noteq> 0" if "row < r" "r < 6" for r
    using column_height_is[OF assms(1) c that(2)] row h that by auto
qed

section \<open>The winning test finds exactly the lines through the new disc\<close>

lemma step_to_simps:
  "fst (step_to p d k) = fst p + fst d * k" "snd (step_to p d k) = snd p + snd d * k"
  by (simp_all add: step_to_def)

lemma step_to_step: "step_to (step_to p d j) d k = step_to p d (j + k)"
  by (simp add: step_to_def algebra_simps)

lemma step_to_0 [simp]: "step_to p d 0 = p"
  by (simp add: step_to_def)

text \<open>Seven steps lead off the board in every direction, so the loop's bound is no limit.\<close>

lemma steps_leave:
  assumes "d \<in> set dirs" "on_board p" "k \<ge> 7 \<or> k \<le> - 7"
  shows "\<not> on_board (step_to p d k)"
  using assms by (auto simp: dirs_def on_board_def step_to_simps ROWS_def COLS_def)

lemma le_takeWhile_iff:
  "j \<le> length (takeWhile P xs) \<longleftrightarrow> j \<le> length xs \<and> (\<forall>i<j. P (xs ! i))"
proof (induction xs arbitrary: j)
  case (Cons x xs)
  show ?case
  proof (cases j)
    case (Suc m)
    have "(\<forall>i<Suc m. P ((x # xs) ! i)) \<longleftrightarrow> P x \<and> (\<forall>i<m. P (xs ! i))"
      using All_less_Suc2[of m "\<lambda>i. P ((x # xs) ! i)"] by simp
    then show ?thesis using Cons.IH[of m] Suc by auto
  qed simp
qed auto

lemma run_length_ge:
  assumes "j \<le> 7"
  shows "j \<le> run_length cells player p d s \<longleftrightarrow>
         (\<forall>k<j. has_disc cells player (step_to p d (s * int (Suc k))))"
  using assms by (auto simp: run_length_def le_takeWhile_iff)

text \<open>The run stops because a place fails, never because the bound of seven is met.\<close>

lemma run_length_exact:
  assumes "d \<in> set dirs" "on_board p" "s = 1 \<or> s = - 1"
  shows "run_length cells player p d s < 7"
    "\<not> has_disc cells player (step_to p d (s * int (Suc (run_length cells player p d s))))"
proof -
  let ?n = "run_length cells player p d s"
  have off: "\<not> has_disc cells player (step_to p d (s * 7))"
    using steps_leave[OF assms(1,2), of "s * 7"] assms(3) by (auto simp: has_disc_def)
  have "\<not> 7 \<le> ?n"
    using run_length_ge[of 7 cells player p d s] off by (auto simp: numeral_eq_Suc Ex_less_Suc All_less_Suc)
  then show n: "?n < 7" by simp
  have "\<not> Suc ?n \<le> ?n" by simp
  then have "\<not> (\<forall>k<Suc ?n. has_disc cells player (step_to p d (s * int (Suc k))))"
    using run_length_ge[of "Suc ?n" cells player p d s] n by simp
  moreover have "\<forall>k<?n. has_disc cells player (step_to p d (s * int (Suc k)))"
    using run_length_ge[of ?n cells player p d s] n by simp
  ultimately show "\<not> has_disc cells player (step_to p d (s * int (Suc ?n)))"
    unfolding All_less_Suc by blast
qed

lemma line4_iff: "line4 cells player p d \<longleftrightarrow> (\<forall>k<4. has_disc cells player (step_to p d (int k)))"
  by (simp add: line4_def list_all_length)

lemma runs_line:
  assumes "has_disc cells player p"
  shows "1 + run_length cells player p d (- 1) + run_length cells player p d 1 \<ge> 4 \<longleftrightarrow>
         (\<exists>j<4. line4 cells player (step_to p d (- int j)) d)"
    (is "1 + ?a + ?b \<ge> 4 \<longleftrightarrow> _")
proof -
  have line: "line4 cells player (step_to p d (- int j)) d \<longleftrightarrow> j \<le> ?a \<and> 3 - j \<le> ?b" if j: "j < 4" for j
  proof -
    have "j = 0 \<or> j = 1 \<or> j = 2 \<or> j = 3" using j by auto
    then show ?thesis
      using assms
      by (elim disjE)
         (simp_all add: line4_iff run_length_ge step_to_step numeral_eq_Suc All_less_Suc
            del: One_nat_def, auto)
  qed
  have "1 + ?a + ?b \<ge> 4 \<longleftrightarrow> (\<exists>j<4. j \<le> ?a \<and> 3 - j \<le> ?b)"
  proof
    assume "1 + ?a + ?b \<ge> 4"
    then have "min 3 ?a < 4 \<and> min 3 ?a \<le> ?a \<and> 3 - min 3 ?a \<le> ?b" by linarith
    then show "\<exists>j<4. j \<le> ?a \<and> 3 - j \<le> ?b" by blast
  qed auto
  with line show ?thesis by blast
qed

lemma wins_at_iff:
  assumes "has_disc cells player (int row, int col)"
  shows "wins_at cells row col player \<longleftrightarrow>
         (\<exists>d\<in>set dirs. \<exists>j<4. line4 cells player (step_to (int row, int col) d (- int j)) d)"
  unfolding wins_at_def list_ex_iff runs_line[OF assms] by simp

lemma four_iff: "four cells player \<longleftrightarrow> (\<exists>p. \<exists>d\<in>set dirs. line4 cells player p d)"
proof
  assume "four cells player"
  then show "\<exists>p. \<exists>d\<in>set dirs. line4 cells player p d" by (auto simp: four_def list_ex_iff)
next
  assume "\<exists>p. \<exists>d\<in>set dirs. line4 cells player p d"
  then obtain p d where d: "d \<in> set dirs" and l: "line4 cells player p d" by blast
  have "on_board p" using l by (auto simp: line4_iff has_disc_def dest: spec[of _ 0])
  then have p: "p = (int (nat (fst p)), int (nat (snd p)))" "nat (fst p) < ROWS" "nat (snd p) < COLS"
    by (auto simp: on_board_def prod_eq_iff)
  have "line4 cells player (int (nat (fst p)), int (nat (snd p))) d" using l p(1) by simp
  then show "four cells player"
    unfolding four_def list_ex_iff set_upt using d p(2,3) by (meson atLeastLessThan_iff le0)
qed

section \<open>What a move does to the board\<close>

lemma put_nth:
  assumes "shape_ok cells" "row < 6" "col < 7" "r < 6" "c < 7"
  shows "cells[row := (cells ! row)[col := v]] ! r ! c = (if r = row \<and> c = col then v else cells ! r ! c)"
  using shape_rows[OF assms(1)] shape_cols[OF assms(1)] assms by (simp add: nth_list_update)

lemma put_has_disc:
  assumes "shape_ok cells" "row < 6" "col < 7"
  shows "has_disc (cells[row := (cells ! row)[col := v]]) player p \<longleftrightarrow>
         (if p = (int row, int col) then v = player else has_disc cells player p)"
proof (cases "on_board p")
  case True
  then have "nat (fst p) < 6" "nat (snd p) < 7" "0 \<le> fst p" "0 \<le> snd p"
    by (auto simp: on_board_def ROWS_def COLS_def)
  then show ?thesis
    using put_nth[OF assms, of "nat (fst p)" "nat (snd p)" v] True by (auto simp: has_disc_def prod_eq_iff)
next
  case False
  then have "p \<noteq> (int row, int col)" using assms by (auto simp: on_board_def ROWS_def COLS_def)
  with False show ?thesis by (simp add: has_disc_def)
qed

lemma put_shape: "shape_ok cells \<Longrightarrow> shape_ok (cells[row := (cells ! row)[col := v]])"
  by (cases "row < length cells") (auto simp: shape_ok_def list_all_length nth_list_update)

lemma put_values:
  assumes "values_ok cells" "v \<le> 2"
  shows "values_ok (cells[row := (cells ! row)[col := v]])"
proof -
  have "set ((cells ! row)[col := v]) \<subseteq> {0..2}" if "row < length cells"
    using assms that set_update_subset_insert[of "cells ! row" col v]
    by (fastforce simp: values_ok_def list_all_iff)
  then show ?thesis
    using assms(1) by (cases "row < length cells")
      (auto simp: values_ok_def list_all_length nth_list_update list_all_iff subset_iff)
qed

lemma put_gravity:
  assumes "shape_ok cells" "gravity cells" "row < 6" "col < 7" "v \<noteq> 0"
    and below: "\<And>r. row < r \<Longrightarrow> r < 6 \<Longrightarrow> cells ! r ! col \<noteq> 0"
  shows "gravity (cells[row := (cells ! row)[col := v]])"
proof -
  have "cells[row := (cells ! row)[col := v]] ! Suc r ! c \<noteq> 0"
    if r: "r < 5" and c: "c < 7" and n: "cells[row := (cells ! row)[col := v]] ! r ! c \<noteq> 0" for r c
  proof -
    have "cells ! Suc r ! c \<noteq> 0 \<or> (r = row \<and> c = col)"
      using n gravityD[OF assms(2) r c] put_nth[OF assms(1,3,4), of r c v] r c by (auto split: if_splits)
    then show ?thesis
      using below[of "Suc r"] put_nth[OF assms(1,3,4), of "Suc r" c v] r c assms(5) by auto
  qed
  then show ?thesis by (simp add: gravity_def list_all_length ROWS_def COLS_def)
qed

lemma count_list_update:
  assumes "i < length xs" "xs ! i = 0" "v \<noteq> 0" "x \<noteq> (0::nat)"
  shows "count_list (xs[i := v]) x = count_list xs x + (if x = v then 1 else 0)"
  using assms by (induction xs arbitrary: i) (auto split: nat.splits)

lemma put_discs:
  assumes "shape_ok cells" "row < 6" "col < 7" "cells ! row ! col = 0" "v \<noteq> 0" "player \<noteq> 0"
  shows "discs (cells[row := (cells ! row)[col := v]]) player = discs cells player + (if player = v then 1 else 0)"
proof -
  have row: "row < length cells" and col: "col < length (cells ! row)"
    using shape_rows[OF assms(1)] shape_cols[OF assms(1) assms(2)] assms(2,3) by simp_all
  let ?cs = "map (\<lambda>row. count_list row player) cells"
  have "discs (cells[row := (cells ! row)[col := v]]) player
      = sum_list (?cs[row := count_list ((cells ! row)[col := v]) player])"
    by (simp add: discs_def map_update)
  also have "\<dots> = sum_list (?cs[row := ?cs ! row + (if player = v then 1 else 0)])"
    using count_list_update[OF col assms(4,5,6)] row by simp
  also have "\<dots> = sum_list ?cs + (if player = v then 1 else 0)"
    using row elem_le_sum_list[of row ?cs] by (subst sum_list_update) simp_all
  finally show ?thesis by (simp add: discs_def)
qed

text \<open>A new disc makes a line of four exactly when one goes through it.\<close>

lemma put_four:
  assumes "shape_ok cells" "row < 6" "col < 7" "cells ! row ! col = 0" "v \<noteq> 0" "player \<noteq> 0"
    and no: "\<not> four cells player"
  shows "four (cells[row := (cells ! row)[col := v]]) player \<longleftrightarrow>
         player = v \<and> wins_at (cells[row := (cells ! row)[col := v]]) row col v"
    (is "four ?new player \<longleftrightarrow> _")
proof
  have here: "has_disc ?new v (int row, int col)"
    using put_has_disc[OF assms(1-3), of v v "(int row, int col)"] by simp
  show "four ?new player" if "player = v \<and> wins_at ?new row col v"
    using that wins_at_iff[OF here] unfolding four_iff by blast
  assume "four ?new player"
  then obtain p d where d: "d \<in> set dirs" and l: "line4 ?new player p d" by (auto simp: four_iff)
  have "\<not> line4 cells player p d" using no d unfolding four_iff by blast
  then obtain k where k: "k < 4" "\<not> has_disc cells player (step_to p d (int k))"
    by (auto simp: line4_iff)
  have h: "has_disc ?new player (step_to p d (int k))" using l k(1) by (simp add: line4_iff)
  then have at: "step_to p d (int k) = (int row, int col)" and pv: "player = v"
    using k(2) put_has_disc[OF assms(1-3), of v player "step_to p d (int k)"] by (auto split: if_splits)
  have "p = step_to (int row, int col) d (- int k)"
    unfolding at[symmetric] step_to_step by simp
  then have "line4 ?new v (step_to (int row, int col) d (- int k)) d" using l pv by simp
  then show "player = v \<and> wins_at ?new row col v"
    using wins_at_iff[OF here] d k(1) pv by blast
qed

section \<open>The match invariant\<close>

lemma apply_move_ok:
  assumes ok: "match_ok start b" and w: "c4_winner b = WIN_NONE" and start: "start \<le> 1"
    and who: "player = (if c4_turn b = TURN_HOST then 1 else 2)"
  shows "match_ok start (apply_move col player b)"
proof (cases "drop_disc (c4_cell b) col player")
  case None
  with ok show ?thesis by (simp add: apply_move_def)
next
  case (Some rc)
  obtain row cells where rc: "rc = (row, cells)" by (cases rc)
  let ?old = "c4_cell b"
  have o: "shape_ok ?old" "values_ok ?old" "gravity ?old" "winner_ok b" "turns_ok start b"
    using ok by (simp_all add: match_ok_def)
  have d: "drop_disc ?old col player = Some (row, cells)" using Some rc by simp
  note pl = drop_disc_place[OF o(3) d]
  have p12: "player = 1 \<or> player = 2" "player \<noteq> 0" "player \<le> 2" using who by auto
  have nofour: "\<not> four ?old 1" "\<not> four ?old 2"
    using o(4) w by (simp_all add: winner_ok_def c4_consts)
  have good: "shape_ok cells" "values_ok cells" "gravity cells"
    unfolding pl(4) using put_shape[OF o(1)] put_values[OF o(2) p12(3)]
      put_gravity[OF o(1,3) pl(2,1) p12(2) pl(5)] by blast+
  have four: "four cells q \<longleftrightarrow> q = player \<and> wins_at cells row col player" if "q = 1 \<or> q = 2" for q
    using put_four[OF o(1) pl(2,1,3) p12(2), of q] nofour that unfolding pl(4) by fastforce
  have turn1: "c4_turn b \<le> 1" using o(5) by (simp add: turns_ok_def)
  have d0: "discs ?old 1 + (if start = TURN_CLIENT \<and> c4_turn b = TURN_HOST then 1 else 0)
        = discs ?old 2 + (if start = TURN_HOST \<and> c4_turn b = TURN_CLIENT then 1 else 0)"
    using o(5) w by (simp add: turns_ok_def)
  have discs: "discs cells q = discs ?old q + (if q = player then 1 else 0)" if "q \<noteq> 0" for q
    unfolding pl(4) by (rule put_discs[OF o(1) pl(2,1,3) p12(2) that])
  show ?thesis
  proof (cases "wins_at cells row col player")
    case True
    then have "apply_move col player b
        = b\<lparr> c4_cell := cells, c4_winner := (if player = 1 then WIN_HOST else WIN_CLIENT) \<rparr>"
      by (simp add: apply_move_def d)
    then show ?thesis
      using good four[of 1] four[of 2] True p12(1) turn1
      by (auto simp: match_ok_def winner_ok_def turns_ok_def c4_consts)
  next
    case no: False
    show ?thesis
    proof (cases "board_full cells")
      case True
      then have "apply_move col player b = b\<lparr> c4_cell := cells, c4_winner := WIN_DRAW \<rparr>"
        using no by (simp add: apply_move_def d)
      then show ?thesis
        using good four[of 1] four[of 2] True no turn1
        by (simp add: match_ok_def winner_ok_def turns_ok_def c4_consts)
    next
      case False
      then have eq: "apply_move col player b = b\<lparr> c4_cell := cells,
          c4_turn := (if c4_turn b = TURN_HOST then TURN_CLIENT else TURN_HOST) \<rparr>"
        using no by (simp add: apply_move_def d)
      have "turns_ok start (apply_move col player b)"
        using d0 turn1 who start discs[of 1] discs[of 2] unfolding eq
        by (auto simp: turns_ok_def c4_consts split: if_splits)
      then show ?thesis
        using good four[of 1] four[of 2] False no w unfolding eq
        by (simp add: match_ok_def winner_ok_def c4_consts)
    qed
  qed
qed

lemma apply_move_winner:
  assumes "c4_winner b \<noteq> WIN_NONE"
  shows "c4_winner (apply_move col player b) \<noteq> WIN_NONE"
  using assms by (auto simp: apply_move_def Let_def c4_consts split: option.splits)

lemma start_ok:
  assumes "start \<le> 1"
  shows "match_ok start (h_board (host_start start))"
proof -
  have "shape_ok empty_cells" "values_ok empty_cells" "gravity empty_cells" "\<not> four empty_cells 1"
    "\<not> four empty_cells 2" "\<not> board_full empty_cells" "discs empty_cells 1 = 0" "discs empty_cells 2 = 0"
    by code_simp+
  with assms show ?thesis
    by (auto simp: match_ok_def host_start_def winner_ok_def turns_ok_def c4_consts)
qed

subsection \<open>What is read back is what was sent\<close>

lemma rows_of_concat:
  "length cells = n \<Longrightarrow> list_all (\<lambda>row. length row = COLS) cells \<Longrightarrow> rows_of n (concat cells) = cells"
  by (induction cells arbitrary: n) auto

lemma length_concat_rows: "list_all (\<lambda>row. length row = n) xss \<Longrightarrow> length (concat xss) = length xss * n"
  by (induction xss) auto

lemma read_state_packet:
  assumes "shape_ok (c4_cell b)"
  shows "read_state (state_packet b e @ pad) = Some (b, e)"
proof -
  let ?xs = "concat (c4_cell b)"
  have n: "length ?xs = 42"
    using length_concat_rows[of COLS "c4_cell b"] assms by (simp add: shape_ok_def ROWS_def COLS_def)
  have r: "rows_of ROWS ?xs = c4_cell b"
    using rows_of_concat[of "c4_cell b" ROWS] assms by (simp add: shape_ok_def)
  show ?thesis
    using n r by (simp add: read_state_def state_packet_def ROWS_def COLS_def nth_append)
qed

section \<open>Rounds of the host\<close>

text \<open>While the match goes on, the host's board is in order, fewer than three violations
  are counted, and every packet sent shows the client the host's board.\<close>

definition host_ok :: "nat \<Rightarrow> c4_host \<Rightarrow> bool" where
  "host_ok start h \<longleftrightarrow> match_ok start (h_board h) \<and> h_cursor h < COLS \<and> h_violations h < AC_THRESHOLD"

lemma host_okD:
  assumes "host_ok start h"
  shows "match_ok start (h_board h)" "shape_ok (c4_cell (h_board h))" "h_cursor h < COLS"
    "h_violations h < AC_THRESHOLD" "c4_turn (h_board h) \<le> 1"
  using assms by (simp_all add: host_ok_def match_ok_def turns_ok_def)

definition round_ok :: "nat \<Rightarrow> c4_host c4_round \<Rightarrow> bool" where
  "round_ok start r \<longleftrightarrow>
     (case r of
        Round_Go h sent \<Rightarrow>
          host_ok start h \<and> list_all (\<lambda>p. read_state p = Some (h_board h, END_NONE)) sent
      | Round_End reason h sent \<Rightarrow>
          match_ok start (h_board h) \<and> h_violations h \<le> AC_THRESHOLD \<and>
          (h_violations h = AC_THRESHOLD \<longleftrightarrow> reason = END_ANTICHEAT) \<and>
          (reason = END_NONE \<longleftrightarrow> c4_winner (h_board h) \<noteq> WIN_NONE) \<and>
          list_all (\<lambda>p. read_state p = Some (h_board h, reason)) sent)"

lemma host_key_ok:
  assumes "host_ok start h" "start \<le> 1" "c4_turn (h_board h) = TURN_HOST" "c4_winner (h_board h) = WIN_NONE"
  shows "round_ok start (host_key h key)"
proof -
  note o = host_okD[OF assms(1)]
  have m: "match_ok start (apply_move (h_cursor h) 1 (h_board h))"
    by (rule apply_move_ok[OF o(1) assms(4,2)]) (simp add: assms(3))
  then have "shape_ok (c4_cell (apply_move (h_cursor h) 1 (h_board h)))" by (simp add: match_ok_def)
  note rd = read_state_packet[OF this, of _ "[]", simplified] read_state_packet[OF o(2), of _ "[]", simplified]
  have "move_cursor key (h_cursor h) < COLS"
    using o(3) by (cases key) (auto simp: move_cursor_def COLS_def)
  then show ?thesis
    using o m rd assms(4)
    by (cases key) (simp_all add: host_key_def round_ok_def host_ok_def Let_def
        AC_THRESHOLD_def END_QUIT_def END_NONE_def END_ANTICHEAT_def)
qed

lemma host_packet_ok:
  assumes "host_ok start h" "start \<le> 1" "c4_turn (h_board h) \<noteq> TURN_HOST" "c4_winner (h_board h) = WIN_NONE"
  shows "round_ok start (host_packet h rx)"
proof -
  note o = host_okD[OF assms(1)]
  have m: "match_ok start (apply_move (rx ! 2) 2 (h_board h))"
    by (rule apply_move_ok[OF o(1) assms(4,2)]) (simp add: assms(3))
  then have "shape_ok (c4_cell (apply_move (rx ! 2) 2 (h_board h)))" by (simp add: match_ok_def)
  note rd = read_state_packet[OF this, of _ "[]", simplified] read_state_packet[OF o(2), of _ "[]", simplified]
  show ?thesis
    using o m rd assms(4)
    by (simp add: host_packet_def round_ok_def host_ok_def Let_def AC_THRESHOLD_def
        END_QUIT_def END_NONE_def END_ANTICHEAT_def)
qed

lemma host_round_ok:
  assumes "host_ok start h" "start \<le> 1"
  shows "round_ok start (host_round h ev)"
proof -
  note o = host_okD[OF assms(1)]
  note rd = read_state_packet[OF o(2), of _ "[]", simplified]
  consider "c4_winner (h_board h) \<noteq> WIN_NONE"
    | "c4_winner (h_board h) = WIN_NONE" "c4_turn (h_board h) = TURN_HOST"
    | "c4_winner (h_board h) = WIN_NONE" "c4_turn (h_board h) \<noteq> TURN_HOST" by blast
  then show ?thesis
  proof cases
    case 1
    then show ?thesis
      using o rd by (simp add: host_round_def round_ok_def AC_THRESHOLD_def END_NONE_def END_ANTICHEAT_def)
  next
    case 2
    then show ?thesis using host_key_ok[OF assms 2(2,1)] by (simp add: host_round_def)
  next
    case 3
    then show ?thesis
      using host_packet_ok[OF assms 3(2,1)] o rd assms(1)
      by (cases "ev_packet ev")
        (simp_all add: host_round_def round_ok_def AC_THRESHOLD_def END_NONE_def END_QUIT_def END_ANTICHEAT_def)
  qed
qed

text \<open>The match as a whole: the last packet sent shows the final board, except that
  nothing answers a client that says goodbye.\<close>

definition match_end_ok :: "nat \<Rightarrow> nat option \<times> c4_host \<Rightarrow> bool" where
  "match_end_ok start m \<longleftrightarrow>
     (let (reason, h) = m in
      match_ok start (h_board h) \<and> h_violations h \<le> AC_THRESHOLD \<and>
      (h_violations h = AC_THRESHOLD \<longleftrightarrow> reason = Some END_ANTICHEAT) \<and>
      (reason = Some END_NONE \<longrightarrow> c4_winner (h_board h) \<noteq> WIN_NONE))"

lemma play_host_ok:
  assumes "host_ok start h" "start \<le> 1" "play_host h evs = (reason, h', sent)"
    and before: "read_state p = Some (h_board h, END_NONE)"
  shows "match_end_ok start (reason, h') \<and>
         (\<exists>e. read_state (last (p # sent)) = Some (h_board h', e) \<and> (e = END_NONE \<or> reason = Some e))"
  using assms(1,3) before
proof (induction evs arbitrary: h sent p)
  case Nil
  then show ?case by (auto simp: match_end_ok_def host_ok_def)
next
  case (Cons ev evs)
  have rok: "round_ok start (host_round h ev)" by (rule host_round_ok[OF Cons.prems(1) assms(2)])
  show ?case
  proof (cases "host_round h ev")
    case (Round_Go h1 s1)
    obtain s2 where rest: "play_host h1 evs = (reason, h', s2)" and sent: "sent = s1 @ s2"
      using Cons.prems(2) Round_Go by (auto split: prod.splits)
    have ok1: "host_ok start h1" and s1: "list_all (\<lambda>p. read_state p = Some (h_board h1, END_NONE)) s1"
      using rok Round_Go by (simp_all add: round_ok_def)
    have same: "s1 = [] \<Longrightarrow> h_board h1 = h_board h"
      using Round_Go
      by (auto simp: host_round_def host_key_def host_packet_def Let_def
          split: if_splits c4_key.splits option.splits)
    have "read_state (last (p # s1)) = Some (h_board h1, END_NONE)"
      using s1 same Cons.prems(3) by (cases s1 rule: rev_cases) auto
    from Cons.IH[OF ok1 rest this] show ?thesis
      unfolding sent by (cases s2) (auto simp: last_append)
  next
    case (Round_End r h1 s1)
    then have eq: "reason = Some r" "h' = h1" "sent = s1" using Cons.prems(2) by simp_all
    have same: "s1 = [] \<Longrightarrow> h_board h1 = h_board h"
      using Round_End
      by (auto simp: host_round_def host_key_def host_packet_def Let_def
          split: if_splits c4_key.splits option.splits)
    have "\<exists>e. read_state (last (p # s1)) = Some (h_board h1, e) \<and> (e = END_NONE \<or> r = e)"
      using rok Round_End same Cons.prems(3) by (cases s1 rule: rev_cases) (auto simp: round_ok_def)
    then show ?thesis
      using rok Round_End unfolding eq by (auto simp: round_ok_def match_end_ok_def)
  qed
qed

section \<open>Properties\<close>


text \<open>A match the host wins with a column of four, the client sending one bad move on the way.\<close>

definition press :: "c4_key \<Rightarrow> c4_event" where
  "press k = \<lparr> ev_key = k, ev_packet = None \<rparr>"

definition packet :: "nat list \<Rightarrow> c4_event" where
  "packet p = \<lparr> ev_key = Key_None, ev_packet = Some p \<rparr>"

definition sample_match :: "c4_event list" where
  "sample_match =
     [press Key_Ok, packet (move_packet 1 0), press Key_Ok, packet (move_packet 2 9),
      packet (move_packet 3 1), press Key_Ok, packet (move_packet 4 0), press Key_Ok, press Key_None]"


text \<open>The client sees what the host decides. The last state packet of a match, as the client
  reads it, is the host's final board, and its end reason is the reason the match
  ended with, or none (the match goes on, or ended by the client's own goodbye).\<close>

theorem last_packet_shows_board:
  assumes "start \<le> 1" "host_match start evs = (reason, h, sent)"
  shows "\<exists>e. read_state (last sent) = Some (h_board h, e) \<and> (e = END_NONE \<or> reason = Some e)"
proof -
  have ok: "host_ok start (host_start start)"
    using start_ok[OF assms(1)] by (simp add: host_ok_def host_start_def COLS_def AC_THRESHOLD_def)
  obtain s where p: "play_host (host_start start) evs = (reason, h, s)"
    and s: "sent = state_packet (h_board (host_start start)) END_NONE # s"
    using assms(2) by (auto simp: host_match_def split: prod.splits)
  show ?thesis
    unfolding s
    by (rule conjunct2[OF play_host_ok[OF ok assms(1) p
          read_state_packet[OF host_okD(2)[OF ok], of _ "[]", simplified]]])
qed

definition cheat_match :: "c4_event list" where
  "cheat_match = replicate 4 (packet (move_packet 1 9))"

theorem last_packet_shows_board_witness:
  "(let (reason, h, sent) = host_match 1 cheat_match in
     reason = Some END_ANTICHEAT \<and> length sent = 4 \<and> read_state (last sent) \<noteq> None)"
proof -
  obtain reason h sent where m: "host_match 1 cheat_match = (reason, h, sent)"
    using prod_cases3 by blast
  have "(let (reason, h, sent) = host_match 1 cheat_match in
     reason = Some END_ANTICHEAT \<and> length sent = 4)" by code_simp
  then show ?thesis using last_packet_shows_board[OF _ m] m by auto
qed

text \<open>A client that hears nothing while it waits gives up after 61 rounds, not sooner.\<close>

lemma client_times_out:
  assumes "c4_turn (cl_board cl) \<noteq> TURN_CLIENT" "c4_winner (cl_board cl) = WIN_NONE"
  shows "fst (play_client cl (replicate n (Key_None, []))) =
         (if cl_stale cl + n > 60 \<and> n > 0 then Some END_TIMEOUT else None)"
  using assms
proof (induction n arbitrary: cl)
  case (Suc n)
  have wait: "client_round cl Key_None [] =
      (if cl_stale cl + 1 > 60 then Round_End END_TIMEOUT (cl\<lparr> cl_stale := cl_stale cl + 1 \<rparr>) []
       else Round_Go (cl\<lparr> cl_stale := cl_stale cl + 1 \<rparr>) [])"
    using Suc.prems by (simp add: client_round_def client_wait_def Let_def)
  show ?case
  proof (cases "cl_stale cl + 1 > 60")
    case True
    then show ?thesis by (simp add: wait)
  next
    case False
    then show ?thesis
      using Suc.IH[of "cl\<lparr> cl_stale := cl_stale cl + 1 \<rparr>"] Suc.prems
      by (auto simp: wait split: prod.splits)
  qed
qed simp

end
