(* ===== verification/Spec2Isabelle.thy ===== *)
theory Spec2Isabelle
  imports Strings Settings Boot Manifest AppLoader VM Broker FileBrowser Rtc BgScheduler Keypad
    BleMsg AppPool Battery Kbd Eeprom Lrv Http WebDav Crypto Loader SerialMgr SdkSession SdkInput Consent
    G2048 Tetris Connect4
begin

text \<open>
  jppdos: the core services of an ESP32-C6 firmware that runs MicroPython and native apps
  from an SD card, with a five-key resistor-ladder keypad, a 128 x 64 display and an
  optional real-time clock.

  How the parts interact. The boot sequence (Boot) records which services came up and in
  which order; it embeds the result of the settings classification (Settings). The VM
  runtime (VM) starts only on a complete boot record, validates its paths and module
  roots, decides which imports an app may make, and queues the requests of several
  producer tasks for its owner task. Apps are described by a manifest (Manifest), which
  the app loader (AppLoader) checks against the entry file before a launch; the background
  section of an accepted manifest goes to the scheduler (BgScheduler), which asks the
  clock (Rtc) for the time and answers which task is due. A launched app, or a server,
  takes the memory pool (AppPool). Services are called through the broker (Broker), which
  runs an operation while its resource is locked. The keypad (Keypad) turns voltages into
  events for the on-screen keyboard (Kbd) and the file browser (FileBrowser). BleMsg moves
  long messages over Bluetooth writes, and Battery reads the charge. Names and
  paths are checked with the string helpers (Strings). The launch identity (Lrv) lives in
  an EEPROM (Eeprom). The HTTP server (Http) lives in the memory pool and calls one handler;
  the WebDAV file server (WebDav) is such a handler, which shares the SD card behind a
  password. The native loader (Loader) links an app, and beside it one code module, into the
  memory pool. The serial manager (SerialMgr) gives a host on the USB port, after the user has
  agreed, the files of the card, the clock and the identity. The crypto core (Crypto) gives apps signatures, ciphers and key exchange.
  What an app sees of all this is the SDK bridge (Sdk, SdkNet, SdkUi, SdkInput): calls that
  check their arguments, ask the user for a capability, a path or an origin when it is first
  needed, and run a service under the broker's lock; and the modal screens on the key queue,
  which use the keyboard and the file browser. SdkSession puts the calls together into
  sessions of an app. The questions to the user, and what is remembered of the answers, are
  in Consent. The games 2048 (G2048), tetris (Tetris) and connect four (Connect4) are apps on
  the function table of their hub (Games).

  Theories and sources (paths under src/, core files under src/components/jpp_core).
  Base: C strings, segments of paths, C division, runs of operations, and the contracts
  (locales) the components share: kept_invariant, atomic_machine, codec, bounded_fifo.
  Strings: include/jpp_string_util.h. Settings: jpp_settings_core.c. Boot: jpp_boot_core.c.
  Manifest: jpp_manifest_core.c. AppLoader: jpp_app_loader_core.c. VM: jpp_vm_core.c.
  Broker: jpp_broker_core.c. FileBrowser: jpp_file_browser_core.c and the scrolling
  helpers of jpp_ui_core.c. Rtc: jpp_rtc_core.c. BgScheduler: main/jpp_bg_scheduler.c.
  Keypad: jpp_keypad_core.c. Battery: jpp_battery_core.c. Kbd: jpp_kbd_core.c.
  AppPool: components/jpp_app_pool. BleMsg: apps/common/jpp_ble_msg.c.
  Eeprom: jpp_eeprom_core.c. Lrv: main/jpp_lrv.c. CText: the functions of the C library on
  texts that the servers use. Http: jpp_http_server_core.c. WebDav: jpp_fileserver_core.c.
  SerialMgr: main/jpp_serial_mgr.c and main/jpp_file_util.c. Crypto: components/jpp_crypto_core. Loader: components/jpp_native_loader_core.
  Sdk: jpp_sdk_bridge.c, the context, screen, keys, capabilities, files and handles.
  SdkNet: its radio, network, message, module, key-value, buzzer and LED calls. SdkUi: its
  text wrapping, dialog, confirm and list. SdkInput: its keyboard entry, date and time
  picker and file picker. SdkSession: sequences of its calls. Consent:
  main/jpp_app_dispatch.c, the part about consent, and the path prompt of
  main/jpp_native_services.c.
  Games: apps/games/include/games_api.h. G2048, Tetris, Connect4: g2048.c, tetris.c and
  connect4.c in apps/games/src/mod.
  Definitions carry the C names without the jpp_ prefix; a struct is a record whose fields
  have the C names behind a short prefix, an enum a datatype. An array with its count is
  one list, a C string the list of its characters, a pointer the code compares with NULL
  an option. Operations take and return the state; refusals are status values.

  What the lemmas show. Each component has an invariant kept by every operation and
  interprets the contract it fulfils on its own operations: the boot record and the pool
  are machines that keep their invariant, the VM ring is a bounded FIFO, the BCD registers
  of the clock, the little-endian numbers and hex frames of a message, and the schedule
  file are codecs. Validators are characterised by what they accept (names, paths,
  cron expressions, manifests, imports, settings, launches). The clock is shown to be
  seconds arithmetic on the day count of days_from_civil, and the cron matcher to agree
  with the validator. The message protocol delivers what was sent and accepts nothing
  its BEGIN frame did not announce. The pool never hands out overlapping memory. The
  keypad reports every click once. The keyboard stays in its buffers, can enter every
  text of its layout, and draws each key where its cell is, down to the pixel. A write to
  the EEPROM refines an assignment to a byte array, and a stored identity is loaded again
  and never replaced, whatever write fails on the way. The HTTP server reads what was sent
  and frames what it sends, over any division of the byte stream; the file server lets in
  exactly its password, stays below its root, and a file it says it created holds what was
  declared. The serial manager does nothing before consent, stays on the card, takes exactly
  the frames that are on the line, and moves files both ways unchanged. A linked image has what the RISC-V psABI prescribes in every relocated word, and
  a module load never touches its host app. Signers of a MuSig2 session that follow the
  protocol get a valid signature, and IGE decryption inverts encryption. The SDK bridge is
  confined: two sets of services that agree on an app's own directories and mailboxes, on
  what the user approves and on the services of its capabilities cannot be told apart by any
  session of the app (an unwinding proof, call by call, with an invariant of the context).
  The origin shown for a web request names exactly the server; the modals share a contract
  (modal_contract: an invariant of the state under which no step leaves an array) that
  confirm, list, dialog and the keyboard interpret, and what is confirmed is what the screen
  shows. A capability or a web origin is granted only by OK on a screen that showed what it
  is for, and remembered for exactly that app. The games play by their rules: slides of 2048 agree with a reference, locking a
  tetris piece removes exactly the full rows, no session leaves the board, and a match of
  connect four keeps the rules on both ends whatever packets arrive.

  Machine integers and bounds. Words are used where the code relies on the width: sizes
  and the bump pointer of the pool, run times and intervals of the scheduler, bytes and
  sequence numbers of a frame (which wrap at 65536), the digits of a cron number, BCD
  bytes. Other C ints are HOL ints with the conversions written out (to_int32); the
  hypotheses of the battery property keep its intermediate values inside 32 bits. No
  definition needs fuel: loops are structural recursions over the data they traverse, or
  have a measure (the remaining length of a message or a send, the time left to wait, the
  rows below a falling piece, the events a modal has not taken yet). Loops whose end the code leaves to the outside are partial
  functions in the option type, with None for not returning: the polling of the EEPROM,
  which is shown to return, and in the servers the connection and accept loops, the body
  of an upload, the file of a download and the recursive delete, for which the properties
  say what holds of every run that answers. Unbounded input (keys, deliveries, polls) is a
  list.

  What is outside. Drivers, the file system, sockets, cJSON, the Bluetooth stack, the
  signature functions, libsodium, mbedTLS and FreeRTOS are parameters or arguments: what a transfer, a read, a
  listing or a write answers. Logging, task creation, delays, and the drawing and sound of
  the games are left out. The services behind the SDK (main/jpp_native_services.c) are
  callbacks over a world; a callback with an out parameter runs over the world and the
  parameter. The key queue of a modal is the list of the events delivered to it.

  Not modelled. The buzzer melodies, the menus and forms of jpp_ui_core.c, the HTTP front end
  of the launch identity, the other games and apps: independent parts that nothing here
  rests on. The main loop, the app dispatch and the settings screens glue services to
  screens, of which only the consent part is modelled. The MicroPython host, the radio
  services, the other service callbacks and vendored code
  are written against APIs that are not in the repository.
\<close>

end
